(* ===== verification/Prelude.thy ===== *)
theory Prelude
  imports Main "HOL-Library.AList" "HOL-Library.Word" "HOL-Library.Log_Nat"
begin

text \<open>
  Shared vocabulary of the development: byte strings, the association-list dictionaries that
  stand for Python dicts (insertion order kept, one entry per key), the sequencing of fallible
  steps, and the generic list and dictionary lemmas the components use.
\<close>

section \<open>Lemma collections\<close>

named_theorems dict_simps \<open>rewriting of dictionary lookups and updates\<close>
named_theorems op_defs \<open>unfolding of the one-step operations of the components\<close>

section \<open>Types\<close>

type_synonym byte = "8 word"
type_synonym bytes = "byte list"
type_synonym 'a dict = "(string \<times> 'a) list"
type_synonym clock = rat \<comment> \<open>a reading of \<open>time.time()\<close>: a float is a rational number\<close>

section \<open>Dictionaries\<close>

text \<open>\<open>d[k] = v\<close> keeps the position of an existing key and appends a new one.\<close>

abbreviation dict_set :: "string \<Rightarrow> 'a \<Rightarrow> 'a dict \<Rightarrow> 'a dict" where
  "dict_set k v d \<equiv> AList.update k v d"

definition dict_has :: "'a dict \<Rightarrow> string \<Rightarrow> bool" where
  "dict_has d k = (map_of d k \<noteq> None)"

definition dict_keys :: "'a dict \<Rightarrow> string list" where
  "dict_keys d = map fst d"

text \<open>\<open>d.pop(k, None)\<close> and \<open>del d[k]\<close>.\<close>

definition dict_pop :: "string \<Rightarrow> 'a dict \<Rightarrow> 'a dict" where
  "dict_pop k d = filter (\<lambda>(k', _). k' \<noteq> k) d"

text \<open>\<open>d.update(ps)\<close>, or building a dict from pairs: later pairs win.\<close>

definition dict_of_pairs :: "(string \<times> 'a) list \<Rightarrow> 'a dict" where
  "dict_of_pairs ps = fold (\<lambda>(k, v) d. dict_set k v d) ps []"

lemma map_of_dict_set [simp, dict_simps]:
  "map_of (dict_set k v d) k' = (if k' = k then Some v else map_of d k')"
  by (simp add: update_conv')

lemma map_of_dict_pop [simp, dict_simps]:
  "map_of (dict_pop k d) k' = (if k' = k then None else map_of d k')"
  by (induction d) (auto simp: dict_pop_def)

lemma dict_has_set [simp, dict_simps]: "dict_has (dict_set k v d) k' = (k' = k \<or> dict_has d k')"
  by (simp add: dict_has_def)

lemma dict_has_keys: "dict_has d k = (k \<in> set (dict_keys d))"
  by (simp add: dict_has_def dict_keys_def map_of_eq_None_iff)

lemma dict_keys_set:
  "dict_keys (dict_set k v d) = (if k \<in> set (dict_keys d) then dict_keys d else dict_keys d @ [k])"
  by (induction d) (auto simp: dict_keys_def)

lemma distinct_dict_set [intro]: "distinct (dict_keys d) \<Longrightarrow> distinct (dict_keys (dict_set k v d))"
  by (simp add: dict_keys_set)

lemma dict_set_fresh: "k \<notin> fst ` set d \<Longrightarrow> dict_set k v d = d @ [(k, v)]"
  by (induction d) auto

lemma fold_dict_set_fresh:
  "distinct (map fst ps) \<Longrightarrow> fst ` set ps \<inter> fst ` set d = {} \<Longrightarrow>
   fold (\<lambda>(k, v) d. dict_set k v d) ps d = d @ ps"
proof (induction ps arbitrary: d)
  case (Cons p ps)
  obtain k v where p: "p = (k, v)" by (cases p)
  have "dict_set k v d = d @ [(k, v)]"
    using Cons.prems(2) p by (intro dict_set_fresh) auto
  moreover have "fold (\<lambda>(k, v) d. dict_set k v d) ps (d @ [(k, v)]) = (d @ [(k, v)]) @ ps"
    using Cons.prems p by (intro Cons.IH) auto
  ultimately show ?case by (simp add: p)
qed simp

lemma dict_of_pairs_distinct: "distinct (map fst ps) \<Longrightarrow> dict_of_pairs ps = ps"
  by (simp add: dict_of_pairs_def fold_dict_set_fresh)

lemma distinct_dict_of_pairs: "distinct (dict_keys (dict_of_pairs ps))"
proof -
  have "distinct (dict_keys d) \<Longrightarrow> distinct (dict_keys (fold (\<lambda>(k, v) d. dict_set k v d) ps d))" for d
    by (induction ps arbitrary: d) (auto simp: distinct_dict_set split: prod.split)
  then show ?thesis by (simp add: dict_of_pairs_def dict_keys_def)
qed

section \<open>Sequencing of fallible steps\<close>

text \<open>
  A step that may raise returns a sum: \<open>Inl\<close> the exception, \<open>Inr\<close> the value. \<open>rbind\<close> runs the
  continuation only when nothing was raised.
\<close>

definition rbind :: "'e + 'a \<Rightarrow> ('a \<Rightarrow> 'e + 'b) \<Rightarrow> 'e + 'b" where
  "rbind m f = (case m of Inl e \<Rightarrow> Inl e | Inr x \<Rightarrow> f x)"

lemma rbind_simps [simp]:
  "rbind (Inl e) f = Inl e"
  "rbind (Inr x) f = f x"
  by (simp_all add: rbind_def)

lemma rbind_Inr_iff: "rbind m f = Inr y \<longleftrightarrow> (\<exists>x. m = Inr x \<and> f x = Inr y)"
  by (cases m) auto

lemma rbind_InrE: "rbind m f = Inr y \<Longrightarrow> (\<And>x. m = Inr x \<Longrightarrow> f x = Inr y \<Longrightarrow> P) \<Longrightarrow> P"
  by (cases m) auto

definition is_err :: "'e + 'a \<Rightarrow> bool" where
  "is_err r = (case r of Inl _ \<Rightarrow> True | Inr _ \<Rightarrow> False)"

lemma is_err_simps [simp]: "is_err (Inl e)" "\<not> is_err (Inr x)"
  by (simp_all add: is_err_def)

section \<open>Lists\<close>

text \<open>Python's \<open>xs[-n:]\<close>: the last \<open>n\<close> elements, and the whole list for \<open>n = 0\<close> (\<open>xs[-0:] = xs[0:]\<close>).\<close>

definition slice_from_neg :: "int \<Rightarrow> 'a list \<Rightarrow> 'a list" where
  "slice_from_neg n xs =
     (if n \<le> 0 then drop (nat (- n)) xs else drop (length xs - nat n) xs)"

lemma slice_from_neg_pos: "0 < n \<Longrightarrow> length (slice_from_neg n xs) = min (nat n) (length xs)"
  by (simp add: slice_from_neg_def)

lemma slice_from_neg_zero [simp]: "slice_from_neg 0 xs = xs"
  by (simp add: slice_from_neg_def)

text \<open>Reverse lookup in a dict: \<open>next((k for k, v in d.items() if v == x), default)\<close>.\<close>

definition key_with_value :: "'a dict \<Rightarrow> 'a \<Rightarrow> string option" where
  "key_with_value d x = map_option fst (find (\<lambda>(k, v). v = x) d)"

lemma key_with_value_Some:
  "distinct (map snd d) \<Longrightarrow> (k, v) \<in> set d \<Longrightarrow> key_with_value d v = Some k"
  by (induction d) (force simp: key_with_value_def)+

lemma key_with_value_None: "key_with_value d v = None \<longleftrightarrow> v \<notin> snd ` set d"
  by (induction d) (auto simp: key_with_value_def)

lemma key_with_value_mem: "key_with_value d v = Some k \<Longrightarrow> (k, v) \<in> set d"
  by (induction d) (auto simp: key_with_value_def split: if_splits)

end
