(* ===== verification/PyVal.thy ===== *)
theory PyVal
  imports Prelude
begin

text \<open>
  The Python values that travel in packets, and the operations of the language the source applies
  to them: truth, equality, ordering, subtraction, containment, \<open>len\<close>, \<open>hex\<close> and \<open>fromhex\<close>,
  UTF-8. An operation that Python refuses for a type returns the exception it raises. A \<open>str\<close> is
  the list of the bytes of its UTF-8 encoding, so equality, emptiness and order are Python's and
  only \<open>py_len\<close> has to count code points. A float is a rational number, an infinity or NaN;
  arithmetic rounds to the nearest IEEE double (\<open>fl\<close>), ties to even. The sign of zero is not kept.
\<close>

section \<open>Exceptions\<close>

datatype sig_failure =
    NoIdentity | UnknownSigner | NoSignature | HexNotStr | BadHex | NotBytes | BadSigSize nat
  | NoHeader | NoPayload

datatype decrypt_failure =
    MissingNodeId | NoSession | MissingNonce | MissingCiphertext | DecryptOther

datatype parse_failure =
    PacketTooShort nat | InvalidMagic nat | InvalidJson | MissingFields "string list"

datatype reencrypt_failure = NoValidatorSession | NoPayloadBytes | ReencryptOther

datatype exn =
    TypeErr | ValueErr | KeyErr | RuntimeErr | OverflowErr | StructErr | AttributeErr
  | IndexErr | ZeroDivisionErr | UnicodeDecodeErr | JSONDecodeErr | PermissionErr
  | InvalidTag | InvalidSignature
  | PacketParseError parse_failure
  | DecryptionError decrypt_failure
  | ReencryptionError reencrypt_failure
  | SignatureVerificationError sig_failure
  | PolicyLoadError | OutOfFuel

text \<open>The classes an \<open>except ValueError\<close> clause catches.\<close>

fun is_value_error :: "exn \<Rightarrow> bool" where
  "is_value_error ValueErr = True"
| "is_value_error UnicodeDecodeErr = True"
| "is_value_error JSONDecodeErr = True"
| "is_value_error _ = False"

type_synonym 'a res = "exn + 'a"

section \<open>Floats\<close>

datatype pyfloat = FNan | FPInf | FNInf | FFin rat

definition pow2 :: "int \<Rightarrow> rat" where
  "pow2 k = (if 0 \<le> k then 2 ^ nat k else 1 / 2 ^ nat (- k))"

text \<open>The exponent of a positive rational: \<open>2 ^ e \<le> q < 2 ^ (e + 1)\<close>.\<close>

definition rat_exponent :: "rat \<Rightarrow> int" where
  "rat_exponent q =
     (let (n, d) = quotient_of q; k = bitlen n - bitlen d
      in if pow2 k \<le> q then k else k - 1)"

definition round_half_even :: "rat \<Rightarrow> int" where
  "round_half_even q =
     (let f = \<lfloor>q\<rfloor>; r = q - of_int f
      in if r < 1 / 2 then f else if 1 / 2 < r then f + 1 else if even f then f else f + 1)"

text \<open>Rounding to the nearest IEEE 754 double: 53-bit significand, least exponent \<open>-1074\<close>.\<close>

definition fl_pos :: "rat \<Rightarrow> pyfloat" where
  "fl_pos q =
     (let u = max (rat_exponent q - 52) (- 1074);
          r = of_int (round_half_even (q / pow2 u)) * pow2 u
      in if 2 ^ 1024 \<le> r then FPInf else FFin r)"

fun fneg :: "pyfloat \<Rightarrow> pyfloat" where
  "fneg FNan = FNan"
| "fneg FPInf = FNInf"
| "fneg FNInf = FPInf"
| "fneg (FFin q) = FFin (- q)"

definition fl :: "rat \<Rightarrow> pyfloat" where
  "fl q = (if q = 0 then FFin 0 else if 0 < q then fl_pos q else fneg (fl_pos (- q)))"

fun fless :: "pyfloat \<Rightarrow> pyfloat \<Rightarrow> bool" where
  "fless (FFin a) (FFin b) = (a < b)"
| "fless FNInf (FFin _) = True"
| "fless FNInf FPInf = True"
| "fless (FFin _) FPInf = True"
| "fless _ _ = False"

fun feq :: "pyfloat \<Rightarrow> pyfloat \<Rightarrow> bool" where
  "feq (FFin a) (FFin b) = (a = b)"
| "feq FPInf FPInf = True"
| "feq FNInf FNInf = True"
| "feq _ _ = False"

definition fle :: "pyfloat \<Rightarrow> pyfloat \<Rightarrow> bool" where
  "fle a b = (fless a b \<or> feq a b)"

fun fsub :: "pyfloat \<Rightarrow> pyfloat \<Rightarrow> pyfloat" where
  "fsub (FFin a) (FFin b) = fl (a - b)"
| "fsub FPInf (FFin _) = FPInf"
| "fsub FNInf (FFin _) = FNInf"
| "fsub (FFin _) FPInf = FNInf"
| "fsub (FFin _) FNInf = FPInf"
| "fsub FPInf FNInf = FPInf"
| "fsub FNInf FPInf = FNInf"
| "fsub _ _ = FNan"

fun fabs :: "pyfloat \<Rightarrow> pyfloat" where
  "fabs (FFin q) = FFin \<bar>q\<bar>"
| "fabs FNInf = FPInf"
| "fabs x = x"

text \<open>\<open>round(x, n)\<close> of a float: the decimal rounding of its exact value, ties to even.\<close>

fun py_round :: "nat \<Rightarrow> pyfloat \<Rightarrow> pyfloat" where
  "py_round n (FFin q) = fl (of_int (round_half_even (q * 10 ^ n)) / 10 ^ n)"
| "py_round n x = x"

text \<open>\<open>max(a, b)\<close>: the first one unless the second is greater.\<close>

definition fmax :: "pyfloat \<Rightarrow> pyfloat \<Rightarrow> pyfloat" where
  "fmax a b = (if fless a b then b else a)"

definition float_int :: "int \<Rightarrow> pyfloat" where
  "float_int i = FFin (of_int i)"

lemma feq_FFin [simp]: "feq (FFin a) (FFin b) = (a = b)"
  by simp

lemma fle_FFin [simp]: "fle (FFin a) (FFin b) = (a \<le> b)"
  by (auto simp: fle_def)

lemma fless_nan [simp]: "\<not> fless FNan x" "\<not> fless x FNan"
  by (cases x, simp_all)+

section \<open>Values\<close>

datatype pyval =
    PNone | PBool bool | PInt int | PFloat pyfloat | PStr string | PBytes bytes
  | PList "pyval list" | PDict "(string \<times> pyval) list"

type_synonym pydict = "pyval dict"

text \<open>\<open>d.get(k)\<close> and \<open>d.get(k, default)\<close>; \<open>d[k]\<close> is \<open>dict_item\<close>.\<close>

definition dict_get :: "pydict \<Rightarrow> string \<Rightarrow> pyval" where
  "dict_get d k = (case map_of d k of None \<Rightarrow> PNone | Some v \<Rightarrow> v)"

definition dict_get_or :: "pydict \<Rightarrow> string \<Rightarrow> pyval \<Rightarrow> pyval" where
  "dict_get_or d k v0 = (case map_of d k of None \<Rightarrow> v0 | Some v \<Rightarrow> v)"

definition dict_item :: "pydict \<Rightarrow> string \<Rightarrow> pyval res" where
  "dict_item d k = (case map_of d k of None \<Rightarrow> Inl KeyErr | Some v \<Rightarrow> Inr v)"

lemma dict_get_set [simp, dict_simps]:
  "dict_get (dict_set k v d) k' = (if k' = k then v else dict_get d k')"
  "dict_get_or (dict_set k v d) k' w = (if k' = k then v else dict_get_or d k' w)"
  "dict_item (dict_set k v d) k' = (if k' = k then Inr v else dict_item d k')"
  by (simp_all add: dict_get_def dict_get_or_def dict_item_def)

fun truthy :: "pyval \<Rightarrow> bool" where
  "truthy PNone = False"
| "truthy (PBool b) = b"
| "truthy (PInt i) = (i \<noteq> 0)"
| "truthy (PFloat f) = (\<not> feq f (FFin 0))"
| "truthy (PStr s) = (s \<noteq> [])"
| "truthy (PBytes b) = (b \<noteq> [])"
| "truthy (PList xs) = (xs \<noteq> [])"
| "truthy (PDict d) = (d \<noteq> [])"

text \<open>\<open>a or b\<close>.\<close>

definition py_or :: "pyval \<Rightarrow> pyval \<Rightarrow> pyval" where
  "py_or a b = (if truthy a then a else b)"

lemma truthy_or [simp]: "truthy (py_or a b) = (truthy a \<or> truthy b)"
  by (simp add: py_or_def)

text \<open>The integer an \<open>int\<close> or \<open>bool\<close> object stands for (\<open>isinstance(v, int)\<close> covers both).\<close>

fun int_of :: "pyval \<Rightarrow> int option" where
  "int_of (PInt i) = Some i"
| "int_of (PBool b) = Some (if b then 1 else 0)"
| "int_of _ = None"

definition is_int :: "pyval \<Rightarrow> bool" where
  "is_int v = (int_of v \<noteq> None)"

text \<open>The numeric value of an \<open>int\<close>, \<open>bool\<close> or \<open>float\<close>; comparisons between them are exact.\<close>

fun num_of :: "pyval \<Rightarrow> pyfloat option" where
  "num_of (PInt i) = Some (FFin (of_int i))"
| "num_of (PBool b) = Some (FFin (if b then 1 else 0))"
| "num_of (PFloat f) = Some f"
| "num_of _ = None"

lemma num_of_int_of: "int_of v = Some n \<Longrightarrow> num_of v = Some (FFin (of_int n))"
  by (cases v) auto

text \<open>
  Order comparisons where one side is a number, the only ones the source makes: a
  \<open>TypeError\<close> unless both sides are numbers.
\<close>

definition py_cmp :: "(pyfloat \<Rightarrow> pyfloat \<Rightarrow> bool) \<Rightarrow> pyval \<Rightarrow> pyval \<Rightarrow> bool res" where
  "py_cmp R a b = (case (num_of a, num_of b) of
     (Some x, Some y) \<Rightarrow> Inr (R x y) | _ \<Rightarrow> Inl TypeErr)"

definition py_lt :: "pyval \<Rightarrow> pyval \<Rightarrow> bool res" where "py_lt = py_cmp fless"
definition py_le :: "pyval \<Rightarrow> pyval \<Rightarrow> bool res" where "py_le = py_cmp fle"
definition py_gt :: "pyval \<Rightarrow> pyval \<Rightarrow> bool res" where "py_gt a b = py_cmp fless b a"

lemma py_cmp_int [simp]:
  assumes "int_of a = Some m" and "int_of b = Some n"
  shows "py_lt a b = Inr (m < n)" and "py_le a b = Inr (m \<le> n)" and "py_gt a b = Inr (n < m)"
  using assms by (simp_all add: py_lt_def py_le_def py_gt_def py_cmp_def num_of_int_of)

text \<open>
  \<open>a == b\<close> where at least one side is a scalar (number, string, bytes or \<open>None\<close>): numbers compare
  by value across \<open>int\<close>, \<open>bool\<close> and \<open>float\<close>, everything else by type and content.
\<close>

definition py_eq :: "pyval \<Rightarrow> pyval \<Rightarrow> bool" where
  "py_eq a b = (case (num_of a, num_of b) of
     (Some x, Some y) \<Rightarrow> feq x y | (None, None) \<Rightarrow> a = b | _ \<Rightarrow> False)"

lemma py_eq_int [simp]: "int_of a = Some m \<Longrightarrow> int_of b = Some n \<Longrightarrow> py_eq a b = (m = n)"
  by (simp add: py_eq_def num_of_int_of)

lemma py_eq_str [simp]: "py_eq (PStr s) v = (v = PStr s)" "py_eq v (PStr s) = (v = PStr s)"
  by (cases v; auto simp: py_eq_def)+

text \<open>\<open>float(i)\<close> for an int operand of mixed arithmetic: \<open>OverflowError\<close> when it is too large.\<close>

definition float_of_int :: "int \<Rightarrow> pyfloat res" where
  "float_of_int i = (case fl (of_int i) of FFin q \<Rightarrow> Inr (FFin q) | _ \<Rightarrow> Inl OverflowErr)"

definition py_sub :: "pyval \<Rightarrow> pyval \<Rightarrow> pyval res" where
  "py_sub a b = (case (int_of a, int_of b) of
     (Some m, Some n) \<Rightarrow> Inr (PInt (m - n))
   | (Some m, None) \<Rightarrow> (case b of PFloat y \<Rightarrow> rbind (float_of_int m) (\<lambda>x. Inr (PFloat (fsub x y)))
                        | _ \<Rightarrow> Inl TypeErr)
   | (None, Some n) \<Rightarrow> (case a of PFloat x \<Rightarrow> rbind (float_of_int n) (\<lambda>y. Inr (PFloat (fsub x y)))
                        | _ \<Rightarrow> Inl TypeErr)
   | (None, None) \<Rightarrow> (case (a, b) of (PFloat x, PFloat y) \<Rightarrow> Inr (PFloat (fsub x y))
                        | _ \<Rightarrow> Inl TypeErr))"

definition py_abs :: "pyval \<Rightarrow> pyval res" where
  "py_abs a = (case int_of a of Some m \<Rightarrow> Inr (PInt \<bar>m\<bar>)
     | None \<Rightarrow> (case a of PFloat x \<Rightarrow> Inr (PFloat (fabs x)) | _ \<Rightarrow> Inl TypeErr))"

lemma py_sub_int [simp]:
  "int_of a = Some m \<Longrightarrow> int_of b = Some n \<Longrightarrow> py_sub a b = Inr (PInt (m - n))"
  by (simp add: py_sub_def)

text \<open>
  Dictionary and set keys: lists and dicts are not hashable; equal numbers are one key.
\<close>

fun hashable :: "pyval \<Rightarrow> bool" where
  "hashable (PList _) = False"
| "hashable (PDict _) = False"
| "hashable _ = True"

text \<open>
  A key of a dict or set of Python numbers: equal numbers are the same key. All NaNs are one key, as
  the ones \<open>json.loads\<close> returns are (they are one object, and \<open>in\<close> compares identity first).
\<close>

fun norm_key :: "pyval \<Rightarrow> pyval" where
  "norm_key (PBool b) = PInt (if b then 1 else 0)"
| "norm_key (PFloat (FFin q)) = (if of_int \<lfloor>q\<rfloor> = q then PInt \<lfloor>q\<rfloor> else PFloat (FFin q))"
| "norm_key v = v"

lemma norm_key_int: "int_of v = Some n \<Longrightarrow> norm_key v = PInt n"
  by (cases v) auto

text \<open>The integer value of a number that has one, a \<open>float\<close> like \<open>5.0\<close> included.\<close>

definition num_int :: "pyval \<Rightarrow> int option" where
  "num_int v = (case norm_key v of PInt n \<Rightarrow> Some n | _ \<Rightarrow> None)"

lemma num_int_of_int: "int_of v = Some n \<Longrightarrow> num_int v = Some n"
  by (simp add: num_int_def norm_key_int)

lemma num_int_PInt [simp]: "num_int (PInt n) = Some n"
  by (simp add: num_int_def)

lemma num_int_norm: "num_int v = Some n \<longleftrightarrow> norm_key v = PInt n"
  by (auto simp: num_int_def split: pyval.splits)

lemma num_int_num_of: "num_int v = Some n \<Longrightarrow> num_of v = Some (FFin (of_int n))"
proof (cases v rule: norm_key.cases)
  case (2 q)
  then show "num_int v = Some n \<Longrightarrow> ?thesis" by (auto simp: num_int_def split: if_splits)
qed (auto simp: num_int_def)

lemma py_cmp_num:
  assumes "num_int a = Some m" and "num_int b = Some n"
  shows "py_lt a b = Inr (m < n)" and "py_le a b = Inr (m \<le> n)" and "py_gt a b = Inr (n < m)"
  using assms by (simp_all add: py_lt_def py_le_def py_gt_def py_cmp_def num_int_num_of)

lemma py_eq_num_int: "py_eq v (PInt n) \<longleftrightarrow> num_int v = Some n"
proof
  assume "py_eq v (PInt n)"
  then have x: "num_of v = Some (FFin (of_int n))"
    by (auto simp: py_eq_def split: option.splits elim: feq.elims)
  show "num_int v = Some n"
  proof (cases v)
    case (PFloat f)
    with x have "f = FFin (of_int n)" by simp
    with PFloat show ?thesis by (simp add: num_int_def)
  qed (use x in \<open>auto simp: num_int_def split: if_splits\<close>)
next
  assume "num_int v = Some n"
  from num_int_num_of [OF this] show "py_eq v (PInt n)" by (simp add: py_eq_def)
qed

lemma norm_key_str [simp]: "norm_key (PStr s) = PStr s"
  by simp

definition lookup_key :: "(pyval \<times> 'a) list \<Rightarrow> pyval \<Rightarrow> 'a option" where
  "lookup_key m k = map_option snd (find (\<lambda>(k', _). py_eq k' k) m)"

text \<open>Lookup in a registry whose keys are strings: \<open>TypeError\<close> for an unhashable key.\<close>

definition lookup_str :: "'a dict \<Rightarrow> pyval \<Rightarrow> 'a option res" where
  "lookup_str m k = (if \<not> hashable k then Inl TypeErr
     else Inr (case k of PStr s \<Rightarrow> map_of m s | _ \<Rightarrow> None))"

lemma lookup_str_simps [simp]: "lookup_str m (PStr s) = Inr (map_of m s)"
  by (simp add: lookup_str_def)

lemma lookup_str_SomeE:
  assumes "lookup_str m k = Inr (Some x)"
  obtains s where "k = PStr s" and "map_of m s = Some x"
  using assms by (cases k) (auto simp: lookup_str_def)

section \<open>Bytes, hexadecimal text, UTF-8\<close>

definition byte_char :: "byte \<Rightarrow> char" where
  "byte_char b = char_of (unat b)"

definition char_byte :: "char \<Rightarrow> byte" where
  "char_byte c = word_of_nat (of_char c)"

definition hex_digit :: "nat \<Rightarrow> char" where
  "hex_digit n = (if n < 10 then char_of (48 + n) else char_of (87 + n))"

definition hex_value :: "char \<Rightarrow> nat option" where
  "hex_value c = (let n = (of_char c :: nat) in
     if 48 \<le> n \<and> n \<le> 57 then Some (n - 48)
     else if 97 \<le> n \<and> n \<le> 102 then Some (n - 87)
     else if 65 \<le> n \<and> n \<le> 70 then Some (n - 55) else None)"

text \<open>\<open>bytes.hex()\<close>: two lowercase digits per byte.\<close>

definition to_hex :: "bytes \<Rightarrow> string" where
  "to_hex bs = concat (map (\<lambda>b. [hex_digit (unat b div 16), hex_digit (unat b mod 16)]) bs)"

definition ascii_space :: "char \<Rightarrow> bool" where
  "ascii_space c = (let n = (of_char c :: nat) in n = 32 \<or> (9 \<le> n \<and> n \<le> 13))"

text \<open>\<open>bytes.fromhex(s)\<close>: pairs of digits of either case, ASCII white space allowed between pairs.\<close>

fun fromhex :: "string \<Rightarrow> bytes option" where
  "fromhex [] = Some []"
| "fromhex (c # cs) =
     (if ascii_space c then fromhex cs
      else case cs of [] \<Rightarrow> None
        | d # ds \<Rightarrow> (case (hex_value c, hex_value d) of
            (Some x, Some y) \<Rightarrow> map_option (Cons (word_of_nat (16 * x + y))) (fromhex ds)
          | _ \<Rightarrow> None))"

definition py_fromhex :: "pyval \<Rightarrow> bytes res" where
  "py_fromhex v = (case v of
     PStr s \<Rightarrow> (case fromhex s of Some b \<Rightarrow> Inr b | None \<Rightarrow> Inl ValueErr)
   | _ \<Rightarrow> Inl TypeErr)"

definition as_bytes :: "pyval \<Rightarrow> bytes res" where
  "as_bytes v = (case v of PBytes b \<Rightarrow> Inr b | _ \<Rightarrow> Inl TypeErr)"

lemma byte_less: "unat (b :: byte) < 256"
  using unsigned_less [of b, where 'a = nat] by simp

lemma hex_value_digit [simp]: "n < 16 \<Longrightarrow> hex_value (hex_digit n) = Some n"
  by (auto simp: hex_value_def hex_digit_def)

lemma not_space_hex_digit [simp]: "n < 16 \<Longrightarrow> \<not> ascii_space (hex_digit n)"
  by (auto simp: ascii_space_def hex_digit_def)

lemma fromhex_to_hex [simp]: "fromhex (to_hex bs) = Some bs"
proof (induction bs)
  case (Cons b bs)
  have "unat b div 16 < 16" "unat b < 256"
    using byte_less [of b] by auto
  moreover have "word_of_nat (16 * (unat b div 16) + unat b mod 16) = b"
    by simp
  ultimately show ?case using Cons by (simp add: to_hex_def)
qed (simp add: to_hex_def)

lemma py_fromhex_to_hex [simp]: "py_fromhex (PStr (to_hex bs)) = Inr bs"
  by (simp add: py_fromhex_def)

lemma inj_to_hex: "to_hex a = to_hex b \<longleftrightarrow> a = b"
  by (metis fromhex_to_hex option.inject)

lemma to_hex_eq_Nil [simp]: "to_hex bs = [] \<longleftrightarrow> bs = []"
  by (cases bs) (simp_all add: to_hex_def)

lemma length_to_hex [simp]: "length (to_hex bs) = 2 * length bs"
  by (induction bs) (simp_all add: to_hex_def)

text \<open>
  Well-formed UTF-8 (shortest form, no surrogates, at most U+10FFFF), as \<open>bytes.decode('utf-8')\<close>
  demands.
\<close>

fun utf8_ok :: "nat list \<Rightarrow> bool" where
  "utf8_ok [] = True"
| "utf8_ok (a # r) =
     (if a < 128 then utf8_ok r
      else if 194 \<le> a \<and> a \<le> 223 then
        (case r of b # r1 \<Rightarrow> 128 \<le> b \<and> b \<le> 191 \<and> utf8_ok r1 | _ \<Rightarrow> False)
      else if 224 \<le> a \<and> a \<le> 239 then
        (case r of b # c # r2 \<Rightarrow>
           (if a = 224 then 160 else 128) \<le> b \<and> b \<le> (if a = 237 then 159 else 191) \<and>
           128 \<le> c \<and> c \<le> 191 \<and> utf8_ok r2 | _ \<Rightarrow> False)
      else if 240 \<le> a \<and> a \<le> 244 then
        (case r of b # c # d # r3 \<Rightarrow>
           (if a = 240 then 144 else 128) \<le> b \<and> b \<le> (if a = 244 then 143 else 191) \<and>
           128 \<le> c \<and> c \<le> 191 \<and> 128 \<le> d \<and> d \<le> 191 \<and> utf8_ok r3 | _ \<Rightarrow> False)
      else False)"

definition py_decode :: "bytes \<Rightarrow> string res" where
  "py_decode bs = (if utf8_ok (map unat bs) then Inr (map byte_char bs) else Inl UnicodeDecodeErr)"

definition py_encode :: "string \<Rightarrow> bytes" where
  "py_encode s = map char_byte s"

lemma byte_char_byte [simp]: "byte_char (char_byte c) = c"
  by (simp add: byte_char_def char_byte_def unat_of_nat)

lemma unat_char_byte [simp]: "unat (char_byte c) = of_char c"
  by (simp add: char_byte_def unat_of_nat)

text \<open>A string of ASCII characters.\<close>

definition ascii :: "string \<Rightarrow> bool" where
  "ascii s = (\<forall>c\<in>set s. (of_char c :: nat) < 128)"

lemma utf8_ok_ascii: "\<forall>n\<in>set ns. n < 128 \<Longrightarrow> utf8_ok ns"
  by (induction ns) auto

lemma py_decode_encode: "ascii s \<Longrightarrow> py_decode (py_encode s) = Inr s"
  by (simp add: py_decode_def py_encode_def ascii_def comp_def utf8_ok_ascii)

lemma ascii_to_hex: "ascii (to_hex bs)"
proof -
  have "n < 16 \<Longrightarrow> (of_char (hex_digit n) :: nat) < 128" for n
    by (simp add: hex_digit_def)
  moreover have "unat b div 16 < 16" for b :: byte
    using byte_less [of b] by auto
  ultimately show ?thesis by (auto simp: ascii_def to_hex_def)
qed

text \<open>\<open>len(v)\<close>: code points of a string, and \<open>TypeError\<close> for what has no length.\<close>

definition cont_byte :: "char \<Rightarrow> bool" where
  "cont_byte c = (let n = (of_char c :: nat) in 128 \<le> n \<and> n < 192)"

fun py_len :: "pyval \<Rightarrow> int res" where
  "py_len (PStr s) = Inr (int (length (filter (\<lambda>c. \<not> cont_byte c) s)))"
| "py_len (PBytes b) = Inr (int (length b))"
| "py_len (PList xs) = Inr (int (length xs))"
| "py_len (PDict d) = Inr (int (length d))"
| "py_len _ = Inl TypeErr"

text \<open>\<open>k in v\<close> for a string \<open>k\<close>: key of a dict, element of a list, substring of a string.\<close>

fun is_infix :: "string \<Rightarrow> string \<Rightarrow> bool" where
  "is_infix k [] = (k = [])"
| "is_infix k (c # cs) = (take (length k) (c # cs) = k \<or> is_infix k cs)"

fun py_in :: "string \<Rightarrow> pyval \<Rightarrow> bool res" where
  "py_in k (PDict d) = Inr (dict_has d k)"
| "py_in k (PList xs) = Inr (PStr k \<in> set xs)"
| "py_in k (PStr s) = Inr (is_infix k s)"
| "py_in k _ = Inl TypeErr"

text \<open>\<open>v[k]\<close> for a string \<open>k\<close>: only a dict accepts it.\<close>

fun py_item :: "pyval \<Rightarrow> string \<Rightarrow> pyval res" where
  "py_item (PDict d) k = dict_item d k"
| "py_item _ k = Inl TypeErr"

text \<open>\<open>v.hex()\<close>: bytes and floats have it.\<close>

fun hex_digits :: "nat \<Rightarrow> nat \<Rightarrow> string" where
  "hex_digits 0 n = []"
| "hex_digits (Suc w) n = hex_digits w (n div 16) @ [hex_digit (n mod 16)]"

fun dec_nat :: "nat \<Rightarrow> string" where
  "dec_nat n = (if n < 10 then [char_of (48 + n)] else dec_nat (n div 10) @ [char_of (48 + n mod 10)])"

declare dec_nat.simps [simp del]

definition float_hex_pos :: "rat \<Rightarrow> string" where
  "float_hex_pos q =
     (let e = max (rat_exponent q) (- 1022); m = q / pow2 e; l = \<lfloor>m\<rfloor>
      in ''0x'' @ dec_nat (nat l) @ ''.'' @ hex_digits 13 (nat \<lfloor>(m - of_int l) * 16 ^ 13\<rfloor>) @ ''p'' @
         (if e < 0 then ''-'' else ''+'') @ dec_nat (nat \<bar>e\<bar>))"

fun float_hex :: "pyfloat \<Rightarrow> string" where
  "float_hex FNan = ''nan''"
| "float_hex FPInf = ''inf''"
| "float_hex FNInf = ''-inf''"
| "float_hex (FFin q) = (if q = 0 then ''0x0.0p+0'' else if 0 < q then float_hex_pos q
     else ''-'' @ float_hex_pos (- q))"

definition hex_method :: "pyval \<Rightarrow> pyval res" where
  "hex_method v = (case v of PBytes b \<Rightarrow> Inr (PStr (to_hex b)) | PFloat f \<Rightarrow> Inr (PStr (float_hex f))
     | _ \<Rightarrow> Inl AttributeErr)"

section \<open>Batches\<close>

text \<open>
  A loop that puts every item to an operation, collects the results, and collects apart the items
  whose exception it catches; any other exception ends the loop.
\<close>

fun batch :: "(exn \<Rightarrow> bool) \<Rightarrow> ('p \<Rightarrow> 's \<Rightarrow> 'r res \<times> 's) \<Rightarrow> 'p list \<Rightarrow> 's \<Rightarrow>
    ('r list \<times> ('p \<times> exn) list) res \<times> 's" where
  "batch caught f [] s = (Inr ([], []), s)"
| "batch caught f (p # ps) s =
     (case f p s of
        (Inl e, s1) \<Rightarrow>
          if caught e
          then (case batch caught f ps s1 of
                  (Inl e', s2) \<Rightarrow> (Inl e', s2)
                | (Inr (rs, bad), s2) \<Rightarrow> (Inr (rs, (p, e) # bad), s2))
          else (Inl e, s1)
      | (Inr r, s1) \<Rightarrow>
          (case batch caught f ps s1 of
             (Inl e', s2) \<Rightarrow> (Inl e', s2)
           | (Inr (rs, bad), s2) \<Rightarrow> (Inr (r # rs, bad), s2)))"

lemma batch_lengths:
  "batch caught f ps s = (Inr (rs, bad), s') \<Longrightarrow> length rs + length bad = length ps"
  by (induction ps arbitrary: s rs bad) (auto split: prod.splits sum.splits if_splits)

lemma batch_bad: "batch caught f ps s = (Inr (rs, bad), s') \<Longrightarrow> (p, e) \<in> set bad \<Longrightarrow> caught e \<and> p \<in> set ps"
  by (induction ps arbitrary: s rs bad) (fastforce split: prod.splits sum.splits if_splits)+

section \<open>Time\<close>

text \<open>\<open>int(time.time() * 1000)\<close>, and a difference of two clock readings.\<close>

definition clock_ms :: "clock \<Rightarrow> int" where
  "clock_ms t = (case fl (t * 1000) of FFin q \<Rightarrow> (if 0 \<le> q then \<lfloor>q\<rfloor> else \<lceil>q\<rceil>) | _ \<Rightarrow> 0)"

definition elapsed :: "clock \<Rightarrow> clock \<Rightarrow> pyfloat" where
  "elapsed now start = fl (now - start)"

text \<open>Integers below \<open>2 ^ 53\<close> are doubles, so a clock on a whole millisecond reads exactly.\<close>

lemma round_half_even_int [simp]: "round_half_even (of_int i) = i"
  by (simp add: round_half_even_def)

lemma rat_exponent_int: "0 < i \<Longrightarrow> i < 2 ^ 53 \<Longrightarrow> rat_exponent (of_int i) \<le> 52"
proof -
  assume "0 < i" "i < 2 ^ 53"
  then have "bitlen i \<le> 53" using bitlen_le_iff_power [of i 53] by simp
  moreover have "bitlen 1 = 1" by (simp add: compute_bitlen)
  ultimately show ?thesis by (simp add: rat_exponent_def Let_def)
qed

lemma fl_of_int: "0 \<le> i \<Longrightarrow> i < 2 ^ 53 \<Longrightarrow> fl (of_int i) = FFin (of_int i)"
proof (cases "i = 0")
  case False
  assume "0 \<le> i" "i < 2 ^ 53"
  with False have i: "0 < i" by simp
  define u where "u = max (rat_exponent (of_int i) - 52) (- 1074)"
  have u: "u \<le> 0" using rat_exponent_int [OF i \<open>i < 2 ^ 53\<close>] by (simp add: u_def)
  define k where "k = nat (- u)"
  have p: "pow2 u = 1 / 2 ^ k" using u by (auto simp: pow2_def k_def)
  have "of_int i / pow2 u = (of_int (i * 2 ^ k) :: rat)" by (simp add: p)
  then have "of_int (round_half_even (of_int i / pow2 u)) * pow2 u = (of_int i :: rat)"
    by (simp only: round_half_even_int) (simp add: p)
  moreover have "(of_int i :: rat) < 2 ^ 1024"
  proof -
    have "i < 2 ^ 1024" using \<open>i < 2 ^ 53\<close> by (rule less_le_trans) simp
    then have "(of_int i :: rat) < of_int (2 ^ 1024)" by (simp only: of_int_less_iff)
    then show ?thesis by simp
  qed
  ultimately show ?thesis using i by (simp add: fl_def fl_pos_def Let_def u_def [symmetric] not_le)
qed (simp add: fl_def)

lemma clock_ms_int: "t * 1000 = of_int i \<Longrightarrow> 0 \<le> i \<Longrightarrow> i < 2 ^ 53 \<Longrightarrow> clock_ms t = i"
  by (simp add: clock_ms_def fl_of_int)

end
