(* ===== verification/ByteCodec.thy ===== *)
theory ByteCodec
  imports PyVal
begin

text \<open>
  Unsigned big-endian integers of a fixed number of bytes, as \<open>struct\<close> (format \<open>!\<close>) and
  \<open>int.to_bytes(n, 'big')\<close> write them: \<open>be_bytes w n\<close> writes \<open>n\<close> in \<open>w\<close> bytes, \<open>be_nat\<close> reads
  them back. The two are inverse on the values that fit.
\<close>

fun be_bytes :: "nat \<Rightarrow> nat \<Rightarrow> bytes" where
  "be_bytes 0 n = []"
| "be_bytes (Suc w) n = be_bytes w (n div 256) @ [word_of_nat n]"

definition be_nat :: "bytes \<Rightarrow> nat" where
  "be_nat bs = foldl (\<lambda>a b. 256 * a + unat b) 0 bs"

lemma be_nat_Nil [simp]: "be_nat [] = 0"
  by (simp add: be_nat_def)

lemma be_nat_snoc [simp]: "be_nat (bs @ [b]) = 256 * be_nat bs + unat b"
  by (simp add: be_nat_def)

lemma length_be_bytes [simp]: "length (be_bytes w n) = w"
  by (induction w arbitrary: n) simp_all

lemma be_nat_be_bytes: "be_nat (be_bytes w n) = n mod 256 ^ w"
proof (induction w arbitrary: n)
  case (Suc w)
  have "unat (word_of_nat n :: byte) = n mod 256"
    by (simp add: unat_of_nat)
  then show ?case
    by (simp add: Suc mod_mult2_eq mult.commute)
qed simp

lemma be_nat_be_bytes_fits [simp]: "n < 256 ^ w \<Longrightarrow> be_nat (be_bytes w n) = n"
  by (simp add: be_nat_be_bytes)

lemma be_bytes_be_nat: "length bs = w \<Longrightarrow> be_bytes w (be_nat bs) = bs"
proof (induction bs arbitrary: w rule: rev_induct)
  case (snoc b bs)
  then obtain v where w: "w = Suc v" and v: "length bs = v" by (cases w) auto
  have "(256 * be_nat bs + unat b) div 256 = be_nat bs"
    using byte_less [of b] by simp
  moreover have "word_of_nat (256 * be_nat bs + unat b) = (word_of_nat (unat b) :: byte)"
    by (simp only: word_of_nat_eq_iff) (simp add: take_bit_eq_mod)
  ultimately show ?case using snoc.IH [OF v] by (simp add: w)
qed simp

lemma be_nat_less: "be_nat bs < 256 ^ length bs"
proof (induction bs rule: rev_induct)
  case (snoc b bs)
  then show ?case using byte_less [of b] by simp
qed simp

declare be_bytes.simps [simp del]

text \<open>Cutting a byte string into fields of given sizes, as \<open>struct.unpack\<close> does.\<close>

fun cut :: "nat list \<Rightarrow> bytes \<Rightarrow> bytes list" where
  "cut [] bs = []"
| "cut (n # ns) bs = take n bs # cut ns (drop n bs)"

lemma cut_concat: "map length fs = ns \<Longrightarrow> cut ns (concat fs) = fs"
  by (induction fs arbitrary: ns) auto

lemma length_cut [simp]: "length (cut ns bs) = length ns"
  by (induction ns arbitrary: bs) auto

lemma concat_cut: "length bs = sum_list ns \<Longrightarrow> concat (cut ns bs) = bs"
  by (induction ns arbitrary: bs) (auto simp: append_take_drop_id)

lemma map_length_cut: "sum_list ns \<le> length bs \<Longrightarrow> map length (cut ns bs) = ns"
  by (induction ns arbitrary: bs) auto

end
