(* ===== verification/Json.thy ===== *)
theory Json
  imports PyVal
begin

text \<open>
  The standard library's \<open>json.dumps\<close> (with \<open>ensure_ascii\<close>, item and key separators given) and
  \<open>json.loads\<close>, as the packets use them: strings with their escapes, integers, floats as Python's
  \<open>repr\<close> prints them, \<open>NaN\<close> and infinities, lists and dicts. Floats are read to the nearest double.
  The parser recurses on fuel; \<open>json_loads\<close> gives it enough for any text, which
  \<open>json_loads_fuel\<close> proves. The interpreter's recursion limit is not modelled.
\<close>

section \<open>Printing\<close>

fun nat_str :: "nat \<Rightarrow> string" where
  "nat_str n = (if n < 10 then [char_of (48 + n)] else nat_str (n div 10) @ [char_of (48 + n mod 10)])"

declare nat_str.simps [simp del]

definition int_str :: "int \<Rightarrow> string" where
  "int_str i = (if i < 0 then CHR ''-'' # nat_str (nat (- i)) else nat_str (nat i))"

text \<open>\<open>repr(float)\<close>: the shortest digits that read back as the same double.\<close>

definition pow10 :: "int \<Rightarrow> rat" where
  "pow10 k = (if 0 \<le> k then 10 ^ nat k else 1 / 10 ^ nat (- k))"

definition dec_exponent :: "rat \<Rightarrow> int" where
  "dec_exponent q =
     (let k = (rat_exponent q * 30103) div 100000
      in if pow10 (k + 1) \<le> q then k + 1 else if pow10 k \<le> q then k else k - 1)"

definition shortest :: "rat \<Rightarrow> nat \<times> int" where
  "shortest q =
     (let e = dec_exponent q;
          cand = (\<lambda>n. (nat (round_half_even (q / pow10 (e - int n + 1))), e - int n + 1));
          good = (\<lambda>(d, k). fl (of_nat d * pow10 k) = FFin q)
      in case find good (map cand [1..<17]) of Some c \<Rightarrow> c | None \<Rightarrow> cand 17)"

fun strip_zeros :: "string \<Rightarrow> string" where
  "strip_zeros ds = (if ds \<noteq> [] \<and> last ds = CHR ''0'' then strip_zeros (butlast ds) else ds)"

declare strip_zeros.simps [simp del]

definition float_digits :: "rat \<Rightarrow> string" where
  "float_digits q =
     (let (d, k) = shortest q; all = nat_str d; p = int (length all) + k; ds = strip_zeros all;
          n = int (length ds)
      in if - 4 < p \<and> p \<le> 16 then
           (if p \<le> 0 then ''0.'' @ replicate (nat (- p)) (CHR ''0'') @ ds
            else if n \<le> p then ds @ replicate (nat (p - n)) (CHR ''0'') @ ''.0''
            else take (nat p) ds @ ''.'' @ drop (nat p) ds)
         else
           (take 1 ds @ (if n = 1 then [] else ''.'' @ drop 1 ds) @ ''e'' @
            (if p - 1 < 0 then ''-'' else ''+'') @
            (let x = nat_str (nat \<bar>p - 1\<bar>) in if length x = 1 then ''0'' @ x else x)))"

fun float_str :: "pyfloat \<Rightarrow> string" where
  "float_str FNan = ''NaN''"
| "float_str FPInf = ''Infinity''"
| "float_str FNInf = ''-Infinity''"
| "float_str (FFin q) =
     (if q = 0 then ''0.0'' else if 0 < q then float_digits q else ''-'' @ float_digits (- q))"

text \<open>Strings: everything outside the printable ASCII characters is escaped.\<close>

definition hex4 :: "nat \<Rightarrow> string" where
  "hex4 n = [hex_digit (n div 4096 mod 16), hex_digit (n div 256 mod 16),
             hex_digit (n div 16 mod 16), hex_digit (n mod 16)]"

definition u_escape :: "nat \<Rightarrow> string" where
  "u_escape n = CHR 0x5C # CHR ''u'' # hex4 n"

definition esc_ascii :: "char \<Rightarrow> string" where
  "esc_ascii c = (let n = (of_char c :: nat) in
     if n = 34 then [CHR 0x5C, CHR 0x22] else if n = 92 then [CHR 0x5C, CHR 0x5C]
     else if n = 10 then [CHR 0x5C, CHR ''n''] else if n = 13 then [CHR 0x5C, CHR ''r'']
     else if n = 9 then [CHR 0x5C, CHR ''t''] else if n = 12 then [CHR 0x5C, CHR ''f'']
     else if n = 8 then [CHR 0x5C, CHR ''b'']
     else if 32 \<le> n \<and> n \<le> 126 then [c] else u_escape n)"

definition cont :: "char \<Rightarrow> nat" where
  "cont c = of_char c mod 64"

definition esc_code_point :: "nat \<Rightarrow> string" where
  "esc_code_point n = (if n < 65536 then u_escape n
     else u_escape (55296 + (n - 65536) div 1024) @ u_escape (56320 + (n - 65536) mod 1024))"

fun esc_string :: "string \<Rightarrow> string" where
  "esc_string [] = []"
| "esc_string (a # r) = (let n = (of_char a :: nat) in
     if n < 128 then esc_ascii a @ esc_string r
     else if n < 224 then (case r of b # r' \<Rightarrow>
       esc_code_point ((n mod 32) * 64 + cont b) @ esc_string r' | _ \<Rightarrow> [])
     else if n < 240 then (case r of b # c # r' \<Rightarrow>
       esc_code_point ((n mod 16) * 4096 + cont b * 64 + cont c) @ esc_string r' | _ \<Rightarrow> [])
     else (case r of b # c # d # r' \<Rightarrow>
       esc_code_point ((n mod 8) * 262144 + cont b * 4096 + cont c * 64 + cont d) @ esc_string r'
     | _ \<Rightarrow> []))"

definition quote :: "string \<Rightarrow> string" where
  "quote s = CHR 0x22 # esc_string s @ [CHR 0x22]"

text \<open>\<open>json.dumps(v, separators=(si, sk))\<close>: bytes are not serialisable.\<close>

fun json_str :: "string \<Rightarrow> string \<Rightarrow> pyval \<Rightarrow> string res"
and json_items :: "string \<Rightarrow> string \<Rightarrow> pyval list \<Rightarrow> string res"
and json_pairs :: "string \<Rightarrow> string \<Rightarrow> (string \<times> pyval) list \<Rightarrow> string res" where
  "json_str si sk PNone = Inr ''null''"
| "json_str si sk (PBool b) = Inr (if b then ''true'' else ''false'')"
| "json_str si sk (PInt i) =
     (if 4300 < length (nat_str (nat \<bar>i\<bar>)) then Inl ValueErr else Inr (int_str i))"
| "json_str si sk (PFloat f) = Inr (float_str f)"
| "json_str si sk (PStr s) = Inr (quote s)"
| "json_str si sk (PBytes b) = Inl TypeErr"
| "json_str si sk (PList xs) = rbind (json_items si sk xs) (\<lambda>t. Inr (''['' @ t @ '']''))"
| "json_str si sk (PDict d) = rbind (json_pairs si sk d) (\<lambda>t. Inr (''{'' @ t @ ''}''))"
| "json_items si sk [] = Inr []"
| "json_items si sk (x # xs) =
     rbind (json_str si sk x) (\<lambda>t. rbind (json_items si sk xs) (\<lambda>ts.
       Inr (t @ (if xs = [] then [] else si) @ ts)))"
| "json_pairs si sk [] = Inr []"
| "json_pairs si sk (p # ps) =
     rbind (json_str si sk (snd p)) (\<lambda>t. rbind (json_pairs si sk ps) (\<lambda>ts.
       Inr (quote (fst p) @ sk @ t @ (if ps = [] then [] else si) @ ts)))"

text \<open>\<open>json.dumps(v, separators=(',', ':')).encode('utf-8')\<close> and \<open>json.dumps(v).encode()\<close>.\<close>

definition json_dumps_compact :: "pyval \<Rightarrow> bytes res" where
  "json_dumps_compact v = rbind (json_str '','' '':'' v) (\<lambda>s. Inr (py_encode s))"

definition json_dumps :: "pyval \<Rightarrow> bytes res" where
  "json_dumps v = rbind (json_str '', '' '': '' v) (\<lambda>s. Inr (py_encode s))"

section \<open>Parsing\<close>

definition is_ws :: "char \<Rightarrow> bool" where
  "is_ws c = (let n = (of_char c :: nat) in n = 32 \<or> n = 9 \<or> n = 10 \<or> n = 13)"

abbreviation skip_ws :: "string \<Rightarrow> string" where
  "skip_ws \<equiv> dropWhile is_ws"

definition is_digit :: "char \<Rightarrow> bool" where
  "is_digit c = (let n = (of_char c :: nat) in 48 \<le> n \<and> n \<le> 57)"

definition digits_value :: "string \<Rightarrow> nat" where
  "digits_value ds = foldl (\<lambda>a c. 10 * a + (of_char c - 48)) 0 ds"

text \<open>The text after a given prefix.\<close>

fun after :: "string \<Rightarrow> string \<Rightarrow> string option" where
  "after [] s = Some s"
| "after (p # ps) [] = None"
| "after (p # ps) (c # cs) = (if p = c then after ps cs else None)"

text \<open>\<open>(-?(?:0|[1-9][0-9]*))(\.[0-9]+)?([eE][-+]?[0-9]+)?\<close>\<close>

definition frac_part :: "string \<Rightarrow> string \<times> string" where
  "frac_part s = (case s of
     c # r \<Rightarrow> (if c = CHR ''.'' \<and> takeWhile is_digit r \<noteq> []
              then (takeWhile is_digit r, dropWhile is_digit r) else ([], s))
   | [] \<Rightarrow> ([], s))"

definition exp_part :: "string \<Rightarrow> int option \<times> string" where
  "exp_part s = (case s of
     c # r \<Rightarrow>
       (let (neg, r1) = (case r of
              d # r' \<Rightarrow> (if d = CHR ''-'' then (True, r') else if d = CHR ''+'' then (False, r')
                        else (False, r))
            | [] \<Rightarrow> (False, r));
            ds = takeWhile is_digit r1; v = int (digits_value ds)
        in if (c = CHR ''e'' \<or> c = CHR ''E'') \<and> ds \<noteq> []
           then (Some (if neg then - v else v), dropWhile is_digit r1) else (None, s))
   | [] \<Rightarrow> (None, s))"

definition jnumber :: "string \<Rightarrow> (pyval \<times> string) res" where
  "jnumber s =
     (let (neg, r) = (case s of c # r' \<Rightarrow> if c = CHR ''-'' then (True, r') else (False, s)
                              | [] \<Rightarrow> (False, s));
          ds = (case r of c # _ \<Rightarrow> if c = CHR ''0'' then [c] else takeWhile is_digit r | [] \<Rightarrow> []);
          r1 = drop (length ds) r; (fr, r2) = frac_part r1; (ex, r3) = exp_part r2
      in if ds = [] then Inl JSONDecodeErr
         else if fr = [] \<and> ex = None then
           (if 4300 < length ds then Inl ValueErr
            else Inr (PInt (if neg then - int (digits_value ds) else int (digits_value ds)), r3))
         else
           (let q = of_nat (digits_value (ds @ fr)) *
                    pow10 ((case ex of None \<Rightarrow> 0 | Some x \<Rightarrow> x) - int (length fr))
            in Inr (PFloat (fl (if neg then - q else q)), r3)))"

text \<open>The UTF-8 form of a code point; a lone surrogate keeps its three-byte form.\<close>

definition utf8_char :: "nat \<Rightarrow> string" where
  "utf8_char n =
     (if n < 128 then [char_of n]
      else if n < 2048 then [char_of (192 + n div 64), char_of (128 + n mod 64)]
      else if n < 65536 then
        [char_of (224 + n div 4096), char_of (128 + n div 64 mod 64), char_of (128 + n mod 64)]
      else [char_of (240 + n div 262144), char_of (128 + n div 4096 mod 64),
            char_of (128 + n div 64 mod 64), char_of (128 + n mod 64)])"

definition read_hex4 :: "string \<Rightarrow> (nat \<times> string) option" where
  "read_hex4 s = (case s of
     a # b # c # d # r \<Rightarrow>
       (case (hex_value a, hex_value b, hex_value c, hex_value d) of
          (Some w, Some x, Some y, Some z) \<Rightarrow> Some (((w * 16 + x) * 16 + y) * 16 + z, r)
        | _ \<Rightarrow> None)
   | _ \<Rightarrow> None)"

definition simple_escape :: "char \<Rightarrow> char option" where
  "simple_escape c =
     (if c = CHR 0x22 \<or> c = CHR 0x5C \<or> c = CHR ''/'' then Some c
      else if c = CHR ''b'' then Some (CHR 0x08) else if c = CHR ''f'' then Some (CHR 0x0C)
      else if c = CHR ''n'' then Some (CHR 0x0A) else if c = CHR ''r'' then Some (CHR 0x0D)
      else if c = CHR ''t'' then Some (CHR 0x09) else None)"

text \<open>One \<open>\uXXXX\<close> escape, with the low surrogate that may follow a high one.\<close>

definition read_unicode :: "string \<Rightarrow> (string \<times> string) option" where
  "read_unicode s = (case read_hex4 s of None \<Rightarrow> None
     | Some (u, r) \<Rightarrow>
        (if 55296 \<le> u \<and> u \<le> 56319 then
           (case after [CHR 0x5C, CHR ''u''] r of None \<Rightarrow> Some (utf8_char u, r)
            | Some r1 \<Rightarrow> (case read_hex4 r1 of None \<Rightarrow> None
               | Some (v, r2) \<Rightarrow> (if 56320 \<le> v \<and> v \<le> 57343
                    then Some (utf8_char (65536 + (u - 55296) * 1024 + (v - 56320)), r2)
                    else Some (utf8_char u, r))))
         else Some (utf8_char u, r)))"

fun jstring :: "nat \<Rightarrow> string \<Rightarrow> (string \<times> string) res" where
  "jstring 0 s = Inl OutOfFuel"
| "jstring (Suc n) [] = Inl JSONDecodeErr"
| "jstring (Suc n) (c # r) =
     (if c = CHR 0x22 then Inr ([], r)
      else if c = CHR 0x5C then
        (case r of [] \<Rightarrow> Inl JSONDecodeErr
         | e # r1 \<Rightarrow>
            (if e = CHR ''u'' then
               (case read_unicode r1 of None \<Rightarrow> Inl JSONDecodeErr
                | Some (t, r2) \<Rightarrow> rbind (jstring n r2) (\<lambda>(ts, r3). Inr (t @ ts, r3)))
             else (case simple_escape e of None \<Rightarrow> Inl JSONDecodeErr
                | Some d \<Rightarrow> rbind (jstring n r1) (\<lambda>(ts, r3). Inr (d # ts, r3)))))
      else if (of_char c :: nat) < 32 then Inl JSONDecodeErr
      else rbind (jstring n r) (\<lambda>(ts, r3). Inr (c # ts, r3)))"

definition jstr :: "string \<Rightarrow> (string \<times> string) res" where
  "jstr s = jstring (Suc (length s)) s"

definition jliteral :: "string \<Rightarrow> (pyval \<times> string) res" where
  "jliteral s =
     (case after ''null'' s of Some r \<Rightarrow> Inr (PNone, r) | None \<Rightarrow>
     (case after ''true'' s of Some r \<Rightarrow> Inr (PBool True, r) | None \<Rightarrow>
     (case after ''false'' s of Some r \<Rightarrow> Inr (PBool False, r) | None \<Rightarrow>
     (case jnumber s of Inr x \<Rightarrow> Inr x | Inl ValueErr \<Rightarrow> Inl ValueErr | Inl _ \<Rightarrow>
     (case after ''NaN'' s of Some r \<Rightarrow> Inr (PFloat FNan, r) | None \<Rightarrow>
     (case after ''Infinity'' s of Some r \<Rightarrow> Inr (PFloat FPInf, r) | None \<Rightarrow>
     (case after ''-Infinity'' s of Some r \<Rightarrow> Inr (PFloat FNInf, r) | None \<Rightarrow>
      Inl JSONDecodeErr)))))))"

fun jvalue :: "nat \<Rightarrow> string \<Rightarrow> (pyval \<times> string) res"
and jelems :: "nat \<Rightarrow> string \<Rightarrow> (pyval list \<times> string) res"
and jmembers :: "nat \<Rightarrow> string \<Rightarrow> ((string \<times> pyval) list \<times> string) res" where
  "jvalue 0 s = Inl OutOfFuel"
| "jvalue (Suc n) s =
     (case after [CHR 0x22] s of Some r \<Rightarrow> rbind (jstr r) (\<lambda>(t, r'). Inr (PStr t, r')) | None \<Rightarrow>
     (case after ''{'' s of Some r \<Rightarrow>
        (case after ''}'' (skip_ws r) of Some r' \<Rightarrow> Inr (PDict [], r')
         | None \<Rightarrow> rbind (jmembers n (skip_ws r)) (\<lambda>(ps, r'). Inr (PDict (dict_of_pairs ps), r')))
     | None \<Rightarrow>
     (case after ''['' s of Some r \<Rightarrow>
        (case after '']'' (skip_ws r) of Some r' \<Rightarrow> Inr (PList [], r')
         | None \<Rightarrow> rbind (jelems n (skip_ws r)) (\<lambda>(xs, r'). Inr (PList xs, r')))
     | None \<Rightarrow> jliteral s)))"
| "jelems 0 s = Inl OutOfFuel"
| "jelems (Suc n) s =
     rbind (jvalue n s) (\<lambda>(v, r).
       case after '','' (skip_ws r) of
         Some r1 \<Rightarrow> rbind (jelems n (skip_ws r1)) (\<lambda>(vs, r2). Inr (v # vs, r2))
       | None \<Rightarrow> (case after '']'' (skip_ws r) of Some r1 \<Rightarrow> Inr ([v], r1)
                  | None \<Rightarrow> Inl JSONDecodeErr))"
| "jmembers 0 s = Inl OutOfFuel"
| "jmembers (Suc n) s =
     (case after [CHR 0x22] s of None \<Rightarrow> Inl JSONDecodeErr | Some r \<Rightarrow>
      rbind (jstr r) (\<lambda>(k, r1).
       case after '':'' (skip_ws r1) of None \<Rightarrow> Inl JSONDecodeErr | Some r2 \<Rightarrow>
        rbind (jvalue n (skip_ws r2)) (\<lambda>(v, r3).
         case after '','' (skip_ws r3) of
           Some r4 \<Rightarrow> rbind (jmembers n (skip_ws r4)) (\<lambda>(ps, r5). Inr ((k, v) # ps, r5))
         | None \<Rightarrow> (case after ''}'' (skip_ws r3) of Some r4 \<Rightarrow> Inr ([(k, v)], r4)
                    | None \<Rightarrow> Inl JSONDecodeErr))))"

definition json_loads_str :: "string \<Rightarrow> pyval res" where
  "json_loads_str s =
     rbind (jvalue (2 * length s + 1) (skip_ws s)) (\<lambda>(v, r).
       if skip_ws r = [] then Inr v else Inl JSONDecodeErr)"

text \<open>\<open>json.loads(bs.decode('utf-8'))\<close>\<close>

definition json_loads :: "bytes \<Rightarrow> pyval res" where
  "json_loads bs = rbind (py_decode bs) json_loads_str"

section \<open>The fuel suffices\<close>

lemma rbind_Inl_iff: "rbind m f = Inl e \<longleftrightarrow> m = Inl e \<or> (\<exists>x. m = Inr x \<and> f x = Inl e)"
  by (cases m) auto

lemma after_length: "after p s = Some r \<Longrightarrow> length s = length p + length r"
  by (induction p s rule: after.induct) (auto split: if_splits)

lemma skip_ws_length: "length (skip_ws s) \<le> length s"
  by (rule length_dropWhile_le)

lemma read_hex4_length: "read_hex4 s = Some (u, r) \<Longrightarrow> length r < length s"
  by (auto simp: read_hex4_def split: list.splits option.splits)

lemma read_unicode_length: "read_unicode s = Some (t, r) \<Longrightarrow> length r < length s"
  by (auto simp: read_unicode_def split: option.splits prod.splits if_splits
      dest!: read_hex4_length after_length)

lemma jstring_length: "jstring n s = Inr (t, r) \<Longrightarrow> length r < length s"
proof (induction n arbitrary: s t r)
  case (Suc n)
  then show ?case
    by (cases s) (auto split: if_splits list.splits option.splits elim!: rbind_InrE
        dest!: read_unicode_length Suc.IH)
qed simp

lemma jstring_fuel: "length s < n \<Longrightarrow> jstring n s \<noteq> Inl OutOfFuel"
proof (induction n arbitrary: s)
  case (Suc n)
  then show ?case
    by (cases s) (auto simp: rbind_Inl_iff split: if_splits list.splits option.splits
        dest!: read_unicode_length)
qed simp

lemma jstr_length: "jstr s = Inr (t, r) \<Longrightarrow> length r < length s"
  by (simp add: jstr_def jstring_length)

lemma jstr_fuel: "jstr s \<noteq> Inl OutOfFuel"
  by (simp only: jstr_def) (rule jstring_fuel, simp)

lemma frac_part_length: "frac_part s = (f, r) \<Longrightarrow> length r \<le> length s"
  by (auto simp: frac_part_def split: list.splits if_splits intro: le_SucI length_dropWhile_le)

lemma exp_part_length: "exp_part s = (x, r) \<Longrightarrow> length r \<le> length s"
proof (cases s)
  case (Cons c cs)
  assume e: "exp_part s = (x, r)"
  have "length (dropWhile is_digit ds) \<le> length ds" for ds by (rule length_dropWhile_le)
  note le_trans [OF this]
  with e Cons show ?thesis
    by (auto simp: exp_part_def Let_def split: list.splits if_splits intro: le_SucI)
qed (simp add: exp_part_def)

lemma jnumber_length: "jnumber s = Inr (v, r) \<Longrightarrow> length r < length s"
proof -
  assume j: "jnumber s = Inr (v, r)"
  define nr where "nr = (case s of c # r' \<Rightarrow> if c = CHR ''-'' then (True, r') else (False, s) | [] \<Rightarrow> (False, s))"
  define ds where "ds = (case snd nr of c # _ \<Rightarrow> if c = CHR ''0'' then [c] else takeWhile is_digit (snd nr) | [] \<Rightarrow> [])"
  obtain fr r2 where f: "frac_part (drop (length ds) (snd nr)) = (fr, r2)" by fastforce
  obtain ex r3 where x: "exp_part r2 = (ex, r3)" by fastforce
  have nr: "length (snd nr) \<le> length s"
    by (auto simp: nr_def split: list.splits)
  have ne: "ds \<noteq> []" and r: "r = r3"
    using j f x unfolding jnumber_def nr_def [symmetric] ds_def [symmetric]
    by (auto simp: split_beta Let_def ds_def [symmetric] split: if_splits)
  have "snd nr \<noteq> []" using ne by (auto simp: ds_def)
  then have "length (drop (length ds) (snd nr)) < length (snd nr)" using ne by simp
  with frac_part_length [OF f] exp_part_length [OF x] nr show ?thesis unfolding r by linarith
qed

lemma jnumber_error: "jnumber s = Inl e \<Longrightarrow> e = JSONDecodeErr \<or> e = ValueErr"
  by (auto simp: jnumber_def Let_def split_beta split: if_splits)

lemma jliteral_length: "jliteral s = Inr (v, r) \<Longrightarrow> length r < length s"
  by (auto simp: jliteral_def split: option.splits sum.splits exn.splits dest!: after_length jnumber_length)

lemma jliteral_fuel: "jliteral s \<noteq> Inl OutOfFuel"
proof -
  have "jnumber s = Inl e \<Longrightarrow> e \<noteq> OutOfFuel" for e using jnumber_error by blast
  then show ?thesis by (auto simp: jliteral_def split: option.splits sum.splits exn.splits)
qed

text \<open>Every parser consumes text, so two units of fuel per character are enough.\<close>

lemma after_skip_length: "after p (skip_ws s) = Some r \<Longrightarrow> length p + length r \<le> length s"
  using after_length [of p "skip_ws s" r] skip_ws_length [of s] by linarith

lemma jvalue_lengths:
  "(jvalue n s = Inr (v, r) \<longrightarrow> length r < length s) \<and>
   (jelems n s = Inr (vs, r) \<longrightarrow> length r < length s) \<and>
   (jmembers n s = Inr (ps, r) \<longrightarrow> length r < length s)"
proof (induction n arbitrary: s v vs ps r)
  case (Suc n)
  have v: "jvalue n (skip_ws x) = Inr (v, r) \<Longrightarrow> length r < length x" for x v r
    using Suc.IH [of "skip_ws x"] skip_ws_length [of x] by (meson less_le_trans)
  have v0: "jvalue n x = Inr (v, r) \<Longrightarrow> length r < length x" for x v r
    using Suc.IH by blast
  have e: "jelems n (skip_ws x) = Inr (vs, r) \<Longrightarrow> length r < length x" for x vs r
    using Suc.IH [of "skip_ws x"] skip_ws_length [of x] by (meson less_le_trans)
  have m: "jmembers n (skip_ws x) = Inr (ps, r) \<Longrightarrow> length r < length x" for x ps r
    using Suc.IH [of "skip_ws x"] skip_ws_length [of x] by (meson less_le_trans)
  have "jvalue (Suc n) s = Inr (v, r) \<Longrightarrow> length r < length s"
    by (auto split: option.splits elim!: rbind_InrE dest!: after_length after_skip_length jstr_length jliteral_length e m)
  moreover have "jelems (Suc n) s = Inr (vs, r) \<Longrightarrow> length r < length s"
    by (auto split: option.splits elim!: rbind_InrE dest!: after_skip_length v0 e)
  moreover have "jmembers (Suc n) s = Inr (ps, r) \<Longrightarrow> length r < length s"
    by (auto split: option.splits elim!: rbind_InrE dest!: after_length after_skip_length jstr_length v m)
  ultimately show ?case by blast
qed simp

lemma jvalue_fuel:
  "(2 * length s < n \<longrightarrow> jvalue n s \<noteq> Inl OutOfFuel) \<and>
   (2 * length s + 1 < n \<longrightarrow> jelems n s \<noteq> Inl OutOfFuel) \<and>
   (2 * length s < n \<longrightarrow> jmembers n s \<noteq> Inl OutOfFuel)"
proof (induction n arbitrary: s)
  case (Suc n)
  have v: "2 * length x < n \<Longrightarrow> jvalue n (skip_ws x) \<noteq> Inl OutOfFuel" for x
    using Suc.IH [of "skip_ws x"] skip_ws_length [of x] by simp
  have e: "2 * length x + 1 < n \<Longrightarrow> jelems n (skip_ws x) \<noteq> Inl OutOfFuel" for x
    using Suc.IH [of "skip_ws x"] skip_ws_length [of x] by simp
  have m: "2 * length x < n \<Longrightarrow> jmembers n (skip_ws x) \<noteq> Inl OutOfFuel" for x
    using Suc.IH [of "skip_ws x"] skip_ws_length [of x] by simp
  have vl: "jvalue n (skip_ws x) = Inr (w, r) \<Longrightarrow> length r < length x" for x w r
    using jvalue_lengths [of n "skip_ws x" w r] skip_ws_length [of x] by (meson less_le_trans)
  have vl0: "jvalue n x = Inr (w, r) \<Longrightarrow> length r < length x" for x w r
    using jvalue_lengths [of n x w r] by simp
  have "2 * length s < Suc n \<Longrightarrow> jvalue (Suc n) s \<noteq> Inl OutOfFuel"
    using jstr_fuel jliteral_fuel [of s]
    by (auto simp: rbind_Inl_iff e m split: option.splits dest!: after_length)
  moreover have "2 * length s + 1 < Suc n \<Longrightarrow> jelems (Suc n) s \<noteq> Inl OutOfFuel"
    using Suc.IH [of s]
    by (auto simp: rbind_Inl_iff e split: option.splits dest!: after_skip_length vl0)
  moreover have "2 * length s < Suc n \<Longrightarrow> jmembers (Suc n) s \<noteq> Inl OutOfFuel"
    using jstr_fuel
    by (auto simp: rbind_Inl_iff v m split: option.splits
        dest!: after_length after_skip_length jstr_length vl)
  ultimately show ?case by blast
qed simp

text \<open>\<open>json_loads\<close> always ends with a value or one of the reader's own exceptions.\<close>

lemma json_loads_fuel: "json_loads bs \<noteq> Inl OutOfFuel"
proof -
  have "jvalue (2 * length s + 1) (skip_ws s) \<noteq> Inl OutOfFuel" for s
    using jvalue_fuel [of "skip_ws s" "2 * length s + 1"] skip_ws_length [of s] by simp
  then show ?thesis
    by (auto simp: json_loads_def json_loads_str_def py_decode_def rbind_Inl_iff split: if_splits)
qed


section \<open>Round trip\<close>

text \<open>Integers.\<close>

lemma nat_str_digits: "nat_str n \<noteq> [] \<and> (\<forall>c\<in>set (nat_str n). is_digit c)"
proof (induction n rule: nat_str.induct)
  case (1 n)
  then show ?case by (subst (1 2) nat_str.simps) (auto simp: is_digit_def)
qed

lemma foldl_digits: "foldl (\<lambda>a c. 10 * a + (of_char c - 48)) 0 (xs @ [c]) =
    10 * foldl (\<lambda>a c. 10 * a + (of_char c - (48::nat))) 0 xs + (of_char c - 48)"
  by simp

lemma digits_value_nat_str: "digits_value (nat_str n) = n"
proof (induction n rule: nat_str.induct)
  case (1 n)
  show ?case
  proof (cases "n < 10")
    case True
    then show ?thesis by (subst nat_str.simps) (simp add: digits_value_def)
  next
    case False
    then have "digits_value (nat_str n) = 10 * (n div 10) + n mod 10"
      using 1 by (subst nat_str.simps) (simp add: digits_value_def)
    then show ?thesis by simp
  qed
qed

lemma nat_str_zero: "hd (nat_str n) = CHR ''0'' \<Longrightarrow> nat_str n = ''0''"
proof (induction n rule: nat_str.induct)
  case (1 n)
  show ?case
  proof (cases "n < 10")
    case True
    have "nat_str n = [char_of (48 + n)]" using True by (subst nat_str.simps) simp
    then show ?thesis using 1(2) by simp
  next
    case False
    have *: "nat_str n = nat_str (n div 10) @ [char_of (48 + n mod 10)]" using False by (subst nat_str.simps) simp
    then have "hd (nat_str (n div 10)) = CHR ''0''" using 1(2) nat_str_digits [of "n div 10"] by simp
    then have "nat_str (n div 10) = ''0''" using 1(1) False by blast
    then have "n div 10 = 0" using digits_value_nat_str [of "n div 10"] by (simp add: digits_value_def)
    with False show ?thesis by simp
  qed
qed

text \<open>What may follow a number for it to end there.\<close>

definition number_end :: "string \<Rightarrow> bool" where
  "number_end r = (case r of [] \<Rightarrow> True | c # _ \<Rightarrow> \<not> is_digit c \<and> c \<notin> {CHR ''.'', CHR ''e'', CHR ''E''})"

lemma frac_exp_end: "number_end r \<Longrightarrow> frac_part r = ([], r) \<and> exp_part r = (None, r)"
  by (cases r) (auto simp: number_end_def frac_part_def exp_part_def split_beta)

lemma takeWhile_digits: "number_end r \<Longrightarrow> takeWhile is_digit (nat_str n @ r) = nat_str n"
  using nat_str_digits [of n] by (cases r) (simp_all add: takeWhile_append2 number_end_def)

lemma digits_of_nat_str:
  assumes "number_end r"
  shows "(case nat_str n @ r of c # _ \<Rightarrow> if c = CHR ''0'' then [c] else takeWhile is_digit (nat_str n @ r) | [] \<Rightarrow> [])
    = nat_str n"
proof -
  obtain c cs where c: "nat_str n = c # cs" using nat_str_digits [of n] by (cases "nat_str n") auto
  show ?thesis
  proof (cases "c = CHR ''0''")
    case True
    with c nat_str_zero [of n] show ?thesis by simp
  next
    case False
    with c takeWhile_digits [OF assms, of n] show ?thesis by simp
  qed
qed

lemma nat_str_not_minus: "nat_str n = c # cs \<Longrightarrow> c \<noteq> CHR ''-''"
  using nat_str_digits [of n] by (auto simp: is_digit_def)

lemma jnumber_int_str:
  assumes "number_end r" and "length (nat_str (nat \<bar>i\<bar>)) \<le> 4300"
  shows "jnumber (int_str i @ r) = Inr (PInt i, r)"
proof -
  let ?n = "nat \<bar>i\<bar>"
  have sign: "(case int_str i @ r of c # r' \<Rightarrow> if c = CHR ''-'' then (True, r') else (False, int_str i @ r)
      | [] \<Rightarrow> (False, int_str i @ r)) = (i < 0, nat_str ?n @ r)"
  proof (cases "i < 0")
    case True
    then show ?thesis by (simp add: int_str_def)
  next
    case False
    obtain c cs where c: "nat_str ?n = c # cs" using nat_str_digits [of ?n] by (cases "nat_str ?n") auto
    with False nat_str_not_minus [OF c] show ?thesis by (simp add: int_str_def)
  qed
  show ?thesis
    unfolding jnumber_def sign Let_def prod.case digits_of_nat_str [OF assms(1)]
    using assms nat_str_digits [of ?n] by (simp add: frac_exp_end digits_value_nat_str)
qed

lemma int_str_start:
  obtains c cs where "int_str i = c # cs" and "is_digit c \<or> c = CHR ''-''"
proof (cases "i < 0")
  case False
  then show thesis
    using that nat_str_digits [of "nat i"] by (cases "nat_str (nat i)") (auto simp: int_str_def)
qed (use that in \<open>simp add: int_str_def\<close>)

lemma jliteral_int_str:
  assumes "number_end r" and "length (nat_str (nat \<bar>i\<bar>)) \<le> 4300"
  shows "jliteral (int_str i @ r) = Inr (PInt i, r)"
proof -
  obtain c cs where "int_str i = c # cs" "is_digit c \<or> c = CHR ''-''" by (rule int_str_start)
  then have "after ''null'' (int_str i @ r) = None" "after ''true'' (int_str i @ r) = None"
    "after ''false'' (int_str i @ r) = None" by (auto simp: is_digit_def)
  then show ?thesis using jnumber_int_str [OF assms] by (simp add: jliteral_def)
qed

text \<open>Strings of ASCII characters.\<close>

lemma hex4_value:
  assumes "n < 65536"
  shows "((n div 4096 mod 16 * 16 + n div 256 mod 16) * 16 + n div 16 mod 16) * 16 + n mod 16 = (n::nat)"
proof -
  have e: "n div 256 = n div 16 div 16" "n div 4096 = n div 16 div 16 div 16"
    by (simp_all add: div_mult2_eq [symmetric])
  have "n div 16 div 16 div 16 mod 16 = n div 16 div 16 div 16"
    using assms by (simp add: div_mult2_eq [symmetric])
  then show ?thesis by (simp only: e div_mult_mod_eq)
qed

lemma read_hex4_hex4: "n < 65536 \<Longrightarrow> read_hex4 (hex4 n @ r) = Some (n, r)"
  using hex4_value [of n] by (simp add: read_hex4_def hex4_def)

lemma read_unicode_ascii: "n < 128 \<Longrightarrow> read_unicode (hex4 n @ r) = Some ([char_of n], r)"
  by (simp add: read_unicode_def read_hex4_hex4 utf8_char_def)

lemma char_of_flip: "k < 256 \<Longrightarrow> (d = char_of k) = ((of_char d :: nat) = k)"
  by auto

lemma jstring_esc_ascii:
  assumes "(of_char c :: nat) < 128" and "jstring n r = Inr (ts, r')"
  shows "jstring (Suc n) (esc_ascii c @ r) = Inr (c # ts, r')"
proof -
  define m where "m = (of_char c :: nat)"
  have c: "c = char_of m" by (simp add: m_def)
  have m: "m < 128" using assms(1) by (simp add: m_def)
  consider "m = 34" | "m = 92" | "m = 10" | "m = 13" | "m = 9" | "m = 12" | "m = 8"
    | "32 \<le> m" "m \<le> 126" "m \<noteq> 34" "m \<noteq> 92"
    | "\<not> (32 \<le> m \<and> m \<le> 126)" "m \<notin> {34, 92, 10, 13, 9, 12, 8}"
    by fastforce
  then show ?thesis
  proof cases
    case 8
    then have "esc_ascii c = [c]" by (simp add: esc_ascii_def m_def [symmetric])
    moreover have "c \<noteq> CHR 0x22" "c \<noteq> CHR 0x5C" using 8 by (auto simp: m_def)
    ultimately show ?thesis using 8 assms(2) by (simp add: m_def)
  next
    case 9
    then have "esc_ascii c = u_escape m" by (auto simp: esc_ascii_def m_def [symmetric])
    then show ?thesis using m assms(2) c by (simp add: u_escape_def read_unicode_ascii)
  qed (use assms(2) in \<open>simp_all add: c esc_ascii_def simple_escape_def char_of_flip\<close>)
qed

lemma jstring_esc_string:
  "ascii s \<Longrightarrow> length (esc_string s) < n \<Longrightarrow> jstring n (esc_string s @ CHR 0x22 # r) = Inr (s, r)"
proof (induction s arbitrary: n)
  case Nil
  then show ?case by (cases n) auto
next
  case (Cons c s)
  then obtain k where n: "n = Suc k" by (cases n) auto
  have c: "(of_char c :: nat) < 128" and s: "ascii s" using Cons.prems(1) by (auto simp: ascii_def)
  have e: "esc_string (c # s) = esc_ascii c @ esc_string s" using c by simp
  have "0 < length (esc_ascii c)" by (auto simp: esc_ascii_def Let_def u_escape_def)
  then have "jstring k (esc_string s @ CHR 0x22 # r) = Inr (s, r)"
    using Cons.prems(2) n unfolding e length_append by (intro Cons.IH [OF s]) linarith
  from jstring_esc_ascii [OF c this] show ?case unfolding e n append_assoc .
qed

lemma jstr_quote: "ascii s \<Longrightarrow> jstr (esc_string s @ CHR 0x22 # r) = Inr (s, r)"
  unfolding jstr_def by (rule jstring_esc_string) auto

text \<open>
  The values a text carries back unchanged: ASCII strings, integers that Python prints, dicts
  without duplicate keys, and floats whose printed form reads back (\<open>float_rt\<close>).
\<close>

definition json_start :: "string \<Rightarrow> bool" where
  "json_start t = (case t of [] \<Rightarrow> False | c # _ \<Rightarrow> \<not> is_ws c \<and> c \<noteq> CHR '']'' \<and> c \<noteq> CHR ''}'')"

definition lit_start :: "string \<Rightarrow> bool" where
  "lit_start t = (json_start t \<and> hd t \<notin> {CHR 0x22, CHR ''{'', CHR ''[''})"

definition float_rt :: "pyfloat \<Rightarrow> bool" where
  "float_rt f = (lit_start (float_str f) \<and>
     (\<forall>r. number_end r \<longrightarrow> jliteral (float_str f @ r) = Inr (PFloat f, r)))"

fun plain :: "pyval \<Rightarrow> bool" where
  "plain PNone = True"
| "plain (PBool b) = True"
| "plain (PInt i) = True"
| "plain (PFloat f) = float_rt f"
| "plain (PStr s) = ascii s"
| "plain (PBytes b) = False"
| "plain (PList xs) = list_all plain xs"
| "plain (PDict d) = (distinct (map fst d) \<and> list_all (\<lambda>(k, v). ascii k \<and> plain v) d)"

definition seps :: "string \<Rightarrow> string \<Rightarrow> bool" where
  "seps si sk = (\<exists>a b. si = CHR '','' # a \<and> sk = CHR '':'' # b \<and> list_all is_ws a \<and> list_all is_ws b)"

lemma lit_start_int_str: "lit_start (int_str i)"
  by (rule int_str_start [of i]) (auto simp: lit_start_def json_start_def is_digit_def is_ws_def Let_def)

lemma jvalue_literal: "lit_start t \<Longrightarrow> 0 < n \<Longrightarrow> jvalue n (t @ r) = jliteral (t @ r)"
  by (cases n; cases t) (auto simp: lit_start_def json_start_def)

lemma json_str_start: "json_str si sk v = Inr t \<Longrightarrow> plain v \<Longrightarrow> json_start t"
  using lit_start_int_str
  by (cases v) (auto simp: float_rt_def lit_start_def quote_def json_start_def is_ws_def
      split: if_splits elim!: rbind_InrE)

lemma skip_ws_all: "list_all is_ws w \<Longrightarrow> skip_ws (w @ s) = skip_ws s"
  by (induction w) auto

lemma skip_ws_start: "json_start t \<Longrightarrow> skip_ws (t @ r) = t @ r"
  by (cases t) (auto simp: json_start_def)

lemma after_start: "json_start t \<Longrightarrow> after '']'' (t @ r) = None \<and> after ''}'' (t @ r) = None"
  by (cases t) (auto simp: json_start_def)

lemma json_start_append: "json_start t \<Longrightarrow> json_start (t @ r)"
  by (cases t) (auto simp: json_start_def)

lemma json_start_length: "json_start t \<Longrightarrow> 0 < length t"
  by (cases t) (auto simp: json_start_def)

lemma json_items_start: "json_items si sk xs = Inr t \<Longrightarrow> xs \<noteq> [] \<Longrightarrow> list_all plain xs \<Longrightarrow> json_start t"
  by (cases xs) (auto elim!: rbind_InrE dest!: json_str_start intro: json_start_append)

lemma json_pairs_start: "json_pairs si sk ps = Inr t \<Longrightarrow> ps \<noteq> [] \<Longrightarrow> json_start t"
  by (cases ps) (auto simp: quote_def json_start_def is_ws_def elim!: rbind_InrE)

lemma number_end_cons: "number_end (c # r) = (\<not> is_digit c \<and> c \<notin> {CHR ''.'', CHR ''e'', CHR ''E''})"
  by (simp add: number_end_def)

lemma json_round:
  "seps si sk \<Longrightarrow> json_str si sk v = Inr t \<Longrightarrow> plain v \<Longrightarrow> number_end r \<Longrightarrow> 2 * length t < n \<Longrightarrow>
    jvalue n (t @ r) = Inr (v, r)"
  "seps si sk \<Longrightarrow> json_items si sk xs = Inr t \<Longrightarrow> list_all plain xs \<Longrightarrow> xs \<noteq> [] \<Longrightarrow> 2 * length t + 1 < n \<Longrightarrow>
    jelems n (t @ CHR '']'' # r) = Inr (xs, r)"
  "seps si sk \<Longrightarrow> json_pairs si sk ps = Inr t \<Longrightarrow> list_all (\<lambda>(k, v). ascii k \<and> plain v) ps \<Longrightarrow> ps \<noteq> [] \<Longrightarrow>
    2 * length t + 1 < n \<Longrightarrow> jmembers n (t @ CHR ''}'' # r) = Inr (ps, r)"
proof (induction si sk v and si sk xs and si sk ps arbitrary: t r n and t r n and t r n
    rule: json_str_json_items_json_pairs.induct)
  case (1 si sk)
  then show ?case by (cases n) (auto simp: jliteral_def)
next
  case (2 si sk b)
  then show ?case by (cases n; cases b) (auto simp: jliteral_def)
next
  case (3 si sk i)
  then show ?case using lit_start_int_str by (auto simp: jvalue_literal jliteral_int_str split: if_splits)
next
  case (4 si sk f)
  then show ?case by (auto simp: jvalue_literal float_rt_def)
next
  case (5 si sk s)
  then show ?case by (cases n) (auto simp: quote_def jstr_quote)
next
  case (6 si sk b)
  then show ?case by simp
next
  case (7 si sk xs)
  then obtain u where u: "json_items si sk xs = Inr u" "t = ''['' @ u @ '']''" by (auto elim: rbind_InrE)
  obtain k where n: "n = Suc k" using 7(6) by (cases n) auto
  show ?case
  proof (cases "xs = []")
    case True
    then show ?thesis using u n by (simp add: is_ws_def)
  next
    case False
    have k: "2 * length u + 1 < k" using 7(6) u n by simp
    have s: "json_start u" using False u 7(4) json_items_start by auto
    show ?thesis using 7(1) [OF 7(2) u(1) _ False k, of r] 7(4) u n
      by (simp add: skip_ws_start [OF s] after_start [OF s])
  qed
next
  case (8 si sk d)
  then obtain u where u: "json_pairs si sk d = Inr u" "t = ''{'' @ u @ ''}''" by (auto elim: rbind_InrE)
  obtain k where n: "n = Suc k" using 8(6) by (cases n) auto
  show ?case
  proof (cases "d = []")
    case True
    then show ?thesis using u n by (simp add: is_ws_def)
  next
    case False
    have k: "2 * length u + 1 < k" using 8(6) u n by simp
    have s: "json_start u" using False u json_pairs_start by auto
    show ?thesis using 8(1) [OF 8(2) u(1) _ False k, of r] 8(4) u n
      by (simp add: skip_ws_start [OF s] after_start [OF s] dict_of_pairs_distinct)
  qed
next
  case (9 si sk)
  then show ?case by simp
next
  case (10 si sk x xs)
  obtain t1 t2 where t: "json_str si sk x = Inr t1" "json_items si sk xs = Inr t2"
    "t = t1 @ (if xs = [] then [] else si) @ t2" using 10(4) by (auto elim!: rbind_InrE)
  obtain k where n: "n = Suc k" using 10(7) by (cases n) auto
  obtain w where w: "si = CHR '','' # w" "list_all is_ws w" using 10(3) by (auto simp: seps_def)
  have px: "plain x" and pxs: "list_all plain xs" using 10(5) by simp_all
  have l: "0 < length t1" using json_str_start [OF t(1) px] by (rule json_start_length)
  show ?case
  proof (cases "xs = []")
    case True
    then have "t2 = []" using t(2) by simp
    then show ?thesis
      using 10(1) [OF 10(3) t(1) px, of "CHR '']'' # r" k] 10(7) True t(3) n
      by (simp add: number_end_cons is_ws_def is_digit_def)
  next
    case False
    have s: "json_start t2" using json_items_start [OF t(2) False pxs] .
    have "jvalue k (t1 @ si @ t2 @ CHR '']'' # r) = Inr (x, si @ t2 @ CHR '']'' # r)"
      using 10(7) t(3) n w by (intro 10(1) [OF 10(3) t(1) px]) (auto simp: number_end_cons is_digit_def)
    moreover have "jelems k (t2 @ CHR '']'' # r) = Inr (xs, r)"
      using 10(7) t(3) n w l False by (intro 10(2) [OF 10(3) t(2) pxs False]) auto
    ultimately show ?thesis using n t(3) False w
      by (simp add: is_ws_def skip_ws_all skip_ws_start [OF s])
  qed
next
  case (11 si sk)
  then show ?case by simp
next
  case (12 si sk p ps)
  obtain t1 t2 where t: "json_str si sk (snd p) = Inr t1" "json_pairs si sk ps = Inr t2"
    "t = quote (fst p) @ sk @ t1 @ (if ps = [] then [] else si) @ t2"
    using 12(4) by (auto elim!: rbind_InrE)
  obtain k where n: "n = Suc k" using 12(7) by (cases n) auto
  obtain w w' where w: "si = CHR '','' # w" "list_all is_ws w" "sk = CHR '':'' # w'" "list_all is_ws w'"
    using 12(3) by (auto simp: seps_def)
  have pk: "ascii (fst p)" and px: "plain (snd p)" and pxs: "list_all (\<lambda>(k, v). ascii k \<and> plain v) ps"
    using 12(5) by (cases p; simp)+
  have s1: "json_start t1" using json_str_start [OF t(1) px] .
  show ?case
  proof (cases "ps = []")
    case True
    then have "t2 = []" using t(2) by simp
    then show ?thesis
      using 12(1) [OF 12(3) t(1) px, of "CHR ''}'' # r" k] 12(7) True t(3) n w
      by (simp add: quote_def jstr_quote [OF pk] is_ws_def skip_ws_all skip_ws_start [OF s1] number_end_cons is_digit_def)
  next
    case False
    have s: "json_start t2" using json_pairs_start [OF t(2) False] .
    have "jvalue k (t1 @ si @ t2 @ CHR ''}'' # r) = Inr (snd p, si @ t2 @ CHR ''}'' # r)"
      using 12(7) t(3) n w by (intro 12(1) [OF 12(3) t(1) px]) (auto simp: number_end_cons is_digit_def)
    moreover have "jmembers k (t2 @ CHR ''}'' # r) = Inr (ps, r)"
      using 12(7) t(3) n w False by (intro 12(2) [OF 12(3) t(2) pxs False]) auto
    ultimately show ?thesis using n t(3) False w
      by (simp add: quote_def jstr_quote [OF pk] is_ws_def skip_ws_all skip_ws_start [OF s] skip_ws_start [OF s1])
  qed
qed

lemma ascii_append [simp]: "ascii (a @ b) = (ascii a \<and> ascii b)"
  by (auto simp: ascii_def)

lemma ascii_cons: "ascii (c # b) = ((of_char c :: nat) < 128 \<and> ascii b)"
  by (auto simp: ascii_def)

lemma json_loads_str_round:
  assumes "json_str si sk v = Inr t" and "seps si sk" and "plain v"
  shows "json_loads_str t = Inr v"
proof -
  have s: "skip_ws t = t" using skip_ws_start [OF json_str_start [OF assms(1,3)], of "[]"] by simp
  have "jvalue (2 * length t + 1) (t @ []) = Inr (v, [])"
    by (rule json_round(1) [OF assms(2,1,3)]) (simp_all add: number_end_def)
  then show ?thesis by (simp add: json_loads_str_def s)
qed

lemma seps_dumps: "seps '','' '':''" "seps '', '' '': ''"
  by (auto simp: seps_def is_ws_def)

text \<open>What \<open>json.dumps\<close> prints is ASCII.\<close>

lemma ascii_nat_str: "ascii (nat_str n)"
  using nat_str_digits [of n] by (auto simp: ascii_def is_digit_def Let_def)

lemma hex_digit_ascii: "n < 16 \<Longrightarrow> (of_char (hex_digit n) :: nat) < 128"
  by (simp add: hex_digit_def)

lemma ascii_u_escape: "ascii (u_escape n)"
  by (simp add: ascii_def u_escape_def hex4_def hex_digit_ascii)

lemma ascii_esc_code_point: "ascii (esc_code_point n)"
  by (simp add: esc_code_point_def ascii_u_escape)

lemma ascii_esc_ascii: "ascii (esc_ascii c)"
proof -
  have "ascii [c]" if "(of_char c :: nat) \<le> 126" using that by (simp add: ascii_def)
  then show ?thesis by (simp add: esc_ascii_def Let_def ascii_u_escape) (simp add: ascii_def)
qed

lemma ascii_Nil [simp]: "ascii []"
  by (simp add: ascii_def)

lemma ascii_esc_string: "ascii (esc_string s)"
  by (induction s rule: esc_string.induct)
    (auto simp: Let_def ascii_esc_code_point ascii_esc_ascii split: list.splits)

lemma ascii_quote: "ascii (quote s)"
  by (simp add: quote_def ascii_cons ascii_esc_string)

lemma ascii_strip_zeros: "ascii ds \<Longrightarrow> ascii (strip_zeros ds)"
proof (induction ds rule: strip_zeros.induct)
  case (1 ds)
  then show ?case by (subst strip_zeros.simps) (auto simp: ascii_def dest: in_set_butlastD)
qed

lemma ascii_parts: "ascii ds \<Longrightarrow> ascii (take n ds) \<and> ascii (drop n ds)"
  by (auto simp: ascii_def dest: in_set_takeD in_set_dropD)

lemma ascii_zeros: "ascii (replicate n (CHR ''0''))"
  by (auto simp: ascii_def)

lemma ascii_float_digits: "ascii (float_digits q)"
  by (simp add: float_digits_def Let_def split_beta ascii_cons ascii_parts ascii_strip_zeros ascii_nat_str
      ascii_zeros)

lemma ascii_float_str: "ascii (float_str f)"
  by (cases f) (simp_all add: ascii_cons ascii_float_digits)

lemma ascii_json:
  "json_str si sk v = Inr t \<Longrightarrow> ascii si \<Longrightarrow> ascii sk \<Longrightarrow> ascii t"
  "json_items si sk xs = Inr t \<Longrightarrow> ascii si \<Longrightarrow> ascii sk \<Longrightarrow> ascii t"
  "json_pairs si sk ps = Inr t \<Longrightarrow> ascii si \<Longrightarrow> ascii sk \<Longrightarrow> ascii t"
proof (induction si sk v and si sk xs and si sk ps arbitrary: t and t and t
    rule: json_str_json_items_json_pairs.induct)
  case (3 si sk i)
  then show ?case by (auto simp: ascii_cons ascii_nat_str int_str_def split: if_splits)
qed (auto simp: ascii_cons ascii_float_str ascii_quote split: if_splits elim!: rbind_InrE)

lemma json_dumps_loads: "json_dumps v = Inr bs \<Longrightarrow> plain v \<Longrightarrow> json_loads bs = Inr v"
  by (auto simp: json_dumps_def json_loads_def ascii_cons py_decode_encode ascii_json(1)
      json_loads_str_round seps_dumps elim!: rbind_InrE)

lemma json_dumps_compact_loads: "json_dumps_compact v = Inr bs \<Longrightarrow> plain v \<Longrightarrow> json_loads bs = Inr v"
  by (auto simp: json_dumps_compact_def json_loads_def ascii_cons py_decode_encode ascii_json(1)
      json_loads_str_round seps_dumps elim!: rbind_InrE)

text \<open>The special floats read back.\<close>

lemma float_rt_special: "float_rt FNan" "float_rt FPInf" "float_rt FNInf"
  by (simp_all add: float_rt_def lit_start_def json_start_def is_ws_def jliteral_def jnumber_def is_digit_def
      frac_part_def exp_part_def)

end
