(* ===== verification/PacketBuilder.thy ===== *)
theory PacketBuilder
  imports Sha256 Json
begin

text \<open>
  \<open>car_producer/src/packet_builder.py\<close>: the protocol constants, the 64-byte binary header
  (\<open>struct\<close> format \<open>!IBBBBQQI32sI\<close>), the \<open>PacketBuilder\<close> class with its sequence counter, and the
  static header parser that the validator also calls. The lemmas show that packing and unpacking
  the header are inverse, that a built packet parses back to what was built, that its checksum
  verifies, and that the sequence numbers of a builder count up by one per call.
\<close>

section \<open>Protocol constants\<close>

definition MAGIC :: int where "MAGIC = 0x50435246"
definition PROTOCOL_VER :: int where "PROTOCOL_VER = 1"
definition PACKET_TYPE_TEL :: int where "PACKET_TYPE_TEL = 1"
definition HEADER_SIZE :: nat where "HEADER_SIZE = 64"

definition TEAM_IDS :: "int dict" where
  "TEAM_IDS = [(''mercedes'', 1), (''redbull'', 2), (''ferrari'', 3), (''mclaren'', 4), (''williams'', 5)]"

definition SESSION_IDS :: "int dict" where
  "SESSION_IDS = [(''R'', 1), (''Q'', 2), (''S'', 3)]"

section \<open>The header codec\<close>

record header =
  h_magic :: int
  h_version :: int
  h_team_id :: int
  h_session_id :: int
  h_packet_type :: int
  h_sequence_no :: int
  h_timestamp_ms :: int
  h_payload_len :: int
  h_checksum :: bytes
  h_reserved :: int

definition HEADER_FORMAT :: "nat list" where
  "HEADER_FORMAT = [4, 1, 1, 1, 1, 8, 8, 4, 32, 4]"

definition fits :: "nat \<Rightarrow> int \<Rightarrow> bool" where
  "fits w n = (0 \<le> n \<and> n < 256 ^ w)"

definition header_fits :: "header \<Rightarrow> bool" where
  "header_fits h =
     (fits 4 (h_magic h) \<and> fits 1 (h_version h) \<and> fits 1 (h_team_id h) \<and> fits 1 (h_session_id h) \<and>
      fits 1 (h_packet_type h) \<and> fits 8 (h_sequence_no h) \<and> fits 8 (h_timestamp_ms h) \<and>
      fits 4 (h_payload_len h) \<and> fits 4 (h_reserved h))"

text \<open>\<open>32s\<close> truncates or pads its bytes to 32.\<close>

definition pad32 :: "bytes \<Rightarrow> bytes" where
  "pad32 b = take 32 b @ replicate (32 - length b) 0"

definition header_fields :: "header \<Rightarrow> bytes list" where
  "header_fields h =
     [be_bytes 4 (nat (h_magic h)), be_bytes 1 (nat (h_version h)), be_bytes 1 (nat (h_team_id h)),
      be_bytes 1 (nat (h_session_id h)), be_bytes 1 (nat (h_packet_type h)),
      be_bytes 8 (nat (h_sequence_no h)), be_bytes 8 (nat (h_timestamp_ms h)),
      be_bytes 4 (nat (h_payload_len h)), pad32 (h_checksum h), be_bytes 4 (nat (h_reserved h))]"

definition struct_pack :: "header \<Rightarrow> bytes res" where
  "struct_pack h = (if header_fits h then Inr (concat (header_fields h)) else Inl StructErr)"

definition struct_unpack :: "bytes \<Rightarrow> header res" where
  "struct_unpack bs =
     (if length bs \<noteq> HEADER_SIZE then Inl StructErr
      else case cut HEADER_FORMAT bs of
        [m, v, t, s, p, q, ms, l, c, r] \<Rightarrow>
          Inr \<lparr>h_magic = int (be_nat m), h_version = int (be_nat v), h_team_id = int (be_nat t),
               h_session_id = int (be_nat s), h_packet_type = int (be_nat p),
               h_sequence_no = int (be_nat q), h_timestamp_ms = int (be_nat ms),
               h_payload_len = int (be_nat l), h_checksum = c, h_reserved = int (be_nat r)\<rparr>
      | _ \<Rightarrow> Inl StructErr)"

lemma length_pad32 [simp]: "length (pad32 b) = 32"
  by (simp add: pad32_def)

lemma pad32_id [simp]: "length b = 32 \<Longrightarrow> pad32 b = b"
  by (simp add: pad32_def)

lemma map_length_header_fields: "map length (header_fields h) = HEADER_FORMAT"
  by (simp add: header_fields_def HEADER_FORMAT_def)

lemma length_struct_pack: "struct_pack h = Inr bs \<Longrightarrow> length bs = HEADER_SIZE"
  using map_length_header_fields [of h]
  by (auto simp: struct_pack_def HEADER_SIZE_def HEADER_FORMAT_def length_concat split: if_splits)

lemma be_nat_fits: "fits w n \<Longrightarrow> int (be_nat (be_bytes w (nat n))) = n"
  by (auto simp: fits_def be_nat_be_bytes nat_less_iff)

text \<open>A packed header unpacks to its fields.\<close>

lemma struct_unpack_pack:
  assumes "struct_pack h = Inr bs"
  shows "struct_unpack bs = Inr (h\<lparr>h_checksum := pad32 (h_checksum h)\<rparr>)"
proof -
  from assms have f: "header_fits h" and bs: "bs = concat (header_fields h)"
    by (auto simp: struct_pack_def split: if_splits)
  have "cut HEADER_FORMAT bs = header_fields h"
    unfolding bs by (rule cut_concat) (rule map_length_header_fields)
  moreover have "length bs = HEADER_SIZE"
    using assms by (rule length_struct_pack)
  ultimately show ?thesis
    using f by (simp add: struct_unpack_def header_fields_def header_fits_def be_nat_fits)
qed

lemma fits_be_nat: "length b = w \<Longrightarrow> fits w (int (be_nat b))"
proof -
  assume "length b = w"
  then have "int (be_nat b) < int (256 ^ w)" using be_nat_less [of b] by (simp only: of_nat_less_iff)
  then show ?thesis by (simp add: fits_def)
qed

text \<open>Every 64-byte string is the packing of exactly one header.\<close>

lemma struct_pack_unpack:
  assumes "length bs = HEADER_SIZE"
  obtains h where "struct_unpack bs = Inr h" and "struct_pack h = Inr bs" and "length (h_checksum h) = 32"
proof -
  obtain m v t s p q ms l c r where c: "cut HEADER_FORMAT bs = [m, v, t, s, p, q, ms, l, c, r]"
    by (simp add: HEADER_FORMAT_def)
  have sum: "sum_list HEADER_FORMAT = length bs"
    using assms by (simp add: HEADER_FORMAT_def HEADER_SIZE_def)
  then have lens: "map length (cut HEADER_FORMAT bs) = HEADER_FORMAT"
    and cc: "concat (cut HEADER_FORMAT bs) = bs"
    by (simp_all add: map_length_cut concat_cut)
  let ?h = "\<lparr>h_magic = int (be_nat m), h_version = int (be_nat v), h_team_id = int (be_nat t),
               h_session_id = int (be_nat s), h_packet_type = int (be_nat p),
               h_sequence_no = int (be_nat q), h_timestamp_ms = int (be_nat ms),
               h_payload_len = int (be_nat l), h_checksum = c, h_reserved = int (be_nat r)\<rparr>"
  from lens have l: "length m = 4" "length v = 1" "length t = 1" "length s = 1" "length p = 1"
    "length q = 8" "length ms = 8" "length l = 4" "length c = 32" "length r = 4"
    unfolding c by (simp_all add: HEADER_FORMAT_def)
  show ?thesis
  proof (rule that [of ?h])
    show "struct_unpack bs = Inr ?h" using assms c by (simp add: struct_unpack_def)
    have "header_fields ?h = cut HEADER_FORMAT bs"
      unfolding c using l by (simp add: header_fields_def be_bytes_be_nat)
    moreover have "header_fits ?h" using l by (simp add: header_fits_def fits_be_nat)
    ultimately show "struct_pack ?h = Inr bs" using cc by (simp add: struct_pack_def)
    show "length (h_checksum ?h) = 32" using l by simp
  qed
qed

section \<open>Reading a header\<close>

text \<open>The dict \<open>parse_header\<close> returns, with its nine keys.\<close>

record header_info =
  hi_magic :: string
  hi_version :: int
  hi_team :: string
  hi_session :: string
  hi_packet_type :: int
  hi_sequence_no :: int
  hi_timestamp_ms :: int
  hi_payload_len :: int
  hi_checksum :: string

fun hex_nat :: "nat \<Rightarrow> string" where
  "hex_nat n = (if n < 16 then [hex_digit n] else hex_nat (n div 16) @ [hex_digit (n mod 16)])"

declare hex_nat.simps [simp del]

definition py_hex :: "int \<Rightarrow> string" where
  "py_hex i = (if i < 0 then ''-0x'' @ hex_nat (nat (- i)) else ''0x'' @ hex_nat (nat i))"

definition name_or_unknown :: "int dict \<Rightarrow> int \<Rightarrow> string" where
  "name_or_unknown d x = (case key_with_value d x of Some k \<Rightarrow> k | None \<Rightarrow> ''unknown'')"

definition parse_header :: "bytes \<Rightarrow> header_info res" where
  "parse_header raw =
     (if length raw < HEADER_SIZE then Inl ValueErr
      else rbind (struct_unpack (take HEADER_SIZE raw)) (\<lambda>h.
        if h_magic h \<noteq> MAGIC then Inl ValueErr
        else Inr \<lparr>hi_magic = py_hex (h_magic h), hi_version = h_version h,
                  hi_team = name_or_unknown TEAM_IDS (h_team_id h),
                  hi_session = name_or_unknown SESSION_IDS (h_session_id h),
                  hi_packet_type = h_packet_type h, hi_sequence_no = h_sequence_no h,
                  hi_timestamp_ms = h_timestamp_ms h, hi_payload_len = h_payload_len h,
                  hi_checksum = to_hex (h_checksum h)\<rparr>))"

text \<open>\<open>raw[HEADER_SIZE : HEADER_SIZE + n]\<close>\<close>

definition payload_slice :: "bytes \<Rightarrow> int \<Rightarrow> bytes" where
  "payload_slice raw n = take (nat n) (drop HEADER_SIZE raw)"

definition parse_payload :: "bytes \<Rightarrow> pyval res" where
  "parse_payload raw = rbind (parse_header raw) (\<lambda>h. json_loads (payload_slice raw (hi_payload_len h)))"

definition verify_checksum :: "bytes \<Rightarrow> bool res" where
  "verify_checksum raw = rbind (parse_header raw) (\<lambda>h.
     Inr (to_hex (sha256 (payload_slice raw (hi_payload_len h))) = hi_checksum h))"

section \<open>The builder\<close>

record builder =
  bld_team :: string
  bld_session :: string
  bld_node_id :: string
  bld_sequence :: int
  bld_packets_built :: int

text \<open>\<open>str.lower\<close> and \<open>str.upper\<close> on ASCII letters.\<close>

definition lower_char :: "char \<Rightarrow> char" where
  "lower_char c = (let n = (of_char c :: nat) in if 65 \<le> n \<and> n \<le> 90 then char_of (n + 32) else c)"

definition upper_char :: "char \<Rightarrow> char" where
  "upper_char c = (let n = (of_char c :: nat) in if 97 \<le> n \<and> n \<le> 122 then char_of (n - 32) else c)"

definition builder_init :: "string \<Rightarrow> string \<Rightarrow> string option \<Rightarrow> builder res" where
  "builder_init team session node_id =
     (let t = map lower_char team; s = map upper_char session;
          dflt = t @ ''_'' @ s @ ''_node'';
          n = (case node_id of Some x \<Rightarrow> (if x = [] then dflt else x) | None \<Rightarrow> dflt)
      in if \<not> dict_has TEAM_IDS t then Inl ValueErr
         else if \<not> dict_has SESSION_IDS s then Inl ValueErr
         else Inr \<lparr>bld_team = t, bld_session = s, bld_node_id = n, bld_sequence = 0,
                   bld_packets_built = 0\<rparr>)"

definition next_sequence :: "builder \<Rightarrow> int \<times> builder" where
  "next_sequence b = (bld_sequence b + 1, b\<lparr>bld_sequence := bld_sequence b + 1\<rparr>)"

definition build_payload :: "pydict \<Rightarrow> bytes res" where
  "build_payload frame = json_dumps_compact (PDict
     [(''driver'', dict_get_or frame ''driver'' (PStr ''UNK'')),
      (''lap'', dict_get_or frame ''lap'' (PInt 0)),
      (''race'', dict_get_or frame ''race'' (PStr [])),
      (''frame_index'', dict_get_or frame ''frame_index'' (PInt 0)),
      (''Speed'', dict_get_or frame ''Speed'' (PFloat (FFin 0))),
      (''RPM'', dict_get_or frame ''RPM'' (PFloat (FFin 0))),
      (''Throttle'', dict_get_or frame ''Throttle'' (PFloat (FFin 0))),
      (''Brake'', dict_get_or frame ''Brake'' (PInt 0)),
      (''nGear'', dict_get_or frame ''nGear'' (PInt 0)),
      (''DRS'', dict_get_or frame ''DRS'' (PInt 0))])"

definition dict_int :: "int dict \<Rightarrow> string \<Rightarrow> int res" where
  "dict_int d k = (case map_of d k of Some v \<Rightarrow> Inr v | None \<Rightarrow> Inl KeyErr)"

definition build_header :: "builder \<Rightarrow> int \<Rightarrow> int \<Rightarrow> bytes \<Rightarrow> bytes \<Rightarrow> bytes res" where
  "build_header b seq ts payload checksum =
     rbind (dict_int TEAM_IDS (bld_team b)) (\<lambda>t. rbind (dict_int SESSION_IDS (bld_session b)) (\<lambda>s.
       struct_pack \<lparr>h_magic = MAGIC, h_version = PROTOCOL_VER, h_team_id = t, h_session_id = s,
         h_packet_type = PACKET_TYPE_TEL, h_sequence_no = seq, h_timestamp_ms = ts,
         h_payload_len = int (length payload), h_checksum = checksum, h_reserved = 0\<rparr>))"

text \<open>The packet dict, with its ten keys in the source's order.\<close>

definition built_packet :: "builder \<Rightarrow> int \<Rightarrow> int \<Rightarrow> bytes \<Rightarrow> bytes \<Rightarrow> pydict" where
  "built_packet b seq ts payload header =
     [(''raw_bytes'', PBytes (header @ payload)), (''header'', PBytes header),
      (''payload'', PBytes payload), (''sequence_no'', PInt seq), (''timestamp'', PInt ts),
      (''checksum'', PStr (to_hex (sha256 payload))), (''team'', PStr (bld_team b)),
      (''session'', PStr (bld_session b)), (''node_id'', PStr (bld_node_id b)),
      (''size'', PInt (int (length (header @ payload))))]"

text \<open>The part of \<open>build\<close> that can raise: payload, checksum, header, packet.\<close>

definition assemble :: "builder \<Rightarrow> int \<Rightarrow> int \<Rightarrow> pydict \<Rightarrow> pydict res" where
  "assemble b seq ts frame =
     rbind (build_payload frame) (\<lambda>payload.
     rbind (build_header b seq ts payload (sha256 payload)) (\<lambda>header.
       Inr (built_packet b seq ts payload header)))"

definition build :: "builder \<Rightarrow> clock \<Rightarrow> pydict \<Rightarrow> pydict res \<times> builder" where
  "build b now frame =
     (let (seq, b1) = next_sequence b; ts = clock_ms now
      in case assemble b1 seq ts frame of
           Inl e \<Rightarrow> (Inl e, b1)
         | Inr pkt \<Rightarrow> (Inr pkt, b1\<lparr>bld_packets_built := bld_packets_built b1 + 1\<rparr>))"

text \<open>Repeated calls of \<open>build\<close>, one per clock reading and frame.\<close>

fun build_all :: "builder \<Rightarrow> (clock \<times> pydict) list \<Rightarrow> pydict res list \<times> builder" where
  "build_all b [] = ([], b)"
| "build_all b ((now, frame) # fs) =
     (let (r, b1) = build b now frame; (rs, b2) = build_all b1 fs in (r # rs, b2))"

section \<open>Properties of the builder\<close>

definition wf_builder :: "builder \<Rightarrow> bool" where
  "wf_builder b = (dict_has TEAM_IDS (bld_team b) \<and> dict_has SESSION_IDS (bld_session b) \<and> 0 \<le> bld_sequence b)"

lemma builder_init_wf: "builder_init team session node = Inr b \<Longrightarrow> wf_builder b \<and> bld_sequence b = 0"
  by (auto simp: builder_init_def wf_builder_def Let_def split: if_splits)

text \<open>One call, in closed form.\<close>

lemma build_eq:
  "build b now frame =
     (let r = assemble (b\<lparr>bld_sequence := bld_sequence b + 1\<rparr>) (bld_sequence b + 1) (clock_ms now) frame
      in (r, b\<lparr>bld_sequence := bld_sequence b + 1,
              bld_packets_built := bld_packets_built b + (if is_err r then 0 else 1)\<rparr>))"
  by (cases "assemble (b\<lparr>bld_sequence := bld_sequence b + 1\<rparr>) (bld_sequence b + 1) (clock_ms now) frame")
    (simp_all add: build_def next_sequence_def)

lemma build_frame:
  assumes "build b now frame = (r, b')"
  shows "bld_sequence b' = bld_sequence b + 1" and "bld_team b' = bld_team b"
    and "bld_session b' = bld_session b" and "bld_node_id b' = bld_node_id b"
    and "bld_packets_built b' = bld_packets_built b + (if is_err r then 0 else 1)"
  using assms by (auto simp: build_eq Let_def)

lemma build_wf: "build b now frame = (r, b') \<Longrightarrow> wf_builder b \<Longrightarrow> wf_builder b'"
  by (auto simp: wf_builder_def dest: build_frame)

text \<open>What a successful \<open>build\<close> returns.\<close>

lemma build_InrD:
  assumes "build b now frame = (Inr pkt, b')"
  obtains payload header t s where
    "build_payload frame = Inr payload"
    "map_of TEAM_IDS (bld_team b) = Some t" "map_of SESSION_IDS (bld_session b) = Some s"
    "struct_pack \<lparr>h_magic = MAGIC, h_version = PROTOCOL_VER, h_team_id = t, h_session_id = s,
       h_packet_type = PACKET_TYPE_TEL, h_sequence_no = bld_sequence b + 1,
       h_timestamp_ms = clock_ms now, h_payload_len = int (length payload),
       h_checksum = sha256 payload, h_reserved = 0\<rparr> = Inr header"
    "pkt = built_packet b (bld_sequence b + 1) (clock_ms now) payload header"
proof -
  let ?b1 = "b\<lparr>bld_sequence := bld_sequence b + 1\<rparr>"
  have "assemble ?b1 (bld_sequence b + 1) (clock_ms now) frame = Inr pkt"
    using assms by (simp add: build_eq Let_def)
  then show thesis
    by (auto simp: assemble_def build_header_def dict_int_def built_packet_def
        elim!: rbind_InrE split: option.splits intro!: that)
qed

lemma name_or_unknown_team: "map_of TEAM_IDS k = Some v \<Longrightarrow> name_or_unknown TEAM_IDS v = k"
  by (auto simp: TEAM_IDS_def name_or_unknown_def key_with_value_def split: if_splits)

lemma name_or_unknown_session: "map_of SESSION_IDS k = Some v \<Longrightarrow> name_or_unknown SESSION_IDS v = k"
  by (auto simp: SESSION_IDS_def name_or_unknown_def key_with_value_def split: if_splits)

lemma parse_header_pack:
  assumes "struct_pack h = Inr header" and "h_magic h = MAGIC" and "length (h_checksum h) = 32"
  shows "parse_header (header @ rest) = Inr
    \<lparr>hi_magic = py_hex MAGIC, hi_version = h_version h,
     hi_team = name_or_unknown TEAM_IDS (h_team_id h),
     hi_session = name_or_unknown SESSION_IDS (h_session_id h),
     hi_packet_type = h_packet_type h, hi_sequence_no = h_sequence_no h,
     hi_timestamp_ms = h_timestamp_ms h, hi_payload_len = h_payload_len h,
     hi_checksum = to_hex (h_checksum h)\<rparr>"
  using assms length_struct_pack [OF assms(1)] struct_unpack_pack [OF assms(1)]
  by (simp add: parse_header_def)

section \<open>The promises of the builder\<close>

lemma struct_pack_inject:
  assumes "struct_unpack bs = Inr h" and "length bs = HEADER_SIZE"
  shows "struct_pack h = Inr bs"
  using struct_pack_unpack [OF assms(2)] assms(1) by (metis sum.inject(2))

lemma header_bij:
  assumes "length (h_checksum h) = 32"
  shows "struct_pack h = Inr bs \<longleftrightarrow> length bs = HEADER_SIZE \<and> struct_unpack bs = Inr h"
proof
  assume p: "struct_pack h = Inr bs"
  have "h\<lparr>h_checksum := pad32 (h_checksum h)\<rparr> = h" using assms by simp
  then show "length bs = HEADER_SIZE \<and> struct_unpack bs = Inr h"
    using length_struct_pack [OF p] struct_unpack_pack [OF p] by simp
qed (auto intro: struct_pack_inject)

text \<open>The header codec is a bijection: a header (with a 32-byte checksum) packs to a given byte
  string exactly when that string has 64 bytes and unpacks to the header.\<close>

theorem header_codec:
  assumes "length (h_checksum h) = 32"
  shows "struct_pack h = Inr bs \<longleftrightarrow> length bs = HEADER_SIZE \<and> struct_unpack bs = Inr h"
  using assms by (rule header_bij)

definition sample_header :: header where
  "sample_header = \<lparr>h_magic = MAGIC, h_version = 1, h_team_id = 2, h_session_id = 3, h_packet_type = 1,
     h_sequence_no = 258, h_timestamp_ms = 65536, h_payload_len = 7, h_checksum = replicate 32 9,
     h_reserved = 0\<rparr>"

theorem header_codec_witness:
  "struct_unpack (concat (header_fields sample_header)) = Inr sample_header"
proof -
  have "header_fits sample_header" by (simp add: sample_header_def header_fits_def fits_def MAGIC_def)
  then have "struct_pack sample_header = Inr (concat (header_fields sample_header))"
    by (simp add: struct_pack_def)
  then show ?thesis by (subst (asm) header_codec) (simp_all add: sample_header_def)
qed

lemma payload_slice_append: "length header = HEADER_SIZE \<Longrightarrow> payload_slice (header @ payload) (int (length payload)) = payload"
  by (simp add: payload_slice_def)

text \<open>What \<open>build\<close> returns is what it says: the raw bytes are header and payload, the header reads
  back (\<open>parse_header\<close>) with the builder's team and session, the next sequence number, the clock
  and the payload's length and digest, the payload is the frame's JSON, and the checksum verifies.\<close>

theorem build_reads_back:
  assumes "build b now frame = (Inr pkt, b')"
  shows "\<exists>header payload. build_payload frame = Inr payload \<and>
    dict_get pkt ''raw_bytes'' = PBytes (header @ payload) \<and> dict_get pkt ''header'' = PBytes header \<and>
    dict_get pkt ''payload'' = PBytes payload \<and> dict_get pkt ''sequence_no'' = PInt (bld_sequence b + 1) \<and>
    parse_header (header @ payload) = Inr
      \<lparr>hi_magic = py_hex MAGIC, hi_version = PROTOCOL_VER, hi_team = bld_team b, hi_session = bld_session b,
       hi_packet_type = PACKET_TYPE_TEL, hi_sequence_no = bld_sequence b + 1, hi_timestamp_ms = clock_ms now,
       hi_payload_len = int (length payload), hi_checksum = to_hex (sha256 payload)\<rparr> \<and>
    verify_checksum (header @ payload) = Inr True \<and>
    parse_payload (header @ payload) = json_loads payload"
proof -
  obtain payload header t s where p: "build_payload frame = Inr payload"
    and t: "map_of TEAM_IDS (bld_team b) = Some t" and s: "map_of SESSION_IDS (bld_session b) = Some s"
    and h: "struct_pack \<lparr>h_magic = MAGIC, h_version = PROTOCOL_VER, h_team_id = t, h_session_id = s,
       h_packet_type = PACKET_TYPE_TEL, h_sequence_no = bld_sequence b + 1,
       h_timestamp_ms = clock_ms now, h_payload_len = int (length payload),
       h_checksum = sha256 payload, h_reserved = 0\<rparr> = Inr header"
    and pkt: "pkt = built_packet b (bld_sequence b + 1) (clock_ms now) payload header"
    using assms by (rule build_InrD)
  note read = parse_header_pack [OF h, of payload, simplified]
  have "dict_get pkt ''raw_bytes'' = PBytes (header @ payload) \<and> dict_get pkt ''header'' = PBytes header \<and>
    dict_get pkt ''payload'' = PBytes payload \<and> dict_get pkt ''sequence_no'' = PInt (bld_sequence b + 1)"
    by (simp add: pkt built_packet_def dict_get_def)
  then show ?thesis
    using p read name_or_unknown_team [OF t] name_or_unknown_session [OF s]
    by (simp add: verify_checksum_def parse_payload_def payload_slice_append [OF length_struct_pack [OF h]])
qed

definition sample_builder :: builder where
  "sample_builder = \<lparr>bld_team = ''mercedes'', bld_session = ''R'', bld_node_id = ''mercedes_car_44'',
     bld_sequence = 4, bld_packets_built = 4\<rparr>"

lemma sample_payload: "\<exists>p. build_payload [] = Inr p \<and> length p < 200"
  by (simp add: build_payload_def json_dumps_compact_def dict_get_or_def quote_def esc_ascii_def py_encode_def
      int_str_def nat_str.simps)

lemma sample_build:
  "\<exists>pkt. build sample_builder 1000 [] = (Inr pkt, sample_builder\<lparr>bld_sequence := 5, bld_packets_built := 5\<rparr>)"
proof -
  obtain p where p: "build_payload [] = Inr p" "length p < 200" using sample_payload by blast
  have "clock_ms 1000 = 1000000" by (rule clock_ms_int) simp_all
  with p(2) show ?thesis
    by (simp add: build_def next_sequence_def assemble_def p(1) build_header_def dict_int_def sample_builder_def
        TEAM_IDS_def SESSION_IDS_def struct_pack_def header_fits_def fits_def MAGIC_def PROTOCOL_VER_def
        PACKET_TYPE_TEL_def)
qed

theorem build_reads_back_witness:
  "\<exists>pkt raw hi. fst (build sample_builder 1000 []) = Inr pkt \<and> dict_get pkt ''raw_bytes'' = PBytes raw \<and>
     parse_header raw = Inr hi \<and> hi_team hi = ''mercedes'' \<and> hi_sequence_no hi = 5 \<and>
     verify_checksum raw = Inr True"
proof -
  obtain pkt where b: "build sample_builder 1000 [] = (Inr pkt, sample_builder\<lparr>bld_sequence := 5, bld_packets_built := 5\<rparr>)"
    using sample_build by blast
  from build_reads_back [OF b] show ?thesis using b by (fastforce simp: sample_builder_def)
qed

lemma build_all_cons: "build_all b ((now, frame) # fs) =
  (fst (build b now frame) # fst (build_all (snd (build b now frame)) fs), snd (build_all (snd (build b now frame)) fs))"
  by (simp add: split_beta)

text \<open>Sequence numbers count the calls of \<open>build\<close>: the packet of the \<open>k\<close>-th call, whatever the
  calls before it did, carries the builder's counter plus \<open>k + 1\<close>, so no number is ever reused;
  \<open>packets_built\<close> counts the calls that returned.\<close>

theorem build_all_sequence:
  "length (fst (build_all b fs)) = length fs \<and>
   (\<forall>k<length fs. \<forall>pkt. fst (build_all b fs) ! k = Inr pkt \<longrightarrow>
      dict_get pkt ''sequence_no'' = PInt (bld_sequence b + int k + 1)) \<and>
   bld_sequence (snd (build_all b fs)) = bld_sequence b + int (length fs) \<and>
   bld_packets_built (snd (build_all b fs)) =
     bld_packets_built b + int (length (filter (\<lambda>r. \<not> is_err r) (fst (build_all b fs))))"
proof (induction fs arbitrary: b)
  case (Cons f fs)
  obtain now frame where f: "f = (now, frame)" by fastforce
  obtain r b1 where b1: "build b now frame = (r, b1)" by fastforce
  have first: "dict_get pkt ''sequence_no'' = PInt (bld_sequence b + 1)" if "r = Inr pkt" for pkt
  proof -
    from b1 that have "build b now frame = (Inr pkt, b1)" by simp
    then show ?thesis by (rule build_InrD) (simp add: built_packet_def dict_get_def)
  qed
  note eqs = build_frame [OF b1]
  show ?case unfolding f build_all_cons using Cons.IH [of b1] first eqs
    by (auto simp: b1 nth_Cons split: nat.splits)
qed simp

theorem build_all_sequence_witness:
  "\<exists>pkt. fst (build_all sample_builder [(1000, [(''Speed'', PBytes [])]), (1000, [])]) ! 0 = Inl TypeErr \<and>
     bld_sequence (snd (build_all sample_builder [(1000, [(''Speed'', PBytes [])]), (1000, [])])) = 6 \<and>
     fst (build_all sample_builder [(1000, [])]) ! 0 = Inr pkt \<and> dict_get pkt ''sequence_no'' = PInt 5"
proof -
  have fails: "fst (build sample_builder 1000 [(''Speed'', PBytes [])]) = Inl TypeErr"
    by (simp add: build_def next_sequence_def assemble_def build_payload_def json_dumps_compact_def dict_get_or_def
        quote_def esc_ascii_def int_str_def nat_str.simps)
  obtain pkt where "build sample_builder 1000 [] = (Inr pkt, sample_builder\<lparr>bld_sequence := 5, bld_packets_built := 5\<rparr>)"
    using sample_build by blast
  with build_all_sequence [of sample_builder "[(1000, [])]"]
    build_all_sequence [of sample_builder "[(1000, [(''Speed'', PBytes [])]), (1000, [])]"] fails
  show ?thesis by (simp add: build_all_cons sample_builder_def del: build_all.simps(2))
qed

text \<open>What \<open>json.dumps\<close> can raise: on bytes, and on an integer of too many digits.\<close>

lemma json_str_errors:
  "json_str si sk v = Inl e \<Longrightarrow> e \<in> {TypeErr, ValueErr}"
  "json_items si sk vs = Inl e \<Longrightarrow> e \<in> {TypeErr, ValueErr}"
  "json_pairs si sk ps = Inl e \<Longrightarrow> e \<in> {TypeErr, ValueErr}"
proof (induction si sk v and si sk vs and si sk ps arbitrary: e and e and e rule: json_str_json_items_json_pairs.induct)
  case (10 si sk x xs)
  then show ?case by (cases "json_str si sk x"; cases "json_items si sk xs") auto
next
  case (12 si sk p ps)
  then show ?case by (cases "json_str si sk (snd p)"; cases "json_pairs si sk ps") auto
qed (auto simp: rbind_def split: if_splits sum.splits)

lemma build_stays_wf:
  assumes "wf_builder b" and "build b now frame = (r, b')"
  shows "wf_builder b'" and "bld_team b' = bld_team b" and "bld_session b' = bld_session b"
    and "r = Inl e \<Longrightarrow> e \<in> {TypeErr, ValueErr, StructErr}"
proof -
  show "wf_builder b'" "bld_team b' = bld_team b" "bld_session b' = bld_session b"
    using assms by (auto simp: build_eq wf_builder_def Let_def)
  let ?b1 = "b\<lparr>bld_sequence := bld_sequence b + 1\<rparr>"
  obtain t s where ids: "map_of TEAM_IDS (bld_team b) = Some t" "map_of SESSION_IDS (bld_session b) = Some s"
    using assms(1) by (auto simp: wf_builder_def dict_has_def)
  assume "r = Inl e"
  then have "assemble ?b1 (bld_sequence b + 1) (clock_ms now) frame = Inl e"
    using assms(2) by (simp add: build_eq Let_def)
  then show "e \<in> {TypeErr, ValueErr, StructErr}"
    using json_str_errors(1)
    by (auto simp: assemble_def build_header_def dict_int_def ids struct_pack_def build_payload_def json_dumps_compact_def
        rbind_def split: sum.splits if_splits)
qed

text \<open>C34. A builder stays what its constructor checked: however it is used, its team and its session remain
  the known ones it was made with, so a call of \<open>build\<close> never fails on looking them up; the only
  exceptions it lets out are those of a frame that is no JSON and of a number that no longer fits.\<close>

theorem builder_stays_valid:
  assumes "builder_init team session node = Inr b" and "build_all b fs = (rs, b')"
  shows "wf_builder b' \<and> bld_team b' = bld_team b \<and> bld_session b' = bld_session b \<and>
    {e. Inl e \<in> set rs} \<subseteq> {TypeErr, ValueErr, StructErr}"
proof -
  have "wf_builder b" using builder_init_wf [OF assms(1)] by simp
  then show ?thesis using assms(2)
  proof (induction fs arbitrary: b rs)
    case (Cons f fs)
    obtain now frame where f: "f = (now, frame)" by fastforce
    obtain r b1 where b1: "build b now frame = (r, b1)" by fastforce
    obtain rs1 b2 where rs1: "build_all b1 fs = (rs1, b2)" by fastforce
    have eq: "rs = r # rs1" "b' = b2" using Cons.prems(2) by (auto simp: f b1 rs1)
    note w = build_stays_wf [OF Cons.prems(1) b1]
    have "e \<in> {TypeErr, ValueErr, StructErr}" if "r = Inl e" for e using w(4) [OF that] .
    with Cons.IH [OF w(1)] rs1 w(2,3) show ?case unfolding eq by (auto simp del: insert_iff)
  qed simp
qed

theorem builder_stays_valid_witness:
  "\<exists>b rs b'. builder_init ''mercedes'' ''R'' None = Inr b \<and> build_all b [(1000, []), (1000, [(''lap'', PBytes [])])] = (rs, b') \<and>
     bld_team b' = ''mercedes'' \<and> bld_session b' = ''R''"
proof -
  obtain b where b: "builder_init ''mercedes'' ''R'' None = Inr b" "bld_team b = ''mercedes''" "bld_session b = ''R''"
    by (simp add: builder_init_def lower_char_def upper_char_def TEAM_IDS_def SESSION_IDS_def dict_has_def Let_def)
  obtain rs b' where r: "build_all b [(1000, []), (1000, [(''lap'', PBytes [])])] = (rs, b')" by fastforce
  from builder_stays_valid [OF b(1) r] b
  have v: "bld_team b' = ''mercedes'' \<and> bld_session b' = ''R''" by (simp del: build_all.simps)
  show ?thesis by (rule exI, rule exI, rule exI, rule conjI [OF b(1) conjI [OF r v]])
qed

end
