(* ===== verification/Crypto.thy ===== *)
theory Crypto
  imports PyVal
begin

text \<open>
  \<open>car_producer/src/crypto_engine.py\<close>: X25519 sessions and the AEAD engine built on them. The
  primitives belong to the \<open>cryptography\<close> package and are a parameter, a record of functions; what
  the code relies on of them is stated as separate laws: X25519 exchanges agree (RFC 7748), an
  AEAD opens exactly what it sealed (RFC 8439, where sealing is a function of key, nonce, data and
  associated data), Ed25519 verifies what it signed (RFC 8032), and the sizes of keys, nonces and
  signatures. Random values (private keys, nonces) and clock readings are arguments.
\<close>

section \<open>The primitives\<close>

record pyca =
  x25519_public :: "bytes \<Rightarrow> bytes"
  x25519_exchange :: "bytes \<Rightarrow> bytes \<Rightarrow> bytes res"
  hkdf_derive :: "bytes option \<Rightarrow> bytes \<Rightarrow> bytes \<Rightarrow> bytes"
  aead_encrypt :: "bytes \<Rightarrow> bytes \<Rightarrow> bytes \<Rightarrow> bytes option \<Rightarrow> bytes res"
  aead_decrypt :: "bytes \<Rightarrow> bytes \<Rightarrow> bytes \<Rightarrow> bytes option \<Rightarrow> bytes res"
  ed_public :: "bytes \<Rightarrow> bytes"
  ed_sign :: "bytes \<Rightarrow> bytes \<Rightarrow> bytes"
  ed_verify :: "bytes \<Rightarrow> bytes \<Rightarrow> bytes \<Rightarrow> bool"

definition dh_law :: "pyca \<Rightarrow> bool" where
  "dh_law C = ((\<forall>a. length (x25519_public C a) = 32) \<and>
     (\<forall>a b. x25519_exchange C a (x25519_public C b) = x25519_exchange C b (x25519_public C a)) \<and>
     (\<forall>salt info ikm. length (hkdf_derive C salt info ikm) = 32))"

definition aead_law :: "pyca \<Rightarrow> bool" where
  "aead_law C = (\<forall>k n p c a. aead_decrypt C k n c a = Inr p \<longleftrightarrow> aead_encrypt C k n p a = Inr c)"

definition sig_law :: "pyca \<Rightarrow> bool" where
  "sig_law C = (\<forall>sk m. ed_verify C (ed_public C sk) (ed_sign C sk m) m \<and> length (ed_sign C sk m) = 64 \<and>
     length (ed_public C sk) = 32)"

text \<open>Sealing succeeds on a 32-byte key, a 12-byte nonce and data below the length limit.\<close>

definition aead_total :: "pyca \<Rightarrow> bool" where
  "aead_total C = (\<forall>k n p a. length k = 32 \<longrightarrow> length n = 12 \<longrightarrow> length p < 2 ^ 31 \<longrightarrow>
     (\<exists>c. aead_encrypt C k n p a = Inr c))"

section \<open>ECDHSession\<close>

definition NONCE_SIZE :: nat where "NONCE_SIZE = 12"
definition SESSION_KEY_LEN :: nat where "SESSION_KEY_LEN = 32"
definition HKDF_INFO_ENC :: bytes where "HKDF_INFO_ENC = py_encode ''pitcrypt-f1-encryption-v1''"

record session =
  ses_node_id :: string
  ses_private :: bytes
  ses_key :: "bytes option"
  ses_created :: clock
  ses_derived :: "clock option"

definition session_init :: "string \<Rightarrow> bytes \<Rightarrow> clock \<Rightarrow> session" where
  "session_init node priv now =
     \<lparr>ses_node_id = node, ses_private = priv, ses_key = None, ses_created = now, ses_derived = None\<rparr>"

definition session_public :: "pyca \<Rightarrow> session \<Rightarrow> bytes" where
  "session_public C s = x25519_public C (ses_private s)"

definition derive_shared_secret ::
  "pyca \<Rightarrow> session \<Rightarrow> clock \<Rightarrow> bytes \<Rightarrow> bytes option \<Rightarrow> bytes res \<times> session" where
  "derive_shared_secret C s now peer salt =
     (if length peer \<noteq> 32 then (Inl ValueErr, s)
      else case x25519_exchange C (ses_private s) peer of
        Inl e \<Rightarrow> (Inl e, s)
      | Inr shared \<Rightarrow>
          let key = hkdf_derive C salt HKDF_INFO_ENC shared
          in (Inr key, s\<lparr>ses_key := Some key, ses_derived := Some now\<rparr>))"

definition session_key :: "session \<Rightarrow> bytes res" where
  "session_key s = (case ses_key s of None \<Rightarrow> Inl RuntimeErr | Some k \<Rightarrow> Inr k)"

definition session_is_established :: "session \<Rightarrow> bool" where
  "session_is_established s = (ses_key s \<noteq> None)"

definition session_age_seconds :: "session \<Rightarrow> clock \<Rightarrow> pyfloat" where
  "session_age_seconds s now = elapsed now (ses_created s)"

section \<open>CryptoEngine\<close>

record engine =
  eng_node_id :: string
  eng_session :: "session option"
  eng_encrypted :: int
  eng_decrypted :: int
  eng_failed :: int

definition engine_init :: "string \<Rightarrow> engine" where
  "engine_init node = \<lparr>eng_node_id = node, eng_session = None, eng_encrypted = 0, eng_decrypted = 0, eng_failed = 0\<rparr>"

definition new_session :: "pyca \<Rightarrow> bytes \<Rightarrow> clock \<Rightarrow> engine \<Rightarrow> bytes \<times> engine" where
  "new_session C priv now e =
     (let s = session_init (eng_node_id e) priv now
      in (session_public C s, e\<lparr>eng_session := Some s\<rparr>))"

definition complete_handshake ::
  "pyca \<Rightarrow> clock \<Rightarrow> bytes \<Rightarrow> bytes option \<Rightarrow> engine \<Rightarrow> unit res \<times> engine" where
  "complete_handshake C now peer salt e =
     (case eng_session e of
        None \<Rightarrow> (Inl RuntimeErr, e)
      | Some s \<Rightarrow> (case derive_shared_secret C s now peer salt of
            (Inl x, s') \<Rightarrow> (Inl x, e\<lparr>eng_session := Some s'\<rparr>)
          | (Inr _, s') \<Rightarrow> (Inr (), e\<lparr>eng_session := Some s'\<rparr>)))"

text \<open>The old session, and with it the derived key, is dropped; the new one has no key yet.\<close>

definition rotate_session :: "pyca \<Rightarrow> bytes \<Rightarrow> clock \<Rightarrow> engine \<Rightarrow> bytes \<times> engine" where
  "rotate_session C priv now e = new_session C priv now e"

definition session_established :: "engine \<Rightarrow> bool" where
  "session_established e =
     (case eng_session e of None \<Rightarrow> False | Some s \<Rightarrow> session_is_established s)"

definition session_age :: "engine \<Rightarrow> clock \<Rightarrow> pyfloat" where
  "session_age e now =
     (case eng_session e of Some s \<Rightarrow> session_age_seconds s now | None \<Rightarrow> FFin 0)"

definition public_key_bytes :: "pyca \<Rightarrow> engine \<Rightarrow> bytes res" where
  "public_key_bytes C e =
     (case eng_session e of None \<Rightarrow> Inl RuntimeErr | Some s \<Rightarrow> Inr (session_public C s))"

text \<open>The key the engine seals and opens with, when it has one.\<close>

definition engine_key :: "engine \<Rightarrow> bytes option" where
  "engine_key e = (case eng_session e of None \<Rightarrow> None | Some s \<Rightarrow> ses_key s)"

definition engine_session_key :: "engine \<Rightarrow> bytes res" where
  "engine_session_key e =
     (case eng_session e of Some s \<Rightarrow> session_key s | None \<Rightarrow> Inl AttributeErr)"

definition encrypt ::
  "pyca \<Rightarrow> bytes \<Rightarrow> bytes \<Rightarrow> bytes option \<Rightarrow> engine \<Rightarrow> (bytes \<times> bytes) res \<times> engine" where
  "encrypt C nonce plaintext aad e =
     (if \<not> session_established e then (Inl RuntimeErr, e)
      else case rbind (engine_session_key e) (\<lambda>k. aead_encrypt C k nonce plaintext aad) of
        Inl x \<Rightarrow> (Inl x, e)
      | Inr c \<Rightarrow> (Inr (nonce, c), e\<lparr>eng_encrypted := eng_encrypted e + 1\<rparr>))"

definition decrypt ::
  "pyca \<Rightarrow> bytes \<Rightarrow> bytes \<Rightarrow> bytes option \<Rightarrow> engine \<Rightarrow> bytes res \<times> engine" where
  "decrypt C nonce ciphertext aad e =
     (if \<not> session_established e then (Inl RuntimeErr, e)
      else case rbind (engine_session_key e) (\<lambda>k. aead_decrypt C k nonce ciphertext aad) of
        Inl x \<Rightarrow> (Inl x, if x = InvalidTag then e\<lparr>eng_failed := eng_failed e + 1\<rparr> else e)
      | Inr p \<Rightarrow> (Inr p, e\<lparr>eng_decrypted := eng_decrypted e + 1\<rparr>))"

section \<open>Properties\<close>

lemma session_established_key: "session_established e \<longleftrightarrow> engine_key e \<noteq> None"
  by (auto simp: session_established_def engine_key_def session_is_established_def split: option.splits)

lemma engine_key_session_key: "engine_key e = Some k \<Longrightarrow> engine_session_key e = Inr k"
  by (auto simp: engine_key_def engine_session_key_def session_key_def split: option.splits)

lemma new_session_simps [simp]:
  "fst (new_session C priv now e) = x25519_public C priv"
  "engine_key (snd (new_session C priv now e)) = None"
  "eng_node_id (snd (new_session C priv now e)) = eng_node_id e"
  by (simp_all add: new_session_def session_init_def session_public_def engine_key_def)

lemma rotate_session_unestablished: "\<not> session_established (snd (rotate_session C priv now e))"
  by (simp add: rotate_session_def session_established_key)

lemma complete_handshake_new:
  assumes "length peer = 32"
  shows "complete_handshake C now' peer salt (snd (new_session C priv now e)) =
    (case x25519_exchange C priv peer of
       Inl x \<Rightarrow> (Inl x, snd (new_session C priv now e))
     | Inr sh \<Rightarrow> (Inr (), e\<lparr>eng_session := Some \<lparr>ses_node_id = eng_node_id e, ses_private = priv,
           ses_key = Some (hkdf_derive C salt HKDF_INFO_ENC sh), ses_created = now,
           ses_derived = Some now'\<rparr>\<rparr>))"
  using assms
  by (simp add: complete_handshake_def new_session_def derive_shared_secret_def session_init_def
      Let_def split: sum.split)

lemma encrypt_eq:
  "encrypt C nonce p aad e = (case engine_key e of None \<Rightarrow> (Inl RuntimeErr, e)
     | Some k \<Rightarrow> (case aead_encrypt C k nonce p aad of Inl x \<Rightarrow> (Inl x, e)
         | Inr c \<Rightarrow> (Inr (nonce, c), e\<lparr>eng_encrypted := eng_encrypted e + 1\<rparr>)))"
  by (auto simp: encrypt_def session_established_key engine_key_session_key split: option.split)

lemma decrypt_eq:
  "decrypt C nonce c aad e = (case engine_key e of None \<Rightarrow> (Inl RuntimeErr, e)
     | Some k \<Rightarrow> (case aead_decrypt C k nonce c aad of
           Inl x \<Rightarrow> (Inl x, if x = InvalidTag then e\<lparr>eng_failed := eng_failed e + 1\<rparr> else e)
         | Inr p \<Rightarrow> (Inr p, e\<lparr>eng_decrypted := eng_decrypted e + 1\<rparr>)))"
  by (auto simp: decrypt_def session_established_key engine_key_session_key
      split: option.split sum.split)

lemma engine_key_upd [simp]:
  "engine_key (e\<lparr>eng_encrypted := a\<rparr>) = engine_key e"
  "engine_key (e\<lparr>eng_decrypted := a\<rparr>) = engine_key e"
  "engine_key (e\<lparr>eng_failed := a\<rparr>) = engine_key e"
  by (simp_all add: engine_key_def)

lemma encrypt_key [simp]: "engine_key (snd (encrypt C nonce p aad e)) = engine_key e"
  by (simp add: encrypt_eq split: option.split sum.split)

lemma decrypt_key [simp]: "engine_key (snd (decrypt C nonce c aad e)) = engine_key e"
  by (simp add: decrypt_eq split: option.split sum.split)

lemma encrypt_InrD:
  assumes "encrypt C nonce p aad e = (Inr (n, c), e')"
  obtains k where "engine_key e = Some k" and "aead_encrypt C k nonce p aad = Inr c" and "n = nonce"
    and "e' = e\<lparr>eng_encrypted := eng_encrypted e + 1\<rparr>"
  using assms by (auto simp: encrypt_eq split: option.splits sum.splits)

lemma decrypt_Inr_iff:
  "fst (decrypt C n c aad e) = Inr p \<longleftrightarrow> (\<exists>k. engine_key e = Some k \<and> aead_decrypt C k n c aad = Inr p)"
  by (auto simp: decrypt_eq split: option.splits sum.splits)

lemma aead_lawD: "aead_law C \<Longrightarrow> aead_decrypt C k n c a = Inr p \<longleftrightarrow> aead_encrypt C k n p a = Inr c"
  by (simp add: aead_law_def)

section \<open>A concrete instance of the primitives\<close>

text \<open>
  Functions that satisfy the laws, so that statements under them can be evaluated: the shared secret
  is the sum of the two keys, and tags and signatures are checksums.
\<close>

definition fit :: "nat \<Rightarrow> bytes \<Rightarrow> bytes" where
  "fit n b = take n b @ replicate (n - length b) 0"

definition checksum :: "bytes \<Rightarrow> byte" where
  "checksum b = fold (\<lambda>x y. 3 * y + x + 1) b 7"

definition demo_tag :: "bytes \<Rightarrow> bytes \<Rightarrow> bytes \<Rightarrow> bytes option \<Rightarrow> bytes" where
  "demo_tag k n p a = fit 16 [checksum k, checksum n, checksum p, case a of None \<Rightarrow> 0 | Some x \<Rightarrow> checksum x]"

definition demo_pyca :: pyca where
  "demo_pyca =
     \<lparr>x25519_public = fit 32,
      x25519_exchange = (\<lambda>a b. Inr (map2 (+) (fit 32 a) (fit 32 b))),
      hkdf_derive = (\<lambda>salt info ikm. fit 32 ikm),
      aead_encrypt = (\<lambda>k n p a. Inr (demo_tag k n p a @ p)),
      aead_decrypt = (\<lambda>k n c a. if take 16 c = demo_tag k n (drop 16 c) a then Inr (drop 16 c) else Inl InvalidTag),
      ed_public = fit 32,
      ed_sign = (\<lambda>sk m. fit 64 [checksum (fit 32 sk), checksum m]),
      ed_verify = (\<lambda>pk s m. s = fit 64 [checksum pk, checksum m])\<rparr>"

lemma length_fit [simp]: "length (fit n b) = n"
  by (simp add: fit_def)

lemma fit_id [simp]: "length b = n \<Longrightarrow> fit n b = b"
  by (simp add: fit_def)

lemma map2_add_commute: "map2 (+) xs ys = map2 (+) ys (xs :: byte list)"
  by (induction xs ys rule: list_induct2') (auto simp: add.commute)

lemma demo_dh_law: "dh_law demo_pyca"
  by (simp add: dh_law_def demo_pyca_def map2_add_commute)

lemma demo_aead_law: "aead_law demo_pyca"
proof -
  have "length (demo_tag k n p a) = 16" for k n p a by (simp add: demo_tag_def)
  then show ?thesis
    by (auto simp: aead_law_def demo_pyca_def) (metis append_take_drop_id)
qed

lemma demo_aead_total: "aead_total demo_pyca"
  by (simp add: aead_total_def demo_pyca_def)

lemma demo_sig_law: "sig_law demo_pyca"
  by (simp add: sig_law_def demo_pyca_def)

section \<open>The promises of the engine\<close>

text \<open>Key agreement: two engines that each open a session and complete the handshake with the other's
  public key (and the same salt) hold the same 32-byte session key; whatever one then encrypts, the
  other decrypts to the same plaintext, and it decrypts nothing else under that nonce and
  associated data.\<close>

theorem handshake_agreement:
  assumes "dh_law C" and "aead_law C"
    and "new_session C a ta eA = (pa, A)" and "new_session C b tb eB = (pb, B)"
    and "x25519_exchange C a pb = Inr sh"
  shows "\<exists>A' B' k. complete_handshake C ta' pb salt A = (Inr (), A') \<and>
    complete_handshake C tb' pa salt B = (Inr (), B') \<and>
    engine_key A' = Some k \<and> engine_key B' = Some k \<and> length k = 32 \<and>
    session_established A' \<and> session_established B' \<and>
    (\<forall>n p aad c. fst (decrypt C n c aad B') = Inr p \<longleftrightarrow> fst (encrypt C n p aad A') = Inr (n, c))"
proof -
  have p: "pa = x25519_public C a" "pb = x25519_public C b"
    and A: "A = snd (new_session C a ta eA)" and B: "B = snd (new_session C b tb eB)"
    using assms(3,4) new_session_simps(1) [of C a ta eA] new_session_simps(1) [of C b tb eB] by simp_all
  have len: "length pa = 32" "length pb = 32" and sh: "x25519_exchange C b pa = Inr sh"
    using assms(1,5) by (simp_all add: p dh_law_def)
  let ?k = "hkdf_derive C salt HKDF_INFO_ENC sh"
  obtain A' where A': "complete_handshake C ta' pb salt A = (Inr (), A')" "engine_key A' = Some ?k"
    using complete_handshake_new [OF len(2), of C ta' salt a ta eA] assms(5) by (simp add: A engine_key_def)
  obtain B' where B': "complete_handshake C tb' pa salt B = (Inr (), B')" "engine_key B' = Some ?k"
    using complete_handshake_new [OF len(1), of C tb' salt b tb eB] sh by (simp add: B engine_key_def)
  have enc: "fst (encrypt C n p aad A') = Inr (n, c) \<longleftrightarrow> aead_encrypt C ?k n p aad = Inr c" for n p aad c
    using A'(2) by (auto simp: encrypt_eq split: sum.splits)
  have "fst (decrypt C n c aad B') = Inr p \<longleftrightarrow> fst (encrypt C n p aad A') = Inr (n, c)" for n p aad c
    unfolding enc decrypt_Inr_iff using B'(2) assms(2) by (simp add: aead_lawD)
  moreover have "length ?k = 32" using assms(1) by (simp add: dh_law_def)
  ultimately show ?thesis using A' B' by (auto simp: session_established_key)
qed

theorem handshake_agreement_witness:
  "\<exists>A' B' c. fst (encrypt demo_pyca (replicate 12 1) [42] None A') = Inr (replicate 12 1, c) \<and>
     fst (decrypt demo_pyca (replicate 12 1) c None B') = Inr [42] \<and> engine_key A' = engine_key B'"
proof -
  have x: "x25519_exchange demo_pyca [1] (x25519_public demo_pyca [2]) = Inr (map2 (+) (fit 32 [1]) (fit 32 [2]))"
    by (simp add: demo_pyca_def)
  have nA: "new_session demo_pyca [1] 0 (engine_init ''a'') = (x25519_public demo_pyca [1], snd (new_session demo_pyca [1] 0 (engine_init ''a'')))"
    and nB: "new_session demo_pyca [2] 0 (engine_init ''b'') = (x25519_public demo_pyca [2], snd (new_session demo_pyca [2] 0 (engine_init ''b'')))"
    by (simp_all add: prod_eq_iff)
  obtain A' B' k where k: "engine_key A' = Some k" "engine_key B' = Some k"
    and rt: "\<forall>n p aad c. fst (decrypt demo_pyca n c aad B') = Inr p \<longleftrightarrow> fst (encrypt demo_pyca n p aad A') = Inr (n, c)"
    using handshake_agreement [OF demo_dh_law demo_aead_law nA nB x, of 1 None 1] by blast
  have "fst (encrypt demo_pyca (replicate 12 1) [42] None A') = Inr (replicate 12 1, demo_tag k (replicate 12 1) [42] None @ [42])"
    using k(1) by (simp add: encrypt_eq demo_pyca_def)
  with rt k show ?thesis by metis
qed

end
