(* ===== verification/Encryptor.thy ===== *)
theory Encryptor
  imports Crypto Json
begin

text \<open>
  \<open>car_producer/src/encryptor.py\<close>: the packet-level encryption of the car. The engine is an object
  the encryptor shares with the key scheduler, so it is passed in and returned beside the
  encryptor's own counters. The lemmas give the packet it produces and show that decrypting it
  with the same key returns the payload that was encrypted.
\<close>

section \<open>State\<close>

record encryptor =
  enc_node_id :: string
  enc_encrypted :: int
  enc_decrypted :: int
  enc_failed :: int

definition encryptor_init :: "string \<Rightarrow> encryptor" where
  "encryptor_init node = \<lparr>enc_node_id = node, enc_encrypted = 0, enc_decrypted = 0, enc_failed = 0\<rparr>"

section \<open>Operations\<close>

text \<open>Associated data: bytes or \<open>None\<close>, anything else is refused by the primitive.\<close>

definition aad_of :: "pyval \<Rightarrow> bytes option res" where
  "aad_of v = (case v of PNone \<Rightarrow> Inr None | PBytes b \<Rightarrow> Inr (Some b) | _ \<Rightarrow> Inl TypeErr)"

text \<open>The engine called on Python objects: the primitive checks the types before anything is counted.\<close>

definition encrypt_values :: "pyca \<Rightarrow> bytes \<Rightarrow> pyval \<Rightarrow> pyval \<Rightarrow> engine \<Rightarrow> (bytes \<times> bytes) res \<times> engine" where
  "encrypt_values C nonce payload header e =
     (case rbind (as_bytes payload) (\<lambda>p. rbind (aad_of header) (\<lambda>a. Inr (p, a))) of
        Inl x \<Rightarrow> (Inl (if session_established e then x else RuntimeErr), e)
      | Inr (p, a) \<Rightarrow> encrypt C nonce p a e)"

definition decrypt_values :: "pyca \<Rightarrow> pyval \<Rightarrow> pyval \<Rightarrow> pyval \<Rightarrow> engine \<Rightarrow> bytes res \<times> engine" where
  "decrypt_values C nonce ciphertext header e =
     (case rbind (as_bytes nonce) (\<lambda>n. rbind (as_bytes ciphertext) (\<lambda>c. rbind (aad_of header) (\<lambda>a. Inr (n, c, a)))) of
        Inl x \<Rightarrow> (Inl (if session_established e then x else RuntimeErr), e)
      | Inr (n, c, a) \<Rightarrow> decrypt C n c a e)"

text \<open>The dict \<open>encrypt_packet\<close> returns, with its fifteen keys in the source's order.\<close>

definition encrypted_fields :: "encryptor \<Rightarrow> string \<Rightarrow> pydict \<Rightarrow> bytes \<Rightarrow> bytes \<Rightarrow> bytes \<Rightarrow> bytes \<Rightarrow> pydict" where
  "encrypted_fields x stamp pkt nonce ciphertext header payload =
     [(''nonce'', PStr (to_hex nonce)), (''nonce_bytes'', PBytes nonce),
      (''ciphertext'', PStr (to_hex ciphertext)), (''ciphertext_bytes'', PBytes ciphertext),
      (''header'', PBytes header), (''header_hex'', PStr (to_hex header)),
      (''signature'', dict_get_or pkt ''signature'' (PStr [])),
      (''signature_bytes'', dict_get_or pkt ''signature_bytes'' (PBytes [])),
      (''sequence_no'', dict_get_or pkt ''sequence_no'' (PInt 0)),
      (''timestamp'', dict_get_or pkt ''timestamp'' (PInt 0)),
      (''team'', dict_get_or pkt ''team'' (PStr [])),
      (''session'', dict_get_or pkt ''session'' (PStr [])),
      (''node_id'', dict_get_or pkt ''signer_node_id'' (PStr (enc_node_id x))),
      (''encrypted_at'', PStr stamp),
      (''size_original'', PInt (int (length payload))),
      (''size_encrypted'', PInt (int (length ciphertext)))]"

definition encrypt_packet ::
  "pyca \<Rightarrow> bytes \<Rightarrow> string \<Rightarrow> pydict \<Rightarrow> engine \<Rightarrow> encryptor \<Rightarrow> pydict res \<times> engine \<times> encryptor" where
  "encrypt_packet C nonce stamp pkt e x =
     (if \<not> session_established e then (Inl RuntimeErr, e, x)
      else if \<not> dict_has pkt ''header'' then (Inl ValueErr, e, x)
      else if \<not> dict_has pkt ''payload'' then (Inl ValueErr, e, x)
      else case encrypt_values C nonce (dict_get pkt ''payload'') (dict_get pkt ''header'') e of
        (Inl err, e') \<Rightarrow> (Inl err, e', x)
      | (Inr (n, c), e') \<Rightarrow>
          let x' = x\<lparr>enc_encrypted := enc_encrypted x + 1\<rparr>
          in case (dict_get pkt ''header'', dict_get pkt ''payload'') of
               (PBytes h, PBytes p) \<Rightarrow> (Inr (encrypted_fields x' stamp pkt n c h p), e', x')
             | _ \<Rightarrow> (Inl AttributeErr, e', x'))"

text \<open>\<open>d.get(k)\<close>, or the bytes of the hexadecimal \<open>d[k_hex]\<close> when it is \<open>None\<close>.\<close>

definition bytes_or_hex :: "pydict \<Rightarrow> string \<Rightarrow> string \<Rightarrow> pyval res" where
  "bytes_or_hex pkt k khex =
     (if dict_get pkt k = PNone
      then rbind (dict_item pkt khex) (\<lambda>v. rbind (py_fromhex v) (\<lambda>b. Inr (PBytes b)))
      else Inr (dict_get pkt k))"

definition decrypted_fields :: "pydict \<Rightarrow> bytes \<Rightarrow> pyval \<Rightarrow> pydict" where
  "decrypted_fields pkt plaintext js =
     dict_set ''payload_json'' js (dict_set ''payload_bytes'' (PBytes plaintext) pkt)"

definition decrypt_packet ::
  "pyca \<Rightarrow> pydict \<Rightarrow> engine \<Rightarrow> encryptor \<Rightarrow> pydict res \<times> engine \<times> encryptor" where
  "decrypt_packet C pkt e x =
     (if \<not> session_established e then (Inl RuntimeErr, e, x)
      else case rbind (bytes_or_hex pkt ''nonce_bytes'' ''nonce'') (\<lambda>n.
                rbind (bytes_or_hex pkt ''ciphertext_bytes'' ''ciphertext'') (\<lambda>c. Inr (n, c))) of
        Inl err \<Rightarrow> (Inl err, e, x)
      | Inr (n, c) \<Rightarrow> (case decrypt_values C n c (dict_get pkt ''header'') e of
            (Inl err, e') \<Rightarrow>
              (Inl err, e', if err = InvalidTag then x\<lparr>enc_failed := enc_failed x + 1\<rparr> else x)
          | (Inr p, e') \<Rightarrow>
              (rbind (json_loads p) (\<lambda>js. Inr (decrypted_fields pkt p js)), e',
               x\<lparr>enc_decrypted := enc_decrypted x + 1\<rparr>)))"

section \<open>Properties\<close>

lemma encrypt_values_bytes [simp]:
  "encrypt_values C nonce (PBytes p) (PBytes h) e = encrypt C nonce p (Some h) e"
  by (simp add: encrypt_values_def as_bytes_def aad_of_def)

lemma decrypt_values_bytes [simp]:
  "decrypt_values C (PBytes n) (PBytes c) (PBytes h) e = decrypt C n c (Some h) e"
  by (simp add: decrypt_values_def as_bytes_def aad_of_def)

lemma dict_item_get: "dict_has d k \<Longrightarrow> dict_item d k = Inr (dict_get d k)"
  by (auto simp: dict_has_def dict_item_def dict_get_def)

lemma encrypt_values_InrD:
  assumes "encrypt_values C nonce payload header e = (Inr (n, c), e')"
  obtains p a k where "payload = PBytes p" and "aad_of header = Inr a" and "engine_key e = Some k"
    and "aead_encrypt C k nonce p a = Inr c" and "n = nonce"
    and "e' = e\<lparr>eng_encrypted := eng_encrypted e + 1\<rparr>"
  using assms
  by (auto simp: encrypt_values_def as_bytes_def rbind_def split: pyval.splits sum.splits
      elim!: encrypt_InrD)

lemma encrypt_packet_InrD:
  assumes "encrypt_packet C nonce stamp pkt e x = (Inr d, e', x')"
  obtains h p k c where "dict_get pkt ''header'' = PBytes h" and "dict_get pkt ''payload'' = PBytes p"
    and "engine_key e = Some k" and "aead_encrypt C k nonce p (Some h) = Inr c"
    and "d = encrypted_fields x' stamp pkt nonce c h p"
    and "e' = e\<lparr>eng_encrypted := eng_encrypted e + 1\<rparr>"
    and "x' = x\<lparr>enc_encrypted := enc_encrypted x + 1\<rparr>"
proof -
  obtain n c where ev: "encrypt_values C nonce (dict_get pkt ''payload'') (dict_get pkt ''header'') e = (Inr (n, c), e')"
    and rest: "(case (dict_get pkt ''header'', dict_get pkt ''payload'') of
               (PBytes h, PBytes p) \<Rightarrow> (Inr (encrypted_fields (x\<lparr>enc_encrypted := enc_encrypted x + 1\<rparr>) stamp pkt n c h p),
                   e', x\<lparr>enc_encrypted := enc_encrypted x + 1\<rparr>)
             | _ \<Rightarrow> (Inl AttributeErr, e', x\<lparr>enc_encrypted := enc_encrypted x + 1\<rparr>)) = (Inr d, e', x')"
    using assms by (auto simp: encrypt_packet_def Let_def split: if_splits prod.splits sum.splits pyval.splits)
  obtain p a k where "dict_get pkt ''payload'' = PBytes p" "aad_of (dict_get pkt ''header'') = Inr a"
    "engine_key e = Some k" "aead_encrypt C k nonce p a = Inr c" "n = nonce"
    "e' = e\<lparr>eng_encrypted := eng_encrypted e + 1\<rparr>"
    using ev by (rule encrypt_values_InrD)
  with rest show thesis
    by (auto simp: aad_of_def split: pyval.splits intro: that)
qed

text \<open>\<open>encrypt_packet\<close> returns as soon as the session has a key and the packet carries bytes to seal.\<close>

lemma encrypt_packet_ok:
  assumes "engine_key e = Some k" and "aead_encrypt C k nonce p (Some h) = Inr c"
    and "map_of pkt ''header'' = Some (PBytes h)" and "map_of pkt ''payload'' = Some (PBytes p)"
  shows "encrypt_packet C nonce stamp pkt e x =
    (Inr (encrypted_fields x stamp pkt nonce c h p), e\<lparr>eng_encrypted := eng_encrypted e + 1\<rparr>,
     x\<lparr>enc_encrypted := enc_encrypted x + 1\<rparr>)"
  using assms
  by (simp add: encrypt_packet_def session_established_key dict_has_def dict_get_def encrypt_eq
      encrypted_fields_def)

lemma encrypt_packet_no_session:
  "\<not> session_established e \<Longrightarrow> encrypt_packet C nonce stamp pkt e x = (Inl RuntimeErr, e, x)"
  by (simp add: encrypt_packet_def)

lemma encrypted_fields_get:
  "dict_get (encrypted_fields x stamp pkt n c h p) ''nonce_bytes'' = PBytes n"
  "dict_get (encrypted_fields x stamp pkt n c h p) ''ciphertext_bytes'' = PBytes c"
  "dict_get (encrypted_fields x stamp pkt n c h p) ''header'' = PBytes h"
  "dict_get (encrypted_fields x stamp pkt n c h p) ''nonce'' = PStr (to_hex n)"
  "dict_get (encrypted_fields x stamp pkt n c h p) ''ciphertext'' = PStr (to_hex c)"
  "dict_get (encrypted_fields x stamp pkt n c h p) ''header_hex'' = PStr (to_hex h)"
  "dict_get (encrypted_fields x stamp pkt n c h p) ''signature'' = dict_get_or pkt ''signature'' (PStr [])"
  "dict_get (encrypted_fields x stamp pkt n c h p) ''signature_bytes'' = dict_get_or pkt ''signature_bytes'' (PBytes [])"
  "dict_get (encrypted_fields x stamp pkt n c h p) ''sequence_no'' = dict_get_or pkt ''sequence_no'' (PInt 0)"
  "dict_get (encrypted_fields x stamp pkt n c h p) ''timestamp'' = dict_get_or pkt ''timestamp'' (PInt 0)"
  "dict_get (encrypted_fields x stamp pkt n c h p) ''team'' = dict_get_or pkt ''team'' (PStr [])"
  "dict_get (encrypted_fields x stamp pkt n c h p) ''session'' = dict_get_or pkt ''session'' (PStr [])"
  "dict_get (encrypted_fields x stamp pkt n c h p) ''node_id'' = dict_get_or pkt ''signer_node_id'' (PStr (enc_node_id x))"
  by (simp_all add: encrypted_fields_def dict_get_def)

text \<open>What the receiver's engine recovers: with the sender's key, exactly the sealed payload.\<close>

lemma decrypt_packet_sealed:
  assumes "aead_law C" and "aead_encrypt C k n p (Some h) = Inr c" and "engine_key e = Some k"
    and "dict_get pkt ''nonce_bytes'' = PBytes n" and "dict_get pkt ''ciphertext_bytes'' = PBytes c"
    and "dict_get pkt ''header'' = PBytes h"
  shows "decrypt_packet C pkt e x =
    (rbind (json_loads p) (\<lambda>js. Inr (decrypted_fields pkt p js)),
     e\<lparr>eng_decrypted := eng_decrypted e + 1\<rparr>, x\<lparr>enc_decrypted := enc_decrypted x + 1\<rparr>)"
proof -
  have "aead_decrypt C k n c (Some h) = Inr p" using assms(1,2) by (simp add: aead_lawD)
  with assms(3-) show ?thesis
    by (simp add: decrypt_packet_def session_established_key bytes_or_hex_def decrypt_eq)
qed

section \<open>The promise of the encryptor\<close>

lemma decrypt_values_fst:
  "engine_key e = Some k \<Longrightarrow> fst (decrypt_values C (PBytes n) (PBytes c) (PBytes h) e) = aead_decrypt C k n c (Some h)"
  by (simp add: decrypt_eq split: sum.split)

text \<open>Decryption hands the primitive whatever header the packet carries.\<close>

lemma decrypt_packet_header:
  assumes "engine_key e = Some k" and "dict_get pkt ''nonce_bytes'' = PBytes n"
    and "dict_get pkt ''ciphertext_bytes'' = PBytes c" and "dict_get pkt ''header'' = PBytes h"
  shows "fst (decrypt_packet C pkt e x) =
    rbind (aead_decrypt C k n c (Some h)) (\<lambda>p. rbind (json_loads p) (\<lambda>js. Inr (decrypted_fields pkt p js)))"
  using decrypt_values_fst [OF assms(1), of C n c h] assms
  by (auto simp: decrypt_packet_def session_established_key bytes_or_hex_def rbind_def split: prod.split sum.split)

text \<open>C30. Packet encryption round trip: a packet the encryptor returns, decrypted by an encryptor whose
  engine holds the same key, yields the payload that went in, as bytes and as the JSON it encodes,
  and both sides count the packet. The header travels in clear and is bound as associated data: the
  ciphertext is the payload sealed with it under the session key, and a packet whose header was
  replaced opens exactly when the primitive opens that ciphertext with the replacement as associated data.\<close>

theorem encrypt_packet_roundtrip:
  assumes "aead_law C" and "encrypt_packet C nonce stamp pkt e x = (Inr d, e', x')"
    and "engine_key er = engine_key e"
  shows "\<exists>h p k c. dict_get pkt ''header'' = PBytes h \<and> dict_get pkt ''payload'' = PBytes p \<and>
    engine_key e = Some k \<and> aead_encrypt C k nonce p (Some h) = Inr c \<and>
    dict_get d ''header'' = PBytes h \<and> dict_get d ''payload'' = PNone \<and>
    dict_get d ''nonce_bytes'' = PBytes nonce \<and> dict_get d ''ciphertext_bytes'' = PBytes c \<and>
    decrypt_packet C d er xr =
      (rbind (json_loads p) (\<lambda>js. Inr (decrypted_fields d p js)),
       er\<lparr>eng_decrypted := eng_decrypted er + 1\<rparr>, xr\<lparr>enc_decrypted := enc_decrypted xr + 1\<rparr>) \<and>
    (\<forall>js. dict_get (decrypted_fields d p js) ''payload_bytes'' = PBytes p) \<and>
    (\<forall>h'. fst (decrypt_packet C (dict_set ''header'' (PBytes h') d) er xr) =
       rbind (aead_decrypt C k nonce c (Some h')) (\<lambda>q. rbind (json_loads q) (\<lambda>js.
         Inr (decrypted_fields (dict_set ''header'' (PBytes h') d) q js)))) \<and>
    enc_encrypted x' = enc_encrypted x + 1"
proof -
  obtain h p k c where hp: "dict_get pkt ''header'' = PBytes h" "dict_get pkt ''payload'' = PBytes p"
    and k: "engine_key e = Some k" "aead_encrypt C k nonce p (Some h) = Inr c"
    and d: "d = encrypted_fields x' stamp pkt nonce c h p" and x': "x' = x\<lparr>enc_encrypted := enc_encrypted x + 1\<rparr>"
    using assms(2) by (rule encrypt_packet_InrD)
  have k': "engine_key er = Some k" using assms(3) k(1) by simp
  have dg: "dict_get d ''header'' = PBytes h" "dict_get d ''payload'' = PNone"
    "dict_get d ''nonce_bytes'' = PBytes nonce" "dict_get d ''ciphertext_bytes'' = PBytes c"
    by (simp_all add: d encrypted_fields_get) (simp add: encrypted_fields_def dict_get_def)
  have "decrypt_packet C d er xr =
      (rbind (json_loads p) (\<lambda>js. Inr (decrypted_fields d p js)),
       er\<lparr>eng_decrypted := eng_decrypted er + 1\<rparr>, xr\<lparr>enc_decrypted := enc_decrypted xr + 1\<rparr>)"
    by (rule decrypt_packet_sealed [OF assms(1) k(2) k' dg(3,4,1)])
  moreover have "fst (decrypt_packet C (dict_set ''header'' (PBytes h') d) er xr) =
       rbind (aead_decrypt C k nonce c (Some h')) (\<lambda>q. rbind (json_loads q) (\<lambda>js.
         Inr (decrypted_fields (dict_set ''header'' (PBytes h') d) q js)))" for h'
    by (rule decrypt_packet_header [OF k']) (simp_all add: dg)
  ultimately show ?thesis
    using hp k dg x' by (intro exI [of _ h] exI [of _ p] exI [of _ k] exI [of _ c]) (simp add: decrypted_fields_def)
qed

definition sample_engine :: engine where
  "sample_engine = \<lparr>eng_node_id = ''car_44'', eng_session = Some \<lparr>ses_node_id = ''car_44'', ses_private = [1],
     ses_key = Some (replicate 32 7), ses_created = 0, ses_derived = Some 0\<rparr>,
     eng_encrypted = 0, eng_decrypted = 0, eng_failed = 0\<rparr>"

lemma sample_engine_key: "engine_key sample_engine = Some (replicate 32 7)"
  by (simp add: sample_engine_def engine_key_def)

theorem encrypt_packet_roundtrip_witness:
  "\<exists>d e' x'. encrypt_packet demo_pyca (replicate 12 1) [] [(''header'', PBytes [9]), (''payload'', PBytes [123, 125])]
       sample_engine (encryptor_init ''car_44'') = (Inr d, e', x') \<and>
     fst (decrypt_packet demo_pyca d sample_engine (encryptor_init ''relay'')) =
       rbind (json_loads [123, 125]) (\<lambda>js. Inr (decrypted_fields d [123, 125] js)) \<and>
     fst (decrypt_packet demo_pyca (dict_set ''header'' (PBytes [8]) d) sample_engine (encryptor_init ''relay'')) = Inl InvalidTag"
proof -
  obtain c where "aead_encrypt demo_pyca (replicate 32 7) (replicate 12 1) [123, 125] (Some [9]) = Inr c"
    by (simp add: demo_pyca_def)
  from encrypt_packet_ok [OF sample_engine_key this, of "[(''header'', PBytes [9]), (''payload'', PBytes [123, 125])]" "[]" "encryptor_init ''car_44''"]
  obtain d e' x' where e: "encrypt_packet demo_pyca (replicate 12 1) [] [(''header'', PBytes [9]), (''payload'', PBytes [123, 125])]
       sample_engine (encryptor_init ''car_44'') = (Inr d, e', x')" by simp
  have "aead_decrypt demo_pyca (replicate 32 7) (replicate 12 1) c (Some [8]) = Inl InvalidTag"
    if "aead_encrypt demo_pyca (replicate 32 7) (replicate 12 1) [123, 125] (Some [9]) = Inr c" for c
    using that by (auto simp: demo_pyca_def demo_tag_def fit_def checksum_def)
  with encrypt_packet_roundtrip [OF demo_aead_law e refl, of "encryptor_init ''relay''"] e sample_engine_key show ?thesis
    by (auto simp: dict_get_def)
qed

end
