(* ===== verification/Signer.thy ===== *)
theory Signer
  imports Crypto
begin

text \<open>
  \<open>car_producer/src/signer.py\<close>: the Ed25519 packet signer of the car and the verifier that holds a
  registry of public keys. Keys are the 32 bytes they stand for. The lemmas show that a packet
  signed under a registered identity verifies, what is known of a packet that verified, and that
  nothing else ever counts as verified.
\<close>

section \<open>PacketSigner\<close>

definition SIGNATURE_SIZE :: nat where "SIGNATURE_SIZE = 64"
definition PUBLIC_KEY_SIZE :: nat where "PUBLIC_KEY_SIZE = 32"

record signer =
  sgn_node_id :: string
  sgn_private :: bytes
  sgn_count :: int
  sgn_created :: clock

definition signer_init :: "string \<Rightarrow> bytes \<Rightarrow> clock \<Rightarrow> signer" where
  "signer_init node priv now = \<lparr>sgn_node_id = node, sgn_private = priv, sgn_count = 0, sgn_created = now\<rparr>"

definition signer_public :: "pyca \<Rightarrow> signer \<Rightarrow> bytes" where
  "signer_public C s = ed_public C (sgn_private s)"

text \<open>\<open>packet['header'] + packet['payload']\<close>, signed or verified as bytes.\<close>

definition signed_data :: "pydict \<Rightarrow> bytes res" where
  "signed_data pkt =
     (case (dict_get pkt ''header'', dict_get pkt ''payload'') of
        (PBytes h, PBytes p) \<Rightarrow> Inr (h @ p) | _ \<Rightarrow> Inl TypeErr)"

definition signed_fields :: "signer \<Rightarrow> string \<Rightarrow> bytes \<Rightarrow> pydict \<Rightarrow> pydict" where
  "signed_fields s stamp sig pkt =
     dict_set ''signed_at'' (PStr stamp)
       (dict_set ''signer_node_id'' (PStr (sgn_node_id s))
         (dict_set ''signature_bytes'' (PBytes sig)
           (dict_set ''signature'' (PStr (to_hex sig)) pkt)))"

definition sign_packet :: "pyca \<Rightarrow> string \<Rightarrow> pydict \<Rightarrow> signer \<Rightarrow> pydict res \<times> signer" where
  "sign_packet C stamp pkt s =
     (if \<not> dict_has pkt ''header'' \<or> \<not> dict_has pkt ''payload'' then (Inl ValueErr, s)
      else case signed_data pkt of
        Inl e \<Rightarrow> (Inl e, s)
      | Inr d \<Rightarrow> (Inr (signed_fields s stamp (ed_sign C (sgn_private s) d) pkt), s\<lparr>sgn_count := sgn_count s + 1\<rparr>))"

definition sign_bytes :: "pyca \<Rightarrow> signer \<Rightarrow> bytes \<Rightarrow> bytes" where
  "sign_bytes C s data = ed_sign C (sgn_private s) data"

definition signer_age :: "signer \<Rightarrow> clock \<Rightarrow> pyfloat" where
  "signer_age s now = elapsed now (sgn_created s)"

section \<open>SignatureVerifier\<close>

record verifier =
  ver_registry :: "bytes dict"
  ver_count :: int
  ver_fails :: int

definition verifier_init :: verifier where
  "verifier_init = \<lparr>ver_registry = [], ver_count = 0, ver_fails = 0\<rparr>"

definition register_node :: "string \<Rightarrow> bytes \<Rightarrow> verifier \<Rightarrow> unit res \<times> verifier" where
  "register_node node key v =
     (if length key \<noteq> PUBLIC_KEY_SIZE then (Inl ValueErr, v)
      else (Inr (), v\<lparr>ver_registry := dict_set node key (ver_registry v)\<rparr>))"

text \<open>The signature of a packet: the bytes, or the hexadecimal text when they are \<open>None\<close>.\<close>

definition packet_sig :: "pydict \<Rightarrow> pyval res" where
  "packet_sig pkt =
     (if dict_get pkt ''signature_bytes'' = PNone
      then if truthy (dict_get pkt ''signature'')
           then rbind (py_fromhex (dict_get pkt ''signature'')) (\<lambda>b. Inr (PBytes b))
           else Inl ValueErr
      else Inr (dict_get pkt ''signature_bytes''))"

definition verify_inputs :: "pydict \<Rightarrow> verifier \<Rightarrow> (bytes \<times> bytes \<times> bytes) res" where
  "verify_inputs pkt v =
     (if \<not> truthy (dict_get pkt ''signer_node_id'') then Inl ValueErr
      else rbind (lookup_str (ver_registry v) (dict_get pkt ''signer_node_id'')) (\<lambda>k.
        case k of None \<Rightarrow> Inl ValueErr
        | Some key \<Rightarrow>
            if \<not> dict_has pkt ''header'' \<or> \<not> dict_has pkt ''payload'' then Inl ValueErr
            else rbind (packet_sig pkt) (\<lambda>s. rbind (signed_data pkt) (\<lambda>d. rbind (as_bytes s) (\<lambda>sig.
              Inr (key, sig, d))))))"

definition verify_packet :: "pyca \<Rightarrow> pydict \<Rightarrow> verifier \<Rightarrow> bool res \<times> verifier" where
  "verify_packet C pkt v =
     (case verify_inputs pkt v of
        Inl e \<Rightarrow> (Inl e, v)
      | Inr (key, sig, d) \<Rightarrow>
          if ed_verify C key sig d then (Inr True, v\<lparr>ver_count := ver_count v + 1\<rparr>)
          else (Inl InvalidSignature, v\<lparr>ver_fails := ver_fails v + 1\<rparr>))"

text \<open>Unlike \<open>verify_packet\<close>, \<open>verify_bytes\<close> does not count a failed verification.\<close>

definition verify_bytes :: "pyca \<Rightarrow> string \<Rightarrow> bytes \<Rightarrow> bytes \<Rightarrow> verifier \<Rightarrow> bool res \<times> verifier" where
  "verify_bytes C node sig d v =
     (case map_of (ver_registry v) node of
        None \<Rightarrow> (Inl ValueErr, v)
      | Some key \<Rightarrow>
          if ed_verify C key sig d then (Inr True, v\<lparr>ver_count := ver_count v + 1\<rparr>)
          else (Inl InvalidSignature, v))"

definition is_registered :: "verifier \<Rightarrow> string \<Rightarrow> bool" where
  "is_registered v node = dict_has (ver_registry v) node"

definition registered_nodes :: "verifier \<Rightarrow> string list" where
  "registered_nodes v = dict_keys (ver_registry v)"

section \<open>Properties\<close>

lemma signed_fields_get [simp]:
  "dict_get (signed_fields s stamp sig pkt) ''signature'' = PStr (to_hex sig)"
  "dict_get (signed_fields s stamp sig pkt) ''signature_bytes'' = PBytes sig"
  "dict_get (signed_fields s stamp sig pkt) ''signer_node_id'' = PStr (sgn_node_id s)"
  "k \<notin> {''signature'', ''signature_bytes'', ''signer_node_id'', ''signed_at''} \<Longrightarrow>
     map_of (signed_fields s stamp sig pkt) k = map_of pkt k"
  by (auto simp: signed_fields_def)

lemma signed_fields_other:
  "k \<notin> {''signature'', ''signature_bytes'', ''signer_node_id'', ''signed_at''} \<Longrightarrow>
     dict_get (signed_fields s stamp sig pkt) k = dict_get pkt k \<and>
     dict_has (signed_fields s stamp sig pkt) k = dict_has pkt k"
  by (simp add: dict_get_def dict_has_def)

lemma signed_data_signed [simp]: "signed_data (signed_fields s stamp sig pkt) = signed_data pkt"
  by (simp add: signed_data_def dict_get_def)

lemma signed_data_InrE:
  assumes "signed_data pkt = Inr d"
  obtains h p where "dict_get pkt ''header'' = PBytes h" and "dict_get pkt ''payload'' = PBytes p" and "d = h @ p"
  using assms by (auto simp: signed_data_def split: pyval.splits)

lemma sign_packet_InrD:
  assumes "sign_packet C stamp pkt s = (Inr sp, s')"
  obtains d where "signed_data pkt = Inr d" and "dict_has pkt ''header''" and "dict_has pkt ''payload''"
    and "sp = signed_fields s stamp (ed_sign C (sgn_private s) d) pkt" and "s' = s\<lparr>sgn_count := sgn_count s + 1\<rparr>"
  using assms by (auto simp: sign_packet_def split: if_splits sum.splits)

lemma verify_packet_counts:
  "verify_packet C pkt v = (r, v') \<Longrightarrow>
   ver_registry v' = ver_registry v \<and> ver_count v' = ver_count v + (if r = Inr True then 1 else 0) \<and>
   ver_fails v' = ver_fails v + (if r = Inl InvalidSignature then 1 else 0) \<or>
   (\<exists>e. r = Inl e \<and> v' = v)"
  by (auto simp: verify_packet_def split: sum.splits if_splits)

lemma verify_packet_True:
  "fst (verify_packet C pkt v) = Inr b \<longleftrightarrow>
     b \<and> (\<exists>key sig d. verify_inputs pkt v = Inr (key, sig, d) \<and> ed_verify C key sig d)"
  by (auto simp: verify_packet_def split: sum.split prod.split)

lemma verify_inputs_InrD:
  assumes "verify_inputs pkt v = Inr (key, sig, d)"
  obtains node where "dict_get pkt ''signer_node_id'' = PStr node" and "map_of (ver_registry v) node = Some key"
    and "signed_data pkt = Inr d" and "packet_sig pkt = Inr (PBytes sig)"
  using assms
  by (auto simp: verify_inputs_def as_bytes_def elim!: rbind_InrE split: if_splits option.splits pyval.splits
      elim!: lookup_str_SomeE)

lemma verify_inputs_signed:
  assumes "signed_data pkt = Inr d" and "dict_has pkt ''header''" and "dict_has pkt ''payload''"
    and "map_of (ver_registry v) (sgn_node_id s) = Some key" and "sgn_node_id s \<noteq> []"
  shows "verify_inputs (signed_fields s stamp sig pkt) v = Inr (key, sig, d)"
  using assms signed_fields_other [of "''header''" s stamp sig pkt] signed_fields_other [of "''payload''" s stamp sig pkt]
  by (simp add: verify_inputs_def packet_sig_def as_bytes_def)

section \<open>The promises of signer and verifier\<close>

text \<open>Signature round trip: once the verifier has registered the signer's public key under its node
  id, every packet that signer signs verifies, is counted once, and leaves the registry alone.\<close>

theorem sign_verify_roundtrip:
  assumes "sig_law C" and "sign_packet C stamp pkt s = (Inr sp, s')" and "sgn_node_id s \<noteq> []"
  shows "\<exists>v'. register_node (sgn_node_id s) (signer_public C s) v = (Inr (), v') \<and>
    verify_packet C sp v' = (Inr True, v'\<lparr>ver_count := ver_count v' + 1\<rparr>) \<and>
    sgn_count s' = sgn_count s + 1"
proof -
  obtain d where d: "signed_data pkt = Inr d" "dict_has pkt ''header''" "dict_has pkt ''payload''"
    and sp: "sp = signed_fields s stamp (ed_sign C (sgn_private s) d) pkt" and s': "s' = s\<lparr>sgn_count := sgn_count s + 1\<rparr>"
    using assms(2) by (rule sign_packet_InrD)
  let ?v = "v\<lparr>ver_registry := dict_set (sgn_node_id s) (signer_public C s) (ver_registry v)\<rparr>"
  have "length (signer_public C s) = PUBLIC_KEY_SIZE"
    using assms(1) by (simp add: sig_law_def signer_public_def PUBLIC_KEY_SIZE_def)
  then have r: "register_node (sgn_node_id s) (signer_public C s) v = (Inr (), ?v)" by (simp add: register_node_def)
  have "map_of (ver_registry ?v) (sgn_node_id s) = Some (signer_public C s)" by simp
  from verify_inputs_signed [OF d this assms(3)] have
    "verify_inputs sp ?v = Inr (signer_public C s, ed_sign C (sgn_private s) d, d)" by (simp add: sp)
  moreover have "ed_verify C (signer_public C s) (ed_sign C (sgn_private s) d) d"
    using assms(1) by (simp add: sig_law_def signer_public_def)
  ultimately have "verify_packet C sp ?v = (Inr True, ?v\<lparr>ver_count := ver_count ?v + 1\<rparr>)"
    by (simp add: verify_packet_def)
  with r s' show ?thesis by simp
qed

definition sample_signer :: signer where
  "sample_signer = signer_init ''car_44'' [5] 0"

theorem sign_verify_roundtrip_witness:
  "\<exists>sp v'. fst (sign_packet demo_pyca [] [(''header'', PBytes [9]), (''payload'', PBytes [1])] sample_signer) = Inr sp \<and>
     fst (verify_packet demo_pyca sp v') = Inr True"
proof -
  obtain sp s' where s: "sign_packet demo_pyca [] [(''header'', PBytes [9]), (''payload'', PBytes [1])] sample_signer = (Inr sp, s')"
    by (simp add: sign_packet_def signed_data_def dict_has_def dict_get_def)
  have "sgn_node_id sample_signer \<noteq> []" by (simp add: sample_signer_def signer_init_def)
  from sign_verify_roundtrip [OF demo_sig_law s this, of verifier_init] s show ?thesis
    by (metis fst_conv)
qed

text \<open>What verification means: \<open>verify_packet\<close> never returns \<open>False\<close>; it returns at all exactly when the
  packet names a registered signer whose key verifies the packet's signature over header followed
  by payload, and only such a return is counted as verified.\<close>

theorem verify_packet_sound:
  "(fst (verify_packet C pkt v) = Inr b \<longleftrightarrow>
      b \<and> (\<exists>key sig d. verify_inputs pkt v = Inr (key, sig, d) \<and> ed_verify C key sig d)) \<and>
   (verify_inputs pkt v = Inr (key, sig, d) \<longrightarrow>
      (\<exists>node h p. dict_get pkt ''signer_node_id'' = PStr node \<and> map_of (ver_registry v) node = Some key \<and>
         dict_get pkt ''header'' = PBytes h \<and> dict_get pkt ''payload'' = PBytes p \<and> d = h @ p)) \<and>
   ver_count (snd (verify_packet C pkt v)) = ver_count v + (if is_err (fst (verify_packet C pkt v)) then 0 else 1)"
proof -
  have "\<exists>node h p. dict_get pkt ''signer_node_id'' = PStr node \<and> map_of (ver_registry v) node = Some key \<and>
         dict_get pkt ''header'' = PBytes h \<and> dict_get pkt ''payload'' = PBytes p \<and> d = h @ p"
    if "verify_inputs pkt v = Inr (key, sig, d)"
    using that by (rule verify_inputs_InrD) (auto elim: signed_data_InrE)
  moreover have "ver_count (snd (verify_packet C pkt v)) = ver_count v + (if is_err (fst (verify_packet C pkt v)) then 0 else 1)"
    by (auto simp: verify_packet_def split: sum.split)
  ultimately show ?thesis using verify_packet_True [of C pkt v b] by blast
qed

theorem verify_packet_sound_witness:
  "fst (verify_packet demo_pyca [(''signer_node_id'', PStr ''car_44''), (''header'', PBytes [9]), (''payload'', PBytes [1]),
       (''signature_bytes'', PBytes (ed_sign demo_pyca [5] [9, 1]))]
     \<lparr>ver_registry = [(''car_44'', ed_public demo_pyca [5])], ver_count = 0, ver_fails = 0\<rparr>) = Inr True"
proof -
  let ?pkt = "[(''signer_node_id'', PStr ''car_44''), (''header'', PBytes [9]), (''payload'', PBytes [1]),
       (''signature_bytes'', PBytes (ed_sign demo_pyca [5] [9, 1]))]"
  let ?v = "\<lparr>ver_registry = [(''car_44'', ed_public demo_pyca [5])], ver_count = 0, ver_fails = 0\<rparr>"
  have "verify_inputs ?pkt ?v = Inr (ed_public demo_pyca [5], ed_sign demo_pyca [5] [9, 1], [9, 1])"
    by (simp add: verify_inputs_def dict_get_def dict_has_def packet_sig_def signed_data_def as_bytes_def lookup_str_def)
  moreover have "ed_verify demo_pyca (ed_public demo_pyca [5]) (ed_sign demo_pyca [5] [9, 1]) [9, 1]"
    using demo_sig_law by (simp add: sig_law_def)
  ultimately show ?thesis using verify_packet_sound [of demo_pyca ?pkt ?v True] by blast
qed

end
