(* ===== verification/KeyScheduler.thy ===== *)
theory KeyScheduler
  imports Crypto
begin

text \<open>
  \<open>car_producer/src/key_scheduler.py\<close>: the scheduler that rotates the engine's session after a
  maximal age or a maximal number of packets. Callbacks are functions over the state \<open>'c\<close> of
  whoever registered them; an exception one raises is swallowed. A rotation is the sequence of its
  two locked regions with the engine's rotation between them. \<open>sched_step\<close> lets any number of rotations
  of several threads overlap, with each other and with packets being recorded. The lemmas say when a
  rotation is due, what an undisturbed one does to the counters and the engine, and what the log still
  accounts for when threads interleave.
\<close>

section \<open>State\<close>

definition MAX_SESSION_AGE_SECONDS :: int where "MAX_SESSION_AGE_SECONDS = 300"
definition MAX_PACKETS_PER_KEY :: int where "MAX_PACKETS_PER_KEY = 10000"
definition CHECK_INTERVAL_SECONDS :: int where "CHECK_INTERVAL_SECONDS = 5"

datatype rotation_reason =
    AgeExceeded pyfloat int
  | CountExceeded int int
  | ManualForce

record rotation_event =
  re_reason :: rotation_reason
  re_rotation_num :: int
  re_old_age :: pyfloat
  re_old_count :: int
  re_timestamp :: string

text \<open>\<open>to_dict\<close>: the entry of the rotation log, its age rounded to two digits.\<close>

definition event_entry :: "rotation_event \<Rightarrow> rotation_event" where
  "event_entry ev = ev\<lparr>re_old_age := py_round 2 (re_old_age ev)\<rparr>"

type_synonym 'c callback = "rotation_event \<Rightarrow> bytes \<Rightarrow> 'c \<Rightarrow> unit res \<times> 'c"

record 'c scheduler =
  sch_max_age :: int
  sch_max_packets :: int
  sch_node_id :: string
  sch_packet_count :: int
  sch_session_start :: clock
  sch_rotation_count :: int
  sch_running :: bool
  sch_log :: "rotation_event list"
  sch_callbacks :: "'c callback list"

definition scheduler_init :: "int \<Rightarrow> int \<Rightarrow> string \<Rightarrow> clock \<Rightarrow> 'c scheduler" where
  "scheduler_init max_age max_packets node now =
     \<lparr>sch_max_age = max_age, sch_max_packets = max_packets, sch_node_id = node,
      sch_packet_count = 0, sch_session_start = now, sch_rotation_count = 0, sch_running = False,
      sch_log = [], sch_callbacks = []\<rparr>"

section \<open>Operations\<close>

definition on_rotation :: "'c callback \<Rightarrow> 'c scheduler \<Rightarrow> 'c scheduler" where
  "on_rotation cb s = s\<lparr>sch_callbacks := sch_callbacks s @ [cb]\<rparr>"

definition record_packet :: "'c scheduler \<Rightarrow> 'c scheduler" where
  "record_packet s = s\<lparr>sch_packet_count := sch_packet_count s + 1\<rparr>"

definition sch_age :: "'c scheduler \<Rightarrow> clock \<Rightarrow> pyfloat" where
  "sch_age s now = elapsed now (sch_session_start s)"

definition should_rotate :: "'c scheduler \<Rightarrow> clock \<Rightarrow> rotation_reason option" where
  "should_rotate s now =
     (let age = sch_age s now; count = sch_packet_count s
      in if fle (float_int (sch_max_age s)) age then Some (AgeExceeded age (sch_max_age s))
         else if sch_max_packets s \<le> count then Some (CountExceeded count (sch_max_packets s))
         else None)"

text \<open>What a rotation reads from outside: three clock readings, the new private key, the time stamp.\<close>

record rotation_inputs =
  ri_now :: clock
  ri_created :: clock
  ri_reset :: clock
  ri_private :: bytes
  ri_stamp :: string

text \<open>The first locked region: the age and count of the old key, and the number of this rotation.\<close>

definition rotation_begin :: "rotation_inputs \<Rightarrow> 'c scheduler \<Rightarrow> (pyfloat \<times> int \<times> int) \<times> 'c scheduler" where
  "rotation_begin i s =
     (let s1 = s\<lparr>sch_rotation_count := sch_rotation_count s + 1\<rparr>
      in ((sch_age s (ri_now i), sch_packet_count s, sch_rotation_count s1), s1))"

text \<open>The second locked region.\<close>

definition rotation_reset :: "rotation_inputs \<Rightarrow> 'c scheduler \<Rightarrow> 'c scheduler" where
  "rotation_reset i s = s\<lparr>sch_packet_count := 0, sch_session_start := ri_reset i\<rparr>"

definition rotation_log_event :: "rotation_event \<Rightarrow> 'c scheduler \<Rightarrow> 'c scheduler" where
  "rotation_log_event ev s = s\<lparr>sch_log := sch_log s @ [event_entry ev]\<rparr>"

definition notify :: "'c callback list \<Rightarrow> rotation_event \<Rightarrow> bytes \<Rightarrow> 'c \<Rightarrow> 'c" where
  "notify cbs ev pub c = fold (\<lambda>cb c. snd (cb ev pub c)) cbs c"

definition do_rotation ::
  "pyca \<Rightarrow> rotation_inputs \<Rightarrow> rotation_reason \<Rightarrow> 'c scheduler \<Rightarrow> engine \<Rightarrow> 'c \<Rightarrow> 'c scheduler \<times> engine \<times> 'c" where
  "do_rotation C i reason s e c =
     (let ((old_age, old_count, num), s1) = rotation_begin i s;
          (pub, e1) = rotate_session C (ri_private i) (ri_created i) e;
          s2 = rotation_reset i s1;
          ev = \<lparr>re_reason = reason, re_rotation_num = num, re_old_age = old_age,
                re_old_count = old_count, re_timestamp = ri_stamp i\<rparr>;
          s3 = rotation_log_event ev s2
      in (s3, e1, notify (sch_callbacks s3) ev pub c))"

definition force_rotation ::
  "pyca \<Rightarrow> rotation_inputs \<Rightarrow> 'c scheduler \<Rightarrow> engine \<Rightarrow> 'c \<Rightarrow> 'c scheduler \<times> engine \<times> 'c" where
  "force_rotation C i s e c = do_rotation C i ManualForce s e c"

text \<open>The background thread: one pass of its loop, and the passes while \<open>running\<close> holds.\<close>

definition run_pass ::
  "pyca \<Rightarrow> clock \<times> rotation_inputs \<Rightarrow> 'c scheduler \<times> engine \<times> 'c \<Rightarrow> 'c scheduler \<times> engine \<times> 'c" where
  "run_pass C x st =
     (case st of (s, e, c) \<Rightarrow>
        (case should_rotate s (fst x) of
           None \<Rightarrow> (s, e, c)
         | Some reason \<Rightarrow> do_rotation C (snd x) reason s e c))"

fun run_thread ::
  "pyca \<Rightarrow> (clock \<times> rotation_inputs) list \<Rightarrow> 'c scheduler \<times> engine \<times> 'c \<Rightarrow> 'c scheduler \<times> engine \<times> 'c" where
  "run_thread C [] st = st"
| "run_thread C (x # xs) st =
     (if sch_running (fst st) then run_thread C xs (run_pass C x st) else st)"

definition sched_start :: "'c scheduler \<Rightarrow> 'c scheduler" where
  "sched_start s = (if sch_running s then s else s\<lparr>sch_running := True\<rparr>)"

definition sched_stop :: "'c scheduler \<Rightarrow> 'c scheduler" where
  "sched_stop s = s\<lparr>sch_running := False\<rparr>"

definition time_until_rotation :: "'c scheduler \<Rightarrow> clock \<Rightarrow> pyfloat" where
  "time_until_rotation s now = fmax (FFin 0) (fsub (float_int (sch_max_age s)) (sch_age s now))"

definition packets_until_rotation :: "'c scheduler \<Rightarrow> int" where
  "packets_until_rotation s = max 0 (sch_max_packets s - sch_packet_count s)"

record sched_status =
  ss_node_id :: string
  ss_running :: bool
  ss_session_age :: pyfloat
  ss_packet_count :: int
  ss_rotation_count :: int
  ss_time_until :: pyfloat
  ss_packets_until :: int

definition sched_status_of :: "'c scheduler \<Rightarrow> clock \<Rightarrow> sched_status" where
  "sched_status_of s now =
     \<lparr>ss_node_id = sch_node_id s, ss_running = sch_running s,
      ss_session_age = py_round 2 (sch_age s now), ss_packet_count = sch_packet_count s,
      ss_rotation_count = sch_rotation_count s,
      ss_time_until = py_round 2 (time_until_rotation s now),
      ss_packets_until = packets_until_rotation s\<rparr>"

section \<open>Properties\<close>

lemma should_rotate_None:
  "should_rotate s now = None \<longleftrightarrow>
     \<not> fle (float_int (sch_max_age s)) (sch_age s now) \<and> sch_packet_count s < sch_max_packets s"
  by (auto simp: should_rotate_def Let_def)

lemma packets_until_rotation_zero:
  "packets_until_rotation s = 0 \<longleftrightarrow> sch_max_packets s \<le> sch_packet_count s"
  by (simp add: packets_until_rotation_def max_def)

definition rotation_event_of :: "rotation_inputs \<Rightarrow> rotation_reason \<Rightarrow> 'c scheduler \<Rightarrow> rotation_event" where
  "rotation_event_of i reason s =
     \<lparr>re_reason = reason, re_rotation_num = sch_rotation_count s + 1, re_old_age = sch_age s (ri_now i),
      re_old_count = sch_packet_count s, re_timestamp = ri_stamp i\<rparr>"

text \<open>A rotation in closed form.\<close>

lemma do_rotation_eq:
  "do_rotation C i reason s e c =
    (s\<lparr>sch_rotation_count := sch_rotation_count s + 1, sch_packet_count := 0,
       sch_session_start := ri_reset i, sch_log := sch_log s @ [event_entry (rotation_event_of i reason s)]\<rparr>,
     snd (rotate_session C (ri_private i) (ri_created i) e),
     notify (sch_callbacks s) (rotation_event_of i reason s) (x25519_public C (ri_private i)) c)"
  by (simp add: do_rotation_def rotation_begin_def rotation_reset_def rotation_log_event_def Let_def
      rotation_event_of_def rotate_session_def split: prod.split)
    (metis fst_conv new_session_simps(1))

text \<open>The log numbers the rotations \<open>1, 2, ...\<close> and has one entry per rotation.\<close>

definition sch_inv :: "'c scheduler \<Rightarrow> bool" where
  "sch_inv s = (0 \<le> sch_packet_count s \<and> sch_rotation_count s = int (length (sch_log s)) \<and>
     map re_rotation_num (sch_log s) = map int [1..<Suc (length (sch_log s))])"

lemma sch_inv_init: "sch_inv (scheduler_init max_age max_packets node now)"
  by (simp add: sch_inv_def scheduler_init_def)

lemma sch_inv_record [simp]: "sch_inv s \<Longrightarrow> sch_inv (record_packet s)"
  by (simp add: sch_inv_def record_packet_def)

lemma sch_inv_do_rotation: "sch_inv s \<Longrightarrow> sch_inv (fst (do_rotation C i reason s e c))"
  by (simp add: do_rotation_eq sch_inv_def event_entry_def rotation_event_of_def)

lemma run_pass_inv: "sch_inv (fst st) \<Longrightarrow> sch_inv (fst (run_pass C x st))"
  by (auto simp: run_pass_def sch_inv_do_rotation split: prod.split option.split)

lemma run_thread_inv: "sch_inv (fst st) \<Longrightarrow> sch_inv (fst (run_thread C xs st))"
  by (induction xs arbitrary: st) (simp_all add: run_pass_inv)

lemma run_pass_rotates:
  "run_pass C x (s, e, c) = (s', e', c') \<Longrightarrow>
   sch_rotation_count s' = sch_rotation_count s + (if should_rotate s (fst x) = None then 0 else 1)"
  by (auto simp: run_pass_def do_rotation_eq split: option.splits)

lemma do_rotation_unestablished: "\<not> session_established (fst (snd (do_rotation C i reason s e c)))"
  by (simp add: do_rotation_eq rotate_session_unestablished)

section \<open>Rotations interleaved with packets and with each other\<close>

text \<open>
  Nothing keeps \<open>force_rotation\<close> from running beside the background thread, or twice at once: every
  rotation under way is a flight of its own, which has read its age, count and number, then replaces
  the session, then clears the counters, then appends to the log and notifies. The lock is held
  within the first and the third of these, not across them. A thread whose \<open>_should_rotate\<close> gave a
  reason rotates later, with that reason. A configuration also counts what happened so far: the
  packets recorded, those of them recorded while a rotation had read the count and not yet cleared it,
  the rotations that began while another was under way, and the packets they read a second time.
\<close>

datatype flight_phase = Begun | Replaced bytes | Cleared bytes

record flight =
  fl_reason :: rotation_reason
  fl_inputs :: rotation_inputs
  fl_age :: pyfloat
  fl_count :: int
  fl_num :: int
  fl_phase :: flight_phase

definition fl_open :: "flight \<Rightarrow> bool" where
  "fl_open f = (case fl_phase f of Cleared pub \<Rightarrow> False | _ \<Rightarrow> True)"

record 'c config =
  cf_recorded :: int
  cf_inside :: int
  cf_overlaps :: nat
  cf_twice :: int
  cf_due :: "rotation_reason list"
  cf_flights :: "flight list"
  cf_sched :: "'c scheduler"
  cf_engine :: engine
  cf_client :: 'c

definition config_init :: "'c scheduler \<Rightarrow> engine \<Rightarrow> 'c \<Rightarrow> 'c config" where
  "config_init s e c = \<lparr>cf_recorded = 0, cf_inside = 0, cf_overlaps = 0, cf_twice = 0, cf_due = [], cf_flights = [],
     cf_sched = s, cf_engine = e, cf_client = c\<rparr>"

definition cf_recording :: "'c config \<Rightarrow> 'c config" where
  "cf_recording k = k\<lparr>cf_recorded := cf_recorded k + 1,
     cf_inside := cf_inside k + (if \<exists>f\<in>set (cf_flights k). fl_open f then 1 else 0), cf_sched := record_packet (cf_sched k)\<rparr>"

definition rotation_starts :: "rotation_reason \<Rightarrow> rotation_inputs \<Rightarrow> 'c config \<Rightarrow> 'c config" where
  "rotation_starts reason i k =
     (case rotation_begin i (cf_sched k) of ((age, count, num), s) \<Rightarrow>
        k\<lparr>cf_sched := s,
          cf_overlaps := cf_overlaps k + (if cf_flights k = [] then 0 else 1),
          cf_twice := cf_twice k + (if \<exists>f\<in>set (cf_flights k). fl_open f then count else 0),
          cf_flights := cf_flights k @ [\<lparr>fl_reason = reason, fl_inputs = i, fl_age = age, fl_count = count, fl_num = num, fl_phase = Begun\<rparr>]\<rparr>)"

definition flight_event :: "flight \<Rightarrow> rotation_event" where
  "flight_event f = \<lparr>re_reason = fl_reason f, re_rotation_num = fl_num f, re_old_age = fl_age f, re_old_count = fl_count f,
     re_timestamp = ri_stamp (fl_inputs f)\<rparr>"

definition rotation_ends :: "flight \<Rightarrow> bytes \<Rightarrow> 'c config \<Rightarrow> 'c config" where
  "rotation_ends f pub k =
     (let s = rotation_log_event (flight_event f) (cf_sched k)
      in k\<lparr>cf_sched := s, cf_client := notify (sch_callbacks s) (flight_event f) pub (cf_client k)\<rparr>)"

inductive sched_step :: "pyca \<Rightarrow> 'c config \<Rightarrow> 'c config \<Rightarrow> bool" for C where
  record_step: "sched_step C k (cf_recording k)"
| check_step: "sch_running (cf_sched k) \<Longrightarrow> should_rotate (cf_sched k) now = Some reason \<Longrightarrow>
     sched_step C k (k\<lparr>cf_due := reason # cf_due k\<rparr>)"
| due_step: "reason \<in> set (cf_due k) \<Longrightarrow>
     sched_step C k (rotation_starts reason i (k\<lparr>cf_due := remove1 reason (cf_due k)\<rparr>))"
| force_step: "sched_step C k (rotation_starts ManualForce i k)"
| replace_step: "cf_flights k = fs @ f # gs \<Longrightarrow> fl_phase f = Begun \<Longrightarrow>
     rotate_session C (ri_private (fl_inputs f)) (ri_created (fl_inputs f)) (cf_engine k) = (pub, e) \<Longrightarrow>
     sched_step C k (k\<lparr>cf_engine := e, cf_flights := fs @ f\<lparr>fl_phase := Replaced pub\<rparr> # gs\<rparr>)"
| clear_step: "cf_flights k = fs @ f # gs \<Longrightarrow> fl_phase f = Replaced pub \<Longrightarrow>
     sched_step C k (k\<lparr>cf_sched := rotation_reset (fl_inputs f) (cf_sched k), cf_flights := fs @ f\<lparr>fl_phase := Cleared pub\<rparr> # gs\<rparr>)"
| log_step: "cf_flights k = fs @ f # gs \<Longrightarrow> fl_phase f = Cleared pub \<Longrightarrow>
     sched_step C k (rotation_ends f pub (k\<lparr>cf_flights := fs @ gs\<rparr>))"
| start_step: "sched_step C k (k\<lparr>cf_sched := sched_start (cf_sched k)\<rparr>)"
| stop_step: "sched_step C k (k\<lparr>cf_sched := sched_stop (cf_sched k)\<rparr>)"

lemma four_steps: "r a b \<Longrightarrow> r b c \<Longrightarrow> r c d \<Longrightarrow> r d e \<Longrightarrow> r\<^sup>*\<^sup>* a e"
  by (blast intro: converse_rtranclp_into_rtranclp)

text \<open>A rotation that nothing interrupts is a \<open>do_rotation\<close>.\<close>

lemma uninterrupted_rotation:
  assumes "cf_flights k = []" and "do_rotation C i ManualForce (cf_sched k) (cf_engine k) (cf_client k) = (s', e', c')"
  shows "(sched_step C)\<^sup>*\<^sup>* k (k\<lparr>cf_sched := s', cf_engine := e', cf_client := c'\<rparr>)"
proof -
  obtain pub e where pe: "rotate_session C (ri_private i) (ri_created i) (cf_engine k) = (pub, e)" by fastforce
  obtain age n num s where b: "rotation_begin i (cf_sched k) = ((age, n, num), s)" by (metis surjective_pairing)
  let ?f = "\<lparr>fl_reason = ManualForce, fl_inputs = i, fl_age = age, fl_count = n, fl_num = num, fl_phase = Begun\<rparr>"
  let ?k1 = "k\<lparr>cf_sched := s, cf_flights := [?f]\<rparr>"
  let ?k2 = "?k1\<lparr>cf_engine := e, cf_flights := [?f\<lparr>fl_phase := Replaced pub\<rparr>]\<rparr>"
  let ?k3 = "?k2\<lparr>cf_sched := rotation_reset i s, cf_flights := [?f\<lparr>fl_phase := Cleared pub\<rparr>]\<rparr>"
  let ?k4 = "rotation_ends (?f\<lparr>fl_phase := Cleared pub\<rparr>) pub (?k3\<lparr>cf_flights := []\<rparr>)"
  have "rotation_starts ManualForce i k = ?k1" using assms(1) b by (cases k) (simp add: rotation_starts_def)
  then have 1: "sched_step C k ?k1" by (metis force_step)
  have 2: "sched_step C ?k1 ?k2" using replace_step [of ?k1 "[]" ?f "[]" C pub e] pe by simp
  have 3: "sched_step C ?k2 ?k3" using clear_step [of ?k2 "[]" "?f\<lparr>fl_phase := Replaced pub\<rparr>" "[]" pub C] by simp
  have 4: "sched_step C ?k3 ?k4" using log_step [of ?k3 "[]" "?f\<lparr>fl_phase := Cleared pub\<rparr>" "[]" pub C] by simp
  have d: "rotation_log_event (flight_event ?f) (rotation_reset i s) = s'" "e' = e"
    "notify (sch_callbacks s') (flight_event ?f) pub (cf_client k) = c'"
    using assms(2) pe b by (auto simp: do_rotation_def flight_event_def Let_def)
  have "?k4 = k\<lparr>cf_sched := s', cf_flights := [], cf_engine := e', cf_client := c'\<rparr>"
    using d by (simp add: rotation_ends_def flight_event_def Let_def)
  also have "\<dots> = k\<lparr>cf_sched := s', cf_engine := e', cf_client := c'\<rparr>" using assms(1) by (cases k) simp
  finally have "?k4 = k\<lparr>cf_sched := s', cf_engine := e', cf_client := c'\<rparr>" .
  with four_steps [where r = "sched_step C", OF 1 2 3 4] show ?thesis by (simp only:)
qed

definition logged_packets :: "'c scheduler \<Rightarrow> int" where
  "logged_packets s = sum_list (map re_old_count (sch_log s))"

abbreviation log_numbers :: "'c scheduler \<Rightarrow> int list" where
  "log_numbers s \<equiv> map re_rotation_num (sch_log s)"

text \<open>
  The numbers of the log and of the rotations under way are those given out. The packets in the log and
  with the rotations under way, and, unless a rotation will still clear them, those on the current key,
  are the recorded ones, but for those that are lost or read twice.
\<close>

definition cf_numbers :: "'c config \<Rightarrow> int list" where
  "cf_numbers k = log_numbers (cf_sched k) @ map fl_num (cf_flights k)"

definition numbers_inv :: "'c config \<Rightarrow> bool" where
  "numbers_inv k = (let n = sch_rotation_count (cf_sched k) in
     0 \<le> n \<and> distinct (cf_numbers k) \<and> set (cf_numbers k) = {1..n} \<and>
     (cf_overlaps k = 0 \<longrightarrow> length (cf_flights k) \<le> 1 \<and> cf_numbers k = map int [1..<Suc (nat n)]))"

definition uncleared :: "'c config \<Rightarrow> bool" where
  "uncleared k = (\<exists>f\<in>set (cf_flights k). fl_open f)"

definition accounted_packets :: "'c config \<Rightarrow> int" where
  "accounted_packets k = logged_packets (cf_sched k) + sum_list (map fl_count (cf_flights k)) +
     (if uncleared k then 0 else sch_packet_count (cf_sched k))"

definition counts_inv :: "'c config \<Rightarrow> bool" where
  "counts_inv k = (0 \<le> sch_packet_count (cf_sched k) \<and>
     cf_recorded k - cf_inside k \<le> accounted_packets k \<and> accounted_packets k \<le> cf_recorded k + cf_twice k \<and>
     (cf_overlaps k = 0 \<longrightarrow> length (cf_flights k) \<le> 1 \<and> cf_twice k = 0))"

definition config_inv :: "'c config \<Rightarrow> bool" where
  "config_inv k = (numbers_inv k \<and> counts_inv k)"

lemmas sched_op_defs = record_packet_def rotation_begin_def rotation_reset_def rotation_log_event_def
  event_entry_def sched_start_def sched_stop_def

lemmas config_step_defs = cf_recording_def rotation_starts_def rotation_ends_def flight_event_def sched_op_defs

lemma cf_numbers_starts:
  "cf_numbers (rotation_starts reason i k) = cf_numbers k @ [sch_rotation_count (cf_sched k) + 1]"
  by (simp add: cf_numbers_def config_step_defs)

lemma numbers_inv_starts: "numbers_inv k \<Longrightarrow> numbers_inv (rotation_starts reason i k)"
proof -
  assume inv: "numbers_inv k"
  let ?n = "sch_rotation_count (cf_sched k)" and ?k = "rotation_starts reason i k"
  have n: "0 \<le> ?n" "sch_rotation_count (cf_sched ?k) = ?n + 1"
    using inv by (simp_all add: numbers_inv_def config_step_defs Let_def)
  then have "nat (?n + 1) = Suc (nat ?n)" by simp
  have "distinct (cf_numbers ?k)" "set (cf_numbers ?k) = {1..?n + 1}"
    using inv n(1) by (auto simp: numbers_inv_def cf_numbers_starts Let_def)
  moreover have "cf_overlaps ?k = 0 \<longrightarrow> length (cf_flights ?k) \<le> 1 \<and> cf_overlaps k = 0"
    by (simp add: config_step_defs)
  ultimately show ?thesis
    using inv n \<open>nat (?n + 1) = Suc (nat ?n)\<close> by (auto simp: numbers_inv_def Let_def cf_numbers_starts)
qed

lemma numbers_inv_ends:
  assumes "cf_flights k = fs @ f # gs" and "numbers_inv k"
  shows "numbers_inv (rotation_ends f pub (k\<lparr>cf_flights := fs @ gs\<rparr>))"
proof -
  let ?k = "rotation_ends f pub (k\<lparr>cf_flights := fs @ gs\<rparr>)"
  have "cf_numbers ?k = log_numbers (cf_sched k) @ fl_num f # map fl_num fs @ map fl_num gs"
    "cf_numbers k = log_numbers (cf_sched k) @ map fl_num fs @ fl_num f # map fl_num gs"
    using assms(1) by (simp_all add: cf_numbers_def config_step_defs Let_def)
  then have "distinct (cf_numbers ?k) = distinct (cf_numbers k)" "set (cf_numbers ?k) = set (cf_numbers k)"
    "length (cf_flights k) \<le> 1 \<longrightarrow> cf_numbers ?k = cf_numbers k"
    using assms(1) by auto
  then show ?thesis
    using assms by (auto simp: numbers_inv_def config_step_defs Let_def)
qed

lemma numbers_inv_same:
  "numbers_inv k \<Longrightarrow> cf_numbers k' = cf_numbers k \<Longrightarrow> sch_rotation_count (cf_sched k') = sch_rotation_count (cf_sched k) \<Longrightarrow>
   cf_overlaps k' = cf_overlaps k \<Longrightarrow> length (cf_flights k') = length (cf_flights k) \<Longrightarrow> numbers_inv k'"
  by (simp add: numbers_inv_def)

lemma numbers_inv_step: "sched_step C k k' \<Longrightarrow> numbers_inv k \<Longrightarrow> numbers_inv k'"
proof (induction rule: sched_step.induct)
  case (log_step k fs f gs pub)
  then show ?case using numbers_inv_ends by blast
next
  case (force_step k i)
  then show ?case by (rule numbers_inv_starts)
next
  case (due_step reason k i)
  show ?case by (rule numbers_inv_starts, rule numbers_inv_same [OF due_step(2)]) (simp_all add: cf_numbers_def)
qed (auto elim!: numbers_inv_same simp: cf_numbers_def cf_recording_def sched_op_defs)

lemmas counts_defs = counts_inv_def accounted_packets_def logged_packets_def

lemma counts_inv_starts: "counts_inv k \<Longrightarrow> counts_inv (rotation_starts reason i k)"
proof -
  assume inv: "counts_inv k"
  have u: "uncleared (rotation_starts reason i k)"
    "cf_twice (rotation_starts reason i k) = cf_twice k + (if uncleared k then sch_packet_count (cf_sched k) else 0)"
    by (simp_all add: config_step_defs uncleared_def fl_open_def)
  have "cf_overlaps (rotation_starts reason i k) = 0 \<longrightarrow> cf_overlaps k = 0 \<and> cf_flights k = [] \<and> \<not> uncleared k"
    by (simp add: config_step_defs uncleared_def)
  then show ?thesis using inv u by (auto simp: counts_defs) (auto simp: config_step_defs split: if_splits)
qed

lemma counts_inv_other [simp]:
  "counts_inv (k\<lparr>cf_due := d\<rparr>) = counts_inv k"
  "counts_inv (k\<lparr>cf_sched := sched_start (cf_sched k)\<rparr>) = counts_inv k"
  "counts_inv (k\<lparr>cf_sched := sched_stop (cf_sched k)\<rparr>) = counts_inv k"
  by (simp_all add: counts_defs uncleared_def sched_start_def sched_stop_def)

lemma counts_inv_step: "sched_step C k k' \<Longrightarrow> counts_inv k \<Longrightarrow> counts_inv k'"
proof (induction rule: sched_step.induct)
  case (record_step k)
  have "uncleared (cf_recording k) = uncleared k"
    "cf_inside (cf_recording k) = cf_inside k + (if uncleared k then 1 else 0)"
    by (simp_all add: uncleared_def cf_recording_def)
  with record_step show ?case by (auto simp: counts_defs) (auto simp: cf_recording_def record_packet_def split: if_splits)
next
  case (due_step reason k i)
  then show ?case by (simp add: counts_inv_starts)
next
  case (force_step k i)
  then show ?case by (rule counts_inv_starts)
next
  case (replace_step k fs f gs pub e)
  then have "uncleared k" "uncleared (k\<lparr>cf_engine := e, cf_flights := fs @ f\<lparr>fl_phase := Replaced pub\<rparr> # gs\<rparr>)"
    by (simp_all add: uncleared_def fl_open_def)
  with replace_step show ?case by (auto simp: counts_defs)
next
  case (clear_step k fs f gs pub)
  then have "uncleared k" by (simp add: uncleared_def fl_open_def)
  with clear_step show ?case by (auto simp: counts_defs rotation_reset_def)
next
  case (log_step k fs f gs pub)
  then have "uncleared (rotation_ends f pub (k\<lparr>cf_flights := fs @ gs\<rparr>)) = uncleared k"
    by (simp add: uncleared_def fl_open_def config_step_defs Let_def)
  with log_step show ?case by (auto simp: counts_defs) (auto simp: config_step_defs Let_def)
qed simp_all

lemma config_inv_step: "sched_step C k k' \<Longrightarrow> config_inv k \<Longrightarrow> config_inv k'"
  by (simp add: config_inv_def numbers_inv_step counts_inv_step)

lemma config_inv_init: "config_inv (config_init (scheduler_init max_age max_packets node now) e c)"
  by (simp add: config_inv_def numbers_inv_def cf_numbers_def counts_defs config_init_def scheduler_init_def)

lemma config_inv_reach: "(sched_step C)\<^sup>*\<^sup>* k k' \<Longrightarrow> config_inv k \<Longrightarrow> config_inv k'"
  by (induction rule: rtranclp_induct) (auto dest: config_inv_step)

text \<open>C32. However packets, rotations, starts and stops of any number of threads interleave, once no rotation is
  under way the log has one entry for each rotation begun, numbered 1 to n in some order. The packet
  counts in it, with the packets on the current key, miss at most the packets recorded while a rotation
  had read the count and not yet cleared it, and exceed the packets recorded at most by those that a rotation
  read while another had not yet cleared them. If rotations never overlapped, the entries are in order
  and no packet is counted twice.\<close>

theorem rotation_log_accounts:
  assumes "(sched_step C)\<^sup>*\<^sup>* (config_init (scheduler_init max_age max_packets node now) e c) k"
    and "cf_flights k = []"
  shows "distinct (log_numbers (cf_sched k)) \<and> set (log_numbers (cf_sched k)) = {1..int (length (sch_log (cf_sched k)))} \<and>
    sch_rotation_count (cf_sched k) = int (length (sch_log (cf_sched k))) \<and>
    cf_recorded k - cf_inside k \<le> logged_packets (cf_sched k) + sch_packet_count (cf_sched k) \<and>
    logged_packets (cf_sched k) + sch_packet_count (cf_sched k) \<le> cf_recorded k + cf_twice k \<and>
    (cf_overlaps k = 0 \<longrightarrow> log_numbers (cf_sched k) = map int [1..<Suc (length (sch_log (cf_sched k)))] \<and>
       logged_packets (cf_sched k) + sch_packet_count (cf_sched k) \<le> cf_recorded k)"
proof -
  let ?s = "cf_sched k"
  have "config_inv k" using assms(1) config_inv_init by (rule config_inv_reach)
  then have n: "numbers_inv k" and c: "counts_inv k" by (simp_all add: config_inv_def)
  have m: "distinct (log_numbers ?s)" "set (log_numbers ?s) = {1..sch_rotation_count ?s}" "0 \<le> sch_rotation_count ?s"
    and o: "cf_overlaps k = 0 \<longrightarrow> log_numbers ?s = map int [1..<Suc (nat (sch_rotation_count ?s))]"
    using n assms(2) by (simp_all add: numbers_inv_def cf_numbers_def Let_def)
  have "length (sch_log ?s) = nat (sch_rotation_count ?s)" using distinct_card [OF m(1)] m(2) by simp
  then have l: "sch_rotation_count ?s = int (length (sch_log ?s))" using m(3) by simp
  show ?thesis
    using m o l c assms(2) by (auto simp: counts_inv_def accounted_packets_def uncleared_def simp del: upt_Suc)
qed

text \<open>Two rotations that overlap: both read the same packets, and the later one may log first.\<close>

lemma replace_any:
  assumes "cf_flights k = fs @ f # gs" and "fl_phase f = Begun"
  obtains pub e where "sched_step C k (k\<lparr>cf_engine := e, cf_flights := fs @ f\<lparr>fl_phase := Replaced pub\<rparr> # gs\<rparr>)"
  using replace_step [OF assms] by (metis surjective_pairing)

lemma rotations_overlap:
  assumes "cf_flights k = []"
  obtains k' where "(sched_step C)\<^sup>*\<^sup>* k k'" "cf_flights k' = []" "cf_recorded k' = cf_recorded k"
    "log_numbers (cf_sched k') = log_numbers (cf_sched k) @ [sch_rotation_count (cf_sched k) + 2, sch_rotation_count (cf_sched k) + 1]"
    "map re_old_count (sch_log (cf_sched k')) =
       map re_old_count (sch_log (cf_sched k)) @ [sch_packet_count (cf_sched k), sch_packet_count (cf_sched k)]"
proof -
  let ?k1 = "rotation_starts ManualForce i k"
  let ?k2 = "rotation_starts ManualForce i ?k1"
  define f where "f = hd (cf_flights ?k1)"
  define g where "g = last (cf_flights ?k2)"
  have fl: "cf_flights ?k2 = [f, g]" "fl_phase f = Begun" "fl_phase g = Begun"
    and n: "fl_num f = sch_rotation_count (cf_sched k) + 1" "fl_num g = sch_rotation_count (cf_sched k) + 2"
      "fl_count f = sch_packet_count (cf_sched k)" "fl_count g = sch_packet_count (cf_sched k)"
    using assms by (simp_all add: f_def g_def config_step_defs)
  obtain pf e1 where 1: "sched_step C ?k2 (?k2\<lparr>cf_engine := e1, cf_flights := [f\<lparr>fl_phase := Replaced pf\<rparr>, g]\<rparr>)"
    (is "sched_step C ?k2 ?k3") using replace_any [of ?k2 "[]" f "[g]"] fl by auto
  obtain pg e2 where 2: "sched_step C ?k3 (?k3\<lparr>cf_engine := e2, cf_flights := [f\<lparr>fl_phase := Replaced pf\<rparr>, g\<lparr>fl_phase := Replaced pg\<rparr>]\<rparr>)"
    (is "sched_step C ?k3 ?k4") using replace_any [of ?k3 "[f\<lparr>fl_phase := Replaced pf\<rparr>]" g "[]"] fl by auto
  let ?k5 = "?k4\<lparr>cf_sched := rotation_reset (fl_inputs f) (cf_sched ?k4), cf_flights := [f\<lparr>fl_phase := Cleared pf\<rparr>, g\<lparr>fl_phase := Replaced pg\<rparr>]\<rparr>"
  have 3: "sched_step C ?k4 ?k5" using clear_step [of ?k4 "[]" "f\<lparr>fl_phase := Replaced pf\<rparr>" "[g\<lparr>fl_phase := Replaced pg\<rparr>]" pf C] by simp
  let ?k6 = "?k5\<lparr>cf_sched := rotation_reset (fl_inputs g) (cf_sched ?k5), cf_flights := [f\<lparr>fl_phase := Cleared pf\<rparr>, g\<lparr>fl_phase := Cleared pg\<rparr>]\<rparr>"
  have 4: "sched_step C ?k5 ?k6" using clear_step [of ?k5 "[f\<lparr>fl_phase := Cleared pf\<rparr>]" "g\<lparr>fl_phase := Replaced pg\<rparr>" "[]" pg C] by simp
  let ?k7 = "rotation_ends (g\<lparr>fl_phase := Cleared pg\<rparr>) pg (?k6\<lparr>cf_flights := [f\<lparr>fl_phase := Cleared pf\<rparr>]\<rparr>)"
  have 5: "sched_step C ?k6 ?k7" using log_step [of ?k6 "[f\<lparr>fl_phase := Cleared pf\<rparr>]" "g\<lparr>fl_phase := Cleared pg\<rparr>" "[]" pg C] by simp
  let ?k8 = "rotation_ends (f\<lparr>fl_phase := Cleared pf\<rparr>) pf (?k7\<lparr>cf_flights := []\<rparr>)"
  have fl7: "cf_flights ?k7 = [] @ f\<lparr>fl_phase := Cleared pf\<rparr> # []" by (simp add: rotation_ends_def Let_def)
  have 6: "sched_step C ?k7 ?k8" using log_step [OF fl7, of pf C] by simp
  have "(sched_step C)\<^sup>*\<^sup>* k ?k2" using force_step [of C k i] force_step [of C ?k1 i] by (meson r_into_rtranclp rtranclp_trans)
  then have r: "(sched_step C)\<^sup>*\<^sup>* k ?k8" using 1 2 3 4 5 6 by (meson rtranclp.rtrancl_into_rtrancl)
  show thesis
  proof (rule that [OF r])
    show "cf_flights ?k8 = []" "cf_recorded ?k8 = cf_recorded k" by (simp_all add: config_step_defs Let_def)
    show "log_numbers (cf_sched ?k8) = log_numbers (cf_sched k) @ [sch_rotation_count (cf_sched k) + 2, sch_rotation_count (cf_sched k) + 1]"
      using n by (simp add: config_step_defs Let_def)
    show "map re_old_count (sch_log (cf_sched ?k8)) =
       map re_old_count (sch_log (cf_sched k)) @ [sch_packet_count (cf_sched k), sch_packet_count (cf_sched k)]"
      using n by (simp add: config_step_defs Let_def)
  qed
qed

lemma recordings_reach: "(sched_step C)\<^sup>*\<^sup>* k ((cf_recording ^^ n) k)"
  by (induction n) (auto intro: rtranclp.rtrancl_into_rtrancl record_step)

lemma recordings_eq:
  "cf_flights k = [] \<Longrightarrow> cf_flights ((cf_recording ^^ n) k) = [] \<and> cf_recorded ((cf_recording ^^ n) k) = cf_recorded k + int n \<and>
     cf_sched ((cf_recording ^^ n) k) = cf_sched k\<lparr>sch_packet_count := sch_packet_count (cf_sched k) + int n\<rparr>"
  by (induction n) (simp_all add: cf_recording_def record_packet_def)

lemma overlap_from_start:
  obtains k where "(sched_step C)\<^sup>*\<^sup>* (config_init (scheduler_init max_age max_packets node now) e c) k" "cf_flights k = []"
    "cf_recorded k = int n" "log_numbers (cf_sched k) = [2, 1]" "map re_old_count (sch_log (cf_sched k)) = [int n, int n]"
proof -
  let ?k = "config_init (scheduler_init max_age max_packets node now) e c"
  have k: "cf_flights ?k = []" "cf_recorded ?k = 0" "cf_sched ?k = scheduler_init max_age max_packets node now"
    by (simp_all add: config_init_def)
  note eq = recordings_eq [OF k(1), of n]
  obtain k' where k': "(sched_step C)\<^sup>*\<^sup>* ((cf_recording ^^ n) ?k) k'" "cf_flights k' = []"
    "cf_recorded k' = cf_recorded ((cf_recording ^^ n) ?k)" "log_numbers (cf_sched k') = [2, 1]"
    "map re_old_count (sch_log (cf_sched k')) = [int n, int n]"
    using rotations_overlap [of "(cf_recording ^^ n) ?k" C] eq k by (auto simp: scheduler_init_def)
  show thesis
    by (rule that [of k']) (use k' eq k recordings_reach [of C ?k n] in \<open>auto\<close>)
qed


theorem rotation_log_accounts_witness:
  "\<exists>k :: unit config. (sched_step demo_pyca)\<^sup>*\<^sup>* (config_init (scheduler_init 300 10 ''car'' 0) (engine_init ''car'') ()) k \<and>
     cf_flights k = [] \<and> log_numbers (cf_sched k) = [2, 1] \<and> cf_recorded k = 3 \<and> 3 + sch_packet_count (cf_sched k) \<le> cf_twice k \<and> cf_overlaps k \<noteq> 0"
proof -
  obtain k :: "unit config" where
    k: "(sched_step demo_pyca)\<^sup>*\<^sup>* (config_init (scheduler_init 300 10 ''car'' 0) (engine_init ''car'') ()) k" "cf_flights k = []"
      "cf_recorded k = int 3" "log_numbers (cf_sched k) = [2, 1]" "map re_old_count (sch_log (cf_sched k)) = [int 3, int 3]"
    by (rule overlap_from_start)
  have "length (sch_log (cf_sched k)) = 2" using k(4) by (metis length_map list.size(3,4) Suc_1 One_nat_def plus_1_eq_Suc add.commute)
  then have "map int [1..<Suc (length (sch_log (cf_sched k)))] = [1, 2]" by (simp add: upt_rec)
  moreover have "logged_packets (cf_sched k) = 6" using k(5) by (simp add: logged_packets_def)
  ultimately have "cf_overlaps k \<noteq> 0" "3 + sch_packet_count (cf_sched k) \<le> cf_twice k"
    using rotation_log_accounts [OF k(1,2)] k(3,4) by auto
  with k show ?thesis by (intro exI [of _ k]) simp
qed

end
