(* ===== verification/CarProducer.thy ===== *)
theory CarProducer
  imports PacketBuilder Encryptor Signer KeyScheduler
begin

text \<open>
  \<open>car_producer/src/main.py\<close>: the car's pipeline of builder, signer and encryptor, its packet queue
  and transmitter, and its statistics. The crypto engine is one object held by the node, its
  encryptor and its scheduler, so it is one field of the state. Telemetry frames, clock readings,
  random values, the outcome of every connection attempt and the success of each write are arguments. The lemmas follow one frame through
  the pipeline, account for every frame in the statistics, and show what a key rotation does to
  the packets after it, and how a packet of the queue counts with and without a connection.
\<close>

section \<open>State\<close>

record car_stats =
  cs_built :: int
  cs_signed :: int
  cs_encrypted :: int
  cs_sent :: int
  cs_failed :: int
  cs_key_rotations :: int
  cs_start_time :: "string option"

text \<open>\<open>_socket\<close>: none, connected, or an object whose connection failed or was closed.\<close>

datatype relay_socket = NoSocket | OpenSocket | ClosedSocket

definition car_stats_init :: car_stats where
  "car_stats_init = \<lparr>cs_built = 0, cs_signed = 0, cs_encrypted = 0, cs_sent = 0, cs_failed = 0,
     cs_key_rotations = 0, cs_start_time = None\<rparr>"

record car =
  car_node_id :: string
  car_builder :: builder
  car_signer :: signer
  car_engine :: engine
  car_pub :: bytes
  car_scheduler :: "car_stats scheduler"
  car_encryptor :: "encryptor option"
  car_socket :: relay_socket
  car_max_retry :: int
  car_running :: bool
  car_queue :: "pydict list"
  car_queue_max :: int
  car_stats :: car_stats

text \<open>\<open>_on_key_rotation\<close>, the callback registered with the scheduler: it counts and logs.\<close>

definition on_key_rotation :: "car_stats callback" where
  "on_key_rotation ev pub st = (Inr (), st\<lparr>cs_key_rotations := cs_key_rotations st + 1\<rparr>)"

record car_config =
  cc_node_id :: string
  cc_team :: string
  cc_session :: string
  cc_max_age :: int
  cc_max_packets :: int
  cc_max_retry :: int
  cc_queue_max :: int

definition default_car_config :: car_config where
  "default_car_config = \<lparr>cc_node_id = ''mercedes_car'', cc_team = ''mercedes'', cc_session = ''R'',
     cc_max_age = 300, cc_max_packets = 10000, cc_max_retry = 3, cc_queue_max = 1000\<rparr>"

text \<open>The node: its signing key, its ephemeral key and the time of start are inputs.\<close>

definition car_init :: "pyca \<Rightarrow> bytes \<Rightarrow> bytes \<Rightarrow> clock \<Rightarrow> car_config \<Rightarrow> car res" where
  "car_init C sign_key eph_key now cfg =
     rbind (builder_init (cc_team cfg) (cc_session cfg) (Some (cc_node_id cfg))) (\<lambda>b.
       let (pub, e) = new_session C eph_key now (engine_init (cc_node_id cfg))
       in Inr \<lparr>car_node_id = cc_node_id cfg, car_builder = b,
               car_signer = signer_init (cc_node_id cfg) sign_key now,
               car_engine = e, car_pub = pub,
               car_scheduler = on_rotation on_key_rotation
                 (scheduler_init (cc_max_age cfg) (cc_max_packets cfg) (cc_node_id cfg) now),
               car_encryptor = None, car_socket = NoSocket, car_max_retry = cc_max_retry cfg, car_running = False,
               car_queue = [], car_queue_max = cc_queue_max cfg, car_stats = car_stats_init\<rparr>)"

section \<open>Handshake\<close>

text \<open>\<open>_simulate_handshake\<close>: the relay side is a second engine made for the occasion.\<close>

definition simulate_handshake :: "pyca \<Rightarrow> bytes \<Rightarrow> clock \<Rightarrow> car \<Rightarrow> unit res \<times> car \<times> engine" where
  "simulate_handshake C relay_key now c =
     (let (relay_pub, r) = new_session C relay_key now (engine_init ''relay_sim'')
      in case complete_handshake C now relay_pub None (car_engine c) of
           (Inl x, e) \<Rightarrow> (Inl x, c\<lparr>car_engine := e\<rparr>, r)
         | (Inr _, e) \<Rightarrow> (case complete_handshake C now (car_pub c) None r of
               (Inl x, r') \<Rightarrow> (Inl x, c\<lparr>car_engine := e\<rparr>, r')
             | (Inr _, r') \<Rightarrow>
                 (Inr (), c\<lparr>car_engine := e, car_encryptor := Some (encryptor_init (car_node_id c))\<rparr>, r')))"

section \<open>The pipeline\<close>

text \<open>What one frame reads from outside.\<close>

record frame_inputs =
  fi_frame :: "pydict res"
  fi_now :: clock
  fi_nonce :: bytes
  fi_signed_at :: string
  fi_encrypted_at :: string

definition count_built :: "car \<Rightarrow> car" where
  "count_built c = c\<lparr>car_stats := (car_stats c)\<lparr>cs_built := cs_built (car_stats c) + 1\<rparr>\<rparr>"

definition count_signed :: "car \<Rightarrow> car" where
  "count_signed c = c\<lparr>car_stats := (car_stats c)\<lparr>cs_signed := cs_signed (car_stats c) + 1\<rparr>\<rparr>"

definition count_encrypted :: "car \<Rightarrow> car" where
  "count_encrypted c = c\<lparr>car_stats := (car_stats c)\<lparr>cs_encrypted := cs_encrypted (car_stats c) + 1\<rparr>\<rparr>"

definition count_sent :: "car \<Rightarrow> car" where
  "count_sent c = c\<lparr>car_stats := (car_stats c)\<lparr>cs_sent := cs_sent (car_stats c) + 1\<rparr>\<rparr>"

definition count_failed :: "car \<Rightarrow> car" where
  "count_failed c = c\<lparr>car_stats := (car_stats c)\<lparr>cs_failed := cs_failed (car_stats c) + 1\<rparr>\<rparr>"

definition encrypt_stage :: "pyca \<Rightarrow> frame_inputs \<Rightarrow> pydict \<Rightarrow> car \<Rightarrow> pydict res \<times> car" where
  "encrypt_stage C i sp c =
     (case car_encryptor c of
        None \<Rightarrow> (Inl AttributeErr, c)
      | Some x \<Rightarrow> (case encrypt_packet C (fi_nonce i) (fi_encrypted_at i) sp (car_engine c) x of
            (r, e, x') \<Rightarrow> (r, c\<lparr>car_engine := e, car_encryptor := Some x'\<rparr>)))"

text \<open>\<open>_build_and_encrypt\<close>: every exception of a stage ends the frame as one failure.\<close>

definition build_and_encrypt :: "pyca \<Rightarrow> frame_inputs \<Rightarrow> car \<Rightarrow> pydict option \<times> car" where
  "build_and_encrypt C i c =
     (case fi_frame i of Inl _ \<Rightarrow> (None, count_failed c)
      | Inr frame \<Rightarrow> (case build (car_builder c) (fi_now i) frame of
          (Inl _, b) \<Rightarrow> (None, count_failed (c\<lparr>car_builder := b\<rparr>))
        | (Inr packet, b) \<Rightarrow>
            let c1 = count_built (c\<lparr>car_builder := b\<rparr>)
            in case sign_packet C (fi_signed_at i) packet (car_signer c1) of
              (Inl _, s) \<Rightarrow> (None, count_failed (c1\<lparr>car_signer := s\<rparr>))
            | (Inr sp, s) \<Rightarrow>
                let c2 = count_signed (c1\<lparr>car_signer := s\<rparr>)
                in case encrypt_stage C i sp c2 of
                  (Inl _, c3) \<Rightarrow> (None, count_failed c3)
                | (Inr encrypted, c3) \<Rightarrow>
                    let c4 = count_encrypted c3
                    in (Some encrypted, c4\<lparr>car_scheduler := record_packet (car_scheduler c4)\<rparr>)))"

section \<open>Queue and transmitter\<close>

text \<open>\<open>put_nowait\<close> on a bounded queue; a size that is not positive means no bound.\<close>

definition queue_put :: "pydict \<Rightarrow> car \<Rightarrow> car" where
  "queue_put p c =
     (if 0 < car_queue_max c \<and> car_queue_max c \<le> int (length (car_queue c)) then c
      else c\<lparr>car_queue := car_queue c @ [p]\<rparr>)"

text \<open>One pass of \<open>_producer_loop\<close>: an empty dict would not be queued, nor is a full queue extended.\<close>

definition producer_pass :: "pyca \<Rightarrow> frame_inputs \<Rightarrow> car \<Rightarrow> car" where
  "producer_pass C i c =
     (if \<not> car_running c then c
      else case build_and_encrypt C i c of
        (None, c') \<Rightarrow> c'
      | (Some p, c') \<Rightarrow> (if p = [] then c' else queue_put p c'))"

definition TRANSMIT_FIELDS :: "string list" where
  "TRANSMIT_FIELDS = [''nonce'', ''ciphertext'', ''header_hex'', ''signature'', ''sequence_no'',
     ''timestamp'', ''team'', ''session'', ''node_id'']"

fun take_fields :: "string list \<Rightarrow> pydict \<Rightarrow> pydict res" where
  "take_fields [] p = Inr []"
| "take_fields (k # ks) p =
     rbind (dict_item p k) (\<lambda>v. rbind (take_fields ks p) (\<lambda>vs. Inr ((k, v) # vs)))"

definition transmit_payload :: "pydict \<Rightarrow> bytes res" where
  "transmit_payload p = rbind (take_fields TRANSMIT_FIELDS p) (\<lambda>d. json_dumps_compact (PDict d))"

text \<open>The frame on the wire: four length bytes and the payload.\<close>

definition wire_frame :: "pydict \<Rightarrow> bytes res" where
  "wire_frame p = rbind (transmit_payload p) (\<lambda>b.
     if length b < 256 ^ 4 then Inr (be_bytes 4 (length b) @ b) else Inl OverflowErr)"

text \<open>\<open>_send_packet\<close>: what was written to the socket, if anything, and whether it was sent. A closed
  socket refuses the write like one that fails.\<close>

definition send_packet :: "bool \<Rightarrow> pydict \<Rightarrow> car \<Rightarrow> (bool \<times> bytes option) res" where
  "send_packet socket_ok p c =
     (if car_socket c = NoSocket then Inr (False, None)
      else rbind (wire_frame p) (\<lambda>f.
        Inr (if car_socket c = OpenSocket \<and> socket_ok then (True, Some f) else (False, None))))"

text \<open>One pass of \<open>_transmitter_loop\<close>: an exception drops the packet and counts nothing.\<close>

definition transmitter_pass :: "bool \<Rightarrow> car \<Rightarrow> car" where
  "transmitter_pass socket_ok c =
     (if \<not> car_running c then c
      else case car_queue c of
        [] \<Rightarrow> c
      | p # q \<Rightarrow>
          let c1 = c\<lparr>car_queue := q\<rparr>
          in if car_socket c1 \<noteq> NoSocket
             then case send_packet socket_ok p c1 of
                    Inl _ \<Rightarrow> c1
                  | Inr (sent, _) \<Rightarrow> (if sent then count_sent c1 else count_failed c1)
             else count_sent c1)"

section \<open>Lifecycle\<close>

text \<open>
  \<open>_connect_to_relay\<close>: the attempt with number \<open>n\<close> connects, or is refused on a socket that is then
  closed, or fails to make a socket at all, which closes the one before it.
\<close>

datatype connect_try = Connects | Refused | NoSocketMade

fun connect_tries :: "connect_try list \<Rightarrow> relay_socket \<Rightarrow> bool \<times> relay_socket" where
  "connect_tries [] k = (False, k)"
| "connect_tries (Connects # ts) k = (True, OpenSocket)"
| "connect_tries (Refused # ts) k = connect_tries ts ClosedSocket"
| "connect_tries (NoSocketMade # ts) k = connect_tries ts (if k = NoSocket then NoSocket else ClosedSocket)"

definition connect_to_relay :: "(nat \<Rightarrow> connect_try) \<Rightarrow> car \<Rightarrow> bool \<times> car" where
  "connect_to_relay attempt c =
     (let (ok, k) = connect_tries (map attempt [1..<Suc (nat (car_max_retry c))]) (car_socket c)
      in (ok, c\<lparr>car_socket := k\<rparr>))"

text \<open>\<open>start\<close>, told whether to connect: a failed connection is only logged.\<close>

definition car_start ::
  "pyca \<Rightarrow> bytes \<Rightarrow> clock \<Rightarrow> bool \<Rightarrow> (nat \<Rightarrow> connect_try) \<Rightarrow> string \<Rightarrow> car \<Rightarrow> unit res \<times> car" where
  "car_start C relay_key now connect attempt stamp c =
     (case simulate_handshake C relay_key now c of
        (Inl x, c', _) \<Rightarrow> (Inl x, c')
      | (Inr _, c', _) \<Rightarrow>
          let c2 = (if connect then snd (connect_to_relay attempt c') else c')
          in (Inr (), c2\<lparr>car_scheduler := sched_start (car_scheduler c2), car_running := True,
                   car_stats := (car_stats c2)\<lparr>cs_start_time := Some stamp\<rparr>\<rparr>))"

definition car_stop :: "car \<Rightarrow> car" where
  "car_stop c = c\<lparr>car_running := False, car_scheduler := sched_stop (car_scheduler c),
     car_socket := (if car_socket c = NoSocket then NoSocket else ClosedSocket)\<rparr>"

text \<open>A rotation by the scheduler's thread, with the engine and the callback of this node.\<close>

definition car_rotate :: "pyca \<Rightarrow> rotation_inputs \<Rightarrow> rotation_reason \<Rightarrow> car \<Rightarrow> car" where
  "car_rotate C i reason c =
     (case do_rotation C i reason (car_scheduler c) (car_engine c) (car_stats c) of
        (s, e, st) \<Rightarrow> c\<lparr>car_scheduler := s, car_engine := e, car_stats := st\<rparr>)"

fun process_frames :: "pyca \<Rightarrow> frame_inputs list \<Rightarrow> car \<Rightarrow> pydict option list \<times> car" where
  "process_frames C [] c = ([], c)"
| "process_frames C (i # is) c =
     (let (r, c1) = build_and_encrypt C i c; (rs, c2) = process_frames C is c1 in (r # rs, c2))"

text \<open>\<open>run_simulation\<close>: a handshake when there is no encryptor yet, then the frames.\<close>

definition run_simulation ::
  "pyca \<Rightarrow> bytes \<Rightarrow> clock \<Rightarrow> frame_inputs list \<Rightarrow> car \<Rightarrow> car_stats res \<times> car" where
  "run_simulation C relay_key now is c =
     (case (if car_encryptor c = None
            then (case simulate_handshake C relay_key now c of (r, c', _) \<Rightarrow> (r, c'))
            else (Inr (), c)) of
        (Inl x, c1) \<Rightarrow> (Inl x, c1)
      | (Inr _, c1) \<Rightarrow>
          let c2 = snd (process_frames C is c1);
              c3 = c2\<lparr>car_stats := (car_stats c2)\<lparr>cs_key_rotations := sch_rotation_count (car_scheduler c2)\<rparr>\<rparr>
          in (Inr (car_stats c3), c3))"

section \<open>One frame through the pipeline\<close>

lemma count_simps [simp]:
  "car_engine (count_built c) = car_engine c" "car_engine (count_signed c) = car_engine c"
  "car_engine (count_encrypted c) = car_engine c" "car_engine (count_failed c) = car_engine c"
  "car_builder (count_built c) = car_builder c" "car_builder (count_signed c) = car_builder c"
  "car_builder (count_encrypted c) = car_builder c" "car_builder (count_failed c) = car_builder c"
  "car_signer (count_built c) = car_signer c" "car_signer (count_signed c) = car_signer c"
  "car_signer (count_encrypted c) = car_signer c" "car_signer (count_failed c) = car_signer c"
  "car_encryptor (count_built c) = car_encryptor c" "car_encryptor (count_signed c) = car_encryptor c"
  "car_encryptor (count_encrypted c) = car_encryptor c" "car_encryptor (count_failed c) = car_encryptor c"
  "car_scheduler (count_built c) = car_scheduler c" "car_scheduler (count_signed c) = car_scheduler c"
  "car_scheduler (count_encrypted c) = car_scheduler c" "car_scheduler (count_failed c) = car_scheduler c"
  by (simp_all add: count_built_def count_signed_def count_encrypted_def count_failed_def)

lemma stats_count [simp]:
  "car_stats (count_built c) = (car_stats c)\<lparr>cs_built := cs_built (car_stats c) + 1\<rparr>"
  "car_stats (count_signed c) = (car_stats c)\<lparr>cs_signed := cs_signed (car_stats c) + 1\<rparr>"
  "car_stats (count_encrypted c) = (car_stats c)\<lparr>cs_encrypted := cs_encrypted (car_stats c) + 1\<rparr>"
  "car_stats (count_sent c) = (car_stats c)\<lparr>cs_sent := cs_sent (car_stats c) + 1\<rparr>"
  "car_stats (count_failed c) = (car_stats c)\<lparr>cs_failed := cs_failed (car_stats c) + 1\<rparr>"
  by (simp_all add: count_built_def count_signed_def count_encrypted_def count_sent_def count_failed_def)

lemma encrypt_stage_frame:
  assumes "encrypt_stage C i sp c = (r, c')"
  shows "car_stats c' = car_stats c" and "car_builder c' = car_builder c" and "car_signer c' = car_signer c"
    and "car_scheduler c' = car_scheduler c"
  using assms by (auto simp: encrypt_stage_def split: option.splits prod.splits)

text \<open>How a frame counts: once, as encrypted or as failed, after the stages it went through.\<close>

lemma build_and_encrypt_stats:
  assumes "build_and_encrypt C i c = (r, c')"
  shows "cs_encrypted (car_stats c') = cs_encrypted (car_stats c) + (if r = None then 0 else 1)"
    and "cs_failed (car_stats c') = cs_failed (car_stats c) + (if r = None then 1 else 0)"
    and "cs_built (car_stats c') - cs_signed (car_stats c') \<ge> cs_built (car_stats c) - cs_signed (car_stats c)"
    and "cs_signed (car_stats c') - cs_encrypted (car_stats c') \<ge> cs_signed (car_stats c) - cs_encrypted (car_stats c)"
    and "sch_packet_count (car_scheduler c') = sch_packet_count (car_scheduler c) + (if r = None then 0 else 1)"
  using assms
  by (auto simp: build_and_encrypt_def Let_def record_packet_def dest: encrypt_stage_frame
      split: sum.splits prod.splits)

text \<open>The packet a successful frame yields.\<close>

lemma build_and_encrypt_SomeE:
  assumes "build_and_encrypt C i c = (Some d, c')"
  obtains frame packet b sp s e x x' e' where
    "fi_frame i = Inr frame" "build (car_builder c) (fi_now i) frame = (Inr packet, b)"
    "sign_packet C (fi_signed_at i) packet (car_signer c) = (Inr sp, s)"
    "car_encryptor c = Some x"
    "encrypt_packet C (fi_nonce i) (fi_encrypted_at i) sp (car_engine c) x = (Inr d, e', x')"
    "car_engine c' = e'" "car_builder c' = b" "car_signer c' = s" "car_encryptor c' = Some x'"
  using assms
  by (auto simp: build_and_encrypt_def encrypt_stage_def Let_def count_built_def count_signed_def
      split: sum.splits prod.splits option.splits)

section \<open>The promises of the car\<close>

lemma process_frames_cons:
  "process_frames C (i # is) c =
    (fst (build_and_encrypt C i c) # fst (process_frames C is (snd (build_and_encrypt C i c))),
     snd (process_frames C is (snd (build_and_encrypt C i c))))"
  by (simp add: split_beta)

text \<open>The car's statistics account for every frame: over any run of the pipeline each frame counts
  once, as encrypted when it yields a packet and as failed when it does not; the scheduler has
  counted as many packets as were produced; and no stage ever counts more than the stage before it.\<close>

theorem car_accounts:
  assumes "process_frames C is c = (rs, c')"
    and "cs_encrypted (car_stats c) \<le> cs_signed (car_stats c)" and "cs_signed (car_stats c) \<le> cs_built (car_stats c)"
  shows "length rs = length is \<and>
    cs_encrypted (car_stats c') = cs_encrypted (car_stats c) + int (length (filter (\<lambda>r. r \<noteq> None) rs)) \<and>
    cs_failed (car_stats c') = cs_failed (car_stats c) + int (length (filter (\<lambda>r. r = None) rs)) \<and>
    sch_packet_count (car_scheduler c') = sch_packet_count (car_scheduler c) + int (length (filter (\<lambda>r. r \<noteq> None) rs)) \<and>
    cs_encrypted (car_stats c') \<le> cs_signed (car_stats c') \<and> cs_signed (car_stats c') \<le> cs_built (car_stats c')"
  using assms
proof (induction "is" arbitrary: c rs c')
  case (Cons i "is")
  obtain r c1 where b: "build_and_encrypt C i c = (r, c1)" by fastforce
  obtain rs1 c2 where p: "process_frames C is c1 = (rs1, c2)" by fastforce
  have eq: "rs = r # rs1" "c' = c2" using Cons.prems(1) b p by auto
  note st = build_and_encrypt_stats [OF b]
  have "cs_encrypted (car_stats c1) \<le> cs_signed (car_stats c1)" "cs_signed (car_stats c1) \<le> cs_built (car_stats c1)"
    using st Cons.prems(2,3) by linarith+
  from Cons.IH [OF p this] st show ?case unfolding eq by auto
qed simp

text \<open>An unestablished engine seals nothing.\<close>

lemma encrypt_stage_unestablished:
  assumes "\<not> session_established (car_engine c)"
  shows "is_err (fst (encrypt_stage C i sp c))" and "car_engine (snd (encrypt_stage C i sp c)) = car_engine c"
  using assms by (auto simp: encrypt_stage_def encrypt_packet_no_session split: option.split)

lemma encrypt_stage_engine:
  "encrypt_stage C i sp c = (r, c') \<Longrightarrow> \<not> session_established (car_engine c) \<Longrightarrow> car_engine c' = car_engine c"
  using encrypt_stage_unestablished(2) [of c C i sp] by simp

lemma build_and_encrypt_unestablished:
  assumes "\<not> session_established (car_engine c)"
  shows "fst (build_and_encrypt C i c) = None \<and> car_engine (snd (build_and_encrypt C i c)) = car_engine c"
proof -
  obtain r c' where b: "build_and_encrypt C i c = (r, c')" by fastforce
  have "r = None"
  proof (rule ccontr)
    assume "r \<noteq> None"
    then obtain d where "build_and_encrypt C i c = (Some d, c')" using b by auto
    then show False by (rule build_and_encrypt_SomeE) (simp add: encrypt_packet_no_session [OF assms])
  qed
  moreover have "car_engine c' = car_engine c"
    using b assms
    by (auto simp: build_and_encrypt_def Let_def dest: encrypt_stage_engine split: sum.splits prod.splits)
  ultimately show ?thesis using b by simp
qed

lemma process_frames_unestablished:
  "\<not> session_established (car_engine c) \<Longrightarrow>
   set (fst (process_frames C is c)) \<subseteq> {None} \<and> car_engine (snd (process_frames C is c)) = car_engine c"
proof (induction "is" arbitrary: c)
  case (Cons i "is")
  note b = build_and_encrypt_unestablished [OF Cons.prems, of C i]
  then have "\<not> session_established (car_engine (snd (build_and_encrypt C i c)))" using Cons.prems by simp
  from Cons.IH [OF this] b show ?case unfolding process_frames_cons by simp
qed simp

text \<open>C36. After a key rotation the car produces nothing more: the rotation replaces the session by one
  without a key, the rotation callback does not make a new handshake, and every frame after it ends
  as a failure, whatever it holds.\<close>

theorem rotation_stops_the_car:
  shows "set (fst (process_frames C is (car_rotate C i reason c))) \<subseteq> {None} \<and>
    cs_encrypted (car_stats (snd (process_frames C is (car_rotate C i reason c)))) =
      cs_encrypted (car_stats (car_rotate C i reason c)) \<and>
    cs_failed (car_stats (snd (process_frames C is (car_rotate C i reason c)))) =
      cs_failed (car_stats (car_rotate C i reason c)) + int (length is)"
proof -
  let ?c = "car_rotate C i reason c"
  have ne: "\<not> session_established (car_engine ?c)"
    using do_rotation_unestablished [of C i reason "car_scheduler c" "car_engine c" "car_stats c"]
    by (cases "do_rotation C i reason (car_scheduler c) (car_engine c) (car_stats c)") (simp add: car_rotate_def)
  have "cs_encrypted (car_stats (snd (process_frames C is c))) = cs_encrypted (car_stats c) \<and>
      cs_failed (car_stats (snd (process_frames C is c))) = cs_failed (car_stats c) + int (length is)"
    if "\<not> session_established (car_engine c)" for c
    using that
  proof (induction "is" arbitrary: c)
    case (Cons j "is")
    obtain r c1 where b: "build_and_encrypt C j c = (r, c1)" by fastforce
    have "r = None" "\<not> session_established (car_engine c1)"
      using build_and_encrypt_unestablished [OF Cons.prems, of C j] b Cons.prems by simp_all
    with Cons.IH [of c1] build_and_encrypt_stats [OF b] b show ?case by (simp add: split_beta)
  qed simp
  with ne process_frames_unestablished [OF ne, of C "is"] show ?thesis by blast
qed

text \<open>How the transmitter empties the queue.\<close>

lemma transmitter_pass_pops:
  assumes "car_running c" and "car_queue c = p # q"
  shows "car_queue (transmitter_pass ok c) = q" and "car_running (transmitter_pass ok c)"
    and "car_socket (transmitter_pass ok c) = car_socket c"
    and "cs_sent (car_stats (transmitter_pass ok c)) = cs_sent (car_stats c) +
      (if car_socket c = NoSocket \<or> car_socket c = OpenSocket \<and> ok \<and> \<not> is_err (wire_frame p) then 1 else 0)"
    and "cs_failed (car_stats (transmitter_pass ok c)) = cs_failed (car_stats c) +
      (if car_socket c \<noteq> NoSocket \<and> \<not> (car_socket c = OpenSocket \<and> ok) \<and> \<not> is_err (wire_frame p) then 1 else 0)"
  using assms
  by (auto simp: transmitter_pass_def send_packet_def count_sent_def count_failed_def Let_def rbind_def split: sum.splits)

text \<open>The packets of a queue that the socket takes, and those it does not, of the packets that can be framed.\<close>

definition taken :: "relay_socket \<Rightarrow> bool list \<Rightarrow> pydict list \<Rightarrow> (bool \<times> pydict) list" where
  "taken k oks ps = filter (\<lambda>(ok, p). k = OpenSocket \<and> ok \<and> \<not> is_err (wire_frame p)) (zip oks ps)"

definition not_taken :: "relay_socket \<Rightarrow> bool list \<Rightarrow> pydict list \<Rightarrow> (bool \<times> pydict) list" where
  "not_taken k oks ps = filter (\<lambda>(ok, p). \<not> (k = OpenSocket \<and> ok) \<and> \<not> is_err (wire_frame p)) (zip oks ps)"

lemma transmitter_passes:
  assumes "car_running c" and "length oks = length (car_queue c)"
  shows "car_queue (fold transmitter_pass oks c) = [] \<and> car_running (fold transmitter_pass oks c) \<and>
    car_socket (fold transmitter_pass oks c) = car_socket c \<and>
    cs_sent (car_stats (fold transmitter_pass oks c)) = cs_sent (car_stats c) +
      int (if car_socket c = NoSocket then length (car_queue c) else length (taken (car_socket c) oks (car_queue c))) \<and>
    cs_failed (car_stats (fold transmitter_pass oks c)) = cs_failed (car_stats c) +
      int (if car_socket c = NoSocket then 0 else length (not_taken (car_socket c) oks (car_queue c)))"
  using assms
proof (induction oks arbitrary: c)
  case (Cons ok oks)
  then obtain p q where q: "car_queue c = p # q" by (cases "car_queue c") auto
  note st = transmitter_pass_pops [OF Cons.prems(1) q, of ok]
  have "length oks = length (car_queue (transmitter_pass ok c))" using Cons.prems(2) st(1) q by simp
  from Cons.IH [OF st(2) this] st q show ?case by (auto simp: taken_def not_taken_def)
qed (simp add: taken_def not_taken_def)

lemma connect_tries_refused:
  "set ts \<subseteq> {Refused} \<Longrightarrow> connect_tries ts k = (False, if ts = [] then k else ClosedSocket)"
  by (induction ts arbitrary: k) auto

lemma simulate_handshake_keeps:
  "simulate_handshake C relay_key now c = (r, c', e) \<Longrightarrow> car_socket c' = car_socket c \<and> car_queue c' = car_queue c \<and>
     car_max_retry c' = car_max_retry c \<and> car_stats c' = car_stats c"
  by (auto simp: simulate_handshake_def split: prod.splits sum.splits)

definition sample_car :: car where
  "sample_car = \<lparr>car_node_id = ''mercedes_car_44'', car_builder = sample_builder, car_signer = signer_init ''mercedes_car_44'' [5] 0,
     car_engine = sample_engine, car_pub = [], car_scheduler = on_rotation on_key_rotation (scheduler_init 300 10000 ''mercedes_car_44'' 0),
     car_encryptor = Some (encryptor_init ''mercedes_car_44''), car_socket = OpenSocket, car_max_retry = 3, car_running = True,
     car_queue = [], car_queue_max = 2, car_stats = car_stats_init\<rparr>"

definition sample_frame :: frame_inputs where
  "sample_frame = \<lparr>fi_frame = Inr [], fi_now = 1000, fi_nonce = replicate 12 1, fi_signed_at = [], fi_encrypted_at = []\<rparr>"

theorem car_accounts_witness:
  "\<exists>rs c'. process_frames demo_pyca [sample_frame, sample_frame\<lparr>fi_frame := Inl ValueErr\<rparr>] sample_car = (rs, c') \<and>
     length rs = 2 \<and> cs_encrypted (car_stats c') + cs_failed (car_stats c') = 2"
proof -
  obtain rs c' where p: "process_frames demo_pyca [sample_frame, sample_frame\<lparr>fi_frame := Inl ValueErr\<rparr>] sample_car = (rs, c')"
    by fastforce
  have z: "car_stats sample_car = car_stats_init" by (simp add: sample_car_def)
  have "length (filter (\<lambda>r. r \<noteq> None) rs) + length (filter (\<lambda>r. r = None) rs) = length rs"
    using sum_length_filter_compl [of "\<lambda>r. r \<noteq> None" rs] by simp
  with car_accounts [OF p] p show ?thesis by (simp add: z car_stats_init_def del: process_frames.simps)
qed

text \<open>C33. Every queued packet leaves the queue, and how it counts is exact: a running transmitter empties a
  queue of \<open>n\<close> packets in \<open>n\<close> passes that nothing is added to. Without a socket all \<open>n\<close> count as sent.
  With one, those count as sent that can be framed and that the open socket takes, those as failed that
  can be framed and are not taken, and a packet that cannot be framed is counted nowhere.\<close>

theorem transmitter_drains:
  assumes "car_running c" and "length oks = length (car_queue c)"
  shows "car_queue (fold transmitter_pass oks c) = [] \<and> car_running (fold transmitter_pass oks c) \<and>
    (car_socket c = NoSocket \<longrightarrow>
      cs_sent (car_stats (fold transmitter_pass oks c)) = cs_sent (car_stats c) + int (length (car_queue c)) \<and>
      cs_failed (car_stats (fold transmitter_pass oks c)) = cs_failed (car_stats c)) \<and>
    (car_socket c \<noteq> NoSocket \<longrightarrow>
      cs_sent (car_stats (fold transmitter_pass oks c)) = cs_sent (car_stats c) +
        int (length (filter (\<lambda>(ok, p). car_socket c = OpenSocket \<and> ok \<and> \<not> is_err (wire_frame p)) (zip oks (car_queue c)))) \<and>
      cs_failed (car_stats (fold transmitter_pass oks c)) = cs_failed (car_stats c) +
        int (length (filter (\<lambda>(ok, p). \<not> (car_socket c = OpenSocket \<and> ok) \<and> \<not> is_err (wire_frame p)) (zip oks (car_queue c)))))"
  using transmitter_passes [OF assms] by (simp add: taken_def not_taken_def)

theorem transmitter_drains_witness:
  "car_queue (fold transmitter_pass [True, False] (sample_car\<lparr>car_queue := [[], []], car_socket := NoSocket\<rparr>)) = [] \<and>
   cs_sent (car_stats (fold transmitter_pass [True, False] (sample_car\<lparr>car_queue := [[], []], car_socket := NoSocket\<rparr>))) = 2"
  using transmitter_drains [of "sample_car\<lparr>car_queue := [[], []], car_socket := NoSocket\<rparr>" "[True, False]"]
  by (simp add: sample_car_def car_stats_init_def del: fold.simps fold_simps)

text \<open>C40. A refused connection is not simulation mode: when the node is started with every connection
  attempt refused, it runs, but the socket of the last attempt stays behind, closed, and from then on no
  packet counts as sent and every packet that can be framed counts as failed; started without
  connecting, the same node counts every packet as sent.\<close>

theorem refused_connection_fails_packets:
  assumes "car_start C relay_key now True attempt stamp c = (Inr (), c1)"
    and "car_start C relay_key now False attempt stamp c = (Inr (), c2)"
    and "car_socket c = NoSocket" and "0 < car_max_retry c"
    and "\<And>n. 1 \<le> n \<Longrightarrow> int n \<le> car_max_retry c \<Longrightarrow> attempt n = Refused"
    and "length oks = length q"
  shows "car_socket c1 = ClosedSocket \<and>
    cs_sent (car_stats (fold transmitter_pass oks (c1\<lparr>car_queue := q\<rparr>))) = cs_sent (car_stats c) \<and>
    cs_failed (car_stats (fold transmitter_pass oks (c1\<lparr>car_queue := q\<rparr>))) =
      cs_failed (car_stats c) + int (length (filter (\<lambda>p. \<not> is_err (wire_frame p)) q)) \<and>
    cs_sent (car_stats (fold transmitter_pass oks (c2\<lparr>car_queue := q\<rparr>))) = cs_sent (car_stats c) + int (length q) \<and>
    cs_failed (car_stats (fold transmitter_pass oks (c2\<lparr>car_queue := q\<rparr>))) = cs_failed (car_stats c)"
proof -
  have "set (map attempt [1..<Suc (nat (car_max_retry c))]) \<subseteq> {Refused}" using assms(4,5) by auto
  from connect_tries_refused [OF this, of NoSocket] assms(4)
  have t: "connect_tries (map attempt [1..<Suc (nat (car_max_retry c))]) NoSocket = (False, ClosedSocket)"
    by (simp del: upt_Suc)
  obtain c' e where h: "simulate_handshake C relay_key now c = (Inr (), c', e)"
    using assms(1) by (auto simp: car_start_def split: prod.splits sum.splits)
  note kp = simulate_handshake_keeps [OF h]
  have c1: "car_socket c1 = ClosedSocket" "car_running c1" "cs_sent (car_stats c1) = cs_sent (car_stats c)"
    "cs_failed (car_stats c1) = cs_failed (car_stats c)"
    using assms(1,3) h kp t by (auto simp: car_start_def connect_to_relay_def Let_def simp del: upt_Suc)
  have c2: "car_socket c2 = NoSocket" "car_running c2" "cs_sent (car_stats c2) = cs_sent (car_stats c)"
    "cs_failed (car_stats c2) = cs_failed (car_stats c)"
    using assms(2,3) h kp by (auto simp: car_start_def Let_def)
  have "length (not_taken ClosedSocket oks q) = length (filter (\<lambda>p. \<not> is_err (wire_frame p)) q)"
    using assms(6) by (induction oks q rule: list_induct2) (simp_all add: not_taken_def)
  then show ?thesis
    using transmitter_passes [of "c1\<lparr>car_queue := q\<rparr>" oks] transmitter_passes [of "c2\<lparr>car_queue := q\<rparr>" oks] c1 c2 assms(6)
    by (simp add: taken_def)
qed

theorem refused_connection_fails_packets_witness:
  "\<exists>c1. car_start demo_pyca (replicate 32 9) 5 True (\<lambda>n. Refused) [] (sample_car\<lparr>car_socket := NoSocket, car_pub := replicate 32 1\<rparr>) = (Inr (), c1) \<and>
     car_socket c1 = ClosedSocket \<and>
     cs_sent (car_stats (fold transmitter_pass [True, True] (c1\<lparr>car_queue := [[], []]\<rparr>))) = 0"
proof -
  let ?c = "sample_car\<lparr>car_socket := NoSocket, car_pub := replicate 32 1\<rparr>"
  obtain c' e where h: "simulate_handshake demo_pyca (replicate 32 9) 5 ?c = (Inr (), c', e)"
    by (simp add: simulate_handshake_def complete_handshake_def new_session_def derive_shared_secret_def session_init_def
        session_public_def demo_pyca_def sample_car_def sample_engine_def Let_def)
  obtain c1 where c1: "car_start demo_pyca (replicate 32 9) 5 True (\<lambda>n. Refused) [] ?c = (Inr (), c1)"
    using h by (simp add: car_start_def Let_def)
  obtain c2 where c2: "car_start demo_pyca (replicate 32 9) 5 False (\<lambda>n. Refused) [] ?c = (Inr (), c2)"
    using h by (simp add: car_start_def Let_def)
  show ?thesis
    using refused_connection_fails_packets [OF c1 c2, of "[True, True]" "[[], []]"] c1
    by (simp add: sample_car_def car_stats_init_def del: fold.simps fold_simps)
qed

end
