(* ===== verification/PacketParser.thy ===== *)
theory PacketParser
  imports PacketBuilder
begin

text \<open>
  \<open>relay-node/src/packet_parser.py\<close>: the first stage of the relay. \<open>parse\<close> reads the binary form of
  a packet and collects the structural errors it finds; \<open>parse_json_packet\<close> reads the JSON form a
  car sends over the network, and \<open>validate_json_packet\<close> lists what is wrong with it. The lemmas
  characterise when a binary packet is valid, account for every call in the counters, and show
  what a parsed JSON packet is known to contain.
\<close>

section \<open>State and results\<close>

record parser =
  par_node_id :: string
  par_parsed :: int
  par_rejected :: int

definition parser_init :: "string \<Rightarrow> parser" where
  "parser_init node = \<lparr>par_node_id = node, par_parsed = 0, par_rejected = 0\<rparr>"

datatype parse_error =
    UnsupportedVersion int | UnsupportedType int | UnknownTeamId int | UnknownSessionId int
  | LengthMismatch nat int | ChecksumMismatch | ZeroSequence | ZeroTimestamp

record parsed =
  pp_raw :: bytes
  pp_header :: bytes
  pp_payload :: bytes
  pp_magic :: string
  pp_version :: int
  pp_team :: "string option"
  pp_session :: "string option"
  pp_packet_type :: int
  pp_sequence_no :: int
  pp_timestamp_ms :: int
  pp_payload_len :: int
  pp_checksum :: string
  pp_checksum_valid :: bool
  pp_is_valid :: bool
  pp_errors :: "parse_error list"

definition SUPPORTED_VERSIONS :: "int list" where "SUPPORTED_VERSIONS = [1]"
definition SUPPORTED_PACKET_TYPES :: "int list" where "SUPPORTED_PACKET_TYPES = [1]"

section \<open>The binary form\<close>

definition count_rejected :: "parser \<Rightarrow> parser" where
  "count_rejected p = p\<lparr>par_rejected := par_rejected p + 1\<rparr>"

definition count_parsed :: "parser \<Rightarrow> parser" where
  "count_parsed p = p\<lparr>par_parsed := par_parsed p + 1\<rparr>"

definition parse_errors_of :: "header \<Rightarrow> bytes \<Rightarrow> parse_error list" where
  "parse_errors_of h payload =
     (if h_version h \<notin> set SUPPORTED_VERSIONS then [UnsupportedVersion (h_version h)] else []) @
     (if h_packet_type h \<notin> set SUPPORTED_PACKET_TYPES then [UnsupportedType (h_packet_type h)] else []) @
     (if key_with_value TEAM_IDS (h_team_id h) = None then [UnknownTeamId (h_team_id h)] else []) @
     (if key_with_value SESSION_IDS (h_session_id h) = None then [UnknownSessionId (h_session_id h)] else []) @
     (if int (length payload) \<noteq> h_payload_len h then [LengthMismatch (length payload) (h_payload_len h)] else []) @
     (if sha256 payload \<noteq> h_checksum h then [ChecksumMismatch] else []) @
     (if h_sequence_no h = 0 then [ZeroSequence] else []) @
     (if h_timestamp_ms h = 0 then [ZeroTimestamp] else [])"

definition parse :: "parser \<Rightarrow> bytes \<Rightarrow> parsed res \<times> parser" where
  "parse p raw =
     (if length raw < HEADER_SIZE
      then (Inl (PacketParseError (PacketTooShort (length raw))), count_rejected p)
      else case struct_unpack (take HEADER_SIZE raw) of
        Inl e \<Rightarrow> (Inl (PacketParseError (PacketTooShort (length raw))), count_rejected p)
      | Inr h \<Rightarrow>
          if h_magic h \<noteq> MAGIC
          then (Inl (PacketParseError (InvalidMagic (nat (h_magic h)))), count_rejected p)
          else
            let payload = payload_slice raw (h_payload_len h);
                errors = parse_errors_of h payload;
                valid = (errors = [])
            in (Inr \<lparr>pp_raw = raw, pp_header = take HEADER_SIZE raw, pp_payload = payload,
                     pp_magic = py_hex (h_magic h), pp_version = h_version h,
                     pp_team = key_with_value TEAM_IDS (h_team_id h),
                     pp_session = key_with_value SESSION_IDS (h_session_id h),
                     pp_packet_type = h_packet_type h, pp_sequence_no = h_sequence_no h,
                     pp_timestamp_ms = h_timestamp_ms h, pp_payload_len = h_payload_len h,
                     pp_checksum = to_hex (h_checksum h),
                     pp_checksum_valid = (sha256 payload = h_checksum h),
                     pp_is_valid = valid, pp_errors = errors\<rparr>,
                if valid then count_parsed p else count_rejected p))"

section \<open>The JSON form\<close>

definition REQUIRED_FIELDS :: "string list" where
  "REQUIRED_FIELDS =
     [''nonce'', ''ciphertext'', ''header_hex'', ''signature'', ''sequence_no'', ''timestamp'',
      ''team'', ''session'', ''node_id'']"

text \<open>\<open>[f for f in required if f not in data]\<close>\<close>

fun missing_fields :: "pyval \<Rightarrow> string list \<Rightarrow> string list res" where
  "missing_fields data [] = Inr []"
| "missing_fields data (f # fs) =
     rbind (py_in f data) (\<lambda>here. rbind (missing_fields data fs) (\<lambda>ms.
       Inr (if here then ms else f # ms)))"

text \<open>\<open>data[dst] = bytes.fromhex(data[src])\<close>\<close>

definition convert_hex :: "string \<Rightarrow> string \<Rightarrow> pyval \<Rightarrow> pyval res" where
  "convert_hex dst src data =
     rbind (py_item data src) (\<lambda>v. rbind (py_fromhex v) (\<lambda>b.
       case data of PDict d \<Rightarrow> Inr (PDict (dict_set dst (PBytes b) d)) | _ \<Rightarrow> Inl TypeErr))"

definition as_dict :: "pyval \<Rightarrow> pydict res" where
  "as_dict v = (case v of PDict d \<Rightarrow> Inr d | _ \<Rightarrow> Inl TypeErr)"

definition read_json_packet :: "bytes \<Rightarrow> pydict res" where
  "read_json_packet raw =
     (case json_loads raw of
        Inl JSONDecodeErr \<Rightarrow> Inl (PacketParseError InvalidJson)
      | Inl UnicodeDecodeErr \<Rightarrow> Inl (PacketParseError InvalidJson)
      | Inl e \<Rightarrow> Inl e
      | Inr data \<Rightarrow>
          rbind (missing_fields data REQUIRED_FIELDS) (\<lambda>missing.
            if missing \<noteq> [] then Inl (PacketParseError (MissingFields missing))
            else
              rbind (convert_hex ''nonce_bytes'' ''nonce'' data) (\<lambda>d1.
              rbind (convert_hex ''ciphertext_bytes'' ''ciphertext'' d1) (\<lambda>d2.
              rbind (convert_hex ''header'' ''header_hex'' d2) (\<lambda>d3. as_dict d3)))))"

definition parse_json_packet :: "parser \<Rightarrow> bytes \<Rightarrow> pydict res \<times> parser" where
  "parse_json_packet p raw =
     (case read_json_packet raw of
        Inl e \<Rightarrow> (Inl e, p)
      | Inr d \<Rightarrow> (Inr d, count_parsed p))"

datatype json_error =
    UnknownTeam pyval | UnknownSession pyval | InvalidSequence pyval | InvalidNonceSize int
  | MissingNodeIdField

definition py_in_strs :: "pyval \<Rightarrow> string list \<Rightarrow> bool" where
  "py_in_strs v ss = (\<exists>s\<in>set ss. v = PStr s)"

definition bad_sequence :: "pyval \<Rightarrow> bool" where
  "bad_sequence v = (case int_of v of Some n \<Rightarrow> n \<le> 0 | None \<Rightarrow> True)"

definition validate_json_packet :: "pydict \<Rightarrow> json_error list res" where
  "validate_json_packet pkt =
     (let team = dict_get pkt ''team''; session = dict_get pkt ''session'';
          seq = dict_get_or pkt ''sequence_no'' (PInt 0);
          nonce = dict_get_or pkt ''nonce_bytes'' (PBytes [])
      in rbind (py_len nonce) (\<lambda>n. Inr (
        (if \<not> py_in_strs team [''mercedes'', ''redbull''] then [UnknownTeam team] else []) @
        (if \<not> py_in_strs session [''R'', ''Q'', ''S''] then [UnknownSession session] else []) @
        (if bad_sequence seq then [InvalidSequence seq] else []) @
        (if n \<noteq> 12 then [InvalidNonceSize n] else []) @
        (if \<not> truthy (dict_get pkt ''node_id'') then [MissingNodeIdField] else []))))"

section \<open>Properties\<close>

lemma parse_never_unpack_error:
  "HEADER_SIZE \<le> length raw \<Longrightarrow> \<exists>h. struct_unpack (take HEADER_SIZE raw) = Inr h"
  by (metis length_take min.absorb2 struct_pack_unpack)

text \<open>Every call of \<open>parse\<close> counts exactly once, as parsed when the packet is valid.\<close>

lemma parse_counts:
  assumes "parse p raw = (r, p')"
  shows "par_parsed p' + par_rejected p' = par_parsed p + par_rejected p + 1"
    and "par_parsed p' = par_parsed p + (case r of Inr x \<Rightarrow> if pp_is_valid x then 1 else 0 | Inl _ \<Rightarrow> 0)"
  using assms
  by (auto simp: parse_def count_parsed_def count_rejected_def Let_def split: if_splits sum.splits)

lemma parse_errors_of_Nil:
  "parse_errors_of h payload = [] \<longleftrightarrow>
     h_version h = 1 \<and> h_packet_type h = 1 \<and> h_team_id h \<in> snd ` set TEAM_IDS \<and>
     h_session_id h \<in> snd ` set SESSION_IDS \<and> int (length payload) = h_payload_len h \<and>
     sha256 payload = h_checksum h \<and> h_sequence_no h \<noteq> 0 \<and> h_timestamp_ms h \<noteq> 0"
  by (auto simp: parse_errors_of_def SUPPORTED_VERSIONS_def SUPPORTED_PACKET_TYPES_def
      key_with_value_None)

text \<open>What is known of a packet that \<open>parse_json_packet\<close> returned.\<close>

lemma convert_hex_InrE:
  assumes "convert_hex dst src v = Inr w"
  obtains d s b where "v = PDict d" and "dict_item d src = Inr (PStr s)" and "fromhex s = Some b"
    and "w = PDict (dict_set dst (PBytes b) d)"
  using assms
  by (cases v) (auto simp: convert_hex_def py_fromhex_def elim!: rbind_InrE
      split: pyval.splits option.splits)

lemma missing_fields_NilD:
  "missing_fields data fs = Inr [] \<Longrightarrow> f \<in> set fs \<Longrightarrow> py_in f data = Inr True"
  by (induction fs) (auto elim!: rbind_InrE split: if_splits)

lemma missing_fields_Nil:
  "\<forall>f\<in>set fs. dict_has d f \<Longrightarrow> missing_fields (PDict d) fs = Inr []"
  by (induction fs) auto

lemma read_json_packet_InrE:
  assumes "read_json_packet raw = Inr d"
  obtains d0 n c h nb cb hb where "json_loads raw = Inr (PDict d0)"
    and "dict_item d0 ''nonce'' = Inr (PStr n)" and "fromhex n = Some nb"
    and "dict_item d0 ''ciphertext'' = Inr (PStr c)" and "fromhex c = Some cb"
    and "dict_item d0 ''header_hex'' = Inr (PStr h)" and "fromhex h = Some hb"
    and "d = dict_set ''header'' (PBytes hb) (dict_set ''ciphertext_bytes'' (PBytes cb)
               (dict_set ''nonce_bytes'' (PBytes nb) d0))"
    and "\<forall>f\<in>set REQUIRED_FIELDS. dict_has d0 f"
proof -
  obtain data where data: "json_loads raw = Inr data"
    using assms by (auto simp: read_json_packet_def split: sum.splits exn.splits)
  then obtain d1 d2 d3 where miss: "missing_fields data REQUIRED_FIELDS = Inr []"
    and c1: "convert_hex ''nonce_bytes'' ''nonce'' data = Inr d1"
    and c2: "convert_hex ''ciphertext_bytes'' ''ciphertext'' d1 = Inr d2"
    and c3: "convert_hex ''header'' ''header_hex'' d2 = Inr d3"
    and d: "as_dict d3 = Inr d"
    using assms by (auto simp: read_json_packet_def elim!: rbind_InrE split: if_splits)
  from c1 obtain d0 n nb where 1: "data = PDict d0" "dict_item d0 ''nonce'' = Inr (PStr n)"
    "fromhex n = Some nb" "d1 = PDict (dict_set ''nonce_bytes'' (PBytes nb) d0)"
    by (rule convert_hex_InrE) blast
  from c2 obtain c cb where 2: "dict_item d0 ''ciphertext'' = Inr (PStr c)"
    "fromhex c = Some cb"
    "d2 = PDict (dict_set ''ciphertext_bytes'' (PBytes cb) (dict_set ''nonce_bytes'' (PBytes nb) d0))"
    by (rule convert_hex_InrE) (auto simp: 1)
  from c3 obtain h hb where 3: "dict_item d0 ''header_hex'' = Inr (PStr h)"
    "fromhex h = Some hb"
    "d3 = PDict (dict_set ''header'' (PBytes hb) (dict_set ''ciphertext_bytes'' (PBytes cb)
               (dict_set ''nonce_bytes'' (PBytes nb) d0)))"
    by (rule convert_hex_InrE) (auto simp: 2)
  have req: "\<forall>f\<in>set REQUIRED_FIELDS. dict_has d0 f"
    using missing_fields_NilD [OF miss] 1(1) by auto
  show thesis
    by (rule that [of d0 n nb c cb h hb]) (use 1 2 3 d data req in \<open>auto simp: as_dict_def\<close>)
qed

lemma parse_json_packet_Inr:
  "parse_json_packet p raw = (Inr d, p') \<longleftrightarrow> read_json_packet raw = Inr d \<and> p' = count_parsed p"
  by (auto simp: parse_json_packet_def split: sum.splits)

lemma parse_json_packet_fst: "fst (parse_json_packet p raw) = read_json_packet raw"
  by (auto simp: parse_json_packet_def split: sum.splits)

text \<open>An empty list of errors from \<open>validate_json_packet\<close> means the fields it looks at are good.\<close>

lemma validate_json_packet_Nil:
  "validate_json_packet d = Inr [] \<longleftrightarrow>
     py_in_strs (dict_get d ''team'') [''mercedes'', ''redbull''] \<and>
     py_in_strs (dict_get d ''session'') [''R'', ''Q'', ''S''] \<and>
     (\<exists>n. int_of (dict_get_or d ''sequence_no'' (PInt 0)) = Some n \<and> 0 < n) \<and>
     py_len (dict_get_or d ''nonce_bytes'' (PBytes [])) = Inr 12 \<and>
     truthy (dict_get d ''node_id'')"
  by (cases "py_len (dict_get_or d ''nonce_bytes'' (PBytes []))")
    (auto simp: validate_json_packet_def bad_sequence_def Let_def split: option.splits if_splits)

section \<open>The promises of the parser\<close>

lemma parse_valid_header:
  assumes "HEADER_SIZE \<le> length raw" and "struct_unpack (take HEADER_SIZE raw) = Inr h"
  shows "(\<exists>x. fst (parse p raw) = Inr x \<and> pp_is_valid x) \<longleftrightarrow>
    h_magic h = MAGIC \<and> parse_errors_of h (payload_slice raw (h_payload_len h)) = []"
  using assms by (auto simp: parse_def Let_def)

text \<open>C35. \<open>parse\<close> calls a byte string valid exactly when it is the packing of a telemetry header of
  version 1 with a known team and session, a positive sequence number and timestamp, followed by a
  payload of the announced length and digest - and by any number of bytes, which it ignores.\<close>

theorem parse_valid_iff:
  "(\<exists>x. fst (parse p raw) = Inr x \<and> pp_is_valid x) \<longleftrightarrow>
   (\<exists>h header payload rest. raw = header @ payload @ rest \<and> struct_pack h = Inr header \<and>
      length (h_checksum h) = 32 \<and> h_magic h = MAGIC \<and> h_version h = 1 \<and> h_packet_type h = 1 \<and>
      h_team_id h \<in> snd ` set TEAM_IDS \<and> h_session_id h \<in> snd ` set SESSION_IDS \<and>
      int (length payload) = h_payload_len h \<and> sha256 payload = h_checksum h \<and>
      h_sequence_no h \<noteq> 0 \<and> h_timestamp_ms h \<noteq> 0)" (is "?valid \<longleftrightarrow> ?packed")
proof
  assume v: ?valid
  then have len: "HEADER_SIZE \<le> length raw" by (auto simp: parse_def split: if_splits)
  obtain h where h: "struct_unpack (take HEADER_SIZE raw) = Inr h" "struct_pack h = Inr (take HEADER_SIZE raw)"
    "length (h_checksum h) = 32"
    by (rule struct_pack_unpack [of "take HEADER_SIZE raw"]) (use len in auto)
  let ?n = "nat (h_payload_len h)"
  have "raw = take HEADER_SIZE raw @ payload_slice raw (h_payload_len h) @ drop ?n (drop HEADER_SIZE raw)"
    by (simp only: payload_slice_def append_take_drop_id)
  with v h show ?packed
    unfolding parse_valid_header [OF len h(1)] parse_errors_of_Nil by blast
next
  assume ?packed
  then obtain h header payload rest where r: "raw = header @ payload @ rest" and p: "struct_pack h = Inr header"
    and c: "length (h_checksum h) = 32" and m: "h_magic h = MAGIC" and n: "int (length payload) = h_payload_len h"
    and ok: "parse_errors_of h payload = []"
    unfolding parse_errors_of_Nil by blast
  have l: "length header = HEADER_SIZE" and u: "struct_unpack header = Inr h"
    using p c header_bij by blast+
  have s: "payload_slice raw (h_payload_len h) = payload" using r l by (simp add: payload_slice_def n [symmetric])
  have "HEADER_SIZE \<le> length raw" "struct_unpack (take HEADER_SIZE raw) = Inr h" using r l u by simp_all
  then show ?valid using m ok unfolding s [symmetric] by (simp add: parse_valid_header)
qed

text \<open>C31. The relay's parser accepts every packet the builder makes, at any time after the epoch: it
  reports no error, recovers team, session, sequence number, timestamp and payload, and counts
  the packet as parsed.\<close>

theorem built_packet_parses:
  assumes "build b now frame = (Inr pkt, b')" and "clock_ms now \<noteq> 0" and "0 \<le> bld_sequence b"
  shows "\<exists>raw x. dict_get pkt ''raw_bytes'' = PBytes raw \<and> parse p raw = (Inr x, count_parsed p) \<and>
    pp_is_valid x \<and> pp_errors x = [] \<and> pp_team x = Some (bld_team b) \<and> pp_session x = Some (bld_session b) \<and>
    pp_sequence_no x = bld_sequence b + 1 \<and> pp_timestamp_ms x = clock_ms now \<and>
    dict_get pkt ''payload'' = PBytes (pp_payload x)"
proof -
  obtain payload header t s where t: "map_of TEAM_IDS (bld_team b) = Some t"
    and s: "map_of SESSION_IDS (bld_session b) = Some s"
    and h: "struct_pack \<lparr>h_magic = MAGIC, h_version = PROTOCOL_VER, h_team_id = t, h_session_id = s,
       h_packet_type = PACKET_TYPE_TEL, h_sequence_no = bld_sequence b + 1,
       h_timestamp_ms = clock_ms now, h_payload_len = int (length payload),
       h_checksum = sha256 payload, h_reserved = 0\<rparr> = Inr header" (is "struct_pack ?h = _")
    and pkt: "pkt = built_packet b (bld_sequence b + 1) (clock_ms now) payload header"
    using assms(1) by (rule build_InrD)
  have l: "length header = HEADER_SIZE" and u: "struct_unpack header = Inr ?h"
    using h header_bij [of ?h header] by simp_all
  have kt: "key_with_value TEAM_IDS t = Some (bld_team b)"
    using t by (auto simp: TEAM_IDS_def key_with_value_def split: if_splits)
  have ks: "key_with_value SESSION_IDS s = Some (bld_session b)"
    using s by (auto simp: SESSION_IDS_def key_with_value_def split: if_splits)
  have e: "parse_errors_of ?h payload = []"
    using assms(2,3) by (simp add: parse_errors_of_def SUPPORTED_VERSIONS_def SUPPORTED_PACKET_TYPES_def
        PROTOCOL_VER_def PACKET_TYPE_TEL_def kt ks)
  have raw: "dict_get pkt ''raw_bytes'' = PBytes (header @ payload)" "dict_get pkt ''payload'' = PBytes payload"
    by (simp_all add: pkt built_packet_def dict_get_def)
  have "payload_slice (header @ payload) (int (length payload)) = payload"
    using l by (rule payload_slice_append)
  then show ?thesis using raw l u e kt ks by (simp add: parse_def Let_def)
qed

theorem built_packet_parses_witness:
  "\<exists>pkt raw x. fst (build sample_builder 1000 []) = Inr pkt \<and> dict_get pkt ''raw_bytes'' = PBytes raw \<and>
     parse (parser_init ''relay'') raw = (Inr x, count_parsed (parser_init ''relay'')) \<and> pp_sequence_no x = 5"
proof -
  obtain pkt where b: "build sample_builder 1000 [] = (Inr pkt, sample_builder\<lparr>bld_sequence := 5, bld_packets_built := 5\<rparr>)"
    using sample_build by blast
  have "clock_ms 1000 = 1000000" by (rule clock_ms_int) simp_all
  then have "clock_ms 1000 \<noteq> 0" by simp
  from built_packet_parses [OF b this, of "parser_init ''relay''"] show ?thesis
    using b by (fastforce simp: sample_builder_def)
qed

text \<open>The fuel of the JSON reader is enough for every input: the model never runs out.\<close>

lemma rbind_fuel: "rbind x f = Inl OutOfFuel \<longleftrightarrow> x = Inl OutOfFuel \<or> (\<exists>v. x = Inr v \<and> f v = Inl OutOfFuel)"
  by (cases x) (auto simp: rbind_def)

lemma missing_fields_fuel: "missing_fields data fs \<noteq> Inl OutOfFuel"
  by (induction data fs rule: missing_fields.induct) (auto simp: rbind_fuel elim: py_in.elims)

lemma convert_hex_fuel: "convert_hex dst src data \<noteq> Inl OutOfFuel"
  by (cases data)
    (auto simp: convert_hex_def rbind_fuel dict_item_def py_fromhex_def split: pyval.splits option.splits if_splits)

lemma read_json_fuel: "read_json_packet raw \<noteq> Inl OutOfFuel"
proof -
  have "(case json_loads raw of Inl JSONDecodeErr \<Rightarrow> x | Inl UnicodeDecodeErr \<Rightarrow> y | Inl e \<Rightarrow> Inl e | Inr d \<Rightarrow> f d)
      \<noteq> Inl OutOfFuel" if "x \<noteq> Inl OutOfFuel" "y \<noteq> Inl OutOfFuel" "\<And>d. f d \<noteq> Inl OutOfFuel" for x y :: "pydict res" and f
    using json_loads_fuel [of raw] that by (auto split: sum.splits exn.splits)
  then show ?thesis unfolding read_json_packet_def
    by (auto simp: rbind_fuel missing_fields_fuel convert_hex_fuel as_dict_def split: pyval.splits if_splits)
qed

lemma parse_payload_fuel: "parse_payload raw \<noteq> Inl OutOfFuel"
  by (auto simp: parse_payload_def parse_header_def struct_unpack_def rbind_fuel json_loads_fuel split: if_splits list.splits)

end
