(* ===== verification/ReplayGuard.thy ===== *)
theory ReplayGuard
  imports PyVal
begin

text \<open>
  What the relay's \<open>IntegrityChecker\<close> and the validator's \<open>ValidatorSequenceChecker\<close> have in common:
  the results they return, the single checks they are made of, and the contract both promise. The
  locales \<open>seq_monitor\<close> and \<open>replay_guard\<close> state the contract (a packet is accepted only above the last accepted
  sequence number of its node, which it then becomes; a refusal moves nothing) and prove once that
  over any run the accepted sequence numbers of a node strictly increase, so nothing is accepted
  twice. The window of remembered sequence numbers keeps within its limit.
\<close>

section \<open>Results\<close>

datatype seq_message =
    InvalidSeq pyval
  | ReplaySeen pyval pyval
  | OutOfOrder pyval pyval pyval
  | LargeGap pyval pyval
  | TooOld pyval pyval
  | FutureTimestamp pyval pyval
  | MissingSignature pyval pyval

record check_result =
  cr_passed :: bool
  cr_warnings :: "seq_message list"
  cr_errors :: "seq_message list"

definition new_result :: check_result where
  "new_result = \<lparr>cr_passed = True, cr_warnings = [], cr_errors = []\<rparr>"

definition add_warning :: "seq_message \<Rightarrow> check_result \<Rightarrow> check_result" where
  "add_warning m r = r\<lparr>cr_warnings := cr_warnings r @ [m]\<rparr>"

definition add_error :: "seq_message \<Rightarrow> check_result \<Rightarrow> check_result" where
  "add_error m r = r\<lparr>cr_errors := cr_errors r @ [m], cr_passed := False\<rparr>"

definition error_if :: "bool \<Rightarrow> seq_message \<Rightarrow> check_result \<Rightarrow> check_result" where
  "error_if c m r = (if c then add_error m r else r)"

definition warning_if :: "bool \<Rightarrow> seq_message \<Rightarrow> check_result \<Rightarrow> check_result" where
  "warning_if c m r = (if c then add_warning m r else r)"

text \<open>A result has passed exactly when it holds no error.\<close>

definition wf_result :: "check_result \<Rightarrow> bool" where
  "wf_result r = (cr_passed r = (cr_errors r = []))"

lemma wf_new_result [simp]: "wf_result new_result" "cr_passed new_result"
  by (simp_all add: wf_result_def new_result_def)

lemma error_if_simps [simp]:
  "cr_passed (error_if c m r) = (cr_passed r \<and> \<not> c)"
  "cr_warnings (error_if c m r) = cr_warnings r"
  "cr_errors (error_if c m r) = cr_errors r @ (if c then [m] else [])"
  by (simp_all add: error_if_def add_error_def)

lemma warning_if_simps [simp]:
  "cr_passed (warning_if c m r) = cr_passed r"
  "cr_errors (warning_if c m r) = cr_errors r"
  "cr_warnings (warning_if c m r) = cr_warnings r @ (if c then [m] else [])"
  by (simp_all add: warning_if_def add_warning_def)

lemma wf_error_if [simp]: "wf_result r \<Longrightarrow> wf_result (error_if c m r)"
  by (simp add: wf_result_def)

lemma wf_warning_if [simp]: "wf_result r \<Longrightarrow> wf_result (warning_if c m r)"
  by (simp add: wf_result_def)

section \<open>The single checks\<close>

text \<open>\<open>last > 0 and seq <= last\<close>\<close>

definition not_above :: "pyval \<Rightarrow> pyval \<Rightarrow> bool res" where
  "not_above prev seq =
     rbind (py_gt prev (PInt 0)) (\<lambda>pos. if pos then py_le seq prev else Inr False)"

text \<open>The gap to the last sequence number, when it is above the limit.\<close>

definition gap_above :: "int \<Rightarrow> pyval \<Rightarrow> pyval \<Rightarrow> pyval option res" where
  "gap_above max_gap prev seq =
     rbind (py_gt prev (PInt 0)) (\<lambda>pos.
       if pos then rbind (py_sub seq prev) (\<lambda>gap.
         rbind (py_gt gap (PInt max_gap)) (\<lambda>big. Inr (if big then Some gap else None)))
       else Inr None)"

datatype freshness = Fresh | Stale pyval | Future pyval

text \<open>\<open>age_ms = int(time.time() * 1000) - ts_ms\<close>, compared with the limit and with \<open>-5000\<close>.\<close>

definition timestamp_age :: "bool \<Rightarrow> int \<Rightarrow> clock \<Rightarrow> pyval \<Rightarrow> freshness res" where
  "timestamp_age check_ts max_age now ts =
     (if \<not> check_ts then Inr Fresh
      else rbind (py_gt ts (PInt 0)) (\<lambda>pos.
        if \<not> pos then Inr Fresh
        else rbind (py_sub (PInt (clock_ms now)) ts) (\<lambda>age.
          rbind (py_gt age (PInt max_age)) (\<lambda>old.
            if old then Inr (Stale age)
            else rbind (py_lt age (PInt (- 5000))) (\<lambda>early.
              Inr (if early then Future age else Fresh))))))"

definition is_stale :: "freshness \<Rightarrow> bool" where
  "is_stale f = (case f of Stale _ \<Rightarrow> True | _ \<Rightarrow> False)"

definition is_future :: "freshness \<Rightarrow> bool" where
  "is_future f = (case f of Future _ \<Rightarrow> True | _ \<Rightarrow> False)"

definition age_of :: "freshness \<Rightarrow> pyval" where
  "age_of f = (case f of Stale a \<Rightarrow> a | Future a \<Rightarrow> a | Fresh \<Rightarrow> PNone)"

lemma not_above_int [simp]:
  "int_of prev = Some l \<Longrightarrow> int_of seq = Some q \<Longrightarrow> not_above prev seq = Inr (0 < l \<and> q \<le> l)"
  by (simp add: not_above_def)

lemma not_above_num:
  "num_int prev = Some l \<Longrightarrow> num_int seq = Some q \<Longrightarrow> not_above prev seq = Inr (0 < l \<and> q \<le> l)"
  by (simp add: not_above_def py_cmp_num)

lemma gap_above_int [simp]:
  "int_of prev = Some l \<Longrightarrow> int_of seq = Some q \<Longrightarrow>
   gap_above g prev seq = Inr (if 0 < l \<and> g < q - l then Some (PInt (q - l)) else None)"
  by (auto simp: gap_above_def)

lemma timestamp_age_int:
  "int_of ts = Some t \<Longrightarrow> timestamp_age True max_age now ts =
     Inr (if t \<le> 0 then Fresh
          else if max_age < clock_ms now - t then Stale (PInt (clock_ms now - t))
          else if clock_ms now - t < - 5000 then Future (PInt (clock_ms now - t)) else Fresh)"
  by (auto simp: timestamp_age_def)

lemma timestamp_age_off [simp]: "timestamp_age False max_age now ts = Inr Fresh"
  by (simp add: timestamp_age_def)

section \<open>The window of remembered sequence numbers\<close>

text \<open>\<open>min(s)\<close> of a non-empty set of numbers, and \<open>s.add(x)\<close> with the eviction of the least.\<close>

fun min_num :: "pyval list \<Rightarrow> pyval" where
  "min_num [] = PNone"
| "min_num [x] = x"
| "min_num (x # y # xs) = (case py_lt y x of Inr True \<Rightarrow> min_num (y # xs) | _ \<Rightarrow> min_num (x # xs))"

definition window_add :: "nat \<Rightarrow> pyval \<Rightarrow> pyval list \<Rightarrow> pyval list" where
  "window_add limit seq seen =
     (let k = norm_key seq; s1 = (if k \<in> set seen then seen else seen @ [k])
      in if limit < length s1 then removeAll (min_num s1) s1 else s1)"

lemma min_num_mem: "xs \<noteq> [] \<Longrightarrow> min_num xs \<in> set xs"
  by (induction xs rule: min_num.induct) (auto split: sum.splits bool.splits)

lemma window_add_subset: "set (window_add limit seq seen) \<subseteq> insert (norm_key seq) (set seen)"
  by (auto simp: window_add_def Let_def)

lemma length_removeAll_mem: "x \<in> set xs \<Longrightarrow> length (removeAll x xs) < length xs"
  by (induction xs) (auto simp: le_imp_less_Suc length_filter_le removeAll_filter_not_eq)

text \<open>The window never holds more than its limit.\<close>

lemma window_add_bounded: "length seen \<le> limit \<Longrightarrow> length (window_add limit seq seen) \<le> limit"
proof -
  assume le: "length seen \<le> limit"
  have "length (removeAll (min_num (seen @ [norm_key seq])) (seen @ [norm_key seq])) \<le> length seen"
    using length_removeAll_mem [OF min_num_mem, of "seen @ [norm_key seq]"] by simp
  with le show ?thesis by (auto simp: window_add_def Let_def)
qed

section \<open>The contract\<close>

text \<open>The packets a checker accepts, in order, when a list of packets is put to it.\<close>

fun run_accepted :: "('s \<Rightarrow> 'p \<Rightarrow> bool \<times> 's) \<Rightarrow> 's \<Rightarrow> 'p list \<Rightarrow> 'p list" where
  "run_accepted step s [] = []"
| "run_accepted step s (p # ps) =
     (let (ok, s') = step s p in (if ok then [p] else []) @ run_accepted step s' ps)"

text \<open>The state after the list.\<close>

fun run_state :: "('s \<Rightarrow> 'p \<Rightarrow> bool \<times> 's) \<Rightarrow> 's \<Rightarrow> 'p list \<Rightarrow> 's" where
  "run_state step s [] = s"
| "run_state step s (p # ps) = run_state step (snd (step s p)) ps"

text \<open>
  A monitor: what it accepts lies above the last number of its node and becomes that number, and no
  last number ever decreases.
\<close>

locale seq_monitor =
  fixes step :: "'s \<Rightarrow> 'p \<Rightarrow> bool \<times> 's"
    and last_of :: "'s \<Rightarrow> 'n \<Rightarrow> int"
    and node :: "'p \<Rightarrow> 'n"
    and seq :: "'p \<Rightarrow> int"
    and inv :: "'s \<Rightarrow> bool"
    and ok :: "'p \<Rightarrow> bool"
  assumes inv_step: "inv s \<Longrightarrow> ok p \<Longrightarrow> inv (snd (step s p))"
    and accept_above: "inv s \<Longrightarrow> ok p \<Longrightarrow> fst (step s p) \<Longrightarrow> last_of s (node p) < seq p"
    and accept_last: "inv s \<Longrightarrow> ok p \<Longrightarrow> fst (step s p) \<Longrightarrow> last_of (snd (step s p)) (node p) = seq p"
    and last_mono: "inv s \<Longrightarrow> ok p \<Longrightarrow> last_of s n \<le> last_of (snd (step s p)) n"
begin

lemma accepted_increasing:
  "inv s \<Longrightarrow> \<forall>p\<in>set ps. ok p \<Longrightarrow>
   sorted_wrt (<) (last_of s n # map seq (filter (\<lambda>p. node p = n) (run_accepted step s ps)))"
proof (induction ps arbitrary: s)
  case (Cons p ps)
  obtain acc s' where st: "step s p = (acc, s')" by (cases "step s p")
  have okp: "ok p" using Cons.prems(2) by simp
  have IH: "sorted_wrt (<) (last_of s' n # map seq (filter (\<lambda>p. node p = n) (run_accepted step s' ps)))"
    using Cons.IH Cons.prems inv_step [OF Cons.prems(1) okp] st by simp
  have mono: "last_of s n \<le> last_of s' n" using last_mono [OF Cons.prems(1) okp, of n] st by simp
  show ?case
  proof (cases "acc \<and> node p = n")
    case True
    then have "last_of s n < seq p" "last_of s' n = seq p"
      using accept_above [OF Cons.prems(1) okp] accept_last [OF Cons.prems(1) okp] st by auto
    with IH True st show ?thesis by (auto intro: less_trans)
  next
    case False
    with IH mono st show ?thesis by (auto intro: le_less_trans)
  qed
qed simp

lemma accepted_sorted:
  "inv s \<Longrightarrow> \<forall>p\<in>set ps. ok p \<Longrightarrow>
   sorted_wrt (<) (map seq (filter (\<lambda>p. node p = n) (run_accepted step s ps)))"
  using accepted_increasing [of s ps n] by simp

lemma accepted_above_last:
  "inv s \<Longrightarrow> \<forall>p\<in>set ps. ok p \<Longrightarrow> q \<in> set (run_accepted step s ps) \<Longrightarrow> last_of s (node q) < seq q"
  using accepted_increasing [of s ps "node q"] by fastforce

lemma run_inv: "inv s \<Longrightarrow> \<forall>p\<in>set ps. ok p \<Longrightarrow> inv (run_state step s ps)"
  by (induction ps arbitrary: s) (simp_all add: inv_step)

text \<open>No two accepted packets carry the same node and sequence number.\<close>

lemma accepted_distinct:
  "inv s \<Longrightarrow> \<forall>p\<in>set ps. ok p \<Longrightarrow> distinct (map (\<lambda>p. (node p, seq p)) (run_accepted step s ps))"
proof (induction ps arbitrary: s)
  case (Cons p ps)
  obtain acc s' where st: "step s p = (acc, s')" by (cases "step s p")
  have okp: "ok p" and oks: "\<forall>p\<in>set ps. ok p" using Cons.prems(2) by auto
  have i': "inv s'" using inv_step [OF Cons.prems(1) okp] st by simp
  have "acc \<Longrightarrow> last_of s' (node p) = seq p" using accept_last [OF Cons.prems(1) okp] st by simp
  with accepted_above_last [OF i' oks] Cons.IH [OF i' oks] st show ?case by fastforce
qed simp

lemma replay_refused:
  assumes "inv s" and "ok p" and "\<forall>p\<in>set ps. ok p"
    and "fst (step s p)" and "node q = node p" and "seq q \<le> seq p"
  shows "q \<notin> set (run_accepted step (snd (step s p)) ps)"
proof
  assume q: "q \<in> set (run_accepted step (snd (step s p)) ps)"
  have "last_of (snd (step s p)) (node p) = seq p" using assms accept_last by simp
  moreover have "last_of (snd (step s p)) (node q) < seq q"
    using accepted_above_last [OF inv_step [OF assms(1,2)] assms(3) q] .
  ultimately show False using assms(5,6) by simp
qed

end

text \<open>
  A guard is a monitor whose last numbers move only by acceptance: a refusal moves nothing, and an
  acceptance moves only its own node.
\<close>

locale replay_guard =
  fixes step :: "'s \<Rightarrow> 'p \<Rightarrow> bool \<times> 's"
    and last_of :: "'s \<Rightarrow> 'n \<Rightarrow> int"
    and node :: "'p \<Rightarrow> 'n"
    and seq :: "'p \<Rightarrow> int"
    and inv :: "'s \<Rightarrow> bool"
    and ok :: "'p \<Rightarrow> bool"
  assumes guard_inv: "inv s \<Longrightarrow> ok p \<Longrightarrow> inv (snd (step s p))"
    and guard_above: "inv s \<Longrightarrow> ok p \<Longrightarrow> fst (step s p) \<Longrightarrow> last_of s (node p) < seq p"
    and guard_last: "inv s \<Longrightarrow> ok p \<Longrightarrow> last_of (snd (step s p)) n =
           (if fst (step s p) \<and> n = node p then seq p else last_of s n)"

sublocale replay_guard \<subseteq> seq_monitor step last_of node seq inv ok
proof
  fix s p n
  assume i: "inv s" and o: "ok p"
  show "inv (snd (step s p))" using guard_inv [OF i o] .
  show "fst (step s p) \<Longrightarrow> last_of s (node p) < seq p" using guard_above [OF i o] .
  show "fst (step s p) \<Longrightarrow> last_of (snd (step s p)) (node p) = seq p" using guard_last [OF i o] by simp
  show "last_of s n \<le> last_of (snd (step s p)) n"
    using guard_last [OF i o, of n] guard_above [OF i o] by (auto split: if_splits)
qed

context replay_guard
begin

text \<open>The last number of a node after a run is that of the last packet accepted from it, if any.\<close>

lemma last_after_run:
  "inv s \<Longrightarrow> \<forall>p\<in>set ps. ok p \<Longrightarrow>
   last_of (run_state step s ps) n =
     last (last_of s n # map seq (filter (\<lambda>p. node p = n) (run_accepted step s ps)))"
proof (induction ps arbitrary: s)
  case (Cons p ps)
  then have okp: "ok p" and oks: "\<forall>p\<in>set ps. ok p" by auto
  obtain acc s' where st: "step s p = (acc, s')" by (cases "step s p")
  have "inv s'" using guard_inv [OF Cons.prems(1) okp] st by simp
  note Cons.IH [OF this oks]
  moreover have "last_of s' n = (if acc \<and> n = node p then seq p else last_of s n)"
    using guard_last [OF Cons.prems(1) okp, of n] st by simp
  ultimately show ?case using st by (auto split: if_splits)
qed simp

end

section \<open>The abstract guard\<close>

text \<open>
  The specification behind both checkers: all a guard has to remember is one number per node. A packet
  is its node, its number, and whether whatever else is asked of it (freshness, a signature) holds.
\<close>

fun guard_run :: "('n \<Rightarrow> int) \<Rightarrow> ('n \<times> int \<times> bool) list \<Rightarrow> bool list \<times> ('n \<Rightarrow> int)" where
  "guard_run m [] = ([], m)"
| "guard_run m ((n, q, fine) # ps) =
     (let acc = (fine \<and> 0 < q \<and> m n < q); (ds, m') = guard_run (if acc then m(n := q) else m) ps
      in (acc # ds, m'))"

fun run_decisions :: "('s \<Rightarrow> 'p \<Rightarrow> bool \<times> 's) \<Rightarrow> 's \<Rightarrow> 'p list \<Rightarrow> bool list" where
  "run_decisions step s [] = []"
| "run_decisions step s (p # ps) = fst (step s p) # run_decisions step (snd (step s p)) ps"

locale guard_refinement = replay_guard +
  fixes fine :: "'b \<Rightarrow> bool"
  assumes accepts_iff: "inv s \<Longrightarrow> ok p \<Longrightarrow> fst (step s p) \<longleftrightarrow> fine p \<and> 0 < seq p \<and> last_of s (node p) < seq p"
begin

lemma refines_guard:
  "inv s \<Longrightarrow> \<forall>p\<in>set ps. ok p \<Longrightarrow>
   guard_run (last_of s) (map (\<lambda>p. (node p, seq p, fine p)) ps) =
     (run_decisions step s ps, last_of (run_state step s ps))"
proof (induction ps arbitrary: s)
  case (Cons p ps)
  then have okp: "ok p" and oks: "\<forall>p\<in>set ps. ok p" by auto
  have "last_of (snd (step s p)) = (if fst (step s p) then (last_of s)(node p := seq p) else last_of s)"
    using guard_last [OF Cons.prems(1) okp] by (auto simp: fun_eq_iff)
  with Cons.IH [OF guard_inv [OF Cons.prems(1) okp] oks] accepts_iff [OF Cons.prems(1) okp]
  show ?case by (auto simp: Let_def split: prod.splits)
qed simp

end

end
