(* ===== verification/IntegrityCheck.thy ===== *)
theory IntegrityCheck
  imports ReplayGuard
begin

text \<open>
  \<open>relay-node/src/integrity_checker.py\<close>: the relay's sequence, replay, gap, timestamp and
  signature-presence checks, with one last sequence number and one window of seen numbers per car
  node. A check that raises (an unhashable node, a sequence number or timestamp that is not a
  number) leaves the state it had reached. The invariant says that everything remembered for a node
  lies at or below its last accepted number; under it the checker is a \<open>replay_guard\<close>.
\<close>

section \<open>State\<close>

definition MAX_TIMESTAMP_AGE_MS :: int where "MAX_TIMESTAMP_AGE_MS = 30000"
definition MAX_SEQUENCE_GAP :: int where "MAX_SEQUENCE_GAP = 100"
definition REPLAY_WINDOW_SIZE :: nat where "REPLAY_WINDOW_SIZE = 10000"

record integrity =
  ic_node_id :: string
  ic_max_ts_age :: int
  ic_max_gap :: int
  ic_check_timestamps :: bool
  ic_check_signatures :: bool
  ic_last_sequence :: "pyval \<rightharpoonup> pyval"
  ic_seen_sequences :: "pyval \<rightharpoonup> pyval list"
  ic_checked :: int
  ic_passed :: int
  ic_failed :: int
  ic_replays :: int
  ic_out_of_order :: int

definition integrity_init :: "string \<Rightarrow> int \<Rightarrow> int \<Rightarrow> bool \<Rightarrow> bool \<Rightarrow> integrity" where
  "integrity_init node max_age max_gap check_ts check_sigs =
     \<lparr>ic_node_id = node, ic_max_ts_age = max_age, ic_max_gap = max_gap,
      ic_check_timestamps = check_ts, ic_check_signatures = check_sigs,
      ic_last_sequence = Map.empty, ic_seen_sequences = Map.empty,
      ic_checked = 0, ic_passed = 0, ic_failed = 0, ic_replays = 0, ic_out_of_order = 0\<rparr>"

section \<open>Operations\<close>

definition ic_init_node :: "pyval \<Rightarrow> integrity \<Rightarrow> integrity" where
  "ic_init_node k st =
     (if ic_last_sequence st k = None
      then st\<lparr>ic_last_sequence := (ic_last_sequence st)(k \<mapsto> PInt 0),
              ic_seen_sequences := (ic_seen_sequences st)(k \<mapsto> [])\<rparr>
      else st)"

definition ic_seen :: "integrity \<Rightarrow> pyval \<Rightarrow> pyval list" where
  "ic_seen st k = (case ic_seen_sequences st k of Some s \<Rightarrow> s | None \<Rightarrow> [])"

definition ic_last :: "integrity \<Rightarrow> pyval \<Rightarrow> pyval" where
  "ic_last st k = (case ic_last_sequence st k of Some v \<Rightarrow> v | None \<Rightarrow> PInt 0)"

definition ic_has_sig :: "pydict \<Rightarrow> bool" where
  "ic_has_sig pkt = truthy (py_or (dict_get pkt ''signature'') (dict_get pkt ''signature_bytes''))"

text \<open>The update of the node state when the result has passed, and the statistics.\<close>

definition ic_remember :: "pyval \<Rightarrow> pyval \<Rightarrow> integrity \<Rightarrow> integrity" where
  "ic_remember k seq st =
     st\<lparr>ic_last_sequence := (ic_last_sequence st)(k \<mapsto> seq),
        ic_seen_sequences := (ic_seen_sequences st)(k \<mapsto> window_add REPLAY_WINDOW_SIZE seq (ic_seen st k))\<rparr>"

definition ic_finish :: "pyval \<Rightarrow> pyval \<Rightarrow> check_result \<Rightarrow> integrity \<Rightarrow> integrity" where
  "ic_finish k seq r st =
     (let st1 = (if cr_passed r then ic_remember k seq st else st);
          st2 = st1\<lparr>ic_checked := ic_checked st1 + 1\<rparr>
      in if cr_passed r then st2\<lparr>ic_passed := ic_passed st2 + 1\<rparr>
         else st2\<lparr>ic_failed := ic_failed st2 + 1\<rparr>)"

definition integrity_check :: "integrity \<Rightarrow> clock \<Rightarrow> pydict \<Rightarrow> check_result res \<times> integrity" where
  "integrity_check st now pkt =
     (let node = dict_get_or pkt ''node_id'' (PStr ''unknown'');
          seq = dict_get_or pkt ''sequence_no'' (PInt 0);
          ts = dict_get_or pkt ''timestamp'' (PInt 0);
          k = norm_key node
      in if \<not> hashable node then (Inl TypeErr, st)
      else let st0 = ic_init_node k st
      in case py_le seq (PInt 0) of Inl e \<Rightarrow> (Inl e, st0)
      | Inr nonpos \<Rightarrow>
      let r1 = error_if nonpos (InvalidSeq seq) new_result;
          dup = (norm_key seq \<in> set (ic_seen st0 k));
          st1 = (if dup then st0\<lparr>ic_replays := ic_replays st0 + 1\<rparr> else st0);
          r2 = error_if dup (ReplaySeen node seq) r1;
          prev = ic_last st0 k
      in case not_above prev seq of Inl e \<Rightarrow> (Inl e, st1)
      | Inr ooo \<Rightarrow>
      let st2 = (if ooo then st1\<lparr>ic_out_of_order := ic_out_of_order st1 + 1\<rparr> else st1);
          r3 = error_if ooo (OutOfOrder node seq prev) r2
      in case gap_above (ic_max_gap st) prev seq of Inl e \<Rightarrow> (Inl e, st2)
      | Inr gap \<Rightarrow>
      let r4 = warning_if (gap \<noteq> None) (LargeGap node (case gap of Some g \<Rightarrow> g | None \<Rightarrow> PNone)) r3
      in case timestamp_age (ic_check_timestamps st) (ic_max_ts_age st) now ts of Inl e \<Rightarrow> (Inl e, st2)
      | Inr f \<Rightarrow>
      let r5 = error_if (is_stale f) (TooOld node (age_of f)) r4;
          r6 = warning_if (is_future f) (FutureTimestamp node (age_of f)) r5;
          r7 = error_if (ic_check_signatures st \<and> \<not> ic_has_sig pkt) (MissingSignature node seq) r6
      in (Inr r7, ic_finish k seq r7 st2))"

text \<open>
  \<open>check_and_annotate\<close>: the copy of the packet with \<open>integrity_passed\<close>; the entries
  \<open>integrity_result\<close>, \<open>integrity_warnings\<close> and \<open>integrity_errors\<close> are the fields of the result
  returned beside it.
\<close>

definition integrity_annotate :: "integrity \<Rightarrow> clock \<Rightarrow> pydict \<Rightarrow> (pydict \<times> check_result) res \<times> integrity" where
  "integrity_annotate st now pkt =
     (case integrity_check st now pkt of
        (Inl e, st') \<Rightarrow> (Inl e, st')
      | (Inr r, st') \<Rightarrow> (Inr (dict_set ''integrity_passed'' (PBool (cr_passed r)) pkt, r), st'))"

definition integrity_reset_node :: "string \<Rightarrow> integrity \<Rightarrow> integrity" where
  "integrity_reset_node node st =
     st\<lparr>ic_last_sequence := (ic_last_sequence st)(PStr node := None),
        ic_seen_sequences := (ic_seen_sequences st)(PStr node := None)\<rparr>"

section \<open>The invariant\<close>

text \<open>
  Every last number is a non-negative integer, the two maps have the same nodes, and every number
  remembered for a node is a normalised integer at or below its last one.
\<close>

definition last_int :: "integrity \<Rightarrow> pyval \<Rightarrow> int" where
  "last_int st k = (case int_of (ic_last st k) of Some n \<Rightarrow> n | None \<Rightarrow> 0)"

definition ic_inv :: "integrity \<Rightarrow> bool" where
  "ic_inv st =
     (\<forall>k. (\<exists>n. int_of (ic_last st k) = Some n \<and> 0 \<le> n \<and>
              (\<forall>s\<in>set (ic_seen st k). \<exists>m. s = PInt m \<and> 0 < m \<and> m \<le> n)) \<and>
          length (ic_seen st k) \<le> REPLAY_WINDOW_SIZE)"

lemma ic_inv_init: "ic_inv (integrity_init node max_age max_gap check_ts check_sigs)"
  by (simp add: ic_inv_def integrity_init_def ic_last_def ic_seen_def)

lemma ic_init_node_simps [simp]:
  "ic_last (ic_init_node k st) j = ic_last st j"
  "ic_inv st \<Longrightarrow> ic_inv (ic_init_node k st)"
  "ic_max_gap (ic_init_node k st) = ic_max_gap st"
  "ic_checked (ic_init_node k st) = ic_checked st"
  "ic_passed (ic_init_node k st) = ic_passed st"
  "ic_failed (ic_init_node k st) = ic_failed st"
  by (auto simp: ic_init_node_def ic_last_def ic_seen_def ic_inv_def)

lemma ic_last_upd [simp]:
  "ic_last (st\<lparr>ic_replays := a\<rparr>) = ic_last st" "ic_last (st\<lparr>ic_out_of_order := a\<rparr>) = ic_last st"
  "ic_last (st\<lparr>ic_checked := a\<rparr>) = ic_last st" "ic_last (st\<lparr>ic_passed := a\<rparr>) = ic_last st"
  "ic_last (st\<lparr>ic_failed := a\<rparr>) = ic_last st"
  "ic_seen (st\<lparr>ic_replays := a\<rparr>) = ic_seen st" "ic_seen (st\<lparr>ic_out_of_order := a\<rparr>) = ic_seen st"
  "ic_seen (st\<lparr>ic_checked := a\<rparr>) = ic_seen st" "ic_seen (st\<lparr>ic_passed := a\<rparr>) = ic_seen st"
  "ic_seen (st\<lparr>ic_failed := a\<rparr>) = ic_seen st"
  by (auto simp: ic_last_def ic_seen_def fun_eq_iff)

lemma ic_inv_upd [simp]:
  "ic_inv (st\<lparr>ic_replays := a\<rparr>) = ic_inv st" "ic_inv (st\<lparr>ic_out_of_order := a\<rparr>) = ic_inv st"
  "ic_inv (st\<lparr>ic_checked := a\<rparr>) = ic_inv st" "ic_inv (st\<lparr>ic_passed := a\<rparr>) = ic_inv st"
  "ic_inv (st\<lparr>ic_failed := a\<rparr>) = ic_inv st"
  by (simp_all add: ic_inv_def)

lemma ic_remember_last [simp]:
  "ic_last (ic_remember k seq st) j = (if j = k then seq else ic_last st j)"
  by (simp add: ic_remember_def ic_last_def)

lemma ic_remember_inv:
  assumes "ic_inv st" and "int_of seq = Some q" and "0 < q"
    and "\<forall>n. int_of (ic_last st k) = Some n \<longrightarrow> n < q"
  shows "ic_inv (ic_remember k seq st)"
proof -
  have "\<exists>n. int_of (ic_last st k) = Some n \<and> 0 \<le> n \<and>
          (\<forall>s\<in>set (ic_seen st k). \<exists>m. s = PInt m \<and> 0 < m \<and> m \<le> n)"
    and len: "length (ic_seen st k) \<le> REPLAY_WINDOW_SIZE"
    using assms(1) unfolding ic_inv_def by blast+
  then obtain n where n: "int_of (ic_last st k) = Some n"
    and seen: "\<forall>s\<in>set (ic_seen st k). \<exists>m. s = PInt m \<and> 0 < m \<and> m \<le> n" by blast
  have "\<exists>m. s = PInt m \<and> 0 < m \<and> m \<le> q"
    if "s \<in> set (window_add REPLAY_WINDOW_SIZE seq (ic_seen st k))" for s
    using that window_add_subset [of REPLAY_WINDOW_SIZE seq "ic_seen st k"] seen assms n
    by (fastforce simp: norm_key_int)
  moreover have "length (window_add REPLAY_WINDOW_SIZE seq (ic_seen st k)) \<le> REPLAY_WINDOW_SIZE"
    using len by (rule window_add_bounded)
  ultimately show ?thesis
    using assms by (auto simp: ic_inv_def ic_remember_def ic_last_def ic_seen_def)
qed

section \<open>What a check does\<close>

text \<open>The sequence number and the node of a packet, as the checker reads them.\<close>

definition pkt_node :: "pydict \<Rightarrow> pyval" where
  "pkt_node pkt = dict_get_or pkt ''node_id'' (PStr ''unknown'')"

definition pkt_seq :: "pydict \<Rightarrow> pyval" where
  "pkt_seq pkt = dict_get_or pkt ''sequence_no'' (PInt 0)"

definition seq_num :: "pydict \<Rightarrow> int" where
  "seq_num pkt = (case int_of (pkt_seq pkt) of Some n \<Rightarrow> n | None \<Rightarrow> 0)"

definition ic_accepts :: "check_result res \<Rightarrow> bool" where
  "ic_accepts r = (case r of Inr x \<Rightarrow> cr_passed x | Inl _ \<Rightarrow> False)"

text \<open>
  With an integer sequence number and a hashable node, only the timestamp can still raise. The
  result lists exactly the violated rules, and the state moves only for a packet that passed.
\<close>

lemma ic_lastE:
  assumes "ic_inv st"
  obtains n where "int_of (ic_last st k) = Some n" and "0 \<le> n" and "last_int st k = n"
    and "\<forall>s\<in>set (ic_seen st k). \<exists>m. s = PInt m \<and> 0 < m \<and> m \<le> n"
    and "length (ic_seen st k) \<le> REPLAY_WINDOW_SIZE"
proof -
  have "(\<exists>n. int_of (ic_last st k) = Some n \<and> 0 \<le> n \<and>
              (\<forall>s\<in>set (ic_seen st k). \<exists>m. s = PInt m \<and> 0 < m \<and> m \<le> n)) \<and>
          length (ic_seen st k) \<le> REPLAY_WINDOW_SIZE"
    using assms unfolding ic_inv_def by blast
  then show thesis using that by (auto simp: last_int_def)
qed

definition ic_result :: "integrity \<Rightarrow> clock \<Rightarrow> pydict \<Rightarrow> freshness \<Rightarrow> check_result" where
  "ic_result st now pkt f =
     (let node = pkt_node pkt; k = norm_key node; seq = pkt_seq pkt; q = seq_num pkt; l = last_int st k
      in \<lparr>cr_passed = (0 < q \<and> l < q \<and> \<not> is_stale f \<and> (ic_check_signatures st \<longrightarrow> ic_has_sig pkt)),
          cr_warnings = (if 0 < l \<and> ic_max_gap st < q - l then [LargeGap node (PInt (q - l))] else []) @
            (if is_future f then [FutureTimestamp node (age_of f)] else []),
          cr_errors = (if q \<le> 0 then [InvalidSeq seq] else []) @
            (if PInt q \<in> set (ic_seen st k) then [ReplaySeen node seq] else []) @
            (if 0 < l \<and> q \<le> l then [OutOfOrder node seq (ic_last st k)] else []) @
            (if is_stale f then [TooOld node (age_of f)] else []) @
            (if ic_check_signatures st \<and> \<not> ic_has_sig pkt then [MissingSignature node seq] else [])\<rparr>)"


definition ic_counted :: "integrity \<Rightarrow> pydict \<Rightarrow> integrity" where
  "ic_counted st pkt =
     (let k = norm_key (pkt_node pkt); q = seq_num pkt; st0 = ic_init_node k st
      in st0\<lparr>ic_replays := ic_replays st0 + (if PInt q \<in> set (ic_seen st k) then 1 else 0),
             ic_out_of_order := ic_out_of_order st0 +
               (if 0 < last_int st k \<and> q \<le> last_int st k then 1 else 0)\<rparr>)"

lemma ic_seen_init_node [simp]: "ic_seen (ic_init_node k st) k = (if ic_last_sequence st k = None then [] else ic_seen st k)"
  by (simp add: ic_init_node_def ic_seen_def)

lemma ic_flags_init [simp]:
  "ic_check_timestamps (ic_init_node k st) = ic_check_timestamps st"
  "ic_max_ts_age (ic_init_node k st) = ic_max_ts_age st"
  "ic_check_signatures (ic_init_node k st) = ic_check_signatures st"
  by (simp_all add: ic_init_node_def)

lemma ic_seen_unknown: "ic_inv st \<Longrightarrow> ic_last_sequence st k = None \<Longrightarrow> ic_seen st k = []"
proof -
  assume inv: "ic_inv st" and none: "ic_last_sequence st k = None"
  obtain n where "int_of (ic_last st k) = Some n"
    "\<forall>s\<in>set (ic_seen st k). \<exists>m. s = PInt m \<and> 0 < m \<and> m \<le> n" using inv by (rule ic_lastE)
  moreover have "ic_last st k = PInt 0" using none by (simp add: ic_last_def)
  ultimately show ?thesis by (cases "ic_seen st k") auto
qed

lemma check_result_eqI:
  "cr_passed a = cr_passed b \<Longrightarrow> cr_warnings a = cr_warnings b \<Longrightarrow> cr_errors a = cr_errors b \<Longrightarrow> a = (b::check_result)"
  by simp

lemma integrity_check_eq:
  assumes inv: "ic_inv st" and seq: "is_int (pkt_seq pkt)" and node: "hashable (pkt_node pkt)"
  shows "integrity_check st now pkt =
     (case timestamp_age (ic_check_timestamps st) (ic_max_ts_age st) now
             (dict_get_or pkt ''timestamp'' (PInt 0)) of
        Inl e \<Rightarrow> (Inl e, ic_counted st pkt)
      | Inr f \<Rightarrow> (Inr (ic_result st now pkt f),
          ic_finish (norm_key (pkt_node pkt)) (pkt_seq pkt) (ic_result st now pkt f) (ic_counted st pkt)))"
proof -
  let ?k = "norm_key (pkt_node pkt)" and ?seq = "pkt_seq pkt"
  obtain q where q: "int_of ?seq = Some q" using seq by (auto simp: is_int_def)
  have sn: "seq_num pkt = q" using q by (simp add: seq_num_def)
  obtain n where n: "int_of (ic_last st ?k) = Some n" "0 \<le> n" "last_int st ?k = n"
    and seen: "\<forall>s\<in>set (ic_seen st ?k). \<exists>m. s = PInt m \<and> 0 < m \<and> m \<le> n"
    using inv by (rule ic_lastE)
  have seen0: "ic_seen (ic_init_node ?k st) ?k = ic_seen st ?k"
    using ic_seen_unknown [OF inv] by auto
  have pass: "(0 < q \<and> PInt q \<notin> set (ic_seen st ?k) \<and> \<not> (0 < n \<and> q \<le> n)) = (0 < q \<and> n < q)"
    using seen n(2) by fastforce
  let ?st0 = "ic_init_node ?k st"
  let ?dup = "PInt q \<in> set (ic_seen st ?k)" and ?ooo = "0 < n \<and> q \<le> n"
  let ?st1 = "if ?dup then ?st0\<lparr>ic_replays := ic_replays ?st0 + 1\<rparr> else ?st0"
  let ?st2 = "if ?ooo then ?st1\<lparr>ic_out_of_order := ic_out_of_order ?st1 + 1\<rparr> else ?st1"
  have cnt: "?st2 = ic_counted st pkt"
    by (simp add: ic_counted_def sn n(3) Let_def)
  let ?r = "\<lambda>f. error_if (ic_check_signatures st \<and> \<not> ic_has_sig pkt) (MissingSignature (pkt_node pkt) ?seq)
     (warning_if (is_future f) (FutureTimestamp (pkt_node pkt) (age_of f))
     (error_if (is_stale f) (TooOld (pkt_node pkt) (age_of f))
     (warning_if ((if 0 < n \<and> ic_max_gap st < q - n then Some (PInt (q - n)) else None) \<noteq> None)
        (LargeGap (pkt_node pkt) (case (if 0 < n \<and> ic_max_gap st < q - n then Some (PInt (q - n)) else None)
           of Some g \<Rightarrow> g | None \<Rightarrow> PNone))
     (error_if ?ooo (OutOfOrder (pkt_node pkt) ?seq (ic_last st ?k))
     (error_if ?dup (ReplaySeen (pkt_node pkt) ?seq)
     (error_if (q \<le> 0) (InvalidSeq ?seq) new_result))))))"
  have res: "?r f = ic_result st now pkt f" for f
  proof (rule check_result_eqI)
    show "cr_passed (?r f) = cr_passed (ic_result st now pkt f)"
      using pass by (auto simp: ic_result_def sn n(3) Let_def)
    show "cr_warnings (?r f) = cr_warnings (ic_result st now pkt f)"
      by (simp add: ic_result_def sn n(3) Let_def new_result_def)
    show "cr_errors (?r f) = cr_errors (ic_result st now pkt f)"
      by (simp add: ic_result_def sn n(3) Let_def new_result_def)
  qed
  have le0: "py_le ?seq (PInt 0) = Inr (q \<le> 0)" using q by simp
  have nab: "not_above (ic_last st ?k) ?seq = Inr ?ooo" using q n(1) by simp
  have gap: "gap_above (ic_max_gap st) (ic_last st ?k) ?seq =
      Inr (if 0 < n \<and> ic_max_gap st < q - n then Some (PInt (q - n)) else None)"
    using q n(1) by simp
  show ?thesis
    unfolding integrity_check_def pkt_node_def [symmetric] pkt_seq_def [symmetric] Let_def
      ic_init_node_simps(1) seen0 norm_key_int [OF q] le0 nab gap sum.case cnt res
    using node by simp
qed


lemma ic_counted_simps [simp]:
  "ic_last (ic_counted st pkt) = ic_last st"
  "ic_inv st \<Longrightarrow> ic_inv (ic_counted st pkt)"
  "ic_checked (ic_counted st pkt) = ic_checked st"
  "ic_passed (ic_counted st pkt) = ic_passed st"
  "ic_failed (ic_counted st pkt) = ic_failed st"
  "ic_max_gap (ic_counted st pkt) = ic_max_gap st"
  "ic_check_signatures (ic_counted st pkt) = ic_check_signatures st"
  "ic_check_timestamps (ic_counted st pkt) = ic_check_timestamps st"
  by (auto simp: ic_counted_def Let_def fun_eq_iff)

lemma ic_finish_last:
  "ic_last (ic_finish k seq r st) j = (if cr_passed r \<and> j = k then seq else ic_last st j)"
  by (simp add: ic_finish_def Let_def)

lemma ic_finish_inv:
  assumes "ic_inv st" and "int_of seq = Some q" and "cr_passed r \<Longrightarrow> 0 < q \<and> last_int st k < q"
  shows "ic_inv (ic_finish k seq r st)"
proof -
  obtain n where n: "int_of (ic_last st k) = Some n" "last_int st k = n"
    using assms(1) by (rule ic_lastE)
  have "cr_passed r \<Longrightarrow> ic_inv (ic_remember k seq st)"
    using assms n by (intro ic_remember_inv [where q = q]) auto
  then show ?thesis using assms(1) by (simp add: ic_finish_def Let_def)
qed

lemma ic_result_passed:
  "cr_passed (ic_result st now pkt f) \<Longrightarrow>
   0 < seq_num pkt \<and> last_int st (norm_key (pkt_node pkt)) < seq_num pkt \<and> \<not> is_stale f \<and>
   (ic_check_signatures st \<longrightarrow> ic_has_sig pkt)"
  by (simp add: ic_result_def Let_def)

lemma last_int_cong: "ic_last st k = ic_last st' k \<Longrightarrow> last_int st k = last_int st' k"
  by (simp add: last_int_def)

text \<open>The outcome and the state after a check, split by its three ways to end.\<close>

lemma integrity_check_cases:
  assumes "ic_inv st" and "is_int (pkt_seq pkt)" and "hashable (pkt_node pkt)"
    and "integrity_check st now pkt = (r, st')"
  shows "ic_inv st'"
    and "ic_accepts r \<Longrightarrow> 0 < seq_num pkt \<and> last_int st (norm_key (pkt_node pkt)) < seq_num pkt \<and>
           (ic_check_signatures st \<longrightarrow> ic_has_sig pkt)"
    and "last_int st' k = (if ic_accepts r \<and> k = norm_key (pkt_node pkt) then seq_num pkt else last_int st k)"
proof -
  obtain q where q: "int_of (pkt_seq pkt) = Some q" using assms(2) by (auto simp: is_int_def)
  have sn: "seq_num pkt = q" using q by (simp add: seq_num_def)
  let ?k = "norm_key (pkt_node pkt)"
  have li: "last_int (ic_counted st pkt) j = last_int st j" for j
    by (rule last_int_cong) (simp add: assms(1))
  consider e where "r = Inl e" "st' = ic_counted st pkt"
    | f where "r = Inr (ic_result st now pkt f)"
        "st' = ic_finish ?k (pkt_seq pkt) (ic_result st now pkt f) (ic_counted st pkt)"
    using assms(4) unfolding integrity_check_eq [OF assms(1-3)] by (auto split: sum.splits)
  note cases = this
  have fin: "ic_inv (ic_finish ?k (pkt_seq pkt) (ic_result st now pkt f) (ic_counted st pkt))" for f
    using ic_result_passed [of st now pkt f] q sn li assms(1) by (intro ic_finish_inv [where q = q]) auto
  have fl: "last_int (ic_finish ?k (pkt_seq pkt) (ic_result st now pkt f) (ic_counted st pkt)) j =
      (if cr_passed (ic_result st now pkt f) \<and> j = ?k then q else last_int st j)" for f j
    using q by (simp add: last_int_def ic_finish_last)
  show "ic_inv st'"
    using cases by cases (simp_all add: fin assms(1))
  show "ic_accepts r \<Longrightarrow> 0 < seq_num pkt \<and> last_int st ?k < seq_num pkt \<and>
           (ic_check_signatures st \<longrightarrow> ic_has_sig pkt)"
    using cases ic_result_passed [of st now pkt] by cases (auto simp: ic_accepts_def)
  show "last_int st' k = (if ic_accepts r \<and> k = ?k then seq_num pkt else last_int st k)"
    using cases by cases (simp_all add: ic_accepts_def li fl sn)
qed

section \<open>The relay's checker is a replay guard\<close>

definition integrity_step :: "integrity \<Rightarrow> clock \<times> pydict \<Rightarrow> bool \<times> integrity" where
  "integrity_step st x = (let (r, st') = integrity_check st (fst x) (snd x) in (ic_accepts r, st'))"

definition seq_ok :: "clock \<times> pydict \<Rightarrow> bool" where
  "seq_ok x = (is_int (pkt_seq (snd x)) \<and> hashable (pkt_node (snd x)))"

interpretation ic: replay_guard integrity_step last_int
  "\<lambda>x. norm_key (pkt_node (snd x))" "\<lambda>x. seq_num (snd x)" ic_inv seq_ok
proof
  fix s x n
  assume inv: "ic_inv s" and ok: "seq_ok x"
  obtain r s' where c: "integrity_check s (fst x) (snd x) = (r, s')" by fastforce
  note cs = integrity_check_cases [OF inv _ _ c]
  show "ic_inv (snd (integrity_step s x))"
    using cs(1) ok c by (simp add: integrity_step_def seq_ok_def)
  show "fst (integrity_step s x) \<Longrightarrow> last_int s (norm_key (pkt_node (snd x))) < seq_num (snd x)"
    using cs(2) ok c by (simp add: integrity_step_def seq_ok_def)
  show "last_int (snd (integrity_step s x)) n =
      (if fst (integrity_step s x) \<and> n = norm_key (pkt_node (snd x)) then seq_num (snd x) else last_int s n)"
    using cs(3) ok c by (simp add: integrity_step_def seq_ok_def)
qed

section \<open>Counters\<close>

text \<open>A check that returns counts once, as passed or failed; one that raises counts in neither.\<close>

lemma integrity_check_counts:
  assumes "ic_inv st" and "is_int (pkt_seq pkt)" and "hashable (pkt_node pkt)"
    and "integrity_check st now pkt = (r, st')"
  shows "ic_checked st' = ic_checked st + (if is_err r then 0 else 1)"
    and "ic_passed st' = ic_passed st + (if ic_accepts r then 1 else 0)"
    and "ic_failed st' = ic_failed st + (if is_err r \<or> ic_accepts r then 0 else 1)"
  using assms(4) unfolding integrity_check_eq [OF assms(1-3)]
  by (auto simp: ic_finish_def ic_remember_def ic_accepts_def Let_def split: sum.splits)

text \<open>What the pipeline around the checker needs to know of a passed check, without the invariant.\<close>

lemma integrity_reset_inv: "ic_inv st \<Longrightarrow> ic_inv (integrity_reset_node node st)"
  by (auto simp: ic_inv_def integrity_reset_node_def ic_last_def ic_seen_def)

lemma integrity_annotate_fst:
  "fst (integrity_annotate st now pkt) = rbind (fst (integrity_check st now pkt))
     (\<lambda>r. Inr (dict_set ''integrity_passed'' (PBool (cr_passed r)) pkt, r))"
  and integrity_annotate_snd: "snd (integrity_annotate st now pkt) = snd (integrity_check st now pkt)"
  by (auto simp: integrity_annotate_def split: prod.split sum.split)

section \<open>The promises of the checker\<close>

lemma ic_result_errors:
  assumes "ic_inv st"
  shows "cr_errors (ic_result st now pkt f) = [] \<longleftrightarrow> cr_passed (ic_result st now pkt f)"
proof -
  let ?l = "last_int st (norm_key (pkt_node pkt))"
  obtain n where "?l = n" "0 \<le> n" "\<forall>s\<in>set (ic_seen st (norm_key (pkt_node pkt))). \<exists>m. s = PInt m \<and> 0 < m \<and> m \<le> n"
    using assms by (rule ic_lastE)
  then have "PInt q \<in> set (ic_seen st (norm_key (pkt_node pkt))) \<Longrightarrow> 0 < q \<and> q \<le> ?l" for q by fastforce
  with \<open>?l = n\<close> \<open>0 \<le> n\<close> show ?thesis by (auto simp: ic_result_def Let_def)
qed

definition ts_too_old :: "integrity \<Rightarrow> clock \<Rightarrow> int \<Rightarrow> bool" where
  "ts_too_old st now t = (ic_check_timestamps st \<and> 0 < t \<and> ic_max_ts_age st < clock_ms now - t)"

lemma integrity_check_returns:
  assumes "ic_inv st" and "int_of (pkt_seq pkt) = Some q" and "hashable (pkt_node pkt)"
    and "int_of (dict_get_or pkt ''timestamp'' (PInt 0)) = Some t"
  obtains f st' where "is_stale f = ts_too_old st now t"
    and "integrity_check st now pkt = (Inr (ic_result st now pkt f), st')"
proof -
  have seq: "is_int (pkt_seq pkt)" using assms(2) by (simp add: is_int_def)
  obtain f where f: "timestamp_age (ic_check_timestamps st) (ic_max_ts_age st) now
      (dict_get_or pkt ''timestamp'' (PInt 0)) = Inr f" and stale: "is_stale f = ts_too_old st now t"
  proof (cases "ic_check_timestamps st")
    case True
    then show thesis using that timestamp_age_int [OF assms(4), of "ic_max_ts_age st" now]
      by (auto simp: ts_too_old_def is_stale_def split: if_splits)
  next
    case False
    then show thesis using that [of Fresh] by (simp add: ts_too_old_def is_stale_def)
  qed
  have "\<exists>st'. integrity_check st now pkt = (Inr (ic_result st now pkt f), st')"
    using f unfolding integrity_check_eq [OF assms(1) seq assms(3)] by simp
  then show thesis using that [OF stale] by blast
qed

text \<open>The verdict of the relay's check on a packet with an integer sequence number and timestamp
  and a hashable node: it returns, it passes exactly when the number is positive and above the last
  accepted one of the node, the timestamp is not too old and a required signature is there; it
  reports an error exactly when it does not pass; a failed packet changes no node's last number;
  the counters account for the call; and the invariant (which bounds the replay window) is kept.\<close>

theorem integrity_verdict:
  assumes "ic_inv st" and "int_of (pkt_seq pkt) = Some q" and "hashable (pkt_node pkt)"
    and "int_of (dict_get_or pkt ''timestamp'' (PInt 0)) = Some t"
  shows "\<exists>r st'. integrity_check st now pkt = (Inr r, st') \<and> ic_inv st' \<and>
    (cr_passed r \<longleftrightarrow> 0 < q \<and> last_int st (norm_key (pkt_node pkt)) < q \<and> \<not> ts_too_old st now t \<and>
       (ic_check_signatures st \<longrightarrow> ic_has_sig pkt)) \<and>
    (cr_errors r = [] \<longleftrightarrow> cr_passed r) \<and>
    last_int st' = (if cr_passed r then (last_int st)(norm_key (pkt_node pkt) := q) else last_int st) \<and>
    ic_checked st' = ic_checked st + 1 \<and>
    ic_passed st' = ic_passed st + (if cr_passed r then 1 else 0) \<and>
    ic_failed st' = ic_failed st + (if cr_passed r then 0 else 1)"
proof -
  have seq: "is_int (pkt_seq pkt)" and sn: "seq_num pkt = q" using assms(2) by (simp_all add: is_int_def seq_num_def)
  obtain f st' where stale: "is_stale f = ts_too_old st now t"
    and c: "integrity_check st now pkt = (Inr (ic_result st now pkt f), st')"
    using assms by (rule integrity_check_returns)
  let ?r = "ic_result st now pkt f"
  note cs = integrity_check_cases [OF assms(1) seq assms(3) c] integrity_check_counts [OF assms(1) seq assms(3) c]
  have "cr_passed ?r \<longleftrightarrow> 0 < q \<and> last_int st (norm_key (pkt_node pkt)) < q \<and> \<not> ts_too_old st now t \<and>
       (ic_check_signatures st \<longrightarrow> ic_has_sig pkt)"
    by (simp add: ic_result_def Let_def sn stale)
  moreover have "last_int st' = (if cr_passed ?r then (last_int st)(norm_key (pkt_node pkt) := q) else last_int st)"
    using cs(3) by (auto simp: ic_accepts_def sn fun_eq_iff)
  ultimately show ?thesis using c cs ic_result_errors [OF assms(1), of now pkt f] by (simp add: ic_accepts_def)
qed

text \<open>The options of a checker, which no check changes, and what they ask of a packet beside its number.\<close>

definition ic_config :: "integrity \<Rightarrow> int \<times> bool \<times> bool" where
  "ic_config st = (ic_max_ts_age st, ic_check_timestamps st, ic_check_signatures st)"

definition ic_fine :: "int \<times> bool \<times> bool \<Rightarrow> clock \<times> pydict \<Rightarrow> bool" where
  "ic_fine cfg x =
     (case cfg of (max_age, check_ts, check_sigs) \<Rightarrow>
        (case int_of (dict_get_or (snd x) ''timestamp'' (PInt 0)) of
           Some t \<Rightarrow> \<not> (check_ts \<and> 0 < t \<and> max_age < clock_ms (fst x) - t) | None \<Rightarrow> False) \<and>
        (check_sigs \<longrightarrow> ic_has_sig (snd x)))"

definition ic_pkt_ok :: "clock \<times> pydict \<Rightarrow> bool" where
  "ic_pkt_ok x = (seq_ok x \<and> is_int (dict_get_or (snd x) ''timestamp'' (PInt 0)))"

lemma ic_config_simps: "ic_config (ic_counted st pkt) = ic_config st" "ic_config (ic_finish k s r st) = ic_config st"
  by (simp_all add: ic_config_def ic_counted_def ic_finish_def ic_remember_def ic_init_node_def Let_def)

lemma ic_config_check:
  assumes "ic_inv st" and "is_int (pkt_seq pkt)" and "hashable (pkt_node pkt)"
  shows "ic_config (snd (integrity_check st now pkt)) = ic_config st"
  unfolding integrity_check_eq [OF assms] by (simp add: ic_config_simps split: sum.split)

interpretation ic_ref: guard_refinement integrity_step last_int
  "\<lambda>x. norm_key (pkt_node (snd x))" "\<lambda>x. seq_num (snd x)" "\<lambda>s. ic_inv s \<and> ic_config s = cfg" ic_pkt_ok "ic_fine cfg"
  for cfg
proof
  fix s x n
  assume inv: "ic_inv s \<and> ic_config s = cfg" and ok: "ic_pkt_ok x"
  then have i: "ic_inv s" and o: "seq_ok x" by (simp_all add: ic_pkt_ok_def)
  have "ic_config (snd (integrity_step s x)) = ic_config s"
    using ic_config_check [OF i] o by (simp add: integrity_step_def seq_ok_def split_beta)
  then show "ic_inv (snd (integrity_step s x)) \<and> ic_config (snd (integrity_step s x)) = cfg"
    using ic.guard_inv [OF i o] inv by simp
  show "fst (integrity_step s x) \<Longrightarrow> last_int s (norm_key (pkt_node (snd x))) < seq_num (snd x)"
    by (rule ic.guard_above [OF i o])
  show "last_int (snd (integrity_step s x)) n =
      (if fst (integrity_step s x) \<and> n = norm_key (pkt_node (snd x)) then seq_num (snd x) else last_int s n)"
    by (rule ic.guard_last [OF i o])
  obtain q t where q: "int_of (pkt_seq (snd x)) = Some q" "hashable (pkt_node (snd x))"
    and t: "int_of (dict_get_or (snd x) ''timestamp'' (PInt 0)) = Some t"
    using ok by (auto simp: ic_pkt_ok_def seq_ok_def is_int_def)
  obtain f st' where "is_stale f = ts_too_old s (fst x) t"
    "integrity_check s (fst x) (snd x) = (Inr (ic_result s (fst x) (snd x) f), st')"
    by (rule integrity_check_returns [OF i q t])
  then show "fst (integrity_step s x) \<longleftrightarrow>
      ic_fine cfg x \<and> 0 < seq_num (snd x) \<and> last_int s (norm_key (pkt_node (snd x))) < seq_num (snd x)"
    using inv t by (auto simp: integrity_step_def ic_accepts_def ic_result_def Let_def ic_fine_def ic_config_def ts_too_old_def)
qed

definition sample_ic :: integrity where
  "sample_ic = integrity_init ''relay'' MAX_TIMESTAMP_AGE_MS MAX_SEQUENCE_GAP True True"

definition sample_packet :: "int \<Rightarrow> pydict" where
  "sample_packet q = [(''node_id'', PStr ''car_44''), (''sequence_no'', PInt q), (''timestamp'', PInt 999000),
     (''signature'', PStr ''ab'')]"

theorem integrity_verdict_witness:
  "\<exists>r st'. integrity_check sample_ic 1000 (sample_packet 7) = (Inr r, st') \<and> cr_passed r \<and>
     last_int st' (PStr ''car_44'') = 7 \<and> ic_passed st' = 1"
proof -
  have inv: "ic_inv sample_ic" by (simp add: sample_ic_def ic_inv_init)
  have l: "last_int sample_ic = (\<lambda>_. 0)" by (simp add: sample_ic_def integrity_init_def last_int_def ic_last_def fun_eq_iff)
  have "clock_ms 1000 = 1000000" by (rule clock_ms_int) simp_all
  then have t: "\<not> ts_too_old sample_ic 1000 999000"
    by (simp add: ts_too_old_def sample_ic_def integrity_init_def MAX_TIMESTAMP_AGE_MS_def)
  have p: "pkt_seq (sample_packet 7) = PInt 7" "pkt_node (sample_packet 7) = PStr ''car_44''"
    "dict_get_or (sample_packet 7) ''timestamp'' (PInt 0) = PInt 999000" "ic_has_sig (sample_packet 7)"
    by (simp_all add: sample_packet_def pkt_seq_def pkt_node_def dict_get_or_def dict_get_def py_or_def ic_has_sig_def)
  have "ic_passed sample_ic = 0" by (simp add: sample_ic_def integrity_init_def)
  with integrity_verdict [OF inv, of "sample_packet 7" 7 999000 1000] p t l show ?thesis by fastforce
qed

text \<open>The relay's checker accepts nothing twice: over any sequence of packets with integer numbers,
  the accepted numbers of each node are strictly increasing, no (node, number) pair is accepted a
  second time, and the window of remembered numbers never outgrows its limit.\<close>

theorem integrity_no_replay:
  assumes "ic_inv st" and "\<forall>x\<in>set xs. seq_ok x"
  shows "sorted_wrt (<) (map (\<lambda>x. seq_num (snd x))
      (filter (\<lambda>x. norm_key (pkt_node (snd x)) = n) (run_accepted integrity_step st xs))) \<and>
    distinct (map (\<lambda>x. (norm_key (pkt_node (snd x)), seq_num (snd x))) (run_accepted integrity_step st xs)) \<and>
    length (ic_seen (run_state integrity_step st xs) n) \<le> REPLAY_WINDOW_SIZE"
proof -
  have "ic_inv (run_state integrity_step st xs)" using assms by (rule ic.run_inv)
  then have "length (ic_seen (run_state integrity_step st xs) n) \<le> REPLAY_WINDOW_SIZE" by (rule ic_lastE)
  then show ?thesis using ic.accepted_sorted [OF assms, of n] ic.accepted_distinct [OF assms] by blast
qed

theorem integrity_no_replay_witness:
  "distinct (map (\<lambda>x. (norm_key (pkt_node (snd x)), seq_num (snd x))) (run_accepted integrity_step sample_ic
     [(1000, sample_packet 7), (1000, sample_packet 7), (1000, sample_packet 8)]))"
proof -
  have "ic_inv sample_ic" by (simp add: sample_ic_def ic_inv_init)
  from integrity_no_replay [OF this, of "[(1000, sample_packet 7), (1000, sample_packet 7), (1000, sample_packet 8)]"]
  show ?thesis by (simp add: seq_ok_def pkt_seq_def pkt_node_def sample_packet_def dict_get_or_def is_int_def split_beta
     del: distinct_map)
qed

text \<open>C28. The relay's checker refines the abstract guard: over any packets with integer numbers and
  timestamps, its decisions are those of a guard that remembers one number per node, and that number
  is its last one - so the window of remembered numbers and the separate replay check, whatever
  they report, never decide.\<close>

theorem integrity_refines_guard:
  assumes "ic_inv st" and "\<forall>x\<in>set xs. ic_pkt_ok x"
  shows "guard_run (last_int st)
      (map (\<lambda>x. (norm_key (pkt_node (snd x)), seq_num (snd x), ic_fine (ic_config st) x)) xs) =
    (run_decisions integrity_step st xs, last_int (run_state integrity_step st xs))"
  using assms ic_ref.refines_guard [of st "ic_config st" xs] by blast

theorem integrity_refines_guard_witness:
  "run_decisions integrity_step sample_ic [(1000, sample_packet 7), (1000, sample_packet 7), (1000, sample_packet 9)] =
     [True, False, True]"
proof -
  let ?xs = "[(1000, sample_packet 7), (1000, sample_packet 7), (1000, sample_packet 9)]"
  have c: "clock_ms 1000 = 1000000" by (rule clock_ms_int) simp_all
  have i: "ic_inv sample_ic" by (simp add: sample_ic_def ic_inv_init)
  have s: "last_int sample_ic = (\<lambda>_. 0)" "ic_config sample_ic = (30000, True, True)"
    by (simp_all add: sample_ic_def integrity_init_def last_int_def ic_last_def ic_config_def fun_eq_iff
        MAX_TIMESTAMP_AGE_MS_def)
  have p: "pkt_node (sample_packet q) = PStr ''car_44''" "pkt_seq (sample_packet q) = PInt q" "seq_num (sample_packet q) = q"
    "dict_get_or (sample_packet q) ''timestamp'' (PInt 0) = PInt 999000" "ic_has_sig (sample_packet q)" for q
    by (simp_all add: sample_packet_def pkt_node_def pkt_seq_def seq_num_def dict_get_or_def ic_has_sig_def dict_get_def py_or_def)
  have "\<forall>x\<in>set ?xs. ic_pkt_ok x" by (simp add: ic_pkt_ok_def seq_ok_def p is_int_def)
  from integrity_refines_guard [OF i this] show ?thesis
    by (simp add: s p ic_fine_def c del: run_decisions.simps run_state.simps)
qed

end
