(* ===== verification/Decryptor.thy ===== *)
theory Decryptor
  imports Encryptor
begin

text \<open>
  \<open>relay-node/src/decryptor.py\<close>: the relay's decryption of car packets, with one engine per car
  node. The engine of a session belongs to the decryptor. Inputs that cannot be converted raise
  outside the handler and escape as they are; everything raised by the primitive or the JSON reader
  becomes \<open>InvalidTag\<close> or \<open>DecryptionError\<close>. The lemmas characterise success and the counters.
\<close>

record decryptor =
  dec_node_id :: string
  dec_sessions :: "engine dict"
  dec_decrypted :: int
  dec_failed :: int
  dec_tampered :: int

definition decryptor_init :: "string \<Rightarrow> decryptor" where
  "decryptor_init node = \<lparr>dec_node_id = node, dec_sessions = [], dec_decrypted = 0, dec_failed = 0, dec_tampered = 0\<rparr>"

definition register_session :: "string \<Rightarrow> engine \<Rightarrow> decryptor \<Rightarrow> unit res \<times> decryptor" where
  "register_session node e d =
     (if \<not> session_established e then (Inl ValueErr, d)
      else (Inr (), d\<lparr>dec_sessions := dict_set node e (dec_sessions d)\<rparr>))"

text \<open>Unlike \<open>register_session\<close>, \<open>update_session\<close> does not ask for an established session.\<close>

definition update_session :: "string \<Rightarrow> engine \<Rightarrow> decryptor \<Rightarrow> decryptor" where
  "update_session node e d = d\<lparr>dec_sessions := dict_set node e (dec_sessions d)\<rparr>"

definition has_session :: "decryptor \<Rightarrow> string \<Rightarrow> bool" where
  "has_session d node = dict_has (dec_sessions d) node"

text \<open>A field as bytes, or from its hexadecimal form; the header may be missing in both forms.\<close>

definition field_or_hex :: "pydict \<Rightarrow> string \<Rightarrow> string \<Rightarrow> decrypt_failure \<Rightarrow> pyval res" where
  "field_or_hex pkt k khex missing =
     (if dict_get pkt k \<noteq> PNone then Inr (dict_get pkt k)
      else let h = dict_get_or pkt khex (PStr [])
           in if \<not> truthy h then Inl (DecryptionError missing)
              else rbind (py_fromhex h) (\<lambda>b. Inr (PBytes b)))"

definition header_or_hex :: "pydict \<Rightarrow> pyval res" where
  "header_or_hex pkt =
     (if dict_get pkt ''header'' \<noteq> PNone then Inr (dict_get pkt ''header'')
      else let h = dict_get_or pkt ''header_hex'' (PStr [])
           in if truthy h then rbind (py_fromhex h) (\<lambda>b. Inr (PBytes b)) else Inr PNone)"

text \<open>What is looked up before the guarded part: the session, the nonce, the ciphertext, the header.\<close>

definition decrypt_inputs :: "decryptor \<Rightarrow> pydict \<Rightarrow> (string \<times> engine \<times> pyval \<times> pyval \<times> pyval) res" where
  "decrypt_inputs d pkt =
     (let node = dict_get pkt ''node_id''
      in if \<not> truthy node then Inl (DecryptionError MissingNodeId)
         else rbind (lookup_str (dec_sessions d) node) (\<lambda>s.
           case (s, node) of
             (Some e, PStr n) \<Rightarrow>
               rbind (field_or_hex pkt ''nonce_bytes'' ''nonce'' MissingNonce) (\<lambda>nonce.
               rbind (field_or_hex pkt ''ciphertext_bytes'' ''ciphertext'' MissingCiphertext) (\<lambda>c.
               rbind (header_or_hex pkt) (\<lambda>h. Inr (n, e, nonce, c, h))))
           | _ \<Rightarrow> Inl (DecryptionError NoSession)))"

definition opened_fields :: "decryptor \<Rightarrow> pydict \<Rightarrow> bytes \<Rightarrow> pyval \<Rightarrow> pydict" where
  "opened_fields d pkt p js =
     dict_set ''decrypted_by'' (PStr (dec_node_id d))
       (dict_set ''decrypted'' (PBool True)
         (dict_set ''payload_json'' js (dict_set ''payload_bytes'' (PBytes p) pkt)))"

definition store_engine :: "string \<Rightarrow> engine \<Rightarrow> decryptor \<Rightarrow> decryptor" where
  "store_engine n e d = d\<lparr>dec_sessions := dict_set n e (dec_sessions d)\<rparr>"

definition decrypt_relay :: "pyca \<Rightarrow> pydict \<Rightarrow> decryptor \<Rightarrow> pydict res \<times> decryptor" where
  "decrypt_relay C pkt d =
     (case decrypt_inputs d pkt of
        Inl x \<Rightarrow> (Inl x, d)
      | Inr (n, e, nonce, c, h) \<Rightarrow>
          (case decrypt_values C nonce c h e of
             (Inl x, e') \<Rightarrow>
               let d1 = store_engine n e' d
               in if x = InvalidTag
                  then (Inl InvalidTag, d1\<lparr>dec_failed := dec_failed d1 + 1, dec_tampered := dec_tampered d1 + 1\<rparr>)
                  else (Inl (DecryptionError DecryptOther), d1\<lparr>dec_failed := dec_failed d1 + 1\<rparr>)
           | (Inr p, e') \<Rightarrow>
               let d1 = store_engine n e' d; d2 = d1\<lparr>dec_decrypted := dec_decrypted d1 + 1\<rparr>
               in case json_loads p of
                    Inl _ \<Rightarrow> (Inl (DecryptionError DecryptOther), d2\<lparr>dec_failed := dec_failed d2 + 1\<rparr>)
                  | Inr js \<Rightarrow> (Inr (opened_fields d pkt p js), d2)))"

definition is_decrypt_error :: "exn \<Rightarrow> bool" where
  "is_decrypt_error x = (x = InvalidTag \<or> (\<exists>f \<in> {MissingNodeId, NoSession, MissingNonce, MissingCiphertext, DecryptOther}. x = DecryptionError f))"

definition decrypt_batch :: "pyca \<Rightarrow> pydict list \<Rightarrow> decryptor \<Rightarrow> (pydict list \<times> (pydict \<times> exn) list) res \<times> decryptor" where
  "decrypt_batch C ps d = batch is_decrypt_error (decrypt_relay C) ps d"

section \<open>Properties\<close>

text \<open>The key the decryptor holds for a node.\<close>

definition dec_key :: "decryptor \<Rightarrow> string \<Rightarrow> bytes option" where
  "dec_key d n = (case map_of (dec_sessions d) n of None \<Rightarrow> None | Some e \<Rightarrow> engine_key e)"

lemma decrypt_values_key [simp]: "engine_key (snd (decrypt_values C n c h e)) = engine_key e"
  by (auto simp: decrypt_values_def split: sum.split)

lemma decrypt_values_InrD:
  assumes "decrypt_values C n c h e = (Inr p, e')"
  obtains nb cb a k where "n = PBytes nb" and "c = PBytes cb" and "aad_of h = Inr a"
    and "engine_key e = Some k" and "aead_decrypt C k nb cb a = Inr p"
  using assms
  by (auto simp: decrypt_values_def as_bytes_def decrypt_eq rbind_def
      split: sum.splits pyval.splits option.splits)

lemma decrypt_inputs_InrD:
  assumes "decrypt_inputs d pkt = Inr (n, e, nonce, c, h)"
  shows "dict_get pkt ''node_id'' = PStr n" and "map_of (dec_sessions d) n = Some e" and "n \<noteq> []"
    and "field_or_hex pkt ''nonce_bytes'' ''nonce'' MissingNonce = Inr nonce"
    and "field_or_hex pkt ''ciphertext_bytes'' ''ciphertext'' MissingCiphertext = Inr c"
    and "header_or_hex pkt = Inr h"
proof -
  from assms have t: "truthy (dict_get pkt ''node_id'')"
    and *: "rbind (lookup_str (dec_sessions d) (dict_get pkt ''node_id'')) (\<lambda>s.
           case (s, dict_get pkt ''node_id'') of
             (Some e, PStr n) \<Rightarrow>
               rbind (field_or_hex pkt ''nonce_bytes'' ''nonce'' MissingNonce) (\<lambda>nonce.
               rbind (field_or_hex pkt ''ciphertext_bytes'' ''ciphertext'' MissingCiphertext) (\<lambda>c.
               rbind (header_or_hex pkt) (\<lambda>h. Inr (n, e, nonce, c, h))))
           | _ \<Rightarrow> Inl (DecryptionError NoSession)) = Inr (n, e, nonce, c, h)"
    by (auto simp: decrypt_inputs_def Let_def split: if_splits)
  from * show "dict_get pkt ''node_id'' = PStr n" "map_of (dec_sessions d) n = Some e"
    "field_or_hex pkt ''nonce_bytes'' ''nonce'' MissingNonce = Inr nonce"
    "field_or_hex pkt ''ciphertext_bytes'' ''ciphertext'' MissingCiphertext = Inr c"
    "header_or_hex pkt = Inr h"
    by (auto elim!: rbind_InrE lookup_str_SomeE split: option.splits pyval.splits)
  with t show "n \<noteq> []" by simp
qed

lemma decrypt_relay_InrD:
  assumes "decrypt_relay C pkt d = (Inr r, d')"
  obtains n k nb cb h a p js where "dict_get pkt ''node_id'' = PStr n" and "n \<noteq> []"
    and "dec_key d n = Some k"
    and "field_or_hex pkt ''nonce_bytes'' ''nonce'' MissingNonce = Inr (PBytes nb)"
    and "field_or_hex pkt ''ciphertext_bytes'' ''ciphertext'' MissingCiphertext = Inr (PBytes cb)"
    and "header_or_hex pkt = Inr h" and "aad_of h = Inr a"
    and "aead_decrypt C k nb cb a = Inr p" and "json_loads p = Inr js"
    and "r = opened_fields d pkt p js"
proof -
  obtain n e nonce c h e' p js where in': "decrypt_inputs d pkt = Inr (n, e, nonce, c, h)"
    and dv: "decrypt_values C nonce c h e = (Inr p, e')" and js: "json_loads p = Inr js"
    and r: "r = opened_fields d pkt p js"
    using assms by (auto simp: decrypt_relay_def Let_def split: sum.splits prod.splits if_splits)
  from dv obtain nb cb a k where "nonce = PBytes nb" "c = PBytes cb" "aad_of h = Inr a"
    "engine_key e = Some k" "aead_decrypt C k nb cb a = Inr p" by (rule decrypt_values_InrD)
  with decrypt_inputs_InrD [OF in'] js r show thesis
    by (intro that [of n k nb cb h a p js]) (auto simp: dec_key_def)
qed

lemma store_engine_simps [simp]:
  "dec_sessions (store_engine n e d) = dict_set n e (dec_sessions d)"
  "dec_node_id (store_engine n e d) = dec_node_id d"
  "dec_decrypted (store_engine n e d) = dec_decrypted d"
  "dec_failed (store_engine n e d) = dec_failed d"
  "dec_tampered (store_engine n e d) = dec_tampered d"
  by (simp_all add: store_engine_def)

text \<open>Decryption never changes a key.\<close>

lemma decrypt_relay_keys:
  assumes "decrypt_relay C pkt d = (r, d')"
  shows "dec_key d' n = dec_key d n" and "dec_node_id d' = dec_node_id d"
proof -
  have "dec_key d' n = dec_key d n \<and> dec_node_id d' = dec_node_id d"
  proof (cases "decrypt_inputs d pkt")
    case (Inl x)
    with assms show ?thesis by (simp add: decrypt_relay_def)
  next
    case (Inr y)
    obtain m e nonce c h where y: "y = (m, e, nonce, c, h)" by (cases y)
    obtain q e' where dv: "decrypt_values C nonce c h e = (q, e')" by fastforce
    have "map_of (dec_sessions d) m = Some e" using decrypt_inputs_InrD(2) Inr y by blast
    moreover have "engine_key e' = engine_key e" using decrypt_values_key [of C nonce c h e] dv by simp
    ultimately have "dec_key (store_engine m e' d) n = dec_key d n" by (simp add: dec_key_def)
    moreover have "dec_sessions d' = dec_sessions (store_engine m e' d) \<and> dec_node_id d' = dec_node_id d"
      using assms Inr y dv by (auto simp: decrypt_relay_def Let_def split: sum.splits if_splits)
    ultimately show ?thesis by (simp add: dec_key_def)
  qed
  then show "dec_key d' n = dec_key d n" and "dec_node_id d' = dec_node_id d" by auto
qed

lemma rbind_not_tag: "m \<noteq> Inl InvalidTag \<Longrightarrow> (\<And>x. f x \<noteq> Inl InvalidTag) \<Longrightarrow> rbind m f \<noteq> Inl InvalidTag"
  by (cases m) auto

lemma py_fromhex_not_tag: "py_fromhex v \<noteq> Inl InvalidTag"
  by (auto simp: py_fromhex_def split: pyval.split option.split)

lemma field_or_hex_not_tag: "field_or_hex pkt k kh m \<noteq> Inl InvalidTag" "header_or_hex pkt \<noteq> Inl InvalidTag"
  by (simp_all add: field_or_hex_def header_or_hex_def Let_def rbind_not_tag py_fromhex_not_tag)

lemma decrypt_inputs_not_tag: "decrypt_inputs d pkt \<noteq> Inl InvalidTag"
proof -
  have "lookup_str (dec_sessions d) v \<noteq> Inl InvalidTag" for v
    by (simp add: lookup_str_def)
  then show ?thesis
    by (simp add: decrypt_inputs_def Let_def field_or_hex_not_tag rbind_not_tag
        split: option.split pyval.split)
qed

text \<open>How a call counts: one tamper per \<open>InvalidTag\<close>, one decryption per packet returned.\<close>

lemma decrypt_relay_counts:
  assumes "decrypt_relay C pkt d = (r, d')"
  shows "dec_tampered d' = dec_tampered d + (if r = Inl InvalidTag then 1 else 0)"
    and "\<not> is_err r \<Longrightarrow> dec_decrypted d' = dec_decrypted d + 1 \<and> dec_failed d' = dec_failed d"
    and "r = Inl InvalidTag \<Longrightarrow> dec_decrypted d' = dec_decrypted d \<and> dec_failed d' = dec_failed d + 1"
proof -
  consider x where "decrypt_inputs d pkt = Inl x" "r = Inl x" "d' = d" "x \<noteq> InvalidTag"
    | m e e' where "r = Inl InvalidTag"
        "d' = (store_engine m e' d)\<lparr>dec_failed := dec_failed d + 1, dec_tampered := dec_tampered d + 1\<rparr>"
    | m e e' where "r = Inl (DecryptionError DecryptOther)" "d' = (store_engine m e' d)\<lparr>dec_failed := dec_failed d + 1\<rparr>"
    | m e e' where "r = Inl (DecryptionError DecryptOther)"
        "d' = (store_engine m e' d)\<lparr>dec_decrypted := dec_decrypted d + 1, dec_failed := dec_failed d + 1\<rparr>"
    | m e e' y where "r = Inr y" "d' = (store_engine m e' d)\<lparr>dec_decrypted := dec_decrypted d + 1\<rparr>"
  proof (cases "decrypt_inputs d pkt")
    case (Inl x)
    with assms decrypt_inputs_not_tag [of d pkt] show ?thesis
      by (intro that(1) [of x]) (auto simp: decrypt_relay_def)
  next
    case (Inr y)
    obtain m e nonce c h where y: "y = (m, e, nonce, c, h)" by (cases y)
    obtain q e' where dv: "decrypt_values C nonce c h e = (q, e')" by fastforce
    show ?thesis
    proof (cases q)
      case (Inl x)
      with assms Inr y dv that(2,3) show ?thesis
        by (cases "x = InvalidTag") (auto simp: decrypt_relay_def Let_def)
    next
      case (Inr p)
      with assms \<open>decrypt_inputs d pkt = Inr y\<close> y dv that(4,5) show ?thesis
        by (cases "json_loads p") (auto simp: decrypt_relay_def Let_def)
    qed
  qed
  then show "dec_tampered d' = dec_tampered d + (if r = Inl InvalidTag then 1 else 0)"
    and "\<not> is_err r \<Longrightarrow> dec_decrypted d' = dec_decrypted d + 1 \<and> dec_failed d' = dec_failed d"
    and "r = Inl InvalidTag \<Longrightarrow> dec_decrypted d' = dec_decrypted d \<and> dec_failed d' = dec_failed d + 1"
    by (cases; simp)+
qed

text \<open>A packet sealed with the key of its node opens.\<close>

lemma decrypt_relay_sealed:
  assumes "aead_law C" and "aead_encrypt C k nb p (Some hb) = Inr cb"
    and "dict_get pkt ''node_id'' = PStr n" and "n \<noteq> []" and "dec_key d n = Some k"
    and "dict_get pkt ''nonce_bytes'' = PBytes nb" and "dict_get pkt ''ciphertext_bytes'' = PBytes cb"
    and "dict_get pkt ''header'' = PBytes hb" and "json_loads p = Inr js"
  shows "\<exists>d'. decrypt_relay C pkt d = (Inr (opened_fields d pkt p js), d')"
proof -
  obtain e where e: "map_of (dec_sessions d) n = Some e" "engine_key e = Some k"
    using assms(5) by (auto simp: dec_key_def split: option.splits)
  have "aead_decrypt C k nb cb (Some hb) = Inr p" using assms(1,2) by (simp add: aead_lawD)
  with e assms(3-) show ?thesis
    by (simp add: decrypt_relay_def decrypt_inputs_def field_or_hex_def header_or_hex_def decrypt_eq Let_def)
qed

end
