(* ===== verification/AnomalyFilter.thy ===== *)
theory AnomalyFilter
  imports Json
begin

text \<open>
  \<open>relay-node/src/anomaly_filters.py\<close>: per channel, the physical bounds, the calibrated thresholds
  of the team and the change since the last value of the node. A value outside its physical bounds
  rejects the packet and skips the other checks of its channel; the rest flags it. Values are
  Python objects, so a comparison may raise and NaN is outside no interval. The lemmas say exactly
  which packets are rejected and that severities only escalate.
\<close>

section \<open>Limits and results\<close>

definition CHANNELS :: "string list" where
  "CHANNELS = [''Speed'', ''RPM'', ''Throttle'', ''Brake'', ''nGear'', ''DRS'']"

definition PHYSICAL_LIMITS :: "(rat \<times> rat) dict" where
  "PHYSICAL_LIMITS = [(''Speed'', - 5, 400), (''RPM'', 0, 16000), (''Throttle'', 0, 100),
     (''Brake'', 0, 1), (''nGear'', 0, 8), (''DRS'', 0, 14)]"

definition ROC_LIMITS :: "rat dict" where
  "ROC_LIMITS = [(''Speed'', 50), (''RPM'', 3000), (''Throttle'', 100), (''Brake'', 1),
     (''nGear'', 2), (''DRS'', 14)]"

datatype severity = SEVERITY_PASS | SEVERITY_FLAG | SEVERITY_REJECT

text \<open>Why a channel is reported, with the values of the \<open>expected\<close> text.\<close>

datatype violation_reason =
    PhysicalBounds rat rat
  | BelowThreshold pyval
  | AboveThreshold pyval
  | RateOfChange pyfloat

record violation =
  vio_channel :: string
  vio_value :: pyval
  vio_reason :: violation_reason
  vio_severity :: severity

record anomaly_result =
  an_severity :: severity
  an_violations :: "violation list"

definition new_anomaly :: anomaly_result where
  "new_anomaly = \<lparr>an_severity = SEVERITY_PASS, an_violations = []\<rparr>"

definition escalate :: "severity \<Rightarrow> severity \<Rightarrow> severity" where
  "escalate new old =
     (if new = SEVERITY_REJECT then SEVERITY_REJECT
      else if new = SEVERITY_FLAG \<and> old = SEVERITY_PASS then SEVERITY_FLAG else old)"

definition add_violation :: "violation \<Rightarrow> anomaly_result \<Rightarrow> anomaly_result" where
  "add_violation v r = r\<lparr>an_severity := escalate (vio_severity v) (an_severity r),
                         an_violations := an_violations r @ [v]\<rparr>"

definition is_clean :: "anomaly_result \<Rightarrow> bool" where "is_clean r = (an_severity r = SEVERITY_PASS)"
definition is_flagged :: "anomaly_result \<Rightarrow> bool" where "is_flagged r = (an_severity r = SEVERITY_FLAG)"
definition is_rejected :: "anomaly_result \<Rightarrow> bool" where "is_rejected r = (an_severity r = SEVERITY_REJECT)"

section \<open>State\<close>

record anomaly_filter =
  af_node_id :: string
  af_thresholds :: pyval
  af_last_values :: "pyval \<rightharpoonup> pydict"
  af_checked :: int
  af_flagged :: int
  af_rejected :: int

text \<open>\<open>_load_thresholds\<close> from the content of the file, when there is one.\<close>

definition load_thresholds :: "bytes option \<Rightarrow> pyval" where
  "load_thresholds file =
     (case file of None \<Rightarrow> PDict []
      | Some b \<Rightarrow> (case json_loads b of Inl _ \<Rightarrow> PDict [] | Inr v \<Rightarrow> v))"

definition is_dict :: "pyval \<Rightarrow> bool" where
  "is_dict v = (case v of PDict _ \<Rightarrow> True | _ \<Rightarrow> False)"

definition anomaly_init :: "string \<Rightarrow> bytes option \<Rightarrow> anomaly_filter res" where
  "anomaly_init node file =
     (let t = load_thresholds file
      in if truthy t \<and> \<not> is_dict t then Inl AttributeErr
         else Inr \<lparr>af_node_id = node, af_thresholds = t, af_last_values = Map.empty,
                   af_checked = 0, af_flagged = 0, af_rejected = 0\<rparr>)"

section \<open>The checks of one channel\<close>

text \<open>\<open>d.get(k)\<close> for a key that need not be a string.\<close>

definition get_key :: "pyval \<Rightarrow> pyval \<Rightarrow> pyval res" where
  "get_key d k = (case d of
     PDict m \<Rightarrow> (if \<not> hashable k then Inl TypeErr
                 else Inr (case k of PStr s \<Rightarrow> dict_get m s | _ \<Rightarrow> PNone))
   | _ \<Rightarrow> Inl AttributeErr)"

definition get_thresholds :: "anomaly_filter \<Rightarrow> pyval \<Rightarrow> pyval res" where
  "get_thresholds f team =
     rbind (get_key (af_thresholds f) team) (\<lambda>t.
       if truthy t then Inr t
       else rbind (get_key (af_thresholds f) (PStr ''combined'')) (\<lambda>c. Inr (py_or c (PDict []))))"

definition out_of_bounds :: "rat \<times> rat \<Rightarrow> pyval \<Rightarrow> bool res" where
  "out_of_bounds bnds v =
     rbind (py_lt v (PFloat (FFin (fst bnds)))) (\<lambda>b.
       if b then Inr True else py_gt v (PFloat (FFin (snd bnds))))"

definition physical_check :: "string \<Rightarrow> pyval \<Rightarrow> violation option res" where
  "physical_check ch v =
     (case map_of PHYSICAL_LIMITS ch of None \<Rightarrow> Inr None
      | Some bnds \<Rightarrow> rbind (out_of_bounds bnds v) (\<lambda>b. Inr (
          if b then Some \<lparr>vio_channel = ch, vio_value = v, vio_reason = PhysicalBounds (fst bnds) (snd bnds),
                          vio_severity = SEVERITY_REJECT\<rparr>
          else None)))"

text \<open>\<open>bound is not None and value < bound\<close>, and with the sides exchanged.\<close>

definition below :: "pyval \<Rightarrow> pyval \<Rightarrow> bool res" where
  "below v lower = (if lower = PNone then Inr False else py_lt v lower)"

definition above :: "pyval \<Rightarrow> pyval \<Rightarrow> bool res" where
  "above v upper = (if upper = PNone then Inr False else py_gt v upper)"

definition threshold_check :: "pyval \<Rightarrow> string \<Rightarrow> pyval \<Rightarrow> violation option res" where
  "threshold_check thresholds ch v =
     rbind (py_in ch thresholds) (\<lambda>here.
       if \<not> here then Inr None
       else rbind (py_item thresholds ch) (\<lambda>t.
         rbind (get_key t (PStr ''lower'')) (\<lambda>lower. rbind (get_key t (PStr ''upper'')) (\<lambda>upper.
         rbind (below v lower) (\<lambda>b.
           if b then Inr (Some \<lparr>vio_channel = ch, vio_value = v, vio_reason = BelowThreshold lower,
                                vio_severity = SEVERITY_FLAG\<rparr>)
           else rbind (above v upper) (\<lambda>a. Inr (
             if a then Some \<lparr>vio_channel = ch, vio_value = v, vio_reason = AboveThreshold upper,
                             vio_severity = SEVERITY_FLAG\<rparr>
             else None)))))))"

definition roc_limit :: "string \<Rightarrow> pyfloat" where
  "roc_limit ch = (case map_of ROC_LIMITS ch of Some l \<Rightarrow> FFin l | None \<Rightarrow> FPInf)"

definition roc_check :: "pydict \<Rightarrow> string \<Rightarrow> pyval \<Rightarrow> violation option res" where
  "roc_check prev ch v =
     (if \<not> dict_has prev ch then Inr None
      else rbind (py_sub v (dict_get prev ch)) (\<lambda>diff. rbind (py_abs diff) (\<lambda>roc.
        rbind (py_gt roc (PFloat (roc_limit ch))) (\<lambda>b. Inr (
          if b then Some \<lparr>vio_channel = ch, vio_value = v, vio_reason = RateOfChange (roc_limit ch),
                          vio_severity = SEVERITY_FLAG\<rparr>
          else None)))))"

definition report :: "violation option \<Rightarrow> anomaly_result \<Rightarrow> anomaly_result" where
  "report v r = (case v of None \<Rightarrow> r | Some x \<Rightarrow> add_violation x r)"

definition last_values :: "anomaly_filter \<Rightarrow> pyval \<Rightarrow> pydict res" where
  "last_values f node =
     (if \<not> hashable node then Inl TypeErr
      else Inr (case af_last_values f (norm_key node) of Some d \<Rightarrow> d | None \<Rightarrow> []))"

text \<open>
  One pass of the loop over the channels: \<open>continue\<close> when the channel is absent, and after a
  physical violation.
\<close>

definition check_channel ::
  "anomaly_filter \<Rightarrow> pyval \<Rightarrow> pyval \<Rightarrow> pyval \<Rightarrow> string \<Rightarrow> anomaly_result \<Rightarrow> anomaly_result res" where
  "check_channel f payload node thresholds ch r =
     rbind (py_in ch payload) (\<lambda>here.
       if \<not> here then Inr r
       else rbind (py_item payload ch) (\<lambda>v. rbind (physical_check ch v) (\<lambda>pv.
         if pv \<noteq> None then Inr (report pv r)
         else rbind (threshold_check thresholds ch v) (\<lambda>tv.
              rbind (last_values f node) (\<lambda>prev. rbind (roc_check prev ch v) (\<lambda>rv.
                Inr (report rv (report tv r))))))))"

fun check_channels ::
  "anomaly_filter \<Rightarrow> pyval \<Rightarrow> pyval \<Rightarrow> pyval \<Rightarrow> string list \<Rightarrow> anomaly_result \<Rightarrow> anomaly_result res" where
  "check_channels f payload node thresholds [] r = Inr r"
| "check_channels f payload node thresholds (ch # chs) r =
     rbind (check_channel f payload node thresholds ch r) (check_channels f payload node thresholds chs)"

text \<open>The values of this packet become the last values of its node, whatever the result.\<close>

fun remember_channels :: "pyval \<Rightarrow> string list \<Rightarrow> pydict \<Rightarrow> pydict res" where
  "remember_channels payload [] d = Inr d"
| "remember_channels payload (ch # chs) d =
     rbind (py_in ch payload) (\<lambda>here.
       if here then rbind (py_item payload ch) (\<lambda>v. remember_channels payload chs (dict_set ch v d))
       else remember_channels payload chs d)"

definition af_count :: "anomaly_result \<Rightarrow> anomaly_filter \<Rightarrow> anomaly_filter" where
  "af_count r f =
     f\<lparr>af_checked := af_checked f + 1,
       af_flagged := af_flagged f + (if is_flagged r then 1 else 0),
       af_rejected := af_rejected f + (if is_rejected r then 1 else 0)\<rparr>"

definition an_payload :: "pydict \<Rightarrow> pyval" where
  "an_payload pkt = dict_get_or pkt ''payload_json'' (PDict [])"

definition an_node :: "pydict \<Rightarrow> pyval" where
  "an_node pkt = dict_get_or pkt ''node_id'' (PStr ''unknown'')"

definition anomaly_check :: "pydict \<Rightarrow> anomaly_filter \<Rightarrow> anomaly_result res \<times> anomaly_filter" where
  "anomaly_check pkt f =
     (case rbind (get_thresholds f (dict_get_or pkt ''team'' (PStr ''combined''))) (\<lambda>t.
             rbind (check_channels f (an_payload pkt) (an_node pkt) t CHANNELS new_anomaly) (\<lambda>r.
             rbind (last_values f (an_node pkt)) (\<lambda>prev.
             rbind (remember_channels (an_payload pkt) CHANNELS prev) (\<lambda>d. Inr (r, d))))) of
        Inl e \<Rightarrow> (Inl e, f)
      | Inr (r, d) \<Rightarrow>
          (Inr r, af_count r (f\<lparr>af_last_values := (af_last_values f)(norm_key (an_node pkt) \<mapsto> d)\<rparr>)))"

text \<open>\<open>check_and_annotate\<close>; the nested \<open>anomaly_result\<close> entry is the result returned beside.\<close>

definition anomaly_annotate :: "pydict \<Rightarrow> anomaly_filter \<Rightarrow> (pydict \<times> anomaly_result) res \<times> anomaly_filter" where
  "anomaly_annotate pkt f =
     (case anomaly_check pkt f of
        (Inl e, f') \<Rightarrow> (Inl e, f')
      | (Inr r, f') \<Rightarrow>
          (Inr (dict_set ''anomaly_rejected'' (PBool (is_rejected r))
                 (dict_set ''anomaly_flagged'' (PBool (is_flagged r))
                   (dict_set ''anomaly_clean'' (PBool (is_clean r)) pkt)), r), f'))"

fun anomaly_batch :: "pydict list \<Rightarrow> anomaly_filter \<Rightarrow> (pydict list \<times> pydict list \<times> pydict list) res \<times> anomaly_filter" where
  "anomaly_batch [] f = (Inr ([], [], []), f)"
| "anomaly_batch (p # ps) f =
     (case anomaly_annotate p f of
        (Inl e, f') \<Rightarrow> (Inl e, f')
      | (Inr (a, r), f') \<Rightarrow> (case anomaly_batch ps f' of
            (Inl e, f'') \<Rightarrow> (Inl e, f'')
          | (Inr (cs, fs, rs), f'') \<Rightarrow>
              (Inr (if is_rejected r then (cs, fs, a # rs)
                    else if is_flagged r then (cs, a # fs, rs) else (a # cs, fs, rs)), f'')))"

section \<open>Severity\<close>

fun level :: "severity \<Rightarrow> nat" where
  "level SEVERITY_PASS = 0"
| "level SEVERITY_FLAG = 1"
| "level SEVERITY_REJECT = 2"

text \<open>The severity of a result is the highest of its violations.\<close>

definition wf_anomaly :: "anomaly_result \<Rightarrow> bool" where
  "wf_anomaly r = (level (an_severity r) = Max (insert 0 ((level \<circ> vio_severity) ` set (an_violations r))))"

lemma level_escalate: "level (escalate new old) = max (level new) (level old)"
  by (cases new; cases old) (simp_all add: escalate_def)

lemma wf_new_anomaly [simp]: "wf_anomaly new_anomaly"
  by (simp add: wf_anomaly_def new_anomaly_def)

lemma wf_add_violation [simp]: "wf_anomaly r \<Longrightarrow> wf_anomaly (add_violation v r)"
proof -
  assume wf: "wf_anomaly r"
  let ?S = "insert 0 ((level \<circ> vio_severity) ` set (an_violations r))"
  have "insert 0 ((level \<circ> vio_severity) ` set (an_violations r @ [v])) = insert (level (vio_severity v)) ?S"
    by auto
  moreover have "Max (insert (level (vio_severity v)) ?S) = max (level (vio_severity v)) (Max ?S)"
    by (rule Max_insert) auto
  ultimately show ?thesis using wf by (simp add: wf_anomaly_def add_violation_def level_escalate)
qed

lemma wf_report [simp]: "wf_anomaly r \<Longrightarrow> wf_anomaly (report v r)"
  by (simp add: report_def split: option.split)

lemma wf_check_channel: "wf_anomaly r \<Longrightarrow> check_channel f p n t ch r = Inr r' \<Longrightarrow> wf_anomaly r'"
  by (auto simp: check_channel_def elim!: rbind_InrE split: if_splits)

lemma wf_check_channels: "wf_anomaly r \<Longrightarrow> check_channels f p n t chs r = Inr r' \<Longrightarrow> wf_anomaly r'"
  by (induction chs arbitrary: r) (auto elim!: rbind_InrE dest: wf_check_channel)

section \<open>Rejection\<close>

text \<open>A channel of the payload lies outside its physical bounds.\<close>

definition impossible :: "pyval \<Rightarrow> string \<Rightarrow> bool" where
  "impossible payload ch =
     (\<exists>d v x lo hi. payload = PDict d \<and> map_of d ch = Some v \<and> num_of v = Some x \<and>
        map_of PHYSICAL_LIMITS ch = Some (lo, hi) \<and> (fless x (FFin lo) \<or> fless (FFin hi) x))"

lemma out_of_bounds_num:
  "num_of v = Some x \<Longrightarrow> out_of_bounds bnds v = Inr (fless x (FFin (fst bnds)) \<or> fless (FFin (snd bnds)) x)"
  by (auto simp: out_of_bounds_def py_lt_def py_gt_def py_cmp_def)

lemma out_of_bounds_InrE:
  assumes "out_of_bounds bnds v = Inr b"
  obtains x where "num_of v = Some x" and "b = (fless x (FFin (fst bnds)) \<or> fless (FFin (snd bnds)) x)"
proof (cases "num_of v")
  case None
  with assms show thesis by (simp add: out_of_bounds_def py_lt_def py_cmp_def)
next
  case (Some x)
  with assms out_of_bounds_num [OF Some] that show thesis by auto
qed

lemma reject_report:
  "v = None \<or> vio_severity (the v) = SEVERITY_FLAG \<Longrightarrow> is_rejected (report v r) = is_rejected r"
  by (auto simp: report_def add_violation_def is_rejected_def escalate_def split: option.split)

lemma threshold_flag: "threshold_check t ch v = Inr x \<Longrightarrow> x = None \<or> vio_severity (the x) = SEVERITY_FLAG"
  by (auto simp: threshold_check_def elim!: rbind_InrE split: if_splits)

lemma roc_flag: "roc_check l ch v = Inr x \<Longrightarrow> x = None \<or> vio_severity (the x) = SEVERITY_FLAG"
  by (auto simp: roc_check_def elim!: rbind_InrE split: if_splits)

lemma check_channel_rejected:
  assumes "check_channel f p n t ch r = Inr r'" and "map_of PHYSICAL_LIMITS ch \<noteq> None"
  shows "is_rejected r' = (is_rejected r \<or> impossible p ch)"
proof -
  obtain here where here: "py_in ch p = Inr here"
    and rest: "(if \<not> here then Inr r
       else rbind (py_item p ch) (\<lambda>v. rbind (physical_check ch v) (\<lambda>pv.
         if pv \<noteq> None then Inr (report pv r)
         else rbind (threshold_check t ch v) (\<lambda>tv.
              rbind (last_values f n) (\<lambda>prev. rbind (roc_check prev ch v) (\<lambda>rv.
                Inr (report rv (report tv r)))))))) = Inr r'"
    using assms(1) by (auto simp: check_channel_def elim!: rbind_InrE)
  show ?thesis
  proof (cases here)
    case False
    with here have "\<not> impossible p ch"
      by (auto simp: impossible_def dict_has_def)
    with False rest show ?thesis by simp
  next
    case True
    obtain lo hi where bnds: "map_of PHYSICAL_LIMITS ch = Some (lo, hi)" using assms(2) by auto
    from True rest obtain v pv where v: "py_item p ch = Inr v" and pv: "physical_check ch v = Inr pv"
      and rest': "(if pv \<noteq> None then Inr (report pv r)
         else rbind (threshold_check t ch v) (\<lambda>tv.
              rbind (last_values f n) (\<lambda>prev. rbind (roc_check prev ch v) (\<lambda>rv.
                Inr (report rv (report tv r)))))) = Inr r'"
      by (auto elim!: rbind_InrE)
    obtain d where d: "p = PDict d" "map_of d ch = Some v"
      using v by (cases p) (auto simp: dict_item_def split: option.splits)
    from pv bnds obtain x where x: "num_of v = Some x"
      and pvx: "pv = (if fless x (FFin lo) \<or> fless (FFin hi) x
          then Some \<lparr>vio_channel = ch, vio_value = v, vio_reason = PhysicalBounds lo hi,
                          vio_severity = SEVERITY_REJECT\<rparr> else None)"
      by (auto simp: physical_check_def elim!: rbind_InrE out_of_bounds_InrE)
    have imp: "impossible p ch = (fless x (FFin lo) \<or> fless (FFin hi) x)"
      using d x bnds by (auto simp: impossible_def)
    show ?thesis
    proof (cases "impossible p ch")
      case True
      with imp pvx rest' show ?thesis
        by (auto simp: report_def add_violation_def is_rejected_def escalate_def)
    next
      case False
      with imp pvx rest' obtain tv rv l where "threshold_check t ch v = Inr tv" "roc_check l ch v = Inr rv"
        "r' = report rv (report tv r)" by (auto elim!: rbind_InrE)
      with False threshold_flag roc_flag show ?thesis by (metis reject_report)
    qed
  qed
qed

lemma check_channels_rejected:
  "check_channels f p n t chs r = Inr r' \<Longrightarrow> \<forall>ch\<in>set chs. map_of PHYSICAL_LIMITS ch \<noteq> None \<Longrightarrow>
   is_rejected r' = (is_rejected r \<or> (\<exists>ch\<in>set chs. impossible p ch))"
proof (induction chs arbitrary: r)
  case (Cons ch chs)
  then obtain r1 where 1: "check_channel f p n t ch r = Inr r1" "check_channels f p n t chs r1 = Inr r'"
    by (auto elim!: rbind_InrE)
  have "is_rejected r1 = (is_rejected r \<or> impossible p ch)"
    using 1(1) Cons.prems(2) by (intro check_channel_rejected) auto
  with Cons.IH [OF 1(2)] Cons.prems(2) show ?case by auto
qed simp

lemma channels_limited: "\<forall>ch\<in>set CHANNELS. map_of PHYSICAL_LIMITS ch \<noteq> None"
  by (simp add: CHANNELS_def PHYSICAL_LIMITS_def)

lemma anomaly_check_InrD:
  assumes "anomaly_check pkt f = (Inr r, f')"
  obtains t d where "check_channels f (an_payload pkt) (an_node pkt) t CHANNELS new_anomaly = Inr r"
    and "f' = af_count r (f\<lparr>af_last_values := (af_last_values f)(norm_key (an_node pkt) \<mapsto> d)\<rparr>)"
  using assms by (auto simp: anomaly_check_def elim!: rbind_InrE split: sum.splits)

lemma anomaly_annotate_InrD:
  assumes "anomaly_annotate pkt f = (Inr (a, r), f')"
  shows "anomaly_check pkt f = (Inr r, f')"
    and "a = dict_set ''anomaly_rejected'' (PBool (is_rejected r))
                 (dict_set ''anomaly_flagged'' (PBool (is_flagged r))
                   (dict_set ''anomaly_clean'' (PBool (is_clean r)) pkt))"
  using assms by (auto simp: anomaly_annotate_def split: prod.splits sum.splits)

lemma anomaly_batch_lengths:
  "anomaly_batch ps f = (Inr (cs, fs, rs), f') \<Longrightarrow> length cs + length fs + length rs = length ps"
  by (induction ps arbitrary: f cs fs rs) (auto split: prod.splits sum.splits if_splits)

section \<open>The promises of the filter\<close>

text \<open>What the filter decides: a checked packet is rejected exactly when one of the six channels of its
  payload is outside its physical bounds, the severity of the result is the highest among its
  violations, and the counters record the packet once. A value that is not a number raises instead.\<close>

theorem anomaly_verdict:
  assumes "anomaly_check pkt f = (Inr r, f')"
  shows "(is_rejected r \<longleftrightarrow> (\<exists>ch\<in>set CHANNELS. impossible (an_payload pkt) ch)) \<and>
    level (an_severity r) = Max (insert 0 ((level \<circ> vio_severity) ` set (an_violations r))) \<and>
    (is_clean r \<longleftrightarrow> an_violations r = [] \<or> (\<forall>v\<in>set (an_violations r). vio_severity v = SEVERITY_PASS)) \<and>
    af_checked f' = af_checked f + 1 \<and>
    af_flagged f' = af_flagged f + (if is_flagged r then 1 else 0) \<and>
    af_rejected f' = af_rejected f + (if is_rejected r then 1 else 0)"
proof -
  obtain t d where c: "check_channels f (an_payload pkt) (an_node pkt) t CHANNELS new_anomaly = Inr r"
    and f': "f' = af_count r (f\<lparr>af_last_values := (af_last_values f)(norm_key (an_node pkt) \<mapsto> d)\<rparr>)"
    using assms by (rule anomaly_check_InrD)
  have "is_rejected r \<longleftrightarrow> (\<exists>ch\<in>set CHANNELS. impossible (an_payload pkt) ch)"
    using check_channels_rejected [OF c channels_limited] by (simp add: new_anomaly_def is_rejected_def)
  moreover have w: "level (an_severity r) = Max (insert 0 ((level \<circ> vio_severity) ` set (an_violations r)))"
    using wf_check_channels [OF wf_new_anomaly c] by (simp add: wf_anomaly_def)
  moreover have "is_clean r \<longleftrightarrow> (\<forall>v\<in>set (an_violations r). vio_severity v = SEVERITY_PASS)"
  proof -
    have l: "(x = SEVERITY_PASS) = (level x = 0)" for x by (cases x) simp_all
    have "level (an_severity r) = 0 \<longleftrightarrow> (\<forall>n\<in>insert 0 ((level \<circ> vio_severity) ` set (an_violations r)). n = 0)"
      unfolding w by (subst Max_eq_iff) auto
    then show ?thesis by (simp add: is_clean_def l)
  qed
  moreover have "an_violations r = [] \<or> P \<longleftrightarrow> P" if "an_violations r = [] \<Longrightarrow> P" for P using that by blast
  ultimately show ?thesis by (auto simp: f' af_count_def)
qed

definition sample_filter :: anomaly_filter where
  "sample_filter = \<lparr>af_node_id = ''relay'', af_thresholds = PDict [], af_last_values = Map.empty,
     af_checked = 0, af_flagged = 0, af_rejected = 0\<rparr>"

theorem anomaly_verdict_witness:
  "\<exists>r f'. anomaly_check [(''payload_json'', PDict [(''Speed'', PInt 500)])] sample_filter = (Inr r, f') \<and>
     is_rejected r \<and> af_rejected f' = 1"
proof -
  let ?pkt = "[(''payload_json'', PDict [(''Speed'', PInt 500)])]"
  have p: "an_payload ?pkt = PDict [(''Speed'', PInt 500)]" by (simp add: an_payload_def dict_get_or_def)
  obtain r f' where c: "anomaly_check ?pkt sample_filter = (Inr r, f')"
    by (simp add: anomaly_check_def p get_thresholds_def get_key_def sample_filter_def dict_get_or_def dict_get_def
        CHANNELS_def check_channel_def physical_check_def PHYSICAL_LIMITS_def out_of_bounds_def py_or_def
        last_values_def an_node_def dict_has_def dict_item_def py_lt_def py_gt_def py_cmp_def)
  have "impossible (an_payload ?pkt) ''Speed''"
    by (simp add: p impossible_def PHYSICAL_LIMITS_def)
  then have "\<exists>ch\<in>set CHANNELS. impossible (an_payload ?pkt) ch" by (auto simp: CHANNELS_def)
  with anomaly_verdict [OF c] c show ?thesis by (simp add: sample_filter_def)
qed

end
