(* ===== verification/Reencryptor.thy ===== *)
theory Reencryptor
  imports Encryptor
begin

text \<open>
  \<open>relay-node/src/reencryptor.py\<close>: the payload of a decrypted packet is sealed again under the
  relay's session with the validator, with the car's header as associated data and the car's
  signature and metadata carried over. Everything raised while doing so becomes
  \<open>ReencryptionError\<close>. The lemmas give the packet that leaves the relay.
\<close>

record reencryptor =
  ren_node_id :: string
  ren_engine :: "engine option"
  ren_count :: int
  ren_failed :: int

definition reencryptor_init :: "string \<Rightarrow> reencryptor" where
  "reencryptor_init node = \<lparr>ren_node_id = node, ren_engine = None, ren_count = 0, ren_failed = 0\<rparr>"

definition register_validator_session :: "engine \<Rightarrow> reencryptor \<Rightarrow> unit res \<times> reencryptor" where
  "register_validator_session e x =
     (if \<not> session_established e then (Inl ValueErr, x) else (Inr (), x\<lparr>ren_engine := Some e\<rparr>))"

definition validator_session_active :: "reencryptor \<Rightarrow> bool" where
  "validator_session_active x = (case ren_engine x of None \<Rightarrow> False | Some e \<Rightarrow> session_established e)"

text \<open>The signature in both its forms, each filled in from the other when it is empty.\<close>

definition carried_signature :: "pydict \<Rightarrow> (pyval \<times> pyval) res" where
  "carried_signature pkt =
     (let sb = dict_get_or pkt ''signature_bytes'' (PBytes []); sh = dict_get_or pkt ''signature'' (PStr [])
      in rbind (if \<not> truthy sb \<and> truthy sh then rbind (py_fromhex sh) (\<lambda>b. Inr (PBytes b)) else Inr sb) (\<lambda>sb'.
         rbind (if \<not> truthy sh \<and> truthy sb' then hex_method sb' else Inr sh) (\<lambda>sh'. Inr (sb', sh'))))"

definition header_hex_of :: "pyval \<Rightarrow> pyval" where
  "header_hex_of h = (case h of PBytes b \<Rightarrow> PStr (to_hex b) | _ \<Rightarrow> PStr [])"

definition reencrypted_fields ::
  "reencryptor \<Rightarrow> pydict \<Rightarrow> bytes \<Rightarrow> bytes \<Rightarrow> bytes \<Rightarrow> pyval \<Rightarrow> pyval \<Rightarrow> pydict" where
  "reencrypted_fields x pkt nonce c payload sb sh =
     [(''nonce'', PStr (to_hex nonce)), (''nonce_bytes'', PBytes nonce),
      (''ciphertext'', PStr (to_hex c)), (''ciphertext_bytes'', PBytes c),
      (''header'', dict_get pkt ''header''), (''header_hex'', header_hex_of (dict_get pkt ''header'')),
      (''signature'', sh), (''signature_bytes'', sb),
      (''sequence_no'', dict_get_or pkt ''sequence_no'' (PInt 0)),
      (''timestamp'', dict_get_or pkt ''timestamp'' (PInt 0)),
      (''team'', dict_get_or pkt ''team'' (PStr [])),
      (''session'', dict_get_or pkt ''session'' (PStr [])),
      (''node_id'', PStr (ren_node_id x)),
      (''original_node'', dict_get_or pkt ''node_id'' (PStr [])),
      (''reencrypted'', PBool True), (''reencrypted_by'', PStr (ren_node_id x)),
      (''size_original'', PInt (int (length payload))), (''size_encrypted'', PInt (int (length c)))]"

definition count_ren :: "engine \<Rightarrow> reencryptor \<Rightarrow> reencryptor" where
  "count_ren e x = x\<lparr>ren_engine := Some e, ren_count := ren_count x + 1\<rparr>"

definition reencrypt :: "pyca \<Rightarrow> bytes \<Rightarrow> pydict \<Rightarrow> reencryptor \<Rightarrow> pydict res \<times> reencryptor" where
  "reencrypt C nonce pkt x =
     (case ren_engine x of
        None \<Rightarrow> (Inl (ReencryptionError NoValidatorSession), x)
      | Some e \<Rightarrow>
          if dict_get pkt ''payload_bytes'' = PNone then (Inl (ReencryptionError NoPayloadBytes), x)
          else case encrypt_values C nonce (dict_get pkt ''payload_bytes'') (dict_get pkt ''header'') e of
            (Inl _, e') \<Rightarrow>
              (Inl (ReencryptionError ReencryptOther), x\<lparr>ren_engine := Some e', ren_failed := ren_failed x + 1\<rparr>)
          | (Inr (n, c), e') \<Rightarrow>
              let x1 = count_ren e' x
              in case rbind (as_bytes (dict_get pkt ''payload_bytes'')) (\<lambda>p.
                        rbind (carried_signature pkt) (\<lambda>(sb, sh). Inr (reencrypted_fields x pkt n c p sb sh))) of
                   Inl _ \<Rightarrow> (Inl (ReencryptionError ReencryptOther), x1\<lparr>ren_failed := ren_failed x1 + 1\<rparr>)
                 | Inr d \<Rightarrow> (Inr d, x1))"

definition is_reencrypt_error :: "exn \<Rightarrow> bool" where
  "is_reencrypt_error x = (case x of ReencryptionError _ \<Rightarrow> True | _ \<Rightarrow> False)"

definition reencrypt_batch ::
  "pyca \<Rightarrow> (bytes \<times> pydict) list \<Rightarrow> reencryptor \<Rightarrow> (pydict list \<times> ((bytes \<times> pydict) \<times> exn) list) res \<times> reencryptor" where
  "reencrypt_batch C ps x = batch is_reencrypt_error (\<lambda>(nonce, p). reencrypt C nonce p) ps x"

section \<open>Properties\<close>

definition ren_key :: "reencryptor \<Rightarrow> bytes option" where
  "ren_key x = (case ren_engine x of None \<Rightarrow> None | Some e \<Rightarrow> engine_key e)"

lemma encrypt_values_key [simp]: "engine_key (snd (encrypt_values C n p h e)) = engine_key e"
  by (auto simp: encrypt_values_def split: sum.split)

text \<open>Every failure is a \<open>ReencryptionError\<close>, so a batch never stops early.\<close>

lemma reencrypt_error: "fst (reencrypt C nonce pkt x) = Inl err \<Longrightarrow> is_reencrypt_error err"
  by (auto simp: reencrypt_def is_reencrypt_error_def Let_def
      split: option.splits if_splits sum.splits prod.splits)

lemma reencrypt_InrD:
  assumes "reencrypt C nonce pkt x = (Inr d, x')"
  obtains k p a c sb sh where "ren_key x = Some k" and "dict_get pkt ''payload_bytes'' = PBytes p"
    and "aad_of (dict_get pkt ''header'') = Inr a" and "aead_encrypt C k nonce p a = Inr c"
    and "carried_signature pkt = Inr (sb, sh)" and "d = reencrypted_fields x pkt nonce c p sb sh"
    and "ren_key x' = Some k" and "ren_node_id x' = ren_node_id x"
proof -
  obtain e n c e' p sb sh where e: "ren_engine x = Some e"
    and ev: "encrypt_values C nonce (dict_get pkt ''payload_bytes'') (dict_get pkt ''header'') e = (Inr (n, c), e')"
    and p: "dict_get pkt ''payload_bytes'' = PBytes p" and s: "carried_signature pkt = Inr (sb, sh)"
    and d: "d = reencrypted_fields x pkt n c p sb sh" and x': "x' = count_ren e' x"
    using assms
    by (auto simp: reencrypt_def Let_def as_bytes_def rbind_def
        split: option.splits if_splits sum.splits prod.splits pyval.splits)
  from ev obtain p' a k where "dict_get pkt ''payload_bytes'' = PBytes p'" "aad_of (dict_get pkt ''header'') = Inr a"
    "engine_key e = Some k" "aead_encrypt C k nonce p' a = Inr c" "n = nonce"
    "e' = e\<lparr>eng_encrypted := eng_encrypted e + 1\<rparr>" by (rule encrypt_values_InrD)
  with e p s d x' show thesis
    by (intro that [of k p a c sb sh]) (auto simp: ren_key_def count_ren_def)
qed

lemma reencrypt_keys:
  assumes "reencrypt C nonce pkt x = (r, x')"
  shows "ren_key x' = ren_key x" and "ren_node_id x' = ren_node_id x"
proof -
  have "ren_key x' = ren_key x \<and> ren_node_id x' = ren_node_id x"
  proof (cases "ren_engine x")
    case None
    with assms show ?thesis by (simp add: reencrypt_def)
  next
    case (Some e)
    obtain q e' where ev: "encrypt_values C nonce (dict_get pkt ''payload_bytes'') (dict_get pkt ''header'') e = (q, e')"
      by fastforce
    have "engine_key e' = engine_key e"
      using encrypt_values_key [of C nonce "dict_get pkt ''payload_bytes''" "dict_get pkt ''header''" e] ev by simp
    with assms Some ev show ?thesis
      by (auto simp: reencrypt_def ren_key_def Let_def count_ren_def
          split: if_splits sum.splits prod.splits)
  qed
  then show "ren_key x' = ren_key x" and "ren_node_id x' = ren_node_id x" by auto
qed

lemma carried_signature_hex:
  assumes "dict_get_or pkt ''signature_bytes'' (PBytes []) = PBytes []"
    and "dict_get_or pkt ''signature'' (PStr []) = PStr (to_hex sig)"
  shows "carried_signature pkt = Inr (PBytes sig, PStr (to_hex sig))"
  using assms by (simp add: carried_signature_def Let_def)

lemma reencrypt_ok:
  assumes "ren_key x = Some k" and "dict_get pkt ''payload_bytes'' = PBytes p" and "dict_get pkt ''header'' = PBytes h"
    and "aead_encrypt C k nonce p (Some h) = Inr c" and "carried_signature pkt = Inr (sb, sh)"
  shows "\<exists>x'. reencrypt C nonce pkt x = (Inr (reencrypted_fields x pkt nonce c p sb sh), x')"
proof -
  obtain e where "ren_engine x = Some e" "engine_key e = Some k"
    using assms(1) by (auto simp: ren_key_def split: option.splits)
  with assms show ?thesis
    by (simp add: reencrypt_def encrypt_eq as_bytes_def Let_def)
qed

lemma reencrypted_fields_get:
  "dict_get (reencrypted_fields x pkt n c p sb sh) ''nonce_bytes'' = PBytes n"
  "dict_get (reencrypted_fields x pkt n c p sb sh) ''ciphertext_bytes'' = PBytes c"
  "dict_get (reencrypted_fields x pkt n c p sb sh) ''header'' = dict_get pkt ''header''"
  "dict_get (reencrypted_fields x pkt n c p sb sh) ''signature'' = sh"
  "dict_get (reencrypted_fields x pkt n c p sb sh) ''signature_bytes'' = sb"
  "dict_get (reencrypted_fields x pkt n c p sb sh) ''sequence_no'' = dict_get_or pkt ''sequence_no'' (PInt 0)"
  "dict_get (reencrypted_fields x pkt n c p sb sh) ''timestamp'' = dict_get_or pkt ''timestamp'' (PInt 0)"
  "dict_get (reencrypted_fields x pkt n c p sb sh) ''team'' = dict_get_or pkt ''team'' (PStr [])"
  "dict_get (reencrypted_fields x pkt n c p sb sh) ''session'' = dict_get_or pkt ''session'' (PStr [])"
  "dict_get (reencrypted_fields x pkt n c p sb sh) ''original_node'' = dict_get_or pkt ''node_id'' (PStr [])"
  "dict_get (reencrypted_fields x pkt n c p sb sh) ''node_id'' = PStr (ren_node_id x)"
  "dict_has (reencrypted_fields x pkt n c p sb sh) ''anomaly_flagged'' = False"
  by (simp_all add: reencrypted_fields_def dict_get_def dict_has_def)

end
