(* ===== verification/RelayNode.thy ===== *)
theory RelayNode
  imports PacketParser IntegrityCheck Decryptor AnomalyFilter Reencryptor
begin

text \<open>
  \<open>relay-node/src/main.py\<close>: the relay's pipeline from the bytes of a car packet to the packet for
  the validator, its session set-up and its statistics. A stage either goes on, drops the packet, or
  raises an exception \<open>process_packet\<close> does not catch. The lemmas follow a forwarded packet back
  through the stages, account for every packet in the statistics, and make the relay a
  \<open>seq_monitor\<close>: whatever arrives, no sequence number of a node is forwarded twice.
\<close>

section \<open>State\<close>

record relay_stats =
  rs_received :: int
  rs_parsed :: int
  rs_decrypted :: int
  rs_integrity_passed :: int
  rs_integrity_failed :: int
  rs_anomaly_clean :: int
  rs_anomaly_flagged :: int
  rs_anomaly_rejected :: int
  rs_reencrypted :: int
  rs_forwarded :: int
  rs_dropped :: int

definition relay_stats_init :: relay_stats where
  "relay_stats_init = \<lparr>rs_received = 0, rs_parsed = 0, rs_decrypted = 0, rs_integrity_passed = 0,
     rs_integrity_failed = 0, rs_anomaly_clean = 0, rs_anomaly_flagged = 0, rs_anomaly_rejected = 0,
     rs_reencrypted = 0, rs_forwarded = 0, rs_dropped = 0\<rparr>"

record relay =
  rl_node_id :: string
  rl_parser :: parser
  rl_decryptor :: decryptor
  rl_integrity :: integrity
  rl_anomaly :: anomaly_filter
  rl_reencryptor :: reencryptor
  rl_stats :: relay_stats

record relay_config =
  rc_node_id :: string
  rc_max_ts_age :: int
  rc_max_gap :: int
  rc_check_timestamps :: bool
  rc_check_signatures :: bool

definition default_relay_config :: relay_config where
  "default_relay_config = \<lparr>rc_node_id = ''relay_01'', rc_max_ts_age = 30000, rc_max_gap = 100,
     rc_check_timestamps = True, rc_check_signatures = True\<rparr>"

definition relay_init :: "relay_config \<Rightarrow> bytes option \<Rightarrow> relay res" where
  "relay_init cfg thresholds =
     rbind (anomaly_init (rc_node_id cfg) thresholds) (\<lambda>a. Inr
       \<lparr>rl_node_id = rc_node_id cfg, rl_parser = parser_init (rc_node_id cfg),
        rl_decryptor = decryptor_init (rc_node_id cfg),
        rl_integrity = integrity_init (rc_node_id cfg) (rc_max_ts_age cfg) (rc_max_gap cfg)
          (rc_check_timestamps cfg) (rc_check_signatures cfg),
        rl_anomaly = a, rl_reencryptor = reencryptor_init (rc_node_id cfg),
        rl_stats = relay_stats_init\<rparr>)"

section \<open>Session set-up\<close>

text \<open>A fresh engine whose handshake is completed at once with the peer's key.\<close>

definition fresh_engine ::
  "pyca \<Rightarrow> bytes \<Rightarrow> clock \<Rightarrow> bytes \<Rightarrow> string \<Rightarrow> (bytes \<times> engine) res" where
  "fresh_engine C priv now peer node =
     (let (pub, e) = new_session C priv now (engine_init node)
      in case complete_handshake C now peer None e of
           (Inl x, _) \<Rightarrow> Inl x
         | (Inr _, e') \<Rightarrow> Inr (pub, e'))"

definition setup_car_session ::
  "pyca \<Rightarrow> bytes \<Rightarrow> clock \<Rightarrow> string \<Rightarrow> bytes \<Rightarrow> relay \<Rightarrow> bytes res \<times> relay" where
  "setup_car_session C priv now car_node car_pub r =
     (case fresh_engine C priv now car_pub (rl_node_id r) of
        Inl x \<Rightarrow> (Inl x, r)
      | Inr (pub, e) \<Rightarrow> (case register_session car_node e (rl_decryptor r) of
            (Inl x, d) \<Rightarrow> (Inl x, r\<lparr>rl_decryptor := d\<rparr>)
          | (Inr _, d) \<Rightarrow> (Inr pub, r\<lparr>rl_decryptor := d\<rparr>)))"

definition setup_validator_session ::
  "pyca \<Rightarrow> bytes \<Rightarrow> clock \<Rightarrow> bytes \<Rightarrow> relay \<Rightarrow> bytes res \<times> relay" where
  "setup_validator_session C priv now val_pub r =
     (case fresh_engine C priv now val_pub (rl_node_id r @ ''_validator'') of
        Inl x \<Rightarrow> (Inl x, r)
      | Inr (pub, e) \<Rightarrow> (case register_validator_session e (rl_reencryptor r) of
            (Inl x, y) \<Rightarrow> (Inl x, r\<lparr>rl_reencryptor := y\<rparr>)
          | (Inr _, y) \<Rightarrow> (Inr pub, r\<lparr>rl_reencryptor := y\<rparr>)))"

section \<open>Statistics\<close>

definition upd :: "(relay_stats \<Rightarrow> relay_stats) \<Rightarrow> relay \<Rightarrow> relay" where
  "upd f r = r\<lparr>rl_stats := f (rl_stats r)\<rparr>"

definition received :: "relay_stats \<Rightarrow> relay_stats" where "received s = s\<lparr>rs_received := rs_received s + 1\<rparr>"
definition parsed_ok :: "relay_stats \<Rightarrow> relay_stats" where "parsed_ok s = s\<lparr>rs_parsed := rs_parsed s + 1\<rparr>"
definition decrypted_ok :: "relay_stats \<Rightarrow> relay_stats" where "decrypted_ok s = s\<lparr>rs_decrypted := rs_decrypted s + 1\<rparr>"
definition integrity_ok :: "relay_stats \<Rightarrow> relay_stats" where
  "integrity_ok s = s\<lparr>rs_integrity_passed := rs_integrity_passed s + 1\<rparr>"
definition integrity_bad :: "relay_stats \<Rightarrow> relay_stats" where
  "integrity_bad s = s\<lparr>rs_integrity_failed := rs_integrity_failed s + 1\<rparr>"
definition anomaly_bad :: "relay_stats \<Rightarrow> relay_stats" where
  "anomaly_bad s = s\<lparr>rs_anomaly_rejected := rs_anomaly_rejected s + 1\<rparr>"
definition anomaly_ok :: "bool \<Rightarrow> relay_stats \<Rightarrow> relay_stats" where
  "anomaly_ok flagged s = (if flagged then s\<lparr>rs_anomaly_flagged := rs_anomaly_flagged s + 1\<rparr>
     else s\<lparr>rs_anomaly_clean := rs_anomaly_clean s + 1\<rparr>)"
definition reencrypted_ok :: "relay_stats \<Rightarrow> relay_stats" where
  "reencrypted_ok s = s\<lparr>rs_reencrypted := rs_reencrypted s + 1\<rparr>"
definition forwarded :: "relay_stats \<Rightarrow> relay_stats" where "forwarded s = s\<lparr>rs_forwarded := rs_forwarded s + 1\<rparr>"
definition dropped :: "relay_stats \<Rightarrow> relay_stats" where "dropped s = s\<lparr>rs_dropped := rs_dropped s + 1\<rparr>"

named_theorems relay_stat_defs \<open>the updates of the relay's statistics\<close>

lemmas [relay_stat_defs] = received_def parsed_ok_def decrypted_ok_def integrity_ok_def integrity_bad_def
  anomaly_bad_def anomaly_ok_def reencrypted_ok_def forwarded_def dropped_def

section \<open>The pipeline\<close>

definition drop_packet :: "relay \<Rightarrow> pydict option res \<times> relay" where
  "drop_packet r = (Inr None, upd dropped r)"

text \<open>The five stages, from the last to the first; each ends the packet or calls the next.\<close>

definition reencrypt_stage :: "pyca \<Rightarrow> bytes \<Rightarrow> pydict \<Rightarrow> relay \<Rightarrow> pydict option res \<times> relay" where
  "reencrypt_stage C nonce pkt r =
     (case reencrypt C nonce pkt (rl_reencryptor r) of
        (Inl x, y) \<Rightarrow>
          (let r1 = r\<lparr>rl_reencryptor := y\<rparr>
           in if is_reencrypt_error x then drop_packet r1 else (Inl x, r1))
      | (Inr d, y) \<Rightarrow> (Inr (Some d), upd forwarded (upd reencrypted_ok (r\<lparr>rl_reencryptor := y\<rparr>))))"

definition anomaly_stage :: "pyca \<Rightarrow> bytes \<Rightarrow> pydict \<Rightarrow> relay \<Rightarrow> pydict option res \<times> relay" where
  "anomaly_stage C nonce pkt r =
     (case anomaly_annotate pkt (rl_anomaly r) of
        (Inl x, f) \<Rightarrow> (Inl x, r\<lparr>rl_anomaly := f\<rparr>)
      | (Inr (a, res), f) \<Rightarrow>
          (let r1 = r\<lparr>rl_anomaly := f\<rparr>
           in if is_rejected res then drop_packet (upd anomaly_bad r1)
              else reencrypt_stage C nonce a (upd (anomaly_ok (is_flagged res)) r1)))"

definition integrity_stage :: "pyca \<Rightarrow> clock \<Rightarrow> bytes \<Rightarrow> pydict \<Rightarrow> relay \<Rightarrow> pydict option res \<times> relay" where
  "integrity_stage C now nonce pkt r =
     (case integrity_check (rl_integrity r) now pkt of
        (Inl x, i) \<Rightarrow> (Inl x, r\<lparr>rl_integrity := i\<rparr>)
      | (Inr res, i) \<Rightarrow>
          (let r1 = r\<lparr>rl_integrity := i\<rparr>
           in if cr_passed res then anomaly_stage C nonce pkt (upd integrity_ok r1)
              else drop_packet (upd integrity_bad r1)))"

definition decrypt_stage :: "pyca \<Rightarrow> clock \<Rightarrow> bytes \<Rightarrow> pydict \<Rightarrow> relay \<Rightarrow> pydict option res \<times> relay" where
  "decrypt_stage C now nonce pkt r =
     (case decrypt_relay C pkt (rl_decryptor r) of
        (Inl x, d) \<Rightarrow>
          (let r1 = r\<lparr>rl_decryptor := d\<rparr>
           in if is_decrypt_error x then drop_packet r1 else (Inl x, r1))
      | (Inr dp, d) \<Rightarrow> integrity_stage C now nonce dp (upd decrypted_ok (r\<lparr>rl_decryptor := d\<rparr>)))"

definition is_parse_error :: "exn \<Rightarrow> bool" where
  "is_parse_error x = (case x of PacketParseError _ \<Rightarrow> True | _ \<Rightarrow> False)"

definition parse_stage :: "pyca \<Rightarrow> clock \<Rightarrow> bytes \<Rightarrow> bytes \<Rightarrow> relay \<Rightarrow> pydict option res \<times> relay" where
  "parse_stage C now nonce raw r =
     (case parse_json_packet (rl_parser r) raw of
        (Inl x, p) \<Rightarrow>
          (let r1 = r\<lparr>rl_parser := p\<rparr>
           in if is_parse_error x then drop_packet r1 else (Inl x, r1))
      | (Inr d, p) \<Rightarrow>
          (let r1 = r\<lparr>rl_parser := p\<rparr>
           in case validate_json_packet d of
                Inl x \<Rightarrow> if is_parse_error x then drop_packet r1 else (Inl x, r1)
              | Inr errors \<Rightarrow>
                  if errors \<noteq> [] then drop_packet r1
                  else decrypt_stage C now nonce d (upd parsed_ok r1)))"

definition process_packet :: "pyca \<Rightarrow> clock \<Rightarrow> bytes \<Rightarrow> bytes \<Rightarrow> relay \<Rightarrow> pydict option res \<times> relay" where
  "process_packet C now nonce raw r = parse_stage C now nonce raw (upd received r)"

text \<open>Packets one after the other: arrival time, nonce of the re-encryption, bytes.\<close>

type_synonym arrival = "clock \<times> bytes \<times> bytes"

fun process_all :: "pyca \<Rightarrow> arrival list \<Rightarrow> relay \<Rightarrow> pydict option res list \<times> relay" where
  "process_all C [] r = ([], r)"
| "process_all C ((now, nonce, raw) # xs) r =
     (let (o1, r1) = process_packet C now nonce raw r; (os, r2) = process_all C xs r1 in (o1 # os, r2))"

section \<open>Accounting\<close>

text \<open>What one packet adds to the statistics: to received, and to forwarded or dropped unless it raised.\<close>

definition accounted :: "relay \<Rightarrow> pydict option res \<times> relay \<Rightarrow> bool" where
  "accounted r out =
     (rs_received (rl_stats (snd out)) = rs_received (rl_stats r) \<and>
      rs_forwarded (rl_stats (snd out)) = rs_forwarded (rl_stats r) +
        (case fst out of Inr (Some _) \<Rightarrow> 1 | _ \<Rightarrow> 0) \<and>
      rs_dropped (rl_stats (snd out)) = rs_dropped (rl_stats r) +
        (case fst out of Inr None \<Rightarrow> 1 | _ \<Rightarrow> 0))"

lemma accounted_upd [simp]:
  "accounted (upd parsed_ok r) = accounted r" "accounted (upd decrypted_ok r) = accounted r"
  "accounted (upd integrity_ok r) = accounted r" "accounted (upd integrity_bad r) = accounted r"
  "accounted (upd anomaly_bad r) = accounted r" "accounted (upd (anomaly_ok b) r) = accounted r"
  "accounted (r\<lparr>rl_parser := p\<rparr>) = accounted r" "accounted (r\<lparr>rl_decryptor := d\<rparr>) = accounted r"
  "accounted (r\<lparr>rl_integrity := i\<rparr>) = accounted r" "accounted (r\<lparr>rl_anomaly := a\<rparr>) = accounted r"
  "accounted (r\<lparr>rl_reencryptor := x\<rparr>) = accounted r"
  by (auto simp: accounted_def fun_eq_iff upd_def relay_stat_defs)

lemma accounted_drop [simp]: "accounted r (drop_packet r)"
  by (simp add: accounted_def drop_packet_def upd_def relay_stat_defs)

lemma accounted_raise [simp]: "accounted r (Inl x, r)"
  by (simp add: accounted_def)

lemma accounted_reencrypt: "accounted r (reencrypt_stage C nonce pkt r)"
proof -
  obtain q y where q: "reencrypt C nonce pkt (rl_reencryptor r) = (q, y)" by fastforce
  have "accounted (r\<lparr>rl_reencryptor := y\<rparr>) (reencrypt_stage C nonce pkt r)"
    using q by (cases q) (auto simp: reencrypt_stage_def accounted_def drop_packet_def upd_def relay_stat_defs Let_def)
  then show ?thesis by simp
qed

lemma accounted_anomaly: "accounted r (anomaly_stage C nonce pkt r)"
proof -
  obtain q f where q: "anomaly_annotate pkt (rl_anomaly r) = (q, f)" by fastforce
  have "accounted (r\<lparr>rl_anomaly := f\<rparr>) (anomaly_stage C nonce pkt r)"
  proof (cases q)
    case (Inr ar)
    obtain a res where ar: "ar = (a, res)" by (cases ar)
    have "accounted (upd anomaly_bad (r\<lparr>rl_anomaly := f\<rparr>)) (drop_packet (upd anomaly_bad (r\<lparr>rl_anomaly := f\<rparr>)))"
      by (rule accounted_drop)
    moreover have "accounted (upd (anomaly_ok b) (r\<lparr>rl_anomaly := f\<rparr>))
        (reencrypt_stage C nonce a (upd (anomaly_ok b) (r\<lparr>rl_anomaly := f\<rparr>)))" for b
      by (rule accounted_reencrypt)
    ultimately show ?thesis using q Inr ar by (simp add: anomaly_stage_def Let_def)
  qed (use q accounted_raise [of "r\<lparr>rl_anomaly := f\<rparr>"] in \<open>simp add: anomaly_stage_def\<close>)
  then show ?thesis by simp
qed

lemma accounted_integrity: "accounted r (integrity_stage C now nonce pkt r)"
proof -
  obtain q i where q: "integrity_check (rl_integrity r) now pkt = (q, i)" by fastforce
  let ?r = "r\<lparr>rl_integrity := i\<rparr>"
  have "accounted ?r (integrity_stage C now nonce pkt r)"
    using q accounted_raise [of ?r] accounted_anomaly [of "upd integrity_ok ?r" C nonce pkt]
      accounted_drop [of "upd integrity_bad ?r"]
    by (cases q) (simp_all add: integrity_stage_def Let_def)
  then show ?thesis by simp
qed

lemma accounted_decrypt: "accounted r (decrypt_stage C now nonce pkt r)"
proof -
  obtain q d where q: "decrypt_relay C pkt (rl_decryptor r) = (q, d)" by fastforce
  let ?r = "r\<lparr>rl_decryptor := d\<rparr>"
  have "accounted ?r (decrypt_stage C now nonce pkt r)"
    using q accounted_raise [of ?r] accounted_drop [of ?r]
      accounted_integrity [of "upd decrypted_ok ?r" C now nonce "projr q"]
    by (cases q) (simp_all add: decrypt_stage_def Let_def)
  then show ?thesis by simp
qed

lemma accounted_parse: "accounted r (parse_stage C now nonce raw r)"
proof -
  obtain q p where q: "parse_json_packet (rl_parser r) raw = (q, p)" by fastforce
  let ?r = "r\<lparr>rl_parser := p\<rparr>"
  have "accounted ?r (parse_stage C now nonce raw r)"
    using q accounted_raise [of ?r] accounted_drop [of ?r]
      accounted_decrypt [of "upd parsed_ok ?r" C now nonce "projr q"]
    by (cases q) (simp_all add: parse_stage_def Let_def split: sum.split)
  then show ?thesis by simp
qed

lemma process_packet_stats:
  assumes "process_packet C now nonce raw r = (out, r')"
  shows "rs_received (rl_stats r') = rs_received (rl_stats r) + 1"
    and "rs_forwarded (rl_stats r') = rs_forwarded (rl_stats r) + (case out of Inr (Some _) \<Rightarrow> 1 | _ \<Rightarrow> 0)"
    and "rs_dropped (rl_stats r') = rs_dropped (rl_stats r) + (case out of Inr None \<Rightarrow> 1 | _ \<Rightarrow> 0)"
  using accounted_parse [of "upd received r" C now nonce raw] assms
  by (auto simp: accounted_def process_packet_def upd_def relay_stat_defs)

section \<open>A packet through the stages\<close>

lemma upd_simps [simp]:
  "rl_parser (upd f r) = rl_parser r" "rl_decryptor (upd f r) = rl_decryptor r"
  "rl_integrity (upd f r) = rl_integrity r" "rl_anomaly (upd f r) = rl_anomaly r"
  "rl_reencryptor (upd f r) = rl_reencryptor r" "rl_node_id (upd f r) = rl_node_id r"
  by (simp_all add: upd_def)

lemma drop_packet_simps [simp]:
  "fst (drop_packet r) = Inr None" "rl_integrity (snd (drop_packet r)) = rl_integrity r"
  "rl_decryptor (snd (drop_packet r)) = rl_decryptor r" "rl_reencryptor (snd (drop_packet r)) = rl_reencryptor r"
  "rl_anomaly (snd (drop_packet r)) = rl_anomaly r"
  by (simp_all add: drop_packet_def)

text \<open>Each stage: how it forwards, and that it leaves the components of the earlier stages alone.\<close>

lemma reencrypt_stage_SomeD:
  assumes "reencrypt_stage C nonce pkt r = (Inr (Some out), r')"
  shows "reencrypt C nonce pkt (rl_reencryptor r) = (Inr out, rl_reencryptor r')"
  using assms by (auto simp: reencrypt_stage_def drop_packet_def Let_def split: prod.splits sum.splits if_splits)

lemma reencrypt_stage_frame [simp]:
  "rl_integrity (snd (reencrypt_stage C nonce pkt r)) = rl_integrity r"
  "rl_decryptor (snd (reencrypt_stage C nonce pkt r)) = rl_decryptor r"
  "rl_anomaly (snd (reencrypt_stage C nonce pkt r)) = rl_anomaly r"
  by (auto simp: reencrypt_stage_def Let_def split: prod.splits sum.splits)

lemma anomaly_stage_SomeD:
  assumes "anomaly_stage C nonce pkt r = (Inr (Some out), r')"
  obtains a res f where "anomaly_annotate pkt (rl_anomaly r) = (Inr (a, res), f)" and "\<not> is_rejected res"
    and "reencrypt C nonce a (rl_reencryptor r) = (Inr out, rl_reencryptor r')"
  using assms
  by (auto simp: anomaly_stage_def drop_packet_def Let_def split: prod.splits sum.splits if_splits
      dest!: reencrypt_stage_SomeD)

lemma anomaly_stage_frame [simp]:
  "rl_integrity (snd (anomaly_stage C nonce pkt r)) = rl_integrity r"
  "rl_decryptor (snd (anomaly_stage C nonce pkt r)) = rl_decryptor r"
  by (auto simp: anomaly_stage_def Let_def split: prod.splits sum.splits)

lemma integrity_stage_SomeD:
  assumes "integrity_stage C now nonce pkt r = (Inr (Some out), r')"
  obtains res i where "integrity_check (rl_integrity r) now pkt = (Inr res, i)" and "cr_passed res"
    and "anomaly_stage C nonce pkt (upd integrity_ok (r\<lparr>rl_integrity := i\<rparr>)) = (Inr (Some out), r')"
  using assms
  by (auto simp: integrity_stage_def drop_packet_def Let_def split: prod.splits sum.splits if_splits)

lemma integrity_stage_frame [simp]:
  "rl_integrity (snd (integrity_stage C now nonce pkt r)) = snd (integrity_check (rl_integrity r) now pkt)"
  "rl_decryptor (snd (integrity_stage C now nonce pkt r)) = rl_decryptor r"
  by (auto simp: integrity_stage_def Let_def split: prod.splits sum.splits)

lemma decrypt_stage_SomeD:
  assumes "decrypt_stage C now nonce pkt r = (Inr (Some out), r')"
  obtains dp d where "decrypt_relay C pkt (rl_decryptor r) = (Inr dp, d)"
    and "integrity_stage C now nonce dp (upd decrypted_ok (r\<lparr>rl_decryptor := d\<rparr>)) = (Inr (Some out), r')"
  using assms
  by (auto simp: decrypt_stage_def drop_packet_def Let_def split: prod.splits sum.splits if_splits)

lemma decrypt_stage_frame:
  "rl_integrity (snd (decrypt_stage C now nonce pkt r)) =
     (case fst (decrypt_relay C pkt (rl_decryptor r)) of
        Inl _ \<Rightarrow> rl_integrity r | Inr dp \<Rightarrow> snd (integrity_check (rl_integrity r) now dp))"
  "rl_decryptor (snd (decrypt_stage C now nonce pkt r)) = snd (decrypt_relay C pkt (rl_decryptor r))"
  by (auto simp: decrypt_stage_def Let_def split: prod.splits sum.splits)

lemma parse_stage_SomeD:
  assumes "parse_stage C now nonce raw r = (Inr (Some out), r')"
  obtains d where "read_json_packet raw = Inr d" and "validate_json_packet d = Inr []"
    and "decrypt_stage C now nonce d (upd parsed_ok (r\<lparr>rl_parser := count_parsed (rl_parser r)\<rparr>)) = (Inr (Some out), r')"
  using assms
  by (auto simp: parse_stage_def parse_json_packet_def drop_packet_def Let_def
      split: prod.splits sum.splits if_splits)

lemma parse_stage_frame:
  "rl_integrity (snd (parse_stage C now nonce raw r)) =
     (case read_json_packet raw of Inl _ \<Rightarrow> rl_integrity r
      | Inr d \<Rightarrow> if validate_json_packet d = Inr []
          then (case fst (decrypt_relay C d (rl_decryptor r)) of
             Inl _ \<Rightarrow> rl_integrity r | Inr dp \<Rightarrow> snd (integrity_check (rl_integrity r) now dp))
          else rl_integrity r)"
  by (auto simp: parse_stage_def parse_json_packet_def Let_def decrypt_stage_frame split: sum.splits)

text \<open>A forwarded packet went through every stage.\<close>

lemma process_packet_SomeE:
  assumes "process_packet C now nonce raw r = (Inr (Some out), r')"
  obtains d dp dec res i a ares f where "read_json_packet raw = Inr d" and "validate_json_packet d = Inr []"
    and "decrypt_relay C d (rl_decryptor r) = (Inr dp, dec)"
    and "integrity_check (rl_integrity r) now dp = (Inr res, i)" and "cr_passed res"
    and "anomaly_annotate dp (rl_anomaly r) = (Inr (a, ares), f)" and "\<not> is_rejected ares"
    and "reencrypt C nonce a (rl_reencryptor r) = (Inr out, rl_reencryptor r')"
proof -
  from assms obtain d where d: "read_json_packet raw = Inr d" "validate_json_packet d = Inr []"
    and st: "decrypt_stage C now nonce d (upd parsed_ok ((upd received r)\<lparr>rl_parser := count_parsed (rl_parser r)\<rparr>))
      = (Inr (Some out), r')" (is "decrypt_stage _ _ _ _ ?r = _")
    unfolding process_packet_def by (elim parse_stage_SomeD) simp
  from st obtain dp dec where dp: "decrypt_relay C d (rl_decryptor r) = (Inr dp, dec)"
    and st2: "integrity_stage C now nonce dp (upd decrypted_ok (?r\<lparr>rl_decryptor := dec\<rparr>)) = (Inr (Some out), r')"
    by (elim decrypt_stage_SomeD) simp
  from st2 obtain res i where i: "integrity_check (rl_integrity r) now dp = (Inr res, i)" "cr_passed res"
    and st3: "anomaly_stage C nonce dp (upd integrity_ok ((upd decrypted_ok (?r\<lparr>rl_decryptor := dec\<rparr>))\<lparr>rl_integrity := i\<rparr>))
      = (Inr (Some out), r')"
    by (elim integrity_stage_SomeD) simp
  from st3 obtain a ares f where "anomaly_annotate dp (rl_anomaly r) = (Inr (a, ares), f)" "\<not> is_rejected ares"
    "reencrypt C nonce a (rl_reencryptor r) = (Inr out, rl_reencryptor r')"
    by (elim anomaly_stage_SomeD) simp
  with d dp i show thesis by (rule that)
qed

lemma opened_fields_get:
  assumes "k \<notin> {''payload_bytes'', ''payload_json'', ''decrypted'', ''decrypted_by''}"
  shows "map_of (opened_fields d pkt p js) k = map_of pkt k"
  using assms by (simp add: opened_fields_def)

lemma opened_pkt [simp]:
  "pkt_seq (opened_fields d pkt p js) = pkt_seq pkt"
  "pkt_node (opened_fields d pkt p js) = pkt_node pkt"
  "seq_num (opened_fields d pkt p js) = seq_num pkt"
  by (simp_all add: pkt_seq_def pkt_node_def seq_num_def dict_get_or_def opened_fields_get)

text \<open>What validation and decryption guarantee to the integrity checker.\<close>

lemma decrypted_ok_for_check:
  assumes "validate_json_packet d = Inr []" and "decrypt_relay C d dec = (Inr dp, dec')"
  shows "is_int (pkt_seq dp)" and "hashable (pkt_node dp)" and "pkt_seq dp = pkt_seq d"
    and "pkt_node dp = pkt_node d" and "seq_num dp = seq_num d"
proof -
  from assms(2) obtain n p js where n: "dict_get d ''node_id'' = PStr n"
    and dp: "dp = opened_fields dec d p js" by (elim decrypt_relay_InrD) blast
  from assms(1) show "is_int (pkt_seq dp)"
    by (auto simp: validate_json_packet_Nil is_int_def dp opened_pkt) (auto simp: pkt_seq_def)
  from n show "hashable (pkt_node dp)"
    unfolding dp opened_pkt by (auto simp: pkt_node_def dict_get_or_def dict_get_def split: option.splits)
  show "pkt_seq dp = pkt_seq d" "pkt_node dp = pkt_node d" "seq_num dp = seq_num d"
    by (simp_all add: dp)
qed

section \<open>The relay forwards no sequence number twice\<close>

definition relay_step :: "pyca \<Rightarrow> relay \<Rightarrow> arrival \<Rightarrow> bool \<times> relay" where
  "relay_step C r x =
     (let (out, r') = process_packet C (fst x) (fst (snd x)) (snd (snd x)) r
      in (case out of Inr (Some _) \<Rightarrow> True | _ \<Rightarrow> False, r'))"

definition raw_packet :: "arrival \<Rightarrow> pydict" where
  "raw_packet x = (case read_json_packet (snd (snd x)) of Inr d \<Rightarrow> d | Inl _ \<Rightarrow> [])"

definition raw_node :: "arrival \<Rightarrow> pyval" where
  "raw_node x = norm_key (pkt_node (raw_packet x))"

definition raw_seq :: "arrival \<Rightarrow> int" where
  "raw_seq x = seq_num (raw_packet x)"

definition relay_inv :: "relay \<Rightarrow> bool" where
  "relay_inv r = ic_inv (rl_integrity r)"

definition relay_last :: "relay \<Rightarrow> pyval \<Rightarrow> int" where
  "relay_last r n = last_int (rl_integrity r) n"

text \<open>The integrity checker is called on a decrypted packet or not at all.\<close>

lemma relay_integrity_cases:
  assumes "relay_step C r x = (acc, r')"
  obtains "\<not> acc" and "rl_integrity r' = rl_integrity r"
  | d dp dec q i where "raw_packet x = d" and "validate_json_packet d = Inr []"
      and "decrypt_relay C d (rl_decryptor r) = (Inr dp, dec)"
      and "integrity_check (rl_integrity r) (fst x) dp = (q, i)" and "rl_integrity r' = i"
      and "acc \<Longrightarrow> ic_accepts q"
proof -
  obtain now nonce raw where x: "x = (now, nonce, raw)" by (cases x)
  obtain out where pp: "process_packet C now nonce raw r = (out, r')"
    and acc: "acc = (case out of Inr (Some _) \<Rightarrow> True | _ \<Rightarrow> False)"
    using assms x by (auto simp: relay_step_def split: prod.splits)
  have st: "rl_integrity r' = (case read_json_packet raw of Inl _ \<Rightarrow> rl_integrity r
      | Inr d \<Rightarrow> if validate_json_packet d = Inr []
          then (case fst (decrypt_relay C d (rl_decryptor r)) of
             Inl _ \<Rightarrow> rl_integrity r | Inr dp \<Rightarrow> snd (integrity_check (rl_integrity r) now dp))
          else rl_integrity r)"
    using parse_stage_frame [of C now nonce raw "upd received r", unfolded upd_simps] pp by (simp add: process_packet_def)
  show thesis
  proof (cases "\<exists>d dp dec. read_json_packet raw = Inr d \<and> validate_json_packet d = Inr [] \<and>
      decrypt_relay C d (rl_decryptor r) = (Inr dp, dec)")
    case True
    then obtain d dp dec where d: "read_json_packet raw = Inr d" "validate_json_packet d = Inr []"
      "decrypt_relay C d (rl_decryptor r) = (Inr dp, dec)" by blast
    obtain q i where q: "integrity_check (rl_integrity r) now dp = (q, i)" by fastforce
    have "acc \<Longrightarrow> ic_accepts q"
      using pp acc d q
      by (auto split: sum.splits option.splits elim!: process_packet_SomeE simp: ic_accepts_def)
    with st d q x show thesis
      by (intro that(2) [of d dp dec q i]) (auto simp: raw_packet_def)
  next
    case False
    then have "rl_integrity r' = rl_integrity r"
      using st by (auto split: sum.splits if_splits) (metis surjective_pairing)
    moreover have "\<not> acc"
      using pp acc False by (auto split: sum.splits option.splits elim!: process_packet_SomeE)
    ultimately show thesis by (intro that(1))
  qed
qed

interpretation relay: seq_monitor "relay_step C" relay_last raw_node raw_seq relay_inv "\<lambda>_. True" for C
proof
  fix r x n
  assume inv: "relay_inv r"
  obtain acc r' where st: "relay_step C r x = (acc, r')" by fastforce
  have "relay_inv r' \<and> (acc \<longrightarrow> relay_last r (raw_node x) < raw_seq x \<and> relay_last r' (raw_node x) = raw_seq x) \<and>
      relay_last r n \<le> relay_last r' n"
    using st
  proof (cases rule: relay_integrity_cases)
    case 1
    with inv show ?thesis by (simp add: relay_inv_def relay_last_def)
  next
    case (2 d dp dec q i)
    note ok = decrypted_ok_for_check [OF 2(2,3)]
    have inv': "ic_inv (rl_integrity r)" using inv by (simp add: relay_inv_def)
    note cs = integrity_check_cases [OF inv' ok(1,2) 2(4)]
    show ?thesis
      using cs 2(1,5,6) ok(3-5)
      by (auto simp: relay_inv_def relay_last_def raw_node_def raw_seq_def)
  qed
  with st show "relay_inv (snd (relay_step C r x))"
    and "fst (relay_step C r x) \<Longrightarrow> relay_last r (raw_node x) < raw_seq x"
    and "fst (relay_step C r x) \<Longrightarrow> relay_last (snd (relay_step C r x)) (raw_node x) = raw_seq x"
    and "relay_last r n \<le> relay_last (snd (relay_step C r x)) n"
    by auto
qed

section \<open>The promises of the relay\<close>

definition outcome_count :: "pydict option res list \<Rightarrow> (pydict option res \<Rightarrow> bool) \<Rightarrow> int" where
  "outcome_count os P = int (length (filter P os))"

definition was_forwarded :: "pydict option res \<Rightarrow> bool" where
  "was_forwarded x = (case x of Inr (Some _) \<Rightarrow> True | _ \<Rightarrow> False)"

definition was_dropped :: "pydict option res \<Rightarrow> bool" where
  "was_dropped x = (case x of Inr None \<Rightarrow> True | _ \<Rightarrow> False)"

lemma outcome_cases: "is_err x \<or> was_forwarded x \<or> was_dropped x"
  by (cases x) (auto simp: was_forwarded_def was_dropped_def split: option.split)

text \<open>The relay's statistics account for every packet it is given: received counts all of them,
  forwarded those that came out, dropped those refused, and the rest are exactly the packets on which
  an exception escaped \<open>process_packet\<close>.\<close>

theorem relay_accounts:
  assumes "process_all C xs r = (os, r')"
  shows "length os = length xs \<and>
    rs_received (rl_stats r') = rs_received (rl_stats r) + int (length xs) \<and>
    rs_forwarded (rl_stats r') = rs_forwarded (rl_stats r) + outcome_count os was_forwarded \<and>
    rs_dropped (rl_stats r') = rs_dropped (rl_stats r) + outcome_count os was_dropped \<and>
    int (length xs) = outcome_count os was_forwarded + outcome_count os was_dropped + outcome_count os is_err"
  using assms
proof (induction xs arbitrary: r os r')
  case (Cons x xs)
  obtain now nonce raw where x: "x = (now, nonce, raw)" by (cases x)
  obtain o1 r1 where p: "process_packet C now nonce raw r = (o1, r1)" by fastforce
  obtain os1 r2 where q: "process_all C xs r1 = (os1, r2)" by fastforce
  have eq: "os = o1 # os1" "r' = r2" using Cons.prems x p q by auto
  note st = process_packet_stats [OF p]
  show ?case unfolding eq using Cons.IH [OF q] st
    by (auto simp: outcome_count_def was_forwarded_def was_dropped_def split: sum.splits option.splits)
qed (simp add: outcome_count_def)

definition sample_relay :: relay where
  "sample_relay = \<lparr>rl_node_id = ''relay_01'', rl_parser = parser_init ''relay_01'',
     rl_decryptor = (decryptor_init ''relay_01'')\<lparr>dec_sessions := [(''mercedes_car_44'', sample_engine)]\<rparr>,
     rl_integrity = integrity_init ''relay_01'' 30000 100 True True, rl_anomaly = sample_filter,
     rl_reencryptor = (reencryptor_init ''relay_01'')\<lparr>ren_engine := Some sample_engine\<rparr>,
     rl_stats = relay_stats_init\<rparr>"

theorem relay_accounts_witness:
  "\<exists>os r'. process_all demo_pyca [(0, [], []), (0, [], [123])] sample_relay = (os, r') \<and>
     rs_received (rl_stats r') = 2"
proof -
  obtain os r' where p: "process_all demo_pyca [(0, [], []), (0, [], [123])] sample_relay = (os, r')" by fastforce
  have "rs_received (rl_stats sample_relay) = 0" by (simp add: sample_relay_def relay_stats_init_def)
  with relay_accounts [OF p] p show ?thesis by (simp del: process_all.simps)
qed

text \<open>C7. Whatever bytes arrive, in whatever order, the relay never forwards two packets with the same
  node and sequence number: the forwarded numbers of every node strictly increase.\<close>

theorem relay_no_replay:
  assumes "ic_inv (rl_integrity r)"
  shows "sorted_wrt (<) (map raw_seq (filter (\<lambda>x. raw_node x = n) (run_accepted (relay_step C) r xs))) \<and>
    distinct (map (\<lambda>x. (raw_node x, raw_seq x)) (run_accepted (relay_step C) r xs)) \<and>
    length (ic_seen (rl_integrity (run_state (relay_step C) r xs)) n) \<le> REPLAY_WINDOW_SIZE"
proof -
  have i: "relay_inv r" using assms by (simp add: relay_inv_def)
  have "relay_inv (run_state (relay_step C) r xs)" using relay.run_inv [OF i] by simp
  then have "ic_inv (rl_integrity (run_state (relay_step C) r xs))" by (simp add: relay_inv_def)
  then have "length (ic_seen (rl_integrity (run_state (relay_step C) r xs)) n) \<le> REPLAY_WINDOW_SIZE" by (rule ic_lastE)
  then show ?thesis using relay.accepted_sorted [OF i] relay.accepted_distinct [OF i] by blast
qed

theorem relay_no_replay_witness:
  "distinct (map (\<lambda>x. (raw_node x, raw_seq x)) (run_accepted (relay_step demo_pyca) sample_relay [(0, [], [123]), (0, [], [123])]))"
proof -
  have "ic_inv (rl_integrity sample_relay)" by (simp add: sample_relay_def ic_inv_init)
  from relay_no_replay [OF this, of undefined demo_pyca "[(0, [], [123]), (0, [], [123])]"] show ?thesis by blast
qed

text \<open>What the packet for the validator carries over from the parsed packet.\<close>

lemma carried_fields:
  assumes d: "read_json_packet raw = Inr d" and node: "dict_get d ''node_id'' = PStr n"
    and keep: "\<forall>x. x \<notin> {''payload_bytes'', ''payload_json'', ''decrypted'', ''decrypted_by'',
      ''anomaly_rejected'', ''anomaly_flagged'', ''anomaly_clean''} \<longrightarrow> map_of a x = map_of d x"
    and out: "out = reencrypted_fields x a nonce ct p sb sh"
  shows "dict_get out ''nonce_bytes'' = PBytes nonce" "dict_get out ''ciphertext_bytes'' = PBytes ct"
    "dict_get out ''header'' = dict_get d ''header''" "dict_get out ''original_node'' = PStr n"
    "dict_get out ''sequence_no'' = dict_get d ''sequence_no''"
    "dict_get out ''timestamp'' = dict_get_or d ''timestamp'' (PInt 0)"
    "dict_get out ''team'' = dict_get d ''team''" "dict_get out ''session'' = dict_get d ''session''"
    "\<not> dict_has out ''anomaly_flagged''"
proof -
  have "dict_get_or d ''sequence_no'' (PInt 0) = dict_get d ''sequence_no''"
    "dict_get_or d ''team'' (PStr []) = dict_get d ''team''" "dict_get_or d ''session'' (PStr []) = dict_get d ''session''"
    using d by (auto elim!: read_json_packet_InrE
      simp: dict_get_or_def dict_get_def REQUIRED_FIELDS_def dict_has_def split: option.splits)
  moreover have "dict_get_or d ''node_id'' (PStr []) = PStr n"
    using node by (auto simp: dict_get_or_def dict_get_def split: option.splits)
  moreover have "dict_get a ''header'' = dict_get d ''header''" by (simp add: dict_get_def keep)
  ultimately show "dict_get out ''nonce_bytes'' = PBytes nonce" "dict_get out ''ciphertext_bytes'' = PBytes ct"
    "dict_get out ''header'' = dict_get d ''header''" "dict_get out ''original_node'' = PStr n"
    "dict_get out ''sequence_no'' = dict_get d ''sequence_no''"
    "dict_get out ''timestamp'' = dict_get_or d ''timestamp'' (PInt 0)"
    "dict_get out ''team'' = dict_get d ''team''" "dict_get out ''session'' = dict_get d ''session''"
    "\<not> dict_has out ''anomaly_flagged''"
    by (simp_all add: out reencrypted_fields_get dict_get_or_def keep)
qed

lemma header_given:
  assumes "read_json_packet raw = Inr d" and "header_or_hex d = Inr h" and "aad_of h = Inr a"
  obtains hb where "dict_get d ''header'' = PBytes hb" and "a = Some hb"
proof -
  obtain hb where hb: "dict_get d ''header'' = PBytes hb" using assms(1) by (rule read_json_packet_InrE) simp
  then have "h = PBytes hb" using assms(2) by (simp add: header_or_hex_def)
  then show thesis using that hb assms(3) by (simp add: aad_of_def)
qed

lemma sealed_given:
  assumes "read_json_packet raw = Inr d"
    and "field_or_hex d ''nonce_bytes'' ''nonce'' e1 = Inr (PBytes nb)"
    and "field_or_hex d ''ciphertext_bytes'' ''ciphertext'' e2 = Inr (PBytes cb)"
  shows "dict_get d ''nonce_bytes'' = PBytes nb" and "dict_get d ''ciphertext_bytes'' = PBytes cb"
proof -
  obtain n c where nc: "dict_get d ''nonce_bytes'' = PBytes n" "dict_get d ''ciphertext_bytes'' = PBytes c"
    using assms(1) by (rule read_json_packet_InrE) simp
  show "dict_get d ''nonce_bytes'' = PBytes nb" "dict_get d ''ciphertext_bytes'' = PBytes cb"
    using assms(2,3) nc by (simp_all add: field_or_hex_def)
qed

text \<open>C6. What the relay forwards: the packet parsed and validated, its ciphertext and nonce open under the
  session key of the node it names with its header as associated data, its number lies above the last one accepted from
  that node, no channel of the payload it opens to is physically impossible, and what goes on to the validator is
  that payload sealed under the validator key, with header, sequence number, timestamp, team and
  session as received and the node as \<open>original_node\<close>. The anomaly flag does not go along.\<close>

theorem relay_forwards_faithfully:
  assumes "aead_law C" and "ic_inv (rl_integrity r)"
    and "process_packet C now nonce raw r = (Inr (Some out), r')"
  shows "\<exists>d node k kv p js h ct nb cb. read_json_packet raw = Inr d \<and> validate_json_packet d = Inr [] \<and>
    dict_get d ''node_id'' = PStr node \<and> dec_key (rl_decryptor r) node = Some k \<and>
    dict_get d ''header'' = PBytes h \<and> dict_get d ''nonce_bytes'' = PBytes nb \<and>
    dict_get d ''ciphertext_bytes'' = PBytes cb \<and> aead_decrypt C k nb cb (Some h) = Inr p \<and> aead_encrypt C k nb p (Some h) = Inr cb \<and> json_loads p = Inr js \<and>
    last_int (rl_integrity r) (PStr node) < seq_num d \<and> \<not> (\<exists>ch\<in>set CHANNELS. impossible js ch) \<and>
    ren_key (rl_reencryptor r) = Some kv \<and> aead_encrypt C kv nonce p (Some h) = Inr ct \<and>
    dict_get out ''nonce_bytes'' = PBytes nonce \<and> dict_get out ''ciphertext_bytes'' = PBytes ct \<and>
    aead_decrypt C kv nonce ct (Some h) = Inr p \<and>
    dict_get out ''header'' = PBytes h \<and>
    dict_get out ''original_node'' = PStr node \<and>
    dict_get out ''sequence_no'' = dict_get d ''sequence_no'' \<and> dict_get out ''timestamp'' = dict_get_or d ''timestamp'' (PInt 0) \<and>
    dict_get out ''team'' = dict_get d ''team'' \<and> dict_get out ''session'' = dict_get d ''session'' \<and>
    \<not> dict_has out ''anomaly_flagged''"
proof -
  obtain d dp dec res i an ares f where d: "read_json_packet raw = Inr d" and v: "validate_json_packet d = Inr []"
    and dp: "decrypt_relay C d (rl_decryptor r) = (Inr dp, dec)"
    and ic: "integrity_check (rl_integrity r) now dp = (Inr res, i)" "cr_passed res"
    and an: "anomaly_annotate dp (rl_anomaly r) = (Inr (an, ares), f)" "\<not> is_rejected ares"
    and re: "reencrypt C nonce an (rl_reencryptor r) = (Inr out, rl_reencryptor r')"
    using assms(3) by (rule process_packet_SomeE)
  note ok = decrypted_ok_for_check [OF v dp]
  obtain n k nb cb h a p js where node: "dict_get d ''node_id'' = PStr n" and k: "dec_key (rl_decryptor r) n = Some k"
    and opened: "aead_decrypt C k nb cb a = Inr p" and js: "json_loads p = Inr js"
    and h: "header_or_hex d = Inr h" "aad_of h = Inr a"
    and nc: "field_or_hex d ''nonce_bytes'' ''nonce'' MissingNonce = Inr (PBytes nb)"
      "field_or_hex d ''ciphertext_bytes'' ''ciphertext'' MissingCiphertext = Inr (PBytes cb)"
    and dpe: "dp = opened_fields (rl_decryptor r) d p js"
    using dp by (rule decrypt_relay_InrD)
  have pn: "pkt_node dp = PStr n"
    unfolding ok(4) using node by (auto simp: pkt_node_def dict_get_or_def dict_get_def split: option.splits)
  note cs = integrity_check_cases [OF assms(2) ok(1,2) ic(1)]
  have above: "last_int (rl_integrity r) (PStr n) < seq_num d"
    using cs(2) ic(2) pn ok(5) by (simp add: ic_accepts_def)
  note an' = anomaly_annotate_InrD [OF an(1)]
  have pay: "an_payload dp = js" by (simp add: an_payload_def dpe opened_fields_def dict_get_or_def)
  have "is_rejected ares \<longleftrightarrow> (\<exists>ch\<in>set CHANNELS. impossible js ch)"
    using an'(1) pay check_channels_rejected [OF _ channels_limited]
    by (elim anomaly_check_InrD) (simp add: new_anomaly_def is_rejected_def)
  then have clean: "\<not> (\<exists>ch\<in>set CHANNELS. impossible js ch)" using an(2) by simp
  obtain kv p' av ct sb sh where r: "ren_key (rl_reencryptor r) = Some kv" "dict_get an ''payload_bytes'' = PBytes p'"
    "aad_of (dict_get an ''header'') = Inr av" "aead_encrypt C kv nonce p' av = Inr ct"
    and out: "out = reencrypted_fields (rl_reencryptor r) an nonce ct p' sb sh"
    using re by (rule reencrypt_InrD)
  have keep: "\<forall>x. x \<notin> {''payload_bytes'', ''payload_json'', ''decrypted'', ''decrypted_by'',
      ''anomaly_rejected'', ''anomaly_flagged'', ''anomaly_clean''} \<longrightarrow> map_of an x = map_of d x"
    by (simp add: an'(2) dpe opened_fields_get)
  have "p' = p" using r(2) by (simp add: an'(2) dpe opened_fields_def)
  note r' = r [unfolded this]
  note outs = carried_fields [OF d node keep out]
  obtain hb where hb: "dict_get d ''header'' = PBytes hb" "a = Some hb" using header_given [OF d h] .
  have av: "av = Some hb" using r'(3) hb keep [rule_format, of "''header''"] by (simp add: aad_of_def dict_get_def)
  note given = sealed_given [OF d nc]
  have seals: "aead_decrypt C k nb cb (Some hb) = Inr p" "aead_encrypt C k nb p (Some hb) = Inr cb" "aead_decrypt C kv nonce ct (Some hb) = Inr p"
    using opened r'(4) assms(1) hb(2) av by (simp_all add: aead_lawD)
  have ct: "aead_encrypt C kv nonce p (Some hb) = Inr ct" using r'(4) av by simp
  have hout: "dict_get out ''header'' = PBytes hb" using outs(3) hb by simp
  show ?thesis
    by (rule exI [of _ d], rule exI [of _ n], rule exI [of _ k], rule exI [of _ kv], rule exI [of _ p],
      rule exI [of _ js], rule exI [of _ hb], rule exI [of _ ct], rule exI [of _ nb], rule exI [of _ cb],
      (intro conjI; fact))
qed

end
