(* ===== verification/SignatureVerify.thy ===== *)
theory SignatureVerify
  imports Signer
begin

text \<open>
  \<open>validator-node/src/signature_verifier.py\<close>: the validator's Ed25519 verification. The identity
  comes from \<open>original_node\<close>, \<open>node_id\<close> or \<open>signer_node_id\<close>, the first that is not empty; the
  signature from its bytes or its hexadecimal text, checked for form and size before the primitive
  is called. The lemmas say what a verified packet is known to carry and how each outcome counts.
\<close>

record sig_verifier =
  sv_node_id :: string
  sv_registry :: "bytes dict"
  sv_verified :: int
  sv_rejected :: int
  sv_unknown :: int

definition sig_verifier_init :: "string \<Rightarrow> sig_verifier" where
  "sig_verifier_init node = \<lparr>sv_node_id = node, sv_registry = [], sv_verified = 0, sv_rejected = 0, sv_unknown = 0\<rparr>"

definition sv_register_node :: "string \<Rightarrow> bytes \<Rightarrow> sig_verifier \<Rightarrow> unit res \<times> sig_verifier" where
  "sv_register_node node key v =
     (if length key \<noteq> PUBLIC_KEY_SIZE then (Inl ValueErr, v)
      else (Inr (), v\<lparr>sv_registry := dict_set node key (sv_registry v)\<rparr>))"

definition sv_deregister_node :: "string \<Rightarrow> sig_verifier \<Rightarrow> sig_verifier" where
  "sv_deregister_node node v =
     (if dict_has (sv_registry v) node then v\<lparr>sv_registry := dict_pop node (sv_registry v)\<rparr> else v)"

definition sv_is_registered :: "sig_verifier \<Rightarrow> string \<Rightarrow> bool" where
  "sv_is_registered v node = dict_has (sv_registry v) node"

section \<open>Verification\<close>

definition sig_identity :: "pydict \<Rightarrow> pyval" where
  "sig_identity pkt =
     py_or (dict_get pkt ''original_node'')
       (py_or (dict_get_or pkt ''node_id'' (PStr [])) (dict_get_or pkt ''signer_node_id'' (PStr [])))"

abbreviation sig_error :: "sig_failure \<Rightarrow> 'a res" where
  "sig_error f \<equiv> Inl (SignatureVerificationError f)"

text \<open>The signature bytes: present, or decoded from text, then checked for type and size.\<close>

definition resolve_sig :: "pydict \<Rightarrow> bytes res" where
  "resolve_sig pkt =
     rbind (if dict_get pkt ''signature_bytes'' \<noteq> PNone then Inr (dict_get pkt ''signature_bytes'')
            else let h = dict_get_or pkt ''signature'' (PStr [])
                 in if \<not> truthy h then sig_error NoSignature
                    else (case h of
                        PStr s \<Rightarrow> (case fromhex s of Some b \<Rightarrow> Inr (PBytes b) | None \<Rightarrow> sig_error BadHex)
                      | _ \<Rightarrow> sig_error HexNotStr)) (\<lambda>v.
       case v of
         PBytes sig \<Rightarrow> (if length sig \<noteq> SIGNATURE_SIZE then sig_error (BadSigSize (length sig)) else Inr sig)
       | _ \<Rightarrow> sig_error NotBytes)"

definition resolve_data :: "pydict \<Rightarrow> bytes res" where
  "resolve_data pkt =
     (let h = dict_get_or pkt ''header'' (PBytes []); p = dict_get_or pkt ''payload_bytes'' (PBytes [])
      in if \<not> truthy h then sig_error NoHeader
         else if \<not> truthy p then sig_error NoPayload
         else case (h, p) of (PBytes hb, PBytes pb) \<Rightarrow> Inr (hb @ pb) | _ \<Rightarrow> Inl TypeErr)"

definition count_sig_rejected :: "sig_verifier \<Rightarrow> sig_verifier" where
  "count_sig_rejected v = v\<lparr>sv_rejected := sv_rejected v + 1\<rparr>"

text \<open>A \<open>SignatureVerificationError\<close> was counted before it was raised; a \<open>TypeError\<close> was not.\<close>

definition sig_raise :: "exn \<Rightarrow> sig_verifier \<Rightarrow> pydict res \<times> sig_verifier" where
  "sig_raise e v = (Inl e, if e = TypeErr then v else count_sig_rejected v)"

definition verify_result :: "pyval \<Rightarrow> string \<Rightarrow> pydict" where
  "verify_result node stamp =
     [(''verified'', PBool True), (''node_id'', node), (''reason'', PStr ''signature_valid''),
      (''verified_at'', PStr stamp)]"

definition sv_verify :: "pyca \<Rightarrow> string \<Rightarrow> pydict \<Rightarrow> sig_verifier \<Rightarrow> pydict res \<times> sig_verifier" where
  "sv_verify C stamp pkt v =
     (let node = sig_identity pkt
      in if \<not> truthy node then sig_raise (SignatureVerificationError NoIdentity) v
         else case lookup_str (sv_registry v) node of
           Inl e \<Rightarrow> (Inl e, v)
         | Inr None \<Rightarrow> sig_raise (SignatureVerificationError UnknownSigner) (v\<lparr>sv_unknown := sv_unknown v + 1\<rparr>)
         | Inr (Some key) \<Rightarrow> (case resolve_sig pkt of
             Inl e \<Rightarrow> sig_raise e v
           | Inr sig \<Rightarrow> (case resolve_data pkt of
               Inl e \<Rightarrow> sig_raise e v
             | Inr d \<Rightarrow>
                 if ed_verify C key sig d
                 then (Inr (verify_result node stamp), v\<lparr>sv_verified := sv_verified v + 1\<rparr>)
                 else sig_raise InvalidSignature v)))"

definition is_sig_error :: "exn \<Rightarrow> bool" where
  "is_sig_error x = (case x of SignatureVerificationError _ \<Rightarrow> True | InvalidSignature \<Rightarrow> True | _ \<Rightarrow> False)"

definition sv_verify_batch ::
  "pyca \<Rightarrow> string \<Rightarrow> pydict list \<Rightarrow> sig_verifier \<Rightarrow> (pydict list \<times> (pydict \<times> exn) list) res \<times> sig_verifier" where
  "sv_verify_batch C stamp ps v =
     batch is_sig_error (\<lambda>p v. case sv_verify C stamp p v of
         (Inl e, v') \<Rightarrow> (Inl e, v')
       | (Inr r, v') \<Rightarrow> (Inr (dict_set ''signature_result'' (PDict r) p), v')) ps v"

section \<open>Properties\<close>

lemma resolve_data_InrE:
  assumes "resolve_data pkt = Inr d"
  obtains h p where "dict_get pkt ''header'' = PBytes h" and "dict_get pkt ''payload_bytes'' = PBytes p"
    and "d = h @ p" and "h \<noteq> []" and "p \<noteq> []"
  using assms
  by (auto simp: resolve_data_def Let_def dict_get_def dict_get_or_def
      split: if_splits pyval.splits option.splits)

lemma resolve_sig_length: "resolve_sig pkt = Inr sig \<Longrightarrow> length sig = 64"
  by (auto simp: resolve_sig_def SIGNATURE_SIZE_def elim!: rbind_InrE split: pyval.splits if_splits)

lemma sv_verify_InrD:
  assumes "sv_verify C stamp pkt v = (Inr r, v')"
  obtains node key sig h p where "sig_identity pkt = PStr node" and "node \<noteq> []"
    and "map_of (sv_registry v) node = Some key" and "resolve_sig pkt = Inr sig"
    and "dict_get pkt ''header'' = PBytes h" and "dict_get pkt ''payload_bytes'' = PBytes p"
    and "ed_verify C key sig (h @ p)" and "v' = v\<lparr>sv_verified := sv_verified v + 1\<rparr>"
    and "r = verify_result (PStr node) stamp"
proof -
  from assms obtain key sig d where t: "truthy (sig_identity pkt)"
    and l: "lookup_str (sv_registry v) (sig_identity pkt) = Inr (Some key)"
    and s: "resolve_sig pkt = Inr sig" and d: "resolve_data pkt = Inr d" and ed: "ed_verify C key sig d"
    and v': "v' = v\<lparr>sv_verified := sv_verified v + 1\<rparr>" and r: "r = verify_result (sig_identity pkt) stamp"
    by (auto simp: sv_verify_def sig_raise_def Let_def split: if_splits sum.splits option.splits)
  from l obtain node where n: "sig_identity pkt = PStr node" "map_of (sv_registry v) node = Some key"
    by (rule lookup_str_SomeE)
  from d obtain h p where "dict_get pkt ''header'' = PBytes h" "dict_get pkt ''payload_bytes'' = PBytes p"
    "d = h @ p" by (rule resolve_data_InrE)
  with n t s ed v' r show thesis by (intro that [of node key sig h p]) auto
qed

lemma sv_verify_ok:
  assumes "sig_identity pkt = PStr node" and "node \<noteq> []" and "map_of (sv_registry v) node = Some key"
    and "resolve_sig pkt = Inr sig" and "resolve_data pkt = Inr d" and "ed_verify C key sig d"
  shows "sv_verify C stamp pkt v = (Inr (verify_result (PStr node) stamp), v\<lparr>sv_verified := sv_verified v + 1\<rparr>)"
  using assms by (simp add: sv_verify_def Let_def)

text \<open>Every call that ends in one of the two handled errors or in success counts exactly once.\<close>

lemma sv_verify_counts:
  assumes "sv_verify C stamp pkt v = (r, v')"
  shows "sv_verified v' + sv_rejected v' = sv_verified v + sv_rejected v + (if r = Inl TypeErr then 0 else 1)"
    and "sv_verified v' = sv_verified v + (if is_err r then 0 else 1)"
    and "sv_registry v' = sv_registry v"
proof -
  have te: "lookup_str m k = Inl e \<Longrightarrow> e = TypeErr" for m :: "bytes dict" and k e
    by (auto simp: lookup_str_def split: if_splits)
  have "sv_verified v' + sv_rejected v' = sv_verified v + sv_rejected v + (if r = Inl TypeErr then 0 else 1) \<and>
    sv_verified v' = sv_verified v + (if is_err r then 0 else 1) \<and> sv_registry v' = sv_registry v"
    using assms
    by (auto simp: sv_verify_def sig_raise_def count_sig_rejected_def Let_def
        split: if_splits sum.splits option.splits dest!: te)
  then show "sv_verified v' + sv_rejected v' = sv_verified v + sv_rejected v + (if r = Inl TypeErr then 0 else 1)"
    and "sv_verified v' = sv_verified v + (if is_err r then 0 else 1)"
    and "sv_registry v' = sv_registry v" by auto
qed

lemma sv_verify_no_escape:
  "fst (sv_verify C stamp pkt v) = Inl e \<Longrightarrow> is_sig_error e \<or> e = TypeErr"
  by (auto simp: sv_verify_def sig_raise_def resolve_sig_def resolve_data_def is_sig_error_def rbind_def
      lookup_str_def Let_def split: if_splits sum.splits option.splits pyval.splits)

end
