(* ===== verification/SequenceCheck.thy ===== *)
theory SequenceCheck
  imports ReplayGuard
begin

text \<open>
  \<open>validator-node/src/sequence_checker.py\<close>: the validator's own replay defence, with its larger
  window, age and gap limits and its \<open>strict_ordering\<close> switch. A node is named by
  \<open>original_node\<close>, or \<open>node_id\<close> when that is absent or empty. With strict ordering on, as the
  validator runs it, the checker is a \<open>replay_guard\<close>.
\<close>

section \<open>State\<close>

definition SC_MAX_TIMESTAMP_AGE_MS :: int where "SC_MAX_TIMESTAMP_AGE_MS = 60000"
definition SC_MAX_SEQUENCE_GAP :: int where "SC_MAX_SEQUENCE_GAP = 1000"
definition REPLAY_WINDOW :: nat where "REPLAY_WINDOW = 50000"

record seqcheck =
  sc_node_id :: string
  sc_max_ts_age :: int
  sc_max_gap :: int
  sc_check_ts :: bool
  sc_strict :: bool
  sc_last_seq :: "pyval \<rightharpoonup> pyval"
  sc_seen_seqs :: "pyval \<rightharpoonup> pyval list"
  sc_first_seen :: "pyval \<rightharpoonup> clock"
  sc_checked :: int
  sc_passed :: int
  sc_failed :: int
  sc_replays :: int
  sc_gaps :: int

definition seqcheck_init :: "string \<Rightarrow> int \<Rightarrow> int \<Rightarrow> bool \<Rightarrow> bool \<Rightarrow> seqcheck" where
  "seqcheck_init node max_age max_gap check_ts strict =
     \<lparr>sc_node_id = node, sc_max_ts_age = max_age, sc_max_gap = max_gap,
      sc_check_ts = check_ts, sc_strict = strict,
      sc_last_seq = Map.empty, sc_seen_seqs = Map.empty, sc_first_seen = Map.empty,
      sc_checked = 0, sc_passed = 0, sc_failed = 0, sc_replays = 0, sc_gaps = 0\<rparr>"

section \<open>Operations\<close>

definition sc_init_node :: "pyval \<Rightarrow> clock \<Rightarrow> seqcheck \<Rightarrow> seqcheck" where
  "sc_init_node k now st =
     (if sc_last_seq st k = None
      then st\<lparr>sc_last_seq := (sc_last_seq st)(k \<mapsto> PInt 0),
              sc_seen_seqs := (sc_seen_seqs st)(k \<mapsto> []),
              sc_first_seen := (sc_first_seen st)(k \<mapsto> now)\<rparr>
      else st)"

definition sc_seen :: "seqcheck \<Rightarrow> pyval \<Rightarrow> pyval list" where
  "sc_seen st k = (case sc_seen_seqs st k of Some s \<Rightarrow> s | None \<Rightarrow> [])"

definition sc_last :: "seqcheck \<Rightarrow> pyval \<Rightarrow> pyval" where
  "sc_last st k = (case sc_last_seq st k of Some v \<Rightarrow> v | None \<Rightarrow> PInt 0)"

text \<open>The node, sequence number and timestamp of a packet, as the checker reads them.\<close>

definition sc_node :: "pydict \<Rightarrow> pyval" where
  "sc_node pkt = py_or (dict_get pkt ''original_node'') (dict_get_or pkt ''node_id'' (PStr ''unknown''))"

definition sc_seq :: "pydict \<Rightarrow> pyval" where
  "sc_seq pkt = dict_get_or pkt ''sequence_no'' (PInt 0)"

definition sc_ts :: "pydict \<Rightarrow> pyval" where
  "sc_ts pkt = dict_get_or pkt ''timestamp'' (PInt 0)"

definition sc_remember :: "pyval \<Rightarrow> pyval \<Rightarrow> seqcheck \<Rightarrow> seqcheck" where
  "sc_remember k seq st =
     st\<lparr>sc_last_seq := (sc_last_seq st)(k \<mapsto> seq),
        sc_seen_seqs := (sc_seen_seqs st)(k \<mapsto> window_add REPLAY_WINDOW seq (sc_seen st k))\<rparr>"

definition sc_finish :: "pyval \<Rightarrow> pyval \<Rightarrow> check_result \<Rightarrow> seqcheck \<Rightarrow> seqcheck" where
  "sc_finish k seq r st =
     (let st1 = (if cr_passed r then sc_remember k seq st else st);
          st2 = st1\<lparr>sc_checked := sc_checked st1 + 1\<rparr>
      in if cr_passed r then st2\<lparr>sc_passed := sc_passed st2 + 1\<rparr>
         else st2\<lparr>sc_failed := sc_failed st2 + 1\<rparr>)"

definition sequence_check :: "seqcheck \<Rightarrow> clock \<Rightarrow> pydict \<Rightarrow> check_result res \<times> seqcheck" where
  "sequence_check st now pkt =
     (let node = sc_node pkt; seq = sc_seq pkt; k = norm_key node
      in if \<not> hashable node then (Inl TypeErr, st)
      else let st0 = sc_init_node k now st
      in case py_le seq (PInt 0) of Inl e \<Rightarrow> (Inl e, st0)
      | Inr nonpos \<Rightarrow>
      let r1 = error_if nonpos (InvalidSeq seq) new_result;
          dup = (norm_key seq \<in> set (sc_seen st0 k));
          st1 = (if dup then st0\<lparr>sc_replays := sc_replays st0 + 1\<rparr> else st0);
          r2 = error_if dup (ReplaySeen node seq) r1;
          prev = sc_last st0 k
      in case (if sc_strict st then not_above prev seq else Inr False) of Inl e \<Rightarrow> (Inl e, st1)
      | Inr ooo \<Rightarrow>
      let r3 = error_if ooo (OutOfOrder node seq prev) r2
      in case gap_above (sc_max_gap st) prev seq of Inl e \<Rightarrow> (Inl e, st1)
      | Inr gap \<Rightarrow>
      let st2 = (if gap \<noteq> None then st1\<lparr>sc_gaps := sc_gaps st1 + 1\<rparr> else st1);
          r4 = warning_if (gap \<noteq> None) (LargeGap node (case gap of Some g \<Rightarrow> g | None \<Rightarrow> PNone)) r3
      in case timestamp_age (sc_check_ts st) (sc_max_ts_age st) now (sc_ts pkt) of Inl e \<Rightarrow> (Inl e, st2)
      | Inr f \<Rightarrow>
      let r5 = error_if (is_stale f) (TooOld node (age_of f)) r4;
          r6 = warning_if (is_future f) (FutureTimestamp node (age_of f)) r5
      in (Inr r6, sc_finish k seq r6 st2))"

text \<open>As at the relay, the result itself is returned beside the annotated packet.\<close>

definition sequence_annotate :: "seqcheck \<Rightarrow> clock \<Rightarrow> pydict \<Rightarrow> (pydict \<times> check_result) res \<times> seqcheck" where
  "sequence_annotate st now pkt =
     (case sequence_check st now pkt of
        (Inl e, st') \<Rightarrow> (Inl e, st')
      | (Inr r, st') \<Rightarrow> (Inr (dict_set ''sequence_passed'' (PBool (cr_passed r)) pkt, r), st'))"

definition sequence_reset_node :: "string \<Rightarrow> seqcheck \<Rightarrow> seqcheck" where
  "sequence_reset_node node st =
     st\<lparr>sc_last_seq := (sc_last_seq st)(PStr node := None),
        sc_seen_seqs := (sc_seen_seqs st)(PStr node := None),
        sc_first_seen := (sc_first_seen st)(PStr node := None)\<rparr>"

record node_stats =
  ns_node_id :: string
  ns_last_seq :: pyval
  ns_seen_count :: nat
  ns_first_seen :: "clock option"

definition get_node_stats :: "string \<Rightarrow> seqcheck \<Rightarrow> node_stats" where
  "get_node_stats node st =
     \<lparr>ns_node_id = node, ns_last_seq = sc_last st (PStr node),
      ns_seen_count = length (sc_seen st (PStr node)), ns_first_seen = sc_first_seen st (PStr node)\<rparr>"

section \<open>The invariant\<close>

definition sc_last_int :: "seqcheck \<Rightarrow> pyval \<Rightarrow> int" where
  "sc_last_int st k = (case num_int (sc_last st k) of Some n \<Rightarrow> n | None \<Rightarrow> 0)"

definition sc_node_ok :: "seqcheck \<Rightarrow> pyval \<Rightarrow> bool" where
  "sc_node_ok st k =
     ((\<exists>n. num_int (sc_last st k) = Some n \<and> 0 \<le> n \<and>
         (\<forall>s\<in>set (sc_seen st k). \<exists>m. s = PInt m \<and> 0 < m \<and> m \<le> n)) \<and>
      length (sc_seen st k) \<le> REPLAY_WINDOW \<and> (sc_last_seq st k = None \<longrightarrow> sc_seen st k = []))"

text \<open>Strict ordering is on, and every node is in order.\<close>

definition sc_inv :: "seqcheck \<Rightarrow> bool" where
  "sc_inv st = (sc_strict st \<and> (\<forall>k. sc_node_ok st k))"

lemma sc_inv_init: "sc_inv (seqcheck_init node max_age max_gap check_ts True)"
  by (simp add: sc_inv_def sc_node_ok_def seqcheck_init_def sc_last_def sc_seen_def)

lemma sc_invE:
  assumes "sc_inv st"
  obtains n where "num_int (sc_last st k) = Some n" and "0 \<le> n" and "sc_last_int st k = n"
    and "\<forall>s\<in>set (sc_seen st k). \<exists>m. s = PInt m \<and> 0 < m \<and> m \<le> n"
    and "length (sc_seen st k) \<le> REPLAY_WINDOW"
    and "sc_last_seq st k = None \<Longrightarrow> sc_seen st k = []"
proof -
  have "sc_node_ok st k" using assms unfolding sc_inv_def by blast
  then show thesis using that by (auto simp: sc_node_ok_def sc_last_int_def)
qed

lemma sc_init_node_simps [simp]:
  "sc_last (sc_init_node k now st) j = sc_last st j"
  "sc_inv st \<Longrightarrow> sc_inv (sc_init_node k now st)"
  "sc_max_gap (sc_init_node k now st) = sc_max_gap st"
  "sc_strict (sc_init_node k now st) = sc_strict st"
  "sc_check_ts (sc_init_node k now st) = sc_check_ts st"
  "sc_max_ts_age (sc_init_node k now st) = sc_max_ts_age st"
  "sc_checked (sc_init_node k now st) = sc_checked st"
  "sc_passed (sc_init_node k now st) = sc_passed st"
  "sc_failed (sc_init_node k now st) = sc_failed st"
  by (auto simp: sc_init_node_def sc_last_def sc_seen_def sc_inv_def sc_node_ok_def)

lemma sc_seen_init_node: "sc_inv st \<Longrightarrow> sc_seen (sc_init_node k now st) k = sc_seen st k"
  by (erule sc_invE [of st k]) (auto simp: sc_init_node_def sc_seen_def split: option.splits)

lemma sc_upd [simp]:
  "sc_last (st\<lparr>sc_replays := a\<rparr>) = sc_last st" "sc_last (st\<lparr>sc_gaps := a\<rparr>) = sc_last st"
  "sc_last (st\<lparr>sc_checked := a\<rparr>) = sc_last st" "sc_last (st\<lparr>sc_passed := a\<rparr>) = sc_last st"
  "sc_last (st\<lparr>sc_failed := a\<rparr>) = sc_last st"
  "sc_inv (st\<lparr>sc_replays := a\<rparr>) = sc_inv st" "sc_inv (st\<lparr>sc_gaps := a\<rparr>) = sc_inv st"
  "sc_inv (st\<lparr>sc_checked := a\<rparr>) = sc_inv st" "sc_inv (st\<lparr>sc_passed := a\<rparr>) = sc_inv st"
  "sc_inv (st\<lparr>sc_failed := a\<rparr>) = sc_inv st"
  by (simp_all add: sc_last_def sc_seen_def sc_inv_def sc_node_ok_def fun_eq_iff)

lemma sc_remember_last [simp]: "sc_last (sc_remember k seq st) j = (if j = k then seq else sc_last st j)"
  by (simp add: sc_remember_def sc_last_def)

lemma sc_remember_inv:
  assumes "sc_inv st" and "num_int seq = Some q" and "0 < q" and "sc_last_int st k < q"
  shows "sc_inv (sc_remember k seq st)"
proof -
  obtain n where n: "num_int (sc_last st k) = Some n" "sc_last_int st k = n"
    and seen: "\<forall>s\<in>set (sc_seen st k). \<exists>m. s = PInt m \<and> 0 < m \<and> m \<le> n"
    and len: "length (sc_seen st k) \<le> REPLAY_WINDOW"
    using assms(1) by (rule sc_invE)
  have "\<exists>m. s = PInt m \<and> 0 < m \<and> m \<le> q"
    if "s \<in> set (window_add REPLAY_WINDOW seq (sc_seen st k))" for s
    using that window_add_subset [of REPLAY_WINDOW seq "sc_seen st k"] seen assms n
    by (fastforce simp: num_int_norm)
  moreover have "length (window_add REPLAY_WINDOW seq (sc_seen st k)) \<le> REPLAY_WINDOW"
    using len by (rule window_add_bounded)
  ultimately have here: "sc_node_ok (sc_remember k seq st) k"
    using assms by (auto simp: sc_node_ok_def sc_remember_def sc_last_def sc_seen_def)
  have "sc_node_ok (sc_remember k seq st) j = sc_node_ok st j" if "j \<noteq> k" for j
    using that by (simp add: sc_node_ok_def sc_remember_def sc_last_def sc_seen_def)
  with here have "\<forall>j. sc_node_ok (sc_remember k seq st) j"
    using assms(1) unfolding sc_inv_def by metis
  moreover have "sc_strict (sc_remember k seq st)"
    using assms(1) by (simp add: sc_inv_def sc_remember_def)
  ultimately show ?thesis by (simp add: sc_inv_def)
qed

section \<open>What a check does\<close>

definition sc_seq_num :: "pydict \<Rightarrow> int" where
  "sc_seq_num pkt = (case num_int (sc_seq pkt) of Some n \<Rightarrow> n | None \<Rightarrow> 0)"

definition sc_accepts :: "check_result res \<Rightarrow> bool" where
  "sc_accepts r = (case r of Inr x \<Rightarrow> cr_passed x | Inl _ \<Rightarrow> False)"

text \<open>The result of a check of a sequence number that is an integer, and the statistics before it.\<close>

definition sc_result :: "seqcheck \<Rightarrow> pydict \<Rightarrow> pyval option \<Rightarrow> freshness \<Rightarrow> check_result" where
  "sc_result st pkt gap f =
     (let node = sc_node pkt; k = norm_key node; seq = sc_seq pkt; q = sc_seq_num pkt; l = sc_last_int st k
      in \<lparr>cr_passed = (0 < q \<and> l < q \<and> \<not> is_stale f),
          cr_warnings = (case gap of Some g \<Rightarrow> [LargeGap node g] | None \<Rightarrow> []) @
            (if is_future f then [FutureTimestamp node (age_of f)] else []),
          cr_errors = (if q \<le> 0 then [InvalidSeq seq] else []) @
            (if PInt q \<in> set (sc_seen st k) then [ReplaySeen node seq] else []) @
            (if 0 < l \<and> q \<le> l then [OutOfOrder node seq (sc_last st k)] else []) @
            (if is_stale f then [TooOld node (age_of f)] else [])\<rparr>)"

definition sc_counted :: "seqcheck \<Rightarrow> clock \<Rightarrow> pydict \<Rightarrow> bool \<Rightarrow> seqcheck" where
  "sc_counted st now pkt big =
     (let k = norm_key (sc_node pkt); q = sc_seq_num pkt; st0 = sc_init_node k now st
      in st0\<lparr>sc_replays := sc_replays st0 + (if PInt q \<in> set (sc_seen st k) then 1 else 0),
             sc_gaps := sc_gaps st0 + (if big then 1 else 0)\<rparr>)"

lemma sequence_check_eq:
  assumes inv: "sc_inv st" and seq: "num_int (sc_seq pkt) \<noteq> None" and node: "hashable (sc_node pkt)"
  shows "sequence_check st now pkt =
     (let k = norm_key (sc_node pkt) in
      case gap_above (sc_max_gap st) (sc_last st k) (sc_seq pkt) of
        Inl e \<Rightarrow> (Inl e, sc_counted st now pkt False)
      | Inr gap \<Rightarrow> (case timestamp_age (sc_check_ts st) (sc_max_ts_age st) now (sc_ts pkt) of
          Inl e \<Rightarrow> (Inl e, sc_counted st now pkt (gap \<noteq> None))
        | Inr f \<Rightarrow> (Inr (sc_result st pkt gap f),
            sc_finish k (sc_seq pkt) (sc_result st pkt gap f) (sc_counted st now pkt (gap \<noteq> None)))))"
proof -
  let ?k = "norm_key (sc_node pkt)" and ?seq = "sc_seq pkt"
  obtain q where q: "num_int ?seq = Some q" using seq by auto
  then have nq: "norm_key ?seq = PInt q" by (simp add: num_int_norm)
  have sn: "sc_seq_num pkt = q" using q by (simp add: sc_seq_num_def)
  obtain n where n: "num_int (sc_last st ?k) = Some n" "0 \<le> n" "sc_last_int st ?k = n"
    and seen: "\<forall>s\<in>set (sc_seen st ?k). \<exists>m. s = PInt m \<and> 0 < m \<and> m \<le> n"
    using inv by (rule sc_invE)
  have strict: "sc_strict st" using inv by (simp add: sc_inv_def)
  have seen0: "sc_seen (sc_init_node ?k now st) ?k = sc_seen st ?k"
    using inv by (rule sc_seen_init_node)
  let ?dup = "PInt q \<in> set (sc_seen st ?k)" and ?ooo = "0 < n \<and> q \<le> n"
  have pass: "(0 < q \<and> \<not> ?dup \<and> \<not> ?ooo) = (0 < q \<and> n < q)"
    using seen n(2) by fastforce
  let ?st0 = "sc_init_node ?k now st"
  let ?st1 = "if ?dup then ?st0\<lparr>sc_replays := sc_replays ?st0 + 1\<rparr> else ?st0"
  have cnt0: "?st1 = sc_counted st now pkt False"
    by (simp add: sc_counted_def sn Let_def)
  have cnt: "(if big then (sc_counted st now pkt False)\<lparr>sc_gaps := sc_gaps (sc_counted st now pkt False) + 1\<rparr>
      else sc_counted st now pkt False) = sc_counted st now pkt big" for big
    by (simp add: sc_counted_def sn Let_def)
  let ?r = "\<lambda>gap f. warning_if (is_future f) (FutureTimestamp (sc_node pkt) (age_of f))
     (error_if (is_stale f) (TooOld (sc_node pkt) (age_of f))
     (warning_if (gap \<noteq> None)
        (LargeGap (sc_node pkt) (case gap of Some g \<Rightarrow> g | None \<Rightarrow> PNone))
     (error_if ?ooo (OutOfOrder (sc_node pkt) ?seq (sc_last st ?k))
     (error_if ?dup (ReplaySeen (sc_node pkt) ?seq)
     (error_if (q \<le> 0) (InvalidSeq ?seq) new_result)))))"
  have res: "?r gap f = sc_result st pkt gap f" for gap f
  proof (rule check_result.equality)
    show "cr_passed (?r gap f) = cr_passed (sc_result st pkt gap f)"
      using pass by (auto simp: sc_result_def sn n(3) Let_def)
  qed (simp_all add: sc_result_def sn n(3) Let_def new_result_def split: option.split)
  have le0: "py_le ?seq (PInt 0) = Inr (q \<le> 0)" using q by (simp add: py_cmp_num)
  have nab: "(if sc_strict st then not_above (sc_last st ?k) ?seq else Inr False) = Inr ?ooo"
    using q n(1) strict by (simp add: not_above_num)
  show ?thesis
    unfolding sequence_check_def Let_def
      sc_init_node_simps(1) seen0 nq le0 nab sum.case cnt0 cnt res
    using node by simp
qed

lemma sc_counted_simps [simp]:
  "sc_last (sc_counted st now pkt big) = sc_last st"
  "sc_inv st \<Longrightarrow> sc_inv (sc_counted st now pkt big)"
  "sc_checked (sc_counted st now pkt big) = sc_checked st"
  "sc_passed (sc_counted st now pkt big) = sc_passed st"
  "sc_failed (sc_counted st now pkt big) = sc_failed st"
  by (auto simp: sc_counted_def Let_def fun_eq_iff)

lemma sc_result_passed:
  "cr_passed (sc_result st pkt gap f) =
   (0 < sc_seq_num pkt \<and> sc_last_int st (norm_key (sc_node pkt)) < sc_seq_num pkt \<and> \<not> is_stale f)"
  by (simp add: sc_result_def Let_def)

lemma sc_finish_last:
  "sc_last (sc_finish k seq r st) j = (if cr_passed r \<and> j = k then seq else sc_last st j)"
  by (simp add: sc_finish_def Let_def)

lemma sc_finish_inv:
  assumes "sc_inv st" and "num_int seq = Some q" and "cr_passed r \<Longrightarrow> 0 < q \<and> sc_last_int st k < q"
  shows "sc_inv (sc_finish k seq r st)"
  using assms sc_remember_inv [of st seq q k] by (simp add: sc_finish_def Let_def)

lemma sequence_check_cases:
  assumes "sc_inv st" and "num_int (sc_seq pkt) \<noteq> None" and "hashable (sc_node pkt)"
    and "sequence_check st now pkt = (r, st')"
  shows "sc_inv st'"
    and "sc_accepts r \<Longrightarrow> 0 < sc_seq_num pkt \<and> sc_last_int st (norm_key (sc_node pkt)) < sc_seq_num pkt"
    and "sc_last_int st' k = (if sc_accepts r \<and> k = norm_key (sc_node pkt) then sc_seq_num pkt else sc_last_int st k)"
    and "sc_checked st' = sc_checked st + (if is_err r then 0 else 1)"
    and "sc_passed st' = sc_passed st + (if sc_accepts r then 1 else 0)"
    and "sc_failed st' = sc_failed st + (if is_err r \<or> sc_accepts r then 0 else 1)"
proof -
  obtain q where q: "num_int (sc_seq pkt) = Some q" using assms(2) by auto
  have sn: "sc_seq_num pkt = q" using q by (simp add: sc_seq_num_def)
  let ?k = "norm_key (sc_node pkt)" and ?c = "sc_counted st now pkt"
  have li: "sc_last_int (?c big) j = sc_last_int st j" for j big by (simp add: sc_last_int_def)
  consider e big where "r = Inl e" "st' = ?c big"
    | gap f big where "r = Inr (sc_result st pkt gap f)" "st' = sc_finish ?k (sc_seq pkt) (sc_result st pkt gap f) (?c big)"
    using assms(4) unfolding sequence_check_eq [OF assms(1-3)] by (auto simp: Let_def split: sum.splits)
  note cases = this
  have fin: "sc_inv (sc_finish ?k (sc_seq pkt) (sc_result st pkt gap f) (?c big))" for gap f big
    using sc_result_passed [of st pkt gap f] q sn li assms(1) by (intro sc_finish_inv [where q = q]) auto
  have fl: "sc_last_int (sc_finish ?k (sc_seq pkt) (sc_result st pkt gap f) (?c big)) j =
      (if cr_passed (sc_result st pkt gap f) \<and> j = ?k then q else sc_last_int st j)" for gap f j big
    using q by (simp add: sc_last_int_def sc_finish_last)
  show "sc_inv st'" using cases by cases (simp_all add: fin assms(1))
  show "sc_accepts r \<Longrightarrow> 0 < sc_seq_num pkt \<and> sc_last_int st ?k < sc_seq_num pkt"
    using cases sc_result_passed [of st pkt] by cases (auto simp: sc_accepts_def)
  show "sc_last_int st' k = (if sc_accepts r \<and> k = ?k then sc_seq_num pkt else sc_last_int st k)"
    using cases by cases (simp_all add: sc_accepts_def li fl sn)
  show "sc_checked st' = sc_checked st + (if is_err r then 0 else 1)"
    and "sc_passed st' = sc_passed st + (if sc_accepts r then 1 else 0)"
    and "sc_failed st' = sc_failed st + (if is_err r \<or> sc_accepts r then 0 else 1)"
    using cases by (cases, simp_all add: sc_accepts_def sc_finish_def sc_remember_def Let_def)+
qed

section \<open>The validator's checker is a replay guard\<close>

definition sequence_step :: "seqcheck \<Rightarrow> clock \<times> pydict \<Rightarrow> bool \<times> seqcheck" where
  "sequence_step st x = (let (r, st') = sequence_check st (fst x) (snd x) in (sc_accepts r, st'))"

definition sc_seq_ok :: "clock \<times> pydict \<Rightarrow> bool" where
  "sc_seq_ok x = (num_int (sc_seq (snd x)) \<noteq> None \<and> hashable (sc_node (snd x)))"

interpretation sc: replay_guard sequence_step sc_last_int
  "\<lambda>x. norm_key (sc_node (snd x))" "\<lambda>x. sc_seq_num (snd x)" sc_inv sc_seq_ok
proof
  fix s x n
  assume inv: "sc_inv s" and ok: "sc_seq_ok x"
  obtain r s' where c: "sequence_check s (fst x) (snd x) = (r, s')" by fastforce
  note cs = sequence_check_cases [OF inv _ _ c]
  show "sc_inv (snd (sequence_step s x))"
    using cs(1) ok c by (simp add: sequence_step_def sc_seq_ok_def)
  show "fst (sequence_step s x) \<Longrightarrow> sc_last_int s (norm_key (sc_node (snd x))) < sc_seq_num (snd x)"
    using cs(2) ok c by (simp add: sequence_step_def sc_seq_ok_def)
  show "sc_last_int (snd (sequence_step s x)) n =
      (if fst (sequence_step s x) \<and> n = norm_key (sc_node (snd x)) then sc_seq_num (snd x) else sc_last_int s n)"
    using cs(3) ok c by (simp add: sequence_step_def sc_seq_ok_def)
qed

lemma sequence_reset_inv: "sc_inv st \<Longrightarrow> sc_inv (sequence_reset_node node st)"
  by (auto simp: sc_inv_def sc_node_ok_def sequence_reset_node_def sc_last_def sc_seen_def)

section \<open>The promises of the checker\<close>

lemma sc_result_errors:
  assumes "sc_inv st"
  shows "cr_errors (sc_result st pkt gap f) = [] \<longleftrightarrow> cr_passed (sc_result st pkt gap f)"
proof -
  let ?k = "norm_key (sc_node pkt)"
  obtain n where "sc_last_int st ?k = n" "0 \<le> n" "\<forall>s\<in>set (sc_seen st ?k). \<exists>m. s = PInt m \<and> 0 < m \<and> m \<le> n"
    using assms by (rule sc_invE)
  then have "PInt q \<in> set (sc_seen st ?k) \<Longrightarrow> 0 < q \<and> q \<le> sc_last_int st ?k" for q by fastforce
  with \<open>sc_last_int st ?k = n\<close> \<open>0 \<le> n\<close> show ?thesis by (auto simp: sc_result_def Let_def)
qed

definition sc_too_old :: "seqcheck \<Rightarrow> clock \<Rightarrow> int \<Rightarrow> bool" where
  "sc_too_old st now t = (sc_check_ts st \<and> 0 < t \<and> sc_max_ts_age st < clock_ms now - t)"

text \<open>With integers on both sides the check returns.\<close>

lemma sequence_check_returns:
  assumes "sc_inv st" and "int_of (sc_seq pkt) = Some q" and "hashable (sc_node pkt)" and "int_of (sc_ts pkt) = Some t"
    and "int_of (sc_last st (norm_key (sc_node pkt))) = Some l"
  obtains gap f st' where "is_stale f = sc_too_old st now t"
    and "sequence_check st now pkt = (Inr (sc_result st pkt gap f), st')"
proof -
  have seq: "num_int (sc_seq pkt) \<noteq> None" using assms(2) by (simp add: num_int_of_int)
  obtain f where f: "timestamp_age (sc_check_ts st) (sc_max_ts_age st) now (sc_ts pkt) = Inr f"
    and stale: "is_stale f = sc_too_old st now t"
  proof (cases "sc_check_ts st")
    case True
    then show thesis using that timestamp_age_int [OF assms(4), of "sc_max_ts_age st" now]
      by (auto simp: sc_too_old_def is_stale_def split: if_splits)
  next
    case False
    then show thesis using that [of Fresh] by (simp add: sc_too_old_def is_stale_def)
  qed
  obtain gap where "gap_above (sc_max_gap st) (sc_last st (norm_key (sc_node pkt))) (sc_seq pkt) = Inr gap"
    using assms(2,5) by simp
  then have "\<exists>st'. sequence_check st now pkt = (Inr (sc_result st pkt gap f), st')"
    using f unfolding sequence_check_eq [OF assms(1) seq assms(3)] by (simp add: Let_def)
  then show thesis using that [OF stale] by blast
qed

text \<open>The verdict of the validator's sequence check, in strict mode, for a number (an integer, or a
  float equal to one): it returns whenever the number and the last one of its node are integers, and
  whenever it returns the packet passes exactly when the number is positive and above the last
  accepted one of its node and the timestamp is not too old, a failed packet changes no last number,
  errors are reported exactly on failure, and every return is counted once.\<close>

theorem sequence_verdict:
  assumes "sc_inv st" and "num_int (sc_seq pkt) = Some q" and "hashable (sc_node pkt)"
    and "int_of (sc_ts pkt) = Some t" and "sequence_check st now pkt = (out, st')"
  shows "(is_int (sc_seq pkt) \<and> is_int (sc_last st (norm_key (sc_node pkt))) \<longrightarrow> \<not> is_err out) \<and>
   (\<forall>r. out = Inr r \<longrightarrow> sc_inv st' \<and>
    (cr_passed r \<longleftrightarrow> 0 < q \<and> sc_last_int st (norm_key (sc_node pkt)) < q \<and> \<not> sc_too_old st now t) \<and>
    (cr_errors r = [] \<longleftrightarrow> cr_passed r) \<and>
    sc_last_int st' = (if cr_passed r then (sc_last_int st)(norm_key (sc_node pkt) := q) else sc_last_int st) \<and>
    sc_checked st' = sc_checked st + 1 \<and>
    sc_passed st' = sc_passed st + (if cr_passed r then 1 else 0) \<and>
    sc_failed st' = sc_failed st + (if cr_passed r then 0 else 1))"
proof (intro conjI impI allI)
  assume "is_int (sc_seq pkt) \<and> is_int (sc_last st (norm_key (sc_node pkt)))"
  then obtain n l where "int_of (sc_seq pkt) = Some n" "int_of (sc_last st (norm_key (sc_node pkt))) = Some l"
    by (auto simp: is_int_def)
  then show "\<not> is_err out"
    using sequence_check_returns [OF assms(1) _ assms(3,4)] assms(5) by (metis is_err_simps(2) prod.inject)
next
  fix r assume out: "out = Inr r"
  have seq: "num_int (sc_seq pkt) \<noteq> None" and sn: "sc_seq_num pkt = q"
    using assms(2) by (simp_all add: sc_seq_num_def)
  obtain gap f where f: "timestamp_age (sc_check_ts st) (sc_max_ts_age st) now (sc_ts pkt) = Inr f"
    and r: "r = sc_result st pkt gap f"
    using assms(5) unfolding sequence_check_eq [OF assms(1) seq assms(3)] out
    by (auto simp: Let_def split: sum.splits)
  have stale: "is_stale f = sc_too_old st now t"
    using f timestamp_age_int [OF assms(4), of "sc_max_ts_age st" now]
    by (cases "sc_check_ts st") (auto simp: sc_too_old_def is_stale_def split: if_splits)
  note cs = sequence_check_cases [OF assms(1) seq assms(3,5)]
  show "sc_last_int st' = (if cr_passed r then (sc_last_int st)(norm_key (sc_node pkt) := q) else sc_last_int st)"
    using cs(3) by (auto simp: sc_accepts_def sn fun_eq_iff out)
  show "sc_inv st'" by (rule cs)
  show "cr_passed r \<longleftrightarrow> 0 < q \<and> sc_last_int st (norm_key (sc_node pkt)) < q \<and> \<not> sc_too_old st now t"
    unfolding r sc_result_passed sn stale ..
  show "cr_errors r = [] \<longleftrightarrow> cr_passed r" unfolding r using assms(1) by (rule sc_result_errors)
  show "sc_checked st' = sc_checked st + 1" "sc_passed st' = sc_passed st + (if cr_passed r then 1 else 0)"
    "sc_failed st' = sc_failed st + (if cr_passed r then 0 else 1)"
    using cs(4-6) by (simp_all add: sc_accepts_def out)
qed

text \<open>
  The options a packet is held against, and a state whose last numbers are all integers, as they are
  as long as every packet's number is one.
\<close>

definition sc_config :: "seqcheck \<Rightarrow> int \<times> bool" where
  "sc_config st = (sc_max_ts_age st, sc_check_ts st)"

definition sc_fine :: "int \<times> bool \<Rightarrow> clock \<times> pydict \<Rightarrow> bool" where
  "sc_fine cfg x =
     (case int_of (sc_ts (snd x)) of
        Some t \<Rightarrow> \<not> (snd cfg \<and> 0 < t \<and> fst cfg < clock_ms (fst x) - t) | None \<Rightarrow> False)"

definition sc_pkt_ok :: "clock \<times> pydict \<Rightarrow> bool" where
  "sc_pkt_ok x = (is_int (sc_seq (snd x)) \<and> is_int (sc_ts (snd x)) \<and> hashable (sc_node (snd x)))"

definition sc_int_inv :: "seqcheck \<Rightarrow> bool" where
  "sc_int_inv st = (sc_inv st \<and> (\<forall>k. is_int (sc_last st k)))"

lemma sc_int_inv_init: "sc_int_inv (seqcheck_init node max_age max_gap check_ts True)"
  by (simp add: sc_int_inv_def sc_inv_init) (simp add: seqcheck_init_def sc_last_def is_int_def)

lemma sc_finish_simps: "sc_config (sc_counted st now pkt big) = sc_config st" "sc_config (sc_finish k s r st) = sc_config st"
  by (simp_all add: sc_config_def sc_counted_def sc_finish_def sc_remember_def sc_init_node_def Let_def)

lemma sequence_check_int:
  assumes "sc_int_inv st" and "sc_pkt_ok x" and "sequence_check st (fst x) (snd x) = (r, st')"
  shows "sc_int_inv st'" and "sc_config st' = sc_config st"
    and "sc_accepts r \<longleftrightarrow> sc_fine (sc_config st) x \<and> 0 < sc_seq_num (snd x) \<and>
      sc_last_int st (norm_key (sc_node (snd x))) < sc_seq_num (snd x)"
proof -
  let ?k = "norm_key (sc_node (snd x))"
  obtain q t l where i: "sc_inv st" and q: "int_of (sc_seq (snd x)) = Some q" and t: "int_of (sc_ts (snd x)) = Some t"
    and h: "hashable (sc_node (snd x))" and l: "int_of (sc_last st ?k) = Some l"
    using assms(1,2) unfolding sc_int_inv_def sc_pkt_ok_def is_int_def by fast
  have seq: "num_int (sc_seq (snd x)) \<noteq> None" using q by (simp add: num_int_of_int)
  obtain gap f st2 where f: "is_stale f = sc_too_old st (fst x) t"
    and c: "sequence_check st (fst x) (snd x) = (Inr (sc_result st (snd x) gap f), st2)"
    by (rule sequence_check_returns [OF i q h t l])
  have "\<exists>big. st' = sc_finish ?k (sc_seq (snd x)) (sc_result st (snd x) gap f) (sc_counted st (fst x) (snd x) big)"
    using assms(3) c unfolding sequence_check_eq [OF i seq h] by (auto simp: Let_def split: sum.splits)
  then obtain big where st': "st' = sc_finish ?k (sc_seq (snd x)) (sc_result st (snd x) gap f) (sc_counted st (fst x) (snd x) big)"
    by blast
  show "sc_config st' = sc_config st" by (simp add: st' sc_finish_simps)
  have "is_int (sc_last st' k)" for k
    using assms(1) q by (simp add: st' sc_finish_last sc_int_inv_def is_int_def)
  then show "sc_int_inv st'" using sequence_check_cases(1) [OF i seq h assms(3)] by (simp add: sc_int_inv_def)
  have "r = Inr (sc_result st (snd x) gap f)" using assms(3) c by simp
  then show "sc_accepts r \<longleftrightarrow> sc_fine (sc_config st) x \<and> 0 < sc_seq_num (snd x) \<and>
      sc_last_int st ?k < sc_seq_num (snd x)"
    using f t by (auto simp: sc_accepts_def sc_result_passed sc_fine_def sc_config_def sc_too_old_def)
qed

interpretation sc_ref: guard_refinement sequence_step sc_last_int
  "\<lambda>x. norm_key (sc_node (snd x))" "\<lambda>x. sc_seq_num (snd x)" "\<lambda>s. sc_int_inv s \<and> sc_config s = cfg" sc_pkt_ok "sc_fine cfg"
  for cfg
proof
  fix s x n
  assume inv: "sc_int_inv s \<and> sc_config s = cfg" and ok: "sc_pkt_ok x"
  have i: "sc_inv s" and o: "sc_seq_ok x"
    using inv ok by (auto simp: sc_int_inv_def sc_pkt_ok_def sc_seq_ok_def is_int_def num_int_of_int)
  obtain r s' where c: "sequence_check s (fst x) (snd x) = (r, s')" by fastforce
  have st: "sequence_step s x = (sc_accepts r, s')" by (simp add: sequence_step_def c)
  note ci = sequence_check_int [OF conjunct1 [OF inv] ok c]
  show "sc_int_inv (snd (sequence_step s x)) \<and> sc_config (snd (sequence_step s x)) = cfg"
    using ci inv by (simp add: st)
  show "fst (sequence_step s x) \<Longrightarrow> sc_last_int s (norm_key (sc_node (snd x))) < sc_seq_num (snd x)"
    by (rule sc.guard_above [OF i o])
  show "sc_last_int (snd (sequence_step s x)) n =
      (if fst (sequence_step s x) \<and> n = norm_key (sc_node (snd x)) then sc_seq_num (snd x) else sc_last_int s n)"
    by (rule sc.guard_last [OF i o])
  show "fst (sequence_step s x) \<longleftrightarrow>
      sc_fine cfg x \<and> 0 < sc_seq_num (snd x) \<and> sc_last_int s (norm_key (sc_node (snd x))) < sc_seq_num (snd x)"
    using ci(3) inv by (simp add: st)
qed

definition sample_sc :: seqcheck where
  "sample_sc = seqcheck_init ''validator'' 30000 100 True True"

definition sample_signed :: "int \<Rightarrow> pydict" where
  "sample_signed q = [(''original_node'', PStr ''car_44''), (''sequence_no'', PInt q), (''timestamp'', PInt 999000)]"

theorem sequence_verdict_witness:
  "\<exists>r st'. sequence_check sample_sc 1000 (sample_signed 7) = (Inr r, st') \<and> cr_passed r \<and>
     sc_last_int st' (PStr ''car_44'') = 7 \<and> sc_passed st' = 1"
proof -
  have inv: "sc_inv sample_sc" by (simp add: sample_sc_def sc_inv_init)
  have l: "sc_last_int sample_sc = (\<lambda>_. 0)" "sc_last sample_sc = (\<lambda>_. PInt 0)" "sc_passed sample_sc = 0"
    "sc_check_ts sample_sc" "sc_max_ts_age sample_sc = 30000"
    by (simp_all add: sample_sc_def seqcheck_init_def sc_last_int_def sc_last_def fun_eq_iff)
  have c: "clock_ms 1000 = 1000000" by (rule clock_ms_int) simp_all
  then have t: "\<not> sc_too_old sample_sc 1000 999000" by (simp add: sc_too_old_def l)
  have p: "sc_seq (sample_signed 7) = PInt 7" "sc_node (sample_signed 7) = PStr ''car_44''"
    "sc_ts (sample_signed 7) = PInt 999000"
    by (simp_all add: sample_signed_def sc_seq_def sc_node_def sc_ts_def dict_get_or_def dict_get_def py_or_def)
  obtain out st' where e: "sequence_check sample_sc 1000 (sample_signed 7) = (out, st')" by fastforce
  from sequence_verdict [OF inv _ _ _ e, of 7 999000] e show ?thesis
    by (cases out) (auto simp: p l t is_int_def)
qed

text \<open>C29. The validator's checker refines the same guard: over any packets with integer numbers and
  timestamps, starting from integer last numbers, its decisions are those of a guard that remembers
  one number per node, and that number is its last one.\<close>

theorem sequence_refines_guard:
  assumes "sc_int_inv st" and "\<forall>x\<in>set xs. sc_pkt_ok x"
  shows "guard_run (sc_last_int st)
      (map (\<lambda>x. (norm_key (sc_node (snd x)), sc_seq_num (snd x), sc_fine (sc_config st) x)) xs) =
    (run_decisions sequence_step st xs, sc_last_int (run_state sequence_step st xs))"
  using assms sc_ref.refines_guard [of st "sc_config st" xs] by blast

theorem sequence_refines_guard_witness:
  "run_decisions sequence_step sample_sc [(1000, sample_signed 7), (1000, sample_signed 7), (1000, sample_signed 9)] =
     [True, False, True]"
proof -
  let ?xs = "[(1000, sample_signed 7), (1000, sample_signed 7), (1000, sample_signed 9)]"
  have c: "clock_ms 1000 = 1000000" by (rule clock_ms_int) simp_all
  have i: "sc_int_inv sample_sc" by (simp add: sample_sc_def sc_int_inv_init)
  have s: "sc_last_int sample_sc = (\<lambda>_. 0)" "sc_config sample_sc = (30000, True)"
    by (simp_all add: sample_sc_def seqcheck_init_def sc_last_int_def sc_last_def sc_config_def fun_eq_iff)
  have p: "sc_seq (sample_signed q) = PInt q" "sc_node (sample_signed q) = PStr ''car_44''"
    "sc_ts (sample_signed q) = PInt 999000" for q
    by (simp_all add: sample_signed_def sc_seq_def sc_node_def sc_ts_def dict_get_or_def dict_get_def py_or_def)
  have n: "sc_seq_num (sample_signed q) = q" for q by (simp add: sc_seq_num_def p)
  have "\<forall>x\<in>set ?xs. sc_pkt_ok x" by (simp add: sc_pkt_ok_def p is_int_def)
  from sequence_refines_guard [OF i this] show ?thesis
    by (simp add: s p n sc_fine_def c del: run_decisions.simps run_state.simps)
qed

end
