(* ===== verification/ZkpVerifier.thy ===== *)
theory ZkpVerifier
  imports Sha256 PyVal
begin

text \<open>
  \<open>validator-node/src/zkp_verifier.py\<close>: the hash commitment \<open>SHA256(payload || nonce)\<close> and its
  verification, which is skipped, with the result \<open>verified\<close>, when the packet carries no commitment
  or no nonce.
\<close>

datatype zkp_reason =
    InvalidNonceFormat | CommitmentValid | CommitmentMismatch | NoCommitmentSkipped | MissingPayloadBytes

record commitment_result =
  cm_verified :: bool
  cm_reason :: zkp_reason
  cm_commitment :: "pyval option"
  cm_computed :: "string option"
  cm_verified_at :: string

definition commitment_result_init :: "bool \<Rightarrow> zkp_reason \<Rightarrow> pyval option \<Rightarrow> string option \<Rightarrow> string \<Rightarrow> commitment_result" where
  "commitment_result_init ok reason cm computed stamp =
     \<lparr>cm_verified = ok, cm_reason = reason, cm_commitment = cm, cm_computed = computed, cm_verified_at = stamp\<rparr>"

record zkp_verifier =
  zk_node_id :: string
  zk_verified :: int
  zk_failed :: int
  zk_skipped :: int

definition zkp_init :: "string \<Rightarrow> zkp_verifier" where
  "zkp_init node = \<lparr>zk_node_id = node, zk_verified = 0, zk_failed = 0, zk_skipped = 0\<rparr>"

definition zkp_digest :: "bytes \<Rightarrow> bytes \<Rightarrow> string" where
  "zkp_digest payload nonce = to_hex (sha256 (payload @ nonce))"

text \<open>The random nonce is used when the caller gives none.\<close>

definition generate_commitment :: "bytes \<Rightarrow> bytes \<Rightarrow> bytes option \<Rightarrow> string \<times> string" where
  "generate_commitment random payload nonce =
     (let n = (case nonce of None \<Rightarrow> random | Some x \<Rightarrow> x) in (zkp_digest payload n, to_hex n))"

text \<open>Only the \<open>ValueError\<close> of a malformed nonce is caught; a nonce that is no string escapes.\<close>

definition verify_commitment ::
  "string \<Rightarrow> pyval \<Rightarrow> pyval \<Rightarrow> pyval \<Rightarrow> zkp_verifier \<Rightarrow> commitment_result res \<times> zkp_verifier" where
  "verify_commitment stamp payload cm nonce z =
     (case py_fromhex nonce of
        Inl e \<Rightarrow>
          (if e = ValueErr
           then (Inr (commitment_result_init False InvalidNonceFormat None None stamp), z\<lparr>zk_failed := zk_failed z + 1\<rparr>)
           else (Inl e, z))
      | Inr n \<Rightarrow> (case payload of
          PBytes p \<Rightarrow>
            (let d = zkp_digest p n
             in if py_eq (PStr d) cm
                then (Inr (commitment_result_init True CommitmentValid (Some cm) (Some d) stamp),
                      z\<lparr>zk_verified := zk_verified z + 1\<rparr>)
                else (Inr (commitment_result_init False CommitmentMismatch (Some cm) (Some d) stamp),
                      z\<lparr>zk_failed := zk_failed z + 1\<rparr>))
        | _ \<Rightarrow> (Inl TypeErr, z)))"

definition zkp_verify_packet :: "string \<Rightarrow> pydict \<Rightarrow> zkp_verifier \<Rightarrow> commitment_result res \<times> zkp_verifier" where
  "zkp_verify_packet stamp pkt z =
     (let cm = dict_get pkt ''zkp_commitment''; nonce = dict_get pkt ''zkp_nonce''
      in if \<not> truthy cm \<or> \<not> truthy nonce
         then (Inr (commitment_result_init True NoCommitmentSkipped None None stamp), z\<lparr>zk_skipped := zk_skipped z + 1\<rparr>)
         else if dict_get pkt ''payload_bytes'' = PNone
         then (Inr (commitment_result_init False MissingPayloadBytes None None stamp), z\<lparr>zk_failed := zk_failed z + 1\<rparr>)
         else verify_commitment stamp (dict_get pkt ''payload_bytes'') cm nonce z)"

text \<open>The packets are paired with their \<open>zkp_result\<close>.\<close>

fun zkp_verify_batch ::
  "string \<Rightarrow> pydict list \<Rightarrow> zkp_verifier \<Rightarrow>
   ((pydict \<times> commitment_result) list \<times> (pydict \<times> commitment_result) list) res \<times> zkp_verifier" where
  "zkp_verify_batch stamp [] z = (Inr ([], []), z)"
| "zkp_verify_batch stamp (p # ps) z =
     (case zkp_verify_packet stamp p z of
        (Inl e, z1) \<Rightarrow> (Inl e, z1)
      | (Inr r, z1) \<Rightarrow> (case zkp_verify_batch stamp ps z1 of
            (Inl e, z2) \<Rightarrow> (Inl e, z2)
          | (Inr (good, bad), z2) \<Rightarrow>
              (Inr (if cm_verified r then ((p, r) # good, bad) else (good, (p, r) # bad)), z2)))"

section \<open>Properties\<close>

lemma commitment_result_init_simps [simp]:
  "cm_verified (commitment_result_init a b c d e) = a" "cm_reason (commitment_result_init a b c d e) = b"
  by (simp_all add: commitment_result_init_def)

text \<open>A packet passes exactly when it carries no commitment, or the digest of its payload and nonce.\<close>

lemma zkp_verified_iff:
  assumes "zkp_verify_packet stamp pkt z = (Inr r, z')"
  shows "cm_verified r \<longleftrightarrow>
    \<not> truthy (dict_get pkt ''zkp_commitment'') \<or> \<not> truthy (dict_get pkt ''zkp_nonce'') \<or>
    (\<exists>s n p. dict_get pkt ''zkp_nonce'' = PStr s \<and> fromhex s = Some n \<and>
       dict_get pkt ''payload_bytes'' = PBytes p \<and> dict_get pkt ''zkp_commitment'' = PStr (zkp_digest p n))"
  using assms
  by (auto simp: zkp_verify_packet_def verify_commitment_def py_fromhex_def Let_def
      split: if_splits sum.splits pyval.splits option.splits)

lemma zkp_verify_counts:
  assumes "zkp_verify_packet stamp pkt z = (Inr r, z')"
  shows "zk_verified z' + zk_failed z' + zk_skipped z' = zk_verified z + zk_failed z + zk_skipped z + 1"
  using assms
  by (auto simp: zkp_verify_packet_def verify_commitment_def Let_def
      split: if_splits sum.splits pyval.splits)

lemma zkp_batch_lengths:
  "zkp_verify_batch stamp ps z = (Inr (good, bad), z') \<Longrightarrow> length good + length bad = length ps"
  by (induction ps arbitrary: z good bad) (auto split: prod.splits sum.splits if_splits)

section \<open>The promises of the verifier\<close>

lemma digest_truthy: "zkp_digest p n \<noteq> []"
proof -
  have "length (sha256 (p @ n)) = 32" by simp
  then show ?thesis by (cases "sha256 (p @ n)") (simp_all add: zkp_digest_def to_hex_def)
qed

text \<open>Commitments: a generated commitment and nonce verify for their payload, and for no payload of
  another digest; in general a packet passes exactly when it carries no commitment or nonce at all, or
  the digest of its payload and nonce, and every answer is counted once.\<close>

theorem zkp_commitment:
  assumes "generate_commitment random payload nonce = (cm, n)"
    and "dict_get pkt ''zkp_commitment'' = PStr cm" and "dict_get pkt ''zkp_nonce'' = PStr n"
    and "dict_get pkt ''payload_bytes'' = PBytes p" and "n \<noteq> []"
  shows "\<exists>r z'. zkp_verify_packet stamp pkt z = (Inr r, z') \<and>
    (cm_verified r \<longleftrightarrow> zkp_digest p (case nonce of None \<Rightarrow> random | Some x \<Rightarrow> x) =
       zkp_digest payload (case nonce of None \<Rightarrow> random | Some x \<Rightarrow> x)) \<and>
    (p = payload \<longrightarrow> cm_verified r) \<and>
    zk_verified z' + zk_failed z' + zk_skipped z' = zk_verified z + zk_failed z + zk_skipped z + 1"
proof -
  let ?n = "case nonce of None \<Rightarrow> random | Some x \<Rightarrow> x"
  have cm: "cm = zkp_digest payload ?n" and n: "n = to_hex ?n"
    using assms(1) by (simp_all add: generate_commitment_def Let_def)
  obtain r z' where r: "zkp_verify_packet stamp pkt z = (Inr r, z')"
    using assms(2-4) n by (cases "zkp_verify_packet stamp pkt z")
      (auto simp: zkp_verify_packet_def verify_commitment_def py_fromhex_def Let_def split: if_splits)
  have "truthy (PStr cm)" "truthy (PStr n)" using assms(5) cm digest_truthy by simp_all
  then have "cm_verified r \<longleftrightarrow> zkp_digest p ?n = zkp_digest payload ?n"
    using zkp_verified_iff [OF r] assms(2-4) n cm by auto
  with r zkp_verify_counts [OF r] show ?thesis by auto
qed

theorem zkp_commitment_witness:
  "\<exists>r z' cm. zkp_verify_packet [] [(''zkp_commitment'', PStr cm), (''zkp_nonce'', PStr (to_hex [1, 2])),
       (''payload_bytes'', PBytes [7])] (zkp_init ''validator'') = (Inr r, z') \<and> cm_verified r"
proof -
  let ?cm = "zkp_digest [7] [1, 2]"
  have "generate_commitment [1, 2] [7] None = (?cm, to_hex [1, 2])" by (simp add: generate_commitment_def Let_def)
  from zkp_commitment [OF this, of "[(''zkp_commitment'', PStr ?cm), (''zkp_nonce'', PStr (to_hex [1, 2])),
       (''payload_bytes'', PBytes [7])]" "[7]" "[]" "zkp_init ''validator''"]
  show ?thesis by (auto simp: dict_get_def to_hex_def)
qed

end
