(* ===== verification/AuditLog.thy ===== *)
theory AuditLog
  imports PyVal
begin

text \<open>
  \<open>validator-node/src/audit_logger.py\<close>: the audit trail. The details of an event are whatever the
  caller recorded. The locale \<open>decision_log\<close> states what every decision log of the system promises,
  an append-only list with one counter per decision, and proves that the counters are the numbers
  of recorded decisions; the audit logger is its first instance.
\<close>

section \<open>The contract of a decision log\<close>

locale decision_log =
  fixes add :: "'e \<Rightarrow> 's \<Rightarrow> 's"
    and events :: "'s \<Rightarrow> 'e list"
    and kind :: "'e \<Rightarrow> 'k"
    and count :: "'s \<Rightarrow> 'k \<Rightarrow> int"
  assumes events_add: "events (add e s) = events s @ [e]"
    and count_add: "count (add e s) k = count s k + (if kind e = k then 1 else 0)"
begin

lemma events_fold: "events (fold add es s) = events s @ es"
  by (induction es arbitrary: s) (simp_all add: events_add)

lemma count_fold:
  "count (fold add es s) k = count s k + int (length (filter (\<lambda>e. kind e = k) es))"
  by (induction es arbitrary: s) (simp_all add: count_add)

text \<open>A log whose counters agree with its events keeps agreeing.\<close>

lemma count_events:
  "\<forall>k. count s k = int (length (filter (\<lambda>e. kind e = k) (events s))) \<Longrightarrow>
   count (fold add es s) k = int (length (filter (\<lambda>e. kind e = k) (events (fold add es s))))"
  by (simp add: count_fold events_fold)

text \<open>Nothing recorded is lost or reordered.\<close>

lemma events_prefix: "\<exists>rest. events (fold add es s) = events s @ rest"
  by (simp add: events_fold)

end

section \<open>Events\<close>

datatype audit_decision = ACCEPT | REJECT | FLAG

record 'd audit_event =
  ae_decision :: audit_decision
  ae_sequence_no :: pyval
  ae_node_id :: pyval
  ae_team :: pyval
  ae_session :: pyval
  ae_reason :: string
  ae_details :: "'d option"
  ae_timestamp :: string

definition audit_event_init ::
  "audit_decision \<Rightarrow> pydict \<Rightarrow> string \<Rightarrow> 'd option \<Rightarrow> string \<Rightarrow> 'd audit_event" where
  "audit_event_init dec pkt reason details stamp =
     \<lparr>ae_decision = dec, ae_sequence_no = dict_get_or pkt ''sequence_no'' (PInt 0),
      ae_node_id = py_or (dict_get pkt ''original_node'') (dict_get_or pkt ''node_id'' (PStr ''unknown'')),
      ae_team = dict_get_or pkt ''team'' (PStr []), ae_session = dict_get_or pkt ''session'' (PStr []),
      ae_reason = reason, ae_details = details, ae_timestamp = stamp\<rparr>"

section \<open>The logger\<close>

text \<open>
  \<open>al_lines\<close> are the events written to the log file. Whether opening, encoding and writing an event
  succeed is an input; a failure is swallowed.
\<close>

record 'd audit =
  al_node_id :: string
  al_to_file :: bool
  al_events :: "'d audit_event list"
  al_lines :: "'d audit_event list"
  al_accept :: int
  al_reject :: int
  al_flag :: int

definition audit_init :: "string \<Rightarrow> bool \<Rightarrow> 'd audit" where
  "audit_init node to_file =
     \<lparr>al_node_id = node, al_to_file = to_file, al_events = [], al_lines = [],
      al_accept = 0, al_reject = 0, al_flag = 0\<rparr>"

definition write_to_file :: "bool \<Rightarrow> 'd audit_event \<Rightarrow> 'd audit \<Rightarrow> 'd audit" where
  "write_to_file file_ok e a = (if file_ok then a\<lparr>al_lines := al_lines a @ [e]\<rparr> else a)"

definition audit_record :: "bool \<Rightarrow> 'd audit_event \<Rightarrow> 'd audit \<Rightarrow> 'd audit" where
  "audit_record file_ok e a =
     (let a1 = a\<lparr>al_events := al_events a @ [e]\<rparr>;
          a2 = (case ae_decision e of
                  ACCEPT \<Rightarrow> a1\<lparr>al_accept := al_accept a1 + 1\<rparr>
                | REJECT \<Rightarrow> a1\<lparr>al_reject := al_reject a1 + 1\<rparr>
                | FLAG \<Rightarrow> a1\<lparr>al_flag := al_flag a1 + 1\<rparr>)
      in if al_to_file a2 then write_to_file file_ok e a2 else a2)"

definition log_decision ::
  "audit_decision \<Rightarrow> bool \<Rightarrow> string \<Rightarrow> pydict \<Rightarrow> string \<Rightarrow> 'd option \<Rightarrow> 'd audit \<Rightarrow> 'd audit" where
  "log_decision dec file_ok stamp pkt reason details a =
     audit_record file_ok (audit_event_init dec pkt reason details stamp) a"

definition log_accept :: "bool \<Rightarrow> string \<Rightarrow> pydict \<Rightarrow> string \<Rightarrow> 'd option \<Rightarrow> 'd audit \<Rightarrow> 'd audit" where
  "log_accept = log_decision ACCEPT"

definition log_reject :: "bool \<Rightarrow> string \<Rightarrow> pydict \<Rightarrow> string \<Rightarrow> 'd option \<Rightarrow> 'd audit \<Rightarrow> 'd audit" where
  "log_reject = log_decision REJECT"

definition log_flag :: "bool \<Rightarrow> string \<Rightarrow> pydict \<Rightarrow> string \<Rightarrow> 'd option \<Rightarrow> 'd audit \<Rightarrow> 'd audit" where
  "log_flag = log_decision FLAG"

section \<open>Queries\<close>

definition get_events ::
  "audit_decision option \<Rightarrow> string option \<Rightarrow> int option \<Rightarrow> 'd audit \<Rightarrow> 'd audit_event list" where
  "get_events dec node limit a =
     (let es1 = (case dec of None \<Rightarrow> al_events a | Some d \<Rightarrow> filter (\<lambda>e. ae_decision e = d) (al_events a));
          es2 = (case node of None \<Rightarrow> es1 | Some n \<Rightarrow> filter (\<lambda>e. py_eq (ae_node_id e) (PStr n)) es1)
      in case limit of None \<Rightarrow> es2 | Some l \<Rightarrow> slice_from_neg l es2)"

definition get_reject_events :: "'d audit \<Rightarrow> 'd audit_event list" where
  "get_reject_events a = get_events (Some REJECT) None None a"

definition get_flag_events :: "'d audit \<Rightarrow> 'd audit_event list" where
  "get_flag_events a = get_events (Some FLAG) None None a"

record audit_summary =
  as_node_id :: string
  as_total :: nat
  as_accepted :: int
  as_rejected :: int
  as_flagged :: int
  as_reject_rate :: pyfloat

definition audit_summary_of :: "'d audit \<Rightarrow> audit_summary" where
  "audit_summary_of a =
     (let total = length (al_events a)
      in \<lparr>as_node_id = al_node_id a, as_total = total, as_accepted = al_accept a,
          as_rejected = al_reject a, as_flagged = al_flag a,
          as_reject_rate = (if 0 < total then py_round 4 (fl (of_int (al_reject a) / of_nat total)) else FFin 0)\<rparr>)"

text \<open>The events \<open>export_jsonl\<close> writes, one line each.\<close>

definition export_events :: "'d audit \<Rightarrow> 'd audit_event list" where
  "export_events a = al_events a"

section \<open>The logger keeps the contract\<close>

fun al_count :: "'d audit \<Rightarrow> audit_decision \<Rightarrow> int" where
  "al_count a ACCEPT = al_accept a"
| "al_count a REJECT = al_reject a"
| "al_count a FLAG = al_flag a"

lemma audit_record_events [simp]: "al_events (audit_record ok e a) = al_events a @ [e]"
  by (simp add: audit_record_def write_to_file_def Let_def split: audit_decision.split)

lemma audit_record_count: "al_count (audit_record ok e a) k = al_count a k + (if ae_decision e = k then 1 else 0)"
  by (cases k) (simp_all add: audit_record_def write_to_file_def Let_def split: audit_decision.split)

interpretation audit: decision_log "audit_record ok" al_events ae_decision al_count for ok
  by unfold_locales (simp_all add: audit_record_count)

definition audit_inv :: "'d audit \<Rightarrow> bool" where
  "audit_inv a = (\<forall>k. al_count a k = int (length (filter (\<lambda>e. ae_decision e = k) (al_events a))))"

lemma audit_inv_init: "audit_inv (audit_init node to_file)"
  unfolding audit_inv_def
proof
  fix k
  show "al_count (audit_init node to_file) k =
      int (length (filter (\<lambda>e. ae_decision e = k) (al_events (audit_init node to_file))))"
    by (cases k) (simp_all add: audit_init_def)
qed

lemma audit_inv_record [simp]: "audit_inv a \<Longrightarrow> audit_inv (audit_record ok e a)"
  by (simp add: audit_inv_def audit_record_count)

lemma audit_inv_log [simp]:
  "audit_inv a \<Longrightarrow> audit_inv (log_accept ok st p r d a)"
  "audit_inv a \<Longrightarrow> audit_inv (log_reject ok st p r d a)"
  "audit_inv a \<Longrightarrow> audit_inv (log_flag ok st p r d a)"
  by (simp_all add: log_accept_def log_reject_def log_flag_def log_decision_def)

lemma length_by_decision:
  "length es = length (filter (\<lambda>e. ae_decision e = ACCEPT) es) + length (filter (\<lambda>e. ae_decision e = REJECT) es) +
     length (filter (\<lambda>e. ae_decision e = FLAG) es)"
proof (induction es)
  case (Cons e es)
  then show ?case by (cases "ae_decision e") auto
qed simp

lemma audit_inv_total:
  assumes "audit_inv a"
  shows "al_accept a + al_reject a + al_flag a = int (length (al_events a))"
proof -
  have "al_count a ACCEPT + al_count a REJECT + al_count a FLAG = int (length (al_events a))"
    using assms length_by_decision [of "al_events a"] by (simp only: audit_inv_def)
  then show ?thesis by simp
qed

lemma get_events_subset: "limit = None \<or> (\<exists>l. limit = Some l) \<Longrightarrow> set (get_events dec node limit a) \<subseteq> set (al_events a)"
  by (auto simp: get_events_def Let_def slice_from_neg_def split: option.splits if_splits
      dest: in_set_dropD)

section \<open>The promises of the logger\<close>

text \<open>The audit trail is append-only and its counters are right: recording any events after any
  others keeps everything recorded before, in order, and after it each counter is the number of
  recorded events of its decision, their sum the number of all events - whether or not the log file
  could be written.\<close>

theorem audit_trail:
  "al_events (fold (audit_record ok) es (audit_init node to_file)) = es \<and>
   al_accept (fold (audit_record ok) es (audit_init node to_file)) = int (length (filter (\<lambda>e. ae_decision e = ACCEPT) es)) \<and>
   al_reject (fold (audit_record ok) es (audit_init node to_file)) = int (length (filter (\<lambda>e. ae_decision e = REJECT) es)) \<and>
   al_flag (fold (audit_record ok) es (audit_init node to_file)) = int (length (filter (\<lambda>e. ae_decision e = FLAG) es)) \<and>
   as_total (audit_summary_of (fold (audit_record ok) es (audit_init node to_file))) = length es"
proof -
  let ?a = "fold (audit_record ok) es (audit_init node to_file)"
  have ev: "al_events ?a = es" using audit.events_fold [of ok es "audit_init node to_file"] by (simp add: audit_init_def)
  have "al_count ?a k = int (length (filter (\<lambda>e. ae_decision e = k) es))" for k
    using audit.count_fold [of ok es "audit_init node to_file" k] by (cases k) (simp_all add: audit_init_def)
  from this [of ACCEPT] this [of REJECT] this [of FLAG] show ?thesis
    using ev by (simp add: audit_summary_of_def Let_def)
qed

text \<open>Queries return the last events: with a positive limit at most that many, the newest ones in
  order; but a limit of zero returns every matching event, as \<open>events[-0:]\<close> does.\<close>

theorem get_events_limit:
  "(0 < l \<longrightarrow> int (length (get_events dec node (Some l) a)) \<le> l \<and>
     (\<exists>older. get_events dec node None a = older @ get_events dec node (Some l) a) \<and>
     (int (length (get_events dec node None a)) \<le> l \<longrightarrow> get_events dec node (Some l) a = get_events dec node None a)) \<and>
   get_events dec node (Some 0) a = get_events dec node None a"
proof -
  have "get_events dec node (Some l) a = slice_from_neg l (get_events dec node None a)" for l
    by (simp add: get_events_def Let_def)
  moreover have "0 < l \<Longrightarrow> int (length (slice_from_neg l es)) \<le> l \<and> (\<exists>older. es = older @ slice_from_neg l es) \<and>
      (int (length es) \<le> l \<longrightarrow> slice_from_neg l es = es)" for es :: "'a audit_event list"
    by (auto simp: slice_from_neg_def nat_le_iff intro: append_take_drop_id [symmetric])
  moreover have "slice_from_neg 0 es = es" for es :: "'a audit_event list"
    by (simp add: slice_from_neg_def)
  ultimately show ?thesis by simp
qed

theorem get_events_limit_witness:
  "length (get_events None None (Some 1) (fold (audit_record True)
     [audit_event_init ACCEPT [] ''a'' (None :: unit option) [], audit_event_init REJECT [] ''b'' None []] (audit_init ''v'' True))) \<le> 1"
  using get_events_limit [of 1 None None "fold (audit_record True)
     [audit_event_init ACCEPT [] ''a'' (None :: unit option) [], audit_event_init REJECT [] ''b'' None []] (audit_init ''v'' True)"]
  by (simp del: fold.simps fold_simps)

end
