(* ===== verification/ValidatorNode.thy ===== *)
theory ValidatorNode
  imports PacketBuilder Decryptor SignatureVerify SequenceCheck ZkpVerifier AuditLog
begin

text \<open>
  \<open>validator-node/src/main.py\<close>: the validator's pipeline. A packet from the relay is decrypted, its
  car signature verified, its sequence metadata compared with the signed header, its sequence number
  checked, its commitment verified, and the decision recorded. The lemmas follow an accepted packet
  back through the stages, account for every packet in the statistics and the audit log, and make
  the validator a \<open>seq_monitor\<close>.
\<close>

section \<open>State\<close>

record validator_stats =
  vs_received :: int
  vs_accepted :: int
  vs_rejected :: int
  vs_flagged :: int
  vs_sig_failed :: int
  vs_seq_failed :: int
  vs_zkp_failed :: int

definition validator_stats_init :: validator_stats where
  "validator_stats_init = \<lparr>vs_received = 0, vs_accepted = 0, vs_rejected = 0, vs_flagged = 0,
     vs_sig_failed = 0, vs_seq_failed = 0, vs_zkp_failed = 0\<rparr>"

datatype audit_details =
    ErrorText exn
  | HeaderMismatch int pyval
  | SeqErrors "seq_message list"
  | SeqWarnings "seq_message list"
  | ZkpFailed zkp_reason
  | ChecksValid zkp_reason

record validator =
  vn_node_id :: string
  vn_sig :: sig_verifier
  vn_seq :: seqcheck
  vn_zkp :: zkp_verifier
  vn_audit :: "audit_details audit"
  vn_engine :: "engine option"
  vn_stats :: validator_stats

record validator_config =
  vc_node_id :: string
  vc_max_ts_age :: int
  vc_max_gap :: int
  vc_check_timestamps :: bool
  vc_strict :: bool
  vc_log_to_file :: bool

definition default_validator_config :: validator_config where
  "default_validator_config = \<lparr>vc_node_id = ''fia_validator'', vc_max_ts_age = 60000, vc_max_gap = 1000,
     vc_check_timestamps = False, vc_strict = True, vc_log_to_file = True\<rparr>"

definition validator_init :: "validator_config \<Rightarrow> validator" where
  "validator_init cfg =
     \<lparr>vn_node_id = vc_node_id cfg, vn_sig = sig_verifier_init (vc_node_id cfg),
      vn_seq = seqcheck_init (vc_node_id cfg) (vc_max_ts_age cfg) (vc_max_gap cfg)
        (vc_check_timestamps cfg) (vc_strict cfg),
      vn_zkp = zkp_init (vc_node_id cfg), vn_audit = audit_init (vc_node_id cfg) (vc_log_to_file cfg),
      vn_engine = None, vn_stats = validator_stats_init\<rparr>"

section \<open>Session set-up\<close>

definition register_car_node :: "string \<Rightarrow> bytes \<Rightarrow> validator \<Rightarrow> unit res \<times> validator" where
  "register_car_node node key v =
     (case sv_register_node node key (vn_sig v) of (r, s) \<Rightarrow> (r, v\<lparr>vn_sig := s\<rparr>))"

definition setup_relay_session :: "pyca \<Rightarrow> bytes \<Rightarrow> clock \<Rightarrow> bytes \<Rightarrow> validator \<Rightarrow> bytes res \<times> validator" where
  "setup_relay_session C priv now relay_pub v =
     (let (pub, e) = new_session C priv now (engine_init (vn_node_id v))
      in case complete_handshake C now relay_pub None e of
           (Inl x, e') \<Rightarrow> (Inl x, v\<lparr>vn_engine := Some e'\<rparr>)
         | (Inr _, e') \<Rightarrow> (Inr pub, v\<lparr>vn_engine := Some e'\<rparr>))"

text \<open>
  What \<open>_simulate_sessions\<close> is given as the relay's side: a \<open>CryptoEngine\<close>, which has the property
  \<open>public_key_bytes\<close> and no method \<open>get_public_key_bytes\<close>, or an \<open>ECDHSession\<close>, with which it is the
  other way round. \<open>hasattr\<close> evaluates the property, and lets its \<open>RuntimeError\<close> through.
\<close>

datatype relay_peer = EnginePeer engine | SessionPeer session

definition get_public_key_bytes :: "pyca \<Rightarrow> relay_peer \<Rightarrow> bytes res" where
  "get_public_key_bytes C peer =
     (case peer of EnginePeer _ \<Rightarrow> Inl AttributeErr | SessionPeer s \<Rightarrow> Inr (session_public C s))"

definition peer_public_key :: "pyca \<Rightarrow> relay_peer \<Rightarrow> bytes \<Rightarrow> bytes res" where
  "peer_public_key C peer relay_pub =
     (case peer of EnginePeer e \<Rightarrow> public_key_bytes C e | SessionPeer _ \<Rightarrow> Inr relay_pub)"

fun register_all :: "bytes dict \<Rightarrow> validator \<Rightarrow> unit res \<times> validator" where
  "register_all [] v = (Inr (), v)"
| "register_all ((node, key) # ks) v =
     (case register_car_node node key v of
        (Inl x, v1) \<Rightarrow> (Inl x, v1)
      | (Inr _, v1) \<Rightarrow> register_all ks v1)"

definition validator_simulate_sessions ::
  "pyca \<Rightarrow> bytes \<Rightarrow> clock \<Rightarrow> relay_peer \<Rightarrow> bytes dict \<Rightarrow> validator \<Rightarrow> unit res \<times> validator" where
  "validator_simulate_sessions C priv now peer signers v =
     (let (pub, e) = new_session C priv now (engine_init (vn_node_id v))
      in case rbind (get_public_key_bytes C peer) (peer_public_key C peer) of
           Inl x \<Rightarrow> (Inl x, v\<lparr>vn_engine := Some e\<rparr>)
         | Inr key \<Rightarrow> (case complete_handshake C now key None e of
             (Inl x, e') \<Rightarrow> (Inl x, v\<lparr>vn_engine := Some e'\<rparr>)
           | (Inr _, e') \<Rightarrow> register_all signers (v\<lparr>vn_engine := Some e'\<rparr>)))"

section \<open>The pipeline\<close>

text \<open>What one packet reads from outside: the clock, three time stamps, and the log file's fate.\<close>

record validator_inputs =
  vi_now :: clock
  vi_sig_stamp :: string
  vi_zkp_stamp :: string
  vi_audit_stamp :: string
  vi_file_ok :: bool

text \<open>An accepted packet, with the results the source stores under its \<open>sequence_result\<close> and \<open>zkp_result\<close>.\<close>

type_synonym accepted = "pydict \<times> check_result \<times> commitment_result"

definition vupd :: "(validator_stats \<Rightarrow> validator_stats) \<Rightarrow> validator \<Rightarrow> validator" where
  "vupd f v = v\<lparr>vn_stats := f (vn_stats v)\<rparr>"

definition reject_packet ::
  "validator_inputs \<Rightarrow> pydict \<Rightarrow> string \<Rightarrow> audit_details option \<Rightarrow> validator \<Rightarrow> accepted option res \<times> validator" where
  "reject_packet i pkt reason details v =
     (let v1 = vupd (\<lambda>s. s\<lparr>vs_rejected := vs_rejected s + 1\<rparr>) v
      in (Inr None, v1\<lparr>vn_audit := log_reject (vi_file_ok i) (vi_audit_stamp i) pkt reason details (vn_audit v1)\<rparr>))"

definition accept_packet ::
  "validator_inputs \<Rightarrow> pydict \<Rightarrow> check_result \<Rightarrow> commitment_result \<Rightarrow> validator \<Rightarrow> accepted option res \<times> validator" where
  "accept_packet i pkt seq_result zkp_result v =
     (if cr_warnings seq_result \<noteq> []
      then let v1 = vupd (\<lambda>s. s\<lparr>vs_flagged := vs_flagged s + 1\<rparr>) v
           in (Inr (Some (pkt, seq_result, zkp_result)),
               v1\<lparr>vn_audit := log_flag (vi_file_ok i) (vi_audit_stamp i) pkt ''sequence_warnings''
                   (Some (SeqWarnings (cr_warnings seq_result))) (vn_audit v1)\<rparr>)
      else let v1 = vupd (\<lambda>s. s\<lparr>vs_accepted := vs_accepted s + 1\<rparr>) v
           in (Inr (Some (pkt, seq_result, zkp_result)),
               v1\<lparr>vn_audit := log_accept (vi_file_ok i) (vi_audit_stamp i) pkt ''all_checks_passed''
                   (Some (ChecksValid (cm_reason zkp_result))) (vn_audit v1)\<rparr>))"

definition zkp_stage :: "validator_inputs \<Rightarrow> pydict \<Rightarrow> check_result \<Rightarrow> validator \<Rightarrow> accepted option res \<times> validator" where
  "zkp_stage i pkt seq_result v =
     (case zkp_verify_packet (vi_zkp_stamp i) pkt (vn_zkp v) of
        (Inl e, z) \<Rightarrow> (Inl e, v\<lparr>vn_zkp := z\<rparr>)
      | (Inr r, z) \<Rightarrow>
          (let v1 = v\<lparr>vn_zkp := z\<rparr>
           in if cm_verified r then accept_packet i pkt seq_result r v1
              else reject_packet i pkt ''zkp_invalid'' (Some (ZkpFailed (cm_reason r)))
                     (vupd (\<lambda>s. s\<lparr>vs_zkp_failed := vs_zkp_failed s + 1\<rparr>) v1)))"

definition sequence_stage :: "validator_inputs \<Rightarrow> pydict \<Rightarrow> validator \<Rightarrow> accepted option res \<times> validator" where
  "sequence_stage i pkt v =
     (case sequence_check (vn_seq v) (vi_now i) pkt of
        (Inl e, s) \<Rightarrow> (Inl e, v\<lparr>vn_seq := s\<rparr>)
      | (Inr r, s) \<Rightarrow>
          (let v1 = v\<lparr>vn_seq := s\<rparr>
           in if cr_passed r then zkp_stage i pkt r v1
              else reject_packet i pkt ''sequence_invalid'' (Some (SeqErrors (cr_errors r)))
                     (vupd (\<lambda>s. s\<lparr>vs_seq_failed := vs_seq_failed s + 1\<rparr>) v1)))"

text \<open>The header's own sequence number, read from the bytes the signature covers.\<close>

definition header_sequence :: "pydict \<Rightarrow> int res" where
  "header_sequence pkt =
     rbind (as_bytes (dict_get pkt ''header'')) (\<lambda>h. rbind (parse_header h) (\<lambda>f. Inr (hi_sequence_no f)))"

definition is_header_error :: "exn \<Rightarrow> bool" where
  "is_header_error e = (e = TypeErr \<or> is_value_error e \<or> e = KeyErr \<or> e = StructErr)"

definition header_stage :: "validator_inputs \<Rightarrow> pydict \<Rightarrow> validator \<Rightarrow> accepted option res \<times> validator" where
  "header_stage i pkt v =
     (case header_sequence pkt of
        Inl e \<Rightarrow>
          if is_header_error e then reject_packet i pkt ''invalid_packet_header'' (Some (ErrorText e)) v
          else (Inl e, v)
      | Inr q \<Rightarrow>
          if \<not> py_eq (dict_get pkt ''sequence_no'') (PInt q)
          then reject_packet i pkt ''header_metadata_mismatch''
                 (Some (HeaderMismatch q (dict_get pkt ''sequence_no''))) v
          else sequence_stage i pkt v)"

definition signature_stage :: "pyca \<Rightarrow> validator_inputs \<Rightarrow> pydict \<Rightarrow> validator \<Rightarrow> accepted option res \<times> validator" where
  "signature_stage C i pkt v =
     (case sv_verify C (vi_sig_stamp i) pkt (vn_sig v) of
        (Inl e, s) \<Rightarrow>
          (let v1 = v\<lparr>vn_sig := s\<rparr>
           in if is_sig_error e
              then reject_packet i pkt ''signature_invalid'' (Some (ErrorText e))
                     (vupd (\<lambda>s. s\<lparr>vs_sig_failed := vs_sig_failed s + 1\<rparr>) v1)
              else (Inl e, v1))
      | (Inr r, s) \<Rightarrow> header_stage i (dict_set ''signature_result'' (PDict r) pkt) (v\<lparr>vn_sig := s\<rparr>))"

definition validator_decrypt :: "pyca \<Rightarrow> pydict \<Rightarrow> engine \<Rightarrow> bytes res \<times> engine" where
  "validator_decrypt C pkt e =
     (case rbind (dict_item pkt ''nonce_bytes'') (\<lambda>n. rbind (dict_item pkt ''ciphertext_bytes'') (\<lambda>c. Inr (n, c))) of
        Inl x \<Rightarrow> (Inl x, e)
      | Inr (n, c) \<Rightarrow> decrypt_values C n c (dict_get pkt ''header'') e)"

text \<open>The packet with its payload; a payload that is no JSON text counts as an empty dict.\<close>

definition with_payload :: "pydict \<Rightarrow> bytes \<Rightarrow> pydict" where
  "with_payload pkt p =
     dict_set ''payload_json'' (case json_loads p of Inr js \<Rightarrow> js | Inl _ \<Rightarrow> PDict [])
       (dict_set ''payload_bytes'' (PBytes p) pkt)"

definition validate_packet :: "pyca \<Rightarrow> validator_inputs \<Rightarrow> pydict \<Rightarrow> validator \<Rightarrow> accepted option res \<times> validator" where
  "validate_packet C i pkt v0 =
     (let v = vupd (\<lambda>s. s\<lparr>vs_received := vs_received s + 1\<rparr>) v0
      in case vn_engine v of
           None \<Rightarrow> reject_packet i pkt ''no_session'' None v
         | Some e \<Rightarrow> (case validator_decrypt C pkt e of
             (Inl x, e') \<Rightarrow> reject_packet i pkt ''decryption_failed'' (Some (ErrorText x)) (v\<lparr>vn_engine := Some e'\<rparr>)
           | (Inr p, e') \<Rightarrow> signature_stage C i (with_payload pkt p) (v\<lparr>vn_engine := Some e'\<rparr>)))"

fun validate_all :: "pyca \<Rightarrow> (validator_inputs \<times> pydict) list \<Rightarrow> validator \<Rightarrow> accepted option res list \<times> validator" where
  "validate_all C [] v = ([], v)"
| "validate_all C ((i, pkt) # xs) v =
     (let (o1, v1) = validate_packet C i pkt v; (os, v2) = validate_all C xs v1 in (o1 # os, v2))"

section \<open>Accounting\<close>

text \<open>What a packet adds: one decision and one audit event, unless an exception escaped.\<close>

definition vaccounted :: "validator \<Rightarrow> accepted option res \<times> validator \<Rightarrow> bool" where
  "vaccounted v out =
     (let s = vn_stats v; s' = vn_stats (snd out); done = (if is_err (fst out) then 0 else 1) in
      vs_received s' = vs_received s \<and>
      vs_accepted s' + vs_flagged s' = vs_accepted s + vs_flagged s +
        (case fst out of Inr (Some _) \<Rightarrow> 1 | _ \<Rightarrow> 0) \<and>
      vs_rejected s' = vs_rejected s + (case fst out of Inr None \<Rightarrow> 1 | _ \<Rightarrow> 0) \<and>
      int (length (al_events (vn_audit (snd out)))) = int (length (al_events (vn_audit v))) + done \<and>
      (audit_inv (vn_audit v) \<longrightarrow> audit_inv (vn_audit (snd out))) \<and>
      al_reject (vn_audit (snd out)) - vs_rejected s' = al_reject (vn_audit v) - vs_rejected s \<and>
      al_accept (vn_audit (snd out)) - vs_accepted s' = al_accept (vn_audit v) - vs_accepted s \<and>
      al_flag (vn_audit (snd out)) - vs_flagged s' = al_flag (vn_audit v) - vs_flagged s)"

lemma log_events [simp]:
  "al_events (log_accept ok st p r d a) = al_events a @ [audit_event_init ACCEPT p r d st]"
  "al_events (log_reject ok st p r d a) = al_events a @ [audit_event_init REJECT p r d st]"
  "al_events (log_flag ok st p r d a) = al_events a @ [audit_event_init FLAG p r d st]"
  by (simp_all add: log_accept_def log_reject_def log_flag_def log_decision_def)

lemma log_counts [simp]:
  "al_accept (log_accept ok st p r d a) = al_accept a + 1" "al_reject (log_accept ok st p r d a) = al_reject a"
  "al_flag (log_accept ok st p r d a) = al_flag a"
  "al_accept (log_reject ok st p r d a) = al_accept a" "al_reject (log_reject ok st p r d a) = al_reject a + 1"
  "al_flag (log_reject ok st p r d a) = al_flag a"
  "al_accept (log_flag ok st p r d a) = al_accept a" "al_reject (log_flag ok st p r d a) = al_reject a"
  "al_flag (log_flag ok st p r d a) = al_flag a + 1"
  by (simp_all add: log_accept_def log_reject_def log_flag_def log_decision_def audit_record_def
      audit_event_init_def write_to_file_def Let_def)

lemma vaccounted_upd [simp]:
  "vaccounted (v\<lparr>vn_sig := s\<rparr>) = vaccounted v" "vaccounted (v\<lparr>vn_seq := q\<rparr>) = vaccounted v"
  "vaccounted (v\<lparr>vn_zkp := z\<rparr>) = vaccounted v" "vaccounted (v\<lparr>vn_engine := e\<rparr>) = vaccounted v"
  "vaccounted (vupd (\<lambda>s. s\<lparr>vs_sig_failed := vs_sig_failed s + 1\<rparr>) v) = vaccounted v"
  "vaccounted (vupd (\<lambda>s. s\<lparr>vs_seq_failed := vs_seq_failed s + 1\<rparr>) v) = vaccounted v"
  "vaccounted (vupd (\<lambda>s. s\<lparr>vs_zkp_failed := vs_zkp_failed s + 1\<rparr>) v) = vaccounted v"
  by (simp_all add: vaccounted_def fun_eq_iff vupd_def Let_def)

lemma vaccounted_raise [simp]: "vaccounted v (Inl e, v)"
  by (simp add: vaccounted_def Let_def)

lemma vaccounted_reject [simp]: "vaccounted v (reject_packet i pkt reason d v)"
  by (simp add: vaccounted_def reject_packet_def vupd_def Let_def)

lemma vaccounted_accept [simp]: "vaccounted v (accept_packet i pkt r z v)"
  by (simp add: vaccounted_def accept_packet_def vupd_def Let_def)

lemma vaccounted_zkp [simp]: "vaccounted v (zkp_stage i pkt r v)"
proof -
  obtain q z where q: "zkp_verify_packet (vi_zkp_stamp i) pkt (vn_zkp v) = (q, z)" by fastforce
  let ?v = "v\<lparr>vn_zkp := z\<rparr>"
  have "vaccounted ?v (zkp_stage i pkt r v)"
    using q vaccounted_raise [of ?v] vaccounted_accept [of ?v i pkt r "projr q"]
      vaccounted_reject [of "vupd (\<lambda>s. s\<lparr>vs_zkp_failed := vs_zkp_failed s + 1\<rparr>) ?v"]
    by (cases q) (simp_all add: zkp_stage_def Let_def)
  then show ?thesis by simp
qed

lemma vaccounted_sequence [simp]: "vaccounted v (sequence_stage i pkt v)"
proof -
  obtain q s where q: "sequence_check (vn_seq v) (vi_now i) pkt = (q, s)" by fastforce
  let ?v = "v\<lparr>vn_seq := s\<rparr>"
  have "vaccounted ?v (sequence_stage i pkt v)"
    using q vaccounted_raise [of ?v] vaccounted_zkp [of ?v i pkt "projr q"]
      vaccounted_reject [of "vupd (\<lambda>s. s\<lparr>vs_seq_failed := vs_seq_failed s + 1\<rparr>) ?v"]
    by (cases q) (simp_all add: sequence_stage_def Let_def)
  then show ?thesis by simp
qed

lemma vaccounted_header [simp]: "vaccounted v (header_stage i pkt v)"
  by (auto simp: header_stage_def split: sum.split)

lemma vaccounted_signature [simp]: "vaccounted v (signature_stage C i pkt v)"
proof -
  obtain q s where q: "sv_verify C (vi_sig_stamp i) pkt (vn_sig v) = (q, s)" by fastforce
  let ?v = "v\<lparr>vn_sig := s\<rparr>"
  have "vaccounted ?v (signature_stage C i pkt v)"
    using q vaccounted_raise [of ?v] vaccounted_header [of ?v i]
      vaccounted_reject [of "vupd (\<lambda>s. s\<lparr>vs_sig_failed := vs_sig_failed s + 1\<rparr>) ?v"]
    by (cases q) (simp_all add: signature_stage_def Let_def)
  then show ?thesis by simp
qed

lemma validate_packet_accounted:
  "vaccounted (vupd (\<lambda>s. s\<lparr>vs_received := vs_received s + 1\<rparr>) v) (validate_packet C i pkt v)"
proof -
  let ?v = "vupd (\<lambda>s. s\<lparr>vs_received := vs_received s + 1\<rparr>) v"
  show ?thesis
  proof (cases "vn_engine v")
    case None
    then have "vn_engine ?v = None" by (simp add: vupd_def)
    then show ?thesis by (simp add: validate_packet_def Let_def)
  next
    case (Some e)
    then have some: "vn_engine ?v = Some e" by (simp add: vupd_def)
    obtain q e' where q: "validator_decrypt C pkt e = (q, e')" by fastforce
    let ?w = "?v\<lparr>vn_engine := Some e'\<rparr>"
    have "vaccounted ?w (validate_packet C i pkt v)"
      using some q vaccounted_reject [of ?w] vaccounted_signature [of ?w C i]
      by (cases q) (simp_all add: validate_packet_def Let_def)
    then show ?thesis by simp
  qed
qed

section \<open>A packet through the stages\<close>

lemma vupd_simps [simp]:
  "vn_sig (vupd f v) = vn_sig v" "vn_seq (vupd f v) = vn_seq v" "vn_zkp (vupd f v) = vn_zkp v"
  "vn_engine (vupd f v) = vn_engine v" "vn_audit (vupd f v) = vn_audit v" "vn_node_id (vupd f v) = vn_node_id v"
  by (simp_all add: vupd_def)

lemma reject_packet_simps [simp]:
  "fst (reject_packet i pkt r d v) = Inr None" "vn_seq (snd (reject_packet i pkt r d v)) = vn_seq v"
  by (simp_all add: reject_packet_def Let_def)

lemma accept_packet_simps [simp]:
  "fst (accept_packet i pkt r z v) = Inr (Some (pkt, r, z))" "vn_seq (snd (accept_packet i pkt r z v)) = vn_seq v"
  by (simp_all add: accept_packet_def Let_def)

lemma reject_not_Some: "reject_packet i pkt r d v \<noteq> (Inr (Some x), v')"
  using reject_packet_simps(1) [of i pkt r d v] by (metis fst_conv option.simps(3) sum.inject(2))

lemma zkp_stage_SomeD:
  assumes "zkp_stage i pkt r v = (Inr (Some out), v')"
  obtains z zk where "out = (pkt, r, z)" and "zkp_verify_packet (vi_zkp_stamp i) pkt (vn_zkp v) = (Inr z, zk)"
    and "cm_verified z"
proof -
  obtain q zk where q: "zkp_verify_packet (vi_zkp_stamp i) pkt (vn_zkp v) = (q, zk)" by fastforce
  with assms obtain z where z: "q = Inr z" "cm_verified z"
    by (cases q) (auto simp: zkp_stage_def Let_def reject_not_Some split: if_splits)
  with q assms have "accept_packet i pkt r z (v\<lparr>vn_zkp := zk\<rparr>) = (Inr (Some out), v')"
    by (simp add: zkp_stage_def Let_def)
  then have "out = (pkt, r, z)" using accept_packet_simps(1) [of i pkt r z "v\<lparr>vn_zkp := zk\<rparr>"] by simp
  with q z show thesis by (intro that) auto
qed

lemma zkp_stage_frame [simp]: "vn_seq (snd (zkp_stage i pkt r v)) = vn_seq v"
  by (auto simp: zkp_stage_def Let_def split: prod.split sum.split)

lemma sequence_stage_SomeD:
  assumes "sequence_stage i pkt v = (Inr (Some out), v')"
  obtains r s where "sequence_check (vn_seq v) (vi_now i) pkt = (Inr r, s)" and "cr_passed r"
    and "zkp_stage i pkt r (v\<lparr>vn_seq := s\<rparr>) = (Inr (Some out), v')"
  using assms by (auto simp: sequence_stage_def Let_def reject_not_Some split: prod.splits sum.splits if_splits)

lemma sequence_stage_frame [simp]:
  "vn_seq (snd (sequence_stage i pkt v)) = snd (sequence_check (vn_seq v) (vi_now i) pkt)"
  by (auto simp: sequence_stage_def Let_def split: prod.split sum.split)

lemma header_stage_SomeD:
  assumes "header_stage i pkt v = (Inr (Some out), v')"
  obtains q where "header_sequence pkt = Inr q" and "num_int (dict_get pkt ''sequence_no'') = Some q"
    and "sequence_stage i pkt v = (Inr (Some out), v')"
  using assms by (auto simp: header_stage_def reject_not_Some py_eq_num_int split: sum.splits if_splits)

lemma header_stage_frame:
  "vn_seq (snd (header_stage i pkt v)) =
     (case header_sequence pkt of Inl _ \<Rightarrow> vn_seq v
      | Inr q \<Rightarrow> if num_int (dict_get pkt ''sequence_no'') = Some q
                then snd (sequence_check (vn_seq v) (vi_now i) pkt) else vn_seq v)"
  by (auto simp: header_stage_def py_eq_num_int split: sum.split)

lemma signature_stage_SomeD:
  assumes "signature_stage C i pkt v = (Inr (Some out), v')"
  obtains r s where "sv_verify C (vi_sig_stamp i) pkt (vn_sig v) = (Inr r, s)"
    and "header_stage i (dict_set ''signature_result'' (PDict r) pkt) (v\<lparr>vn_sig := s\<rparr>) = (Inr (Some out), v')"
  using assms by (auto simp: signature_stage_def Let_def reject_not_Some split: prod.splits sum.splits if_splits)

lemma validate_packet_SomeD:
  assumes "validate_packet C i pkt v = (Inr (Some out), v')"
  obtains e p e' where "vn_engine v = Some e" and "validator_decrypt C pkt e = (Inr p, e')"
    and "signature_stage C i (with_payload pkt p)
      ((vupd (\<lambda>s. s\<lparr>vs_received := vs_received s + 1\<rparr>) v)\<lparr>vn_engine := Some e'\<rparr>) = (Inr (Some out), v')"
  using assms
  by (auto simp: validate_packet_def Let_def reject_not_Some split: option.splits prod.splits sum.splits)

text \<open>The packet the later stages see.\<close>

definition verified_packet :: "pydict \<Rightarrow> bytes \<Rightarrow> pydict \<Rightarrow> pydict" where
  "verified_packet pkt p r = dict_set ''signature_result'' (PDict r) (with_payload pkt p)"

lemma verified_packet_get:
  "k \<notin> {''payload_bytes'', ''payload_json'', ''signature_result''} \<Longrightarrow>
     map_of (verified_packet pkt p r) k = map_of pkt k"
  by (simp add: verified_packet_def with_payload_def)

lemma verified_packet_fields [simp]:
  "sc_node (verified_packet pkt p r) = sc_node pkt" "sc_seq (verified_packet pkt p r) = sc_seq pkt"
  "sc_seq_num (verified_packet pkt p r) = sc_seq_num pkt" "sc_ts (verified_packet pkt p r) = sc_ts pkt"
  "dict_get (verified_packet pkt p r) ''header'' = dict_get pkt ''header''"
  "dict_get (verified_packet pkt p r) ''sequence_no'' = dict_get pkt ''sequence_no''"
  "header_sequence (verified_packet pkt p r) = header_sequence pkt"
  "dict_get (verified_packet pkt p r) ''payload_bytes'' = PBytes p"
  by (simp_all add: sc_node_def sc_seq_def sc_ts_def sc_seq_num_def dict_get_def dict_get_or_def
      header_sequence_def verified_packet_get) (simp add: verified_packet_def with_payload_def)

lemma verified_packet_zkp:
  "dict_get (verified_packet pkt p r) ''zkp_commitment'' = dict_get pkt ''zkp_commitment''"
  "dict_get (verified_packet pkt p r) ''zkp_nonce'' = dict_get pkt ''zkp_nonce''"
  by (simp_all add: dict_get_def verified_packet_get)

lemma with_payload_identity [simp]: "sig_identity (with_payload pkt p) = sig_identity pkt"
  by (simp add: sig_identity_def with_payload_def)

lemma with_payload_fields [simp]:
  "resolve_sig (with_payload pkt p) = resolve_sig pkt"
  "dict_get (with_payload pkt p) ''header'' = dict_get pkt ''header''"
  "dict_get (with_payload pkt p) ''payload_bytes'' = PBytes p"
  by (simp_all add: resolve_sig_def with_payload_def)

text \<open>An accepted packet passed every check.\<close>

lemma validate_packet_trace:
  assumes "validate_packet C i pkt v = (Inr (Some out), v')"
  obtains e p e' r w q cr s z where
    "vn_engine v = Some e" "validator_decrypt C pkt e = (Inr p, e')"
    "sv_verify C (vi_sig_stamp i) (with_payload pkt p) (vn_sig v) = (Inr r, w)"
    "header_sequence pkt = Inr q" "num_int (dict_get pkt ''sequence_no'') = Some q"
    "sequence_check (vn_seq v) (vi_now i) (verified_packet pkt p r) = (Inr cr, s)" "cr_passed cr"
    "cm_verified z" "out = (verified_packet pkt p r, cr, z)"
    "fst (zkp_verify_packet (vi_zkp_stamp i) (verified_packet pkt p r) (vn_zkp v)) = Inr z"
proof -
  from assms obtain e p e' where e: "vn_engine v = Some e" and dec: "validator_decrypt C pkt e = (Inr p, e')"
    and st: "signature_stage C i (with_payload pkt p)
      ((vupd (\<lambda>s. s\<lparr>vs_received := vs_received s + 1\<rparr>) v)\<lparr>vn_engine := Some e'\<rparr>) = (Inr (Some out), v')"
    by (rule validate_packet_SomeD)
  from st obtain r w where ver: "sv_verify C (vi_sig_stamp i) (with_payload pkt p) (vn_sig v) = (Inr r, w)"
    and st2: "header_stage i (verified_packet pkt p r)
      (((vupd (\<lambda>s. s\<lparr>vs_received := vs_received s + 1\<rparr>) v)\<lparr>vn_engine := Some e'\<rparr>)\<lparr>vn_sig := w\<rparr>) = (Inr (Some out), v')"
    unfolding verified_packet_def by (elim signature_stage_SomeD) simp
  from st2 obtain q where q: "header_sequence pkt = Inr q" "num_int (dict_get pkt ''sequence_no'') = Some q"
    and st3: "sequence_stage i (verified_packet pkt p r)
      (((vupd (\<lambda>s. s\<lparr>vs_received := vs_received s + 1\<rparr>) v)\<lparr>vn_engine := Some e'\<rparr>)\<lparr>vn_sig := w\<rparr>) = (Inr (Some out), v')"
    by (elim header_stage_SomeD) simp
  from st3 obtain cr s where cr: "sequence_check (vn_seq v) (vi_now i) (verified_packet pkt p r) = (Inr cr, s)" "cr_passed cr"
    and st4: "zkp_stage i (verified_packet pkt p r) cr
      ((((vupd (\<lambda>s. s\<lparr>vs_received := vs_received s + 1\<rparr>) v)\<lparr>vn_engine := Some e'\<rparr>)\<lparr>vn_sig := w\<rparr>)\<lparr>vn_seq := s\<rparr>) =
      (Inr (Some out), v')"
    by (elim sequence_stage_SomeD) simp
  from st4 obtain z where "out = (verified_packet pkt p r, cr, z)" "cm_verified z"
    "fst (zkp_verify_packet (vi_zkp_stamp i) (verified_packet pkt p r) (vn_zkp v)) = Inr z"
    by (elim zkp_stage_SomeD) simp
  with e dec ver q cr show thesis by (intro that) auto
qed

lemma validator_decrypt_InrD:
  assumes "validator_decrypt C pkt e = (Inr p, e')"
  obtains nb cb a k where "dict_item pkt ''nonce_bytes'' = Inr (PBytes nb)"
    and "dict_item pkt ''ciphertext_bytes'' = Inr (PBytes cb)" and "aad_of (dict_get pkt ''header'') = Inr a"
    and "engine_key e = Some k" and "aead_decrypt C k nb cb a = Inr p"
proof -
  from assms obtain n c where nc: "dict_item pkt ''nonce_bytes'' = Inr n" "dict_item pkt ''ciphertext_bytes'' = Inr c"
    and dv: "decrypt_values C n c (dict_get pkt ''header'') e = (Inr p, e')"
    by (auto simp: validator_decrypt_def rbind_def split: sum.splits)
  from dv obtain nb cb a k where "n = PBytes nb" "c = PBytes cb" "aad_of (dict_get pkt ''header'') = Inr a"
    "engine_key e = Some k" "aead_decrypt C k nb cb a = Inr p" by (rule decrypt_values_InrD)
  with nc show thesis by (intro that) auto
qed

text \<open>The signature of an accepted packet verifies under the key registered for its identity.\<close>

lemma verified_signature:
  assumes "sv_verify C stamp (with_payload pkt p) v = (Inr r, w)"
  obtains node key sig h where "sig_identity pkt = PStr node" and "map_of (sv_registry v) node = Some key"
    and "resolve_sig pkt = Inr sig" and "dict_get pkt ''header'' = PBytes h" and "ed_verify C key sig (h @ p)"
proof -
  from assms obtain node key sig h p' where "sig_identity (with_payload pkt p) = PStr node"
    "map_of (sv_registry v) node = Some key" "resolve_sig (with_payload pkt p) = Inr sig"
    "dict_get (with_payload pkt p) ''header'' = PBytes h"
    "dict_get (with_payload pkt p) ''payload_bytes'' = PBytes p'" "ed_verify C key sig (h @ p')"
    by (rule sv_verify_InrD)
  then show thesis by (intro that [of node key sig h]) simp_all
qed

section \<open>The validator accepts no sequence number of a node twice\<close>

definition validator_step :: "pyca \<Rightarrow> validator \<Rightarrow> validator_inputs \<times> pydict \<Rightarrow> bool \<times> validator" where
  "validator_step C v x =
     (let (out, v') = validate_packet C (fst x) (snd x) v
      in (case out of Inr (Some _) \<Rightarrow> True | _ \<Rightarrow> False, v'))"

definition validator_inv :: "validator \<Rightarrow> bool" where
  "validator_inv v = sc_inv (vn_seq v)"

definition validator_last :: "validator \<Rightarrow> pyval \<Rightarrow> int" where
  "validator_last v n = sc_last_int (vn_seq v) n"

text \<open>What a packet does to the sequence checker: one check, or nothing.\<close>

definition validator_check :: "pyca \<Rightarrow> validator_inputs \<Rightarrow> pydict \<Rightarrow> validator \<Rightarrow> pydict option" where
  "validator_check C i pkt v =
     (case vn_engine v of None \<Rightarrow> None
      | Some e \<Rightarrow> (case fst (validator_decrypt C pkt e) of Inl _ \<Rightarrow> None
         | Inr p \<Rightarrow> (case fst (sv_verify C (vi_sig_stamp i) (with_payload pkt p) (vn_sig v)) of Inl _ \<Rightarrow> None
            | Inr r \<Rightarrow> (case header_sequence pkt of Inl _ \<Rightarrow> None
               | Inr q \<Rightarrow> if num_int (dict_get pkt ''sequence_no'') = Some q
                   then Some (verified_packet pkt p r) else None))))"

lemma signature_stage_frame:
  "vn_seq (snd (signature_stage C i (with_payload pkt p) v)) =
     (case fst (sv_verify C (vi_sig_stamp i) (with_payload pkt p) (vn_sig v)) of
        Inl _ \<Rightarrow> vn_seq v
      | Inr r \<Rightarrow> (case header_sequence pkt of Inl _ \<Rightarrow> vn_seq v
          | Inr q \<Rightarrow> if num_int (dict_get pkt ''sequence_no'') = Some q
              then snd (sequence_check (vn_seq v) (vi_now i) (verified_packet pkt p r)) else vn_seq v))"
proof -
  obtain x w where x: "sv_verify C (vi_sig_stamp i) (with_payload pkt p) (vn_sig v) = (x, w)" by fastforce
  then show ?thesis
    by (cases x) (simp_all add: signature_stage_def Let_def header_stage_frame flip: verified_packet_def
        split: sum.split)
qed

lemma validate_packet_seq:
  "vn_seq (snd (validate_packet C i pkt v)) =
     (case validator_check C i pkt v of None \<Rightarrow> vn_seq v
      | Some vp \<Rightarrow> snd (sequence_check (vn_seq v) (vi_now i) vp))"
proof (cases "vn_engine v")
  case None
  then show ?thesis by (simp add: validate_packet_def validator_check_def Let_def)
next
  case (Some e)
  obtain x e' where x: "validator_decrypt C pkt e = (x, e')" by fastforce
  with Some show ?thesis
    by (cases x) (auto simp: validate_packet_def validator_check_def Let_def signature_stage_frame
        split: sum.splits)
qed

lemma validator_seq_cases:
  assumes "validator_step C v x = (acc, v')"
  obtains "\<not> acc" and "vn_seq v' = vn_seq v"
  | vp c s where "num_int (sc_seq vp) \<noteq> None" and "sc_node vp = sc_node (snd x)" and "sc_seq vp = sc_seq (snd x)"
      and "sequence_check (vn_seq v) (vi_now (fst x)) vp = (c, s)" and "vn_seq v' = s" and "acc \<Longrightarrow> sc_accepts c"
proof -
  obtain i pkt where x: "x = (i, pkt)" by (cases x)
  obtain out where vp: "validate_packet C i pkt v = (out, v')"
    and acc: "acc = (case out of Inr (Some _) \<Rightarrow> True | _ \<Rightarrow> False)"
    using assms x by (auto simp: validator_step_def split: prod.splits)
  have seq: "vn_seq v' = (case validator_check C i pkt v of None \<Rightarrow> vn_seq v
      | Some vp \<Rightarrow> snd (sequence_check (vn_seq v) (vi_now i) vp))"
    using validate_packet_seq [of C i pkt v] vp by simp
  have accD: "\<exists>vp cr s. validator_check C i pkt v = Some vp \<and>
      sequence_check (vn_seq v) (vi_now i) vp = (Inr cr, s) \<and> cr_passed cr" if acc
  proof -
    from that acc vp obtain o1 where "validate_packet C i pkt v = (Inr (Some o1), v')"
      by (auto split: sum.splits option.splits)
    then show ?thesis
    proof (rule validate_packet_trace, goal_cases)
      case 1
      then show ?case by (simp add: validator_check_def)
    qed
  qed
  show thesis
  proof (cases "validator_check C i pkt v")
    case None
    with seq accD show thesis by (intro that(1)) auto
  next
    case (Some vp)
    then obtain p r q where vp': "vp = verified_packet pkt p r" and q: "num_int (dict_get pkt ''sequence_no'') = Some q"
      by (auto simp: validator_check_def split: option.splits sum.splits if_splits)
    have "sc_seq pkt = dict_get pkt ''sequence_no''"
      using q by (auto simp: sc_seq_def dict_get_def dict_get_or_def num_int_def split: option.splits)
    with vp' q have "num_int (sc_seq vp) \<noteq> None" by simp
    moreover obtain c s where c: "sequence_check (vn_seq v) (vi_now i) vp = (c, s)" by fastforce
    moreover have "acc \<Longrightarrow> sc_accepts c" using accD Some c by (auto simp: sc_accepts_def)
    ultimately show thesis using Some seq x vp' by (intro that(2) [of vp c s]) auto
  qed
qed

interpretation validator: seq_monitor "validator_step C" validator_last
  "\<lambda>x. norm_key (sc_node (snd x))" "\<lambda>x. sc_seq_num (snd x)" validator_inv "\<lambda>_. True" for C
proof
  fix v :: validator and x :: "validator_inputs \<times> pydict" and n :: pyval
  assume inv: "validator_inv v"
  let ?k = "norm_key (sc_node (snd x))"
  obtain acc v' where st: "validator_step C v x = (acc, v')" by fastforce
  have "validator_inv v' \<and> (acc \<longrightarrow> validator_last v ?k < sc_seq_num (snd x) \<and> validator_last v' ?k = sc_seq_num (snd x)) \<and>
      validator_last v n \<le> validator_last v' n"
    using st
  proof (cases rule: validator_seq_cases)
    case 1
    with inv show ?thesis by (simp add: validator_inv_def validator_last_def)
  next
    case (2 vp c s)
    have inv': "sc_inv (vn_seq v)" using inv by (simp add: validator_inv_def)
    show ?thesis
    proof (cases "hashable (sc_node vp)")
      case False
      with 2(4) have "c = Inl TypeErr" "s = vn_seq v" by (simp_all add: sequence_check_def Let_def)
      with 2(5,6) inv show ?thesis by (auto simp: validator_inv_def validator_last_def sc_accepts_def)
    next
      case True
      note cs = sequence_check_cases [OF inv' 2(1) True 2(4)]
      have num: "sc_seq_num vp = sc_seq_num (snd x)" by (simp add: sc_seq_num_def 2(3))
      show ?thesis
        using cs(1-3) 2(2,5,6) num by (auto simp: validator_inv_def validator_last_def)
    qed
  qed
  with st show "validator_inv (snd (validator_step C v x))"
    and "fst (validator_step C v x) \<Longrightarrow> validator_last v ?k < sc_seq_num (snd x)"
    and "fst (validator_step C v x) \<Longrightarrow> validator_last (snd (validator_step C v x)) ?k = sc_seq_num (snd x)"
    and "validator_last v n \<le> validator_last (snd (validator_step C v x)) n"
    by auto
qed

section \<open>The promises of the validator\<close>

lemma validate_all_cons:
  "validate_all C ((i, pkt) # xs) v =
    (fst (validate_packet C i pkt v) # fst (validate_all C xs (snd (validate_packet C i pkt v))),
     snd (validate_all C xs (snd (validate_packet C i pkt v))))"
  by (simp add: split_beta)

definition decided :: "accepted option res \<Rightarrow> bool" where
  "decided x = (\<not> is_err x)"

definition was_accepted :: "accepted option res \<Rightarrow> bool" where
  "was_accepted x = (case x of Inr (Some _) \<Rightarrow> True | _ \<Rightarrow> False)"

definition was_rejected :: "accepted option res \<Rightarrow> bool" where
  "was_rejected x = (case x of Inr None \<Rightarrow> True | _ \<Rightarrow> False)"

definition stats_agree :: "validator \<Rightarrow> bool" where
  "stats_agree v = (audit_inv (vn_audit v) \<and> al_accept (vn_audit v) = vs_accepted (vn_stats v) \<and>
     al_reject (vn_audit v) = vs_rejected (vn_stats v) \<and> al_flag (vn_audit v) = vs_flagged (vn_stats v))"

lemma stats_agree_init: "stats_agree (validator_init cfg)"
  by (simp add: stats_agree_def validator_init_def audit_inv_init) (simp add: audit_init_def validator_stats_init_def)

lemma validate_packet_counts:
  assumes "validate_packet C i pkt v = (x, v')"
  shows "vs_received (vn_stats v') = vs_received (vn_stats v) + 1"
    and "vs_accepted (vn_stats v') + vs_flagged (vn_stats v') =
      vs_accepted (vn_stats v) + vs_flagged (vn_stats v) + (if was_accepted x then 1 else 0)"
    and "vs_rejected (vn_stats v') = vs_rejected (vn_stats v) + (if was_rejected x then 1 else 0)"
    and "int (length (al_events (vn_audit v'))) = int (length (al_events (vn_audit v))) + (if decided x then 1 else 0)"
    and "stats_agree v \<Longrightarrow> stats_agree v'"
  using validate_packet_accounted [of v C i pkt] assms
  by (auto simp: vaccounted_def vupd_def Let_def was_accepted_def was_rejected_def decided_def stats_agree_def
      split: sum.splits option.splits)

text \<open>C38. The validator's statistics and its audit trail agree and account for every packet: starting from
  a validator where they agree, any packets are received one by one, each one decided adds exactly one
  audit event and one to accepted, flagged or rejected, and the counters of the trail stay equal to
  the statistics and to the number of its events of each kind.\<close>

theorem validator_accounts:
  assumes "validate_all C xs v = (os, v')" and "stats_agree v"
  shows "length os = length xs \<and> stats_agree v' \<and>
    vs_received (vn_stats v') = vs_received (vn_stats v) + int (length xs) \<and>
    vs_accepted (vn_stats v') + vs_flagged (vn_stats v') =
      vs_accepted (vn_stats v) + vs_flagged (vn_stats v) + int (length (filter was_accepted os)) \<and>
    vs_rejected (vn_stats v') = vs_rejected (vn_stats v) + int (length (filter was_rejected os)) \<and>
    int (length (al_events (vn_audit v'))) = int (length (al_events (vn_audit v))) + int (length (filter decided os))"
  using assms
proof (induction xs arbitrary: v os v')
  case (Cons x xs)
  obtain i pkt where x: "x = (i, pkt)" by (cases x)
  obtain o1 v1 where p: "validate_packet C i pkt v = (o1, v1)" by fastforce
  obtain os1 v2 where q: "validate_all C xs v1 = (os1, v2)" by fastforce
  have eq: "os = o1 # os1" "v' = v2" using Cons.prems(1) x p q by auto
  note st = validate_packet_counts [OF p]
  show ?case unfolding eq using Cons.IH [OF q st(5) [OF Cons.prems(2)]] st(1-4) by auto
qed simp

definition sample_vin :: validator_inputs where
  "sample_vin = \<lparr>vi_now = 1000, vi_sig_stamp = [], vi_zkp_stamp = [], vi_audit_stamp = [], vi_file_ok = True\<rparr>"

theorem validator_accounts_witness:
  "\<exists>os v'. validate_all demo_pyca [(sample_vin, []), (sample_vin, [])] (validator_init default_validator_config) = (os, v') \<and>
     length os = 2 \<and> vs_received (vn_stats v') = 2 \<and> al_reject (vn_audit v') = vs_rejected (vn_stats v')"
proof -
  let ?v = "validator_init default_validator_config"
  obtain os v' where p: "validate_all demo_pyca [(sample_vin, []), (sample_vin, [])] ?v = (os, v')" by fastforce
  have "vs_received (vn_stats ?v) = 0" by (simp add: validator_init_def validator_stats_init_def)
  with validator_accounts [OF p stats_agree_init] p show ?thesis
    by (simp add: stats_agree_def del: validate_all.simps)
qed

text \<open>C4. What acceptance means: an accepted packet opened under the session key with its header as
  associated data; its signature verifies, over that header followed by the payload, under the key
  registered for its identity; the sequence number in its metadata is the one in the signed header and
  lies above the last one accepted from its node, which it then is; and if the packet carries a
  commitment and its nonce, the commitment is the hash of that payload followed by that nonce.\<close>

theorem validator_accept_sound:
  assumes "aead_law C" and "validator_inv v" and "validate_packet C i pkt v = (Inr (Some (out, cr, z)), v')"
  shows "\<exists>e k nb cb h p node key sig f.
    vn_engine v = Some e \<and> engine_key e = Some k \<and> dict_get pkt ''nonce_bytes'' = PBytes nb \<and>
    dict_get pkt ''ciphertext_bytes'' = PBytes cb \<and> aead_encrypt C k nb p (Some h) = Inr cb \<and>
    dict_get pkt ''header'' = PBytes h \<and> sig_identity pkt = PStr node \<and>
    map_of (sv_registry (vn_sig v)) node = Some key \<and> resolve_sig pkt = Inr sig \<and>
    ed_verify C key sig (h @ p) \<and> parse_header h = Inr f \<and>
    num_int (dict_get pkt ''sequence_no'') = Some (hi_sequence_no f) \<and>
    0 < hi_sequence_no f \<and> validator_last v (norm_key (sc_node pkt)) < hi_sequence_no f \<and>
    validator_last v' (norm_key (sc_node pkt)) = hi_sequence_no f \<and>
    (\<not> truthy (dict_get pkt ''zkp_commitment'') \<or> \<not> truthy (dict_get pkt ''zkp_nonce'') \<or>
      (\<exists>s n. dict_get pkt ''zkp_nonce'' = PStr s \<and> fromhex s = Some n \<and>
         dict_get pkt ''zkp_commitment'' = PStr (to_hex (sha256 (p @ n))))) \<and>
    dict_get out ''payload_bytes'' = PBytes p \<and> cm_verified z \<and> cr_passed cr"
proof -
  obtain e p e' r w q cr' s z' where e: "vn_engine v = Some e" and dec: "validator_decrypt C pkt e = (Inr p, e')"
    and ver: "sv_verify C (vi_sig_stamp i) (with_payload pkt p) (vn_sig v) = (Inr r, w)"
    and q: "header_sequence pkt = Inr q" "num_int (dict_get pkt ''sequence_no'') = Some q"
    and sc: "sequence_check (vn_seq v) (vi_now i) (verified_packet pkt p r) = (Inr cr', s)" "cr_passed cr'"
    and z: "cm_verified z'" "(out, cr, z) = (verified_packet pkt p r, cr', z')"
    and zk: "fst (zkp_verify_packet (vi_zkp_stamp i) (verified_packet pkt p r) (vn_zkp v)) = Inr z'"
    using assms(3) by (rule validate_packet_trace)
  obtain nb cb a k where nb: "dict_item pkt ''nonce_bytes'' = Inr (PBytes nb)"
    "dict_item pkt ''ciphertext_bytes'' = Inr (PBytes cb)" and a: "aad_of (dict_get pkt ''header'') = Inr a"
    and k: "engine_key e = Some k" and op: "aead_decrypt C k nb cb a = Inr p"
    using dec by (rule validator_decrypt_InrD)
  obtain node key sig h where node: "sig_identity pkt = PStr node" "map_of (sv_registry (vn_sig v)) node = Some key"
    and sig: "resolve_sig pkt = Inr sig" and h: "dict_get pkt ''header'' = PBytes h" and ed: "ed_verify C key sig (h @ p)"
    using ver by (rule verified_signature)
  have gets: "dict_get pkt ''nonce_bytes'' = PBytes nb" "dict_get pkt ''ciphertext_bytes'' = PBytes cb"
    using nb by (auto simp: dict_item_def dict_get_def split: option.splits)
  have "a = Some h" using a h by (simp add: aad_of_def)
  then have enc: "aead_encrypt C k nb p (Some h) = Inr cb" using op assms(1) by (simp add: aead_lawD)
  obtain f where f: "parse_header h = Inr f" and qf: "q = hi_sequence_no f"
    using q(1) h by (auto simp: header_sequence_def as_bytes_def elim!: rbind_InrE)
  have st: "fst (validator_step C v (i, pkt))" "snd (validator_step C v (i, pkt)) = v'"
    using assms(3) by (simp_all add: validator_step_def)
  have "sc_seq pkt = dict_get pkt ''sequence_no''"
    using q(2) by (auto simp: sc_seq_def dict_get_def dict_get_or_def num_int_def split: option.splits)
  then have sn: "sc_seq_num pkt = q" using q(2) by (simp add: sc_seq_num_def)
  have above: "validator_last v (norm_key (sc_node pkt)) < q" "validator_last v' (norm_key (sc_node pkt)) = q"
    using validator.accept_above [OF assms(2) TrueI st(1)] validator.accept_last [OF assms(2) TrueI st(1)] st(2) sn by simp_all
  have "0 \<le> validator_last v (norm_key (sc_node pkt))"
    unfolding validator_last_def
    by (rule sc_invE [of "vn_seq v" "norm_key (sc_node pkt)"]) (use assms(2) in \<open>simp_all add: validator_inv_def\<close>)
  then have q': "0 < hi_sequence_no f" "validator_last v (norm_key (sc_node pkt)) < hi_sequence_no f"
    "validator_last v' (norm_key (sc_node pkt)) = hi_sequence_no f" "num_int (dict_get pkt ''sequence_no'') = Some (hi_sequence_no f)"
    using above q(2) qf by simp_all
  have outs: "dict_get out ''payload_bytes'' = PBytes p" "cm_verified z" "cr_passed cr" using z sc(2) by simp_all
  obtain zk' where "zkp_verify_packet (vi_zkp_stamp i) (verified_packet pkt p r) (vn_zkp v) = (Inr z', zk')"
    using zk by (metis surjective_pairing)
  from zkp_verified_iff [OF this] z(1)
  have com: "\<not> truthy (dict_get pkt ''zkp_commitment'') \<or> \<not> truthy (dict_get pkt ''zkp_nonce'') \<or>
      (\<exists>s n. dict_get pkt ''zkp_nonce'' = PStr s \<and> fromhex s = Some n \<and>
         dict_get pkt ''zkp_commitment'' = PStr (to_hex (sha256 (p @ n))))"
    by (auto simp: zkp_digest_def verified_packet_zkp)
  show ?thesis
    by (rule exI [of _ e], rule exI [of _ k], rule exI [of _ nb], rule exI [of _ cb], rule exI [of _ h], rule exI [of _ p],
      rule exI [of _ node], rule exI [of _ key], rule exI [of _ sig], rule exI [of _ f], (intro conjI; fact))
qed

text \<open>C5. However packets are presented to it, the validator in strict mode accepts no two packets with the
  same node and sequence number: the accepted numbers of each node strictly increase.\<close>

theorem validator_no_replay:
  assumes "sc_inv (vn_seq v)"
  shows "sorted_wrt (<) (map (\<lambda>x. sc_seq_num (snd x))
      (filter (\<lambda>x. norm_key (sc_node (snd x)) = n) (run_accepted (validator_step C) v xs))) \<and>
    distinct (map (\<lambda>x. (norm_key (sc_node (snd x)), sc_seq_num (snd x))) (run_accepted (validator_step C) v xs)) \<and>
    length (sc_seen (vn_seq (run_state (validator_step C) v xs)) n) \<le> REPLAY_WINDOW"
proof -
  have i: "validator_inv v" using assms by (simp add: validator_inv_def)
  have "validator_inv (run_state (validator_step C) v xs)" using validator.run_inv [OF i] by simp
  then have "sc_inv (vn_seq (run_state (validator_step C) v xs))" by (simp add: validator_inv_def)
  then have "length (sc_seen (vn_seq (run_state (validator_step C) v xs)) n) \<le> REPLAY_WINDOW" by (rule sc_invE)
  then show ?thesis using validator.accepted_sorted [OF i] validator.accepted_distinct [OF i] by blast
qed

theorem validator_no_replay_witness:
  "distinct (map (\<lambda>x. (norm_key (sc_node (snd x)), sc_seq_num (snd x)))
     (run_accepted (validator_step demo_pyca) (validator_init default_validator_config) [(sample_vin, []), (sample_vin, [])]))"
proof -
  have "sc_inv (vn_seq (validator_init default_validator_config))"
    by (simp add: validator_init_def default_validator_config_def sc_inv_init)
  from validator_no_replay [OF this, of undefined demo_pyca "[(sample_vin, []), (sample_vin, [])]"] show ?thesis by blast
qed

lemma register_all_eq:
  "\<forall>(n, key)\<in>set ks. length key = 32 \<Longrightarrow>
   register_all ks v = (Inr (), v\<lparr>vn_sig := (vn_sig v)\<lparr>sv_registry := fold (\<lambda>(n, key). dict_set n key) ks (sv_registry (vn_sig v))\<rparr>\<rparr>)"
  by (induction ks v rule: register_all.induct)
    (auto simp: register_car_node_def sv_register_node_def PUBLIC_KEY_SIZE_def)

lemma map_of_fold_dict_set: "map_of (fold (\<lambda>(n, key). dict_set n key) ks d) = map_of d ++ map_of (rev ks)"
  by (induction ks arbitrary: d) (auto simp: fun_eq_iff map_add_def split: option.splits)

lemma register_all_lookup:
  "distinct (map fst ks) \<Longrightarrow> (n, key) \<in> set ks \<Longrightarrow> map_of (fold (\<lambda>(n, key). dict_set n key) ks d) n = Some key"
  by (simp add: map_of_fold_dict_set map_add_Some_iff map_of_is_SomeI rev_map [symmetric])

lemma no_key_rejects:
  assumes "vn_engine v = Some e" and "engine_key e = None"
  shows "fst (validate_packet C i pkt v) = Inr None"
    and "vs_rejected (vn_stats (snd (validate_packet C i pkt v))) = vs_rejected (vn_stats v) + 1"
proof -
  obtain y e' where d: "validator_decrypt C pkt e = (y, e')" by fastforce
  have "is_err y"
    using d assms(2) by (auto simp: validator_decrypt_def decrypt_values_def decrypt_eq split: sum.splits)
  then obtain err where "y = Inl err" by (cases y) simp_all
  then show "fst (validate_packet C i pkt v) = Inr None"
    and "vs_rejected (vn_stats (snd (validate_packet C i pkt v))) = vs_rejected (vn_stats v) + 1"
    using assms(1) d by (simp_all add: validate_packet_def vupd_def reject_packet_def Let_def)
qed

text \<open>C39. The validator's simulation set-up needs a relay of the class it is not annotated with. Given a
  \<open>CryptoEngine\<close> it raises before any handshake and registers no car, and the validator, its session
  replaced by one without a key, rejects whatever comes next. Given an \<open>ECDHSession\<close> of the relay it
  completes: both sides derive the same key and every car is registered under its public key.\<close>

theorem simulate_sessions_breaks:
  assumes "dh_law C" and "x25519_exchange C priv (session_public C s) = Inr sh"
    and "distinct (map fst signers)" and "\<forall>(n, key)\<in>set signers. length key = 32"
    and "validator_simulate_sessions C priv now (EnginePeer relay_engine) signers v = (x, v1)"
    and "validator_simulate_sessions C priv now (SessionPeer s) signers v = (y, v2)"
  shows "x = Inl AttributeErr \<and> vn_sig v1 = vn_sig v \<and> fst (validate_packet C i pkt v1) = Inr None \<and>
    vs_rejected (vn_stats (snd (validate_packet C i pkt v1))) = vs_rejected (vn_stats v) + 1 \<and>
    y = Inr () \<and>
    (\<exists>e k. vn_engine v2 = Some e \<and> engine_key e = Some k \<and>
       fst (derive_shared_secret C s now (x25519_public C priv) None) = Inr k) \<and>
    (\<forall>(n, key)\<in>set signers. map_of (sv_registry (vn_sig v2)) n = Some key)"
proof -
  obtain pub e where pe: "new_session C priv now (engine_init (vn_node_id v)) = (pub, e)" by fastforce
  have k0: "engine_key e = None"
    using new_session_simps(2) [of C priv now "engine_init (vn_node_id v)"] pe by simp
  have 1: "x = Inl AttributeErr" "v1 = v\<lparr>vn_engine := Some e\<rparr>"
    using assms(5) pe by (simp_all add: validator_simulate_sessions_def get_public_key_bytes_def)
  have len: "length (session_public C s) = 32" "length (x25519_public C priv) = 32"
    and ex: "x25519_exchange C (ses_private s) (x25519_public C priv) = Inr sh"
    using assms(1,2) by (simp_all add: dh_law_def session_public_def)
  obtain e' where h: "complete_handshake C now (session_public C s) None e = (Inr (), e')"
    and k: "engine_key e' = Some (hkdf_derive C None HKDF_INFO_ENC sh)"
    using complete_handshake_new [OF len(1), of C now None priv now "engine_init (vn_node_id v)"] pe assms(2)
    by (simp add: engine_key_def)
  have d: "fst (derive_shared_secret C s now (x25519_public C priv) None) = Inr (hkdf_derive C None HKDF_INFO_ENC sh)"
    using len(2) ex by (simp add: derive_shared_secret_def Let_def)
  have 2: "y = Inr ()" "vn_engine v2 = Some e'"
    "sv_registry (vn_sig v2) = fold (\<lambda>(n, key). dict_set n key) signers (sv_registry (vn_sig v))"
    using assms(6) pe h register_all_eq [OF assms(4), of "v\<lparr>vn_engine := Some e'\<rparr>"]
    by (auto simp: validator_simulate_sessions_def get_public_key_bytes_def peer_public_key_def rbind_def)
  have "\<forall>(n, key)\<in>set signers. map_of (sv_registry (vn_sig v2)) n = Some key"
    using 2(3) register_all_lookup [OF assms(3)] by auto
  then show ?thesis using 1 2 k d no_key_rejects [of v1 e C i pkt] k0 by simp
qed

theorem simulate_sessions_breaks_witness:
  "\<exists>x v1 y v2. validator_simulate_sessions demo_pyca [1] 0 (EnginePeer (engine_init ''relay'')) [(''car'', replicate 32 4)]
       (validator_init default_validator_config) = (x, v1) \<and>
     validator_simulate_sessions demo_pyca [1] 0 (SessionPeer (session_init ''relay'' [2] 0)) [(''car'', replicate 32 4)]
       (validator_init default_validator_config) = (y, v2) \<and> x = Inl AttributeErr \<and> y = Inr () \<and>
     map_of (sv_registry (vn_sig v2)) ''car'' = Some (replicate 32 4)"
proof -
  obtain x v1 where p: "validator_simulate_sessions demo_pyca [1] 0 (EnginePeer (engine_init ''relay'')) [(''car'', replicate 32 4)]
       (validator_init default_validator_config) = (x, v1)" by fastforce
  obtain y v2 where q: "validator_simulate_sessions demo_pyca [1] 0 (SessionPeer (session_init ''relay'' [2] 0)) [(''car'', replicate 32 4)]
       (validator_init default_validator_config) = (y, v2)" by fastforce
  obtain sh where "x25519_exchange demo_pyca [1] (session_public demo_pyca (session_init ''relay'' [2] 0)) = Inr sh"
    by (simp add: demo_pyca_def)
  from simulate_sessions_breaks [OF demo_dh_law this _ _ p q, of sample_vin "[]"] p q show ?thesis by auto
qed

end
