(* ===== verification/Pipeline.thy ===== *)
theory Pipeline
  imports CarProducer RelayNode ValidatorNode
begin

text \<open>
  The three nodes composed: a frame built, signed and sealed by the car, its JSON text on the wire,
  the relay that opens it and seals it again, the validator that opens and judges it. The lemmas
  follow one honest packet and compute what each node makes of it; the theorems state that it arrives
  whole, and that on the way only the holders of the two keys and of the signing key can make one.
\<close>

section \<open>The message on the wire\<close>

text \<open>The nine fields the car sends, and the three binary ones the relay's parser adds to them.\<close>

definition sent_message ::
  "bytes \<Rightarrow> bytes \<Rightarrow> bytes \<Rightarrow> bytes \<Rightarrow> int \<Rightarrow> int \<Rightarrow> string \<Rightarrow> string \<Rightarrow> string \<Rightarrow> pydict" where
  "sent_message nonce ct header sig q ts team session node =
     [(''nonce'', PStr (to_hex nonce)), (''ciphertext'', PStr (to_hex ct)), (''header_hex'', PStr (to_hex header)),
      (''signature'', PStr (to_hex sig)), (''sequence_no'', PInt q), (''timestamp'', PInt ts),
      (''team'', PStr team), (''session'', PStr session), (''node_id'', PStr node)]"

definition received_message ::
  "bytes \<Rightarrow> bytes \<Rightarrow> bytes \<Rightarrow> bytes \<Rightarrow> int \<Rightarrow> int \<Rightarrow> string \<Rightarrow> string \<Rightarrow> string \<Rightarrow> pydict" where
  "received_message nonce ct header sig q ts team session node =
     sent_message nonce ct header sig q ts team session node @
     [(''nonce_bytes'', PBytes nonce), (''ciphertext_bytes'', PBytes ct), (''header'', PBytes header)]"

lemma received_message_get [simp]:
  "dict_get (received_message n c h s q t team ses node) ''nonce_bytes'' = PBytes n"
  "dict_get (received_message n c h s q t team ses node) ''ciphertext_bytes'' = PBytes c"
  "dict_get (received_message n c h s q t team ses node) ''header'' = PBytes h"
  "dict_get (received_message n c h s q t team ses node) ''nonce'' = PStr (to_hex n)"
  "dict_get (received_message n c h s q t team ses node) ''ciphertext'' = PStr (to_hex c)"
  "dict_get (received_message n c h s q t team ses node) ''header_hex'' = PStr (to_hex h)"
  "dict_get (received_message n c h s q t team ses node) ''signature'' = PStr (to_hex s)"
  "dict_get (received_message n c h s q t team ses node) ''sequence_no'' = PInt q"
  "dict_get (received_message n c h s q t team ses node) ''timestamp'' = PInt t"
  "dict_get (received_message n c h s q t team ses node) ''team'' = PStr team"
  "dict_get (received_message n c h s q t team ses node) ''session'' = PStr ses"
  "dict_get (received_message n c h s q t team ses node) ''node_id'' = PStr node"
  by (simp_all add: received_message_def sent_message_def dict_get_def)

lemma received_message_get_or [simp]:
  "dict_get_or (received_message n c h s q t team ses node) ''signature'' v = PStr (to_hex s)"
  "dict_get_or (received_message n c h s q t team ses node) ''sequence_no'' v = PInt q"
  "dict_get_or (received_message n c h s q t team ses node) ''timestamp'' v = PInt t"
  "dict_get_or (received_message n c h s q t team ses node) ''team'' v = PStr team"
  "dict_get_or (received_message n c h s q t team ses node) ''session'' v = PStr ses"
  "dict_get_or (received_message n c h s q t team ses node) ''node_id'' v = PStr node"
  "dict_get_or (received_message n c h s q t team ses node) ''nonce_bytes'' v = PBytes n"
  "dict_get_or (received_message n c h s q t team ses node) ''signature_bytes'' v = v"
  by (simp_all add: received_message_def sent_message_def dict_get_or_def)

text \<open>The text of the message reads back as the message with its binary fields.\<close>

lemma nat_str_length: "n < 10 ^ Suc k \<Longrightarrow> length (nat_str n) \<le> Suc k"
proof (induction k arbitrary: n)
  case (Suc k)
  have "n div 10 < 10 ^ Suc k" using Suc.prems by (simp add: less_mult_imp_div_less)
  with Suc.IH [of "n div 10"] show ?case by (subst nat_str.simps) simp
qed (simp add: nat_str.simps)

lemma word64_prints: "0 \<le> i \<Longrightarrow> i < 2 ^ 64 \<Longrightarrow> length (nat_str (nat \<bar>i\<bar>)) \<le> 20"
  using nat_str_length [of "nat \<bar>i\<bar>" 19] by simp

lemma sent_message_text:
  assumes "0 \<le> q" "q < 2 ^ 64" "0 \<le> t" "t < 2 ^ 64"
  shows "\<exists>raw. json_dumps_compact (PDict (sent_message n c h s q t team ses node)) = Inr raw"
  using word64_prints [OF assms(1,2)] word64_prints [OF assms(3,4)]
  by (simp add: json_dumps_compact_def sent_message_def)

lemma sent_message_plain:
  "ascii team \<Longrightarrow> ascii ses \<Longrightarrow> ascii node \<Longrightarrow> plain (PDict (sent_message n c h s q t team ses node))"
  by (simp add: sent_message_def ascii_to_hex) (simp add: ascii_def)

lemma read_sent_message:
  assumes "json_loads raw = Inr (PDict (sent_message n c h s q t team ses node))"
  shows "read_json_packet raw = Inr (received_message n c h s q t team ses node)"
  unfolding read_json_packet_def assms
  by (simp add: sent_message_def received_message_def REQUIRED_FIELDS_def dict_has_def convert_hex_def
      dict_item_def as_dict_def)

text \<open>What the relay's validation of the message asks for.\<close>

lemma validate_received_message:
  "validate_json_packet (received_message n c h s q t team ses node) = Inr [] \<longleftrightarrow>
     team \<in> {''mercedes'', ''redbull''} \<and> ses \<in> {''R'', ''Q'', ''S''} \<and> 0 < q \<and> length n = 12 \<and> node \<noteq> []"
  by (auto simp: validate_json_packet_def Let_def py_in_strs_def bad_sequence_def split: if_splits)

section \<open>The car's packet\<close>

text \<open>The parts of a packet the car's pipeline produced.\<close>

definition car_header :: "builder \<Rightarrow> clock \<Rightarrow> bytes \<Rightarrow> header" where
  "car_header b now payload =
     \<lparr>h_magic = MAGIC, h_version = PROTOCOL_VER, h_team_id = the (map_of TEAM_IDS (bld_team b)),
      h_session_id = the (map_of SESSION_IDS (bld_session b)), h_packet_type = PACKET_TYPE_TEL,
      h_sequence_no = bld_sequence b + 1, h_timestamp_ms = clock_ms now,
      h_payload_len = int (length payload), h_checksum = sha256 payload, h_reserved = 0\<rparr>"

definition car_message :: "pyca \<Rightarrow> frame_inputs \<Rightarrow> car \<Rightarrow> bytes \<Rightarrow> bytes \<Rightarrow> bytes \<Rightarrow> pydict" where
  "car_message C i c header payload ct =
     received_message (fi_nonce i) ct header (ed_sign C (sgn_private (car_signer c)) (header @ payload))
       (bld_sequence (car_builder c) + 1) (clock_ms (fi_now i)) (bld_team (car_builder c))
       (bld_session (car_builder c)) (sgn_node_id (car_signer c))"

lemma fits_word64: "struct_pack h = Inr bs \<Longrightarrow> 0 \<le> h_sequence_no h \<and> h_sequence_no h < 2 ^ 64 \<and>
   0 \<le> h_timestamp_ms h \<and> h_timestamp_ms h < 2 ^ 64"
  by (auto simp: struct_pack_def header_fits_def fits_def split: if_splits)

lemma car_packet:
  assumes "build_and_encrypt C i c = (Some d, c')"
  obtains frame payload header ct k where "fi_frame i = Inr frame" and "build_payload frame = Inr payload"
    and "struct_pack (car_header (car_builder c) (fi_now i) payload) = Inr header"
    and "engine_key (car_engine c) = Some k" and "aead_encrypt C k (fi_nonce i) payload (Some header) = Inr ct"
    and "map_of TEAM_IDS (bld_team (car_builder c)) \<noteq> None"
    and "map_of SESSION_IDS (bld_session (car_builder c)) \<noteq> None"
    and "map (dict_get d) (TRANSMIT_FIELDS @ [''nonce_bytes'', ''ciphertext_bytes'', ''header'']) =
         map snd (car_message C i c header payload ct)"
    and "set (map fst (car_message C i c header payload ct)) \<subseteq> set (map fst d)"
proof -
  obtain frame packet b sp s x x' e' where f: "fi_frame i = Inr frame"
    and bld: "build (car_builder c) (fi_now i) frame = (Inr packet, b)"
    and sgn: "sign_packet C (fi_signed_at i) packet (car_signer c) = (Inr sp, s)"
    and enc: "encrypt_packet C (fi_nonce i) (fi_encrypted_at i) sp (car_engine c) x = (Inr d, e', x')"
    using assms by (rule build_and_encrypt_SomeE)
  obtain payload header t ss where p: "build_payload frame = Inr payload"
    and t: "map_of TEAM_IDS (bld_team (car_builder c)) = Some t"
    and ss: "map_of SESSION_IDS (bld_session (car_builder c)) = Some ss"
    and h: "struct_pack (car_header (car_builder c) (fi_now i) payload) = Inr header"
    and pkt: "packet = built_packet (car_builder c) (bld_sequence (car_builder c) + 1) (clock_ms (fi_now i)) payload header"
    using bld by (rule build_InrD) (simp add: car_header_def)
  obtain h' p' k ct where hp: "dict_get sp ''header'' = PBytes h'" "dict_get sp ''payload'' = PBytes p'"
    and k: "engine_key (car_engine c) = Some k" "aead_encrypt C k (fi_nonce i) p' (Some h') = Inr ct"
    and d: "d = encrypted_fields x' (fi_encrypted_at i) sp (fi_nonce i) ct h' p'"
    using enc by (rule encrypt_packet_InrD)
  have sp: "sp = signed_fields (car_signer c) (fi_signed_at i)
      (ed_sign C (sgn_private (car_signer c)) (header @ payload)) packet"
    using sgn by (auto simp: sign_packet_def signed_data_def pkt built_packet_def dict_get_def dict_item_def
        split: if_splits)
  have eq: "h' = header" "p' = payload"
    using hp by (simp_all add: sp signed_fields_def pkt built_packet_def dict_get_def)
  show thesis
  proof (rule that [OF f p h k(1)])
    show "aead_encrypt C k (fi_nonce i) payload (Some header) = Inr ct" using k(2) eq by simp
  qed (simp_all add: t ss d sp eq signed_fields_def pkt built_packet_def TRANSMIT_FIELDS_def car_message_def
      received_message_def sent_message_def encrypted_fields_def dict_get_def dict_get_or_def)
qed

section \<open>The wire\<close>

lemma take_fields_get:
  "\<forall>k\<in>set ks. dict_has d k \<Longrightarrow> take_fields ks d = Inr (map (\<lambda>k. (k, dict_get d k)) ks)"
  by (induction ks) (simp_all add: dict_item_get)

lemma known_names_ascii:
  "map_of TEAM_IDS team \<noteq> None \<Longrightarrow> ascii team" "map_of SESSION_IDS ses \<noteq> None \<Longrightarrow> ascii ses"
  by (auto simp: TEAM_IDS_def SESSION_IDS_def ascii_def split: if_splits)

text \<open>What the relay's parser makes of the text the car transmits.\<close>

lemma car_message_arrives:
  assumes "build_and_encrypt C i c = (Some d, c')" and "ascii (sgn_node_id (car_signer c))"
  obtains frame payload header ct k raw where "fi_frame i = Inr frame" and "build_payload frame = Inr payload"
    and "struct_pack (car_header (car_builder c) (fi_now i) payload) = Inr header"
    and "engine_key (car_engine c) = Some k" and "aead_encrypt C k (fi_nonce i) payload (Some header) = Inr ct"
    and "map (dict_get d) (TRANSMIT_FIELDS @ [''nonce_bytes'', ''ciphertext_bytes'', ''header'']) =
         map snd (car_message C i c header payload ct)"
    and "transmit_payload d = Inr raw" and "read_json_packet raw = Inr (car_message C i c header payload ct)"
    and "map_of SESSION_IDS (bld_session (car_builder c)) \<noteq> None"
proof -
  obtain frame payload header ct k where f: "fi_frame i = Inr frame" and p: "build_payload frame = Inr payload"
    and h: "struct_pack (car_header (car_builder c) (fi_now i) payload) = Inr header"
    and k: "engine_key (car_engine c) = Some k" "aead_encrypt C k (fi_nonce i) payload (Some header) = Inr ct"
    and ids: "map_of TEAM_IDS (bld_team (car_builder c)) \<noteq> None" "map_of SESSION_IDS (bld_session (car_builder c)) \<noteq> None"
    and vals: "map (dict_get d) (TRANSMIT_FIELDS @ [''nonce_bytes'', ''ciphertext_bytes'', ''header'']) =
         map snd (car_message C i c header payload ct)"
    and keys: "set (map fst (car_message C i c header payload ct)) \<subseteq> set (map fst d)"
    using assms(1) by (rule car_packet)
  let ?sig = "ed_sign C (sgn_private (car_signer c)) (header @ payload)"
  let ?m = "sent_message (fi_nonce i) ct header ?sig (bld_sequence (car_builder c) + 1) (clock_ms (fi_now i))
    (bld_team (car_builder c)) (bld_session (car_builder c)) (sgn_node_id (car_signer c))"
  have "take_fields TRANSMIT_FIELDS d = Inr (map (\<lambda>k. (k, dict_get d k)) TRANSMIT_FIELDS)"
    using keys by (intro take_fields_get)
      (auto simp: dict_has_keys dict_keys_def TRANSMIT_FIELDS_def car_message_def received_message_def sent_message_def)
  also have "map (\<lambda>k. (k, dict_get d k)) TRANSMIT_FIELDS = ?m"
    using vals by (simp add: TRANSMIT_FIELDS_def car_message_def received_message_def sent_message_def)
  finally have take: "take_fields TRANSMIT_FIELDS d = Inr ?m" .
  obtain raw where raw: "json_dumps_compact (PDict ?m) = Inr raw"
    using sent_message_text fits_word64 [OF h] by (fastforce simp: car_header_def)
  have pl: "plain (PDict ?m)" using known_names_ascii ids assms(2) by (intro sent_message_plain)
  have "read_json_packet raw = Inr (car_message C i c header payload ct)"
    unfolding car_message_def by (rule read_sent_message) (rule json_dumps_compact_loads [OF raw pl])
  moreover have "transmit_payload d = Inr raw" by (simp add: transmit_payload_def take raw)
  ultimately show thesis using f p h k ids vals by (intro that)
qed

section \<open>At the relay\<close>

text \<open>The filter reads only the payload, the team and the node of a packet.\<close>

definition filter_view :: "pyval \<Rightarrow> string \<Rightarrow> string \<Rightarrow> pydict" where
  "filter_view js team node = [(''payload_json'', js), (''team'', PStr team), (''node_id'', PStr node)]"

lemma anomaly_check_view:
  assumes "an_payload pkt = js" and "dict_get_or pkt ''team'' (PStr ''combined'') = PStr team" and "an_node pkt = PStr node"
  shows "anomaly_check pkt f = anomaly_check (filter_view js team node) f"
proof -
  have v: "an_payload (filter_view js team node) = js" "an_node (filter_view js team node) = PStr node"
    "dict_get_or (filter_view js team node) ''team'' (PStr ''combined'') = PStr team"
    by (simp_all add: filter_view_def an_payload_def an_node_def dict_get_or_def)
  show ?thesis unfolding anomaly_check_def assms v by (rule refl)
qed

text \<open>
  An honest message is parsed and decrypted and passes the integrity check; what happens next is up to
  the anomaly filter.
\<close>

lemma relay_reaches_filter:
  assumes laws: "aead_law C" and inv: "ic_inv (rl_integrity r)"
    and raw: "read_json_packet raw = Inr (received_message n ct h sig q t team ses node)"
    and team: "team \<in> {''mercedes'', ''redbull''}" and ses: "ses \<in> {''R'', ''Q'', ''S''}" and node: "node \<noteq> []"
    and n: "length n = 12" and q: "0 < q" "last_int (rl_integrity r) (PStr node) < q"
    and fresh: "\<not> ts_too_old (rl_integrity r) now t" and sig: "sig \<noteq> []"
    and k: "dec_key (rl_decryptor r) node = Some k" "aead_encrypt C k n p (Some h) = Inr ct"
    and js: "json_loads p = Inr js"
  obtains d i where "process_packet C now nonce raw r =
      anomaly_stage C nonce (opened_fields (rl_decryptor r) (received_message n ct h sig q t team ses node) p js)
        (upd integrity_ok ((upd decrypted_ok ((upd parsed_ok ((upd received r)
           \<lparr>rl_parser := snd (parse_json_packet (rl_parser r) raw)\<rparr>))\<lparr>rl_decryptor := d\<rparr>))\<lparr>rl_integrity := i\<rparr>))"
    and "dec_key d node = Some k" and "ic_inv i" and "ic_config i = ic_config (rl_integrity r)" and "last_int i (PStr node) = q"
proof -
  let ?m = "received_message n ct h sig q t team ses node"
  let ?o = "opened_fields (rl_decryptor r) ?m p js"
  obtain d where d: "decrypt_relay C ?m (rl_decryptor r) = (Inr ?o, d)"
    using decrypt_relay_sealed [OF laws k(2) _ node k(1), of ?m js] js by auto
  have v: "validate_json_packet ?m = Inr []"
    using team ses q n node by (simp add: validate_received_message)
  have o: "pkt_node ?o = PStr node" "pkt_seq ?o = PInt q" "dict_get_or ?o ''timestamp'' (PInt 0) = PInt t" "ic_has_sig ?o"
    using sig by (simp_all add: opened_fields_def pkt_node_def pkt_seq_def ic_has_sig_def py_or_def)
  have os: "int_of (pkt_seq ?o) = Some q" "hashable (pkt_node ?o)" "int_of (dict_get_or ?o ''timestamp'' (PInt 0)) = Some t"
    unfolding o by simp_all
  obtain res i where i: "integrity_check (rl_integrity r) now ?o = (Inr res, i)" "ic_inv i" "cr_passed res" "last_int i (PStr node) = q"
    using integrity_verdict [OF inv os, of now] q fresh unfolding o by (auto simp: o(4))
  have "ic_config i = ic_config (rl_integrity r)"
    using ic_config_check [OF inv, of ?o now] i(1) unfolding o is_int_def by simp
  moreover have "dec_key d node = Some k" using decrypt_relay_keys [OF d] k(1) by simp
  moreover obtain pr where "parse_json_packet (rl_parser r) raw = (Inr ?m, pr)" by (simp add: parse_json_packet_def raw)
  ultimately show thesis
    using i by (intro that [where d = d and i = i]) (simp_all add: process_packet_def parse_stage_def v decrypt_stage_def d integrity_stage_def Let_def)
qed

text \<open>What the filter and the re-encryption need of such a packet.\<close>

lemma opened_message_get:
  "an_payload (opened_fields x (received_message n ct h sig q t team ses node) p js) = js"
  "dict_get_or (opened_fields x (received_message n ct h sig q t team ses node) p js) ''team'' (PStr ''combined'') = PStr team"
  "an_node (opened_fields x (received_message n ct h sig q t team ses node) p js) = PStr node"
  by (simp_all add: opened_fields_def an_payload_def an_node_def)

lemma annotated_reencrypts:
  assumes "anomaly_check (filter_view js team node) f = (Inr res, f')"
    and "ren_key x = Some kv" and "aead_encrypt C kv nonce p (Some h) = Inr cv"
  obtains a y where "anomaly_annotate (opened_fields d (received_message n ct h sig q t team ses node) p js) f = (Inr (a, res), f')"
    and "reencrypt C nonce a x = (Inr (reencrypted_fields x a nonce cv p (PBytes sig) (PStr (to_hex sig))), y)"
    and "dict_get a ''header'' = PBytes h" "dict_get_or a ''sequence_no'' (PInt 0) = PInt q" "dict_get_or a ''timestamp'' (PInt 0) = PInt t"
    "dict_get_or a ''team'' (PStr []) = PStr team" "dict_get_or a ''session'' (PStr []) = PStr ses" "dict_get_or a ''node_id'' (PStr []) = PStr node"
proof -
  let ?o = "opened_fields d (received_message n ct h sig q t team ses node) p js"
  define a where "a = dict_set ''anomaly_rejected'' (PBool (is_rejected res))
       (dict_set ''anomaly_flagged'' (PBool (is_flagged res)) (dict_set ''anomaly_clean'' (PBool (is_clean res)) ?o))"
  have an: "anomaly_annotate ?o f = (Inr (a, res), f')"
    using assms(1) by (simp add: anomaly_annotate_def anomaly_check_view [OF opened_message_get] a_def)
  have ag: "dict_get a ''payload_bytes'' = PBytes p" "dict_get a ''header'' = PBytes h"
    "dict_get_or a ''signature_bytes'' (PBytes []) = PBytes []" "dict_get_or a ''signature'' (PStr []) = PStr (to_hex sig)"
    "dict_get_or a ''sequence_no'' (PInt 0) = PInt q" "dict_get_or a ''timestamp'' (PInt 0) = PInt t"
    "dict_get_or a ''team'' (PStr []) = PStr team" "dict_get_or a ''session'' (PStr []) = PStr ses" "dict_get_or a ''node_id'' (PStr []) = PStr node"
    by (simp_all add: a_def opened_fields_def)
  obtain y where "reencrypt C nonce a x = (Inr (reencrypted_fields x a nonce cv p (PBytes sig) (PStr (to_hex sig))), y)"
    using reencrypt_ok [OF assms(2) ag(1,2) assms(3) carried_signature_hex [OF ag(3,4)]] by blast
  with an show thesis using ag(2,5-) by (rule that)
qed

text \<open>An honest message goes through the five stages.\<close>

lemma relay_forwards_honest:
  assumes laws: "aead_law C" and inv: "ic_inv (rl_integrity r)"
    and raw: "read_json_packet raw = Inr (received_message n ct h sig q t team ses node)"
    and team: "team \<in> {''mercedes'', ''redbull''}" and ses: "ses \<in> {''R'', ''Q'', ''S''}" and node: "node \<noteq> []"
    and n: "length n = 12" and q: "0 < q" "last_int (rl_integrity r) (PStr node) < q"
    and fresh: "\<not> ts_too_old (rl_integrity r) now t" and sig: "sig \<noteq> []"
    and k: "dec_key (rl_decryptor r) node = Some k" "aead_encrypt C k n p (Some h) = Inr ct"
    and js: "json_loads p = Inr js"
    and an: "anomaly_check (filter_view js team node) (rl_anomaly r) = (Inr res, f)" "\<not> is_rejected res"
    and kv: "ren_key (rl_reencryptor r) = Some kv" "aead_encrypt C kv nonce p (Some h) = Inr cv"
  shows "\<exists>pkt r'. process_packet C now nonce raw r =
      (Inr (Some (reencrypted_fields (rl_reencryptor r) pkt nonce cv p (PBytes sig) (PStr (to_hex sig)))), r') \<and>
    dict_get pkt ''header'' = PBytes h \<and> dict_get_or pkt ''sequence_no'' (PInt 0) = PInt q \<and>
    dict_get_or pkt ''timestamp'' (PInt 0) = PInt t \<and> dict_get_or pkt ''team'' (PStr []) = PStr team \<and>
    dict_get_or pkt ''session'' (PStr []) = PStr ses \<and> dict_get_or pkt ''node_id'' (PStr []) = PStr node \<and>
    rs_forwarded (rl_stats r') = rs_forwarded (rl_stats r) + 1 \<and> last_int (rl_integrity r') (PStr node) = q"
proof -
  let ?m = "received_message n ct h sig q t team ses node"
  obtain d i where run: "process_packet C now nonce raw r = anomaly_stage C nonce (opened_fields (rl_decryptor r) ?m p js)
        (upd integrity_ok ((upd decrypted_ok ((upd parsed_ok ((upd received r)
           \<lparr>rl_parser := snd (parse_json_packet (rl_parser r) raw)\<rparr>))\<lparr>rl_decryptor := d\<rparr>))\<lparr>rl_integrity := i\<rparr>))"
    and last: "last_int i (PStr node) = q"
    by (rule relay_reaches_filter [OF laws inv raw team ses node n q fresh sig k js])
  obtain a y where a: "anomaly_annotate (opened_fields (rl_decryptor r) ?m p js) (rl_anomaly r) = (Inr (a, res), f)"
      "reencrypt C nonce a (rl_reencryptor r) = (Inr (reencrypted_fields (rl_reencryptor r) a nonce cv p (PBytes sig) (PStr (to_hex sig))), y)"
    and ag: "dict_get a ''header'' = PBytes h" "dict_get_or a ''sequence_no'' (PInt 0) = PInt q" "dict_get_or a ''timestamp'' (PInt 0) = PInt t"
      "dict_get_or a ''team'' (PStr []) = PStr team" "dict_get_or a ''session'' (PStr []) = PStr ses" "dict_get_or a ''node_id'' (PStr []) = PStr node"
    by (rule annotated_reencrypts [OF an(1) kv])
  let ?out = "reencrypted_fields (rl_reencryptor r) a nonce cv p (PBytes sig) (PStr (to_hex sig))"
  obtain r' where r': "process_packet C now nonce raw r = (Inr (Some ?out), r')"
    unfolding run by (simp add: anomaly_stage_def a an(2) reencrypt_stage_def Let_def)
  have "rl_integrity (snd (process_packet C now nonce raw r)) = i" unfolding run by simp
  then have "rl_integrity r' = i" using r' by simp
  then show ?thesis using r' process_packet_stats [OF r'] ag last by auto
qed

section \<open>At the validator\<close>

text \<open>A sealed, signed packet whose number and commitment the validator's checks pass is accepted.\<close>

lemma validator_accepts:
  fixes i C pkt p node
  defines "vp \<equiv> verified_packet pkt p (verify_result (PStr node) (vi_sig_stamp i))"
  assumes e: "vn_engine v = Some e" and dec: "validator_decrypt C pkt e = (Inr p, e')"
    and reg: "map_of (sv_registry (vn_sig v)) node = Some key"
    and sig: "ed_verify C key sig (h @ p)" "length sig = 64" and node: "node \<noteq> []" and p: "p \<noteq> []"
    and hdr: "struct_pack hdr = Inr h" "h_magic hdr = MAGIC" "length (h_checksum hdr) = 32" "h_sequence_no hdr = q"
    and pkt: "map_of pkt ''header'' = Some (PBytes h)" "map_of pkt ''signature_bytes'' = Some (PBytes sig)"
      "map_of pkt ''sequence_no'' = Some (PInt q)" "map_of pkt ''original_node'' = Some (PStr node)"
    and sq: "sequence_check (vn_seq v) (vi_now i) vp = (Inr cr, s)" "cr_passed cr"
    and zk: "zkp_verify_packet (vi_zkp_stamp i) vp (vn_zkp v) = (Inr z, w)" "cm_verified z"
  shows "validate_packet C i pkt v = accept_packet i vp cr z
    ((vupd (\<lambda>s. s\<lparr>vs_received := vs_received s + 1\<rparr>) v)\<lparr>vn_engine := Some e',
      vn_sig := (vn_sig v)\<lparr>sv_verified := sv_verified (vn_sig v) + 1\<rparr>, vn_seq := s, vn_zkp := w\<rparr>)"
proof -
  let ?wp = "with_payload pkt p"
  have id: "sig_identity pkt = PStr node" using node pkt by (simp add: sig_identity_def dict_get_def py_or_def)
  have rs: "resolve_sig pkt = Inr sig" using sig(2) pkt by (simp add: resolve_sig_def dict_get_def SIGNATURE_SIZE_def)
  have lh: "length h = HEADER_SIZE" using hdr(1) by (rule length_struct_pack)
  then have "h \<noteq> []" by (auto simp: HEADER_SIZE_def)
  then have rd: "resolve_data ?wp = Inr (h @ p)"
    using p pkt by (simp add: resolve_data_def with_payload_def dict_get_or_def)
  have ver: "sv_verify C (vi_sig_stamp i) ?wp (vn_sig v) =
      (Inr (verify_result (PStr node) (vi_sig_stamp i)), (vn_sig v)\<lparr>sv_verified := sv_verified (vn_sig v) + 1\<rparr>)"
    using sv_verify_ok [of ?wp node, OF _ node reg _ rd sig(1)] by (simp add: id rs)
  have "header_sequence pkt = Inr q"
    using parse_header_pack [OF hdr(1-3), of "[]"] hdr(4) pkt
    by (simp add: header_sequence_def dict_get_def as_bytes_def)
  then have hs: "header_sequence vp = Inr q" by (simp add: vp_def)
  have eq: "py_eq (dict_get vp ''sequence_no'') (PInt q)"
    unfolding vp_def verified_packet_fields by (simp add: dict_get_def pkt py_eq_def)
  let ?v1 = "((vupd (\<lambda>s. s\<lparr>vs_received := vs_received s + 1\<rparr>) v)\<lparr>vn_engine := Some e',
      vn_sig := (vn_sig v)\<lparr>sv_verified := sv_verified (vn_sig v) + 1\<rparr>\<rparr>)"
  have "validate_packet C i pkt v = header_stage i vp ?v1"
    by (simp add: validate_packet_def e vupd_def Let_def dec signature_stage_def ver verified_packet_def vp_def)
  also have "\<dots> = sequence_stage i vp ?v1" using hs eq by (simp add: header_stage_def)
  also have "\<dots> = zkp_stage i vp cr (?v1\<lparr>vn_seq := s\<rparr>)" using sq by (simp add: sequence_stage_def Let_def vupd_def)
  also have "\<dots> = accept_packet i vp cr z (?v1\<lparr>vn_seq := s, vn_zkp := w\<rparr>)"
    using zk by (simp add: zkp_stage_def Let_def vupd_def)
  finally show ?thesis by simp
qed

lemma validator_accepts_honest:
  assumes laws: "aead_law C" and inv: "sc_inv (vn_seq v)" and e: "vn_engine v = Some e" "engine_key e = Some kv"
    and seal: "aead_encrypt C kv n p (Some h) = Inr cv" and reg: "map_of (sv_registry (vn_sig v)) node = Some key"
    and sig: "ed_verify C key sig (h @ p)" "length sig = 64" and node: "node \<noteq> []" and p: "p \<noteq> []"
    and hdr: "struct_pack hdr = Inr h" "h_magic hdr = MAGIC" "length (h_checksum hdr) = 32" "h_sequence_no hdr = q"
    and q: "0 < q" "sc_last_int (vn_seq v) (PStr node) < q" "is_int (sc_last (vn_seq v) (PStr node))"
    and fresh: "\<not> sc_too_old (vn_seq v) (vi_now i) t"
    and pkt: "map_of pkt ''nonce_bytes'' = Some (PBytes n)" "map_of pkt ''ciphertext_bytes'' = Some (PBytes cv)"
      "map_of pkt ''header'' = Some (PBytes h)" "map_of pkt ''signature_bytes'' = Some (PBytes sig)"
      "map_of pkt ''sequence_no'' = Some (PInt q)" "map_of pkt ''timestamp'' = Some (PInt t)"
      "map_of pkt ''original_node'' = Some (PStr node)" "map_of pkt ''zkp_commitment'' = None"
  shows "\<exists>cr z v'. validate_packet C i pkt v =
      (Inr (Some (verified_packet pkt p (verify_result (PStr node) (vi_sig_stamp i)), cr, z)), v') \<and>
    cr_passed cr \<and> sc_last_int (vn_seq v') (PStr node) = q"
proof -
  let ?vp = "verified_packet pkt p (verify_result (PStr node) (vi_sig_stamp i))"
  have f: "sc_node pkt = PStr node" "sc_seq pkt = PInt q" "sc_ts pkt = PInt t" "sc_seq_num pkt = q"
    using node pkt by (simp_all add: sc_node_def sc_seq_def sc_ts_def sc_seq_num_def dict_get_def dict_get_or_def py_or_def)
  obtain l where l: "int_of (sc_last (vn_seq v) (PStr node)) = Some l" using q(3) by (auto simp: is_int_def)
  obtain gap fr s where fr: "is_stale fr = sc_too_old (vn_seq v) (vi_now i) t"
    and sc: "sequence_check (vn_seq v) (vi_now i) ?vp = (Inr (sc_result (vn_seq v) ?vp gap fr), s)"
  proof (rule sequence_check_returns [OF inv])
    show "int_of (sc_seq ?vp) = Some q" "hashable (sc_node ?vp)" "int_of (sc_ts ?vp) = Some t"
      "int_of (sc_last (vn_seq v) (norm_key (sc_node ?vp))) = Some l"
      unfolding verified_packet_fields f using l by simp_all
  qed
  let ?cr = "sc_result (vn_seq v) ?vp gap fr"
  have pass: "cr_passed ?cr" using q fresh fr by (simp add: sc_result_passed f)
  have nq: "num_int (sc_seq ?vp) \<noteq> None" "hashable (sc_node ?vp)" by (simp_all add: f)
  have last': "sc_last_int s (PStr node) = q"
    using sequence_check_cases(3) [OF inv nq sc, of "PStr node"] pass by (simp add: sc_accepts_def f)
  obtain z w where zw: "zkp_verify_packet (vi_zkp_stamp i) ?vp (vn_zkp v) = (Inr z, w)" "cm_verified z"
    using pkt(8) by (simp add: zkp_verify_packet_def dict_get_def verified_packet_get)
  have "aead_decrypt C kv n cv (Some h) = Inr p" using laws seal by (simp add: aead_lawD)
  then obtain e' where dec: "validator_decrypt C pkt e = (Inr p, e')"
    using e(2) pkt by (simp add: validator_decrypt_def dict_item_def dict_get_def decrypt_eq)
  show ?thesis
    unfolding validator_accepts [OF e(1) dec reg sig node p hdr pkt(3-5,7) sc pass zw]
    using pass last' by (auto simp: accept_packet_def vupd_def Let_def)
qed

section \<open>From the car to the audit trail\<close>

text \<open>
  A relay that shares its session key with the car, holds a validator session and has not seen this
  sequence number from the car; whose filter, on this payload, neither raises nor rejects.
\<close>

definition relay_expects :: "frame_inputs \<Rightarrow> car \<Rightarrow> pyval \<Rightarrow> clock \<Rightarrow> bytes \<Rightarrow> relay \<Rightarrow> bool" where
  "relay_expects i c js now kv r =
     (let node = sgn_node_id (car_signer c) in
      ic_inv (rl_integrity r) \<and> dec_key (rl_decryptor r) node = engine_key (car_engine c) \<and>
      ren_key (rl_reencryptor r) = Some kv \<and> length kv = 32 \<and>
      last_int (rl_integrity r) (PStr node) \<le> bld_sequence (car_builder c) \<and>
      \<not> ts_too_old (rl_integrity r) now (clock_ms (fi_now i)) \<and>
      (case fst (anomaly_check (filter_view js (bld_team (car_builder c)) node) (rl_anomaly r)) of
         Inr res \<Rightarrow> \<not> is_rejected res | Inl _ \<Rightarrow> False))"

text \<open>A validator in strict mode with the relay's key, the car's public key, and no such number yet.\<close>

definition validator_expects :: "pyca \<Rightarrow> frame_inputs \<Rightarrow> car \<Rightarrow> clock \<Rightarrow> bytes \<Rightarrow> validator \<Rightarrow> bool" where
  "validator_expects C i c now kv v =
     (let node = sgn_node_id (car_signer c) in
      sc_inv (vn_seq v) \<and> (case vn_engine v of Some e \<Rightarrow> engine_key e = Some kv | None \<Rightarrow> False) \<and>
      map_of (sv_registry (vn_sig v)) node = Some (signer_public C (car_signer c)) \<and>
      is_int (sc_last (vn_seq v) (PStr node)) \<and>
      sc_last_int (vn_seq v) (PStr node) \<le> bld_sequence (car_builder c) \<and>
      \<not> sc_too_old (vn_seq v) now (clock_ms (fi_now i)))"

lemma json_loads_nonempty: "json_loads p = Inr js \<Longrightarrow> p \<noteq> []"
  by (auto simp: json_loads_def json_loads_str_def py_decode_def jliteral_def jnumber_def elim!: rbind_InrE)

text \<open>The packet the relay makes of the car's text, and the one the validator makes of that.\<close>

lemma honest_run:
  assumes laws: "aead_law C" "sig_law C" "aead_total C" and car: "build_and_encrypt C i c = (Some d, c')"
    and names: "ascii (sgn_node_id (car_signer c))" "sgn_node_id (car_signer c) \<noteq> []"
      "bld_team (car_builder c) \<in> {''mercedes'', ''redbull''}" "0 \<le> bld_sequence (car_builder c)"
    and nonces: "length (fi_nonce i) = 12" "length nonce = 12"
    and frame: "fi_frame i = Inr frame" "build_payload frame = Inr p" "length p < 2 ^ 31" "json_loads p = Inr js"
    and relay: "relay_expects i c js now kv r" and val: "validator_expects C i c (vi_now vi) kv v"
  obtains raw out r' acc cr z v' where "transmit_payload d = Inr raw"
    and "process_packet C now nonce raw r = (Inr (Some out), r')"
    and "validate_packet C vi out v = (Inr (Some (acc, cr, z)), v')"
    and "dict_get acc ''payload_bytes'' = PBytes p" and "dict_get acc ''payload_json'' = js"
    and "dict_get acc ''original_node'' = PStr (sgn_node_id (car_signer c))"
    and "dict_get acc ''sequence_no'' = PInt (bld_sequence (car_builder c) + 1)"
    and "dict_get acc ''header'' = dict_get d ''header''"
    and "rs_forwarded (rl_stats r') = rs_forwarded (rl_stats r) + 1"
    and "last_int (rl_integrity r') (PStr (sgn_node_id (car_signer c))) = bld_sequence (car_builder c) + 1"
    and "sc_last_int (vn_seq v') (PStr (sgn_node_id (car_signer c))) = bld_sequence (car_builder c) + 1"
proof -
  let ?node = "sgn_node_id (car_signer c)" and ?q = "bld_sequence (car_builder c) + 1"
    and ?hdr = "car_header (car_builder c) (fi_now i) p"
  obtain header ct k raw where h: "struct_pack ?hdr = Inr header"
    and k: "engine_key (car_engine c) = Some k" "aead_encrypt C k (fi_nonce i) p (Some header) = Inr ct"
    and vals: "map (dict_get d) (TRANSMIT_FIELDS @ [''nonce_bytes'', ''ciphertext_bytes'', ''header'']) =
         map snd (car_message C i c header p ct)"
    and raw: "transmit_payload d = Inr raw" and msg: "read_json_packet raw = Inr (car_message C i c header p ct)"
    and ses: "map_of SESSION_IDS (bld_session (car_builder c)) \<noteq> None"
  proof (rule car_message_arrives [OF car names(1)])
    fix frame' p' header ct k raw
    assume a: "fi_frame i = Inr frame'" "build_payload frame' = Inr p'"
      and b: "struct_pack (car_header (car_builder c) (fi_now i) p') = Inr header" "engine_key (car_engine c) = Some k"
        "aead_encrypt C k (fi_nonce i) p' (Some header) = Inr ct"
        "map (dict_get d) (TRANSMIT_FIELDS @ [''nonce_bytes'', ''ciphertext_bytes'', ''header'']) =
         map snd (car_message C i c header p' ct)"
        "transmit_payload d = Inr raw" "read_json_packet raw = Inr (car_message C i c header p' ct)"
        "map_of SESSION_IDS (bld_session (car_builder c)) \<noteq> None"
    have "p' = p" using a frame(1,2) by simp
    with b show thesis by (intro that) simp_all
  qed
  have ses': "bld_session (car_builder c) \<in> {''R'', ''Q'', ''S''}"
    using ses by (auto simp: SESSION_IDS_def split: if_splits)
  let ?sig = "ed_sign C (sgn_private (car_signer c)) (header @ p)"
  have sig: "ed_verify C (signer_public C (car_signer c)) ?sig (header @ p)" "length ?sig = 64"
    using laws(2) by (simp_all add: sig_law_def signer_public_def)
  then have sne: "?sig \<noteq> []" by auto
  obtain cv where cv: "aead_encrypt C kv nonce p (Some header) = Inr cv"
    using laws(3) relay nonces frame(3) unfolding aead_total_def relay_expects_def Let_def by blast
  obtain res f where an: "anomaly_check (filter_view js (bld_team (car_builder c)) ?node) (rl_anomaly r) = (Inr res, f)"
    "\<not> is_rejected res"
    using relay by (cases "anomaly_check (filter_view js (bld_team (car_builder c)) ?node) (rl_anomaly r)")
      (auto simp: relay_expects_def Let_def split: sum.splits)
  have rl: "ic_inv (rl_integrity r)" "dec_key (rl_decryptor r) ?node = Some k" "ren_key (rl_reencryptor r) = Some kv"
    "last_int (rl_integrity r) (PStr ?node) < ?q" "\<not> ts_too_old (rl_integrity r) now (clock_ms (fi_now i))"
    using relay k(1) by (simp_all add: relay_expects_def Let_def)
  obtain pkt r' where fwd: "process_packet C now nonce raw r =
      (Inr (Some (reencrypted_fields (rl_reencryptor r) pkt nonce cv p (PBytes ?sig) (PStr (to_hex ?sig)))), r')"
    (is "_ = (Inr (Some ?out), r')")
    and pkt: "dict_get pkt ''header'' = PBytes header" "dict_get_or pkt ''sequence_no'' (PInt 0) = PInt ?q"
      "dict_get_or pkt ''timestamp'' (PInt 0) = PInt (clock_ms (fi_now i))"
      "dict_get_or pkt ''node_id'' (PStr []) = PStr ?node"
    and cnt: "rs_forwarded (rl_stats r') = rs_forwarded (rl_stats r) + 1" "last_int (rl_integrity r') (PStr ?node) = ?q"
    using relay_forwards_honest [OF laws(1) rl(1) msg [unfolded car_message_def] names(3) ses' names(2) nonces(1)
        _ rl(4,5) sne rl(2) k(2) frame(4) an rl(3) cv] names(4) by auto
  obtain e where e: "vn_engine v = Some e" "engine_key e = Some kv"
    using val by (auto simp: validator_expects_def Let_def split: option.splits)
  have vl: "sc_inv (vn_seq v)" "map_of (sv_registry (vn_sig v)) ?node = Some (signer_public C (car_signer c))"
    "sc_last_int (vn_seq v) (PStr ?node) < ?q" "is_int (sc_last (vn_seq v) (PStr ?node))"
    "\<not> sc_too_old (vn_seq v) (vi_now vi) (clock_ms (fi_now i))"
    using val by (simp_all add: validator_expects_def Let_def)
  obtain cr z v' where acc: "validate_packet C vi ?out v =
      (Inr (Some (verified_packet ?out p (verify_result (PStr ?node) (vi_sig_stamp vi)), cr, z)), v')"
    and last': "sc_last_int (vn_seq v') (PStr ?node) = ?q"
    using validator_accepts_honest [OF laws(1) vl(1) e cv vl(2) sig names(2) json_loads_nonempty [OF frame(4)] h
        _ _ _ _ vl(3,4,5), of ?out] names(4) pkt
    by (auto simp: car_header_def reencrypted_fields_def)
  have "dict_get d ''header'' = PBytes header"
    using vals by (simp add: TRANSMIT_FIELDS_def car_message_def received_message_def sent_message_def)
  then show thesis
    using frame(4) pkt by (intro that [OF raw fwd acc _ _ _ _ _ cnt last'])
      (simp_all add: verified_packet_def with_payload_def dict_get_def reencrypted_fields_def)
qed

section \<open>A concrete run\<close>

text \<open>The car produces a packet whenever its builder does and its session has a key.\<close>

lemma car_produces:
  assumes "aead_total C" and "fi_frame i = Inr frame" and "fst (build (car_builder c) (fi_now i) frame) = Inr packet"
    and "car_encryptor c = Some x" and "engine_key (car_engine c) = Some k" and "length k = 32"
    and "length (fi_nonce i) = 12" and "build_payload frame = Inr p" and "length p < 2 ^ 31"
  shows "\<exists>d c'. build_and_encrypt C i c = (Some d, c')"
proof -
  obtain b where b: "build (car_builder c) (fi_now i) frame = (Inr packet, b)"
    using assms(3) by (cases "build (car_builder c) (fi_now i) frame") simp
  obtain p' header where p': "build_payload frame = Inr p'" and pkt: "packet = built_packet (car_builder c)
      (bld_sequence (car_builder c) + 1) (clock_ms (fi_now i)) p' header"
    using b by (rule build_InrD)
  then have g: "map_of packet ''header'' = Some (PBytes header)" "map_of packet ''payload'' = Some (PBytes p)"
    using assms(8) by (simp_all add: built_packet_def)
  let ?sp = "signed_fields (car_signer c) (fi_signed_at i) (ed_sign C (sgn_private (car_signer c)) (header @ p)) packet"
  have s: "sign_packet C (fi_signed_at i) packet (car_signer c) =
      (Inr ?sp, (car_signer c)\<lparr>sgn_count := sgn_count (car_signer c) + 1\<rparr>)"
    using g by (simp add: sign_packet_def signed_data_def dict_has_def dict_get_def)
  obtain ct where ct: "aead_encrypt C k (fi_nonce i) p (Some header) = Inr ct"
    using assms(1,6,7,9) unfolding aead_total_def by blast
  have "map_of ?sp ''header'' = Some (PBytes header)" "map_of ?sp ''payload'' = Some (PBytes p)"
    using g by (simp_all add: signed_fields_def)
  note e = encrypt_packet_ok [OF assms(5) ct this]
  show ?thesis using assms(2,4) b s e
    by (simp add: build_and_encrypt_def encrypt_stage_def Let_def)
qed

definition sample_telemetry :: pydict where
  "sample_telemetry = [(''Speed'', PInt 280), (''RPM'', PInt 11000), (''Throttle'', PInt 80)]"

definition sample_inputs :: frame_inputs where
  "sample_inputs = sample_frame\<lparr>fi_frame := Inr sample_telemetry\<rparr>"

definition sample_json :: pydict where
  "sample_json = [(''driver'', PStr ''UNK''), (''lap'', PInt 0), (''race'', PStr []), (''frame_index'', PInt 0),
     (''Speed'', PInt 280), (''RPM'', PInt 11000), (''Throttle'', PInt 80), (''Brake'', PInt 0), (''nGear'', PInt 0),
     (''DRS'', PInt 0)]"

definition sample_validator :: validator where
  "sample_validator = (validator_init default_validator_config)
     \<lparr>vn_sig := (sig_verifier_init ''fia_validator'')\<lparr>sv_registry := [(''mercedes_car_44'', ed_public demo_pyca [5])]\<rparr>,
      vn_engine := Some sample_engine\<rparr>"

lemma sample_json_text:
  obtains p where "build_payload sample_telemetry = Inr p" and "length p < 2 ^ 31" and "json_loads p = Inr (PDict sample_json)"
proof -
  have eq: "build_payload sample_telemetry = json_dumps_compact (PDict sample_json)"
    by (simp add: build_payload_def sample_telemetry_def sample_json_def dict_get_or_def)
  have "\<exists>p. json_dumps_compact (PDict sample_json) = Inr p \<and> length p < 200"
    by (simp add: json_dumps_compact_def sample_json_def quote_def esc_ascii_def py_encode_def int_str_def nat_str.simps)
  then obtain p where p: "json_dumps_compact (PDict sample_json) = Inr p" "length p < 200" by blast
  have "plain (PDict sample_json)" by (simp add: sample_json_def ascii_def)
  then have "json_loads p = Inr (PDict sample_json)" using p(1) by (rule json_dumps_compact_loads [rotated])
  with p show thesis by (intro that) (simp_all add: eq)
qed

lemma sample_produces: "\<exists>d c'. build_and_encrypt demo_pyca sample_inputs sample_car = (Some d, c')"
proof -
  obtain p where p: "build_payload sample_telemetry = Inr p" "length p < 2 ^ 31" by (rule sample_json_text)
  have "\<exists>pkt. fst (build sample_builder 1000 sample_telemetry) = Inr pkt"
  proof -
    have "clock_ms 1000 = 1000000" by (rule clock_ms_int) simp_all
    with p show ?thesis
      by (simp add: build_def next_sequence_def assemble_def build_header_def dict_int_def sample_builder_def
          TEAM_IDS_def SESSION_IDS_def struct_pack_def header_fits_def fits_def MAGIC_def PROTOCOL_VER_def
          PACKET_TYPE_TEL_def)
  qed
  then obtain pkt where b: "fst (build sample_builder 1000 sample_telemetry) = Inr pkt" by blast
  show ?thesis
    by (rule car_produces [OF demo_aead_total _ _ _ _ _ _ p, where packet = pkt and k = "replicate 32 7"])
      (simp_all add: sample_inputs_def sample_frame_def sample_car_def b sample_engine_key)
qed

lemma sample_ready:
  "relay_expects sample_inputs sample_car (PDict sample_json) 1000 (replicate 32 7) sample_relay"
  "validator_expects demo_pyca sample_inputs sample_car 1000 (replicate 32 7) sample_validator"
proof -
  have c: "clock_ms 1000 = 1000000" by (rule clock_ms_int) simp_all
  have "fst (anomaly_check (filter_view (PDict sample_json) ''mercedes'' ''mercedes_car_44'') sample_filter) =
      Inr new_anomaly"
    by (simp add: anomaly_check_def filter_view_def an_payload_def an_node_def get_thresholds_def get_key_def
        sample_filter_def dict_get_or_def dict_get_def CHANNELS_def check_channel_def sample_json_def
        physical_check_def PHYSICAL_LIMITS_def out_of_bounds_def py_or_def last_values_def dict_has_def dict_item_def
        py_lt_def py_gt_def py_cmp_def threshold_check_def roc_check_def report_def)
  moreover have "ic_inv (integrity_init ''relay_01'' 30000 100 True True)" by (rule ic_inv_init)
  ultimately show "relay_expects sample_inputs sample_car (PDict sample_json) 1000 (replicate 32 7) sample_relay"
    by (simp add: relay_expects_def sample_inputs_def sample_frame_def sample_car_def sample_relay_def signer_init_def
        dec_key_def ren_key_def sample_engine_key last_int_def ic_last_def integrity_init_def
        ts_too_old_def c sample_builder_def new_anomaly_def is_rejected_def)
  show "validator_expects demo_pyca sample_inputs sample_car 1000 (replicate 32 7) sample_validator"
    using sc_inv_init [of "''fia_validator''" 60000 1000 False]
    by (simp add: validator_expects_def sample_inputs_def sample_frame_def sample_car_def sample_validator_def
        signer_init_def validator_init_def default_validator_config_def sample_engine_key signer_public_def
        sc_too_old_def sample_builder_def sc_last_int_def sc_last_def seqcheck_init_def is_int_def)
qed

section \<open>The promises of the pipeline\<close>

text \<open>C8. On the wire nothing is lost: the text a car transmits for a packet it made is framed by its own
  length, reads back at the relay with every field the car's packet has (the binary ones recovered
  from hexadecimal), and the relay's validation accepts it exactly for the two teams it knows, a
  positive sequence number, a nonce of 12 bytes and a named node.\<close>

theorem wire_round_trip:
  assumes "build_and_encrypt C i c = (Some d, c')" and "ascii (sgn_node_id (car_signer c))"
  shows "\<exists>raw m. transmit_payload d = Inr raw \<and> read_json_packet raw = Inr m \<and>
    wire_frame d = (if length raw < 256 ^ 4 then Inr (be_bytes 4 (length raw) @ raw) else Inl OverflowErr) \<and>
    map (dict_get m) (TRANSMIT_FIELDS @ [''nonce_bytes'', ''ciphertext_bytes'', ''header'']) =
    map (dict_get d) (TRANSMIT_FIELDS @ [''nonce_bytes'', ''ciphertext_bytes'', ''header'']) \<and>
    (validate_json_packet m = Inr [] \<longleftrightarrow> bld_team (car_builder c) \<in> {''mercedes'', ''redbull''} \<and>
       0 \<le> bld_sequence (car_builder c) \<and> length (fi_nonce i) = 12 \<and> sgn_node_id (car_signer c) \<noteq> [])"
proof -
  obtain payload header ct raw where vals: "map (dict_get d) (TRANSMIT_FIELDS @ [''nonce_bytes'', ''ciphertext_bytes'', ''header'']) =
         map snd (car_message C i c header payload ct)"
    and raw: "transmit_payload d = Inr raw" and msg: "read_json_packet raw = Inr (car_message C i c header payload ct)"
    and ses: "map_of SESSION_IDS (bld_session (car_builder c)) \<noteq> None"
    using assms by (rule car_message_arrives)
  have "bld_session (car_builder c) \<in> {''R'', ''Q'', ''S''}"
    using ses by (auto simp: SESSION_IDS_def split: if_splits)
  then have "validate_json_packet (car_message C i c header payload ct) = Inr [] \<longleftrightarrow>
      bld_team (car_builder c) \<in> {''mercedes'', ''redbull''} \<and> 0 \<le> bld_sequence (car_builder c) \<and>
      length (fi_nonce i) = 12 \<and> sgn_node_id (car_signer c) \<noteq> []"
    unfolding car_message_def validate_received_message by auto
  moreover have "map (dict_get (car_message C i c header payload ct))
      (TRANSMIT_FIELDS @ [''nonce_bytes'', ''ciphertext_bytes'', ''header'']) = map snd (car_message C i c header payload ct)"
    by (simp add: TRANSMIT_FIELDS_def car_message_def received_message_def sent_message_def dict_get_def)
  ultimately show ?thesis using raw msg vals by (auto simp: wire_frame_def)
qed

theorem wire_round_trip_witness:
  "\<exists>d raw m. transmit_payload d = Inr raw \<and> read_json_packet raw = Inr m \<and> validate_json_packet m = Inr []"
proof -
  obtain d c' where d: "build_and_encrypt demo_pyca sample_inputs sample_car = (Some d, c')" using sample_produces by blast
  have "ascii (sgn_node_id (car_signer sample_car))" by (simp add: sample_car_def signer_init_def ascii_def)
  note w = wire_round_trip [OF d this]
  have "bld_team (car_builder sample_car) \<in> {''mercedes'', ''redbull''} \<and> 0 \<le> bld_sequence (car_builder sample_car) \<and>
    length (fi_nonce sample_inputs) = 12 \<and> sgn_node_id (car_signer sample_car) \<noteq> []"
    by (simp add: sample_car_def sample_builder_def sample_inputs_def sample_frame_def signer_init_def)
  with w show ?thesis by blast
qed



text \<open>The same run, as the instance the nodes' own theorems are applied at.\<close>

lemma sample_run:
  obtains raw out r' acc cr z v' where
    "process_packet demo_pyca 1000 (replicate 12 2) raw sample_relay = (Inr (Some out), r')"
    and "validate_packet demo_pyca sample_vin out sample_validator = (Inr (Some (acc, cr, z)), v')"
proof -
  obtain d c' where d: "build_and_encrypt demo_pyca sample_inputs sample_car = (Some d, c')" using sample_produces by blast
  obtain p where p: "build_payload sample_telemetry = Inr p" "length p < 2 ^ 31" "json_loads p = Inr (PDict sample_json)"
    by (rule sample_json_text)
  have v: "validator_expects demo_pyca sample_inputs sample_car (vi_now sample_vin) (replicate 32 7) sample_validator"
    using sample_ready(2) by (simp add: sample_vin_def)
  show thesis
  proof (rule honest_run [OF demo_aead_law demo_sig_law demo_aead_total d _ _ _ _ _ _ _ p sample_ready(1) v])
    show "length (replicate 12 2 :: bytes) = 12" by simp
  qed (simp_all add: sample_car_def signer_init_def ascii_def sample_builder_def sample_inputs_def sample_frame_def that)
qed

theorem relay_forwards_faithfully_witness:
  "\<exists>raw out r' js h. process_packet demo_pyca 1000 (replicate 12 2) raw sample_relay = (Inr (Some out), r') \<and>
     dict_get out ''header'' = PBytes h \<and> dict_get out ''nonce_bytes'' = PBytes (replicate 12 2) \<and>
     \<not> dict_has out ''anomaly_flagged''"
proof -
  obtain raw out r' where p: "process_packet demo_pyca 1000 (replicate 12 2) raw sample_relay = (Inr (Some out), r')"
    by (rule sample_run)
  have "ic_inv (rl_integrity sample_relay)" using ic_inv_init by (simp add: sample_relay_def)
  from relay_forwards_faithfully [OF demo_aead_law this p] p show ?thesis by blast
qed

theorem validator_accept_sound_witness:
  "\<exists>out acc cr z v'. validate_packet demo_pyca sample_vin out sample_validator = (Inr (Some (acc, cr, z)), v') \<and>
     cr_passed cr \<and> cm_verified z"
proof -
  obtain out acc cr z v' where p: "validate_packet demo_pyca sample_vin out sample_validator = (Inr (Some (acc, cr, z)), v')"
    by (rule sample_run)
  have "validator_inv sample_validator"
    using sc_inv_init [of "''fia_validator''" 60000 1000 False]
    by (simp add: validator_inv_def sample_validator_def validator_init_def default_validator_config_def)
  from validator_accept_sound [OF demo_aead_law this p] p show ?thesis by blast
qed

end
