(* ===== verification/SimPipeline.thy ===== *)
theory SimPipeline
  imports Pipeline
begin

text \<open>
  The evaluation pipeline that \<open>simulations/\<close> builds: car, relay and validator components in one
  process, the packets handed over as Python dicts. \<open>packet_loss_sim.py\<close>, \<open>jitter_sim.py\<close>,
  \<open>replay_attack_sim.py\<close> and \<open>tampering_sim.py\<close> each construct it, make validator-bound packets with
  it, and put these to the validator's checks. The telemetry frames of the sensor simulator, keys,
  nonces and clock readings are arguments. An exception ends a simulation, so a step that raises
  has no state after it. The lemmas show that the construction yields a pipeline whose parties share
  their keys, and what a packet made by it is to the validator's checks.
\<close>

section \<open>Construction\<close>

text \<open>The random keys and the clock of a construction.\<close>

record sim_keys =
  sk_signer :: bytes
  sk_car :: bytes
  sk_relay :: bytes
  sk_relay_val :: bytes
  sk_validator :: bytes
  sk_now :: clock

record sim_pipeline =
  sp_builder :: builder
  sp_signer :: signer
  sp_car_engine :: engine
  sp_encryptor :: encryptor
  sp_decryptor :: decryptor
  sp_reencryptor :: reencryptor
  sp_val_engine :: engine
  sp_sig :: sig_verifier
  sp_zkp :: zkp_verifier

text \<open>The state is kept only when a step returns.\<close>

definition keep :: "'a res \<times> 's \<Rightarrow> ('a \<times> 's) res" where
  "keep m = (case m of (Inl e, _) \<Rightarrow> Inl e | (Inr a, s) \<Rightarrow> Inr (a, s))"

lemma keep_simps [simp]: "keep (Inl e, s) = Inl e" "keep (Inr a, s) = Inr (a, s)"
  by (simp_all add: keep_def)

text \<open>Two new engines that complete the handshake with each other's public key.\<close>

definition cross_handshake :: "pyca \<Rightarrow> clock \<Rightarrow> string \<Rightarrow> bytes \<Rightarrow> string \<Rightarrow> bytes \<Rightarrow> (engine \<times> engine) res" where
  "cross_handshake C now na a nb b =
     (let (pa, ea) = new_session C a now (engine_init na); (pb, eb) = new_session C b now (engine_init nb)
      in rbind (keep (complete_handshake C now pb None ea)) (\<lambda>(_, ea').
         rbind (keep (complete_handshake C now pa None eb)) (\<lambda>(_, eb'). Inr (ea', eb'))))"

definition CAR_NODE :: string where "CAR_NODE = ''mercedes_car''"
definition RELAY_NODE :: string where "RELAY_NODE = ''relay_01''"

definition pipeline_with :: "pyca \<Rightarrow> sim_keys \<Rightarrow> string option \<Rightarrow> sim_pipeline res" where
  "pipeline_with C k builder_node =
     rbind (builder_init ''mercedes'' ''R'' builder_node) (\<lambda>bld.
     let sgn = signer_init CAR_NODE (sk_signer k) (sk_now k) in
     rbind (cross_handshake C (sk_now k) CAR_NODE (sk_car k) RELAY_NODE (sk_relay k)) (\<lambda>(car, rel).
     rbind (keep (register_session CAR_NODE rel (decryptor_init RELAY_NODE))) (\<lambda>(_, dec).
     rbind (cross_handshake C (sk_now k) ''relay_val'' (sk_relay_val k) ''validator'' (sk_validator k)) (\<lambda>(rv, val).
     rbind (keep (register_validator_session rv (reencryptor_init RELAY_NODE))) (\<lambda>(_, ren).
     rbind (keep (sv_register_node CAR_NODE (signer_public C sgn) (sig_verifier_init ''fia_validator''))) (\<lambda>(_, sv).
       Inr \<lparr>sp_builder = bld, sp_signer = sgn, sp_car_engine = car, sp_encryptor = encryptor_init CAR_NODE,
            sp_decryptor = dec, sp_reencryptor = ren, sp_val_engine = val, sp_sig = sv,
            sp_zkp = zkp_init ''fia_validator''\<rparr>))))))"

text \<open>The packet loss and jitter simulations name the builder's node, the attack simulations do not.\<close>

definition loss_pipeline :: "pyca \<Rightarrow> sim_keys \<Rightarrow> sim_pipeline res" where
  "loss_pipeline C k = pipeline_with C k (Some CAR_NODE)"

definition jitter_pipeline :: "pyca \<Rightarrow> sim_keys \<Rightarrow> sim_pipeline res" where
  "jitter_pipeline C k = pipeline_with C k (Some CAR_NODE)"

section \<open>Making packets\<close>

text \<open>
  What one packet takes from outside: the sensor's next frame, and the one after a reset when there
  was none; the clock, the nonce of the commitment, the nonces of the two encryptions.
\<close>

record packet_inputs =
  pi_frame :: "pydict option"
  pi_again :: "pydict option"
  pi_now :: clock
  pi_signed_at :: string
  pi_random :: bytes
  pi_nonce :: bytes
  pi_encrypted_at :: string
  pi_renonce :: bytes

text \<open>The packet at the stages of the pipeline.\<close>

record packet_stages =
  ps_signed :: pydict
  ps_encrypted :: pydict
  ps_decrypted :: pydict
  ps_reencrypted :: pydict
  ps_validator :: pydict
  ps_commitment :: "string \<times> string"

text \<open>Building from no frame fails on \<open>None.get\<close>.\<close>

definition given_frame :: "pydict option \<Rightarrow> pydict res" where
  "given_frame f = (case f of None \<Rightarrow> Inl AttributeErr | Some x \<Rightarrow> Inr x)"

definition open_reencrypted :: "pyca \<Rightarrow> pydict \<Rightarrow> engine \<Rightarrow> bytes res \<times> engine" where
  "open_reencrypted C ren e =
     (case rbind (dict_item ren ''nonce_bytes'') (\<lambda>n. rbind (dict_item ren ''ciphertext_bytes'') (\<lambda>c.
            rbind (dict_item ren ''header'') (\<lambda>h. Inr (n, c, h)))) of
        Inl x \<Rightarrow> (Inl x, e)
      | Inr (n, c, h) \<Rightarrow> decrypt_values C n c h e)"

definition validator_packet :: "pydict \<Rightarrow> bytes \<Rightarrow> string \<times> string \<Rightarrow> pydict" where
  "validator_packet ren plaintext cm =
     dict_set ''zkp_nonce'' (PStr (snd cm))
       (dict_set ''zkp_commitment'' (PStr (fst cm))
         (dict_set ''original_node'' (PStr CAR_NODE)
           (dict_set ''payload_bytes'' (PBytes plaintext) ren)))"

definition stages :: "pyca \<Rightarrow> packet_inputs \<Rightarrow> pydict option \<Rightarrow> sim_pipeline \<Rightarrow> (packet_stages \<times> sim_pipeline) res" where
  "stages C i frame p =
     rbind (given_frame frame) (\<lambda>f.
     rbind (keep (build (sp_builder p) (pi_now i) f)) (\<lambda>(pkt, bld).
     rbind (keep (sign_packet C (pi_signed_at i) pkt (sp_signer p))) (\<lambda>(sgnd, sgn).
     rbind (rbind (dict_item sgnd ''payload'') as_bytes) (\<lambda>payload.
     let cm = generate_commitment (pi_random i) payload None in
     rbind (keep (encrypt_packet C (pi_nonce i) (pi_encrypted_at i) sgnd (sp_car_engine p) (sp_encryptor p)))
       (\<lambda>(enc, car, x).
     rbind (keep (decrypt_relay C enc (sp_decryptor p))) (\<lambda>(dec, d).
     rbind (keep (reencrypt C (pi_renonce i) dec (sp_reencryptor p))) (\<lambda>(ren, r).
     rbind (keep (open_reencrypted C ren (sp_val_engine p))) (\<lambda>(plaintext, val).
       Inr (\<lparr>ps_signed = sgnd, ps_encrypted = enc, ps_decrypted = dec, ps_reencrypted = ren,
              ps_validator = validator_packet ren plaintext cm, ps_commitment = cm\<rparr>,
            p\<lparr>sp_builder := bld, sp_signer := sgn, sp_car_engine := car, sp_encryptor := x,
              sp_decryptor := d, sp_reencryptor := r, sp_val_engine := val\<rparr>)))))))))"

text \<open>The loss and jitter simulations reset the sensor when it has no frame left.\<close>

definition frame_or_reset :: "packet_inputs \<Rightarrow> pydict option" where
  "frame_or_reset i = (case pi_frame i of None \<Rightarrow> pi_again i | Some f \<Rightarrow> Some f)"

definition create_validator_packet :: "pyca \<Rightarrow> packet_inputs \<Rightarrow> sim_pipeline \<Rightarrow> (pydict \<times> sim_pipeline) res" where
  "create_validator_packet C i p =
     rbind (stages C i (frame_or_reset i) p) (\<lambda>(s, p'). Inr (ps_validator s, p'))"

section \<open>The validator's checks\<close>

record delivery =
  dl_sig_stamp :: string
  dl_now :: clock
  dl_zkp_stamp :: string

record validation =
  va_accepted :: bool
  va_signature :: bool
  va_sequence :: bool
  va_commitment :: bool
  va_warnings :: "seq_message list"
  va_errors :: "seq_message list"

text \<open>All three checks run; every exception of the signature check counts as an invalid signature.\<close>

definition run_checks :: "pyca \<Rightarrow> delivery \<Rightarrow> pydict \<Rightarrow> seqcheck \<Rightarrow> sim_pipeline \<Rightarrow> (validation \<times> seqcheck \<times> sim_pipeline) res" where
  "run_checks C d pkt chk p =
     (let (sr, sv) = sv_verify C (dl_sig_stamp d) pkt (sp_sig p);
          sig = (case sr of Inl _ \<Rightarrow> False | Inr r \<Rightarrow> dict_get r ''verified'' = PBool True)
      in rbind (keep (sequence_check chk (dl_now d) pkt)) (\<lambda>(res, chk').
         rbind (keep (zkp_verify_packet (dl_zkp_stamp d) pkt (sp_zkp p))) (\<lambda>(z, zk).
           Inr (\<lparr>va_accepted = (sig \<and> cr_passed res \<and> cm_verified z), va_signature = sig,
                  va_sequence = cr_passed res, va_commitment = cm_verified z,
                  va_warnings = cr_warnings res, va_errors = cr_errors res\<rparr>,
                chk', p\<lparr>sp_sig := sv, sp_zkp := zk\<rparr>))))"

definition new_sequence_checker :: "int \<Rightarrow> seqcheck" where
  "new_sequence_checker max_gap = seqcheck_init ''fia_validator'' SC_MAX_TIMESTAMP_AGE_MS max_gap False True"

section \<open>A pipeline whose parties share their keys\<close>

definition sim_ready :: "pyca \<Rightarrow> sim_pipeline \<Rightarrow> bool" where
  "sim_ready C p =
     (bld_team (sp_builder p) = ''mercedes'' \<and> bld_session (sp_builder p) = ''R'' \<and>
      sgn_node_id (sp_signer p) = CAR_NODE \<and>
      (\<exists>k. engine_key (sp_car_engine p) = Some k \<and> length k = 32 \<and> dec_key (sp_decryptor p) CAR_NODE = Some k) \<and>
      (\<exists>k. ren_key (sp_reencryptor p) = Some k \<and> length k = 32 \<and> engine_key (sp_val_engine p) = Some k) \<and>
      map_of (sv_registry (sp_sig p)) CAR_NODE = Some (signer_public C (sp_signer p)))"

text \<open>The two exchanges of a construction succeed, as they do unless a public key is degenerate.\<close>

definition exchanges :: "pyca \<Rightarrow> bytes \<Rightarrow> bytes \<Rightarrow> bool" where
  "exchanges C a b = (\<not> is_err (x25519_exchange C a (x25519_public C b)))"

text \<open>The key that an exchange leads to.\<close>

definition shared_key :: "pyca \<Rightarrow> bytes \<Rightarrow> bytes \<Rightarrow> bytes" where
  "shared_key C a b =
     (case x25519_exchange C a (x25519_public C b) of Inr s \<Rightarrow> hkdf_derive C None HKDF_INFO_ENC s | Inl _ \<Rightarrow> [])"

lemma cross_handshake_keys:
  assumes "dh_law C" and "exchanges C a b"
  obtains ea eb k where "cross_handshake C now na a nb b = Inr (ea, eb)" and "engine_key ea = Some k"
    and "engine_key eb = Some k" and "length k = 32" and "k = shared_key C a b"
proof -
  obtain s where s: "x25519_exchange C a (x25519_public C b) = Inr s"
    using assms(2) by (cases "x25519_exchange C a (x25519_public C b)") (auto simp: exchanges_def)
  then have s': "x25519_exchange C b (x25519_public C a) = Inr s" using assms(1) by (simp add: dh_law_def)
  have l: "length (x25519_public C x) = 32" for x using assms(1) by (simp add: dh_law_def)
  let ?k = "hkdf_derive C None HKDF_INFO_ENC s"
  let ?e = "\<lambda>n x. (engine_init n)\<lparr>eng_session := Some \<lparr>ses_node_id = eng_node_id (engine_init n), ses_private = x,
      ses_key = Some ?k, ses_created = now, ses_derived = Some now\<rparr>\<rparr>"
  have "cross_handshake C now na a nb b = Inr (?e na a, ?e nb b)"
    by (simp add: cross_handshake_def case_prod_beta Let_def complete_handshake_new [OF l] s s')
  moreover have key: "engine_key (?e n x) = Some ?k" for n x by (simp add: engine_key_def)
  moreover have "length ?k = 32" using assms(1) by (simp add: dh_law_def)
  moreover have "?k = shared_key C a b" using s by (simp add: shared_key_def)
  ultimately show thesis by (intro that [OF _ key key])
qed

lemma pipeline_with_ready:
  assumes "dh_law C" "sig_law C" and "exchanges C (sk_car k) (sk_relay k)" "exchanges C (sk_relay_val k) (sk_validator k)"
  obtains p where "pipeline_with C k node = Inr p" and "sim_ready C p" and "bld_sequence (sp_builder p) = 0"
    and "sgn_private (sp_signer p) = sk_signer k"
    and "dec_key (sp_decryptor p) CAR_NODE = Some (shared_key C (sk_car k) (sk_relay k))"
proof -
  obtain car rel k1 where h1: "cross_handshake C (sk_now k) CAR_NODE (sk_car k) RELAY_NODE (sk_relay k) = Inr (car, rel)"
    "engine_key car = Some k1" "engine_key rel = Some k1" "length k1 = 32" "k1 = shared_key C (sk_car k) (sk_relay k)"
    using assms(1,3) by (rule cross_handshake_keys)
  obtain rv val k2 where h2: "cross_handshake C (sk_now k) ''relay_val'' (sk_relay_val k) ''validator'' (sk_validator k) = Inr (rv, val)"
    "engine_key rv = Some k2" "engine_key val = Some k2" "length k2 = 32" "k2 = shared_key C (sk_relay_val k) (sk_validator k)"
    using assms(1,4) by (rule cross_handshake_keys)
  have bld: "\<exists>n. builder_init ''mercedes'' ''R'' node = Inr \<lparr>bld_team = ''mercedes'', bld_session = ''R'', bld_node_id = n,
      bld_sequence = 0, bld_packets_built = 0\<rparr>"
    by (simp add: builder_init_def lower_char_def upper_char_def TEAM_IDS_def SESSION_IDS_def dict_has_def Let_def)
  have pk: "length (signer_public C s) = 32" for s using assms(2) by (simp add: signer_public_def sig_law_def)
  show thesis
    using bld h1 h2 pk by (elim exE, intro that)
      (auto simp: pipeline_with_def register_session_def register_validator_session_def sv_register_node_def
        session_established_key PUBLIC_KEY_SIZE_def Let_def sim_ready_def dec_key_def ren_key_def signer_init_def
        decryptor_init_def reencryptor_init_def sig_verifier_init_def)
qed

section \<open>The packets it makes\<close>

text \<open>What a packet takes from outside is in order: a frame that is JSON, nonces, the clock.\<close>

definition good_inputs :: "packet_inputs \<Rightarrow> pydict option \<Rightarrow> bool" where
  "good_inputs i frame =
     (length (pi_nonce i) = 12 \<and> length (pi_renonce i) = 12 \<and> pi_random i \<noteq> [] \<and>
      0 \<le> clock_ms (pi_now i) \<and> clock_ms (pi_now i) < 2 ^ 64 \<and>
      (case frame of None \<Rightarrow> False | Some f \<Rightarrow> (case build_payload f of
          Inr p \<Rightarrow> length p < 2 ^ 31 \<and> \<not> is_err (json_loads p) | Inl _ \<Rightarrow> False)))"

text \<open>The payload of a frame, and the header of packet \<open>n\<close>.\<close>

definition frame_payload :: "pydict option \<Rightarrow> bytes" where
  "frame_payload frame = (case frame of Some f \<Rightarrow> (case build_payload f of Inr p \<Rightarrow> p | Inl _ \<Rightarrow> []) | None \<Rightarrow> [])"

definition sim_header :: "int \<Rightarrow> clock \<Rightarrow> bytes \<Rightarrow> header" where
  "sim_header n now p =
     \<lparr>h_magic = MAGIC, h_version = PROTOCOL_VER, h_team_id = the (map_of TEAM_IDS ''mercedes''),
      h_session_id = the (map_of SESSION_IDS ''R''), h_packet_type = PACKET_TYPE_TEL, h_sequence_no = n,
      h_timestamp_ms = clock_ms now, h_payload_len = int (length p), h_checksum = sha256 p, h_reserved = 0\<rparr>"

definition packed :: "header \<Rightarrow> bytes" where
  "packed hdr = (case struct_pack hdr of Inr h \<Rightarrow> h | Inl _ \<Rightarrow> [])"

lemma sim_header_of: "sim_ready C p \<Longrightarrow> car_header (sp_builder p) now pl = sim_header (bld_sequence (sp_builder p) + 1) now pl"
  by (simp add: car_header_def sim_header_def sim_ready_def)

text \<open>
  The packet the validator is given: the header that was signed with the payload, the sequence
  number, the signature, and the commitment to the payload.
\<close>

definition honest_packet :: "pyca \<Rightarrow> signer \<Rightarrow> int \<Rightarrow> pydict \<Rightarrow> bytes \<Rightarrow> bytes \<Rightarrow> bool" where
  "honest_packet C s q d h p =
     (map_of d ''original_node'' = Some (PStr CAR_NODE) \<and> map_of d ''sequence_no'' = Some (PInt q) \<and>
      (\<exists>t. map_of d ''timestamp'' = Some (PInt t)) \<and>
      map_of d ''header'' = Some (PBytes h) \<and> map_of d ''payload_bytes'' = Some (PBytes p) \<and>
      map_of d ''signature_bytes'' = Some (PBytes (ed_sign C (sgn_private s) (h @ p))) \<and> h \<noteq> [] \<and> p \<noteq> [] \<and>
      (\<exists>n. n \<noteq> [] \<and> map_of d ''zkp_commitment'' = Some (PStr (zkp_digest p n)) \<and>
         map_of d ''zkp_nonce'' = Some (PStr (to_hex n))))"

lemma build_succeeds:
  assumes "bld_team b = ''mercedes''" "bld_session b = ''R''" and "0 \<le> bld_sequence b" "bld_sequence b + 1 < 2 ^ 64"
    and "0 \<le> clock_ms now" "clock_ms now < 2 ^ 64" and "build_payload f = Inr p" "length p < 2 ^ 31"
  obtains h b' where "struct_pack (car_header b now p) = Inr h"
    and "build b now f = (Inr (built_packet b (bld_sequence b + 1) (clock_ms now) p h), b')"
    and "bld_team b' = ''mercedes''" "bld_session b' = ''R''" and "bld_sequence b' = bld_sequence b + 1"
proof -
  have f: "header_fits (car_header b now p)"
    using assms by (simp add: header_fits_def fits_def car_header_def TEAM_IDS_def SESSION_IDS_def MAGIC_def
        PROTOCOL_VER_def PACKET_TYPE_TEL_def)
  then obtain h where h: "struct_pack (car_header b now p) = Inr h" by (auto simp: struct_pack_def)
  let ?b = "b\<lparr>bld_sequence := bld_sequence b + 1, bld_packets_built := bld_packets_built b + 1\<rparr>"
  have bld: "build b now f = (Inr (built_packet b (bld_sequence b + 1) (clock_ms now) p h), ?b)"
    using assms h by (simp add: build_eq Let_def assemble_def build_header_def dict_int_def
        TEAM_IDS_def SESSION_IDS_def car_header_def built_packet_def)
  show thesis using assms by (intro that [OF h bld]) simp_all
qed

lemma struct_pack_nonempty: "struct_pack x = Inr h \<Longrightarrow> h \<noteq> []"
  using length_struct_pack [of x h] by (auto simp: HEADER_SIZE_def)

text \<open>The packet at each stage, when the parties share their keys.\<close>

lemma stages_made:
  assumes laws: "aead_law C" "aead_total C" "sig_law C" and ready: "sim_ready C p" and good: "good_inputs i frame"
    and q: "0 \<le> bld_sequence (sp_builder p)" "bld_sequence (sp_builder p) + 1 < 2 ^ 64"
  obtains s p' h pl ct k js where "stages C i frame p = Inr (s, p')" and "sim_ready C p'"
    and "bld_sequence (sp_builder p') = bld_sequence (sp_builder p) + 1" and "sp_sig p' = sp_sig p"
    and "sp_zkp p' = sp_zkp p" and "sgn_private (sp_signer p') = sgn_private (sp_signer p)"
    and "honest_packet C (sp_signer p) (bld_sequence (sp_builder p) + 1) (ps_validator s) h pl"
    and "struct_pack (car_header (sp_builder p) (pi_now i) pl) = Inr h"
    and "engine_key (sp_car_engine p) = Some k" and "aead_encrypt C k (pi_nonce i) pl (Some h) = Inr ct"
    and "ps_encrypted s = encrypted_fields (sp_encryptor p) (pi_encrypted_at i) (ps_signed s) (pi_nonce i) ct h pl"
    and "ps_decrypted s = opened_fields (sp_decryptor p) (ps_encrypted s) pl js"
    and "ps_signed s = signed_fields (sp_signer p) (pi_signed_at i) (ed_sign C (sgn_private (sp_signer p)) (h @ pl))
      (built_packet (sp_builder p) (bld_sequence (sp_builder p) + 1) (clock_ms (pi_now i)) pl h)"
    and "dec_key (sp_decryptor p') CAR_NODE = Some k" and "pl = frame_payload frame"
    and "map_of (ps_validator s) ''zkp_commitment'' = Some (PStr (zkp_digest pl (pi_random i)))"
    and "map_of (ps_validator s) ''zkp_nonce'' = Some (PStr (to_hex (pi_random i)))"
proof -
  let ?q = "bld_sequence (sp_builder p) + 1"
  obtain f pl js where frame: "frame = Some f" and pl: "build_payload f = Inr pl" "length pl < 2 ^ 31" "json_loads pl = Inr js"
    using good by (auto simp: good_inputs_def is_err_def split: option.splits sum.splits)
  obtain h b where h: "struct_pack (car_header (sp_builder p) (pi_now i) pl) = Inr h"
    and b: "build (sp_builder p) (pi_now i) f = (Inr (built_packet (sp_builder p) ?q (clock_ms (pi_now i)) pl h), b)"
    and b': "bld_team b = ''mercedes''" "bld_session b = ''R''" "bld_sequence b = ?q"
    using ready q good pl by (elim build_succeeds [of "sp_builder p" "pi_now i" f pl, rotated -1])
      (auto simp: sim_ready_def good_inputs_def)
  let ?pkt = "built_packet (sp_builder p) ?q (clock_ms (pi_now i)) pl h" and ?sig = "ed_sign C (sgn_private (sp_signer p)) (h @ pl)"
  let ?sg = "signed_fields (sp_signer p) (pi_signed_at i) ?sig ?pkt"
  have sg: "sign_packet C (pi_signed_at i) ?pkt (sp_signer p) = (Inr ?sg, (sp_signer p)\<lparr>sgn_count := sgn_count (sp_signer p) + 1\<rparr>)"
    by (simp add: sign_packet_def signed_data_def built_packet_def dict_has_def dict_get_def)
  have sgm: "map_of ?sg ''header'' = Some (PBytes h)" "map_of ?sg ''payload'' = Some (PBytes pl)"
    by (simp_all add: signed_fields_def built_packet_def)
  obtain k kv where k: "engine_key (sp_car_engine p) = Some k" "length k = 32" "dec_key (sp_decryptor p) CAR_NODE = Some k"
    and kv: "ren_key (sp_reencryptor p) = Some kv" "length kv = 32" "engine_key (sp_val_engine p) = Some kv"
    using ready by (auto simp: sim_ready_def)
  obtain ct cv where ct: "aead_encrypt C k (pi_nonce i) pl (Some h) = Inr ct" and cv: "aead_encrypt C kv (pi_renonce i) pl (Some h) = Inr cv"
    using laws(2) k(2) kv(2) good pl(2) unfolding aead_total_def good_inputs_def by blast
  let ?x = "(sp_encryptor p)\<lparr>enc_encrypted := enc_encrypted (sp_encryptor p) + 1\<rparr>"
    and ?e = "(sp_car_engine p)\<lparr>eng_encrypted := eng_encrypted (sp_car_engine p) + 1\<rparr>"
  let ?enc = "encrypted_fields (sp_encryptor p) (pi_encrypted_at i) ?sg (pi_nonce i) ct h pl"
  note enc = encrypt_packet_ok [OF k(1) ct sgm, of "pi_encrypted_at i" "sp_encryptor p"]
  have node: "sgn_node_id (sp_signer p) = CAR_NODE" using ready by (simp add: sim_ready_def)
  have em: "dict_get ?enc ''node_id'' = PStr CAR_NODE" "dict_get ?enc ''nonce_bytes'' = PBytes (pi_nonce i)"
    "dict_get ?enc ''ciphertext_bytes'' = PBytes ct" "dict_get ?enc ''header'' = PBytes h"
    by (simp_all add: encrypted_fields_def dict_get_def dict_get_or_def signed_fields_def built_packet_def node)
  have "CAR_NODE \<noteq> []" by (simp add: CAR_NODE_def)
  then obtain d where d: "decrypt_relay C ?enc (sp_decryptor p) = (Inr (opened_fields (sp_decryptor p) ?enc pl js), d)"
    using decrypt_relay_sealed [OF laws(1) ct em(1) _ k(3) em(2-4) pl(3)] by blast
  let ?dec = "opened_fields (sp_decryptor p) ?enc pl js"
  have dm: "dict_get ?dec ''payload_bytes'' = PBytes pl" "dict_get ?dec ''header'' = PBytes h"
    "dict_get_or ?dec ''signature_bytes'' (PBytes []) = PBytes ?sig" "dict_get_or ?dec ''signature'' (PStr []) = PStr (to_hex ?sig)"
    "dict_get_or ?dec ''sequence_no'' (PInt 0) = PInt ?q" "dict_get_or ?dec ''timestamp'' (PInt 0) = PInt (clock_ms (pi_now i))"
    by (simp_all add: opened_fields_def encrypted_fields_def dict_get_def dict_get_or_def signed_fields_def built_packet_def)
  have sl: "length ?sig = 64" using laws(3) by (simp add: sig_law_def)
  then have "?sig \<noteq> []" by auto
  then have cs: "carried_signature ?dec = Inr (PBytes ?sig, PStr (to_hex ?sig))"
    using dm by (simp add: carried_signature_def Let_def)
  let ?ren = "reencrypted_fields (sp_reencryptor p) ?dec (pi_renonce i) cv pl (PBytes ?sig) (PStr (to_hex ?sig))"
  obtain r where r: "reencrypt C (pi_renonce i) ?dec (sp_reencryptor p) = (Inr ?ren, r)"
    using reencrypt_ok [OF kv(1) dm(1,2) cv cs] by blast
  have "aead_decrypt C kv (pi_renonce i) cv (Some h) = Inr pl" using laws(1) cv by (simp add: aead_lawD)
  then have op: "open_reencrypted C ?ren (sp_val_engine p) =
      (Inr pl, (sp_val_engine p)\<lparr>eng_decrypted := eng_decrypted (sp_val_engine p) + 1\<rparr>)"
    using kv(3) dm(2) by (simp add: open_reencrypted_def reencrypted_fields_def dict_item_def decrypt_eq dict_get_def)
  let ?cm = "generate_commitment (pi_random i) pl None"
  let ?s = "\<lparr>ps_signed = ?sg, ps_encrypted = ?enc, ps_decrypted = ?dec, ps_reencrypted = ?ren,
      ps_validator = validator_packet ?ren pl ?cm, ps_commitment = ?cm\<rparr>"
  let ?p = "p\<lparr>sp_builder := b, sp_signer := (sp_signer p)\<lparr>sgn_count := sgn_count (sp_signer p) + 1\<rparr>, sp_car_engine := ?e,
      sp_encryptor := ?x, sp_decryptor := d, sp_reencryptor := r,
      sp_val_engine := (sp_val_engine p)\<lparr>eng_decrypted := eng_decrypted (sp_val_engine p) + 1\<rparr>\<rparr>"
  have "dict_item ?sg ''payload'' = Inr (PBytes pl)" using sgm by (simp add: dict_item_def)
  then have run: "stages C i frame p = Inr (?s, ?p)"
    using b sg enc d r op by (simp add: stages_def frame given_frame_def as_bytes_def Let_def)
  have "dec_key d CAR_NODE = Some k" "ren_key r = Some kv"
    using decrypt_relay_keys [OF d] reencrypt_keys [OF r] k kv by simp_all
  then have ready': "sim_ready C ?p" using ready b' k kv by (simp add: sim_ready_def signer_public_def)
  have hon: "honest_packet C (sp_signer p) ?q (ps_validator ?s) h pl"
    using dm struct_pack_nonempty [OF h] json_loads_nonempty [OF pl(3)] good
    by (simp add: honest_packet_def validator_packet_def reencrypted_fields_def generate_commitment_def good_inputs_def Let_def) blast
  show thesis
    by (rule that [OF run ready' _ _ _ _ hon h k(1) ct])
      (simp_all add: b' frame pl \<open>dec_key d CAR_NODE = Some k\<close> frame_payload_def validator_packet_def
        generate_commitment_def Let_def)
qed

section \<open>What the checks say of such a packet\<close>

text \<open>The newest number stays in the window of remembered ones.\<close>

lemma min_num_ints:
  assumes "xs \<noteq> []" and "\<forall>x\<in>set xs. \<exists>m. x = PInt m"
  shows "\<exists>m. min_num xs = PInt m \<and> (\<forall>n. PInt n \<in> set xs \<longrightarrow> m \<le> n)"
  using assms
proof (induction xs rule: min_num.induct)
  case (3 x y xs)
  obtain a b where ab: "x = PInt a" "y = PInt b" using "3.prems"(2) by auto
  show ?case
  proof (cases "b < a")
    case True
    then obtain m where "min_num (y # xs) = PInt m" "\<forall>n. PInt n \<in> set (y # xs) \<longrightarrow> m \<le> n"
      using "3.IH"(2) [of True] "3.prems" ab True by auto
    with True show ?thesis using ab by (auto intro!: exI [of _ m])
  next
    case False
    then obtain m where "min_num (x # xs) = PInt m" "\<forall>n. PInt n \<in> set (x # xs) \<longrightarrow> m \<le> n"
      using "3.IH"(3) [of False] "3.prems" ab False by auto
    with False show ?thesis using ab by (auto intro!: exI [of _ m])
  qed
qed auto

lemma window_keeps_newest:
  assumes "\<forall>x\<in>set seen. \<exists>m. x = PInt m \<and> m < q" and "0 < limit"
  shows "PInt q \<in> set (window_add limit (PInt q) seen)"
proof (cases "limit < length (seen @ [PInt q])")
  case True
  then obtain m where m: "PInt m \<in> set seen" using assms by (cases seen) auto
  have "\<forall>x\<in>set (seen @ [PInt q]). \<exists>m. x = PInt m" using assms(1) by auto
  then obtain n where n: "min_num (seen @ [PInt q]) = PInt n" "\<forall>k. PInt k \<in> set (seen @ [PInt q]) \<longrightarrow> n \<le> k"
    using min_num_ints [of "seen @ [PInt q]"] by auto
  have "n \<le> m" "m < q" using n(2) m assms(1) by auto
  then show ?thesis using n(1) True assms(1) by (auto simp: window_add_def Let_def)
next
  case False
  then show ?thesis by (auto simp: window_add_def Let_def)
qed

text \<open>
  The checker as these simulations run it: strict, without timestamps, one car node. What a check
  does to its last number, its counters and its memory of numbers.
\<close>

definition car_checker :: "seqcheck \<Rightarrow> bool" where
  "car_checker s = (sc_int_inv s \<and> \<not> sc_check_ts s)"

abbreviation car_last :: "seqcheck \<Rightarrow> int" where
  "car_last s \<equiv> sc_last_int s (PStr CAR_NODE)"

abbreviation car_seen :: "seqcheck \<Rightarrow> pyval list" where
  "car_seen s \<equiv> sc_seen s (PStr CAR_NODE)"

lemma new_checker [simp]:
  "car_checker (new_sequence_checker g)" "car_last (new_sequence_checker g) = 0" "sc_max_gap (new_sequence_checker g) = g"
  "sc_gaps (new_sequence_checker g) = 0" "sc_replays (new_sequence_checker g) = 0"
  using sc_int_inv_init [of "''fia_validator''" SC_MAX_TIMESTAMP_AGE_MS g False]
  by (simp_all add: car_checker_def new_sequence_checker_def)
    (simp_all add: seqcheck_init_def sc_last_int_def sc_last_def)

lemma sc_finish_seen: "sc_seen (sc_finish k seq r st) k =
    (if cr_passed r then window_add REPLAY_WINDOW seq (sc_seen st k) else sc_seen st k)"
  by (simp add: sc_finish_def sc_remember_def sc_seen_def Let_def)

definition checker_moved :: "seqcheck \<Rightarrow> int \<Rightarrow> seqcheck \<Rightarrow> bool" where
  "checker_moved s q s' =
     (car_checker s' \<and> sc_max_gap s' = sc_max_gap s \<and> car_last s' = max (car_last s) q \<and>
      sc_gaps s' = sc_gaps s + (if 0 < car_last s \<and> sc_max_gap s < q - car_last s then 1 else 0) \<and>
      sc_replays s' = sc_replays s + (if PInt q \<in> set (car_seen s) then 1 else 0) \<and>
      (if car_last s < q then PInt q \<notin> set (car_seen s) \<and> PInt q \<in> set (car_seen s') else car_seen s' = car_seen s) \<and>
      set (car_seen s') \<subseteq> insert (PInt q) (set (car_seen s)))"

lemma car_checker_step:
  assumes "car_checker s" and "sc_node d = PStr CAR_NODE" and "sc_seq d = PInt q" and "0 < q"
  obtains r s' where "sequence_check s now d = (Inr r, s')" and "cr_passed r \<longleftrightarrow> car_last s < q" and "checker_moved s q s'"
proof -
  let ?k = "PStr CAR_NODE"
  have inv: "sc_inv s" "is_int (sc_last s ?k)" "\<not> sc_check_ts s" using assms(1) by (auto simp: car_checker_def sc_int_inv_def)
  then obtain l where l: "int_of (sc_last s ?k) = Some l" by (auto simp: is_int_def)
  then have ll: "car_last s = l" by (simp add: sc_last_int_def num_int_of_int)
  have k: "norm_key (sc_node d) = ?k" by (simp add: assms(2))
  have sn: "sc_seq_num d = q" using assms(3) by (simp add: sc_seq_num_def)
  have pre: "num_int (sc_seq d) \<noteq> None" "hashable (sc_node d)" using assms(2,3) by simp_all
  let ?gap = "if 0 < l \<and> sc_max_gap s < q - l then Some (PInt (q - l)) else None"
  let ?r = "sc_result s d ?gap Fresh" and ?c = "sc_counted s now d (0 < l \<and> sc_max_gap s < q - l)"
  let ?s = "sc_finish ?k (PInt q) ?r ?c"
  have run: "sequence_check s now d = (Inr ?r, ?s)"
    using inv l unfolding sequence_check_eq [OF inv(1) pre] k assms(3) by (auto simp: Let_def)
  have pass: "cr_passed ?r \<longleftrightarrow> l < q" using assms(4) by (simp add: sc_result_passed sn k ll is_stale_def)
  obtain n where n: "sc_last_int s ?k = n" "0 \<le> n" and seen: "\<forall>x\<in>set (sc_seen s ?k). \<exists>m. x = PInt m \<and> 0 < m \<and> m \<le> n"
    using inv(1) by (rule sc_invE)
  have sc: "sc_seen ?c ?k = car_seen s"
    using sc_seen_init_node [OF inv(1), of ?k now] by (simp add: sc_counted_def Let_def k sc_seen_def)
  note cs = sequence_check_cases [OF inv(1) pre run]
  have chk: "car_checker ?s"
  proof -
    have "is_int (sc_last ?s j)" for j
      using assms(1) by (simp add: sc_finish_last car_checker_def sc_int_inv_def is_int_def)
    moreover have "sc_config ?s = sc_config s" by (simp add: sc_finish_simps)
    ultimately show ?thesis using cs(1) inv(3) by (simp add: car_checker_def sc_int_inv_def sc_config_def)
  qed
  have fresh: "PInt q \<notin> set (car_seen s)" if "l < q" using seen n ll that by fastforce
  have keeps: "PInt q \<in> set (car_seen ?s)" if "l < q"
  proof -
    have "\<forall>x\<in>set (car_seen s). \<exists>m. x = PInt m \<and> m < q" using seen n ll that by fastforce
    then have "PInt q \<in> set (window_add REPLAY_WINDOW (PInt q) (car_seen s))"
      by (rule window_keeps_newest) (simp add: REPLAY_WINDOW_def)
    then show ?thesis using that pass by (simp add: sc_finish_seen sc)
  qed
  have seen': "car_seen ?s = car_seen s" if "\<not> l < q" using that by (simp add: sc_finish_seen sc pass)
  have moves: "sc_max_gap ?s = sc_max_gap s" "car_last ?s = max (car_last s) q"
    "sc_gaps ?s = sc_gaps s + (if 0 < l \<and> sc_max_gap s < q - l then 1 else 0)"
    "sc_replays ?s = sc_replays s + (if PInt q \<in> set (car_seen s) then 1 else 0)"
    using cs(3) [of ?k] pass k sn ll
    by (auto simp: sc_accepts_def sc_finish_def Let_def sc_remember_def sc_counted_def sc_init_node_def)
  have "set (car_seen ?s) \<subseteq> insert (PInt q) (set (car_seen s))"
    using window_add_subset [of REPLAY_WINDOW "PInt q" "car_seen s"] by (auto simp: sc_finish_seen sc)
  then have mv: "checker_moved s q ?s" using chk moves fresh keeps seen' by (simp add: checker_moved_def ll)
  show thesis by (rule that [OF run _ mv]) (simp only: pass ll)
qed

text \<open>The validator's three checks on such a packet, each on its own.\<close>

lemma honest_checks:
  assumes laws: "sig_law C" and ready: "sim_ready C p" and pkt: "honest_packet C s q d h pl"
    and key: "sgn_private s = sgn_private (sp_signer p)" and chk: "car_checker chk" and q: "0 < q"
  obtains r chk' z zk where "sv_verify C stamp d (sp_sig p) =
      (Inr (verify_result (PStr CAR_NODE) stamp), (sp_sig p)\<lparr>sv_verified := sv_verified (sp_sig p) + 1\<rparr>)"
    and "sequence_check chk now d = (Inr r, chk')" and "cr_passed r \<longleftrightarrow> car_last chk < q" and "checker_moved chk q chk'"
    and "zkp_verify_packet stamp' d (sp_zkp p) = (Inr z, zk)" and "cm_verified z"
proof -
  let ?sig = "ed_sign C (sgn_private s) (h @ pl)"
  obtain t n where m: "map_of d ''original_node'' = Some (PStr CAR_NODE)" "map_of d ''sequence_no'' = Some (PInt q)"
    "map_of d ''header'' = Some (PBytes h)" "map_of d ''payload_bytes'' = Some (PBytes pl)"
    "map_of d ''signature_bytes'' = Some (PBytes ?sig)" "h \<noteq> []" "pl \<noteq> []" "n \<noteq> []"
    "map_of d ''zkp_commitment'' = Some (PStr (zkp_digest pl n))" "map_of d ''zkp_nonce'' = Some (PStr (to_hex n))"
    using pkt by (auto simp: honest_packet_def)
  have node: "CAR_NODE \<noteq> []" by (simp add: CAR_NODE_def)
  have sl: "length ?sig = 64" and ver: "ed_verify C (signer_public C (sp_signer p)) ?sig (h @ pl)"
    using laws key by (simp_all add: sig_law_def signer_public_def)
  have "sig_identity d = PStr CAR_NODE" "resolve_sig d = Inr ?sig" "resolve_data d = Inr (h @ pl)"
    using m node sl by (simp_all add: sig_identity_def resolve_sig_def resolve_data_def dict_get_def dict_get_or_def
        py_or_def SIGNATURE_SIZE_def)
  with node ver ready have sv: "sv_verify C stamp d (sp_sig p) =
      (Inr (verify_result (PStr CAR_NODE) stamp), (sp_sig p)\<lparr>sv_verified := sv_verified (sp_sig p) + 1\<rparr>)"
    by (intro sv_verify_ok) (auto simp: sim_ready_def)
  have "sc_node d = PStr CAR_NODE" "sc_seq d = PInt q"
    using m node by (simp_all add: sc_node_def sc_seq_def dict_get_def dict_get_or_def py_or_def)
  then obtain r chk' where sq: "sequence_check chk now d = (Inr r, chk')" "cr_passed r \<longleftrightarrow> car_last chk < q"
    "checker_moved chk q chk'"
    using chk q by (elim car_checker_step)
  have "to_hex n \<noteq> []" using m by (simp add: to_hex_eq_Nil)
  then obtain z zk where z: "zkp_verify_packet stamp' d (sp_zkp p) = (Inr z, zk)" "cm_verified z"
    using m by (simp add: zkp_verify_packet_def verify_commitment_def dict_get_def digest_truthy Let_def)
  show thesis by (rule that [OF sv sq z])
qed

lemma run_checks_honest:
  assumes laws: "sig_law C" and ready: "sim_ready C p" and pkt: "honest_packet C s q d h pl"
    and key: "sgn_private s = sgn_private (sp_signer p)" and chk: "car_checker chk" and q: "0 < q"
  obtains v chk' p' where "run_checks C dl d chk p = Inr (v, chk', p')" and "va_signature v" and "va_commitment v"
    and "va_sequence v \<longleftrightarrow> car_last chk < q" and "va_accepted v \<longleftrightarrow> car_last chk < q" and "checker_moved chk q chk'"
    and "sim_ready C p'" and "sp_builder p' = sp_builder p" and "sp_signer p' = sp_signer p"
proof -
  obtain r chk' z zk where sv: "sv_verify C (dl_sig_stamp dl) d (sp_sig p) =
      (Inr (verify_result (PStr CAR_NODE) (dl_sig_stamp dl)), (sp_sig p)\<lparr>sv_verified := sv_verified (sp_sig p) + 1\<rparr>)"
    and sq: "sequence_check chk (dl_now dl) d = (Inr r, chk')" "cr_passed r \<longleftrightarrow> car_last chk < q" "checker_moved chk q chk'"
    and z: "zkp_verify_packet (dl_zkp_stamp dl) d (sp_zkp p) = (Inr z, zk)" "cm_verified z"
    using assms by (rule honest_checks [where stamp = "dl_sig_stamp dl" and now = "dl_now dl" and stamp' = "dl_zkp_stamp dl"])
  let ?p = "p\<lparr>sp_sig := (sp_sig p)\<lparr>sv_verified := sv_verified (sp_sig p) + 1\<rparr>, sp_zkp := zk\<rparr>"
    and ?v = "\<lparr>va_accepted = cr_passed r, va_signature = True, va_sequence = cr_passed r, va_commitment = True,
      va_warnings = cr_warnings r, va_errors = cr_errors r\<rparr>"
  have run: "run_checks C dl d chk p = Inr (?v, chk', ?p)"
    using sv sq(1) z by (simp add: run_checks_def verify_result_def dict_get_def)
  have "sim_ready C ?p" using ready by (simp add: sim_ready_def)
  then show thesis using sq(2,3) by (intro that [OF run]) simp_all
qed

section \<open>One packet made and checked\<close>

text \<open>What the simulations rely on of the cryptography.\<close>

definition sim_laws :: "pyca \<Rightarrow> bool" where
  "sim_laws C = (aead_law C \<and> aead_total C \<and> sig_law C)"

text \<open>The next number of the pipeline, when it still fits into the header.\<close>

abbreviation sim_seq :: "sim_pipeline \<Rightarrow> int" where
  "sim_seq p \<equiv> bld_sequence (sp_builder p)"

lemma create_honest:
  assumes "sim_laws C" and "sim_ready C p" and "good_inputs i (frame_or_reset i)" and "0 \<le> sim_seq p" "sim_seq p + 1 < 2 ^ 64"
  obtains pkt p' h pl where "create_validator_packet C i p = Inr (pkt, p')" and "sim_ready C p'"
    and "sim_seq p' = sim_seq p + 1" and "honest_packet C (sp_signer p) (sim_seq p + 1) pkt h pl"
    and "sgn_private (sp_signer p') = sgn_private (sp_signer p)"
proof -
  have laws: "aead_law C" "aead_total C" "sig_law C" using assms(1) by (simp_all add: sim_laws_def)
  obtain s p' h pl where run: "stages C i (frame_or_reset i) p = Inr (s, p')" and made: "sim_ready C p'" "sim_seq p' = sim_seq p + 1"
    "honest_packet C (sp_signer p) (sim_seq p + 1) (ps_validator s) h pl" "sgn_private (sp_signer p') = sgn_private (sp_signer p)"
    using laws assms(2-) by (rule stages_made)
  have "create_validator_packet C i p = Inr (ps_validator s, p')" using run by (simp add: create_validator_packet_def)
  then show thesis using made by (rule that)
qed

text \<open>What a simulation starts from: the laws, and two key exchanges that succeed.\<close>

definition sim_world :: "pyca \<Rightarrow> sim_keys \<Rightarrow> bool" where
  "sim_world C k =
     (dh_law C \<and> sim_laws C \<and> exchanges C (sk_car k) (sk_relay k) \<and> exchanges C (sk_relay_val k) (sk_validator k))"

lemma sim_worldE:
  assumes "sim_world C k"
  obtains p where "pipeline_with C k node = Inr p" and "sim_ready C p" and "sim_seq p = 0"
    and "sgn_private (sp_signer p) = sk_signer k"
    and "dec_key (sp_decryptor p) CAR_NODE = Some (shared_key C (sk_car k) (sk_relay k))"
  using assms pipeline_with_ready [of C k node] by (auto simp: sim_world_def sim_laws_def)

text \<open>A concrete world and concrete inputs.\<close>

definition sample_keys :: sim_keys where
  "sample_keys = \<lparr>sk_signer = [5], sk_car = [1], sk_relay = [2], sk_relay_val = [3], sk_validator = [4], sk_now = 1000\<rparr>"

definition sample_packet_inputs :: packet_inputs where
  "sample_packet_inputs = \<lparr>pi_frame = Some sample_telemetry, pi_again = None, pi_now = 1000, pi_signed_at = [],
     pi_random = [9], pi_nonce = replicate 12 1, pi_encrypted_at = [], pi_renonce = replicate 12 2\<rparr>"

definition sample_delivery :: delivery where
  "sample_delivery = \<lparr>dl_sig_stamp = [], dl_now = 1000, dl_zkp_stamp = []\<rparr>"

lemma sample_world: "sim_world demo_pyca sample_keys"
  by (simp add: sim_world_def sim_laws_def demo_dh_law demo_aead_law demo_aead_total demo_sig_law exchanges_def)
    (simp add: demo_pyca_def)

lemma sample_good: "good_inputs sample_packet_inputs (Some sample_telemetry)"
proof -
  obtain p where "build_payload sample_telemetry = Inr p" "length p < 2 ^ 31" "json_loads p = Inr (PDict sample_json)"
    by (rule sample_json_text)
  moreover have "clock_ms 1000 = 1000000" by (rule clock_ms_int) simp_all
  ultimately show ?thesis by (simp add: good_inputs_def sample_packet_inputs_def)
qed

lemma sample_frame_taken: "frame_or_reset sample_packet_inputs = Some sample_telemetry"
  by (simp add: frame_or_reset_def sample_packet_inputs_def)

end
