(* ===== verification/LossScenarios.thy ===== *)
theory LossScenarios
  imports SimPipeline
begin

text \<open>
  \<open>simulations/packet_loss_sim.py\<close>: packets made by the evaluation pipeline are lost on the way to the
  validator's checks, at random, in a burst, at fixed positions, or for a whole phase, and delivered
  twice. The lemma \<open>loss_run_honest\<close> follows any pattern of losses once; the theorems read off what
  each scenario reports. The values \<open>random.random()\<close> draws, what a packet takes from outside and the
  clock are arguments, indexed by scenario round and packet.
\<close>

section \<open>Results\<close>

datatype loss_setting =
    RandomLoss pyfloat int
  | BurstLoss int int
  | SelectiveLoss "int list" int
  | HighLoad pyfloat int pyfloat pyfloat pyfloat

record loss_result =
  lr_generated :: int
  lr_transmitted :: int
  lr_dropped :: int
  lr_accepted :: int
  lr_rejected :: int
  lr_loss_rate :: pyfloat
  lr_gaps :: int
  lr_replays :: int
  lr_sig_failures :: int
  lr_commit_failures :: int

definition base_result :: loss_result where
  "base_result =
     \<lparr>lr_generated = 0, lr_transmitted = 0, lr_dropped = 0, lr_accepted = 0, lr_rejected = 0,
      lr_loss_rate = FFin 0, lr_gaps = 0, lr_replays = 0, lr_sig_failures = 0, lr_commit_failures = 0\<rparr>"

text \<open>The quotient of two integers, as a float.\<close>

definition int_ratio :: "int \<Rightarrow> int \<Rightarrow> pyfloat" where
  "int_ratio a b = fl (of_int a / of_int b)"

definition loss_rate :: "int \<Rightarrow> int \<Rightarrow> pyfloat" where
  "loss_rate lost sent = (let total = lost + sent in if total = 0 then FFin 0 else int_ratio lost total)"

section \<open>Deliveries with losses\<close>

definition count_validation :: "validation \<Rightarrow> loss_result \<Rightarrow> loss_result" where
  "count_validation v r =
     (let r1 = (if va_accepted v then r\<lparr>lr_accepted := lr_accepted r + 1\<rparr> else r\<lparr>lr_rejected := lr_rejected r + 1\<rparr>);
          r2 = (if va_signature v then r1 else r1\<lparr>lr_sig_failures := lr_sig_failures r1 + 1\<rparr>)
      in if va_commitment v then r2 else r2\<lparr>lr_commit_failures := lr_commit_failures r2 + 1\<rparr>)"

type_synonym loss_state = "seqcheck \<times> sim_pipeline \<times> loss_result"

text \<open>The body of the loops: the packet is made in any case, and dropped or delivered.\<close>

definition loss_step :: "pyca \<Rightarrow> bool \<Rightarrow> packet_inputs \<Rightarrow> delivery \<Rightarrow> loss_state \<Rightarrow> loss_state res" where
  "loss_step C lost i dl s =
     (case s of (chk, p, r) \<Rightarrow>
        rbind (create_validator_packet C i p) (\<lambda>(pkt, p1).
          let r1 = r\<lparr>lr_generated := lr_generated r + 1\<rparr>
          in if lost then Inr (chk, p1, r1\<lparr>lr_dropped := lr_dropped r1 + 1\<rparr>)
             else let r2 = r1\<lparr>lr_transmitted := lr_transmitted r1 + 1\<rparr>
                  in rbind (run_checks C dl pkt chk p1) (\<lambda>(v, chk', p2). Inr (chk', p2, count_validation v r2))))"

fun loss_run :: "pyca \<Rightarrow> (bool \<times> packet_inputs \<times> delivery) list \<Rightarrow> loss_state \<Rightarrow> loss_state res" where
  "loss_run C [] s = Inr s"
| "loss_run C ((lost, i, dl) # xs) s = rbind (loss_step C lost i dl s) (loss_run C xs)"

definition finish_result :: "loss_state \<Rightarrow> loss_result \<times> sim_pipeline" where
  "finish_result s =
     (case s of (chk, p, r) \<Rightarrow>
        (r\<lparr>lr_loss_rate := loss_rate (lr_dropped r) (lr_transmitted r), lr_gaps := sc_gaps chk,
           lr_replays := sc_replays chk\<rparr>, p))"

text \<open>One run of a scenario: a fresh checker, \<open>n\<close> packets, and the results.\<close>

type_synonym outside = "nat \<Rightarrow> packet_inputs \<times> delivery"

definition lossy_round :: "pyca \<Rightarrow> int \<Rightarrow> nat \<Rightarrow> (nat \<Rightarrow> bool) \<Rightarrow> outside \<Rightarrow> sim_pipeline \<Rightarrow> (loss_result \<times> sim_pipeline) res" where
  "lossy_round C max_gap n lost ext p =
     rbind (loss_run C (map (\<lambda>k. (lost k, ext k)) [0..<n]) (new_sequence_checker max_gap, p, base_result))
       (\<lambda>s. Inr (finish_result s))"

section \<open>The scenarios\<close>

definition LOSS_RATES :: "pyfloat list" where
  "LOSS_RATES = [FFin 0, fl (1 / 100), fl (5 / 100), fl (10 / 100), fl (20 / 100)]"

fun random_rounds ::
  "pyca \<Rightarrow> nat \<Rightarrow> (pyfloat \<times> (nat \<Rightarrow> pyfloat) \<times> outside) list \<Rightarrow> sim_pipeline \<Rightarrow>
   ((loss_setting \<times> loss_result) list \<times> sim_pipeline) res" where
  "random_rounds C n [] p = Inr ([], p)"
| "random_rounds C n ((rate, random, ext) # rs) p =
     rbind (lossy_round C 1000 n (\<lambda>k. fless (random k) rate) ext p) (\<lambda>(r, p1).
       rbind (random_rounds C n rs p1) (\<lambda>(out, p2). Inr ((RandomLoss rate (int n), r) # out, p2)))"

definition scenario_random_loss ::
  "pyca \<Rightarrow> nat \<Rightarrow> (nat \<Rightarrow> nat \<Rightarrow> pyfloat) \<Rightarrow> (nat \<Rightarrow> outside) \<Rightarrow> sim_pipeline \<Rightarrow>
   ((loss_setting \<times> loss_result) list \<times> sim_pipeline) res" where
  "scenario_random_loss C n random ext p =
     random_rounds C n (map (\<lambda>j. (LOSS_RATES ! j, random j, ext j)) [0..<length LOSS_RATES]) p"

fun burst_rounds ::
  "pyca \<Rightarrow> nat \<Rightarrow> (nat \<times> outside) list \<Rightarrow> sim_pipeline \<Rightarrow> ((loss_setting \<times> loss_result) list \<times> sim_pipeline) res" where
  "burst_rounds C n [] p = Inr ([], p)"
| "burst_rounds C n ((b, ext) # bs) p =
     rbind (lossy_round C 1 n (\<lambda>k. 30 \<le> k \<and> k < 30 + b) ext p) (\<lambda>(r, p1).
       rbind (burst_rounds C n bs p1) (\<lambda>(out, p2). Inr ((BurstLoss (int b) (int n), r) # out, p2)))"

definition scenario_burst_loss ::
  "pyca \<Rightarrow> nat \<Rightarrow> (nat \<Rightarrow> outside) \<Rightarrow> sim_pipeline \<Rightarrow> ((loss_setting \<times> loss_result) list \<times> sim_pipeline) res" where
  "scenario_burst_loss C n ext p = burst_rounds C n [(3, ext 0), (5, ext 1), (10, ext 2)] p"

definition DROP_POSITIONS :: "nat list" where
  "DROP_POSITIONS = [10, 25, 40, 55, 70, 75, 85, 95]"

definition scenario_selective_loss ::
  "pyca \<Rightarrow> nat \<Rightarrow> outside \<Rightarrow> sim_pipeline \<Rightarrow> ((loss_setting \<times> loss_result) \<times> sim_pipeline) res" where
  "scenario_selective_loss C n ext p =
     rbind (lossy_round C 1 n (\<lambda>k. k \<in> set DROP_POSITIONS) ext p) (\<lambda>(r, p1).
       Inr ((SelectiveLoss (map int DROP_POSITIONS) (int n), r), p1))"

text \<open>A count per second, for a positive time.\<close>

definition per_second :: "int \<Rightarrow> pyfloat \<Rightarrow> pyfloat" where
  "per_second n secs =
     (case secs of FFin t \<Rightarrow> (if 0 < t then fl (of_int n / t) else FFin 0) | _ \<Rightarrow> FFin 0)"

definition scenario_high_load ::
  "pyca \<Rightarrow> nat \<Rightarrow> pyfloat \<Rightarrow> (nat \<Rightarrow> pyfloat) \<Rightarrow> outside \<Rightarrow> pyfloat \<Rightarrow> sim_pipeline \<Rightarrow>
   ((loss_setting \<times> loss_result) \<times> sim_pipeline) res" where
  "scenario_high_load C n rate random ext secs p =
     rbind (lossy_round C 1000 n (\<lambda>k. fless (random k) rate) ext p) (\<lambda>(r, p1).
       Inr ((HighLoad rate (int n) secs (per_second (lr_generated r) secs)
               (per_second (lr_transmitted r) secs), r), p1))"

text \<open>Phases of normal traffic, complete loss and recovery.\<close>

record phase_result =
  ph_generated :: int
  ph_transmitted :: int
  ph_dropped :: int
  ph_accepted :: int

record recovery_result =
  rr_phase_packets :: int
  rr_normal :: phase_result
  rr_loss :: phase_result
  rr_recovery :: phase_result
  rr_time_ms :: "pyfloat option"
  rr_successful :: bool
  rr_gaps :: int

definition no_packets :: phase_result where
  "no_packets = \<lparr>ph_generated = 0, ph_transmitted = 0, ph_dropped = 0, ph_accepted = 0\<rparr>"

text \<open>A phase in which every packet is delivered; the packets accepted are marked.\<close>

fun delivery_phase ::
  "pyca \<Rightarrow> (packet_inputs \<times> delivery) list \<Rightarrow> seqcheck \<times> sim_pipeline \<times> phase_result \<Rightarrow>
   (bool list \<times> seqcheck \<times> sim_pipeline \<times> phase_result) res" where
  "delivery_phase C [] s = Inr ([], s)"
| "delivery_phase C ((i, dl) # xs) (chk, p, r) =
     rbind (create_validator_packet C i p) (\<lambda>(pkt, p1).
     rbind (run_checks C dl pkt chk p1) (\<lambda>(v, chk', p2).
       let r1 = r\<lparr>ph_generated := ph_generated r + 1, ph_transmitted := ph_transmitted r + 1\<rparr>;
           r2 = (if va_accepted v then r1\<lparr>ph_accepted := ph_accepted r1 + 1\<rparr> else r1)
       in rbind (delivery_phase C xs (chk', p2, r2)) (\<lambda>(oks, s'). Inr (va_accepted v # oks, s'))))"

fun loss_phase :: "pyca \<Rightarrow> packet_inputs list \<Rightarrow> sim_pipeline \<times> phase_result \<Rightarrow> (sim_pipeline \<times> phase_result) res" where
  "loss_phase C [] s = Inr s"
| "loss_phase C (i # is) (p, r) =
     rbind (create_validator_packet C i p) (\<lambda>(_, p1).
       loss_phase C is (p1, r\<lparr>ph_generated := ph_generated r + 1, ph_dropped := ph_dropped r + 1\<rparr>))"

text \<open>The recovery time is read when the first packet of the last phase is accepted.\<close>

definition first_accepted :: "bool list \<Rightarrow> nat option" where
  "first_accepted oks = (if True \<in> set oks then Some (length (takeWhile (\<lambda>b. \<not> b) oks)) else None)"

definition scenario_recovery ::
  "pyca \<Rightarrow> nat \<Rightarrow> (nat \<Rightarrow> outside) \<Rightarrow> (nat \<Rightarrow> pyfloat) \<Rightarrow> sim_pipeline \<Rightarrow> (recovery_result \<times> sim_pipeline) res" where
  "scenario_recovery C n ext ms p =
     rbind (delivery_phase C (map (ext 0) [0..<n]) (new_sequence_checker 1000, p, no_packets)) (\<lambda>(_, chk1, p1, normal).
     rbind (loss_phase C (map (\<lambda>k. fst (ext 1 k)) [0..<n]) (p1, no_packets)) (\<lambda>(p2, loss).
     rbind (delivery_phase C (map (ext 2) [0..<n]) (chk1, p2, no_packets)) (\<lambda>(oks, chk2, p3, recovery).
       Inr (\<lparr>rr_phase_packets = int n, rr_normal = normal, rr_loss = loss, rr_recovery = recovery,
              rr_time_ms = map_option ms (first_accepted oks), rr_successful = (first_accepted oks \<noteq> None),
              rr_gaps = sc_gaps chk2\<rparr>, p3))))"

text \<open>Selected packets are delivered a second time, right after the first.\<close>

record duplicate_result =
  du_packet_count :: int
  du_duplicate_count :: int
  du_generated :: int
  du_original_transmitted :: int
  du_duplicate_transmitted :: int
  du_original_accepted :: int
  du_original_rejected :: int
  du_duplicates_accepted :: int
  du_duplicates_rejected :: int
  du_replays :: int
  du_gaps :: int
  du_rejection_rate :: pyfloat
  du_successful :: bool

definition count_original :: "validation \<Rightarrow> duplicate_result \<Rightarrow> duplicate_result" where
  "count_original v r =
     (let r1 = r\<lparr>du_original_transmitted := du_original_transmitted r + 1\<rparr>
      in if va_accepted v then r1\<lparr>du_original_accepted := du_original_accepted r1 + 1\<rparr>
         else r1\<lparr>du_original_rejected := du_original_rejected r1 + 1\<rparr>)"

definition count_duplicate :: "validation \<Rightarrow> duplicate_result \<Rightarrow> duplicate_result" where
  "count_duplicate v r =
     (let r1 = r\<lparr>du_duplicate_transmitted := du_duplicate_transmitted r + 1\<rparr>
      in if va_accepted v then r1\<lparr>du_duplicates_accepted := du_duplicates_accepted r1 + 1\<rparr>
         else r1\<lparr>du_duplicates_rejected := du_duplicates_rejected r1 + 1\<rparr>)"

text \<open>Per packet: whether it is delivered twice, its inputs, and the two deliveries.\<close>

fun duplicate_run ::
  "pyca \<Rightarrow> (bool \<times> packet_inputs \<times> delivery \<times> delivery) list \<Rightarrow> seqcheck \<times> sim_pipeline \<times> duplicate_result \<Rightarrow>
   (seqcheck \<times> sim_pipeline \<times> duplicate_result) res" where
  "duplicate_run C [] s = Inr s"
| "duplicate_run C ((twice, i, dl, dl2) # xs) (chk, p, r) =
     rbind (create_validator_packet C i p) (\<lambda>(pkt, p1).
     rbind (run_checks C dl pkt chk p1) (\<lambda>(v, chk1, p2).
       let r1 = count_original v r
       in if twice
          then rbind (run_checks C dl2 pkt chk1 p2) (\<lambda>(v2, chk2, p3).
                 duplicate_run C xs (chk2, p3, count_duplicate v2 r1))
          else duplicate_run C xs (chk1, p2, r1)))"

definition DUPLICATE_POSITIONS :: "nat list" where
  "DUPLICATE_POSITIONS = [10, 20, 30, 40, 50, 60, 70, 80, 90, 95]"

definition duplicate_positions :: "nat \<Rightarrow> nat \<Rightarrow> nat list" where
  "duplicate_positions n wanted =
     (let pos = filter (\<lambda>k. k < n) DUPLICATE_POSITIONS in if wanted < length pos then take wanted pos else pos)"

definition no_duplicates :: "nat \<Rightarrow> nat \<Rightarrow> duplicate_result" where
  "no_duplicates n dups =
     \<lparr>du_packet_count = int n, du_duplicate_count = int dups, du_generated = int n, du_original_transmitted = 0,
      du_duplicate_transmitted = 0, du_original_accepted = 0, du_original_rejected = 0, du_duplicates_accepted = 0,
      du_duplicates_rejected = 0, du_replays = 0, du_gaps = 0, du_rejection_rate = FFin 0, du_successful = False\<rparr>"

definition finish_duplicates :: "seqcheck \<Rightarrow> duplicate_result \<Rightarrow> duplicate_result" where
  "finish_duplicates chk r =
     (let total = du_duplicate_transmitted r;
          r1 = r\<lparr>du_replays := sc_replays chk, du_gaps := sc_gaps chk\<rparr>;
          r2 = (if 0 < total then r1\<lparr>du_rejection_rate := int_ratio (du_duplicates_rejected r1) total\<rparr> else r1)
      in r2\<lparr>du_successful := (0 < total \<and> du_duplicates_accepted r2 = 0 \<and> du_duplicates_rejected r2 = total)\<rparr>)"

definition scenario_duplicate_packets ::
  "pyca \<Rightarrow> nat \<Rightarrow> nat \<Rightarrow> outside \<Rightarrow> (nat \<Rightarrow> delivery) \<Rightarrow> sim_pipeline \<Rightarrow> (duplicate_result \<times> sim_pipeline) res" where
  "scenario_duplicate_packets C n wanted ext again p =
     (let pos = duplicate_positions n wanted
      in rbind (duplicate_run C (map (\<lambda>k. (k \<in> set pos, fst (ext k), snd (ext k), again k)) [0..<n])
                 (new_sequence_checker 1000, p, no_duplicates n (length pos))) (\<lambda>(chk, p', r).
           Inr (finish_duplicates chk r, p')))"

section \<open>What losses do\<close>

text \<open>
  The sequence gaps a checker reports when the packets numbered from \<open>q + 1\<close> on are lost or delivered
  as given, the last one it accepted being \<open>l\<close>; and the last one it accepts.
\<close>

fun gap_count :: "int \<Rightarrow> int \<Rightarrow> int \<Rightarrow> bool list \<Rightarrow> int" where
  "gap_count g l q [] = 0"
| "gap_count g l q (lost # ds) =
     (if lost then gap_count g l (q + 1) ds
      else (if 0 < l \<and> g < q + 1 - l then 1 else 0) + gap_count g (q + 1) (q + 1) ds)"

fun last_delivered :: "int \<Rightarrow> int \<Rightarrow> bool list \<Rightarrow> int" where
  "last_delivered l q [] = l"
| "last_delivered l q (lost # ds) = last_delivered (if lost then l else q + 1) (q + 1) ds"

abbreviation delivered :: "bool list \<Rightarrow> int" where
  "delivered ds \<equiv> int (length (filter Not ds))"

abbreviation losses :: "bool list \<Rightarrow> int" where
  "losses ds \<equiv> int (length (filter id ds))"

definition after_losses :: "bool list \<Rightarrow> loss_result \<Rightarrow> loss_result" where
  "after_losses ds r =
     r\<lparr>lr_generated := lr_generated r + int (length ds), lr_transmitted := lr_transmitted r + delivered ds,
       lr_dropped := lr_dropped r + losses ds, lr_accepted := lr_accepted r + delivered ds\<rparr>"

lemma loss_run_honest:
  assumes "sim_laws C" and "sim_ready C p" and "car_checker chk" and "\<forall>(d, i, dl)\<in>set xs. good_inputs i (frame_or_reset i)"
    and "0 \<le> car_last chk" "car_last chk \<le> sim_seq p" "sim_seq p + int (length xs) < 2 ^ 64"
  shows "\<exists>chk' p'. loss_run C xs (chk, p, r) = Inr (chk', p', after_losses (map fst xs) r) \<and> sim_ready C p' \<and>
    sim_seq p' = sim_seq p + int (length xs) \<and> car_checker chk' \<and> sc_max_gap chk' = sc_max_gap chk \<and>
    sc_gaps chk' = sc_gaps chk + gap_count (sc_max_gap chk) (car_last chk) (sim_seq p) (map fst xs) \<and>
    sc_replays chk' = sc_replays chk \<and> car_last chk' = last_delivered (car_last chk) (sim_seq p) (map fst xs)"
  using assms(2-)
proof (induction xs arbitrary: chk p r)
  case (Cons x xs)
  obtain lost i dl where x: "x = (lost, i, dl)" by (cases x)
  have good: "good_inputs i (frame_or_reset i)" and q: "0 \<le> sim_seq p" "sim_seq p + 1 < 2 ^ 64"
    using Cons.prems x by auto
  obtain pkt p1 h pl where mk: "create_validator_packet C i p = Inr (pkt, p1)" "sim_ready C p1" "sim_seq p1 = sim_seq p + 1"
    and pkt: "honest_packet C (sp_signer p) (sim_seq p + 1) pkt h pl" "sgn_private (sp_signer p1) = sgn_private (sp_signer p)"
    using assms(1) Cons.prems(1) good q by (rule create_honest)
  show ?case
  proof (cases lost)
    case True
    show ?thesis
      using Cons.IH [of p1 chk "after_losses [True] r"] mk Cons.prems x True
      by (simp add: loss_step_def after_losses_def algebra_simps)
  next
    case False
    obtain v chk1 p2 where v: "run_checks C dl pkt chk p1 = Inr (v, chk1, p2)" "va_signature v" "va_commitment v" "va_accepted v"
      and moved: "checker_moved chk (sim_seq p + 1) chk1" and p2: "sim_ready C p2" "sp_builder p2 = sp_builder p1"
    proof (rule run_checks_honest [OF _ mk(2) pkt(1) _ Cons.prems(2)])
      show "sig_law C" "0 < sim_seq p + 1" using assms(1) q by (simp_all add: sim_laws_def)
      show "sgn_private (sp_signer p) = sgn_private (sp_signer p1)" using pkt(2) ..
    qed (use q Cons.prems(5) in auto)
    have step: "loss_step C lost i dl (chk, p, r) = Inr (chk1, p2, after_losses [False] r)"
      using mk v False by (simp add: loss_step_def count_validation_def after_losses_def)
    show ?thesis
      using Cons.IH [of p2 chk1 "after_losses [False] r"] moved mk p2 Cons.prems x False step
      by (auto simp: checker_moved_def after_losses_def algebra_simps)
  qed
qed (simp add: after_losses_def)

text \<open>A round of a scenario, from a fresh checker.\<close>

definition lossy_outcome :: "bool list \<Rightarrow> int \<Rightarrow> loss_result" where
  "lossy_outcome ds gaps =
     \<lparr>lr_generated = int (length ds), lr_transmitted = delivered ds, lr_dropped = losses ds, lr_accepted = delivered ds,
      lr_rejected = 0, lr_loss_rate = loss_rate (losses ds) (delivered ds), lr_gaps = gaps, lr_replays = 0,
      lr_sig_failures = 0, lr_commit_failures = 0\<rparr>"

definition good_outside :: "nat \<Rightarrow> outside \<Rightarrow> bool" where
  "good_outside n ext = (\<forall>k<n. good_inputs (fst (ext k)) (frame_or_reset (fst (ext k))))"

lemma lossy_round_honest:
  assumes "sim_laws C" and "sim_ready C p" and "good_outside n ext" and "0 \<le> sim_seq p" "sim_seq p + int n < 2 ^ 64"
  obtains p' where "lossy_round C g n lost ext p =
      Inr (lossy_outcome (map lost [0..<n]) (gap_count g 0 (sim_seq p) (map lost [0..<n])), p')"
    and "sim_ready C p'" and "sim_seq p' = sim_seq p + int n"
proof -
  let ?xs = "map (\<lambda>k. (lost k, ext k)) [0..<n]"
  have good: "\<forall>(d, i, dl)\<in>set ?xs. good_inputs i (frame_or_reset i)"
    using assms(3) by (auto simp: good_outside_def)
  have fs: "map fst ?xs = map lost [0..<n]" by simp
  obtain chk' p' where run: "loss_run C ?xs (new_sequence_checker g, p, base_result) =
      Inr (chk', p', after_losses (map lost [0..<n]) base_result)" and p': "sim_ready C p'" "sim_seq p' = sim_seq p + int n"
    and chk: "sc_gaps chk' = gap_count g 0 (sim_seq p) (map lost [0..<n])" "sc_replays chk' = 0"
    using loss_run_honest [OF assms(1,2) new_checker(1) good, of g base_result, unfolded fs] assms(4,5) by auto
  have "lossy_round C g n lost ext p =
      Inr (lossy_outcome (map lost [0..<n]) (gap_count g 0 (sim_seq p) (map lost [0..<n])), p')"
    unfolding lossy_round_def run rbind_simps
    by (simp add: finish_result_def chk lossy_outcome_def after_losses_def base_result_def)
  then show thesis using p' by (rule that)
qed

text \<open>A run of losses between deliveries is one gap if it is as long as the limit.\<close>

lemma gap_count_deliveries:
  "1 \<le> g \<Longrightarrow> gap_count g q q (replicate n False @ ds) = gap_count g (q + int n) (q + int n) ds"
  by (induction n arbitrary: q) (simp_all add: algebra_simps)

lemma gap_count_first: "1 \<le> g \<Longrightarrow> 0 \<le> q \<Longrightarrow> gap_count g 0 q (replicate (Suc n) False @ ds) =
    gap_count g (q + int (Suc n)) (q + int (Suc n)) ds"
  using gap_count_deliveries [of g "q + 1" n ds] by (simp add: algebra_simps)

lemma gap_count_losses: "gap_count g l q (replicate b True @ ds) = gap_count g l (q + int b) ds"
  by (induction b arbitrary: q) (simp_all add: algebra_simps)

lemma gap_count_burst:
  assumes "1 \<le> g" "0 \<le> q" "0 < a"
  shows "gap_count g 0 q (replicate a False @ replicate b True @ replicate c False) =
    (if g \<le> int b \<and> 0 < c then 1 else 0)"
proof -
  obtain a' where a: "a = Suc a'" using assms(3) by (cases a) auto
  have "gap_count g 0 q (replicate a False @ replicate b True @ replicate c False) =
      gap_count g (q + int a) (q + int a + int b) (replicate c False)"
    using assms by (simp only: a gap_count_first gap_count_losses)
  also have "\<dots> = (if g \<le> int b \<and> 0 < c then 1 else 0)"
  proof (cases c)
    case (Suc c')
    have "gap_count g (q + int a + int b + 1) (q + int a + int b + 1) (replicate c' False @ []) = 0"
      using assms by (simp only: gap_count_deliveries gap_count.simps)
    then show ?thesis using Suc assms a by auto
  qed simp
  finally show ?thesis .
qed

lemma burst_pattern:
  assumes "a + b \<le> n"
  shows "map (\<lambda>k. a \<le> k \<and> k < a + b) [0..<n] = replicate a False @ replicate b True @ replicate (n - a - b) False"
  using assms by (intro nth_equalityI) (auto simp: nth_append)

definition burst_result :: "nat \<Rightarrow> nat \<Rightarrow> loss_result" where
  "burst_result n b =
     \<lparr>lr_generated = int n, lr_transmitted = int n - int b, lr_dropped = int b, lr_accepted = int n - int b, lr_rejected = 0,
      lr_loss_rate = loss_rate (int b) (int n - int b), lr_gaps = 1, lr_replays = 0, lr_sig_failures = 0, lr_commit_failures = 0\<rparr>"

lemma burst_outcome:
  assumes "30 + b < n" "0 \<le> q" "0 < b"
  shows "lossy_outcome (map (\<lambda>k. 30 \<le> k \<and> k < 30 + b) [0..<n]) (gap_count 1 0 q (map (\<lambda>k. 30 \<le> k \<and> k < 30 + b) [0..<n])) =
    burst_result n b"
proof -
  have "30 + b \<le> n" using assms(1) by simp
  note pat = burst_pattern [OF this]
  show ?thesis
    using assms unfolding pat gap_count_burst [of 1 q 30 b, OF order_refl assms(2) zero_less_numeral]
    by (simp add: lossy_outcome_def burst_result_def of_nat_diff)
qed

lemma burst_round:
  assumes "sim_laws C" and "sim_ready C p" and "good_outside n ext" and "0 \<le> sim_seq p" "sim_seq p + int n < 2 ^ 64"
    and "30 + b < n" "0 < b"
  obtains p' where "lossy_round C 1 n (\<lambda>k. 30 \<le> k \<and> k < 30 + b) ext p = Inr (burst_result n b, p')"
    and "sim_ready C p'" and "sim_seq p' = sim_seq p + int n"
  using lossy_round_honest [OF assms(1-5), of 1 "\<lambda>k. 30 \<le> k \<and> k < 30 + b"]
  unfolding burst_outcome [OF assms(6,4,7)] by blast

lemma random_rounds_honest:
  assumes "sim_laws C" and "sim_ready C p" and "\<forall>(rate, random, ext)\<in>set rs. good_outside n ext"
    and "0 \<le> sim_seq p" "sim_seq p + int (length rs * n) < 2 ^ 64"
  shows "\<exists>out p'. random_rounds C n rs p = Inr (out, p') \<and>
    list_all2 (\<lambda>(rate, random, ext) (setting, r). setting = RandomLoss rate (int n) \<and>
      (\<exists>gaps. r = lossy_outcome (map (\<lambda>k. fless (random k) rate) [0..<n]) gaps)) rs out"
  using assms(2-)
proof (induction rs arbitrary: p)
  case (Cons x rs)
  obtain rate random ext where x: "x = (rate, random, ext)" by (cases x)
  have "int (length (x # rs) * n) = int n + int (length rs * n)" "0 \<le> int (length rs * n)" by simp_all
  then have q: "0 \<le> sim_seq p" "sim_seq p + int n < 2 ^ 64" "sim_seq p + int n + int (length rs * n) < 2 ^ 64"
    using Cons.prems(3,4) by linarith+
  have good: "good_outside n ext" using Cons.prems(2) x by auto
  obtain p' where p': "lossy_round C 1000 n (\<lambda>k. fless (random k) rate) ext p =
      Inr (lossy_outcome (map (\<lambda>k. fless (random k) rate) [0..<n]) (gap_count 1000 0 (sim_seq p) (map (\<lambda>k. fless (random k) rate) [0..<n])), p')"
    "sim_ready C p'" "sim_seq p' = sim_seq p + int n"
    using assms(1) Cons.prems(1) good q(1,2) by (rule lossy_round_honest)
  have "\<exists>out p''. random_rounds C n rs p' = Inr (out, p'') \<and>
    list_all2 (\<lambda>(rate, random, ext) (setting, r). setting = RandomLoss rate (int n) \<and>
      (\<exists>gaps. r = lossy_outcome (map (\<lambda>k. fless (random k) rate) [0..<n]) gaps)) rs out"
    using Cons.prems q p' by (intro Cons.IH) auto
  then show ?case by (auto simp: x p'(1))
qed simp

section \<open>What the scenarios report\<close>

text \<open>C12. Random loss costs the lost packets and nothing else: whatever is drawn, each of the five rounds
  of the scenario runs to its end and reports every packet generated, those lost as dropped, and every
  other one as transmitted and accepted - no rejection, no replay, no failed signature or commitment.\<close>

theorem random_loss_harmless:
  assumes "sim_world C k" and "\<forall>j<5. good_outside n (ext j)" and "5 * n < 2 ^ 64"
  shows "\<exists>p out p'. loss_pipeline C k = Inr p \<and> scenario_random_loss C n random ext p = Inr (out, p') \<and> length out = 5 \<and>
    (\<forall>j<5. let r = snd (out ! j); lost = length (filter (\<lambda>i. fless (random j i) (LOSS_RATES ! j)) [0..<n]) in
       lr_generated r = int n \<and> lr_dropped r = int lost \<and> lr_transmitted r = int n - int lost \<and>
       lr_accepted r = lr_transmitted r \<and> lr_rejected r = 0 \<and> lr_replays r = 0 \<and>
       lr_sig_failures r = 0 \<and> lr_commit_failures r = 0)"
proof -
  obtain p where p: "loss_pipeline C k = Inr p" "sim_ready C p" "sim_seq p = 0"
    using assms(1) unfolding loss_pipeline_def by (rule sim_worldE)
  have l5: "length LOSS_RATES = 5" by (simp add: LOSS_RATES_def)
  let ?rs = "map (\<lambda>j. (LOSS_RATES ! j, random j, ext j)) [0..<length LOSS_RATES]"
  have "\<exists>out p'. random_rounds C n ?rs p = Inr (out, p') \<and>
    list_all2 (\<lambda>(rate, random, ext) (setting, r). setting = RandomLoss rate (int n) \<and>
      (\<exists>gaps. r = lossy_outcome (map (\<lambda>k. fless (random k) rate) [0..<n]) gaps)) ?rs out"
  proof (rule random_rounds_honest)
    show "sim_laws C" using assms(1) by (simp add: sim_world_def)
    show "sim_seq p + int (length ?rs * n) < 2 ^ 64" using p(3) assms(3) by (simp add: l5)
  qed (use p assms(2) in \<open>auto simp: l5\<close>)
  then obtain out p' where out: "random_rounds C n ?rs p = Inr (out, p')" and all: "list_all2
      (\<lambda>(rate, random, ext) (setting, r). setting = RandomLoss rate (int n) \<and>
      (\<exists>gaps. r = lossy_outcome (map (\<lambda>k. fless (random k) rate) [0..<n]) gaps)) ?rs out" by blast
  have len: "length out = 5" using list_all2_lengthD [OF all] l5 by simp
  have "\<exists>gaps. snd (out ! j) = lossy_outcome (map (\<lambda>i. fless (random j i) (LOSS_RATES ! j)) [0..<n]) gaps" if "j < 5" for j
    using list_all2_nthD [OF all, of j] that l5 by (auto split: prod.splits)
  moreover have "delivered (map f [0..<n]) = int n - int (length (filter f [0..<n]))" for f
    using sum_length_filter_compl [of f "[0..<n]"] by (simp add: comp_def)
  ultimately have "let r = snd (out ! j); lost = length (filter (\<lambda>i. fless (random j i) (LOSS_RATES ! j)) [0..<n]) in
       lr_generated r = int n \<and> lr_dropped r = int lost \<and> lr_transmitted r = int n - int lost \<and>
       lr_accepted r = lr_transmitted r \<and> lr_rejected r = 0 \<and> lr_replays r = 0 \<and>
       lr_sig_failures r = 0 \<and> lr_commit_failures r = 0" if "j < 5" for j
    using that by (fastforce simp: lossy_outcome_def comp_def)
  then show ?thesis using p(1) out len by (auto simp: scenario_random_loss_def)
qed

text \<open>C13. Losses show as gaps: a burst of 3, 5 or 10 lost packets, with packets delivered before and
  after it, is reported as exactly that many dropped packets and one sequence gap, and the eight
  selected losses of a hundred packets as eight; everything else is accepted.\<close>

theorem losses_show_as_gaps:
  assumes "sim_world C k" and "\<forall>j<3. good_outside n (ext j)" and "40 < n" "3 * n < 2 ^ 64" and "good_outside 100 ext'"
  shows "\<exists>p p' p''. loss_pipeline C k = Inr p \<and>
    scenario_burst_loss C n ext p = Inr ([(BurstLoss 3 (int n), burst_result n 3), (BurstLoss 5 (int n), burst_result n 5),
      (BurstLoss 10 (int n), burst_result n 10)], p') \<and>
    scenario_selective_loss C 100 ext' p = Inr ((SelectiveLoss (map int DROP_POSITIONS) 100,
      \<lparr>lr_generated = 100, lr_transmitted = 92, lr_dropped = 8, lr_accepted = 92, lr_rejected = 0,
       lr_loss_rate = loss_rate 8 92, lr_gaps = 8, lr_replays = 0, lr_sig_failures = 0, lr_commit_failures = 0\<rparr>), p'')"
proof -
  obtain p where p: "loss_pipeline C k = Inr p" "sim_ready C p" "sim_seq p = 0"
    using assms(1) unfolding loss_pipeline_def by (rule sim_worldE)
  have C: "sim_laws C" using assms(1) by (simp add: sim_world_def)
  have g: "good_outside n (ext 0)" "good_outside n (ext 1)" "good_outside n (ext 2)" using assms(2) by auto
  obtain p1 where p1: "lossy_round C 1 n (\<lambda>k. 30 \<le> k \<and> k < 30 + 3) (ext 0) p = Inr (burst_result n 3, p1)"
    "sim_ready C p1" "sim_seq p1 = int n"
    using burst_round [OF C p(2) g(1), of 3] p(3) assms(3,4) by auto
  obtain p2 where p2: "lossy_round C 1 n (\<lambda>k. 30 \<le> k \<and> k < 30 + 5) (ext 1) p1 = Inr (burst_result n 5, p2)"
    "sim_ready C p2" "sim_seq p2 = 2 * int n"
    using burst_round [OF C p1(2) g(2), of 5] p1(3) assms(3,4) by auto
  obtain p3 where p3: "lossy_round C 1 n (\<lambda>k. 30 \<le> k \<and> k < 30 + 10) (ext 2) p2 = Inr (burst_result n 10, p3)"
    using burst_round [OF C p2(2) g(3), of 10] p2(3) assms(3,4) by auto
  have burst: "scenario_burst_loss C n ext p = Inr ([(BurstLoss 3 (int n), burst_result n 3), (BurstLoss 5 (int n), burst_result n 5),
      (BurstLoss 10 (int n), burst_result n 10)], p3)"
    using p1(1) p2(1) p3 by (simp add: scenario_burst_loss_def)
  have pat: "map (\<lambda>k. k \<in> set DROP_POSITIONS) [0..<100] = concat (map (\<lambda>m. replicate m False @ [True])
      [10, 14, 14, 14, 14, 4, 9, 9]) @ replicate 4 False"
    by code_simp
  have gaps: "gap_count 1 0 0 (map (\<lambda>k. k \<in> set DROP_POSITIONS) [0..<100]) = 8" unfolding pat by code_simp
  have cnt: "losses (map (\<lambda>k. k \<in> set DROP_POSITIONS) [0..<100]) = 8" "delivered (map (\<lambda>k. k \<in> set DROP_POSITIONS) [0..<100]) = 92"
    unfolding pat by code_simp+
  obtain p'' where sel: "lossy_round C 1 100 (\<lambda>k. k \<in> set DROP_POSITIONS) ext' p =
      Inr (lossy_outcome (map (\<lambda>k. k \<in> set DROP_POSITIONS) [0..<100]) 8, p'')"
    using lossy_round_honest [OF C p(2) assms(5), of 1 "\<lambda>k. k \<in> set DROP_POSITIONS"] p(3) gaps by auto
  have "scenario_selective_loss C 100 ext' p = Inr ((SelectiveLoss (map int DROP_POSITIONS) 100,
      \<lparr>lr_generated = 100, lr_transmitted = 92, lr_dropped = 8, lr_accepted = 92, lr_rejected = 0,
       lr_loss_rate = loss_rate 8 92, lr_gaps = 8, lr_replays = 0, lr_sig_failures = 0, lr_commit_failures = 0\<rparr>), p'')"
    unfolding scenario_selective_loss_def sel lossy_outcome_def cnt by simp
  with p(1) burst show ?thesis by blast
qed

lemma phase_honest:
  assumes "sim_laws C" and "sim_ready C p" and "car_checker chk" and "\<forall>(i, dl)\<in>set xs. good_inputs i (frame_or_reset i)"
    and "0 \<le> car_last chk" "car_last chk \<le> sim_seq p" "sim_seq p + int (length xs) < 2 ^ 64"
  shows "\<exists>chk' p'. delivery_phase C xs (chk, p, r) = Inr (replicate (length xs) True, chk', p',
      r\<lparr>ph_generated := ph_generated r + int (length xs), ph_transmitted := ph_transmitted r + int (length xs),
        ph_accepted := ph_accepted r + int (length xs)\<rparr>) \<and>
    sim_ready C p' \<and> sim_seq p' = sim_seq p + int (length xs) \<and> car_checker chk' \<and> sc_max_gap chk' = sc_max_gap chk \<and>
    sc_gaps chk' = sc_gaps chk + gap_count (sc_max_gap chk) (car_last chk) (sim_seq p) (replicate (length xs) False) \<and>
    car_last chk' = (if xs = [] then car_last chk else sim_seq p')"
  using assms(2-)
proof (induction xs arbitrary: chk p r)
  case (Cons x xs)
  obtain i dl where x: "x = (i, dl)" by (cases x)
  have good: "good_inputs i (frame_or_reset i)" and q: "0 \<le> sim_seq p" "sim_seq p + 1 < 2 ^ 64"
    using Cons.prems x by auto
  obtain pkt p1 h pl where mk: "create_validator_packet C i p = Inr (pkt, p1)" "sim_ready C p1" "sim_seq p1 = sim_seq p + 1"
    and pkt: "honest_packet C (sp_signer p) (sim_seq p + 1) pkt h pl" "sgn_private (sp_signer p1) = sgn_private (sp_signer p)"
    using assms(1) Cons.prems(1) good q by (rule create_honest)
  obtain v chk1 p2 where v: "run_checks C dl pkt chk p1 = Inr (v, chk1, p2)" "va_accepted v"
    and moved: "checker_moved chk (sim_seq p + 1) chk1" and p2: "sim_ready C p2" "sp_builder p2 = sp_builder p1"
  proof (rule run_checks_honest [OF _ mk(2) pkt(1) _ Cons.prems(2)])
    show "sig_law C" "0 < sim_seq p + 1" using assms(1) q by (simp_all add: sim_laws_def)
    show "sgn_private (sp_signer p) = sgn_private (sp_signer p1)" using pkt(2) ..
  qed (use q Cons.prems(5) in auto)
  let ?r = "r\<lparr>ph_generated := ph_generated r + 1, ph_transmitted := ph_transmitted r + 1, ph_accepted := ph_accepted r + 1\<rparr>"
  show ?case
    using Cons.IH [of p2 chk1 ?r] moved mk v p2 Cons.prems x
    by (auto simp: checker_moved_def algebra_simps)
qed simp

lemma loss_phase_honest:
  assumes "sim_laws C" and "sim_ready C p" and "\<forall>i\<in>set is. good_inputs i (frame_or_reset i)"
    and "0 \<le> sim_seq p" "sim_seq p + int (length is) < 2 ^ 64"
  shows "\<exists>p'. loss_phase C is (p, r) = Inr (p', r\<lparr>ph_generated := ph_generated r + int (length is),
      ph_dropped := ph_dropped r + int (length is)\<rparr>) \<and> sim_ready C p' \<and> sim_seq p' = sim_seq p + int (length is)"
  using assms(2-)
proof (induction "is" arbitrary: p r)
  case (Cons i xs)
  obtain pkt p1 where mk: "create_validator_packet C i p = Inr (pkt, p1)" "sim_ready C p1" "sim_seq p1 = sim_seq p + 1"
    by (rule create_honest [OF assms(1) Cons.prems(1)]) (use Cons.prems in auto)
  let ?r = "r\<lparr>ph_generated := ph_generated r + 1, ph_dropped := ph_dropped r + 1\<rparr>"
  show ?case using Cons.IH [of p1 ?r] mk Cons.prems by (auto simp: algebra_simps)
qed simp

text \<open>C10. Recovery: after any number of packets lost in a row, every packet of the recovery phase is
  accepted again, from the first one on, and the outage is reported as one gap exactly when it is as
  long as the checker's limit of a thousand.\<close>

theorem recovers_after_outage:
  assumes "sim_world C k" and "\<forall>j<3. good_outside n (ext j)" and "3 * n < 2 ^ 64"
  shows "\<exists>p r p'. loss_pipeline C k = Inr p \<and> scenario_recovery C n ext ms p = Inr (r, p') \<and>
    ph_accepted (rr_normal r) = int n \<and> ph_dropped (rr_loss r) = int n \<and> ph_accepted (rr_loss r) = 0 \<and>
    ph_transmitted (rr_recovery r) = int n \<and> ph_accepted (rr_recovery r) = int n \<and>
    (rr_successful r \<longleftrightarrow> 0 < n) \<and> rr_time_ms r = (if 0 < n then Some (ms 0) else None) \<and>
    rr_gaps r = (if 1000 \<le> n then 1 else 0)"
proof -
  obtain p where p: "loss_pipeline C k = Inr p" "sim_ready C p" "sim_seq p = 0"
    using assms(1) unfolding loss_pipeline_def by (rule sim_worldE)
  have C: "sim_laws C" using assms(1) by (simp add: sim_world_def)
  have g: "\<forall>(i, dl)\<in>set (map (ext j) [0..<n]). good_inputs i (frame_or_reset i)" if "j < 3" for j
    using assms(2) that by (auto simp: good_outside_def) (metis fst_conv)
  obtain chk1 p1 where s1: "delivery_phase C (map (ext 0) [0..<n]) (new_sequence_checker 1000, p, no_packets) =
      Inr (replicate n True, chk1, p1, no_packets\<lparr>ph_generated := int n, ph_transmitted := int n, ph_accepted := int n\<rparr>)"
    "sim_ready C p1" "sim_seq p1 = int n" "car_checker chk1" "sc_max_gap chk1 = 1000" "car_last chk1 = int n"
    "sc_gaps chk1 = gap_count 1000 0 0 (replicate n False)"
    using phase_honest [OF C p(2) new_checker(1) g [of 0], of 1000 no_packets] p(3) assms(3)
    by (auto simp: no_packets_def)
  obtain p2 where s2: "loss_phase C (map (\<lambda>k. fst (ext 1 k)) [0..<n]) (p1, no_packets) =
      Inr (p2, no_packets\<lparr>ph_generated := int n, ph_dropped := int n\<rparr>)" "sim_ready C p2" "sim_seq p2 = 2 * int n"
    using loss_phase_honest [OF C s1(2), of "map (\<lambda>k. fst (ext 1 k)) [0..<n]" no_packets] s1(3) assms(2,3)
    by (auto simp: no_packets_def good_outside_def)
  obtain chk3 p3 where s3: "delivery_phase C (map (ext 2) [0..<n]) (chk1, p2, no_packets) =
      Inr (replicate n True, chk3, p3, no_packets\<lparr>ph_generated := int n, ph_transmitted := int n, ph_accepted := int n\<rparr>)"
    "sc_gaps chk3 = sc_gaps chk1 + gap_count 1000 (int n) (2 * int n) (replicate n False)"
    using phase_honest [OF C s2(2) s1(4) g [of 2], of no_packets] s1 s2(3) assms(3)
    by (auto simp: no_packets_def)
  have "gap_count 1000 0 0 (replicate n False) = 0"
    using gap_count_first [of 1000 0 _ "[]"] by (cases n) auto
  moreover have "gap_count 1000 (int n) (2 * int n) (replicate n False) = (if 1000 \<le> n then 1 else 0)"
    using gap_count_deliveries [of 1000 "2 * int n + 1" _ "[]"] by (cases n) auto
  ultimately have gaps: "sc_gaps chk3 = (if 1000 \<le> n then 1 else 0)" using s3(2) s1(7) by simp
  have first: "first_accepted (replicate n True) = (if 0 < n then Some 0 else None)"
    by (cases n) (simp_all add: first_accepted_def)
  have "\<exists>r p'. scenario_recovery C n ext ms p = Inr (r, p') \<and> rr_normal r = no_packets\<lparr>ph_generated := int n, ph_transmitted := int n, ph_accepted := int n\<rparr> \<and>
      rr_loss r = no_packets\<lparr>ph_generated := int n, ph_dropped := int n\<rparr> \<and>
      rr_recovery r = no_packets\<lparr>ph_generated := int n, ph_transmitted := int n, ph_accepted := int n\<rparr> \<and>
      rr_time_ms r = map_option ms (first_accepted (replicate n True)) \<and>
      rr_successful r = (first_accepted (replicate n True) \<noteq> None) \<and> rr_gaps r = sc_gaps chk3"
    unfolding scenario_recovery_def s1(1) rbind_simps prod.case s2(1) s3(1) by simp
  then show ?thesis using p(1) unfolding gaps first by (auto simp: no_packets_def)
qed

lemma duplicate_run_honest:
  assumes "sim_laws C" and "sim_ready C p" and "car_checker chk" and "\<forall>(t, i, d)\<in>set xs. good_inputs i (frame_or_reset i)"
    and "0 \<le> sim_seq p" "car_last chk = sim_seq p" "sim_seq p + int (length xs) < 2 ^ 64" "1 \<le> sc_max_gap chk"
  shows "\<exists>chk' p'. duplicate_run C xs (chk, p, r) = Inr (chk', p',
      r\<lparr>du_original_transmitted := du_original_transmitted r + int (length xs),
        du_original_accepted := du_original_accepted r + int (length xs),
        du_duplicate_transmitted := du_duplicate_transmitted r + losses (map fst xs),
        du_duplicates_rejected := du_duplicates_rejected r + losses (map fst xs)\<rparr>) \<and>
    sc_replays chk' = sc_replays chk + losses (map fst xs) \<and> sc_gaps chk' = sc_gaps chk"
  using assms(2-)
proof (induction xs arbitrary: chk p r)
  case (Cons x xs)
  obtain twice i dl dl2 where x: "x = (twice, i, dl, dl2)" by (cases x)
  have good: "good_inputs i (frame_or_reset i)" and q: "0 \<le> sim_seq p" "sim_seq p + 1 < 2 ^ 64"
    using Cons.prems x by auto
  have sl: "sig_law C" and q1: "0 < sim_seq p + 1" using assms(1) q by (simp_all add: sim_laws_def)
  obtain pkt p1 h pl where mk: "create_validator_packet C i p = Inr (pkt, p1)" "sim_ready C p1" "sim_seq p1 = sim_seq p + 1"
    and pkt: "honest_packet C (sp_signer p) (sim_seq p + 1) pkt h pl" "sgn_private (sp_signer p1) = sgn_private (sp_signer p)"
    using assms(1) Cons.prems(1) good q by (rule create_honest)
  obtain v chk1 p2 where v: "run_checks C dl pkt chk p1 = Inr (v, chk1, p2)" "va_accepted v"
    and moved: "checker_moved chk (sim_seq p + 1) chk1" and p2: "sim_ready C p2" "sp_builder p2 = sp_builder p1" "sp_signer p2 = sp_signer p1"
    by (rule run_checks_honest [OF sl mk(2) pkt(1) _ Cons.prems(2) q1]) (use pkt(2) Cons.prems(5) in auto)
  have m1: "car_checker chk1" "car_last chk1 = sim_seq p + 1" "sc_max_gap chk1 = sc_max_gap chk" "sc_gaps chk1 = sc_gaps chk"
    "sc_replays chk1 = sc_replays chk" "PInt (sim_seq p + 1) \<in> set (car_seen chk1)"
    using moved Cons.prems(5,7) by (auto simp: checker_moved_def)
  let ?r1 = "r\<lparr>du_original_transmitted := du_original_transmitted r + 1, du_original_accepted := du_original_accepted r + 1\<rparr>"
  have c1: "count_original v r = ?r1" using v(2) by (simp add: count_original_def)
  show ?case
  proof (cases twice)
    case True
    obtain v2 chk2 p3 where v2: "run_checks C dl2 pkt chk1 p2 = Inr (v2, chk2, p3)" "\<not> va_accepted v2"
      and moved2: "checker_moved chk1 (sim_seq p + 1) chk2" and p3: "sim_ready C p3" "sp_builder p3 = sp_builder p2"
      by (rule run_checks_honest [OF sl p2(1) pkt(1) _ m1(1) q1]) (use pkt(2) p2(3) m1(2) in auto)
    have m2: "car_checker chk2" "car_last chk2 = sim_seq p + 1" "sc_max_gap chk2 = sc_max_gap chk" "sc_gaps chk2 = sc_gaps chk"
      "sc_replays chk2 = sc_replays chk + 1"
      using moved2 m1 Cons.prems(7) by (auto simp: checker_moved_def)
    let ?r2 = "?r1\<lparr>du_duplicate_transmitted := du_duplicate_transmitted r + 1, du_duplicates_rejected := du_duplicates_rejected r + 1\<rparr>"
    have c2: "count_duplicate v2 ?r1 = ?r2" using v2(2) by (simp add: count_duplicate_def)
    show ?thesis
      using Cons.IH [of p3 chk2 ?r2] m2 mk v v2 c1 c2 p2 p3 Cons.prems x True by (auto simp: algebra_simps)
  next
    case False
    show ?thesis
      using Cons.IH [of p2 chk1 ?r1] m1 mk v c1 p2 Cons.prems x False by (auto simp: algebra_simps)
  qed
qed simp

lemma duplicate_positions_count:
  "length (filter (\<lambda>k. k \<in> set (duplicate_positions n w)) [0..<n]) = length (duplicate_positions n w)"
proof -
  have d: "distinct (duplicate_positions n w)" and l: "set (duplicate_positions n w) \<subseteq> {..<n}"
    by (auto simp: duplicate_positions_def DUPLICATE_POSITIONS_def Let_def dest!: in_set_takeD)
  have "set (filter (\<lambda>k. k \<in> set (duplicate_positions n w)) [0..<n]) = set (duplicate_positions n w)"
    using l by auto
  then show ?thesis using d distinct_card [of "filter (\<lambda>k. k \<in> set (duplicate_positions n w)) [0..<n]"]
    distinct_card [OF d] by simp
qed

text \<open>C11. A second delivery is always caught: each packet of the duplicate scenario is accepted the first
  time and rejected the second time, every duplicate is reported as a replay, none as a gap, and the
  scenario finds the replay protection successful whenever it sent a duplicate at all.\<close>

theorem duplicates_all_rejected:
  assumes "sim_world C k" and "good_outside n ext" and "n < 2 ^ 64"
  shows "\<exists>p r p'. loss_pipeline C k = Inr p \<and> scenario_duplicate_packets C n wanted ext again p = Inr (r, p') \<and>
    (let d = int (length (duplicate_positions n wanted)) in
      du_original_accepted r = int n \<and> du_original_rejected r = 0 \<and> du_duplicate_transmitted r = d \<and>
      du_duplicates_accepted r = 0 \<and> du_duplicates_rejected r = d \<and> du_replays r = d \<and> du_gaps r = 0 \<and>
      du_rejection_rate r = FFin (if 0 < d then 1 else 0) \<and> (du_successful r \<longleftrightarrow> 0 < d))"
proof -
  obtain p where p: "loss_pipeline C k = Inr p" "sim_ready C p" "sim_seq p = 0"
    using assms(1) unfolding loss_pipeline_def by (rule sim_worldE)
  have C: "sim_laws C" using assms(1) by (simp add: sim_world_def)
  let ?pos = "duplicate_positions n wanted"
  let ?xs = "map (\<lambda>k. (k \<in> set ?pos, fst (ext k), snd (ext k), again k)) [0..<n]" and ?r = "no_duplicates n (length ?pos)"
  have good: "\<forall>(t, i, d)\<in>set ?xs. good_inputs i (frame_or_reset i)" using assms(2) by (auto simp: good_outside_def)
  have cnt: "losses (map fst ?xs) = int (length ?pos)" using duplicate_positions_count [of n wanted] by (simp add: comp_def)
  obtain chk' p' where run: "duplicate_run C ?xs (new_sequence_checker 1000, p, ?r) = Inr (chk', p',
      ?r\<lparr>du_original_transmitted := int n, du_original_accepted := int n,
        du_duplicate_transmitted := int (length ?pos), du_duplicates_rejected := int (length ?pos)\<rparr>)"
    and chk: "sc_replays chk' = int (length ?pos)" "sc_gaps chk' = 0"
    using duplicate_run_honest [OF C p(2) new_checker(1) good, of 1000 ?r, unfolded cnt] p(3) assms(3)
    by (auto simp: no_duplicates_def)
  have one: "int_ratio d d = FFin 1" if "0 < d" for d using that fl_of_int [of 1] by (simp add: int_ratio_def)
  have "\<exists>r. scenario_duplicate_packets C n wanted ext again p = Inr (r, p') \<and> r = finish_duplicates chk'
      (?r\<lparr>du_original_transmitted := int n, du_original_accepted := int n,
        du_duplicate_transmitted := int (length ?pos), du_duplicates_rejected := int (length ?pos)\<rparr>)"
    unfolding scenario_duplicate_packets_def Let_def run by simp
  then show ?thesis using p(1) by (auto simp: finish_duplicates_def no_duplicates_def chk one Let_def)
qed

section \<open>The scenarios on a concrete world\<close>

definition sample_outside :: outside where
  "sample_outside = (\<lambda>_. (sample_packet_inputs, sample_delivery))"

lemma sample_outside_good: "good_outside n sample_outside"
  using sample_good by (simp add: good_outside_def sample_outside_def sample_frame_taken)

theorem random_loss_harmless_witness:
  "\<exists>p out p'. loss_pipeline demo_pyca sample_keys = Inr p \<and>
    scenario_random_loss demo_pyca 200 (\<lambda>_ _. FFin (1 / 2)) (\<lambda>_. sample_outside) p = Inr (out, p') \<and> length out = 5"
  using random_loss_harmless [OF sample_world, of 200 "\<lambda>_. sample_outside" "\<lambda>_ _. FFin (1 / 2)"]
  by (simp add: sample_outside_good) blast

theorem losses_show_as_gaps_witness:
  "\<exists>p p'. loss_pipeline demo_pyca sample_keys = Inr p \<and> scenario_burst_loss demo_pyca 100 (\<lambda>_. sample_outside) p =
    Inr ([(BurstLoss 3 100, burst_result 100 3), (BurstLoss 5 100, burst_result 100 5), (BurstLoss 10 100, burst_result 100 10)], p')"
  using losses_show_as_gaps [OF sample_world, of 100 "\<lambda>_. sample_outside" sample_outside]
  by (simp add: sample_outside_good) blast

theorem recovers_after_outage_witness:
  "\<exists>p r p'. loss_pipeline demo_pyca sample_keys = Inr p \<and>
    scenario_recovery demo_pyca 50 (\<lambda>_. sample_outside) (\<lambda>_. FFin 1) p = Inr (r, p') \<and> rr_successful r"
  using recovers_after_outage [OF sample_world, of 50 "\<lambda>_. sample_outside" "\<lambda>_. FFin 1"]
  by (simp add: sample_outside_good) blast

theorem duplicates_all_rejected_witness:
  "\<exists>p r p'. loss_pipeline demo_pyca sample_keys = Inr p \<and>
    scenario_duplicate_packets demo_pyca 100 10 sample_outside (\<lambda>_. sample_delivery) p = Inr (r, p') \<and> du_replays r = 10"
proof -
  have "length (duplicate_positions 100 10) = 10" by (simp add: duplicate_positions_def DUPLICATE_POSITIONS_def)
  with duplicates_all_rejected [OF sample_world sample_outside_good, of 100 10 "\<lambda>_. sample_delivery"]
  show ?thesis by (auto simp: Let_def)
qed

end
