(* ===== verification/FloatOrder.thy ===== *)
theory FloatOrder
  imports PyVal
begin

text \<open>
  Order facts of float arithmetic as \<open>PyVal\<close> models it (rounding to the nearest IEEE double): the exponent
  of a positive rational is the right one, and rounding is monotone, so that it keeps values between two
  integers between them. The simulations compare times that went through such roundings.
\<close>

section \<open>Sums, quotients, minima\<close>

text \<open>\<open>a + b\<close>, \<open>x / d\<close> for a positive constant \<open>d\<close>, and \<open>min(a, b)\<close>: the first one unless the second is smaller.\<close>

definition fadd :: "pyfloat \<Rightarrow> pyfloat \<Rightarrow> pyfloat" where
  "fadd a b = fsub a (fneg b)"

fun fdiv_pos :: "pyfloat \<Rightarrow> rat \<Rightarrow> pyfloat" where
  "fdiv_pos (FFin q) d = fl (q / d)"
| "fdiv_pos x d = x"

definition fmin :: "pyfloat \<Rightarrow> pyfloat \<Rightarrow> pyfloat" where
  "fmin a b = (if fless b a then b else a)"

section \<open>Powers of two and exponents\<close>

lemma pow2_pos [simp]: "0 < pow2 k"
  by (simp add: pow2_def)

lemma pow2_nonneg [simp]: "0 \<le> pow2 k"
  by (simp add: less_imp_le)

lemma pow2_powi: "pow2 k = 2 powi k"
  by (simp add: pow2_def power_int_def power_one_over)

lemma pow2_add: "pow2 (a + b) = pow2 a * pow2 b"
  by (simp add: pow2_powi power_int_add)

lemma pow2_mono: "a \<le> b \<Longrightarrow> pow2 a \<le> pow2 b"
  by (simp add: pow2_powi power_int_increasing)

lemma pow2_nat: "pow2 (int n) = 2 ^ n"
  by (simp add: pow2_def)

lemma of_int_pow2: "2 ^ nat k \<le> n \<Longrightarrow> 0 \<le> k \<Longrightarrow> pow2 k \<le> of_int n" "n < 2 ^ nat k \<Longrightarrow> 0 \<le> k \<Longrightarrow> of_int n < pow2 k"
proof -
  have p: "0 \<le> k \<Longrightarrow> pow2 k = of_int (2 ^ nat k)" by (simp add: pow2_def)
  show "2 ^ nat k \<le> n \<Longrightarrow> 0 \<le> k \<Longrightarrow> pow2 k \<le> of_int n" unfolding p of_int_le_iff by assumption
  show "n < 2 ^ nat k \<Longrightarrow> 0 \<le> k \<Longrightarrow> of_int n < pow2 k" unfolding p of_int_less_iff by assumption
qed

lemma rat_exponent_bounds:
  assumes "0 < q"
  shows "pow2 (rat_exponent q) \<le> q" and "q < pow2 (rat_exponent q + 1)"
proof -
  obtain n d where nd: "quotient_of q = (n, d)" by (cases "quotient_of q")
  have d: "0 < d" using nd by (rule quotient_of_denom_pos)
  have q: "q * of_int d = of_int n" using quotient_of_div [OF nd] d by simp
  have n: "0 < n" using assms d q by (metis mult_pos_pos of_int_0_less_iff)
  let ?a = "bitlen n" and ?b = "bitlen d"
  have ab: "0 \<le> ?a - 1" "0 \<le> ?b - 1" "0 \<le> ?a" "0 \<le> ?b"
    using n d bitlen_eq_zero_iff [of n] bitlen_eq_zero_iff [of d] bitlen_nonneg [of n] bitlen_nonneg [of d] by linarith+
  have p: "pow2 (?a - 1) \<le> of_int n" "of_int n < pow2 ?a" "pow2 (?b - 1) \<le> of_int d" "of_int d < pow2 ?b"
    using bitlen_bounds [OF n] bitlen_bounds [OF d] ab by (blast intro: of_int_pow2)+
  have "q * pow2 (?b - 1) \<le> q * of_int d" using p(3) assms by simp
  also have "\<dots> < pow2 ((?a - ?b + 1) + (?b - 1))" using q p(2) by simp
  finally have up: "q < pow2 (?a - ?b + 1)" by (simp only: pow2_add [of "?a - ?b + 1"] mult_less_cancel_right_pos [OF pow2_pos])
  have "pow2 ((?a - ?b - 1) + ?b) \<le> q * of_int d" using q p(1) by simp
  also have "\<dots> < q * pow2 ?b" using p(4) assms by simp
  finally have lo: "pow2 (?a - ?b - 1) < q" by (simp only: pow2_add [of "?a - ?b - 1"] mult_less_cancel_right_pos [OF pow2_pos])
  have e: "rat_exponent q = (if pow2 (?a - ?b) \<le> q then ?a - ?b else ?a - ?b - 1)"
    by (simp add: rat_exponent_def nd Let_def)
  show "pow2 (rat_exponent q) \<le> q" and "q < pow2 (rat_exponent q + 1)" using up lo by (simp_all add: e)
qed

lemma rat_exponent_mono:
  assumes "0 < p" and "p \<le> q"
  shows "rat_exponent p \<le> rat_exponent q"
proof (rule ccontr)
  assume "\<not> rat_exponent p \<le> rat_exponent q"
  then have "pow2 (rat_exponent q + 1) \<le> pow2 (rat_exponent p)" by (intro pow2_mono) simp
  also have "\<dots> \<le> p" using assms(1) by (rule rat_exponent_bounds)
  finally show False using assms rat_exponent_bounds(2) [of q] by simp
qed

section \<open>Rounding is monotone\<close>

lemma round_half_even_mono:
  assumes "p \<le> q"
  shows "round_half_even p \<le> round_half_even q"
proof (cases "\<lfloor>p\<rfloor> = \<lfloor>q\<rfloor>")
  case True
  then show ?thesis using assms by (auto simp: round_half_even_def Let_def)
next
  case False
  then have "\<lfloor>p\<rfloor> + 1 \<le> \<lfloor>q\<rfloor>" using floor_mono [OF assms] by simp
  moreover have "round_half_even p \<le> \<lfloor>p\<rfloor> + 1" "\<lfloor>q\<rfloor> \<le> round_half_even q" by (simp_all add: round_half_even_def Let_def)
  ultimately show ?thesis by simp
qed

text \<open>The rounded value in the units of the last place, and the value itself.\<close>

definition ulp :: "rat \<Rightarrow> int" where
  "ulp q = max (rat_exponent q - 52) (- 1074)"

definition rounded :: "rat \<Rightarrow> rat" where
  "rounded q = of_int (round_half_even (q / pow2 (ulp q))) * pow2 (ulp q)"

lemma fl_pos_rounded: "fl_pos q = (if 2 ^ 1024 \<le> rounded q then FPInf else FFin (rounded q))"
  by (simp add: fl_pos_def rounded_def ulp_def Let_def)

lemma rounded_nonneg: "0 < q \<Longrightarrow> 0 \<le> rounded q"
  using round_half_even_mono [of 0 "q / pow2 (ulp q)"] round_half_even_int [of 0]
  by (simp add: rounded_def divide_nonneg_pos)

lemma rounded_mono:
  assumes "0 < p" and "p \<le> q"
  shows "rounded p \<le> rounded q"
proof (cases "ulp p = ulp q")
  case True
  then have "p / pow2 (ulp p) \<le> q / pow2 (ulp q)" using assms(2) by (simp add: divide_right_mono)
  then show ?thesis using round_half_even_mono by (simp add: rounded_def True)
next
  case False
  have e: "rat_exponent p \<le> rat_exponent q" using assms by (rule rat_exponent_mono)
  with False have u: "ulp p < ulp q" "ulp q = rat_exponent q - 52" by (auto simp: ulp_def)
  have q: "0 < q" using assms by simp
  text \<open>Below, at most the power of two that ends the binade; above, at least the one that begins it.\<close>
  have up: "rounded p \<le> pow2 (ulp p + 53)"
  proof -
    have "p < pow2 (rat_exponent p + 1)" using assms(1) by (rule rat_exponent_bounds)
    also have "\<dots> \<le> pow2 (53 + ulp p)" by (rule pow2_mono) (simp add: ulp_def)
    finally have "p / pow2 (ulp p) \<le> of_int (2 ^ 53)" by (simp add: pow2_add pow2_def [of 53] pos_divide_le_eq)
    then have "round_half_even (p / pow2 (ulp p)) \<le> 2 ^ 53" using round_half_even_mono round_half_even_int by metis
    then have "(of_int (round_half_even (p / pow2 (ulp p))) :: rat) \<le> of_int (2 ^ 53)" by (simp only: of_int_le_iff)
    then have "rounded p \<le> of_int (2 ^ 53) * pow2 (ulp p)" unfolding rounded_def by (rule mult_right_mono) (simp add: less_imp_le)
    then show ?thesis by (simp add: pow2_add pow2_def [of 53] mult.commute)
  qed
  have lo: "pow2 (ulp q + 52) \<le> rounded q"
  proof -
    have "pow2 (52 + ulp q) \<le> q" using rat_exponent_bounds(1) [OF q] u(2) by simp
    then have "of_int (2 ^ 52) \<le> q / pow2 (ulp q)" by (simp add: pow2_add pow2_def [of 52] pos_le_divide_eq)
    then have "2 ^ 52 \<le> round_half_even (q / pow2 (ulp q))" using round_half_even_mono round_half_even_int by metis
    then have "(of_int (2 ^ 52) :: rat) \<le> of_int (round_half_even (q / pow2 (ulp q)))" by (simp only: of_int_le_iff)
    then have "of_int (2 ^ 52) * pow2 (ulp q) \<le> rounded q" unfolding rounded_def by (rule mult_right_mono) (simp add: less_imp_le)
    then show ?thesis by (simp add: pow2_add pow2_def [of 52] mult.commute)
  qed
  have "pow2 (ulp p + 53) \<le> pow2 (ulp q + 52)" using u(1) by (intro pow2_mono) simp
  then show ?thesis using up lo by simp
qed

lemma fl_pos_mono: "0 < p \<Longrightarrow> p \<le> q \<Longrightarrow> fle (fl_pos p) (fl_pos q)"
  using rounded_mono [of p q] by (auto simp: fl_pos_rounded fle_def)

lemma fle_fneg: "fle (fneg a) (fneg b) \<longleftrightarrow> fle b a"
  by (cases a; cases b) (auto simp: fle_def)

lemma fle_trans: "fle a b \<Longrightarrow> fle b c \<Longrightarrow> fle a c"
  by (cases a; cases b; cases c) (auto simp: fle_def)

lemma fl_pos_nonneg: "0 < q \<Longrightarrow> fle (FFin 0) (fl_pos q)"
  using rounded_nonneg [of q] by (auto simp: fl_pos_rounded fle_def)

lemma fl_mono:
  assumes "p \<le> q"
  shows "fle (fl p) (fl q)"
proof -
  consider "0 < p" | "q < 0" | "p \<le> 0" "0 \<le> q" by linarith
  then show ?thesis
  proof cases
    case 1
    then show ?thesis using assms fl_pos_mono by (simp add: fl_def)
  next
    case 2
    then have "fle (fl_pos (- q)) (fl_pos (- p))" using assms fl_pos_mono [of "- q" "- p"] by simp
    then show ?thesis using 2 assms by (simp add: fl_def fle_fneg)
  next
    case 3
    have "fle (fl p) (FFin 0)" using 3(1) fl_pos_nonneg [of "- p"] fle_fneg [of "fl_pos (- p)" "FFin 0"] by (auto simp: fl_def)
    moreover have "fle (FFin 0) (fl q)" using 3(2) fl_pos_nonneg by (auto simp: fl_def)
    ultimately show ?thesis by (rule fle_trans)
  qed
qed

text \<open>Between two integers a value stays between them, and finite.\<close>

lemma fl_between:
  assumes "of_int a \<le> q" and "q \<le> of_int b" and "0 \<le> a" and "b < 2 ^ 53"
  obtains r where "fl q = FFin r" and "of_int a \<le> r" and "r \<le> of_int b"
proof -
  have ab: "(of_int a :: rat) \<le> of_int b" using assms(1,2) by (rule order_trans)
  then have "a \<le> b" by simp
  then have exact: "fl (of_int a) = FFin (of_int a)" "fl (of_int b) = FFin (of_int b)" using assms by (simp_all add: fl_of_int)
  have "fle (FFin (of_int a)) (fl q)" "fle (fl q) (FFin (of_int b))"
    using fl_mono [OF assms(1)] fl_mono [OF assms(2)] by (simp_all add: exact)
  then show thesis using that by (cases "fl q") (auto simp: fle_def)
qed

section \<open>Comparisons, ends, exact values\<close>

lemma fless_asym: "fless a b \<Longrightarrow> \<not> fless b a"
  by (cases a; cases b) simp_all

lemma fless_neg_trans: "\<not> fless b a \<Longrightarrow> \<not> fless c b \<Longrightarrow> b \<noteq> FNan \<Longrightarrow> \<not> fless c a"
  by (cases a; cases b; cases c) simp_all

lemma not_fless_fle: "\<not> fless b a \<Longrightarrow> a \<noteq> FNan \<Longrightarrow> b \<noteq> FNan \<Longrightarrow> fle a b"
  by (cases a; cases b) (auto simp: fle_def)

lemma fle_not_nan: "fle a b \<Longrightarrow> a \<noteq> FNan \<and> b \<noteq> FNan"
  by (cases a; cases b) (auto simp: fle_def)

lemma fl_numeral: "numeral n < (2 :: int) ^ 53 \<Longrightarrow> fl (numeral n) = FFin (numeral n)" "numeral n < (2 :: int) ^ 53 \<Longrightarrow> fl (- numeral n) = FFin (- numeral n)"
proof -
  assume n: "numeral n < (2 :: int) ^ 53"
  show "fl (numeral n) = FFin (numeral n)" using fl_of_int [of "numeral n"] n by simp
  then show "fl (- numeral n) = FFin (- numeral n)" by (simp add: fl_def)
qed

lemma fl_zero: "fl 0 = FFin 0" by (simp add: fl_def)

lemma fle_ends: "\<not> fle FNan x" "\<not> fle x FNan" "fle FNInf x \<longleftrightarrow> x \<noteq> FNan" "fle x FPInf \<longleftrightarrow> x \<noteq> FNan"
  "fle FPInf x \<longleftrightarrow> x = FPInf" "fle x FNInf \<longleftrightarrow> x = FNInf"
  by (cases x; simp add: fle_def)+

lemma fle_not_fless: "fle a b \<Longrightarrow> \<not> fless b a"
  by (cases a; cases b) (auto simp: fle_def)

lemma fl_not_nan: "fl q \<noteq> FNan"
  using fl_mono [of q q] by (cases "fl q") (auto simp: fle_def)

lemma fdiv_pos_mono:
  assumes "fle x y" and "0 < d"
  shows "fle (fdiv_pos x d) (fdiv_pos y d)"
  using assms fl_mono [OF divide_right_mono [of _ _ d]] by (cases x; cases y) (simp_all add: fle_ends fl_not_nan)

lemma fadd_mono: "fle x y \<Longrightarrow> fle (fadd (FFin l) x) (fadd (FFin l) y)"
  by (cases x; cases y) (simp_all add: fadd_def fle_ends fl_not_nan fl_mono)

lemma round_half_even_near:
  assumes "2 * \<bar>x - of_int n\<bar> < 1 \<or> 2 * \<bar>x - of_int n\<bar> = 1 \<and> even n"
  shows "round_half_even x = n"
proof (cases "of_int n \<le> x")
  case True
  then have "\<lfloor>x\<rfloor> = n" using assms by (intro floor_unique) auto
  then show ?thesis using assms True by (auto simp: round_half_even_def Let_def)
next
  case False
  then have "\<lfloor>x\<rfloor> = n - 1" using assms by (intro floor_unique) auto
  then show ?thesis using assms False by (auto simp: round_half_even_def Let_def)
qed

lemma fl_value:
  assumes "0 < q" and "pow2 e \<le> q" and "q < pow2 (e + 1)" and "- 1022 \<le> e" and "of_int n * pow2 (e - 52) < 2 ^ 1024"
    and "2 * \<bar>q / pow2 (e - 52) - of_int n\<bar> < 1 \<or> 2 * \<bar>q / pow2 (e - 52) - of_int n\<bar> = 1 \<and> even n"
  shows "fl q = FFin (of_int n * pow2 (e - 52))"
proof -
  have e: "rat_exponent q = e"
  proof (rule antisym)
    show "rat_exponent q \<le> e"
    proof (rule ccontr)
      assume "\<not> rat_exponent q \<le> e"
      then have "pow2 (e + 1) \<le> pow2 (rat_exponent q)" by (intro pow2_mono) simp
      then show False using rat_exponent_bounds(1) [OF assms(1)] assms(3) by simp
    qed
    show "e \<le> rat_exponent q"
    proof (rule ccontr)
      assume "\<not> e \<le> rat_exponent q"
      then have "pow2 (rat_exponent q + 1) \<le> pow2 e" by (intro pow2_mono) simp
      then show False using rat_exponent_bounds(2) [OF assms(1)] assms(2) by simp
    qed
  qed
  then have u: "ulp q = e - 52" using assms(4) by (simp add: ulp_def)
  have "round_half_even (q / pow2 (e - 52)) = n" using assms(6) by (rule round_half_even_near)
  then have r: "rounded q = of_int n * pow2 (e - 52)" by (simp add: rounded_def u)
  then show ?thesis using assms(1,5) by (simp add: fl_def fl_pos_rounded r)
qed

lemma fle_py_round:
  assumes "of_int n \<le> q" and "0 \<le> n" and "n < 2 ^ 53"
  shows "fle (FFin (of_int n)) (py_round 4 (FFin q))"
proof -
  have "(of_int (n * 10 ^ 4) :: rat) \<le> q * 10 ^ 4" using assms(1) by simp
  then have "n * 10 ^ 4 \<le> round_half_even (q * 10 ^ 4)" using round_half_even_mono round_half_even_int by metis
  then have "(of_int (n * 10 ^ 4) :: rat) \<le> of_int (round_half_even (q * 10 ^ 4))" by (simp only: of_int_le_iff)
  then have "(of_int n :: rat) \<le> of_int (round_half_even (q * 10 ^ 4)) / 10 ^ 4" by simp
  from fl_mono [OF this] show ?thesis using fl_of_int [OF assms(2,3)] by simp
qed

lemma fle_py_round_any: "fle (FFin (of_int n)) y \<Longrightarrow> 0 \<le> n \<Longrightarrow> n < 2 ^ 53 \<Longrightarrow> fle (FFin (of_int n)) (py_round 4 y)"
proof (cases y)
  case (FFin x)
  assume a: "fle (FFin (of_int n)) y" "0 \<le> n" "n < 2 ^ 53"
  then have "of_int n \<le> x" by (simp add: FFin)
  from fle_py_round [OF this a(2,3)] show ?thesis by (simp only: FFin)
qed (simp_all add: fle_def)

lemma py_round_int: "0 \<le> n \<Longrightarrow> n < 2 ^ 53 \<Longrightarrow> py_round k (FFin (of_int n)) = FFin (of_int n)"
proof -
  assume n: "0 \<le> n" "n < 2 ^ 53"
  have "round_half_even (of_int n * 10 ^ k) = n * 10 ^ k" using round_half_even_int [of "n * 10 ^ k"] by simp
  then show ?thesis using fl_of_int [OF n] by simp
qed

end
