(* ===== verification/JitterScenarios.thy ===== *)
theory JitterScenarios
  imports SimPipeline FloatOrder "HOL-Library.Multiset"
begin

text \<open>
  \<open>simulations/jitter_sim.py\<close>: packets made by the evaluation pipeline reach the validator in the order of
  their simulated delivery times, or shuffled within windows, and in their own order as a baseline. The
  draws of \<open>random\<close>, what a packet takes from outside and the clock are arguments. The latency
  statistics of the report are not modelled, apart from the nearest-rank percentile. The lemmas say what
  a strict checker accepts of a reordered stream (the prefix maxima), and bound it when a packet can
  only be overtaken by packets less than \<open>d\<close> numbers later; the theorems apply this to the scenarios.
\<close>

section \<open>Making and checking packets\<close>

definition N_TIME_JITTER_PACKETS :: nat where "N_TIME_JITTER_PACKETS = 100"
definition N_REORDER_PACKETS :: nat where "N_REORDER_PACKETS = 30"
definition N_LATENCY_PACKETS :: nat where "N_LATENCY_PACKETS = 50"
definition SEND_INTERVAL_MS :: rat where "SEND_INTERVAL_MS = 5"
definition BASE_NETWORK_DELAY_MS :: pyfloat where "BASE_NETWORK_DELAY_MS = FFin 10"
definition TIME_JITTER_LEVELS_MS :: "rat list" where "TIME_JITTER_LEVELS_MS = [1, 5, 10]"
definition REORDER_WINDOWS :: "nat list" where "REORDER_WINDOWS = [2, 5, 10]"

definition make_val_packet :: "pyca \<Rightarrow> packet_inputs \<Rightarrow> sim_pipeline \<Rightarrow> (pydict \<times> sim_pipeline) res" where
  "make_val_packet C i p = rbind (stages C i (frame_or_reset i) p) (\<lambda>(s, p'). Inr (ps_validator s, p'))"

fun make_packets :: "pyca \<Rightarrow> packet_inputs list \<Rightarrow> sim_pipeline \<Rightarrow> (pydict list \<times> sim_pipeline) res" where
  "make_packets C [] p = Inr ([], p)"
| "make_packets C (i # is) p =
     rbind (make_val_packet C i p) (\<lambda>(pkt, p1).
     rbind (make_packets C is p1) (\<lambda>(pkts, p2). Inr (pkt # pkts, p2)))"

definition jitter_checker :: "string \<Rightarrow> seqcheck" where
  "jitter_checker node = seqcheck_init node SC_MAX_TIMESTAMP_AGE_MS SC_MAX_SEQUENCE_GAP False True"

record tally =
  ty_accepted :: int
  ty_rejected :: int
  ty_out_of_order :: int

definition no_tally :: tally where
  "no_tally = \<lparr>ty_accepted = 0, ty_rejected = 0, ty_out_of_order = 0\<rparr>"

definition count_result :: "validation \<Rightarrow> tally \<Rightarrow> tally" where
  "count_result v t = (if va_accepted v then t\<lparr>ty_accepted := ty_accepted t + 1\<rparr> else t\<lparr>ty_rejected := ty_rejected t + 1\<rparr>)"

section \<open>Jitter\<close>

record timed_packet =
  tp_packet :: pydict
  tp_index :: nat
  tp_send :: pyfloat
  tp_delay :: pyfloat
  tp_delivery :: pyfloat

definition time_packet :: "nat \<Rightarrow> pyfloat \<Rightarrow> pydict \<Rightarrow> timed_packet" where
  "time_packet n jitter pkt =
     (let delay = fmax (FFin 0) (fadd BASE_NETWORK_DELAY_MS jitter); send = fl (of_nat n * SEND_INTERVAL_MS)
      in \<lparr>tp_packet = pkt, tp_index = n, tp_send = send, tp_delay = delay, tp_delivery = fadd send delay\<rparr>)"

fun timed_packets :: "pyca \<Rightarrow> nat \<Rightarrow> (packet_inputs \<times> pyfloat) list \<Rightarrow> sim_pipeline \<Rightarrow> (timed_packet list \<times> sim_pipeline) res" where
  "timed_packets C n [] p = Inr ([], p)"
| "timed_packets C n ((i, jitter) # xs) p =
     rbind (make_val_packet C i p) (\<lambda>(pkt, p1).
     rbind (timed_packets C (n + 1) xs p1) (\<lambda>(ts, p2). Inr (time_packet n jitter pkt # ts, p2)))"

text \<open>
  Sorting by delivery time, then index. No delivery time is NaN, and indices differ, so that the order
  is total and strict, and the result does not depend on the sorting algorithm.
\<close>

definition deliver_before :: "timed_packet \<Rightarrow> timed_packet \<Rightarrow> bool" where
  "deliver_before s t =
     (if feq (tp_delivery s) (tp_delivery t) then tp_index s < tp_index t else fless (tp_delivery s) (tp_delivery t))"

fun insert_delivery :: "timed_packet \<Rightarrow> timed_packet list \<Rightarrow> timed_packet list" where
  "insert_delivery t [] = [t]"
| "insert_delivery t (u # us) = (if deliver_before u t then u # insert_delivery t us else t # u # us)"

definition delivery_order :: "timed_packet list \<Rightarrow> timed_packet list" where
  "delivery_order ts = foldr insert_delivery ts []"

text \<open>The number under the first of three keys, and how it compares with the largest number seen.\<close>

definition packet_sequence :: "pydict \<Rightarrow> pyval" where
  "packet_sequence pkt = dict_get_or pkt ''sequence_no'' (dict_get_or pkt ''sequence'' (dict_get pkt ''sequence_number''))"

definition is_late :: "pyval option \<Rightarrow> pyval \<Rightarrow> bool res" where
  "is_late newest seq = (case newest of None \<Rightarrow> Inr False | Some l \<Rightarrow> if seq = PNone then Inr False else py_le seq l)"

definition newest_after :: "pyval option \<Rightarrow> pyval \<Rightarrow> pyval option res" where
  "newest_after newest seq =
     (if seq = PNone then Inr newest
      else case newest of None \<Rightarrow> Inr (Some seq)
        | Some l \<Rightarrow> rbind (py_gt seq l) (\<lambda>g. Inr (if g then Some seq else newest)))"

fun jitter_run ::
  "pyca \<Rightarrow> (pydict \<times> delivery) list \<Rightarrow> pyval option \<Rightarrow> seqcheck \<times> sim_pipeline \<times> tally \<Rightarrow> (seqcheck \<times> sim_pipeline \<times> tally) res" where
  "jitter_run C [] newest s = Inr s"
| "jitter_run C ((pkt, dl) # xs) newest (chk, p, t) =
     (let seq = packet_sequence pkt
      in rbind (is_late newest seq) (\<lambda>late.
         let t1 = (if late then t\<lparr>ty_out_of_order := ty_out_of_order t + 1\<rparr> else t)
         in rbind (run_checks C dl pkt chk p) (\<lambda>(v, chk', p').
            rbind (newest_after newest seq) (\<lambda>newest'.
              jitter_run C xs newest' (chk', p', count_result v t1)))))"

record jitter_result =
  jr_packets :: int
  jr_accepted :: int
  jr_rejected :: int
  jr_out_of_order :: int
  jr_gaps :: int
  jr_replays :: int

definition jitter_result_of :: "nat \<Rightarrow> tally \<Rightarrow> seqcheck \<Rightarrow> jitter_result" where
  "jitter_result_of n t chk =
     \<lparr>jr_packets = int n, jr_accepted = ty_accepted t, jr_rejected = ty_rejected t, jr_out_of_order = ty_out_of_order t,
      jr_gaps = sc_gaps chk, jr_replays = sc_replays chk\<rparr>"

text \<open>What is drawn and read: a packet's inputs and jitter in sending order, deliveries in arrival order.\<close>

type_synonym jitter_world = "(nat \<Rightarrow> packet_inputs \<times> pyfloat) \<times> (nat \<Rightarrow> delivery)"

definition sim_time_jitter :: "pyca \<Rightarrow> rat \<Rightarrow> jitter_world \<Rightarrow> sim_pipeline \<Rightarrow> (jitter_result \<times> sim_pipeline) res" where
  "sim_time_jitter C amp w p =
     (let n = N_TIME_JITTER_PACKETS
      in rbind (timed_packets C 0 (map (fst w) [0..<n]) p) (\<lambda>(ts, p1).
         let arrivals = zip (map tp_packet (delivery_order ts)) (map (snd w) [0..<n]);
             chk = jitter_checker (''val_time_jitter_'' @ int_str \<lfloor>amp\<rfloor>)
         in rbind (jitter_run C arrivals None (chk, p1, no_tally)) (\<lambda>(chk', p2, t).
              Inr (jitter_result_of n t chk', p2))))"

fun run_time_jitter :: "pyca \<Rightarrow> (rat \<times> jitter_world) list \<Rightarrow> sim_pipeline \<Rightarrow> (jitter_result list \<times> sim_pipeline) res" where
  "run_time_jitter C [] p = Inr ([], p)"
| "run_time_jitter C ((amp, w) # xs) p =
     rbind (sim_time_jitter C amp w p) (\<lambda>(r, p1).
     rbind (run_time_jitter C xs p1) (\<lambda>(rs, p2). Inr (r # rs, p2)))"

definition run_time_jitter_scenarios :: "pyca \<Rightarrow> (nat \<Rightarrow> jitter_world) \<Rightarrow> sim_pipeline \<Rightarrow> (jitter_result list \<times> sim_pipeline) res" where
  "run_time_jitter_scenarios C w p =
     run_time_jitter C (map (\<lambda>j. (TIME_JITTER_LEVELS_MS ! j, w j)) [0..<length TIME_JITTER_LEVELS_MS]) p"

section \<open>Reordering\<close>

text \<open>\<open>random.shuffle\<close>: from the last position down to the second, a swap with a drawn position.\<close>

fun shuffle_from :: "nat \<Rightarrow> (nat \<Rightarrow> nat) \<Rightarrow> 'a list \<Rightarrow> 'a list" where
  "shuffle_from 0 draw xs = xs"
| "shuffle_from (Suc i) draw xs =
     shuffle_from i draw (xs[Suc i := xs ! draw (Suc i), draw (Suc i) := xs ! Suc i])"

definition shuffle :: "(nat \<Rightarrow> nat) \<Rightarrow> 'a list \<Rightarrow> 'a list" where
  "shuffle draw xs = shuffle_from (length xs - 1) draw xs"

text \<open>The windows in turn; the draws are those of window \<open>k\<close>. A window of size 0 is refused by \<open>range\<close>.\<close>

function reorder_windows :: "nat \<Rightarrow> nat \<Rightarrow> (nat \<Rightarrow> nat \<Rightarrow> nat) \<Rightarrow> 'a list \<Rightarrow> 'a list" where
  "reorder_windows w k draw xs =
     (if xs = [] \<or> w = 0 then xs
      else shuffle (draw k) (take w xs) @ reorder_windows w (k + 1) draw (drop w xs))"
  by pat_completeness auto
termination by (relation "measure (\<lambda>(w, k, draw, xs). length xs)") auto

declare reorder_windows.simps [simp del]

definition apply_reordering :: "nat \<Rightarrow> (nat \<Rightarrow> nat \<Rightarrow> nat) \<Rightarrow> 'a list \<Rightarrow> 'a list res" where
  "apply_reordering w draw xs = (if w = 0 then Inl ValueErr else Inr (reorder_windows w 0 draw xs))"

fun check_stream ::
  "pyca \<Rightarrow> (pydict \<times> delivery) list \<Rightarrow> seqcheck \<times> sim_pipeline \<times> tally \<Rightarrow> (seqcheck \<times> sim_pipeline \<times> tally) res" where
  "check_stream C [] s = Inr s"
| "check_stream C ((pkt, dl) # xs) (chk, p, t) =
     rbind (run_checks C dl pkt chk p) (\<lambda>(v, chk', p'). check_stream C xs (chk', p', count_result v t))"

text \<open>Only the jitter scenario counts packets out of order. What a window's scenario takes: inputs, the shuffles' draws, deliveries in arrival order.\<close>

type_synonym reorder_world = "(nat \<Rightarrow> packet_inputs) \<times> (nat \<Rightarrow> nat \<Rightarrow> nat) \<times> (nat \<Rightarrow> delivery)"

definition sim_packet_reordering :: "pyca \<Rightarrow> nat \<Rightarrow> reorder_world \<Rightarrow> sim_pipeline \<Rightarrow> (jitter_result \<times> sim_pipeline) res" where
  "sim_packet_reordering C window w p =
     (case w of (ext, draw, dl) \<Rightarrow>
        let n = N_REORDER_PACKETS
        in rbind (make_packets C (map ext [0..<n]) p) (\<lambda>(pkts, p1).
           rbind (apply_reordering window draw pkts) (\<lambda>reordered.
           rbind (check_stream C (zip reordered (map dl [0..<n]))
                   (jitter_checker (''val_reorder_'' @ int_str (int window)), p1, no_tally)) (\<lambda>(chk, p2, t).
             Inr (jitter_result_of n t chk, p2)))))"

fun run_reordering :: "pyca \<Rightarrow> (nat \<times> reorder_world) list \<Rightarrow> sim_pipeline \<Rightarrow> (jitter_result list \<times> sim_pipeline) res" where
  "run_reordering C [] p = Inr ([], p)"
| "run_reordering C ((window, w) # xs) p =
     rbind (sim_packet_reordering C window w p) (\<lambda>(r, p1).
     rbind (run_reordering C xs p1) (\<lambda>(rs, p2). Inr (r # rs, p2)))"

definition run_reordering_scenarios :: "pyca \<Rightarrow> (nat \<Rightarrow> reorder_world) \<Rightarrow> sim_pipeline \<Rightarrow> (jitter_result list \<times> sim_pipeline) res" where
  "run_reordering_scenarios C w p =
     run_reordering C (map (\<lambda>j. (REORDER_WINDOWS ! j, w j)) [0..<length REORDER_WINDOWS]) p"

section \<open>Baseline\<close>

fun baseline_run ::
  "pyca \<Rightarrow> (packet_inputs \<times> delivery) list \<Rightarrow> seqcheck \<times> sim_pipeline \<times> tally \<Rightarrow> (seqcheck \<times> sim_pipeline \<times> tally) res" where
  "baseline_run C [] s = Inr s"
| "baseline_run C ((i, dl) # xs) (chk, p, t) =
     rbind (make_val_packet C i p) (\<lambda>(pkt, p1).
     rbind (run_checks C dl pkt chk p1) (\<lambda>(v, chk', p2). baseline_run C xs (chk', p2, count_result v t)))"

definition sim_no_jitter_baseline :: "pyca \<Rightarrow> (nat \<Rightarrow> packet_inputs \<times> delivery) \<Rightarrow> sim_pipeline \<Rightarrow> (jitter_result \<times> sim_pipeline) res" where
  "sim_no_jitter_baseline C ext p =
     rbind (baseline_run C (map ext [0..<N_LATENCY_PACKETS]) (jitter_checker ''val_baseline'', p, no_tally)) (\<lambda>(chk, p', t).
       Inr (jitter_result_of N_LATENCY_PACKETS t chk, p'))"

text \<open>The whole evaluation; between reordering and baseline, the packets of the latency benchmark.\<close>

record jitter_report =
  jo_time_jitter :: "jitter_result list"
  jo_reordering :: "jitter_result list"
  jo_baseline :: jitter_result

definition jitter_main ::
  "pyca \<Rightarrow> sim_keys \<Rightarrow> (nat \<Rightarrow> jitter_world) \<Rightarrow> (nat \<Rightarrow> reorder_world) \<Rightarrow> (nat \<Rightarrow> packet_inputs) \<Rightarrow>
   (nat \<Rightarrow> packet_inputs \<times> delivery) \<Rightarrow> jitter_report res" where
  "jitter_main C k tw rw lat base =
     rbind (jitter_pipeline C k) (\<lambda>p0.
     rbind (run_time_jitter_scenarios C tw p0) (\<lambda>(ts, p1).
     rbind (run_reordering_scenarios C rw p1) (\<lambda>(rs, p2).
     rbind (make_packets C (map lat [0..<N_LATENCY_PACKETS]) p2) (\<lambda>(_, p3).
     rbind (sim_no_jitter_baseline C base p3) (\<lambda>(b, _).
       Inr \<lparr>jo_time_jitter = ts, jo_reordering = rs, jo_baseline = b\<rparr>)))))"

text \<open>The nearest-rank percentile of the latency statistics.\<close>

definition percentile_index :: "pyfloat \<Rightarrow> nat \<Rightarrow> int" where
  "percentile_index pv n =
     (case pv of FFin v \<Rightarrow> (case fl (v / 100) of FFin q \<Rightarrow> (case fl (q * of_nat (n - 1)) of FFin r \<Rightarrow> round_half_even r | _ \<Rightarrow> 0) | _ \<Rightarrow> 0)
      | _ \<Rightarrow> 0)"

definition percentile :: "rat list \<Rightarrow> pyfloat \<Rightarrow> rat" where
  "percentile values pv =
     (if values = [] then 0
      else let ordered = sort values; i = max 0 (min (percentile_index pv (length ordered)) (int (length ordered) - 1))
           in ordered ! nat i)"

text \<open>A percentile is one of the samples, whatever rank is asked for.\<close>

lemma percentile_in_sample:
  assumes "values \<noteq> []"
  shows "percentile values pv \<in> set values"
proof -
  let ?s = "sort values" and ?i = "max 0 (min (percentile_index pv (length (sort values))) (int (length (sort values)) - 1))"
  have "0 < length ?s" using assms by simp
  then have "nat ?i < length ?s" by linarith
  then have "?s ! nat ?i \<in> set ?s" by (rule nth_mem)
  then show ?thesis using assms by (simp add: percentile_def Let_def)
qed

section \<open>What a strict checker accepts of a reordered stream\<close>

text \<open>The numbers above all before them and above \<open>l\<close>.\<close>

fun records :: "int \<Rightarrow> int list \<Rightarrow> nat" where
  "records l [] = 0"
| "records l (n # ns) = (if l < n then Suc (records n ns) else records l ns)"

lemma records_le: "records l ns \<le> length ns"
  by (induction ns arbitrary: l) (auto intro: le_SucI)

text \<open>When a number is only overtaken by numbers less than \<open>d\<close> above it, there is one in every \<open>d\<close>.\<close>

lemma records_bound:
  assumes "sorted_wrt (\<lambda>m n. m < n + int d) ns" and "{l + 1..hi} \<subseteq> set ns" and "0 < d"
  shows "hi - l \<le> int d * int (records l ns)"
  using assms(1,2)
proof (induction ns arbitrary: l)
  case Nil
  then show ?case by simp
next
  case (Cons n ns)
  show ?case
  proof (cases "l < n")
    case False
    then have "{l + 1..hi} \<subseteq> set ns" using Cons.prems(2) by auto
    then show ?thesis using Cons.IH [of l] Cons.prems(1) False by simp
  next
    case True
    have "x \<in> set ns" if "x \<in> {n + 1..hi}" for x
    proof -
      have "x \<in> {l + 1..hi}" "x \<noteq> n" using that True by auto
      then show ?thesis using Cons.prems(2) by auto
    qed
    then have "{n + 1..hi} \<subseteq> set ns" by blast
    then have ih: "hi - n \<le> int d * int (records n ns)" using Cons.IH [of n] Cons.prems(1) by simp
    have "n - l \<le> int d \<or> hi \<le> l"
    proof (cases "n = l + 1 \<or> hi \<le> l")
      case True
      then show ?thesis using assms(3) by auto
    next
      case False
      then have "l + 1 \<in> {l + 1..hi}" "l + 1 \<noteq> n" by auto
      then have "l + 1 \<in> set ns" using Cons.prems(2) by auto
      then have "n < l + 1 + int d" using Cons.prems(1) by auto
      then show ?thesis by simp
    qed
    then show ?thesis
    proof
      assume "n - l \<le> int d"
      then have "hi - l \<le> int d + int d * int (records n ns)" using ih by linarith
      then show ?thesis using True by (simp add: algebra_simps)
    next
      assume "hi \<le> l"
      then have "hi - l \<le> 0" by simp
      also have "0 \<le> int d * int (records l (n # ns))" by simp
      finally show ?thesis .
    qed
  qed
qed

section \<open>Shuffles\<close>

lemma shuffle_from_simps:
  assumes "\<forall>i. draw i \<le> i" and "n < length xs"
  shows "length (shuffle_from n draw xs) = length xs \<and> mset (shuffle_from n draw xs) = mset xs \<and>
    map f (shuffle_from n draw xs) = shuffle_from n draw (map f xs)"
  using assms(2)
proof (induction n arbitrary: xs)
  case (Suc n)
  let ?ys = "xs[Suc n := xs ! draw (Suc n), draw (Suc n) := xs ! Suc n]"
  have d: "draw (Suc n) < length xs" using assms(1) Suc.prems by (metis le_less_trans)
  have m: "mset ?ys = mset xs" using mset_swap [of "draw (Suc n)" xs "Suc n"] d Suc.prems by simp
  have "map f ?ys = (map f xs)[Suc n := map f xs ! draw (Suc n), draw (Suc n) := map f xs ! Suc n]"
    using d Suc.prems by (simp add: map_update)
  then show ?case using Suc.IH [of ?ys] Suc.prems m by simp
qed simp

lemma shuffle_simps:
  assumes "\<forall>i. draw i \<le> i"
  shows "length (shuffle draw xs) = length xs" and "mset (shuffle draw xs) = mset xs" and "map f (shuffle draw xs) = shuffle draw (map f xs)"
proof -
  have "length xs - 1 < length xs \<or> xs = []" by (cases xs) auto
  then show "length (shuffle draw xs) = length xs" and "mset (shuffle draw xs) = mset xs" and "map f (shuffle draw xs) = shuffle draw (map f xs)"
    using shuffle_from_simps [OF assms, of "length xs - 1" xs] by (auto simp: shuffle_def)
qed

lemma set_shuffle: "\<forall>i. draw i \<le> i \<Longrightarrow> set (shuffle draw xs) = set xs"
  using shuffle_simps(2) by (rule mset_eq_setD)

lemma reorder_windows_mset:
  "\<forall>k i. draw k i \<le> i \<Longrightarrow> mset (reorder_windows w k draw xs) = mset xs"
proof (induction w k draw xs rule: reorder_windows.induct)
  case (1 w k draw xs)
  show ?case
  proof (cases "xs = [] \<or> w = 0")
    case True
    then show ?thesis by (auto simp: reorder_windows.simps)
  next
    case False
    have "mset (take w xs) + mset (drop w xs) = mset xs" by (metis append_take_drop_id mset_append)
    then show ?thesis using 1 False by (subst reorder_windows.simps) (simp add: shuffle_simps(2))
  qed
qed

lemma reorder_windows_map:
  "\<forall>k i. draw k i \<le> i \<Longrightarrow> map f (reorder_windows w k draw xs) = reorder_windows w k draw (map f xs)"
proof (induction w k draw xs rule: reorder_windows.induct)
  case (1 w k draw xs)
  show ?case
  proof (cases "xs = [] \<or> w = 0")
    case True
    then show ?thesis by (auto simp: reorder_windows.simps)
  next
    case False
    then show ?thesis using 1
      by (subst (1 2) reorder_windows.simps) (simp add: shuffle_simps(3) take_map drop_map)
  qed
qed

lemma sorted_wrt_all_pairs: "\<forall>x\<in>set xs. \<forall>y\<in>set xs. P x y \<Longrightarrow> sorted_wrt P xs"
  by (induction xs) auto

lemma reorder_windows_near:
  assumes "\<forall>k i. draw k i \<le> i" and "0 < w"
  shows "sorted_wrt (\<lambda>m n. m < n + int w) (reorder_windows w k draw (map (\<lambda>j. a + int j) [0..<n]))"
proof (induction n arbitrary: k a rule: less_induct)
  case (less n)
  let ?xs = "map (\<lambda>j. a + int j) [0..<n]"
  show ?case
  proof (cases "n = 0")
    case True
    then show ?thesis by (simp add: reorder_windows.simps)
  next
    case False
    let ?rest = "map (\<lambda>j. a + int w + int j) [0..<n - w]"
    have drop: "drop w ?xs = ?rest" by (rule nth_equalityI) simp_all
    have front: "set (shuffle (draw k) (take w ?xs)) = set (take w ?xs)" using assms(1) by (simp add: set_shuffle)
    then have fb: "a \<le> x \<and> x < a + int w" if "x \<in> set (shuffle (draw k) (take w ?xs))" for x
      using that by (auto simp: take_map set_conv_nth)
    have ih: "sorted_wrt (\<lambda>m n. m < n + int w) (reorder_windows w (k + 1) draw ?rest)"
      using less.IH [of "n - w" "k + 1" "a + int w"] False assms(2) by simp
    have rb: "a + int w \<le> x" if "x \<in> set (reorder_windows w (k + 1) draw ?rest)" for x
    proof -
      have "x \<in> set ?rest" using that reorder_windows_mset [OF assms(1)] by (metis mset_eq_setD)
      then show ?thesis by auto
    qed
    have "sorted_wrt (\<lambda>m n. m < n + int w) (shuffle (draw k) (take w ?xs))"
    proof (rule sorted_wrt_all_pairs, intro ballI)
      fix x y assume "x \<in> set (shuffle (draw k) (take w ?xs))" "y \<in> set (shuffle (draw k) (take w ?xs))"
      then show "x < y + int w" using fb [of x] fb [of y] by linarith
    qed
    then show ?thesis
      using False assms(2) ih fb rb by (subst reorder_windows.simps) (fastforce simp: drop sorted_wrt_append)
  qed
qed

section \<open>Checking a stream of genuine packets\<close>

definition numbered :: "pyca \<Rightarrow> bytes \<Rightarrow> pydict \<Rightarrow> int \<Rightarrow> bool" where
  "numbered C sk pkt n = (0 < n \<and> (\<exists>s h pl. sgn_private s = sk \<and> honest_packet C s n pkt h pl))"

lemma packet_sequence_numbered: "numbered C sk pkt n \<Longrightarrow> packet_sequence pkt = PInt n"
  by (auto simp: numbered_def honest_packet_def packet_sequence_def dict_get_or_def)

text \<open>
  The numbers still to come are new to the checker, lie above \<open>base\<close>, above which it started, and
  within the gap it tolerates.
\<close>

definition stream_ok :: "int \<Rightarrow> seqcheck \<Rightarrow> int list \<Rightarrow> bool" where
  "stream_ok base chk ns =
     (car_checker chk \<and> sc_max_gap chk = 1000 \<and> 0 \<le> base \<and> (car_last chk = 0 \<or> base < car_last chk) \<and> distinct ns \<and>
      (\<forall>n\<in>set ns. base < n \<and> n \<le> base + 1000 \<and> PInt n \<notin> set (car_seen chk)))"

lemma stream_ok_new: "0 \<le> base \<Longrightarrow> distinct ns \<Longrightarrow> \<forall>n\<in>set ns. base < n \<and> n \<le> base + 1000 \<Longrightarrow> stream_ok base (jitter_checker node) ns"
  using sc_int_inv_init [of node SC_MAX_TIMESTAMP_AGE_MS SC_MAX_SEQUENCE_GAP False]
  by (simp add: stream_ok_def car_checker_def jitter_checker_def)
    (simp add: seqcheck_init_def sc_last_int_def sc_last_def sc_seen_def SC_MAX_SEQUENCE_GAP_def)

lemma jitter_checker_counts [simp]:
  "sc_gaps (jitter_checker node) = 0" "sc_replays (jitter_checker node) = 0" "car_last (jitter_checker node) = 0"
  by (simp_all add: jitter_checker_def seqcheck_init_def sc_last_int_def sc_last_def)

lemma stream_step:
  assumes "stream_ok base chk (n # ns)" and "checker_moved chk n chk'"
  shows "stream_ok base chk' ns" and "sc_gaps chk' = sc_gaps chk" and "sc_replays chk' = sc_replays chk"
    and "car_last chk' = max (car_last chk) n"
proof -
  have ok: "car_checker chk" "sc_max_gap chk = 1000" "0 \<le> base" "car_last chk = 0 \<or> base < car_last chk" "distinct (n # ns)"
    "base < n" "n \<le> base + 1000" "PInt n \<notin> set (car_seen chk)"
    "\<forall>m\<in>set ns. base < m \<and> m \<le> base + 1000 \<and> PInt m \<notin> set (car_seen chk)"
    using assms(1) by (simp_all add: stream_ok_def)
  have mv: "car_checker chk'" "sc_max_gap chk' = sc_max_gap chk" "car_last chk' = max (car_last chk) n"
    "set (car_seen chk') \<subseteq> insert (PInt n) (set (car_seen chk))"
    using assms(2) by (simp_all add: checker_moved_def)
  show "car_last chk' = max (car_last chk) n" by (rule mv)
  show "sc_gaps chk' = sc_gaps chk" "sc_replays chk' = sc_replays chk" using assms(2) ok by (auto simp: checker_moved_def)
  have "base < car_last chk'" using mv(3) ok(6) by simp
  moreover have "PInt m \<notin> set (car_seen chk')" if "m \<in> set ns" for m using that ok(5,9) mv(4) by auto
  ultimately show "stream_ok base chk' ns" using ok mv(1,2) by (simp add: stream_ok_def)
qed

definition tallied :: "int list \<Rightarrow> int \<Rightarrow> bool \<Rightarrow> tally \<Rightarrow> tally" where
  "tallied ns l late t =
     (let r = int (records l ns); n = int (length ns)
      in t\<lparr>ty_accepted := ty_accepted t + r, ty_rejected := ty_rejected t + (n - r),
           ty_out_of_order := ty_out_of_order t + (if late then n - r else 0)\<rparr>)"

lemma tallied_Nil [simp]: "tallied [] l b t = t"
  by (simp add: tallied_def)

lemma tallied_Cons:
  "va_accepted v = (l < n) \<Longrightarrow> tallied ns (max l n) False (count_result v t) = tallied (n # ns) l False t"
  "va_accepted v = (l < n) \<Longrightarrow> tallied ns (max l n) True (count_result v (if n \<le> l then t\<lparr>ty_out_of_order := ty_out_of_order t + 1\<rparr> else t)) =
     tallied (n # ns) l True t"
  by (auto simp: tallied_def count_result_def Let_def max_def)

text \<open>What the two loops over arrivals have in common: one genuine packet checked.\<close>

lemma arrival:
  assumes "sim_laws C" and "numbered C sk pkt n" and "sim_ready C p" and "sgn_private (sp_signer p) = sk" and "stream_ok base chk (n # ns)"
  obtains v chk' p' where "run_checks C dl pkt chk p = Inr (v, chk', p')" and "va_accepted v = (car_last chk < n)"
    and "stream_ok base chk' ns" and "sc_gaps chk' = sc_gaps chk" and "sc_replays chk' = sc_replays chk"
    and "car_last chk' = max (car_last chk) n" and "sim_ready C p'" and "sgn_private (sp_signer p') = sk" and "sim_seq p' = sim_seq p"
proof -
  have laws: "sig_law C" using assms(1) by (simp add: sim_laws_def)
  obtain s h pl where s: "honest_packet C s n pkt h pl" "sgn_private s = sgn_private (sp_signer p)" "0 < n"
    using assms(2,4) by (auto simp: numbered_def)
  have chk: "car_checker chk" using assms(5) by (simp add: stream_ok_def)
  obtain v chk' p' where r: "run_checks C dl pkt chk p = Inr (v, chk', p')" "va_accepted v = (car_last chk < n)"
    "checker_moved chk n chk'" "sim_ready C p'" "sp_builder p' = sp_builder p" "sp_signer p' = sp_signer p"
    using laws assms(3) s(1,2) chk s(3) by (rule run_checks_honest)
  show thesis
    by (rule that [OF r(1,2) stream_step [OF assms(5) r(3)] r(4)]) (simp_all add: r(5,6) assms(4))
qed

lemma check_stream_honest:
  assumes "sim_laws C" and "list_all2 (\<lambda>x n. numbered C sk (fst x) n) xs ns" and "sim_ready C p" and "sgn_private (sp_signer p) = sk"
    and "stream_ok base chk ns"
  shows "\<exists>chk' p'. check_stream C xs (chk, p, t) = Inr (chk', p', tallied ns (car_last chk) False t) \<and> sim_ready C p' \<and>
    sgn_private (sp_signer p') = sk \<and> sim_seq p' = sim_seq p \<and> sc_gaps chk' = sc_gaps chk \<and> sc_replays chk' = sc_replays chk"
  using assms(2-)
proof (induction arbitrary: chk p t rule: list_all2_induct)
  case Nil
  then show ?case by simp
next
  case (Cons x xs n ns)
  obtain pkt dl where x: "x = (pkt, dl)" by (cases x)
  have "numbered C sk pkt n" using Cons.hyps(1) x by simp
  then obtain v chk1 p1 where r: "run_checks C dl pkt chk p = Inr (v, chk1, p1)" "va_accepted v = (car_last chk < n)"
    "stream_ok base chk1 ns" "sc_gaps chk1 = sc_gaps chk" "sc_replays chk1 = sc_replays chk"
    "car_last chk1 = max (car_last chk) n" "sim_ready C p1" "sgn_private (sp_signer p1) = sk" "sim_seq p1 = sim_seq p"
    using assms(1) Cons.prems by (elim arrival [rotated 1])
  show ?case using Cons.IH [OF r(7,8,3), of "count_result v t"] x r by (simp add: tallied_Cons(1))
qed

lemma jitter_run_honest:
  assumes "sim_laws C" and "list_all2 (\<lambda>x n. numbered C sk (fst x) n) xs ns" and "sim_ready C p" and "sgn_private (sp_signer p) = sk"
    and "stream_ok base chk ns" and "newest = Some (PInt (car_last chk)) \<or> newest = None \<and> car_last chk = 0"
  shows "\<exists>chk' p'. jitter_run C xs newest (chk, p, t) = Inr (chk', p', tallied ns (car_last chk) True t) \<and> sim_ready C p' \<and>
    sgn_private (sp_signer p') = sk \<and> sim_seq p' = sim_seq p \<and> sc_gaps chk' = sc_gaps chk \<and> sc_replays chk' = sc_replays chk"
  using assms(2-)
proof (induction arbitrary: chk p t newest rule: list_all2_induct)
  case Nil
  then show ?case by simp
next
  case (Cons x xs n ns)
  obtain pkt dl where x: "x = (pkt, dl)" by (cases x)
  have num: "numbered C sk pkt n" using Cons.hyps(1) x by simp
  then obtain v chk1 p1 where r: "run_checks C dl pkt chk p = Inr (v, chk1, p1)" "va_accepted v = (car_last chk < n)"
    "stream_ok base chk1 ns" "sc_gaps chk1 = sc_gaps chk" "sc_replays chk1 = sc_replays chk"
    "car_last chk1 = max (car_last chk) n" "sim_ready C p1" "sgn_private (sp_signer p1) = sk" "sim_seq p1 = sim_seq p"
    using assms(1) Cons.prems(1-3) by (elim arrival [rotated 1])
  have pos: "0 < n" using num by (simp add: numbered_def)
  let ?newest = "Some (PInt (max (car_last chk) n))"
  have late: "is_late newest (PInt n) = Inr (n \<le> car_last chk)" and new: "newest_after newest (PInt n) = Inr ?newest"
    using Cons.prems(4) pos by (auto simp: is_late_def newest_after_def max_def py_cmp_int)
  let ?t = "if n \<le> car_last chk then t\<lparr>ty_out_of_order := ty_out_of_order t + 1\<rparr> else t"
  have nw: "?newest = Some (PInt (car_last chk1)) \<or> ?newest = None \<and> car_last chk1 = 0" using r(6) by simp
  show ?case using Cons.IH [OF r(7,8,3) nw, of "count_result v ?t"] x r late new
    by (simp add: tallied_Cons(2) packet_sequence_numbered [OF num] Let_def)
qed

section \<open>The order of arrival\<close>

text \<open>Delivery times are finite; \<open>dtime\<close> is such a time.\<close>

definition finite_delivery :: "timed_packet \<Rightarrow> bool" where
  "finite_delivery t = (\<exists>r. tp_delivery t = FFin r)"

definition dtime :: "timed_packet \<Rightarrow> rat" where
  "dtime t = (case tp_delivery t of FFin r \<Rightarrow> r | _ \<Rightarrow> 0)"

lemma deliver_before_finite:
  "finite_delivery s \<Longrightarrow> finite_delivery t \<Longrightarrow>
   deliver_before s t \<longleftrightarrow> dtime s < dtime t \<or> dtime s = dtime t \<and> tp_index s < tp_index t"
  by (auto simp: finite_delivery_def deliver_before_def dtime_def)

lemma insert_delivery_mset: "mset (insert_delivery t us) = add_mset t (mset us)"
  by (induction us) auto

lemma insert_delivery_sorted:
  assumes "\<forall>u\<in>set (t # us). finite_delivery u" and "sorted_wrt (\<lambda>s t. \<not> deliver_before t s) us"
  shows "sorted_wrt (\<lambda>s t. \<not> deliver_before t s) (insert_delivery t us)"
  using assms
proof (induction us)
  case (Cons u us)
  have fin: "finite_delivery t" "finite_delivery u" "\<forall>x\<in>set us. finite_delivery x" using Cons.prems(1) by simp_all
  show ?case
  proof (cases "deliver_before u t")
    case True
    have "set (insert_delivery t us) = insert t (set us)" using insert_delivery_mset [of t us] by (metis set_mset_add_mset_insert set_mset_mset)
    moreover have "\<not> deliver_before t u" using True fin(1,2) by (auto simp: deliver_before_finite)
    moreover have "sorted_wrt (\<lambda>s t. \<not> deliver_before t s) (insert_delivery t us)" using Cons.IH Cons.prems by simp
    ultimately show ?thesis using True Cons.prems(2) by simp
  next
    case False
    have "\<not> deliver_before x t" if x: "x \<in> set us" for x
    proof -
      have "\<not> deliver_before x u" "finite_delivery x" using Cons.prems(2) fin(3) x by simp_all
      then show ?thesis using False fin(1,2) by (auto simp: deliver_before_finite not_less)
    qed
    then show ?thesis using False Cons.prems(2) by simp
  qed
qed simp

lemma delivery_order_mset: "mset (delivery_order ts) = mset ts"
  by (induction ts) (simp_all add: delivery_order_def insert_delivery_mset)

lemma delivery_order_sorted:
  "\<forall>t\<in>set ts. finite_delivery t \<Longrightarrow> sorted_wrt (\<lambda>s t. \<not> deliver_before t s) (delivery_order ts)"
proof (induction ts)
  case (Cons t ts)
  have "set (delivery_order ts) = set ts" using delivery_order_mset by (rule mset_eq_setD)
  moreover have "delivery_order (t # ts) = insert_delivery t (delivery_order ts)" by (simp add: delivery_order_def)
  ultimately show ?case using Cons by (simp add: insert_delivery_sorted)
qed (simp add: delivery_order_def)

text \<open>Through all roundings, a packet takes its base delay, give or take the jitter.\<close>

lemma time_packet_arrives:
  assumes "- of_int J \<le> u" and "u \<le> of_int J" and "0 \<le> J" "J \<le> 10" and "n < 2 ^ 40"
  shows "finite_delivery (time_packet n (FFin u) pkt)"
    and "of_int (5 * int n + 10 - J) \<le> dtime (time_packet n (FFin u) pkt)"
    and "dtime (time_packet n (FFin u) pkt) \<le> of_int (5 * int n + 10 + J)"
proof -
  have n: "int n < 2 ^ 40" using assms(5) by (metis of_nat_less_iff of_nat_numeral of_nat_power)
  obtain d where d: "fl (10 + u) = FFin d" "of_int (10 - J) \<le> d" "d \<le> of_int (10 + J)"
    by (rule fl_between [of "10 - J" "10 + u" "10 + J"]) (use assms in simp_all)
  have "0 \<le> (of_int (10 - J) :: rat)" using assms(4) by simp
  then have "0 \<le> d" using d(2) by (rule order_trans)
  then have delay: "tp_delay (time_packet n (FFin u) pkt) = FFin d"
    using d(1) by (auto simp: time_packet_def fadd_def BASE_NETWORK_DELAY_MS_def fmax_def Let_def)
  have "fl (of_int (5 * int n)) = FFin (of_int (5 * int n))" by (rule fl_of_int) (use n in simp_all)
  then have send: "fl (of_nat n * SEND_INTERVAL_MS) = FFin (of_nat n * 5)" by (simp add: SEND_INTERVAL_MS_def mult.commute)
  obtain r where r: "fl (of_nat n * 5 + d) = FFin r" "of_int (5 * int n + (10 - J)) \<le> r" "r \<le> of_int (5 * int n + (10 + J))"
    by (rule fl_between [of "5 * int n + (10 - J)" "of_nat n * 5 + d" "5 * int n + (10 + J)"]) (use d n assms in simp_all)
  have "tp_delivery (time_packet n (FFin u) pkt) = fadd (fl (of_nat n * SEND_INTERVAL_MS)) (tp_delay (time_packet n (FFin u) pkt))"
    by (simp add: time_packet_def Let_def)
  then have "tp_delivery (time_packet n (FFin u) pkt) = FFin r" using r(1) by (simp add: delay send fadd_def)
  then show "finite_delivery (time_packet n (FFin u) pkt)"
    and "of_int (5 * int n + 10 - J) \<le> dtime (time_packet n (FFin u) pkt)"
    and "dtime (time_packet n (FFin u) pkt) \<le> of_int (5 * int n + 10 + J)"
    using r(2,3) by (simp_all add: finite_delivery_def dtime_def)
qed

text \<open>So it is overtaken only by packets less than \<open>d\<close> numbers later, with a jitter of at most \<open>5 d / 2\<close>.\<close>

lemma overtaken_by_near:
  assumes "\<forall>t\<in>set ts. finite_delivery t \<and> of_int (5 * int (tp_index t) + 10 - J) \<le> dtime t \<and>
      dtime t \<le> of_int (5 * int (tp_index t) + 10 + J)" and "2 * J \<le> 5 * int d" and "0 < d"
  shows "sorted_wrt (\<lambda>m n. m < n + int d) (map (\<lambda>t. a + int (tp_index t)) (delivery_order ts))"
proof -
  have set: "set (delivery_order ts) = set ts" using delivery_order_mset by (rule mset_eq_setD)
  have "tp_index s < tp_index t + d" if "s \<in> set ts" "t \<in> set ts" "\<not> deliver_before t s" for s t
  proof (rule ccontr)
    assume far: "\<not> tp_index s < tp_index t + d"
    then have "dtime s < dtime t" using that assms(1,3) by (auto simp: deliver_before_finite)
    then have "(of_int (5 * int (tp_index s) + 10 - J) :: rat) < of_int (5 * int (tp_index t) + 10 + J)"
      using assms(1) that(1,2) by (meson le_less_trans less_le_trans)
    then have "5 * int (tp_index s) + 10 - J < 5 * int (tp_index t) + 10 + J" by (simp only: of_int_less_iff)
    then show False using far assms(2) by linarith
  qed
  then have "\<forall>s\<in>set (delivery_order ts). \<forall>t\<in>set (delivery_order ts). \<not> deliver_before t s \<longrightarrow> a + int (tp_index s) < a + int (tp_index t) + int d"
    unfolding set by fastforce
  then show ?thesis using delivery_order_sorted [of ts] assms(1)
    by (auto simp: sorted_wrt_map intro: sorted_wrt_mono_rel [rotated])
qed

section \<open>The scenarios\<close>

definition sim_at :: "pyca \<Rightarrow> bytes \<Rightarrow> int \<Rightarrow> sim_pipeline \<Rightarrow> bool" where
  "sim_at C sk q p = (sim_ready C p \<and> sgn_private (sp_signer p) = sk \<and> sim_seq p = q \<and> 0 \<le> q)"

lemma make_numbered:
  assumes "sim_laws C" and "sim_at C sk q p" and "good_inputs i (frame_or_reset i)" and "q + 1 < 2 ^ 64"
  obtains pkt p' where "make_val_packet C i p = Inr (pkt, p')" and "numbered C sk pkt (q + 1)" and "sim_at C sk (q + 1) p'"
proof -
  have st: "sim_ready C p" "sgn_private (sp_signer p) = sk" "sim_seq p = q" "0 \<le> q" using assms(2) by (simp_all add: sim_at_def)
  have q: "0 \<le> sim_seq p" "sim_seq p + 1 < 2 ^ 64" using st assms(4) by simp_all
  obtain pkt p' h pl where r: "create_validator_packet C i p = Inr (pkt, p')" "sim_ready C p'" "sim_seq p' = sim_seq p + 1"
    "honest_packet C (sp_signer p) (sim_seq p + 1) pkt h pl" "sgn_private (sp_signer p') = sgn_private (sp_signer p)"
    using assms(1) st(1) assms(3) q by (rule create_honest)
  have "make_val_packet C i p = Inr (pkt, p')" using r(1) by (simp add: make_val_packet_def create_validator_packet_def)
  moreover have "numbered C sk pkt (q + 1)" using r(4) st by (auto simp: numbered_def)
  moreover have "sim_at C sk (q + 1) p'" using r st by (simp add: sim_at_def)
  ultimately show thesis by (rule that)
qed

lemma make_packets_numbered:
  assumes "sim_laws C" and "sim_at C sk q p" and "\<forall>i\<in>set is. good_inputs i (frame_or_reset i)" and "q + int (length is) < 2 ^ 64"
  shows "\<exists>pkts p'. make_packets C is p = Inr (pkts, p') \<and> sim_at C sk (q + int (length is)) p' \<and>
    list_all2 (numbered C sk) pkts (map (\<lambda>j. q + 1 + int j) [0..<length is])"
  using assms(2-)
proof (induction "is" arbitrary: q p)
  case Nil
  then show ?case by simp
next
  case (Cons i "is")
  have "good_inputs i (frame_or_reset i)" "q + 1 < 2 ^ 64" using Cons.prems(2,3) by simp_all
  then obtain pkt p1 where m: "make_val_packet C i p = Inr (pkt, p1)" "numbered C sk pkt (q + 1)" "sim_at C sk (q + 1) p1"
    using assms(1) Cons.prems(1) by (elim make_numbered [rotated 2])
  obtain pkts p' where r: "make_packets C is p1 = Inr (pkts, p')" "sim_at C sk (q + 1 + int (length is)) p'"
    "list_all2 (numbered C sk) pkts (map (\<lambda>j. q + 1 + 1 + int j) [0..<length is])"
    using Cons.IH [OF m(3)] Cons.prems(2,3) by (auto simp: add.assoc)
  have "map (\<lambda>j. q + 1 + int j) [0..<length (i # is)] = (q + 1) # map (\<lambda>j. q + 1 + 1 + int j) [0..<length is]"
    by (rule nth_equalityI) (auto simp: nth_Cons' simp del: upt_Suc)
  then show ?case using m r by (simp add: add.assoc)
qed

lemma timed_packets_numbered:
  assumes "sim_laws C" and "sim_at C sk q p" and "\<forall>x\<in>set xs. good_inputs (fst x) (frame_or_reset (fst x))"
    and "q + int (length xs) < 2 ^ 64"
  shows "\<exists>ts p'. timed_packets C n xs p = Inr (ts, p') \<and> sim_at C sk (q + int (length xs)) p' \<and>
    map tp_index ts = [n..<n + length xs] \<and>
    (\<forall>t\<in>set ts. numbered C sk (tp_packet t) (q + 1 + int (tp_index t) - int n) \<and>
       (\<exists>j\<in>snd ` set xs. t = time_packet (tp_index t) j (tp_packet t)))"
  using assms(2-)
proof (induction xs arbitrary: q p n)
  case Nil
  then show ?case by simp
next
  case (Cons x xs)
  obtain i j where x: "x = (i, j)" by (cases x)
  have "good_inputs i (frame_or_reset i)" "q + 1 < 2 ^ 64" using Cons.prems(2,3) x by simp_all
  then obtain pkt p1 where m: "make_val_packet C i p = Inr (pkt, p1)" "numbered C sk pkt (q + 1)" "sim_at C sk (q + 1) p1"
    using assms(1) Cons.prems(1) by (elim make_numbered [rotated 2])
  obtain ts p' where r: "timed_packets C (n + 1) xs p1 = Inr (ts, p')" "sim_at C sk (q + 1 + int (length xs)) p'"
    "map tp_index ts = [n + 1..<n + 1 + length xs]"
    "\<forall>t\<in>set ts. numbered C sk (tp_packet t) (q + 1 + 1 + int (tp_index t) - int (n + 1)) \<and>
       (\<exists>j\<in>snd ` set xs. t = time_packet (tp_index t) j (tp_packet t))"
    using Cons.IH [OF m(3), of "n + 1"] Cons.prems(2,3) by (auto simp: add.assoc)
  let ?t = "time_packet n j pkt"
  have t: "tp_index ?t = n" "tp_packet ?t = pkt" by (simp_all add: time_packet_def Let_def)
  have "[n..<n + length (x # xs)] = n # [n + 1..<n + 1 + length xs]" using upt_conv_Cons [of n "n + length (x # xs)"] by simp
  then have "map tp_index (?t # ts) = [n..<n + length (x # xs)]" using r(3) t(1) by (simp only: list.map)
  moreover have "q + 1 + 1 + int k - int (n + 1) = q + 1 + int k - int n" for k by simp
  note r4 = r(4) [unfolded this]
  have "\<forall>s\<in>set (?t # ts). numbered C sk (tp_packet s) (q + 1 + int (tp_index s) - int n) \<and>
       (\<exists>j\<in>snd ` set (x # xs). s = time_packet (tp_index s) j (tp_packet s))"
    using r4 m(2) x t by auto
  ultimately show ?case using m(1) r(1,2) x by (simp add: add.assoc)
qed

text \<open>The numbers of a scenario, in any order, are new to its checker.\<close>

lemma scenario_stream:
  assumes "0 \<le> q" and "mset ns = mset (map (\<lambda>j. q + 1 + int j) [0..<n])" and "n \<le> 1000"
  shows "stream_ok q (jitter_checker node) ns" and "{q + 1..q + int n} \<subseteq> set ns"
proof -
  have set: "set ns = (\<lambda>j. q + 1 + int j) ` {0..<n}" using mset_eq_setD [OF assms(2)] by simp
  have "distinct (map (\<lambda>j. q + 1 + int j) [0..<n])" by (simp add: distinct_map inj_on_def)
  then have "distinct ns" using mset_eq_imp_distinct_iff [OF assms(2)] by simp
  then show "stream_ok q (jitter_checker node) ns" using assms(1,3) by (intro stream_ok_new) (auto simp: set)
  show "{q + 1..q + int n} \<subseteq> set ns"
  proof
    fix x assume "x \<in> {q + 1..q + int n}"
    then have "x = q + 1 + int (nat (x - q - 1))" "nat (x - q - 1) < n" by auto
    then show "x \<in> set ns" unfolding set by (metis atLeast0LessThan image_eqI lessThan_iff)
  qed
qed

lemma records_base: "0 \<le> q \<Longrightarrow> \<forall>n\<in>set ns. q < n \<Longrightarrow> records 0 ns = records q ns"
  by (cases ns) auto

definition good_jitter :: "int \<Rightarrow> jitter_world \<Rightarrow> bool" where
  "good_jitter J w =
     (\<forall>k<100. good_inputs (fst (fst w k)) (frame_or_reset (fst (fst w k))) \<and>
        (\<exists>u. snd (fst w k) = FFin u \<and> - of_int J \<le> u \<and> u \<le> of_int J))"

lemma sim_time_jitter_result:
  assumes "sim_laws C" and "sim_at C sk q p" and "q + 100 < 2 ^ 64" and "good_jitter J w" and "0 \<le> J" "J \<le> 10"
    and "2 * J \<le> 5 * int d" "0 < d"
  obtains r p' where "sim_time_jitter C amp w p = Inr (r, p')" and "sim_at C sk (q + 100) p'" and "jr_packets r = 100"
    and "jr_accepted r + jr_rejected r = 100" "0 \<le> jr_rejected r" and "jr_out_of_order r = jr_rejected r" and "jr_gaps r = 0" and "jr_replays r = 0"
    and "100 \<le> int d * jr_accepted r"
proof -
  let ?xs = "map (fst w) [0..<100]"
  have good: "\<forall>x\<in>set ?xs. good_inputs (fst x) (frame_or_reset (fst x))"
    and draws: "\<forall>j\<in>snd ` set ?xs. \<exists>u. j = FFin u \<and> - of_int J \<le> u \<and> u \<le> of_int J"
    using assms(4) by (auto simp: good_jitter_def)
  obtain ts p1 where made: "timed_packets C 0 ?xs p = Inr (ts, p1)" "sim_at C sk (q + 100) p1" "map tp_index ts = [0..<100]"
    "\<forall>t\<in>set ts. numbered C sk (tp_packet t) (q + 1 + int (tp_index t)) \<and> (\<exists>j\<in>snd ` set ?xs. t = time_packet (tp_index t) j (tp_packet t))"
    using timed_packets_numbered [OF assms(1,2) good, of 0] assms(3) by auto
  have idx: "tp_index t < 100" if "t \<in> set ts" for t using made(3) that by (metis atLeastLessThan_iff atLeastLessThan_upt in_set_conv_nth length_map nth_map nth_mem)
  have times: "\<forall>t\<in>set ts. finite_delivery t \<and> of_int (5 * int (tp_index t) + 10 - J) \<le> dtime t \<and>
      dtime t \<le> of_int (5 * int (tp_index t) + 10 + J)"
  proof
    fix t assume t: "t \<in> set ts"
    then obtain j where j: "j \<in> snd ` set ?xs" "t = time_packet (tp_index t) j (tp_packet t)" using made(4) by blast
    obtain u where "j = FFin u" "- of_int J \<le> u" "u \<le> of_int J" using draws j(1) by blast
    with j(2) have u: "t = time_packet (tp_index t) (FFin u) (tp_packet t)" "- of_int J \<le> u" "u \<le> of_int J" by simp_all
    have "tp_index t < 2 ^ 40" using idx [OF t] by simp
    from time_packet_arrives [OF u(2,3) assms(5,6) this, of "tp_packet t"]
    show "finite_delivery t \<and> of_int (5 * int (tp_index t) + 10 - J) \<le> dtime t \<and> dtime t \<le> of_int (5 * int (tp_index t) + 10 + J)"
      unfolding u(1) [symmetric] by blast
  qed
  let ?o = "delivery_order ts" and ?ns = "map (\<lambda>t. q + 1 + int (tp_index t)) (delivery_order ts)"
  have len: "length ts = 100" using made(3) by (metis length_map length_upt diff_zero)
  have lo: "length ?o = 100" using delivery_order_mset [of ts] len by (metis size_mset)
  have so: "set ?o = set ts" using delivery_order_mset by (rule mset_eq_setD)
  have "mset ?ns = mset (map (\<lambda>j. q + 1 + int j) (map tp_index ts))" by (simp add: delivery_order_mset image_mset.compositionality comp_def)
  then have ms: "mset ?ns = mset (map (\<lambda>j. q + 1 + int j) [0..<100])" by (simp only: made(3))
  have q: "0 \<le> q" using assms(2) by (simp add: sim_at_def)
  let ?chk = "jitter_checker (''val_time_jitter_'' @ int_str \<lfloor>amp\<rfloor>)"
  note stream = scenario_stream(1) [OF q ms, of "''val_time_jitter_'' @ int_str \<lfloor>amp\<rfloor>"] scenario_stream(2) [OF q ms]
  let ?arr = "zip (map tp_packet ?o) (map (snd w) [0..<100])"
  have all: "list_all2 (\<lambda>x n. numbered C sk (fst x) n) ?arr ?ns"
    unfolding list_all2_conv_all_nth using made(4) lo so nth_mem [of _ ?o] by simp
  obtain chk' p2 where run: "jitter_run C ?arr None (?chk, p1, no_tally) = Inr (chk', p2, tallied ?ns 0 True no_tally)"
    "sim_ready C p2" "sgn_private (sp_signer p2) = sk" "sim_seq p2 = sim_seq p1" "sc_gaps chk' = 0" "sc_replays chk' = 0"
    using jitter_run_honest [OF assms(1) all _ _ stream(1), of p1 None no_tally] made(2) by (auto simp: sim_at_def)
  have sim: "sim_time_jitter C amp w p = Inr (jitter_result_of 100 (tallied ?ns 0 True no_tally) chk', p2)"
    using made(1) run(1) by (simp add: sim_time_jitter_def N_TIME_JITTER_PACKETS_def)
  have "\<forall>n\<in>set ?ns. q < n" by auto
  then have rec: "records 0 ?ns = records q ?ns" by (rule records_base [OF q])
  have "sorted_wrt (\<lambda>m n. m < n + int d) ?ns" by (rule overtaken_by_near [OF times assms(7,8)])
  then have bound: "100 \<le> int d * int (records 0 ?ns)"
    using records_bound [of d ?ns q "q + 100"] stream(2) assms(8) rec by simp
  have "sim_at C sk (q + 100) p2" using run(2-4) made(2) by (simp add: sim_at_def)
  then show thesis using bound lo run(5,6) records_le [of 0 ?ns]
    by (intro that [OF sim]) (simp_all add: jitter_result_of_def tallied_def no_tally_def Let_def)
qed

definition good_reorder :: "reorder_world \<Rightarrow> bool" where
  "good_reorder w =
     ((\<forall>k<30. good_inputs (fst w k) (frame_or_reset (fst w k))) \<and> (\<forall>k i. fst (snd w) k i \<le> i))"

lemma sim_packet_reordering_result:
  assumes "sim_laws C" and "sim_at C sk q p" and "q + 30 < 2 ^ 64" and "good_reorder w" and "0 < d"
  obtains r p' where "sim_packet_reordering C d w p = Inr (r, p')" and "sim_at C sk (q + 30) p'" and "jr_packets r = 30"
    and "jr_accepted r + jr_rejected r = 30" "0 \<le> jr_rejected r" and "jr_gaps r = 0" and "jr_replays r = 0" and "30 \<le> int d * jr_accepted r"
proof -
  obtain ext draw dl where w: "w = (ext, draw, dl)" by (cases w)
  have good: "\<forall>i\<in>set (map ext [0..<30]). good_inputs i (frame_or_reset i)" and draws: "\<forall>k i. draw k i \<le> i"
    using assms(4) by (auto simp: good_reorder_def w)
  let ?nums = "map (\<lambda>j. q + 1 + int j) [0..<30]"
  obtain pkts p1 where made: "make_packets C (map ext [0..<30]) p = Inr (pkts, p1)" "sim_at C sk (q + 30) p1"
    "list_all2 (numbered C sk) pkts ?nums"
    using make_packets_numbered [OF assms(1,2) good] assms(3) by auto
  have len: "length pkts = 30" using list_all2_lengthD [OF made(3)] by simp
  text \<open>The packets shuffled together with their numbers.\<close>
  let ?zs = "reorder_windows d 0 draw (zip pkts ?nums)"
  let ?ns = "map snd ?zs"
  have fst: "map fst ?zs = reorder_windows d 0 draw pkts" and snd: "?ns = reorder_windows d 0 draw ?nums"
    using len by (simp_all add: reorder_windows_map [OF draws])
  have "set ?zs = set (zip pkts ?nums)" using reorder_windows_mset [OF draws] by (rule mset_eq_setD)
  then have num: "\<forall>z\<in>set ?zs. numbered C sk (fst z) (snd z)" using made(3) by (auto simp: list_all2_iff)
  have "size (mset ?zs) = size (mset (zip pkts ?nums))" by (simp only: reorder_windows_mset [OF draws])
  then have lz: "length ?zs = 30" unfolding size_mset using len by simp
  have q: "0 \<le> q" using assms(2) by (simp add: sim_at_def)
  have ms: "mset ?ns = mset ?nums" unfolding snd by (rule reorder_windows_mset [OF draws])
  let ?node = "''val_reorder_'' @ int_str (int d)"
  note stream = scenario_stream(1) [OF q ms, of ?node] scenario_stream(2) [OF q ms]
  let ?arr = "zip (map fst ?zs) (map dl [0..<30])"
  have all: "list_all2 (\<lambda>x n. numbered C sk (fst x) n) ?arr ?ns"
    unfolding list_all2_conv_all_nth using num lz nth_mem [of _ ?zs] by simp
  obtain chk' p2 where run: "check_stream C ?arr (jitter_checker ?node, p1, no_tally) = Inr (chk', p2, tallied ?ns 0 False no_tally)"
    "sim_ready C p2" "sgn_private (sp_signer p2) = sk" "sim_seq p2 = sim_seq p1" "sc_gaps chk' = 0" "sc_replays chk' = 0"
    using check_stream_honest [OF assms(1) all _ _ stream(1), of p1 no_tally] made(2) by (auto simp: sim_at_def)
  have sim: "sim_packet_reordering C d w p = Inr (jitter_result_of 30 (tallied ?ns 0 False no_tally) chk', p2)"
    using made(1) run(1) assms(5) by (simp add: sim_packet_reordering_def w N_REORDER_PACKETS_def apply_reordering_def fst)
  have "sorted_wrt (\<lambda>m n. m < n + int d) ?ns" unfolding snd by (rule reorder_windows_near [OF draws assms(5)])
  moreover have "\<forall>n\<in>set ?ns. q < n" using mset_eq_setD [OF ms] by auto
  then have "records 0 ?ns = records q ?ns" by (rule records_base [OF q])
  ultimately have bound: "30 \<le> int d * int (records 0 ?ns)"
    using records_bound [of d ?ns q "q + 30"] stream(2) assms(5) by simp
  have "sim_at C sk (q + 30) p2" using run(2-4) made(2) by (simp add: sim_at_def)
  then show thesis using bound lz run(5,6) records_le [of 0 ?ns]
    by (intro that [OF sim]) (simp_all add: jitter_result_of_def tallied_def no_tally_def Let_def)
qed

lemma baseline_run_honest:
  assumes "sim_laws C" and "sim_at C sk q p" and "\<forall>x\<in>set xs. good_inputs (fst x) (frame_or_reset (fst x))"
    and "q + int (length xs) < 2 ^ 64" and "stream_ok b chk (map (\<lambda>j. q + 1 + int j) [0..<length xs])" and "car_last chk \<le> q"
  shows "\<exists>chk' p'. baseline_run C xs (chk, p, t) = Inr (chk', p', t\<lparr>ty_accepted := ty_accepted t + int (length xs)\<rparr>) \<and>
    sim_at C sk (q + int (length xs)) p' \<and> sc_gaps chk' = sc_gaps chk \<and> sc_replays chk' = sc_replays chk"
  using assms(2-)
proof (induction xs arbitrary: q p chk t)
  case Nil
  then show ?case by simp
next
  case (Cons x xs)
  obtain i dl where x: "x = (i, dl)" by (cases x)
  have "good_inputs i (frame_or_reset i)" "q + 1 < 2 ^ 64" using Cons.prems(2,3) x by simp_all
  then obtain pkt p1 where m: "make_val_packet C i p = Inr (pkt, p1)" "numbered C sk pkt (q + 1)" "sim_at C sk (q + 1) p1"
    using assms(1) Cons.prems(1) by (elim make_numbered [rotated 2])
  have "map (\<lambda>j. q + 1 + int j) [0..<length (x # xs)] = (q + 1) # map (\<lambda>j. q + 1 + 1 + int j) [0..<length xs]"
    by (rule nth_equalityI) (auto simp: nth_Cons' simp del: upt_Suc)
  then have ok: "stream_ok b chk ((q + 1) # map (\<lambda>j. q + 1 + 1 + int j) [0..<length xs])" using Cons.prems(4) by simp
  have p1: "sim_ready C p1" "sgn_private (sp_signer p1) = sk" "sim_seq p1 = q + 1" using m(3) by (simp_all add: sim_at_def)
  obtain v chk1 p2 where r: "run_checks C dl pkt chk p1 = Inr (v, chk1, p2)" "va_accepted v = (car_last chk < q + 1)"
    "stream_ok b chk1 (map (\<lambda>j. q + 1 + 1 + int j) [0..<length xs])" "sc_gaps chk1 = sc_gaps chk" "sc_replays chk1 = sc_replays chk"
    "car_last chk1 = max (car_last chk) (q + 1)" "sim_ready C p2" "sgn_private (sp_signer p2) = sk" "sim_seq p2 = sim_seq p1"
    using assms(1) m(2) p1(1,2) ok by (rule arrival)
  have st: "sim_at C sk (q + 1) p2" using r(7-9) m(3) p1(3) by (simp add: sim_at_def)
  have newest: "car_last chk1 \<le> q + 1" using r(6) Cons.prems(5) by simp
  have "va_accepted v" using r(2) Cons.prems(5) by simp
  then have t: "count_result v t = t\<lparr>ty_accepted := ty_accepted t + 1\<rparr>" by (simp add: count_result_def)
  show ?case using Cons.IH [OF st _ _ r(3) newest, of "count_result v t"] Cons.prems(2,3) x m(1) r(1,4,5) t by (auto simp: add.assoc)
qed

text \<open>The baseline accepts all fifty packets.\<close>

lemma sim_no_jitter_baseline_result:
  assumes "sim_laws C" and "sim_at C sk q p" and "q + 50 < 2 ^ 64"
    and "\<forall>k<50. good_inputs (fst (ext k)) (frame_or_reset (fst (ext k)))"
  obtains p' where "sim_no_jitter_baseline C ext p = Inr (\<lparr>jr_packets = 50, jr_accepted = 50, jr_rejected = 0,
    jr_out_of_order = 0, jr_gaps = 0, jr_replays = 0\<rparr>, p')"
proof -
  let ?xs = "map ext [0..<50]" and ?chk = "jitter_checker ''val_baseline''"
  have good: "\<forall>x\<in>set ?xs. good_inputs (fst x) (frame_or_reset (fst x))" using assms(4) by auto
  have q: "0 \<le> q" using assms(2) by (simp add: sim_at_def)
  have ok: "stream_ok q ?chk (map (\<lambda>j. q + 1 + int j) [0..<length ?xs])"
    by (rule scenario_stream(1) [OF q refl]) simp
  have "car_last ?chk \<le> q" using q by simp
  then obtain chk' p' where run: "baseline_run C ?xs (?chk, p, no_tally) =
      Inr (chk', p', no_tally\<lparr>ty_accepted := ty_accepted no_tally + int (length ?xs)\<rparr>)"
    "sc_gaps chk' = sc_gaps ?chk" "sc_replays chk' = sc_replays ?chk"
    using baseline_run_honest [OF assms(1,2) good _ ok, of no_tally] assms(3) by auto
  then show thesis
    by (intro that [of p']) (simp add: sim_no_jitter_baseline_def N_LATENCY_PACKETS_def jitter_result_of_def no_tally_def)
qed

text \<open>What a scenario of \<open>n\<close> packets reports that accepts at least \<open>low\<close> of them.\<close>

definition jitter_outcome :: "int \<Rightarrow> int \<Rightarrow> jitter_result \<Rightarrow> bool" where
  "jitter_outcome n low r =
     (jr_packets r = n \<and> jr_accepted r + jr_rejected r = n \<and> low \<le> jr_accepted r \<and> 0 \<le> jr_rejected r \<and>
      jr_gaps r = 0 \<and> jr_replays r = 0)"

lemma time_jitter_outcome:
  assumes "sim_laws C" and "sim_at C sk q p" and "q + 100 < 2 ^ 64" and "good_jitter J w" and "0 \<le> J" "J \<le> 10"
    and "2 * J \<le> 5 * int d" "0 < d" and "int d * low = 100" and "q' = q + 100"
  obtains r p' where "sim_time_jitter C amp w p = Inr (r, p')" and "sim_at C sk q' p'" and "jitter_outcome 100 low r"
    and "jr_out_of_order r = jr_rejected r"
proof -
  obtain r p' where r: "sim_time_jitter C amp w p = Inr (r, p')" "sim_at C sk (q + 100) p'" "jr_packets r = 100"
    "jr_accepted r + jr_rejected r = 100" "0 \<le> jr_rejected r" "jr_out_of_order r = jr_rejected r" "jr_gaps r = 0"
    "jr_replays r = 0" "100 \<le> int d * jr_accepted r"
    using assms(1-8) by (rule sim_time_jitter_result)
  have "int d * low \<le> int d * jr_accepted r" using r(9) assms(9) by simp
  then have "low \<le> jr_accepted r" using assms(8) by simp
  then show thesis using r assms(10) by (intro that [of r p']) (simp_all add: jitter_outcome_def)
qed

lemma reordering_outcome:
  assumes "sim_laws C" and "sim_at C sk q p" and "q + 30 < 2 ^ 64" and "good_reorder w" and "0 < d"
    and "int d * low = 30" and "q' = q + 30"
  obtains r p' where "sim_packet_reordering C d w p = Inr (r, p')" and "sim_at C sk q' p'" and "jitter_outcome 30 low r"
proof -
  obtain r p' where r: "sim_packet_reordering C d w p = Inr (r, p')" "sim_at C sk (q + 30) p'" "jr_packets r = 30"
    "jr_accepted r + jr_rejected r = 30" "0 \<le> jr_rejected r" "jr_gaps r = 0" "jr_replays r = 0" "30 \<le> int d * jr_accepted r"
    using assms(1-5) by (rule sim_packet_reordering_result)
  have "int d * low \<le> int d * jr_accepted r" using r(8) assms(6) by simp
  then have "low \<le> jr_accepted r" using assms(5) by simp
  then show thesis using r assms(7) by (intro that [of r p']) (simp_all add: jitter_outcome_def)
qed

text \<open>What the evaluation draws and reads: jitter within the amplitude of its level, the sensor's frames in order.\<close>

definition good_evaluation :: "(nat \<Rightarrow> jitter_world) \<Rightarrow> (nat \<Rightarrow> reorder_world) \<Rightarrow> (nat \<Rightarrow> packet_inputs) \<Rightarrow>
    (nat \<Rightarrow> packet_inputs \<times> delivery) \<Rightarrow> bool" where
  "good_evaluation tw rw lat base =
     (good_jitter 1 (tw 0) \<and> good_jitter 5 (tw 1) \<and> good_jitter 10 (tw 2) \<and>
      good_reorder (rw 0) \<and> good_reorder (rw 1) \<and> good_reorder (rw 2) \<and>
      (\<forall>k<50. good_inputs (lat k) (frame_or_reset (lat k))) \<and>
      (\<forall>k<50. good_inputs (fst (base k)) (frame_or_reset (fst (base k)))))"

lemma time_jitter_scenarios_run:
  assumes "sim_laws C" and "sim_at C sk 0 p" and "good_jitter 1 (tw 0)" "good_jitter 5 (tw 1)" "good_jitter 10 (tw 2)"
  obtains r1 r2 r3 p' where "run_time_jitter_scenarios C tw p = Inr ([r1, r2, r3], p')" and "sim_at C sk 300 p'"
    and "jitter_outcome 100 100 r1" and "jitter_outcome 100 50 r2" and "jitter_outcome 100 25 r3"
    and "\<forall>r\<in>{r1, r2, r3}. jr_out_of_order r = jr_rejected r"
proof -
  obtain r1 p1 where a: "sim_time_jitter C 1 (tw 0) p = Inr (r1, p1)" "sim_at C sk 100 p1" "jitter_outcome 100 100 r1"
    "jr_out_of_order r1 = jr_rejected r1"
    by (rule time_jitter_outcome [OF assms(1,2) _ assms(3), where d = 1 and low = 100 and q' = 100]) simp_all
  obtain r2 p2 where b: "sim_time_jitter C 5 (tw 1) p1 = Inr (r2, p2)" "sim_at C sk 200 p2" "jitter_outcome 100 50 r2"
    "jr_out_of_order r2 = jr_rejected r2"
    by (rule time_jitter_outcome [OF assms(1) a(2) _ assms(4), where d = 2 and low = 50 and q' = 200]) simp_all
  obtain r3 p3 where c: "sim_time_jitter C 10 (tw 2) p2 = Inr (r3, p3)" "sim_at C sk 300 p3" "jitter_outcome 100 25 r3"
    "jr_out_of_order r3 = jr_rejected r3"
    by (rule time_jitter_outcome [OF assms(1) b(2) _ assms(5), where d = 4 and low = 25 and q' = 300]) simp_all
  have "run_time_jitter_scenarios C tw p = Inr ([r1, r2, r3], p3)"
    using a(1) b(1) c(1) by (simp add: run_time_jitter_scenarios_def TIME_JITTER_LEVELS_MS_def upt_rec numeral_2_eq_2)
  then show thesis using a b c by (intro that [of r1 r2 r3 p3]) simp_all
qed

lemma reordering_scenarios_run:
  assumes "sim_laws C" and "sim_at C sk 300 p" and "good_reorder (rw 0)" "good_reorder (rw 1)" "good_reorder (rw 2)"
  obtains r1 r2 r3 p' where "run_reordering_scenarios C rw p = Inr ([r1, r2, r3], p')" and "sim_at C sk 390 p'"
    and "jitter_outcome 30 15 r1" and "jitter_outcome 30 6 r2" and "jitter_outcome 30 3 r3"
proof -
  obtain r1 p1 where a: "sim_packet_reordering C 2 (rw 0) p = Inr (r1, p1)" "sim_at C sk 330 p1" "jitter_outcome 30 15 r1"
    by (rule reordering_outcome [OF assms(1,2) _ assms(3), where d = 2 and low = 15 and q' = 330]) simp_all
  obtain r2 p2 where b: "sim_packet_reordering C 5 (rw 1) p1 = Inr (r2, p2)" "sim_at C sk 360 p2" "jitter_outcome 30 6 r2"
    by (rule reordering_outcome [OF assms(1) a(2) _ assms(4), where d = 5 and low = 6 and q' = 360]) simp_all
  obtain r3 p3 where c: "sim_packet_reordering C 10 (rw 2) p2 = Inr (r3, p3)" "sim_at C sk 390 p3" "jitter_outcome 30 3 r3"
    by (rule reordering_outcome [OF assms(1) b(2) _ assms(5), where d = 10 and low = 3 and q' = 390]) simp_all
  have "run_reordering_scenarios C rw p = Inr ([r1, r2, r3], p3)"
    using a(1) b(1) c(1) by (simp add: run_reordering_scenarios_def REORDER_WINDOWS_def upt_rec numeral_2_eq_2)
  then show thesis using a b c by (intro that [of r1 r2 r3 p3]) simp_all
qed

text \<open>C17. The jitter evaluation returns, and reports this: with jitter of at most one millisecond every packet is
  accepted; at five and ten milliseconds at least 50 and 25 of 100 are, and the rejected ones are those
  counted out of order; shuffled in windows of 2, 5 and 10, at least 15, 6 and 3 of 30 are; the baseline
  accepts all 50. No packet that is merely late is ever counted as a replay, and no gap is reported.\<close>

theorem jitter_evaluation:
  assumes "sim_world C k" and "good_evaluation tw rw lat base"
  shows "\<exists>r1 r2 r3 s1 s2 s3. jitter_main C k tw rw lat base = Inr
      \<lparr>jo_time_jitter = [r1, r2, r3], jo_reordering = [s1, s2, s3],
       jo_baseline = \<lparr>jr_packets = 50, jr_accepted = 50, jr_rejected = 0, jr_out_of_order = 0, jr_gaps = 0, jr_replays = 0\<rparr>\<rparr> \<and>
    jitter_outcome 100 100 r1 \<and> jitter_outcome 100 50 r2 \<and> jitter_outcome 100 25 r3 \<and>
    (\<forall>r\<in>{r1, r2, r3}. jr_out_of_order r = jr_rejected r) \<and>
    jitter_outcome 30 15 s1 \<and> jitter_outcome 30 6 s2 \<and> jitter_outcome 30 3 s3"
proof -
  have laws: "sim_laws C" using assms(1) by (simp add: sim_world_def)
  note good = assms(2) [unfolded good_evaluation_def]
  obtain p0 where p0: "jitter_pipeline C k = Inr p0" "sim_at C (sk_signer k) 0 p0"
  proof -
    obtain p where p: "pipeline_with C k (Some CAR_NODE) = Inr p" "sim_ready C p" "sim_seq p = 0" "sgn_private (sp_signer p) = sk_signer k"
      using assms(1) by (rule sim_worldE)
    then show thesis by (intro that [of p]) (simp_all add: jitter_pipeline_def sim_at_def)
  qed
  obtain r1 r2 r3 p1 where a: "run_time_jitter_scenarios C tw p0 = Inr ([r1, r2, r3], p1)" "sim_at C (sk_signer k) 300 p1"
    "jitter_outcome 100 100 r1" "jitter_outcome 100 50 r2" "jitter_outcome 100 25 r3"
    "\<forall>r\<in>{r1, r2, r3}. jr_out_of_order r = jr_rejected r"
    by (rule time_jitter_scenarios_run [OF laws p0(2), of tw]) (use good in simp_all)
  obtain s1 s2 s3 p2 where b: "run_reordering_scenarios C rw p1 = Inr ([s1, s2, s3], p2)" "sim_at C (sk_signer k) 390 p2"
    "jitter_outcome 30 15 s1" "jitter_outcome 30 6 s2" "jitter_outcome 30 3 s3"
    by (rule reordering_scenarios_run [OF laws a(2), of rw]) (use good in simp_all)
  have lat: "\<forall>i\<in>set (map lat [0..<50]). good_inputs i (frame_or_reset i)" using good by auto
  obtain pkts p3 where c: "make_packets C (map lat [0..<50]) p2 = Inr (pkts, p3)" "sim_at C (sk_signer k) 440 p3"
    using make_packets_numbered [OF laws b(2) lat] by auto
  obtain p4 where d: "sim_no_jitter_baseline C base p3 = Inr (\<lparr>jr_packets = 50, jr_accepted = 50, jr_rejected = 0,
    jr_out_of_order = 0, jr_gaps = 0, jr_replays = 0\<rparr>, p4)"
    by (rule sim_no_jitter_baseline_result [OF laws c(2), of base]) (use good in simp, use good in blast, erule that)
  have "jitter_main C k tw rw lat base = Inr
      \<lparr>jo_time_jitter = [r1, r2, r3], jo_reordering = [s1, s2, s3],
       jo_baseline = \<lparr>jr_packets = 50, jr_accepted = 50, jr_rejected = 0, jr_out_of_order = 0, jr_gaps = 0, jr_replays = 0\<rparr>\<rparr>"
    using p0(1) a(1) b(1) c(1) d by (simp add: jitter_main_def N_LATENCY_PACKETS_def)
  then show ?thesis using a(3-6) b(3-5) by (intro exI conjI) assumption+
qed

definition sample_jitter :: jitter_world where
  "sample_jitter = (\<lambda>_. (sample_packet_inputs, FFin 1), \<lambda>_. sample_delivery)"

definition sample_reorder :: reorder_world where
  "sample_reorder = (\<lambda>_. sample_packet_inputs, \<lambda>_ i. i div 2, \<lambda>_. sample_delivery)"

lemma sample_evaluation_good:
  "good_evaluation (\<lambda>_. sample_jitter) (\<lambda>_. sample_reorder) (\<lambda>_. sample_packet_inputs) (\<lambda>_. (sample_packet_inputs, sample_delivery))"
  using sample_good by (simp add: good_evaluation_def good_jitter_def good_reorder_def sample_jitter_def sample_reorder_def
      sample_frame_taken)

theorem jitter_evaluation_witness:
  "\<exists>r. jitter_main demo_pyca sample_keys (\<lambda>_. sample_jitter) (\<lambda>_. sample_reorder) (\<lambda>_. sample_packet_inputs)
     (\<lambda>_. (sample_packet_inputs, sample_delivery)) = Inr r \<and> length (jo_time_jitter r) = 3 \<and> jr_accepted (jo_baseline r) = 50"
  using jitter_evaluation [OF sample_world sample_evaluation_good] by auto

end
