(* ===== verification/AttackScenarios.thy ===== *)
theory AttackScenarios
  imports SimPipeline
begin

text \<open>
  \<open>simulations/replay_attack_sim.py\<close>, and the pipeline that \<open>simulations/tampering_sim.py\<close> shares with
  it: packets made by the evaluation pipeline are recorded and put again to the relay's and the
  validator's checks, unchanged or with a raised number. What a packet takes from outside and the
  clock are arguments. The lemmas follow the numbers that the two checkers hold through making a
  packet, checking it and checking it again (\<open>attack_state\<close>); the theorem states which attacks are
  detected, and what exactly would have to happen for one to be missed.
\<close>

section \<open>The pipeline with its checkers\<close>

record attack_pipeline =
  at_pipe :: sim_pipeline
  at_relay :: integrity
  at_seq :: seqcheck

text \<open>Neither checker looks at timestamps; both simulations construct the same.\<close>

definition attack_pipeline_init :: "pyca \<Rightarrow> sim_keys \<Rightarrow> attack_pipeline res" where
  "attack_pipeline_init C k =
     rbind (pipeline_with C k None) (\<lambda>p.
       Inr \<lparr>at_pipe = p,
            at_relay = integrity_init RELAY_NODE MAX_TIMESTAMP_AGE_MS MAX_SEQUENCE_GAP False True,
            at_seq = seqcheck_init ''fia_validator'' SC_MAX_TIMESTAMP_AGE_MS SC_MAX_SEQUENCE_GAP False True\<rparr>)"

text \<open>A packet at all its stages; the replay simulation keeps the validator's and the relay's.\<close>

definition make_encrypted_packet :: "pyca \<Rightarrow> packet_inputs \<Rightarrow> attack_pipeline \<Rightarrow> (packet_stages \<times> attack_pipeline) res" where
  "make_encrypted_packet C i a = rbind (stages C i (pi_frame i) (at_pipe a)) (\<lambda>(s, p). Inr (s, a\<lparr>at_pipe := p\<rparr>))"

definition make_packet :: "pyca \<Rightarrow> packet_inputs \<Rightarrow> attack_pipeline \<Rightarrow> ((pydict \<times> pydict) \<times> attack_pipeline) res" where
  "make_packet C i a =
     rbind (make_encrypted_packet C i a) (\<lambda>(s, a'). Inr ((ps_validator s, ps_decrypted s), a'))"

section \<open>The checks\<close>

definition process_at_relay :: "clock \<Rightarrow> pydict \<Rightarrow> attack_pipeline \<Rightarrow> (bool \<times> attack_pipeline) res" where
  "process_at_relay now pkt a =
     rbind (keep (integrity_check (at_relay a) now pkt)) (\<lambda>(r, s). Inr (cr_passed r, a\<lparr>at_relay := s\<rparr>))"

datatype stage_outcome =
    StagePass
  | SignatureFail exn
  | SequenceFail "seq_message list"
  | ZkpFail zkp_reason

record validator_run =
  vr_passed :: bool
  vr_stages :: "(string \<times> stage_outcome) list"
  vr_reason :: string

text \<open>The stages run in order and the first failure ends the run; any exception of the first is a failure.\<close>

definition process_at_validator :: "pyca \<Rightarrow> delivery \<Rightarrow> pydict \<Rightarrow> attack_pipeline \<Rightarrow> (validator_run \<times> attack_pipeline) res" where
  "process_at_validator C dl pkt a =
     (let (sr, sv) = sv_verify C (dl_sig_stamp dl) pkt (sp_sig (at_pipe a));
          a1 = a\<lparr>at_pipe := (at_pipe a)\<lparr>sp_sig := sv\<rparr>\<rparr>
      in case sr of
        Inl e \<Rightarrow> Inr (\<lparr>vr_passed = False, vr_stages = [(''signature'', SignatureFail e)], vr_reason = ''signature_failed''\<rparr>, a1)
      | Inr _ \<Rightarrow>
          rbind (keep (sequence_check (at_seq a1) (dl_now dl) pkt)) (\<lambda>(r, chk).
            let a2 = a1\<lparr>at_seq := chk\<rparr>
            in if \<not> cr_passed r
               then Inr (\<lparr>vr_passed = False, vr_stages = [(''signature'', StagePass), (''sequence'', SequenceFail (cr_errors r))],
                      vr_reason = ''sequence_failed''\<rparr>, a2)
               else rbind (keep (zkp_verify_packet (dl_zkp_stamp dl) pkt (sp_zkp (at_pipe a2)))) (\<lambda>(z, zk).
                 let a3 = a2\<lparr>at_pipe := (at_pipe a2)\<lparr>sp_zkp := zk\<rparr>\<rparr>
                 in if \<not> cm_verified z
                    then Inr (\<lparr>vr_passed = False,
                           vr_stages = [(''signature'', StagePass), (''sequence'', StagePass), (''zkp'', ZkpFail (cm_reason z))],
                           vr_reason = ''zkp_failed''\<rparr>, a3)
                    else Inr (\<lparr>vr_passed = True,
                           vr_stages = [(''signature'', StagePass), (''sequence'', StagePass), (''zkp'', StagePass)],
                           vr_reason = ''all_checks_passed''\<rparr>, a3))))"

text \<open>One packet put to both: the relay's clock, and the delivery at the validator.\<close>

type_synonym visit = "clock \<times> delivery"

definition process_both :: "pyca \<Rightarrow> visit \<Rightarrow> pydict \<times> pydict \<Rightarrow> attack_pipeline \<Rightarrow> ((bool \<times> validator_run) \<times> attack_pipeline) res" where
  "process_both C t pk a =
     rbind (process_at_relay (fst t) (snd pk) a) (\<lambda>(ok, a1).
     rbind (process_at_validator C (snd t) (fst pk) a1) (\<lambda>(v, a2). Inr ((ok, v), a2)))"

section \<open>Replay attacks\<close>

datatype replay_report =
    SimpleReplay (legitimate_passed: bool) (relay_detected: bool) (validator_detected: bool) (simple_detected: bool)
  | SequenceManipulation pyval bool string
  | BatchReplay int int bool
  | DelayedReplay bool string
  | SequenceIncrement bool bool "(string \<times> stage_outcome) list"

definition sim_1_simple_replay :: "pyca \<Rightarrow> packet_inputs \<Rightarrow> visit \<Rightarrow> visit \<Rightarrow> attack_pipeline \<Rightarrow> (replay_report \<times> attack_pipeline) res" where
  "sim_1_simple_replay C i t t' a =
     rbind (make_packet C i a) (\<lambda>(pk, a1).
     rbind (process_both C t pk a1) (\<lambda>((_, legit), a2).
     rbind (process_both C t' pk a2) (\<lambda>((again, v), a3).
       Inr (SimpleReplay (vr_passed legit) (\<not> again) (\<not> vr_passed v) (\<not> again \<or> \<not> vr_passed v), a3))))"

definition sim_2_sequence_manipulation :: "pyca \<Rightarrow> packet_inputs \<Rightarrow> visit \<Rightarrow> delivery \<Rightarrow> attack_pipeline \<Rightarrow> (replay_report \<times> attack_pipeline) res" where
  "sim_2_sequence_manipulation C i t dl a =
     rbind (make_packet C i a) (\<lambda>(pk, a1).
     rbind (process_both C t pk a1) (\<lambda>(_, a2).
     rbind (dict_item (fst pk) ''sequence_no'') (\<lambda>old_seq.
     rbind (process_at_validator C dl (fst pk) a2) (\<lambda>(v, a3).
       Inr (SequenceManipulation old_seq (\<not> vr_passed v) (vr_reason v), a3)))))"

text \<open>Packets are made, checked and recorded; then all of them are put to the checks again.\<close>

fun capture :: "pyca \<Rightarrow> (packet_inputs \<times> visit) list \<Rightarrow> attack_pipeline \<Rightarrow> ((pydict \<times> pydict) list \<times> attack_pipeline) res" where
  "capture C [] a = Inr ([], a)"
| "capture C ((i, t) # xs) a =
     rbind (make_packet C i a) (\<lambda>(pk, a1).
     rbind (process_both C t pk a1) (\<lambda>(_, a2).
     rbind (capture C xs a2) (\<lambda>(pks, a3). Inr (pk # pks, a3))))"

fun replay_all :: "pyca \<Rightarrow> ((pydict \<times> pydict) \<times> visit) list \<Rightarrow> attack_pipeline \<Rightarrow> (int \<times> attack_pipeline) res" where
  "replay_all C [] a = Inr (0, a)"
| "replay_all C ((pk, t) # xs) a =
     rbind (process_both C t pk a) (\<lambda>((ok, v), a1).
     rbind (replay_all C xs a1) (\<lambda>(n, a2). Inr ((if \<not> ok \<or> \<not> vr_passed v then n + 1 else n), a2)))"

definition sim_3_batch_replay ::
  "pyca \<Rightarrow> (nat \<Rightarrow> packet_inputs \<times> visit) \<Rightarrow> (nat \<Rightarrow> visit) \<Rightarrow> attack_pipeline \<Rightarrow> (replay_report \<times> attack_pipeline) res" where
  "sim_3_batch_replay C ext again a =
     rbind (capture C (map ext [0..<5]) a) (\<lambda>(pks, a1).
     rbind (replay_all C (zip pks (map again [0..<5])) a1) (\<lambda>(n, a2). Inr (BatchReplay 5 n (n = 5), a2)))"

text \<open>The first packet comes again after three newer ones.\<close>

definition sim_4_delayed_replay ::
  "pyca \<Rightarrow> (nat \<Rightarrow> packet_inputs \<times> visit) \<Rightarrow> delivery \<Rightarrow> attack_pipeline \<Rightarrow> (replay_report \<times> attack_pipeline) res" where
  "sim_4_delayed_replay C ext dl a =
     rbind (make_packet C (fst (ext 0)) a) (\<lambda>(pk, a1).
     rbind (process_both C (snd (ext 0)) pk a1) (\<lambda>(_, a2).
     rbind (capture C (map ext [1..<4]) a2) (\<lambda>(_, a3).
     rbind (process_at_validator C dl (fst pk) a3) (\<lambda>(v, a4).
       Inr (DelayedReplay (\<not> vr_passed v) (vr_reason v), a4)))))"

text \<open>
  The number in the packet is raised by 1000, in the dict and in the eight bytes of the header that
  hold it; the signature stays. A number that is no integer cannot be written as bytes.
\<close>

definition raised_number :: "pyval \<Rightarrow> int res" where
  "raised_number v =
     (case int_of v of Some n \<Rightarrow> Inr (n + 1000)
      | None \<Rightarrow> (case v of PFloat _ \<Rightarrow> Inl AttributeErr | _ \<Rightarrow> Inl TypeErr))"

definition unsigned_bytes :: "nat \<Rightarrow> int \<Rightarrow> bytes res" where
  "unsigned_bytes w n = (if 0 \<le> n \<and> n < 256 ^ w then Inr (be_bytes w (nat n)) else Inl OverflowErr)"

definition with_number :: "bytes \<Rightarrow> bytes \<Rightarrow> bytes" where
  "with_number num header = take 8 header @ num @ drop 16 header"

definition forge_increment :: "pydict \<Rightarrow> pydict res" where
  "forge_increment pkt =
     rbind (rbind (dict_item pkt ''sequence_no'') raised_number) (\<lambda>n.
     rbind (rbind (dict_item pkt ''header'') as_bytes) (\<lambda>h.
       if length h < 8 + 8 then Inl ValueErr
       else rbind (unsigned_bytes 8 n) (\<lambda>num.
         Inr (dict_set ''sequence_no'' (PInt n) (dict_set ''header'' (PBytes (with_number num h)) pkt)))))"

definition is_signature_fail :: "stage_outcome \<Rightarrow> bool" where
  "is_signature_fail s = (case s of SignatureFail _ \<Rightarrow> True | _ \<Rightarrow> False)"

definition sim_5_sequence_increment :: "pyca \<Rightarrow> packet_inputs \<Rightarrow> visit \<Rightarrow> delivery \<Rightarrow> attack_pipeline \<Rightarrow> (replay_report \<times> attack_pipeline) res" where
  "sim_5_sequence_increment C i t dl a =
     rbind (make_packet C i a) (\<lambda>(pk, a1).
     rbind (process_both C t pk a1) (\<lambda>(_, a2).
     rbind (forge_increment (fst pk)) (\<lambda>fake.
     rbind (process_at_validator C dl fake a2) (\<lambda>(v, a3).
       Inr (SequenceIncrement (\<not> vr_passed v)
              (case map_of (vr_stages v) ''signature'' of Some s \<Rightarrow> is_signature_fail s | None \<Rightarrow> False) (vr_stages v), a3)))))"

text \<open>The simulation: the five attacks one after the other on one pipeline, and how many were detected.\<close>

definition report_detected :: "replay_report \<Rightarrow> bool" where
  "report_detected r =
     (case r of SimpleReplay _ _ _ d \<Rightarrow> d | SequenceManipulation _ d _ \<Rightarrow> d | BatchReplay _ _ d \<Rightarrow> d
      | DelayedReplay d _ \<Rightarrow> d | SequenceIncrement d _ _ \<Rightarrow> d)"

record replay_summary =
  rs_total :: int
  rs_detected :: int
  rs_results :: "replay_report list"

text \<open>Twelve packets are made; \<open>ext\<close> gives what each takes from outside, \<open>again\<close> the replays' visits.\<close>

definition replay_main ::
  "pyca \<Rightarrow> sim_keys \<Rightarrow> (nat \<Rightarrow> packet_inputs \<times> visit) \<Rightarrow> (nat \<Rightarrow> visit) \<Rightarrow> replay_summary res" where
  "replay_main C k ext again =
     rbind (attack_pipeline_init C k) (\<lambda>a0.
     rbind (sim_1_simple_replay C (fst (ext 0)) (snd (ext 0)) (again 0) a0) (\<lambda>(r1, a1).
     rbind (sim_2_sequence_manipulation C (fst (ext 1)) (snd (ext 1)) (snd (again 1)) a1) (\<lambda>(r2, a2).
     rbind (sim_3_batch_replay C (\<lambda>j. ext (2 + j)) (\<lambda>j. again (2 + j)) a2) (\<lambda>(r3, a3).
     rbind (sim_4_delayed_replay C (\<lambda>j. ext (7 + j)) (snd (again 7)) a3) (\<lambda>(r4, a4).
     rbind (sim_5_sequence_increment C (fst (ext 11)) (snd (ext 11)) (snd (again 8)) a4) (\<lambda>(r5, _).
       let rs = [r1, r2, r3, r4, r5]
       in Inr \<lparr>rs_total = int (length rs), rs_detected = int (length (filter report_detected rs)), rs_results = rs\<rparr>))))))"

section \<open>The numbers the checkers hold\<close>

text \<open>The relay's checker as the simulations run it.\<close>

definition relay_checker :: "integrity \<Rightarrow> bool" where
  "relay_checker s = (ic_inv s \<and> \<not> ic_check_timestamps s \<and> ic_check_signatures s)"

abbreviation relay_last :: "integrity \<Rightarrow> int" where
  "relay_last s \<equiv> last_int s (PStr CAR_NODE)"


lemma relay_step:
  assumes "relay_checker s" and "pkt_node d = PStr CAR_NODE" and "pkt_seq d = PInt q" and "ic_has_sig d" and "0 < q"
  obtains r s' where "integrity_check s now d = (Inr r, s')" and "cr_passed r \<longleftrightarrow> relay_last s < q" and "relay_checker s'"
    and "relay_last s' = max (relay_last s) q"
proof -
  have inv: "ic_inv s" "\<not> ic_check_timestamps s" "ic_check_signatures s" using assms(1) by (simp_all add: relay_checker_def)
  have pre: "is_int (pkt_seq d)" "hashable (pkt_node d)" using assms(2,3) by (simp_all add: is_int_def)
  have sn: "seq_num d = q" using assms(3) by (simp add: seq_num_def)
  let ?r = "ic_result s now d Fresh"
  obtain s' where run: "integrity_check s now d = (Inr ?r, s')"
    using inv(2) unfolding integrity_check_eq [OF inv(1) pre] by simp
  have pass: "cr_passed ?r \<longleftrightarrow> relay_last s < q"
    using assms(2,4,5) sn by (simp add: ic_result_def Let_def is_stale_def)
  note cs = integrity_check_cases [OF inv(1) pre run]
  have "ic_config s' = ic_config s" using ic_config_check [OF inv(1) pre, of now] run by simp
  then have "relay_checker s'" using cs(1) inv by (simp add: relay_checker_def ic_config_def)
  moreover have "relay_last s' = max (relay_last s) q"
    using cs(3) [of "PStr CAR_NODE"] pass sn assms(2) by (simp add: ic_accepts_def)
  ultimately show thesis by (rule that [OF run pass])
qed

lemma new_relay_checker [simp]:
  "relay_checker (integrity_init n age g False True)" "relay_last (integrity_init n age g False True) = 0"
  by (simp_all add: relay_checker_def ic_inv_init) (simp_all add: integrity_init_def last_int_def ic_last_def)

text \<open>
  A pipeline built with the keys \<open>k\<close> that has made \<open>q\<close> packets, whose validator last accepted number
  \<open>l\<close> and whose relay last accepted number \<open>m\<close>.
\<close>

definition attack_state :: "pyca \<Rightarrow> sim_keys \<Rightarrow> int \<Rightarrow> int \<Rightarrow> int \<Rightarrow> attack_pipeline \<Rightarrow> bool" where
  "attack_state C k q l m a =
     (sim_ready C (at_pipe a) \<and> sgn_private (sp_signer (at_pipe a)) = sk_signer k \<and>
      dec_key (sp_decryptor (at_pipe a)) CAR_NODE = Some (shared_key C (sk_car k) (sk_relay k)) \<and>
      sim_seq (at_pipe a) = q \<and> 0 \<le> q \<and>
      car_checker (at_seq a) \<and> car_last (at_seq a) = l \<and> sc_max_gap (at_seq a) = SC_MAX_SEQUENCE_GAP \<and>
      relay_checker (at_relay a) \<and> relay_last (at_relay a) = m)"

text \<open>The two forms in which packet \<open>n\<close> of the car is recorded: at the validator and at the relay.\<close>

definition captured :: "pyca \<Rightarrow> sim_keys \<Rightarrow> int \<Rightarrow> bytes \<Rightarrow> bytes \<Rightarrow> pydict \<times> pydict \<Rightarrow> bool" where
  "captured C k n h pl pk =
     (0 < n \<and> (\<exists>s. sgn_private s = sk_signer k \<and> honest_packet C s n (fst pk) h pl) \<and>
      pkt_node (snd pk) = PStr CAR_NODE \<and> pkt_seq (snd pk) = PInt n \<and> ic_has_sig (snd pk))"

lemma attack_pipeline_starts:
  assumes "sim_world C k"
  obtains a where "attack_pipeline_init C k = Inr a" and "attack_state C k 0 0 0 a"
proof -
  obtain p where p: "pipeline_with C k None = Inr p" "sim_ready C p" "sim_seq p = 0" "sgn_private (sp_signer p) = sk_signer k"
    "dec_key (sp_decryptor p) CAR_NODE = Some (shared_key C (sk_car k) (sk_relay k))"
    using assms by (rule sim_worldE)
  let ?a = "\<lparr>at_pipe = p, at_relay = integrity_init RELAY_NODE MAX_TIMESTAMP_AGE_MS MAX_SEQUENCE_GAP False True,
      at_seq = new_sequence_checker SC_MAX_SEQUENCE_GAP\<rparr>"
  have "attack_pipeline_init C k = Inr ?a" using p(1) by (simp add: attack_pipeline_init_def new_sequence_checker_def)
  moreover have "attack_state C k 0 0 0 ?a" using p by (simp add: attack_state_def)
  ultimately show thesis by (rule that)
qed

text \<open>The payload and the header of packet \<open>n\<close>, made from the inputs \<open>i\<close>.\<close>

abbreviation payload_of :: "packet_inputs \<Rightarrow> bytes" where
  "payload_of i \<equiv> frame_payload (pi_frame i)"

abbreviation header_of :: "int \<Rightarrow> packet_inputs \<Rightarrow> bytes" where
  "header_of n i \<equiv> packed (sim_header n (pi_now i) (payload_of i))"

lemma make_encrypted:
  assumes "sim_laws C" and "attack_state C k q l m a" and "good_inputs i (pi_frame i)" and "q + 1 < 2 ^ 64"
  obtains s a' ct where "make_encrypted_packet C i a = Inr (s, a')" and "attack_state C k (q + 1) l m a'"
    and "captured C k (q + 1) (header_of (q + 1) i) (payload_of i) (ps_validator s, ps_decrypted s)"
    and "struct_pack (sim_header (q + 1) (pi_now i) (payload_of i)) = Inr (header_of (q + 1) i)"
    and "aead_encrypt C (shared_key C (sk_car k) (sk_relay k)) (pi_nonce i) (payload_of i) (Some (header_of (q + 1) i)) = Inr ct"
    and "map_of (ps_encrypted s) ''node_id'' = Some (PStr CAR_NODE)" and "map_of (ps_encrypted s) ''nonce_bytes'' = Some (PBytes (pi_nonce i))"
    and "map_of (ps_encrypted s) ''ciphertext_bytes'' = Some (PBytes ct)"
    and "map_of (ps_encrypted s) ''header'' = Some (PBytes (header_of (q + 1) i))"
    and "map_of (ps_validator s) ''zkp_commitment'' = Some (PStr (zkp_digest (payload_of i) (pi_random i)))"
    and "map_of (ps_validator s) ''zkp_nonce'' = Some (PStr (to_hex (pi_random i)))"
proof -
  let ?p = "at_pipe a" and ?q = "q + 1"
  have st: "sim_ready C ?p" "sgn_private (sp_signer ?p) = sk_signer k" "sim_seq ?p = q" "0 \<le> q"
    "dec_key (sp_decryptor ?p) CAR_NODE = Some (shared_key C (sk_car k) (sk_relay k))" using assms(2) by (simp_all add: attack_state_def)
  have laws: "aead_law C" "aead_total C" "sig_law C" using assms(1) by (simp_all add: sim_laws_def)
  have q: "0 \<le> bld_sequence (sp_builder ?p)" "bld_sequence (sp_builder ?p) + 1 < 2 ^ 64" using st assms(4) by simp_all
  obtain s p' h pl ct key js where run: "stages C i (pi_frame i) ?p = Inr (s, p')" and p': "sim_ready C p'"
      "bld_sequence (sp_builder p') = bld_sequence (sp_builder ?p) + 1" "sgn_private (sp_signer p') = sgn_private (sp_signer ?p)"
    and hon: "honest_packet C (sp_signer ?p) (bld_sequence (sp_builder ?p) + 1) (ps_validator s) h pl"
    and h: "struct_pack (car_header (sp_builder ?p) (pi_now i) pl) = Inr h"
    and key: "engine_key (sp_car_engine ?p) = Some key" and ct: "aead_encrypt C key (pi_nonce i) pl (Some h) = Inr ct"
    and enc: "ps_encrypted s = encrypted_fields (sp_encryptor ?p) (pi_encrypted_at i) (ps_signed s) (pi_nonce i) ct h pl"
    and dec: "ps_decrypted s = opened_fields (sp_decryptor ?p) (ps_encrypted s) pl js"
    and sg: "ps_signed s = signed_fields (sp_signer ?p) (pi_signed_at i) (ed_sign C (sgn_private (sp_signer ?p)) (h @ pl))
      (built_packet (sp_builder ?p) (bld_sequence (sp_builder ?p) + 1) (clock_ms (pi_now i)) pl h)"
    and key': "dec_key (sp_decryptor p') CAR_NODE = Some key" and pl: "pl = payload_of i"
    and zk: "map_of (ps_validator s) ''zkp_commitment'' = Some (PStr (zkp_digest pl (pi_random i)))"
      "map_of (ps_validator s) ''zkp_nonce'' = Some (PStr (to_hex (pi_random i)))"
    using laws st(1) assms(3) q by (rule stages_made)
  have hh: "struct_pack (sim_header ?q (pi_now i) pl) = Inr h" using h sim_header_of [OF st(1)] st(3) by simp
  then have hq: "h = header_of ?q i" by (simp add: packed_def pl)
  have k: "key = shared_key C (sk_car k) (sk_relay k)" using st(1,5) key by (auto simp: sim_ready_def)
  let ?sig = "ed_sign C (sgn_private (sp_signer ?p)) (h @ pl)"
  have node: "sgn_node_id (sp_signer ?p) = CAR_NODE" using st(1) by (simp add: sim_ready_def)
  have "length ?sig = 64" using laws(3) by (simp add: sig_law_def)
  then have "?sig \<noteq> []" by auto
  then have "to_hex ?sig \<noteq> []" by (simp add: to_hex_eq_Nil)
  then have relay: "pkt_node (ps_decrypted s) = PStr CAR_NODE" "pkt_seq (ps_decrypted s) = PInt ?q" "ic_has_sig (ps_decrypted s)"
    by (simp_all add: dec enc sg opened_fields_def encrypted_fields_def signed_fields_def built_packet_def pkt_node_def pkt_seq_def
        ic_has_sig_def dict_get_def dict_get_or_def py_or_def node st(3))
  have encm: "map_of (ps_encrypted s) ''node_id'' = Some (PStr CAR_NODE)" "map_of (ps_encrypted s) ''nonce_bytes'' = Some (PBytes (pi_nonce i))"
    "map_of (ps_encrypted s) ''ciphertext_bytes'' = Some (PBytes ct)" "map_of (ps_encrypted s) ''header'' = Some (PBytes h)"
    by (simp_all add: enc sg encrypted_fields_def signed_fields_def built_packet_def dict_get_def dict_get_or_def node)
  have cap: "captured C k ?q h pl (ps_validator s, ps_decrypted s)"
    using hon relay st by (auto simp: captured_def)
  let ?a = "a\<lparr>at_pipe := p'\<rparr>"
  have mk: "make_encrypted_packet C i a = Inr (s, ?a)" using run by (simp add: make_encrypted_packet_def)
  have st': "attack_state C k ?q l m ?a" using assms(2) p' st key' k by (simp add: attack_state_def)
  show thesis
    using mk st' cap hh ct encm zk unfolding pl hq k by (rule that)
qed

lemma make_captured:
  assumes "sim_laws C" and "attack_state C k q l m a" and "good_inputs i (pi_frame i)" and "q + 1 < 2 ^ 64"
  obtains pk a' where "make_packet C i a = Inr (pk, a')" and "attack_state C k (q + 1) l m a'"
    and "captured C k (q + 1) (header_of (q + 1) i) (payload_of i) pk"
    and "struct_pack (sim_header (q + 1) (pi_now i) (payload_of i)) = Inr (header_of (q + 1) i)"
proof -
  obtain s a' ct where "make_encrypted_packet C i a = Inr (s, a')" and st: "attack_state C k (q + 1) l m a'"
    and cap: "captured C k (q + 1) (header_of (q + 1) i) (payload_of i) (ps_validator s, ps_decrypted s)"
      "struct_pack (sim_header (q + 1) (pi_now i) (payload_of i)) = Inr (header_of (q + 1) i)"
    using assms by (rule make_encrypted)
  then have "make_packet C i a = Inr ((ps_validator s, ps_decrypted s), a')" by (simp add: make_packet_def)
  then show thesis using st cap by (rule that)
qed

lemma relay_visit:
  assumes "attack_state C k q l m a" and "captured C k n h pl pk"
  obtains a' where "process_at_relay now (snd pk) a = Inr (m < n, a')" and "attack_state C k q l (max m n) a'"
proof -
  obtain r s' where r: "integrity_check (at_relay a) now (snd pk) = (Inr r, s')" "cr_passed r \<longleftrightarrow> relay_last (at_relay a) < n"
    "relay_checker s'" "relay_last s' = max (relay_last (at_relay a)) n"
    using assms by (elim relay_step [of "at_relay a" "snd pk" n, rotated -1]) (auto simp: attack_state_def captured_def)
  have "process_at_relay now (snd pk) a = Inr (m < n, a\<lparr>at_relay := s'\<rparr>)"
    using r assms(1) by (simp add: process_at_relay_def attack_state_def)
  moreover have "attack_state C k q l (max m n) (a\<lparr>at_relay := s'\<rparr>)" using r(3,4) assms(1) by (auto simp: attack_state_def)
  ultimately show thesis by (rule that)
qed

text \<open>An unchanged packet is accepted or refused by its number alone, and refused as out of sequence.\<close>

lemma validator_visit:
  assumes laws: "sim_laws C" and st: "attack_state C k q l m a" and cap: "captured C k n h pl pk"
  obtains v a' where "process_at_validator C dl (fst pk) a = Inr (v, a')" and "vr_passed v \<longleftrightarrow> l < n"
    and "vr_reason v = (if l < n then ''all_checks_passed'' else ''sequence_failed'')"
    and "attack_state C k q (max l n) m a'"
proof -
  obtain s where s: "honest_packet C s n (fst pk) h pl" "sgn_private s = sgn_private (sp_signer (at_pipe a))" "0 < n"
    using st cap by (auto simp: attack_state_def captured_def)
  have pre: "sig_law C" "sim_ready C (at_pipe a)" "car_checker (at_seq a)" using laws st by (simp_all add: sim_laws_def attack_state_def)
  obtain r chk' z zk where sv: "sv_verify C (dl_sig_stamp dl) (fst pk) (sp_sig (at_pipe a)) = (Inr (verify_result (PStr CAR_NODE) (dl_sig_stamp dl)),
      (sp_sig (at_pipe a))\<lparr>sv_verified := sv_verified (sp_sig (at_pipe a)) + 1\<rparr>)"
    and sq: "sequence_check (at_seq a) (dl_now dl) (fst pk) = (Inr r, chk')" "cr_passed r \<longleftrightarrow> car_last (at_seq a) < n"
      "checker_moved (at_seq a) n chk'"
    and z: "zkp_verify_packet (dl_zkp_stamp dl) (fst pk) (sp_zkp (at_pipe a)) = (Inr z, zk)" "cm_verified z"
    using pre(1,2) s(1,2) pre(3) s(3)
    by (rule honest_checks [where stamp = "dl_sig_stamp dl" and now = "dl_now dl" and stamp' = "dl_zkp_stamp dl"])
  let ?sv = "(sp_sig (at_pipe a))\<lparr>sv_verified := sv_verified (sp_sig (at_pipe a)) + 1\<rparr>"
  have l: "car_last (at_seq a) = l" using st by (simp add: attack_state_def)
  have ready: "sim_ready C ((at_pipe a)\<lparr>sp_sig := ?sv, sp_zkp := zk\<rparr>)" "sim_ready C ((at_pipe a)\<lparr>sp_sig := ?sv\<rparr>)"
    using pre(2) by (simp_all add: sim_ready_def)
  have moved: "car_checker chk'" "car_last chk' = max l n" "sc_max_gap chk' = sc_max_gap (at_seq a)"
    using sq(3) l by (simp_all add: checker_moved_def)
  show thesis
  proof (cases "l < n")
    case True
    let ?a = "a\<lparr>at_pipe := (at_pipe a)\<lparr>sp_sig := ?sv, sp_zkp := zk\<rparr>, at_seq := chk'\<rparr>"
    have run: "process_at_validator C dl (fst pk) a = Inr (\<lparr>vr_passed = True,
        vr_stages = [(''signature'', StagePass), (''sequence'', StagePass), (''zkp'', StagePass)],
        vr_reason = ''all_checks_passed''\<rparr>, ?a)"
      using sv sq(1,2) z l True by (simp add: process_at_validator_def)
    have "attack_state C k q (max l n) m ?a" using st moved ready by (simp add: attack_state_def)
    then show thesis using True by (intro that [OF run]) simp_all
  next
    case False
    let ?a = "a\<lparr>at_pipe := (at_pipe a)\<lparr>sp_sig := ?sv\<rparr>, at_seq := chk'\<rparr>"
    have run: "process_at_validator C dl (fst pk) a = Inr (\<lparr>vr_passed = False,
        vr_stages = [(''signature'', StagePass), (''sequence'', SequenceFail (cr_errors r))], vr_reason = ''sequence_failed''\<rparr>, ?a)"
      using sv sq(1,2) l False by (simp add: process_at_validator_def)
    have "attack_state C k q (max l n) m ?a" using st moved ready by (simp add: attack_state_def)
    then show thesis using False by (intro that [OF run]) simp_all
  qed
qed

lemma both_visit:
  assumes "sim_laws C" and "attack_state C k q l m a" and "captured C k n h pl pk"
  obtains v a' where "process_both C t pk a = Inr ((m < n, v), a')" and "vr_passed v \<longleftrightarrow> l < n"
    and "attack_state C k q (max l n) (max m n) a'"
proof -
  obtain a1 where a1: "process_at_relay (fst t) (snd pk) a = Inr (m < n, a1)" "attack_state C k q l (max m n) a1"
    using assms(2,3) by (rule relay_visit)
  obtain v a2 where a2: "process_at_validator C (snd t) (fst pk) a1 = Inr (v, a2)" "vr_passed v \<longleftrightarrow> l < n"
    "attack_state C k q (max l n) (max m n) a2"
    using assms(1) a1(2) assms(3) by (rule validator_visit)
  have "process_both C t pk a = Inr ((m < n, v), a2)" using a1(1) a2(1) by (simp add: process_both_def)
  then show thesis using a2(2,3) by (rule that)
qed

section \<open>Replays are detected\<close>

lemma genuine_visit:
  assumes "sim_laws C" and "attack_state C k q q q a" and "good_inputs i (pi_frame i)" and "q + 1 < 2 ^ 64"
  obtains pk a1 v a2 where "make_packet C i a = Inr (pk, a1)" and "process_both C t pk a1 = Inr ((True, v), a2)"
    and "vr_passed v" and "captured C k (q + 1) (header_of (q + 1) i) (payload_of i) pk"
    and "struct_pack (sim_header (q + 1) (pi_now i) (payload_of i)) = Inr (header_of (q + 1) i)"
    and "attack_state C k (q + 1) (q + 1) (q + 1) a2"
proof -
  obtain pk a1 where mk: "make_packet C i a = Inr (pk, a1)" and st: "attack_state C k (q + 1) q q a1"
    and cap: "captured C k (q + 1) (header_of (q + 1) i) (payload_of i) pk"
    and hdr: "struct_pack (sim_header (q + 1) (pi_now i) (payload_of i)) = Inr (header_of (q + 1) i)"
    using assms by (rule make_captured)
  obtain v a2 where v: "process_both C t pk a1 = Inr ((q < q + 1, v), a2)" "vr_passed v \<longleftrightarrow> q < q + 1"
    "attack_state C k (q + 1) (max q (q + 1)) (max q (q + 1)) a2"
    using assms(1) st cap by (rule both_visit)
  then have "process_both C t pk a1 = Inr ((True, v), a2)" "vr_passed v" "attack_state C k (q + 1) (q + 1) (q + 1) a2"
    by simp_all
  then show thesis using cap hdr by (intro that [OF mk])
qed

text \<open>A packet recorded earlier, whatever came since.\<close>

definition recorded :: "pyca \<Rightarrow> sim_keys \<Rightarrow> int \<Rightarrow> pydict \<times> pydict \<Rightarrow> bool" where
  "recorded C k q pk = (\<exists>n h pl. captured C k n h pl pk \<and> n \<le> q)"

lemma replayed_visit:
  assumes "sim_laws C" and "attack_state C k q q q a" and "recorded C k q pk"
  obtains v a' where "process_both C t pk a = Inr ((False, v), a')" and "\<not> vr_passed v" and "attack_state C k q q q a'"
proof -
  obtain n h pl where n: "captured C k n h pl pk" "n \<le> q" using assms(3) by (auto simp: recorded_def)
  then obtain v a' where "process_both C t pk a = Inr ((q < n, v), a')" "vr_passed v \<longleftrightarrow> q < n"
    "attack_state C k q (max q n) (max q n) a'"
    using assms(1,2) by (elim both_visit)
  with n(2) have "process_both C t pk a = Inr ((False, v), a')" "\<not> vr_passed v" "attack_state C k q q q a'"
    by (simp_all add: max_absorb1)
  then show thesis by (rule that)
qed

lemma replayed_at_validator:
  assumes "sim_laws C" and "attack_state C k q q q a" and "recorded C k q pk"
  obtains v a' where "process_at_validator C dl (fst pk) a = Inr (v, a')" and "\<not> vr_passed v"
    and "vr_reason v = ''sequence_failed''" and "attack_state C k q q q a'"
proof -
  obtain n h pl where n: "captured C k n h pl pk" "n \<le> q" using assms(3) by (auto simp: recorded_def)
  then obtain v a' where "process_at_validator C dl (fst pk) a = Inr (v, a')" "vr_passed v \<longleftrightarrow> q < n"
    "vr_reason v = (if q < n then ''all_checks_passed'' else ''sequence_failed'')" "attack_state C k q (max q n) q a'"
    using assms(1,2) by (elim validator_visit)
  with n(2) have "process_at_validator C dl (fst pk) a = Inr (v, a')" "\<not> vr_passed v"
    "vr_reason v = ''sequence_failed''" "attack_state C k q q q a'"
    by (simp_all add: max_absorb1)
  then show thesis by (rule that)
qed

lemma capture_records:
  assumes "sim_laws C" and "attack_state C k q q q a" and "\<forall>x\<in>set xs. good_inputs (fst x) (pi_frame (fst x))"
    and "q + int (length xs) < 2 ^ 64"
  shows "\<exists>pks a'. capture C xs a = Inr (pks, a') \<and> length pks = length xs \<and>
    (\<forall>pk\<in>set pks. recorded C k (q + int (length xs)) pk) \<and>
    (let n = q + int (length xs) in attack_state C k n n n a')"
  using assms(2-)
proof (induction xs arbitrary: q a)
  case Nil
  then show ?case by simp
next
  case (Cons x xs)
  obtain i t where x: "x = (i, t)" by (cases x)
  have "good_inputs i (pi_frame i)" "q + 1 < 2 ^ 64" using Cons.prems(2,3) x by simp_all
  then obtain pk a1 v a2 where g: "make_packet C i a = Inr (pk, a1)" "process_both C t pk a1 = Inr ((True, v), a2)"
    "captured C k (q + 1) (header_of (q + 1) i) (payload_of i) pk" "attack_state C k (q + 1) (q + 1) (q + 1) a2"
    using assms(1) Cons.prems(1) by (elim genuine_visit)
  obtain pks a' where r: "capture C xs a2 = Inr (pks, a')" "length pks = length xs"
    "\<forall>pk\<in>set pks. recorded C k (q + 1 + int (length xs)) pk"
    "attack_state C k (q + 1 + int (length xs)) (q + 1 + int (length xs)) (q + 1 + int (length xs)) a'"
    using Cons.IH [OF g(4)] Cons.prems(2,3) by (auto simp: Let_def)
  have "recorded C k (q + 1 + int (length xs)) pk" using g(3) unfolding recorded_def by (intro exI) auto
  then show ?case using x g(1,2) r by (simp add: Let_def add.assoc)
qed

lemma replay_all_detected:
  assumes "sim_laws C" and "attack_state C k q q q a" and "\<forall>x\<in>set xs. recorded C k q (fst x)"
  shows "\<exists>a'. replay_all C xs a = Inr (int (length xs), a') \<and> attack_state C k q q q a'"
  using assms(2-)
proof (induction xs arbitrary: a)
  case Nil
  then show ?case by simp
next
  case (Cons x xs)
  obtain pk t where x: "x = (pk, t)" by (cases x)
  have "recorded C k q pk" using Cons.prems(2) x by simp
  then obtain v a1 where v: "process_both C t pk a = Inr ((False, v), a1)" "\<not> vr_passed v" "attack_state C k q q q a1"
    using assms(1) Cons.prems(1) by (elim replayed_visit)
  obtain a' where "replay_all C xs a1 = Inr (int (length xs), a')" "attack_state C k q q q a'"
    using Cons.IH [OF v(3)] Cons.prems(2) by auto
  then show ?case using x v(1) by (simp add: add.commute)
qed

text \<open>The forged header is the header packed with the raised number.\<close>

lemma with_number_pack:
  assumes "struct_pack hdr = Inr h" and "0 \<le> n" and "n < 2 ^ 64"
  shows "struct_pack (hdr\<lparr>h_sequence_no := n\<rparr>) = Inr (with_number (be_bytes 8 (nat n)) h)"
proof -
  have fits: "header_fits hdr" and h: "h = concat (header_fields hdr)" using assms(1) by (auto simp: struct_pack_def split: if_splits)
  have "header_fits (hdr\<lparr>h_sequence_no := n\<rparr>)" using fits assms(2,3) by (simp add: header_fits_def fits_def)
  moreover have "with_number (be_bytes 8 (nat n)) h = concat (header_fields (hdr\<lparr>h_sequence_no := n\<rparr>))"
    by (simp add: h with_number_def header_fields_def)
  ultimately show ?thesis by (simp add: struct_pack_def)
qed

text \<open>The signature check of a packet of the car in which anything else may have been altered.\<close>

lemma sv_verify_car:
  assumes "sim_ready C p" and "map_of d ''original_node'' = Some (PStr CAR_NODE)" and "map_of d ''header'' = Some (PBytes h)"
    and "map_of d ''payload_bytes'' = Some (PBytes pl)" and "map_of d ''signature_bytes'' = Some (PBytes sg)"
    and "h \<noteq> []" "pl \<noteq> []" "length sg = 64"
  shows "sv_verify C stamp d (sp_sig p) =
    (if ed_verify C (ed_public C (sgn_private (sp_signer p))) sg (h @ pl)
     then (Inr (verify_result (PStr CAR_NODE) stamp), (sp_sig p)\<lparr>sv_verified := sv_verified (sp_sig p) + 1\<rparr>)
     else (Inl InvalidSignature, count_sig_rejected (sp_sig p)))"
proof -
  have node: "CAR_NODE \<noteq> []" by (simp add: CAR_NODE_def)
  have "sig_identity d = PStr CAR_NODE" "resolve_sig d = Inr sg" "resolve_data d = Inr (h @ pl)"
    using assms node by (simp_all add: sig_identity_def resolve_sig_def resolve_data_def dict_get_def dict_get_or_def
        py_or_def SIGNATURE_SIZE_def)
  moreover have "map_of (sv_registry (sp_sig p)) CAR_NODE = Some (ed_public C (sgn_private (sp_signer p)))"
    using assms(1) by (simp add: sim_ready_def signer_public_def)
  ultimately show ?thesis using node by (simp add: sv_verify_def sig_raise_def Let_def)
qed

lemma forged_visit:
  assumes laws: "sim_laws C" and st: "attack_state C k q q q a" and cap: "captured C k q h pl pk"
    and hdr: "struct_pack hdr = Inr h" and q: "q + 1000 < 2 ^ 64"
  defines "forged \<equiv> with_number (be_bytes 8 (nat (q + 1000))) h"
  obtains fake v a' where "forge_increment (fst pk) = Inr fake" and "process_at_validator C dl fake a = Inr (v, a')"
    and "vr_passed v \<longleftrightarrow> ed_verify C (ed_public C (sk_signer k)) (ed_sign C (sk_signer k) (h @ pl)) (forged @ pl)"
    and "map_of (vr_stages v) ''signature'' = Some (if vr_passed v then StagePass else SignatureFail InvalidSignature)"
proof -
  let ?d = "fst pk"
  obtain n where m: "map_of ?d ''original_node'' = Some (PStr CAR_NODE)" "map_of ?d ''sequence_no'' = Some (PInt q)"
    "map_of ?d ''header'' = Some (PBytes h)" "map_of ?d ''payload_bytes'' = Some (PBytes pl)" "pl \<noteq> []"
    "map_of ?d ''signature_bytes'' = Some (PBytes (ed_sign C (sk_signer k) (h @ pl)))" "n \<noteq> []"
    "map_of ?d ''zkp_commitment'' = Some (PStr (zkp_digest pl n))" "map_of ?d ''zkp_nonce'' = Some (PStr (to_hex n))" "0 < q"
    using cap by (auto simp: captured_def honest_packet_def)
  have lh: "length h = 64" using length_struct_pack [OF hdr] by (simp add: HEADER_SIZE_def)
  let ?fake = "dict_set ''sequence_no'' (PInt (q + 1000)) (dict_set ''header'' (PBytes forged) ?d)"
  have fake: "forge_increment ?d = Inr ?fake"
    using m q lh by (simp add: forge_increment_def dict_item_def as_bytes_def raised_number_def unsigned_bytes_def forged_def)
  have "forged \<noteq> []" "length (ed_sign C (sk_signer k) (h @ pl)) = 64" using lh laws by (simp_all add: forged_def with_number_def sim_laws_def sig_law_def)
  then have sv: "sv_verify C (dl_sig_stamp dl) ?fake (sp_sig (at_pipe a)) =
      (if ed_verify C (ed_public C (sk_signer k)) (ed_sign C (sk_signer k) (h @ pl)) (forged @ pl)
       then (Inr (verify_result (PStr CAR_NODE) (dl_sig_stamp dl)),
             (sp_sig (at_pipe a))\<lparr>sv_verified := sv_verified (sp_sig (at_pipe a)) + 1\<rparr>)
       else (Inl InvalidSignature, count_sig_rejected (sp_sig (at_pipe a))))"
    using st m by (subst sv_verify_car [where h = forged and pl = pl and sg = "ed_sign C (sk_signer k) (h @ pl)"]) (simp_all add: attack_state_def)
  have "CAR_NODE \<noteq> []" by (simp add: CAR_NODE_def)
  then have nq: "sc_node ?fake = PStr CAR_NODE" "sc_seq ?fake = PInt (q + 1000)"
    using m by (simp_all add: sc_node_def sc_seq_def dict_get_def dict_get_or_def py_or_def)
  have ck: "car_checker (at_seq a)" "0 < q + 1000" using st m(10) by (simp_all add: attack_state_def)
  obtain r chk where sq: "sequence_check (at_seq a) (dl_now dl) ?fake = (Inr r, chk)" "cr_passed r \<longleftrightarrow> car_last (at_seq a) < q + 1000"
    "checker_moved (at_seq a) (q + 1000) chk"
    by (rule car_checker_step [OF ck(1) nq ck(2)])
  then have pass: "cr_passed r" using st by (simp add: attack_state_def)
  have "to_hex n \<noteq> []" using m by (simp add: to_hex_eq_Nil)
  then obtain z zk where z: "zkp_verify_packet (dl_zkp_stamp dl) ?fake (sp_zkp (at_pipe a)) = (Inr z, zk)" "cm_verified z"
    using m by (simp add: zkp_verify_packet_def verify_commitment_def dict_get_def digest_truthy Let_def)
  show thesis
  proof (cases "ed_verify C (ed_public C (sk_signer k)) (ed_sign C (sk_signer k) (h @ pl)) (forged @ pl)")
    case True
    let ?v = "\<lparr>vr_passed = True, vr_stages = [(''signature'', StagePass), (''sequence'', StagePass), (''zkp'', StagePass)],
        vr_reason = ''all_checks_passed''\<rparr>"
    have "\<exists>a'. process_at_validator C dl ?fake a = Inr (?v, a')"
      using sv sq(1) pass z True by (simp add: process_at_validator_def)
    then obtain a' where run: "process_at_validator C dl ?fake a = Inr (?v, a')" by blast
    have "vr_passed ?v \<longleftrightarrow> ed_verify C (ed_public C (sk_signer k)) (ed_sign C (sk_signer k) (h @ pl)) (forged @ pl)"
      "map_of (vr_stages ?v) ''signature'' = Some (if vr_passed ?v then StagePass else SignatureFail InvalidSignature)"
      using True by simp_all
    then show thesis by (rule that [OF fake run])
  next
    case False
    let ?v = "\<lparr>vr_passed = False, vr_stages = [(''signature'', SignatureFail InvalidSignature)], vr_reason = ''signature_failed''\<rparr>"
    have "\<exists>a'. process_at_validator C dl ?fake a = Inr (?v, a')" using sv False by (simp add: process_at_validator_def)
    then obtain a' where run: "process_at_validator C dl ?fake a = Inr (?v, a')" by blast
    have "vr_passed ?v \<longleftrightarrow> ed_verify C (ed_public C (sk_signer k)) (ed_sign C (sk_signer k) (h @ pl)) (forged @ pl)"
      "map_of (vr_stages ?v) ''signature'' = Some (if vr_passed ?v then StagePass else SignatureFail InvalidSignature)"
      using False by simp_all
    then show thesis by (rule that [OF fake run])
  qed
qed

text \<open>Each attack on a pipeline whose checkers are up to date.\<close>

lemma simple_replay_refused:
  assumes "sim_laws C" and "attack_state C k q q q a" and "good_inputs i (pi_frame i)" and "q + 1 < 2 ^ 64"
  obtains a' where "sim_1_simple_replay C i t t' a = Inr (SimpleReplay True True True True, a')"
    and "attack_state C k (q + 1) (q + 1) (q + 1) a'"
proof -
  obtain pk a1 v a2 where g: "make_packet C i a = Inr (pk, a1)" "process_both C t pk a1 = Inr ((True, v), a2)"
    "vr_passed v" "captured C k (q + 1) (header_of (q + 1) i) (payload_of i) pk"
    "struct_pack (sim_header (q + 1) (pi_now i) (payload_of i)) = Inr (header_of (q + 1) i)"
    "attack_state C k (q + 1) (q + 1) (q + 1) a2"
    using assms by (rule genuine_visit)
  have "recorded C k (q + 1) pk" using g(4) unfolding recorded_def by (intro exI) auto
  then obtain w a3 where "process_both C t' pk a2 = Inr ((False, w), a3)" "\<not> vr_passed w"
    "attack_state C k (q + 1) (q + 1) (q + 1) a3"
    by (rule replayed_visit [OF assms(1) g(6)])
  then show thesis using g by (intro that [of a3]) (simp_all add: sim_1_simple_replay_def)
qed

lemma old_number_refused:
  assumes "sim_laws C" and "attack_state C k q q q a" and "good_inputs i (pi_frame i)" and "q + 1 < 2 ^ 64" and "n = q + 1"
  obtains a' where "sim_2_sequence_manipulation C i t dl a = Inr (SequenceManipulation (PInt n) True ''sequence_failed'', a')"
    and "attack_state C k n n n a'"
proof -
  obtain pk a1 v a2 where g: "make_packet C i a = Inr (pk, a1)" "process_both C t pk a1 = Inr ((True, v), a2)"
    "vr_passed v" "captured C k (q + 1) (header_of (q + 1) i) (payload_of i) pk"
    "struct_pack (sim_header (q + 1) (pi_now i) (payload_of i)) = Inr (header_of (q + 1) i)"
    "attack_state C k (q + 1) (q + 1) (q + 1) a2"
    using assms(1-4) by (rule genuine_visit)
  have num: "dict_item (fst pk) ''sequence_no'' = Inr (PInt n)" using g(4) assms(5)
    by (auto simp: captured_def honest_packet_def dict_item_def)
  have "recorded C k (q + 1) pk" using g(4) unfolding recorded_def by (intro exI) auto
  then obtain w a3 where "process_at_validator C dl (fst pk) a2 = Inr (w, a3)" "\<not> vr_passed w"
    "vr_reason w = ''sequence_failed''" "attack_state C k (q + 1) (q + 1) (q + 1) a3"
    by (rule replayed_at_validator [OF assms(1) g(6)])
  then show thesis using g num assms(5) by (intro that [of a3]) (simp_all add: sim_2_sequence_manipulation_def)
qed

lemma batch_refused:
  assumes "sim_laws C" and "attack_state C k q q q a" and "\<forall>j<5. good_inputs (fst (ext j)) (pi_frame (fst (ext j)))"
    and "q + 5 < 2 ^ 64" and "n = q + 5"
  obtains a' where "sim_3_batch_replay C ext again a = Inr (BatchReplay 5 5 True, a')" and "attack_state C k n n n a'"
proof -
  have "\<forall>x\<in>set (map ext [0..<5]). good_inputs (fst x) (pi_frame (fst x))" using assms(3) by auto
  then obtain pks a1 where c: "capture C (map ext [0..<5]) a = Inr (pks, a1)" "length pks = 5"
    "\<forall>pk\<in>set pks. recorded C k n pk" "attack_state C k n n n a1"
    using capture_records [OF assms(1,2), of "map ext [0..<5]"] assms(4,5) by (auto simp: Let_def)
  have "\<forall>x\<in>set (zip pks (map again [0..<5])). recorded C k n (fst x)" using c(3) by (auto dest: set_zip_leftD)
  then obtain a2 where "replay_all C (zip pks (map again [0..<5])) a1 = Inr (int (length (zip pks (map again [0..<5]))), a2)"
    "attack_state C k n n n a2"
    using replay_all_detected [OF assms(1) c(4)] by blast
  then show thesis using c(1,2) by (intro that [of a2]) (simp_all add: sim_3_batch_replay_def)
qed

lemma delayed_refused:
  assumes "sim_laws C" and "attack_state C k q q q a" and "\<forall>j<4. good_inputs (fst (ext j)) (pi_frame (fst (ext j)))"
    and "q + 4 < 2 ^ 64" and "n = q + 4"
  obtains a' where "sim_4_delayed_replay C ext dl a = Inr (DelayedReplay True ''sequence_failed'', a')"
    and "attack_state C k n n n a'"
proof -
  have g0: "good_inputs (fst (ext 0)) (pi_frame (fst (ext 0)))" "q + 1 < 2 ^ 64" using assms(3,4) by simp_all
  obtain pk a1 v a2 where g: "make_packet C (fst (ext 0)) a = Inr (pk, a1)"
    "process_both C (snd (ext 0)) pk a1 = Inr ((True, v), a2)"
    "vr_passed v" "captured C k (q + 1) (header_of (q + 1) (fst (ext 0))) (payload_of (fst (ext 0))) pk"
    "struct_pack (sim_header (q + 1) (pi_now (fst (ext 0))) (payload_of (fst (ext 0)))) = Inr (header_of (q + 1) (fst (ext 0)))"
    "attack_state C k (q + 1) (q + 1) (q + 1) a2"
    using assms(1,2) g0 by (rule genuine_visit)
  have "\<forall>x\<in>set (map ext [1..<4]). good_inputs (fst x) (pi_frame (fst x))" using assms(3) by auto
  then obtain pks a3 where c: "capture C (map ext [1..<4]) a2 = Inr (pks, a3)" "attack_state C k n n n a3"
    using capture_records [OF assms(1) g(6), of "map ext [1..<4]"] assms(4,5) by (auto simp: Let_def algebra_simps)
  have "recorded C k n pk" using g(4) assms(5) unfolding recorded_def by (intro exI) auto
  then obtain w a4 where "process_at_validator C dl (fst pk) a3 = Inr (w, a4)" "\<not> vr_passed w"
    "vr_reason w = ''sequence_failed''" "attack_state C k n n n a4"
    by (rule replayed_at_validator [OF assms(1) c(2)])
  then show thesis using g c by (intro that [of a4]) (simp_all add: sim_4_delayed_replay_def)
qed

lemma increment_refused:
  assumes "sim_laws C" and "attack_state C k q q q a" and "good_inputs i (pi_frame i)" and "q + 1001 < 2 ^ 64"
    and "n = q + 1" and "n' = n + 1000"
  defines "d \<equiv> \<not> ed_verify C (ed_public C (sk_signer k)) (ed_sign C (sk_signer k) (header_of n i @ payload_of i))
    (header_of n' i @ payload_of i)"
  obtains stages a' where "sim_5_sequence_increment C i t dl a = Inr (SequenceIncrement d d stages, a')"
proof -
  have q: "q + 1 < 2 ^ 64" "0 \<le> q" using assms(2,4) by (simp_all add: attack_state_def)
  obtain pk a1 v a2 where g: "make_packet C i a = Inr (pk, a1)" "process_both C t pk a1 = Inr ((True, v), a2)"
    "vr_passed v" "captured C k (q + 1) (header_of (q + 1) i) (payload_of i) pk"
    "struct_pack (sim_header (q + 1) (pi_now i) (payload_of i)) = Inr (header_of (q + 1) i)"
    "attack_state C k (q + 1) (q + 1) (q + 1) a2"
    using assms(1-3) q(1) by (rule genuine_visit)
  let ?forged = "with_number (be_bytes 8 (nat (q + 1 + 1000))) (header_of (q + 1) i)"
  have "(sim_header (q + 1) (pi_now i) (payload_of i))\<lparr>h_sequence_no := q + 1 + 1000\<rparr> = sim_header n' (pi_now i) (payload_of i)"
    using assms(5,6) by (simp add: sim_header_def)
  then have forged: "header_of n' i = ?forged"
    using with_number_pack [OF g(5), of "q + 1 + 1000"] q assms(4) by (simp add: packed_def)
  have "q + 1 + 1000 < 2 ^ 64" using assms(4) by simp
  then obtain fake w a3 where f: "forge_increment (fst pk) = Inr fake" "process_at_validator C dl fake a2 = Inr (w, a3)"
    "vr_passed w \<longleftrightarrow> ed_verify C (ed_public C (sk_signer k)) (ed_sign C (sk_signer k) (header_of (q + 1) i @ payload_of i))
       (?forged @ payload_of i)"
    "map_of (vr_stages w) ''signature'' = Some (if vr_passed w then StagePass else SignatureFail InvalidSignature)"
    by (rule forged_visit [OF assms(1) g(6,4,5)])
  have "d \<longleftrightarrow> \<not> vr_passed w" using f(3) unfolding d_def forged assms(5) by simp
  then have "sim_5_sequence_increment C i t dl a = Inr (SequenceIncrement d d (vr_stages w), a3)"
    using g f(1,2,4) by (simp add: sim_5_sequence_increment_def is_signature_fail_def)
  then show thesis by (rule that)
qed

text \<open>C14. Replays are detected: with the sensor's frames in order, the whole simulation returns; a packet
  sent again at once is refused by the relay and by the validator, after the genuine one was accepted; so
  are all five of a batch; a packet sent again after newer ones is refused as out of sequence. The packet
  whose number is raised in its header is missed only if the car's signature of the real header and
  payload is also valid for the header with the raised number.\<close>

theorem replays_detected:
  assumes "sim_world C k" and "\<forall>j<12. good_inputs (fst (ext j)) (pi_frame (fst (ext j)))"
  shows "let i = fst (ext 11); sk = sk_signer k;
             d = (\<not> ed_verify C (ed_public C sk) (ed_sign C sk (header_of 12 i @ payload_of i)) (header_of 1012 i @ payload_of i))
         in \<exists>stages. replay_main C k ext again = Inr
           \<lparr>rs_total = 5, rs_detected = (if d then 5 else 4),
            rs_results = [SimpleReplay True True True True, SequenceManipulation (PInt 2) True ''sequence_failed'',
              BatchReplay 5 5 True, DelayedReplay True ''sequence_failed'', SequenceIncrement d d stages]\<rparr>"
proof -
  have laws: "sim_laws C" using assms(1) by (simp add: sim_world_def)
  have good: "good_inputs (fst (ext j)) (pi_frame (fst (ext j)))" if "j < 12" for j using assms(2) that by simp
  have good': "good_inputs (fst (ext 0)) (pi_frame (fst (ext 0)))" "good_inputs (fst (ext 1)) (pi_frame (fst (ext 1)))"
    "good_inputs (fst (ext 11)) (pi_frame (fst (ext 11)))" by (intro good; simp)+
  obtain a0 where a0: "attack_pipeline_init C k = Inr a0" "attack_state C k 0 0 0 a0"
    using assms(1) by (rule attack_pipeline_starts)
  obtain a1 where r1: "sim_1_simple_replay C (fst (ext 0)) (snd (ext 0)) (again 0) a0 = Inr (SimpleReplay True True True True, a1)"
    and s1: "attack_state C k 1 1 1 a1"
    by (rule simple_replay_refused [OF laws a0(2) good'(1)]) simp_all
  obtain a2 where r2: "sim_2_sequence_manipulation C (fst (ext 1)) (snd (ext 1)) (snd (again 1)) a1 =
      Inr (SequenceManipulation (PInt 2) True ''sequence_failed'', a2)" and s2: "attack_state C k 2 2 2 a2"
    by (rule old_number_refused [OF laws s1 good'(2)]) simp_all
  obtain a3 where r3: "sim_3_batch_replay C (\<lambda>j. ext (2 + j)) (\<lambda>j. again (2 + j)) a2 = Inr (BatchReplay 5 5 True, a3)"
    and s3: "attack_state C k 7 7 7 a3"
    by (rule batch_refused [OF laws s2, of "\<lambda>j. ext (2 + j)"]) (simp_all add: good)
  obtain a4 where r4: "sim_4_delayed_replay C (\<lambda>j. ext (7 + j)) (snd (again 7)) a3 = Inr (DelayedReplay True ''sequence_failed'', a4)"
    and s4: "attack_state C k 11 11 11 a4"
    by (rule delayed_refused [OF laws s3, of "\<lambda>j. ext (7 + j)"]) (simp_all add: good)
  let ?i = "fst (ext 11)" and ?sk = "sk_signer k"
  let ?d = "\<not> ed_verify C (ed_public C ?sk) (ed_sign C ?sk (header_of 12 ?i @ payload_of ?i)) (header_of 1012 ?i @ payload_of ?i)"
  obtain stages a5 where r5: "sim_5_sequence_increment C ?i (snd (ext 11)) (snd (again 8)) a4 = Inr (SequenceIncrement ?d ?d stages, a5)"
    by (rule increment_refused [OF laws s4 good'(3), where n = 12 and n' = 1012 and t = "snd (ext 11)" and dl = "snd (again 8)"])
      (simp, simp, simp, erule that)
  show ?thesis using a0(1) r1 r2 r3 r4 r5 by (simp add: replay_main_def report_detected_def Let_def)
qed

definition sample_ext :: "nat \<Rightarrow> packet_inputs \<times> visit" where
  "sample_ext j = (sample_packet_inputs, 1000, sample_delivery)"

lemma sample_ext_good: "good_inputs (fst (sample_ext j)) (pi_frame (fst (sample_ext j)))"
  using sample_good by (simp add: sample_ext_def sample_packet_inputs_def)

theorem replays_detected_witness:
  "\<exists>r. replay_main demo_pyca sample_keys sample_ext (\<lambda>j. snd (sample_ext j)) = Inr r \<and> rs_total r = 5 \<and> 4 \<le> rs_detected r"
  using replays_detected [OF sample_world, of sample_ext "\<lambda>j. snd (sample_ext j)"] sample_ext_good by (auto simp: Let_def)

end
