(* ===== verification/TamperScenarios.thy ===== *)
theory TamperScenarios
  imports AttackScenarios
begin

text \<open>
  \<open>simulations/tampering_sim.py\<close>: seven attacks that alter a packet between the nodes, each put to the
  check that should notice: bytes of the ciphertext or of the header at the relay's decryption; payload,
  signature or commitment at the validator. The random signature of the attacker is an argument. The
  theorems say for each attack exactly what would have to happen for it to be missed: that the altered
  bytes are themselves a sealing, a signed message, or a digest.
\<close>

section \<open>The checks\<close>

datatype detect_reason =
    RelayPassed
  | AeadTagFailed
  | RelayError exn
  | SignatureFailed exn
  | SequenceFailed "seq_message list"
  | ZkpFailed zkp_reason
  | AllPassed
  | ZkpReason zkp_reason

definition check_detected_at_relay :: "pyca \<Rightarrow> pydict \<Rightarrow> attack_pipeline \<Rightarrow> (bool \<times> detect_reason) \<times> attack_pipeline" where
  "check_detected_at_relay C enc a =
     (case decrypt_relay C enc (sp_decryptor (at_pipe a)) of
        (r, d) \<Rightarrow>
          (case r of Inr _ \<Rightarrow> (False, RelayPassed) | Inl e \<Rightarrow> (True, if e = InvalidTag then AeadTagFailed else RelayError e),
           a\<lparr>at_pipe := (at_pipe a)\<lparr>sp_decryptor := d\<rparr>\<rparr>))"

text \<open>Only the two exceptions of a bad signature are caught.\<close>

definition check_detected_at_validator ::
  "pyca \<Rightarrow> delivery \<Rightarrow> pydict \<Rightarrow> attack_pipeline \<Rightarrow> ((bool \<times> detect_reason) \<times> attack_pipeline) res" where
  "check_detected_at_validator C dl pkt a =
     (let (sr, sv) = sv_verify C (dl_sig_stamp dl) pkt (sp_sig (at_pipe a));
          a1 = a\<lparr>at_pipe := (at_pipe a)\<lparr>sp_sig := sv\<rparr>\<rparr>
      in case sr of
        Inl e \<Rightarrow> if is_sig_error e then Inr ((True, SignatureFailed e), a1) else Inl e
      | Inr _ \<Rightarrow>
          rbind (keep (sequence_check (at_seq a1) (dl_now dl) pkt)) (\<lambda>(r, chk).
            let a2 = a1\<lparr>at_seq := chk\<rparr>
            in if \<not> cr_passed r then Inr ((True, SequenceFailed (cr_errors r)), a2)
               else rbind (keep (zkp_verify_packet (dl_zkp_stamp dl) pkt (sp_zkp (at_pipe a2)))) (\<lambda>(z, zk).
                 let a3 = a2\<lparr>at_pipe := (at_pipe a2)\<lparr>sp_zkp := zk\<rparr>\<rparr>
                 in Inr (if \<not> cm_verified z then ((True, ZkpFailed (cm_reason z)), a3) else ((False, AllPassed), a3)))))"

section \<open>The attacks\<close>

record tamper_report =
  tm_attack :: string
  tm_layers :: "string list"
  tm_detected :: bool
  tm_reason :: "detect_reason option"
  tm_point :: string
  tm_speed :: "pyval option"
  tm_relay :: "bool option"

definition tamper_report_of :: "string \<Rightarrow> string \<Rightarrow> string \<Rightarrow> bool \<times> detect_reason \<Rightarrow> tamper_report" where
  "tamper_report_of name layer where d =
     \<lparr>tm_attack = name, tm_layers = [layer], tm_detected = fst d, tm_reason = Some (snd d),
      tm_point = (if fst d then where else ''none''), tm_speed = None, tm_relay = None\<rparr>"

unbundle bit_operations_syntax

text \<open>\<open>buffer[n] ^= mask\<close>.\<close>

definition flip_byte :: "nat \<Rightarrow> byte \<Rightarrow> bytes \<Rightarrow> bytes res" where
  "flip_byte n x b = (if n < length b then Inr (b[n := b ! n XOR x]) else Inl IndexErr)"

definition with_ciphertext :: "bytes \<Rightarrow> pydict \<Rightarrow> pydict" where
  "with_ciphertext c enc = dict_set ''ciphertext'' (PStr (to_hex c)) (dict_set ''ciphertext_bytes'' (PBytes c) enc)"

definition with_header :: "bytes \<Rightarrow> pydict \<Rightarrow> pydict" where
  "with_header h enc = dict_set ''header_hex'' (PStr (to_hex h)) (dict_set ''header'' (PBytes h) enc)"

definition without_signature :: "pydict \<Rightarrow> pydict" where
  "without_signature pkt = dict_pop ''signature_bytes'' (dict_pop ''signature'' pkt)"

definition sim_1_payload_bit_flip :: "pyca \<Rightarrow> packet_inputs \<Rightarrow> attack_pipeline \<Rightarrow> (tamper_report \<times> attack_pipeline) res" where
  "sim_1_payload_bit_flip C i a =
     rbind (make_encrypted_packet C i a) (\<lambda>(s, a1).
     rbind (rbind (dict_item (ps_encrypted s) ''ciphertext_bytes'') as_bytes) (\<lambda>ct.
     rbind (rbind (flip_byte 10 0xFF ct) (flip_byte 20 0xAA)) (\<lambda>ct'.
       let (d, a2) = check_detected_at_relay C (with_ciphertext ct' (ps_encrypted s)) a1
       in Inr (tamper_report_of ''payload_bit_flip'' ''relay_aead'' ''relay'' d, a2))))"

text \<open>The speed reported is the payload's, or 0 when the payload cannot be read.\<close>

definition payload_speed :: "pydict \<Rightarrow> pyval" where
  "payload_speed pkt =
     (case dict_get_or pkt ''payload_bytes'' (PBytes []) of
        PBytes p \<Rightarrow> (case json_loads p of Inr (PDict d) \<Rightarrow> dict_get_or d ''Speed'' (PInt 0) | _ \<Rightarrow> PInt 0)
      | _ \<Rightarrow> PInt 0)"

definition sim_2_speed_value_injection :: "pyca \<Rightarrow> packet_inputs \<Rightarrow> delivery \<Rightarrow> attack_pipeline \<Rightarrow> (tamper_report \<times> attack_pipeline) res" where
  "sim_2_speed_value_injection C i dl a =
     rbind (make_encrypted_packet C i a) (\<lambda>(s, a1).
     let speed = payload_speed (ps_validator s)
     in rbind (rbind (dict_item (ps_validator s) ''payload_bytes'') as_bytes) (\<lambda>pl.
        rbind (flip_byte 5 0xFF pl) (\<lambda>pl'.
        rbind (check_detected_at_validator C dl (dict_set ''payload_bytes'' (PBytes pl') (ps_validator s)) a1) (\<lambda>(d, a2).
          Inr ((tamper_report_of ''speed_injection'' ''validator_signature'' ''validator'' d)\<lparr>tm_speed := Some speed\<rparr>, a2)))))"

definition sim_3_signature_stripping :: "pyca \<Rightarrow> packet_inputs \<Rightarrow> delivery \<Rightarrow> attack_pipeline \<Rightarrow> (tamper_report \<times> attack_pipeline) res" where
  "sim_3_signature_stripping C i dl a =
     rbind (make_encrypted_packet C i a) (\<lambda>(s, a1).
     rbind (check_detected_at_validator C dl (without_signature (ps_validator s)) a1) (\<lambda>(d, a2).
       Inr (tamper_report_of ''signature_stripping'' ''validator_signature'' ''validator'' d, a2)))"

definition sim_4_zkp_commitment_tamper :: "pyca \<Rightarrow> packet_inputs \<Rightarrow> delivery \<Rightarrow> attack_pipeline \<Rightarrow> (tamper_report \<times> attack_pipeline) res" where
  "sim_4_zkp_commitment_tamper C i dl a =
     rbind (make_encrypted_packet C i a) (\<lambda>(s, a1).
     rbind (keep (sequence_check (at_seq a1) (dl_now dl) (ps_validator s))) (\<lambda>(_, chk).
     let a2 = a1\<lparr>at_seq := chk\<rparr>;
         fake = dict_set ''zkp_commitment'' (PStr (replicate 64 CHR ''a'')) (ps_validator s)
     in rbind (keep (zkp_verify_packet (dl_zkp_stamp dl) fake (sp_zkp (at_pipe a2)))) (\<lambda>(z, zk).
          Inr (tamper_report_of ''zkp_commitment_tamper'' ''validator_zkp'' ''validator'' (\<not> cm_verified z, ZkpReason (cm_reason z)),
               a2\<lparr>at_pipe := (at_pipe a2)\<lparr>sp_zkp := zk\<rparr>\<rparr>))))"

definition sim_5_header_aead_tamper :: "pyca \<Rightarrow> packet_inputs \<Rightarrow> attack_pipeline \<Rightarrow> (tamper_report \<times> attack_pipeline) res" where
  "sim_5_header_aead_tamper C i a =
     rbind (make_encrypted_packet C i a) (\<lambda>(s, a1).
     rbind (rbind (dict_item (ps_encrypted s) ''header'') as_bytes) (\<lambda>h.
     rbind (flip_byte 8 0xFF h) (\<lambda>h'.
       let (d, a2) = check_detected_at_relay C (with_header h' (ps_encrypted s)) a1
       in Inr (tamper_report_of ''header_aead_tamper'' ''relay_aead'' ''relay'' d, a2))))"

definition sim_6_wrong_signature :: "pyca \<Rightarrow> packet_inputs \<Rightarrow> bytes \<Rightarrow> delivery \<Rightarrow> attack_pipeline \<Rightarrow> (tamper_report \<times> attack_pipeline) res" where
  "sim_6_wrong_signature C i fake_sig dl a =
     rbind (make_encrypted_packet C i a) (\<lambda>(s, a1).
     let tampered = dict_set ''signature'' (PStr (to_hex fake_sig)) (dict_set ''signature_bytes'' (PBytes fake_sig) (ps_validator s))
     in rbind (check_detected_at_validator C dl tampered a1) (\<lambda>(d, a2).
          Inr (tamper_report_of ''wrong_signature'' ''validator_signature'' ''validator'' d, a2)))"

text \<open>The stripped signature counts only when the relay has not noticed.\<close>

definition sim_7_multi_layer_tamper :: "pyca \<Rightarrow> packet_inputs \<Rightarrow> delivery \<Rightarrow> attack_pipeline \<Rightarrow> (tamper_report \<times> attack_pipeline) res" where
  "sim_7_multi_layer_tamper C i dl a =
     rbind (make_encrypted_packet C i a) (\<lambda>(s, a1).
     rbind (rbind (dict_item (ps_encrypted s) ''ciphertext_bytes'') as_bytes) (\<lambda>ct.
     rbind (flip_byte 5 0xFF ct) (\<lambda>ct'.
       let ((relay, _), a2) = check_detected_at_relay C (with_ciphertext ct' (ps_encrypted s)) a1;
           report = (\<lambda>d where. \<lparr>tm_attack = ''multi_layer_tamper'', tm_layers = [''ciphertext'', ''signature''], tm_detected = d,
             tm_reason = None, tm_point = where, tm_speed = None, tm_relay = Some relay\<rparr>)
       in if relay then Inr (report True ''relay'', a2)
          else rbind (check_detected_at_validator C dl (without_signature (ps_validator s)) a2) (\<lambda>((d, _), a3).
                 Inr (report d (if d then ''validator'' else ''none''), a3)))))"

record tamper_summary =
  ts_total :: int
  ts_detected :: int
  ts_results :: "tamper_report list"

definition tamper_main ::
  "pyca \<Rightarrow> sim_keys \<Rightarrow> (nat \<Rightarrow> packet_inputs \<times> delivery) \<Rightarrow> bytes \<Rightarrow> tamper_summary res" where
  "tamper_main C k ext fake_sig =
     rbind (attack_pipeline_init C k) (\<lambda>a0.
     rbind (sim_1_payload_bit_flip C (fst (ext 0)) a0) (\<lambda>(r1, a1).
     rbind (sim_2_speed_value_injection C (fst (ext 1)) (snd (ext 1)) a1) (\<lambda>(r2, a2).
     rbind (sim_3_signature_stripping C (fst (ext 2)) (snd (ext 2)) a2) (\<lambda>(r3, a3).
     rbind (sim_4_zkp_commitment_tamper C (fst (ext 3)) (snd (ext 3)) a3) (\<lambda>(r4, a4).
     rbind (sim_5_header_aead_tamper C (fst (ext 4)) a4) (\<lambda>(r5, a5).
     rbind (sim_6_wrong_signature C (fst (ext 5)) fake_sig (snd (ext 5)) a5) (\<lambda>(r6, a6).
     rbind (sim_7_multi_layer_tamper C (fst (ext 6)) (snd (ext 6)) a6) (\<lambda>(r7, _).
       let rs = [r1, r2, r3, r4, r5, r6, r7]
       in Inr \<lparr>ts_total = int (length rs), ts_detected = int (length (filter tm_detected rs)), ts_results = rs\<rparr>))))))))"

section \<open>The relay's decryption\<close>

text \<open>What the relay accepts: the ciphertext of a JSON text under the key, the nonce and the header.\<close>

definition sealing :: "pyca \<Rightarrow> bytes \<Rightarrow> bytes \<Rightarrow> bytes \<Rightarrow> bytes \<Rightarrow> bool" where
  "sealing C key n h c = (\<exists>p js. aead_encrypt C key n p (Some h) = Inr c \<and> json_loads p = Inr js)"

text \<open>The tag that is appended makes a ciphertext 16 bytes longer.\<close>

definition aead_tag16 :: "pyca \<Rightarrow> bool" where
  "aead_tag16 C = (\<forall>k n p a c. aead_encrypt C k n p a = Inr c \<longrightarrow> length c = length p + 16)"

abbreviation car_key :: "pyca \<Rightarrow> sim_keys \<Rightarrow> bytes" where
  "car_key C k \<equiv> shared_key C (sk_car k) (sk_relay k)"

lemma sim_ready_decryptor:
  "sim_ready C p \<Longrightarrow> dec_key d CAR_NODE = dec_key (sp_decryptor p) CAR_NODE \<Longrightarrow> sim_ready C (p\<lparr>sp_decryptor := d\<rparr>)"
  by (simp add: sim_ready_def)

lemma relay_check:
  assumes "aead_law C" and st: "attack_state C k q l m a"
    and enc: "map_of enc ''node_id'' = Some (PStr CAR_NODE)" "map_of enc ''nonce_bytes'' = Some (PBytes n)"
      "map_of enc ''ciphertext_bytes'' = Some (PBytes c)" "map_of enc ''header'' = Some (PBytes h)"
  obtains reason a' where "check_detected_at_relay C enc a = ((\<not> sealing C (car_key C k) n h c, reason), a')"
    and "attack_state C k q l m a'"
proof -
  let ?d = "sp_decryptor (at_pipe a)"
  have key: "dec_key ?d CAR_NODE = Some (car_key C k)" "sim_ready C (at_pipe a)" using st by (simp_all add: attack_state_def)
  then obtain e where e: "map_of (dec_sessions ?d) CAR_NODE = Some e" "engine_key e = Some (car_key C k)"
    by (auto simp: dec_key_def split: option.splits)
  have node: "CAR_NODE \<noteq> []" by (simp add: CAR_NODE_def)
  have ins: "decrypt_inputs ?d enc = Inr (CAR_NODE, e, PBytes n, PBytes c, PBytes h)"
    using enc e(1) node by (simp add: decrypt_inputs_def field_or_hex_def header_or_hex_def dict_get_def Let_def)
  obtain r d where r: "decrypt_relay C enc ?d = (r, d)" by fastforce
  have seal: "sealing C (car_key C k) n h c \<longleftrightarrow> (\<exists>p js. aead_decrypt C (car_key C k) n c (Some h) = Inr p \<and> json_loads p = Inr js)"
    using assms(1) by (simp add: sealing_def aead_law_def)
  have "is_err r = (\<not> sealing C (car_key C k) n h c)"
    using r unfolding seal decrypt_relay_def ins
    by (auto simp: decrypt_eq e(2) is_err_def Let_def split: sum.splits if_splits)
  then have run: "check_detected_at_relay C enc a =
      ((\<not> sealing C (car_key C k) n h c, case r of Inr _ \<Rightarrow> RelayPassed | Inl e \<Rightarrow> if e = InvalidTag then AeadTagFailed else RelayError e),
       a\<lparr>at_pipe := (at_pipe a)\<lparr>sp_decryptor := d\<rparr>\<rparr>)"
    using r by (simp add: check_detected_at_relay_def is_err_def split: sum.splits)
  have "dec_key d CAR_NODE = dec_key ?d CAR_NODE" by (rule decrypt_relay_keys(1) [OF r])
  then have "attack_state C k q l m (a\<lparr>at_pipe := (at_pipe a)\<lparr>sp_decryptor := d\<rparr>\<rparr>)"
    using st sim_ready_decryptor [OF key(2)] by (simp add: attack_state_def)
  then show thesis by (rule that [OF run])
qed

section \<open>The validator's checks\<close>

lemma stripped_check:
  assumes st: "attack_state C k q l m a" and "map_of d ''original_node'' = Some (PStr CAR_NODE)"
  obtains reason a' where "check_detected_at_validator C dl (without_signature d) a = Inr ((True, reason), a')"
    and "attack_state C k q l m a'"
proof -
  let ?sv = "count_sig_rejected (sp_sig (at_pipe a))" and ?d = "without_signature d"
  have ready: "sim_ready C (at_pipe a)" using st by (simp add: attack_state_def)
  have "CAR_NODE \<noteq> []" by (simp add: CAR_NODE_def)
  then have "sig_identity ?d = PStr CAR_NODE" "resolve_sig ?d = Inl (SignatureVerificationError NoSignature)"
    using assms(2) by (simp_all add: without_signature_def sig_identity_def resolve_sig_def dict_get_def dict_get_or_def py_or_def)
  then have "sv_verify C (dl_sig_stamp dl) ?d (sp_sig (at_pipe a)) = (Inl (SignatureVerificationError NoSignature), ?sv)"
    using ready \<open>CAR_NODE \<noteq> []\<close> by (auto simp: sv_verify_def sig_raise_def sim_ready_def Let_def)
  then have run: "check_detected_at_validator C dl ?d a =
      Inr ((True, SignatureFailed (SignatureVerificationError NoSignature)), a\<lparr>at_pipe := (at_pipe a)\<lparr>sp_sig := ?sv\<rparr>\<rparr>)"
    by (simp add: check_detected_at_validator_def is_sig_error_def)
  have "sim_ready C ((at_pipe a)\<lparr>sp_sig := ?sv\<rparr>)" using ready by (simp add: sim_ready_def count_sig_rejected_def)
  then show thesis using st by (intro that [OF run]) (simp add: attack_state_def)
qed

text \<open>
  A packet with a fresh number is missed exactly when its signature is valid for its header and payload
  and its commitment is the digest of its payload.
\<close>

lemma altered_check:
  assumes st: "attack_state C k q l m a" and n: "0 < n" "l < n"
    and d: "map_of d ''original_node'' = Some (PStr CAR_NODE)" "map_of d ''sequence_no'' = Some (PInt n)"
      "map_of d ''header'' = Some (PBytes h)" "map_of d ''payload_bytes'' = Some (PBytes pl)"
      "map_of d ''signature_bytes'' = Some (PBytes sg)" "map_of d ''zkp_commitment'' = Some (PStr cm)"
      "map_of d ''zkp_nonce'' = Some (PStr (to_hex x))"
    and ne: "h \<noteq> []" "pl \<noteq> []" "length sg = 64" "cm \<noteq> []" "x \<noteq> []"
  obtains reason a' l' where "check_detected_at_validator C dl d a =
      Inr ((\<not> (ed_verify C (ed_public C (sk_signer k)) sg (h @ pl) \<and> cm = zkp_digest pl x), reason), a')"
    and "attack_state C k q l' m a'" and "l' = l \<or> l' = n"
proof -
  let ?ok = "ed_verify C (ed_public C (sk_signer k)) sg (h @ pl)"
  have pre: "sim_ready C (at_pipe a)" "car_checker (at_seq a)" "car_last (at_seq a) = l"
    "sgn_private (sp_signer (at_pipe a)) = sk_signer k" using st by (simp_all add: attack_state_def)
  let ?sv = "if ?ok then (sp_sig (at_pipe a))\<lparr>sv_verified := sv_verified (sp_sig (at_pipe a)) + 1\<rparr>
      else count_sig_rejected (sp_sig (at_pipe a))"
  have sv: "sv_verify C (dl_sig_stamp dl) d (sp_sig (at_pipe a)) =
      (if ?ok then Inr (verify_result (PStr CAR_NODE) (dl_sig_stamp dl)) else Inl InvalidSignature, ?sv)"
    using sv_verify_car [OF pre(1) d(1,3,4,5) ne(1-3)] pre(4) by simp
  have ready: "sim_ready C ((at_pipe a)\<lparr>sp_sig := ?sv\<rparr>)" "sim_ready C ((at_pipe a)\<lparr>sp_sig := ?sv, sp_zkp := z\<rparr>)" for z
    using pre(1) by (simp_all add: sim_ready_def count_sig_rejected_def)
  show thesis
  proof (cases ?ok)
    case False
    have "check_detected_at_validator C dl d a = Inr ((True, SignatureFailed InvalidSignature), a\<lparr>at_pipe := (at_pipe a)\<lparr>sp_sig := ?sv\<rparr>\<rparr>)"
      using sv False by (simp add: check_detected_at_validator_def is_sig_error_def)
    moreover have "attack_state C k q l m (a\<lparr>at_pipe := (at_pipe a)\<lparr>sp_sig := ?sv\<rparr>\<rparr>)" using st ready by (simp add: attack_state_def)
    ultimately show thesis using that False by simp
  next
    case True
    have "CAR_NODE \<noteq> []" by (simp add: CAR_NODE_def)
    then have nq: "sc_node d = PStr CAR_NODE" "sc_seq d = PInt n"
      using d by (simp_all add: sc_node_def sc_seq_def dict_get_def dict_get_or_def py_or_def)
    obtain r chk where sq: "sequence_check (at_seq a) (dl_now dl) d = (Inr r, chk)" "cr_passed r \<longleftrightarrow> car_last (at_seq a) < n"
      "checker_moved (at_seq a) n chk"
      by (rule car_checker_step [OF pre(2) nq n(1)])
    have moved: "car_checker chk" "car_last chk = n" "sc_max_gap chk = sc_max_gap (at_seq a)"
      using sq(3) pre(3) n(2) by (simp_all add: checker_moved_def)
    have "to_hex x \<noteq> []" using ne by (simp add: to_hex_eq_Nil)
    then obtain z zk where z: "zkp_verify_packet (dl_zkp_stamp dl) d (sp_zkp (at_pipe a)) = (Inr z, zk)"
      "cm_verified z \<longleftrightarrow> cm = zkp_digest pl x"
      using d ne by (cases "cm = zkp_digest pl x")
        (auto simp: zkp_verify_packet_def verify_commitment_def dict_get_def Let_def)
    let ?a = "a\<lparr>at_seq := chk, at_pipe := (at_pipe a)\<lparr>sp_sig := ?sv, sp_zkp := zk\<rparr>\<rparr>"
    have "\<exists>reason. check_detected_at_validator C dl d a = Inr ((\<not> cm_verified z, reason), ?a)"
      using sv True sq(1,2) pre(3) n(2) z(1) by (cases "cm_verified z") (simp_all add: check_detected_at_validator_def Let_def)
    moreover have "attack_state C k q n m ?a" using st ready moved by (simp add: attack_state_def)
    ultimately show thesis using that True z(2) by auto
  qed
qed

section \<open>The attacks, one by one\<close>

lemma build_payload_length:
  assumes "build_payload f = Inr p"
  shows "10 < length p"
  using assms
  by (auto simp: build_payload_def json_dumps_compact_def quote_def esc_ascii_def py_encode_def elim!: rbind_InrE)

lemma good_payload: "good_inputs i (pi_frame i) \<Longrightarrow> 10 < length (payload_of i)"
  using build_payload_length
  by (auto simp: good_inputs_def frame_payload_def split: option.splits sum.splits)

text \<open>A byte altered, and the ciphertext that the car sends as packet \<open>n\<close>.\<close>

definition flipped :: "nat \<Rightarrow> byte \<Rightarrow> bytes \<Rightarrow> bytes" where
  "flipped n x b = b[n := b ! n XOR x]"

lemma flip_byte_ok: "n < length b \<Longrightarrow> flip_byte n x b = Inr (flipped n x b)"
  by (simp add: flip_byte_def flipped_def)

lemma length_flipped [simp]: "length (flipped n x b) = length b"
  by (simp add: flipped_def)

definition sealed :: "pyca \<Rightarrow> sim_keys \<Rightarrow> int \<Rightarrow> packet_inputs \<Rightarrow> bytes" where
  "sealed C k n i =
     (case aead_encrypt C (car_key C k) (pi_nonce i) (payload_of i) (Some (header_of n i)) of Inr c \<Rightarrow> c | Inl _ \<Rightarrow> [])"

text \<open>Any state between the attacks: the validator is not ahead of the car.\<close>

definition tamper_state :: "pyca \<Rightarrow> sim_keys \<Rightarrow> int \<Rightarrow> attack_pipeline \<Rightarrow> bool" where
  "tamper_state C k q a = (\<exists>l m. attack_state C k q l m a \<and> l \<le> q)"

definition tamper_laws :: "pyca \<Rightarrow> bool" where
  "tamper_laws C = (sim_laws C \<and> aead_tag16 C)"

lemma tampered_packet:
  assumes "tamper_laws C" and "tamper_state C k q a" and "good_inputs i (pi_frame i)" and "q + 1 < 2 ^ 64"
  obtains s a' l m where "make_encrypted_packet C i a = Inr (s, a')" and "attack_state C k (q + 1) l m a'" and "l \<le> q" and "0 \<le> q"
    and "map_of (ps_encrypted s) ''node_id'' = Some (PStr CAR_NODE)" and "map_of (ps_encrypted s) ''nonce_bytes'' = Some (PBytes (pi_nonce i))"
    and "map_of (ps_encrypted s) ''ciphertext_bytes'' = Some (PBytes (sealed C k (q + 1) i))"
    and "map_of (ps_encrypted s) ''header'' = Some (PBytes (header_of (q + 1) i))"
    and "length (sealed C k (q + 1) i) = length (payload_of i) + 16" and "length (header_of (q + 1) i) = 64"
    and "map_of (ps_validator s) ''original_node'' = Some (PStr CAR_NODE)"
    and "map_of (ps_validator s) ''sequence_no'' = Some (PInt (q + 1))"
    and "map_of (ps_validator s) ''header'' = Some (PBytes (header_of (q + 1) i))"
    and "map_of (ps_validator s) ''payload_bytes'' = Some (PBytes (payload_of i))"
    and "map_of (ps_validator s) ''signature_bytes'' = Some (PBytes (ed_sign C (sk_signer k) (header_of (q + 1) i @ payload_of i)))"
    and "map_of (ps_validator s) ''zkp_commitment'' = Some (PStr (zkp_digest (payload_of i) (pi_random i)))"
    and "map_of (ps_validator s) ''zkp_nonce'' = Some (PStr (to_hex (pi_random i)))"
proof -
  obtain l m where st: "attack_state C k q l m a" "l \<le> q" using assms(2) by (auto simp: tamper_state_def)
  have laws: "sim_laws C" "aead_tag16 C" using assms(1) by (simp_all add: tamper_laws_def)
  have q: "0 \<le> q" using st(1) by (simp add: attack_state_def)
  obtain s a' ct where mk: "make_encrypted_packet C i a = Inr (s, a')" "attack_state C k (q + 1) l m a'"
    and cap: "captured C k (q + 1) (header_of (q + 1) i) (payload_of i) (ps_validator s, ps_decrypted s)"
    and h: "struct_pack (sim_header (q + 1) (pi_now i) (payload_of i)) = Inr (header_of (q + 1) i)"
    and ct: "aead_encrypt C (car_key C k) (pi_nonce i) (payload_of i) (Some (header_of (q + 1) i)) = Inr ct"
    and enc: "map_of (ps_encrypted s) ''node_id'' = Some (PStr CAR_NODE)" "map_of (ps_encrypted s) ''nonce_bytes'' = Some (PBytes (pi_nonce i))"
      "map_of (ps_encrypted s) ''ciphertext_bytes'' = Some (PBytes ct)" "map_of (ps_encrypted s) ''header'' = Some (PBytes (header_of (q + 1) i))"
    and zk: "map_of (ps_validator s) ''zkp_commitment'' = Some (PStr (zkp_digest (payload_of i) (pi_random i)))"
      "map_of (ps_validator s) ''zkp_nonce'' = Some (PStr (to_hex (pi_random i)))"
    using laws(1) st(1) assms(3,4) by (rule make_encrypted)
  have c: "ct = sealed C k (q + 1) i" using ct by (simp add: sealed_def)
  have "length (sealed C k (q + 1) i) = length (payload_of i) + 16" using laws(2) ct unfolding c aead_tag16_def by blast
  moreover have "length (header_of (q + 1) i) = 64" using length_struct_pack [OF h] by (simp add: HEADER_SIZE_def)
  moreover have "map_of (ps_validator s) ''original_node'' = Some (PStr CAR_NODE)"
    "map_of (ps_validator s) ''sequence_no'' = Some (PInt (q + 1))"
    "map_of (ps_validator s) ''header'' = Some (PBytes (header_of (q + 1) i))"
    "map_of (ps_validator s) ''payload_bytes'' = Some (PBytes (payload_of i))"
    "map_of (ps_validator s) ''signature_bytes'' = Some (PBytes (ed_sign C (sk_signer k) (header_of (q + 1) i @ payload_of i)))"
    using cap by (auto simp: captured_def honest_packet_def)
  ultimately show thesis using that [OF mk st(2) q enc(1,2) _ enc(4) _ _ _ _ _ _ _ zk] enc(3) c by simp
qed

lemma tamper_state_next: "attack_state C k (q + 1) l m a \<Longrightarrow> l \<le> q + 1 \<Longrightarrow> tamper_state C k (q + 1) a"
  unfolding tamper_state_def by blast

lemma report_detected_of [simp]:
  "tm_detected (tamper_report_of name layer point d) = fst d" "tm_detected (r\<lparr>tm_speed := x\<rparr>) = tm_detected r"
  by (simp_all add: tamper_report_of_def)

lemma bit_flip_detected:
  assumes "tamper_laws C" and "tamper_state C k q a" and "good_inputs i (pi_frame i)" and "q + 1 < 2 ^ 64"
  obtains r a' where "sim_1_payload_bit_flip C i a = Inr (r, a')" and "tamper_state C k (q + 1) a'"
    and "tm_detected r \<longleftrightarrow> \<not> sealing C (car_key C k) (pi_nonce i) (header_of (q + 1) i)
      (flipped 20 0xAA (flipped 10 0xFF (sealed C k (q + 1) i)))"
proof -
  let ?c = "sealed C k (q + 1) i"
  obtain s a1 l m where mk: "make_encrypted_packet C i a = Inr (s, a1)" and st: "attack_state C k (q + 1) l m a1" "l \<le> q"
    and enc: "map_of (ps_encrypted s) ''node_id'' = Some (PStr CAR_NODE)" "map_of (ps_encrypted s) ''nonce_bytes'' = Some (PBytes (pi_nonce i))"
      "map_of (ps_encrypted s) ''ciphertext_bytes'' = Some (PBytes ?c)" "map_of (ps_encrypted s) ''header'' = Some (PBytes (header_of (q + 1) i))"
    and len: "length ?c = length (payload_of i) + 16"
    using tampered_packet [OF assms] by metis
  let ?t = "flipped 20 0xAA (flipped 10 0xFF ?c)"
  have laws: "aead_law C" using assms(1) by (simp add: tamper_laws_def sim_laws_def)
  have l: "20 < length ?c" using len good_payload [OF assms(3)] by simp
  let ?m = "\<not> sealing C (car_key C k) (pi_nonce i) (header_of (q + 1) i) ?t"
  obtain reason a2 where ck: "check_detected_at_relay C (with_ciphertext ?t (ps_encrypted s)) a1 = ((?m, reason), a2)"
    and st2: "attack_state C k (q + 1) l m a2"
    by (rule relay_check [OF laws st(1), where enc = "with_ciphertext ?t (ps_encrypted s)"])
      (simp_all add: with_ciphertext_def enc)
  have run: "sim_1_payload_bit_flip C i a = Inr (tamper_report_of ''payload_bit_flip'' ''relay_aead'' ''relay'' (?m, reason), a2)"
    using mk enc l ck by (simp add: sim_1_payload_bit_flip_def dict_item_def as_bytes_def flip_byte_ok)
  show thesis using st(2) by (intro that [OF run tamper_state_next [OF st2]]) simp_all
qed

lemma speed_injection_detected:
  assumes "tamper_laws C" and "tamper_state C k q a" and "good_inputs i (pi_frame i)" and "q + 1 < 2 ^ 64"
  obtains r a' where "sim_2_speed_value_injection C i dl a = Inr (r, a')" and "tamper_state C k (q + 1) a'"
    and "tm_detected r \<longleftrightarrow> (let pl = payload_of i; pl' = flipped 5 0xFF pl; h = header_of (q + 1) i in
      \<not> (ed_verify C (ed_public C (sk_signer k)) (ed_sign C (sk_signer k) (h @ pl)) (h @ pl') \<and>
         zkp_digest pl (pi_random i) = zkp_digest pl' (pi_random i)))"
proof -
  let ?pl = "payload_of i" and ?h = "header_of (q + 1) i"
  let ?t = "flipped 5 0xFF ?pl" and ?sg = "ed_sign C (sk_signer k) (?h @ ?pl)"
  obtain s a1 l m where mk: "make_encrypted_packet C i a = Inr (s, a1)" and st: "attack_state C k (q + 1) l m a1" "l \<le> q" "0 \<le> q"
    and lh: "length ?h = 64"
    and v: "map_of (ps_validator s) ''original_node'' = Some (PStr CAR_NODE)" "map_of (ps_validator s) ''sequence_no'' = Some (PInt (q + 1))"
      "map_of (ps_validator s) ''header'' = Some (PBytes ?h)" "map_of (ps_validator s) ''payload_bytes'' = Some (PBytes ?pl)"
      "map_of (ps_validator s) ''signature_bytes'' = Some (PBytes ?sg)"
      "map_of (ps_validator s) ''zkp_commitment'' = Some (PStr (zkp_digest ?pl (pi_random i)))"
      "map_of (ps_validator s) ''zkp_nonce'' = Some (PStr (to_hex (pi_random i)))"
    using tampered_packet [OF assms] by metis
  have l: "5 < length ?pl" using good_payload [OF assms(3)] by simp
  have "0 < length ?h" "0 < length ?t" unfolding length_flipped using lh l by linarith+
  then have ne: "?h \<noteq> []" "?t \<noteq> []" unfolding length_greater_0_conv .
  have ne': "length ?sg = 64" "zkp_digest ?pl (pi_random i) \<noteq> []" "pi_random i \<noteq> []"
    using assms(1,3) by (simp_all add: tamper_laws_def sim_laws_def sig_law_def digest_truthy good_inputs_def)
  let ?d = "dict_set ''payload_bytes'' (PBytes ?t) (ps_validator s)"
  let ?m = "\<not> (ed_verify C (ed_public C (sk_signer k)) ?sg (?h @ ?t) \<and> zkp_digest ?pl (pi_random i) = zkp_digest ?t (pi_random i))"
  obtain reason a2 l' where ck: "check_detected_at_validator C dl ?d a1 = Inr ((?m, reason), a2)"
    and st2: "attack_state C k (q + 1) l' m a2" "l' = l \<or> l' = q + 1"
    by (rule altered_check [OF st(1) _ _ _ _ _ _ _ _ _ ne ne', where n = "q + 1" and d = ?d and dl = dl]) (use v st in simp_all)
  have run: "sim_2_speed_value_injection C i dl a = Inr ((tamper_report_of ''speed_injection'' ''validator_signature'' ''validator'' (?m, reason))
      \<lparr>tm_speed := Some (payload_speed (ps_validator s))\<rparr>, a2)"
    using mk v l ck by (simp add: sim_2_speed_value_injection_def dict_item_def as_bytes_def flip_byte_ok Let_def)
  show thesis using st(2) st2(2) by (intro that [OF run tamper_state_next [OF st2(1)]]) (auto simp: Let_def)
qed

lemma stripping_detected:
  assumes "tamper_laws C" and "tamper_state C k q a" and "good_inputs i (pi_frame i)" and "q + 1 < 2 ^ 64"
  obtains r a' where "sim_3_signature_stripping C i dl a = Inr (r, a')" and "tamper_state C k (q + 1) a'" and "tm_detected r"
proof -
  obtain s a1 l m where mk: "make_encrypted_packet C i a = Inr (s, a1)" and st: "attack_state C k (q + 1) l m a1" "l \<le> q"
    and v: "map_of (ps_validator s) ''original_node'' = Some (PStr CAR_NODE)"
    using tampered_packet [OF assms] by metis
  obtain reason a2 where ck: "check_detected_at_validator C dl (without_signature (ps_validator s)) a1 = Inr ((True, reason), a2)"
    and st2: "attack_state C k (q + 1) l m a2"
    using st(1) v by (rule stripped_check)
  have run: "sim_3_signature_stripping C i dl a =
      Inr (tamper_report_of ''signature_stripping'' ''validator_signature'' ''validator'' (True, reason), a2)"
    using mk ck by (simp add: sim_3_signature_stripping_def)
  show thesis using st(2) by (intro that [OF run tamper_state_next [OF st2]]) simp_all
qed

lemma commitment_tamper_detected:
  assumes "tamper_laws C" and "tamper_state C k q a" and "good_inputs i (pi_frame i)" and "q + 1 < 2 ^ 64"
  obtains r a' where "sim_4_zkp_commitment_tamper C i dl a = Inr (r, a')" and "tamper_state C k (q + 1) a'"
    and "tm_detected r \<longleftrightarrow> zkp_digest (payload_of i) (pi_random i) \<noteq> replicate 64 CHR ''a''"
proof -
  let ?pl = "payload_of i" and ?q = "q + 1"
  obtain s a1 l m where mk: "make_encrypted_packet C i a = Inr (s, a1)" and st: "attack_state C k (q + 1) l m a1" "l \<le> q" "0 \<le> q"
    and v: "map_of (ps_validator s) ''original_node'' = Some (PStr CAR_NODE)" "map_of (ps_validator s) ''sequence_no'' = Some (PInt ?q)"
      "map_of (ps_validator s) ''payload_bytes'' = Some (PBytes ?pl)"
      "map_of (ps_validator s) ''zkp_nonce'' = Some (PStr (to_hex (pi_random i)))"
    using tampered_packet [OF assms] by metis
  have pre: "sim_ready C (at_pipe a1)" "car_checker (at_seq a1)" "car_last (at_seq a1) = l" using st(1) by (simp_all add: attack_state_def)
  have "CAR_NODE \<noteq> []" by (simp add: CAR_NODE_def)
  then have nq: "sc_node (ps_validator s) = PStr CAR_NODE" "sc_seq (ps_validator s) = PInt ?q"
    using v by (simp_all add: sc_node_def sc_seq_def dict_get_def dict_get_or_def py_or_def)
  have q: "0 < ?q" using st(3) by simp
  obtain r chk where sq: "sequence_check (at_seq a1) (dl_now dl) (ps_validator s) = (Inr r, chk)"
      "cr_passed r \<longleftrightarrow> car_last (at_seq a1) < ?q" "checker_moved (at_seq a1) ?q chk"
    by (rule car_checker_step [OF pre(2) nq q])
  let ?fake = "dict_set ''zkp_commitment'' (PStr (replicate 64 CHR ''a'')) (ps_validator s)"
  have "to_hex (pi_random i) \<noteq> []" "replicate 64 CHR ''a'' \<noteq> []" using assms(3) by (simp_all add: to_hex_eq_Nil good_inputs_def)
  then obtain z zk where z: "zkp_verify_packet (dl_zkp_stamp dl) ?fake (sp_zkp (at_pipe a1)) = (Inr z, zk)"
    "cm_verified z \<longleftrightarrow> zkp_digest ?pl (pi_random i) = replicate 64 CHR ''a''"
    using v by (cases "zkp_digest ?pl (pi_random i) = replicate 64 CHR ''a''")
      (auto simp: zkp_verify_packet_def verify_commitment_def dict_get_def Let_def)
  let ?a = "a1\<lparr>at_seq := chk, at_pipe := (at_pipe a1)\<lparr>sp_zkp := zk\<rparr>\<rparr>"
  have run: "sim_4_zkp_commitment_tamper C i dl a = Inr (tamper_report_of ''zkp_commitment_tamper'' ''validator_zkp'' ''validator''
      (\<not> cm_verified z, ZkpReason (cm_reason z)), ?a)"
    using mk sq(1) z(1) by (simp add: sim_4_zkp_commitment_tamper_def Let_def)
  have "sim_ready C ((at_pipe a1)\<lparr>sp_zkp := zk\<rparr>)" using pre(1) by (simp add: sim_ready_def)
  then have st2: "attack_state C k ?q (max l ?q) m ?a" using st(1) sq(3) pre(3) by (simp add: attack_state_def checker_moved_def)
  show thesis using st(2) z(2) by (intro that [OF run tamper_state_next [OF st2]]) simp_all
qed

lemma header_tamper_detected:
  assumes "tamper_laws C" and "tamper_state C k q a" and "good_inputs i (pi_frame i)" and "q + 1 < 2 ^ 64"
  obtains r a' where "sim_5_header_aead_tamper C i a = Inr (r, a')" and "tamper_state C k (q + 1) a'"
    and "tm_detected r \<longleftrightarrow> \<not> sealing C (car_key C k) (pi_nonce i) (flipped 8 0xFF (header_of (q + 1) i)) (sealed C k (q + 1) i)"
proof -
  let ?c = "sealed C k (q + 1) i" and ?h = "header_of (q + 1) i"
  obtain s a1 l m where mk: "make_encrypted_packet C i a = Inr (s, a1)" and st: "attack_state C k (q + 1) l m a1" "l \<le> q"
    and enc: "map_of (ps_encrypted s) ''node_id'' = Some (PStr CAR_NODE)" "map_of (ps_encrypted s) ''nonce_bytes'' = Some (PBytes (pi_nonce i))"
      "map_of (ps_encrypted s) ''ciphertext_bytes'' = Some (PBytes ?c)" "map_of (ps_encrypted s) ''header'' = Some (PBytes ?h)"
    and len: "length ?h = 64"
    using tampered_packet [OF assms] by metis
  have laws: "aead_law C" using assms(1) by (simp add: tamper_laws_def sim_laws_def)
  let ?t = "flipped 8 0xFF ?h" and ?m = "\<not> sealing C (car_key C k) (pi_nonce i) (flipped 8 0xFF ?h) ?c"
  obtain reason a2 where ck: "check_detected_at_relay C (with_header ?t (ps_encrypted s)) a1 = ((?m, reason), a2)"
    and st2: "attack_state C k (q + 1) l m a2"
    by (rule relay_check [OF laws st(1), where enc = "with_header ?t (ps_encrypted s)"]) (simp_all add: with_header_def enc)
  have run: "sim_5_header_aead_tamper C i a = Inr (tamper_report_of ''header_aead_tamper'' ''relay_aead'' ''relay'' (?m, reason), a2)"
    using mk enc len ck by (simp add: sim_5_header_aead_tamper_def dict_item_def as_bytes_def flip_byte_ok)
  show thesis using st(2) by (intro that [OF run tamper_state_next [OF st2]]) simp_all
qed

lemma wrong_signature_detected:
  assumes "tamper_laws C" and "tamper_state C k q a" and "good_inputs i (pi_frame i)" and "q + 1 < 2 ^ 64" and "length sg = 64"
  obtains r a' where "sim_6_wrong_signature C i sg dl a = Inr (r, a')" and "tamper_state C k (q + 1) a'"
    and "tm_detected r \<longleftrightarrow> \<not> ed_verify C (ed_public C (sk_signer k)) sg (header_of (q + 1) i @ payload_of i)"
proof -
  let ?pl = "payload_of i" and ?h = "header_of (q + 1) i"
  obtain s a1 l m where mk: "make_encrypted_packet C i a = Inr (s, a1)" and st: "attack_state C k (q + 1) l m a1" "l \<le> q" "0 \<le> q"
    and lh: "length ?h = 64"
    and v: "map_of (ps_validator s) ''original_node'' = Some (PStr CAR_NODE)" "map_of (ps_validator s) ''sequence_no'' = Some (PInt (q + 1))"
      "map_of (ps_validator s) ''header'' = Some (PBytes ?h)" "map_of (ps_validator s) ''payload_bytes'' = Some (PBytes ?pl)"
      "map_of (ps_validator s) ''zkp_commitment'' = Some (PStr (zkp_digest ?pl (pi_random i)))"
      "map_of (ps_validator s) ''zkp_nonce'' = Some (PStr (to_hex (pi_random i)))"
    using tampered_packet [OF assms(1-4)] by metis
  have "0 < length ?h" "0 < length ?pl" using lh good_payload [OF assms(3)] by linarith+
  then have ne: "?h \<noteq> []" "?pl \<noteq> []" unfolding length_greater_0_conv .
  have ne': "zkp_digest ?pl (pi_random i) \<noteq> []" "pi_random i \<noteq> []" using assms(3) by (simp_all add: digest_truthy good_inputs_def)
  let ?d = "dict_set ''signature'' (PStr (to_hex sg)) (dict_set ''signature_bytes'' (PBytes sg) (ps_validator s))"
  let ?m = "\<not> (ed_verify C (ed_public C (sk_signer k)) sg (?h @ ?pl) \<and> zkp_digest ?pl (pi_random i) = zkp_digest ?pl (pi_random i))"
  obtain reason a2 l' where ck: "check_detected_at_validator C dl ?d a1 = Inr ((?m, reason), a2)"
    and st2: "attack_state C k (q + 1) l' m a2" "l' = l \<or> l' = q + 1"
    by (rule altered_check [OF st(1) _ _ _ _ _ _ _ _ _ ne assms(5) ne', where n = "q + 1" and d = ?d and dl = dl]) (use v st in simp_all)
  have run: "sim_6_wrong_signature C i sg dl a = Inr (tamper_report_of ''wrong_signature'' ''validator_signature'' ''validator'' (?m, reason), a2)"
    using mk ck by (simp add: sim_6_wrong_signature_def Let_def)
  show thesis using st(2) st2(2) by (intro that [OF run tamper_state_next [OF st2(1)]]) auto
qed

lemma multi_layer_detected:
  assumes "tamper_laws C" and "tamper_state C k q a" and "good_inputs i (pi_frame i)" and "q + 1 < 2 ^ 64"
  obtains r a' where "sim_7_multi_layer_tamper C i dl a = Inr (r, a')" and "tm_detected r"
    and "tm_point r = (if sealing C (car_key C k) (pi_nonce i) (header_of (q + 1) i) (flipped 5 0xFF (sealed C k (q + 1) i))
      then ''validator'' else ''relay'')"
proof -
  let ?c = "sealed C k (q + 1) i"
  obtain s a1 l m where mk: "make_encrypted_packet C i a = Inr (s, a1)" and st: "attack_state C k (q + 1) l m a1" "l \<le> q"
    and enc: "map_of (ps_encrypted s) ''node_id'' = Some (PStr CAR_NODE)" "map_of (ps_encrypted s) ''nonce_bytes'' = Some (PBytes (pi_nonce i))"
      "map_of (ps_encrypted s) ''ciphertext_bytes'' = Some (PBytes ?c)" "map_of (ps_encrypted s) ''header'' = Some (PBytes (header_of (q + 1) i))"
    and len: "length ?c = length (payload_of i) + 16"
    and v: "map_of (ps_validator s) ''original_node'' = Some (PStr CAR_NODE)"
    using tampered_packet [OF assms] by metis
  let ?t = "flipped 5 0xFF ?c"
  have laws: "aead_law C" using assms(1) by (simp add: tamper_laws_def sim_laws_def)
  have l: "5 < length ?c" using len good_payload [OF assms(3)] by simp
  let ?seal = "sealing C (car_key C k) (pi_nonce i) (header_of (q + 1) i) ?t"
  obtain reason a2 where ck: "check_detected_at_relay C (with_ciphertext ?t (ps_encrypted s)) a1 = ((\<not> ?seal, reason), a2)"
    and st2: "attack_state C k (q + 1) l m a2"
    by (rule relay_check [OF laws st(1), where enc = "with_ciphertext ?t (ps_encrypted s)"]) (simp_all add: with_ciphertext_def enc)
  obtain reason' a3 where ck2: "check_detected_at_validator C dl (without_signature (ps_validator s)) a2 = Inr ((True, reason'), a3)"
    using st2 v by (rule stripped_check)
  let ?r = "\<lambda>point. \<lparr>tm_attack = ''multi_layer_tamper'', tm_layers = [''ciphertext'', ''signature''], tm_detected = True,
      tm_reason = None, tm_point = point, tm_speed = None, tm_relay = Some (\<not> ?seal)\<rparr>"
  show thesis
  proof (cases ?seal)
    case True
    have run: "sim_7_multi_layer_tamper C i dl a = Inr (?r ''validator'', a3)"
      using mk enc l ck ck2 True by (simp add: sim_7_multi_layer_tamper_def dict_item_def as_bytes_def flip_byte_ok Let_def)
    show thesis using True by (intro that [OF run]) simp_all
  next
    case False
    have run: "sim_7_multi_layer_tamper C i dl a = Inr (?r ''relay'', a2)"
      using mk enc l ck False by (simp add: sim_7_multi_layer_tamper_def dict_item_def as_bytes_def flip_byte_ok Let_def)
    show thesis using False by (intro that [OF run]) simp_all
  qed
qed

text \<open>C15. Tampering is detected: with the sensor's frames in order, the whole simulation returns, and
  each attack is detected unless the altered bytes are cryptographically genuine. Flipped ciphertext or
  header bytes pass the relay only if they are themselves a sealing of JSON text under the session key;
  an altered payload passes the validator only if the car's signature is valid for it and it has the
  same digest; a replaced commitment only if it is the payload's digest; a random signature only if it
  is valid. A stripped signature, and a packet tampered with at two layers, is detected in any case.\<close>

theorem tampering_detected:
  assumes "sim_world C k" and "aead_tag16 C" and "\<forall>j<7. good_inputs (fst (ext j)) (pi_frame (fst (ext j)))"
    and "length fake_sig = 64"
  shows "let i = (\<lambda>j. fst (ext j)); key = car_key C k; pub = ed_public C (sk_signer k);
             pl = payload_of (i 1); pl' = flipped 5 0xFF pl; h = header_of 2 (i 1); x = pi_random (i 1);
             found = [
               \<not> sealing C key (pi_nonce (i 0)) (header_of 1 (i 0)) (flipped 20 0xAA (flipped 10 0xFF (sealed C k 1 (i 0)))),
               \<not> (ed_verify C pub (ed_sign C (sk_signer k) (h @ pl)) (h @ pl') \<and> zkp_digest pl x = zkp_digest pl' x),
               True,
               zkp_digest (payload_of (i 3)) (pi_random (i 3)) \<noteq> replicate 64 CHR ''a'',
               \<not> sealing C key (pi_nonce (i 4)) (flipped 8 0xFF (header_of 5 (i 4))) (sealed C k 5 (i 4)),
               \<not> ed_verify C pub fake_sig (header_of 6 (i 5) @ payload_of (i 5)),
               True]
         in \<exists>r. tamper_main C k ext fake_sig = Inr r \<and> map tm_detected (ts_results r) = found \<and>
              ts_total r = 7 \<and> ts_detected r = int (length (filter id found))"
proof -
  have laws: "tamper_laws C" using assms(1,2) by (simp add: tamper_laws_def sim_world_def)
  have good: "good_inputs (fst (ext j)) (pi_frame (fst (ext j)))" if "j < 7" for j using assms(3) that by simp
  obtain a0 where a0: "attack_pipeline_init C k = Inr a0" "attack_state C k 0 0 0 a0"
    using assms(1) by (rule attack_pipeline_starts)
  have s0: "tamper_state C k 0 a0" using a0(2) unfolding tamper_state_def by blast
  obtain r1 a1 where r1: "sim_1_payload_bit_flip C (fst (ext 0)) a0 = Inr (r1, a1)" "tamper_state C k 1 a1"
    "tm_detected r1 \<longleftrightarrow> \<not> sealing C (car_key C k) (pi_nonce (fst (ext 0))) (header_of 1 (fst (ext 0)))
      (flipped 20 0xAA (flipped 10 0xFF (sealed C k 1 (fst (ext 0)))))"
    using bit_flip_detected [OF laws s0 good [of 0]] by auto
  obtain r2 a2 where r2: "sim_2_speed_value_injection C (fst (ext 1)) (snd (ext 1)) a1 = Inr (r2, a2)" "tamper_state C k 2 a2"
    "tm_detected r2 \<longleftrightarrow> (let pl = payload_of (fst (ext 1)); pl' = flipped 5 0xFF pl; h = header_of 2 (fst (ext 1)) in
      \<not> (ed_verify C (ed_public C (sk_signer k)) (ed_sign C (sk_signer k) (h @ pl)) (h @ pl') \<and>
         zkp_digest pl (pi_random (fst (ext 1))) = zkp_digest pl' (pi_random (fst (ext 1)))))"
    using speed_injection_detected [OF laws r1(2) good [of 1], of "snd (ext 1)"] by auto
  obtain r3 a3 where r3: "sim_3_signature_stripping C (fst (ext 2)) (snd (ext 2)) a2 = Inr (r3, a3)" "tamper_state C k 3 a3" "tm_detected r3"
    using stripping_detected [OF laws r2(2) good [of 2], of "snd (ext 2)"] by auto
  obtain r4 a4 where r4: "sim_4_zkp_commitment_tamper C (fst (ext 3)) (snd (ext 3)) a3 = Inr (r4, a4)" "tamper_state C k 4 a4"
    "tm_detected r4 \<longleftrightarrow> zkp_digest (payload_of (fst (ext 3))) (pi_random (fst (ext 3))) \<noteq> replicate 64 CHR ''a''"
    using commitment_tamper_detected [OF laws r3(2) good [of 3], of "snd (ext 3)"] by auto
  obtain r5 a5 where r5: "sim_5_header_aead_tamper C (fst (ext 4)) a4 = Inr (r5, a5)" "tamper_state C k 5 a5"
    "tm_detected r5 \<longleftrightarrow> \<not> sealing C (car_key C k) (pi_nonce (fst (ext 4))) (flipped 8 0xFF (header_of 5 (fst (ext 4))))
      (sealed C k 5 (fst (ext 4)))"
    using header_tamper_detected [OF laws r4(2) good [of 4]] by auto
  obtain r6 a6 where r6: "sim_6_wrong_signature C (fst (ext 5)) fake_sig (snd (ext 5)) a5 = Inr (r6, a6)" "tamper_state C k 6 a6"
    "tm_detected r6 \<longleftrightarrow> \<not> ed_verify C (ed_public C (sk_signer k)) fake_sig (header_of 6 (fst (ext 5)) @ payload_of (fst (ext 5)))"
    using wrong_signature_detected [OF laws r5(2) good [of 5] _ assms(4), of "snd (ext 5)"] by auto
  have "\<exists>r7 a7. sim_7_multi_layer_tamper C (fst (ext 6)) (snd (ext 6)) a6 = Inr (r7, a7) \<and> tm_detected r7"
    by (rule multi_layer_detected [OF laws r6(2), of "fst (ext 6)" "snd (ext 6)"]) (rule good, simp, simp, blast)
  then obtain r7 a7 where r7: "sim_7_multi_layer_tamper C (fst (ext 6)) (snd (ext 6)) a6 = Inr (r7, a7)" "tm_detected r7" by blast
  let ?r = "\<lparr>ts_total = 7, ts_detected = int (length (filter tm_detected [r1, r2, r3, r4, r5, r6, r7])), ts_results = [r1, r2, r3, r4, r5, r6, r7]\<rparr>"
  have "tamper_main C k ext fake_sig = Inr ?r"
    using a0(1) r1(1) r2(1) r3(1) r4(1) r5(1) r6(1) r7(1) by (simp add: tamper_main_def)
  moreover have "length (filter tm_detected rs) = length (filter id (map tm_detected rs))" for rs
    by (induction rs) auto
  ultimately show ?thesis
    unfolding Let_def using r1(3) r2(3) r3(3) r4(3) r5(3) r6(3) r7(2) by (intro exI [of _ ?r]) (simp add: Let_def)
qed

lemma demo_tag16: "aead_tag16 demo_pyca"
  by (auto simp: aead_tag16_def demo_pyca_def demo_tag_def)

theorem tampering_detected_witness:
  "\<exists>r. tamper_main demo_pyca sample_keys (\<lambda>j. (sample_packet_inputs, sample_delivery)) (replicate 64 0) = Inr r \<and>
     ts_total r = 7 \<and> length (ts_results r) = 7 \<and> tm_detected (ts_results r ! 2) \<and> tm_detected (ts_results r ! 6)"
proof -
  have "\<forall>j<7. good_inputs (fst ((\<lambda>j :: nat. (sample_packet_inputs, sample_delivery)) j)) (pi_frame (fst ((\<lambda>j :: nat. (sample_packet_inputs, sample_delivery)) j)))"
    using sample_good by (simp add: sample_packet_inputs_def)
  from tampering_detected [OF sample_world demo_tag16 this length_replicate [of 64 "0 :: byte"]]
  obtain r where r: "tamper_main demo_pyca sample_keys (\<lambda>j. (sample_packet_inputs, sample_delivery)) (replicate 64 0) = Inr r"
    "ts_total r = 7" and m: "\<exists>a b c d e. map tm_detected (ts_results r) = [a, b, True, c, d, e, True]"
    unfolding Let_def by - (elim exE conjE, rule that, assumption, assumption, (rule exI)+, assumption)
  from m obtain a b c d e where m': "map tm_detected (ts_results r) = [a, b, True, c, d, e, True]"
    by (elim exE) (rule that)
  then have l: "length (ts_results r) = 7" by (auto dest: arg_cong [where f = length])
  have "tm_detected (ts_results r ! 2) = map tm_detected (ts_results r) ! 2" "tm_detected (ts_results r ! 6) = map tm_detected (ts_results r) ! 6"
    using l by (simp_all only: nth_map)
  then show ?thesis using r l m' by auto
qed

end
