(* ===== verification/PyText.thy ===== *)
theory PyText
  imports Json
begin

text \<open>
  Text as the dashboard makes it: what a formatted string literal prints for a value, and the string
  methods its components use. Strings are UTF-8, as everywhere in the development.
\<close>

section \<open>Values in formatted strings\<close>

text \<open>
  \<open>repr\<close> of a string: single quotes unless it has single and no double ones; the quote, the backslash
  and control characters are escaped. Characters beyond ASCII are taken to be printable.
\<close>

definition repr_char :: "char \<Rightarrow> char \<Rightarrow> string" where
  "repr_char q c =
     (let n = (of_char c :: nat)
      in if c = q \<or> n = 92 then [CHR 0x5C, c]
         else if n = 10 then [CHR 0x5C, CHR ''n''] else if n = 13 then [CHR 0x5C, CHR ''r'']
         else if n = 9 then [CHR 0x5C, CHR ''t'']
         else if n < 32 \<or> n = 127 then [CHR 0x5C, CHR ''x'', hex_digit (n div 16), hex_digit (n mod 16)]
         else [c])"

definition repr_string :: "string \<Rightarrow> string" where
  "repr_string s =
     (let q = (if CHR 0x27 \<in> set s \<and> CHR 0x22 \<notin> set s then CHR 0x22 else CHR 0x27)
      in q # concat (map (repr_char q) s) @ [q])"

text \<open>\<open>repr\<close> of bytes: other than printable ASCII, everything is escaped.\<close>

definition repr_bytes :: "bytes \<Rightarrow> string" where
  "repr_bytes b =
     (let s = map byte_char b; q = (if CHR 0x27 \<in> set s \<and> CHR 0x22 \<notin> set s then CHR 0x22 else CHR 0x27);
          esc = (\<lambda>c. let n = (of_char c :: nat) in
                  if n < 128 then repr_char q c else [CHR 0x5C, CHR ''x'', hex_digit (n div 16), hex_digit (n mod 16)])
      in CHR ''b'' # q # concat (map esc s) @ [q])"

fun repr_float :: "pyfloat \<Rightarrow> string" where
  "repr_float FNan = ''nan''"
| "repr_float FPInf = ''inf''"
| "repr_float FNInf = ''-inf''"
| "repr_float (FFin q) = float_str (FFin q)"

text \<open>\<open>sep.join(parts)\<close>\<close>

fun join :: "string \<Rightarrow> string list \<Rightarrow> string" where
  "join sep [] = []"
| "join sep [s] = s"
| "join sep (s # t # ss) = s @ sep @ join sep (t # ss)"

fun py_repr :: "pyval \<Rightarrow> string" where
  "py_repr PNone = ''None''"
| "py_repr (PBool b) = (if b then ''True'' else ''False'')"
| "py_repr (PInt i) = int_str i"
| "py_repr (PFloat x) = repr_float x"
| "py_repr (PStr s) = repr_string s"
| "py_repr (PBytes b) = repr_bytes b"
| "py_repr (PList vs) = ''['' @ join '', '' (map py_repr vs) @ '']''"
| "py_repr (PDict kvs) = ''{'' @ join '', '' (map (\<lambda>(k, v). repr_string k @ '': '' @ py_repr v) kvs) @ ''}''"

definition py_str :: "pyval \<Rightarrow> string" where
  "py_str v = (case v of PStr s \<Rightarrow> s | _ \<Rightarrow> py_repr v)"

section \<open>String methods\<close>

text \<open>
  \<open>s.split(sep)[-1]\<close>: what follows the last separator, the whole string when there is none. \<open>r\<close> is what
  follows the last separator found so far; a separator must not overlap itself.
\<close>

fun last_part :: "string \<Rightarrow> string \<Rightarrow> string \<Rightarrow> string" where
  "last_part sep r [] = r"
| "last_part sep r (c # cs) =
     last_part sep (if take (length sep) (c # cs) = sep then drop (length sep) (c # cs) else r) cs"

definition split_last :: "string \<Rightarrow> string \<Rightarrow> string" where
  "split_last sep s = last_part sep s s"

text \<open>\<open>s.strip()\<close>, of ASCII white space.\<close>

definition strip_space :: "char \<Rightarrow> bool" where
  "strip_space c = (let n = (of_char c :: nat) in n = 32 \<or> (9 \<le> n \<and> n \<le> 13) \<or> (28 \<le> n \<and> n \<le> 31))"

definition strip :: "string \<Rightarrow> string" where
  "strip s = rev (dropWhile strip_space (rev (dropWhile strip_space s)))"

text \<open>\<open>xs[:n]\<close>\<close>

definition slice_to :: "int \<Rightarrow> 'a list \<Rightarrow> 'a list" where
  "slice_to n xs = (if 0 \<le> n then take (nat n) xs else take (length xs - nat (- n)) xs)"

lemma length_slice_to: "0 \<le> n \<Longrightarrow> length (slice_to n xs) = min (nat n) (length xs)"
  by (simp add: slice_to_def)

lemma set_slice_to: "set (slice_to n xs) \<subseteq> set xs"
  using set_take_subset [of "nat n" xs] set_take_subset [of "length xs - nat (- n)" xs] by (auto simp: slice_to_def)

text \<open>A buffer that keeps its last \<open>m\<close> elements: append, then drop the first when it is too long.\<close>

definition push_last :: "nat \<Rightarrow> 'a \<Rightarrow> 'a list \<Rightarrow> 'a list" where
  "push_last m x xs = (let ys = xs @ [x] in if m < length ys then tl ys else ys)"

lemma length_push_last: "length xs \<le> m \<Longrightarrow> length (push_last m x xs) = min m (length xs + 1)"
  by (simp add: push_last_def Let_def)

lemma push_last_bound: "length xs \<le> m \<Longrightarrow> length (push_last m x xs) \<le> m"
  by (simp add: length_push_last)

lemma set_push_last: "set (push_last m x xs) \<subseteq> insert x (set xs)"
  by (auto simp: push_last_def Let_def dest!: list.set_sel(2) [rotated] split: if_splits)

text \<open>What is left of a whole history.\<close>

lemma push_last_suffix: "push_last m x (drop (length xs - m) xs) = drop (length (xs @ [x]) - m) (xs @ [x])"
proof (cases "length xs < m")
  case False
  have "drop (length xs - m) xs @ [x] = drop (length xs - m) (xs @ [x])" by simp
  then have "tl (drop (length xs - m) xs @ [x]) = drop (Suc (length xs - m)) (xs @ [x])" by (simp only: tl_drop drop_Suc)
  also have "\<dots> = drop (length (xs @ [x]) - m) (xs @ [x])" using False by (simp add: Suc_diff_le)
  finally show ?thesis using False by (simp add: push_last_def Let_def)
qed (simp add: push_last_def Let_def)

lemma fold_push_last: "fold (push_last m) xs [] = drop (length xs - m) xs"
proof (induction xs rule: rev_induct)
  case (snoc x xs)
  then show ?case by (simp add: push_last_suffix)
qed simp

lemma length_fold_push_last: "length (fold (push_last m) xs []) = min m (length xs)"
  by (simp add: fold_push_last)

end
