(* ===== verification/ThreatPanel.thy ===== *)
theory ThreatPanel
  imports PyText AnomalyFilter
begin

text \<open>
  \<open>dashboard/components/threat_panel.py\<close>: the panel that classifies the results of the telemetry feed
  by their reason, counts them, keeps the last 200 threats and shows consecutive equal ones as one
  card. The lemmas give counters and buffer as functions of all results ingested, and the cards as
  a grouping of the buffer.
\<close>

section \<open>Results of the feed\<close>

text \<open>
  What \<open>TelemetryFeed._make_result\<close> builds, with the two keys its callers add. No packet of the feed has
  the key \<open>anomaly_result\<close> except where the feed sets it, so that \<open>None\<close> stands for its default, the empty dict.
\<close>

record feed_result =
  fr_sequence_no :: pyval
  fr_team :: pyval
  fr_session :: pyval
  fr_driver :: pyval
  fr_node_id :: pyval
  fr_decision :: string
  fr_reason :: string
  fr_timestamp :: string
  fr_payload_json :: pyval
  fr_anomaly_result :: "anomaly_result option"
  fr_anomaly_flagged :: "bool option"
  fr_attack_injected :: "string option"

section \<open>Threats\<close>

datatype threat_type =
    REPLAY_ATTACK | TAMPERING | SIGNATURE_FAILURE | ZKP_MISMATCH | ANOMALY_REJECT | IAM_VIOLATION | ANOMALY_FLAG

datatype threat_severity = INFO | WARN | CRITICAL

record threat_event =
  te_type :: threat_type
  te_message :: string
  te_severity :: threat_severity
  te_seq :: pyval
  te_team :: pyval
  te_timestamp :: string

record threat_panel =
  th_events :: "threat_event list"
  th_replays :: int
  th_tampers :: int
  th_anomalies :: int
  th_iam :: int
  th_sig :: int
  th_zkp :: int
  th_last_seq :: pyval
  th_accepted :: int
  th_rejected :: int

definition panel_reset :: threat_panel where
  "panel_reset = \<lparr>th_events = [], th_replays = 0, th_tampers = 0, th_anomalies = 0, th_iam = 0, th_sig = 0, th_zkp = 0,
     th_last_seq = PInt 0, th_accepted = 0, th_rejected = 0\<rparr>"

text \<open>The chain of tests on the reason, the first that holds deciding; then the decision.\<close>

definition classify :: "string \<Rightarrow> string \<Rightarrow> threat_type option" where
  "classify decision reason =
     (if is_infix ''replay'' reason \<or> is_infix ''sequence'' reason then Some REPLAY_ATTACK
      else if is_infix ''aead'' reason \<or> is_infix ''tamper'' reason then Some TAMPERING
      else if is_infix ''sig'' reason then Some SIGNATURE_FAILURE
      else if is_infix ''zkp'' reason then Some ZKP_MISMATCH
      else if is_infix ''anomaly_rejected'' reason then Some ANOMALY_REJECT
      else if is_infix ''iam'' reason then Some IAM_VIOLATION
      else if decision = ''FLAG'' then Some ANOMALY_FLAG
      else None)"

definition severity_of :: "threat_type \<Rightarrow> threat_severity" where
  "severity_of t = (if t = ANOMALY_REJECT \<or> t = ANOMALY_FLAG then WARN else CRITICAL)"

text \<open>The dashes and the multiplication sign of the messages.\<close>

definition em_dash :: string where "em_dash = [CHR 0xE2, CHR 0x80, CHR 0x94]"
definition en_dash :: string where "en_dash = [CHR 0xE2, CHR 0x80, CHR 0x93]"
definition times_sign :: string where "times_sign = [CHR 0xC3, CHR 0x97]"

definition flagged_channels :: "feed_result \<Rightarrow> string" where
  "flagged_channels r =
     (let vs = (case fr_anomaly_result r of None \<Rightarrow> [] | Some a \<Rightarrow> an_violations a)
      in if vs = [] then ''unknown'' else join '', '' (map vio_channel vs))"

definition threat_message :: "threat_type \<Rightarrow> feed_result \<Rightarrow> string" where
  "threat_message t r =
     (let seq = py_str (fr_sequence_no r); team = py_str (fr_team r)
      in case t of
        REPLAY_ATTACK \<Rightarrow> ''Replay detected '' @ em_dash @ '' seq='' @ seq @ '' team='' @ team
      | TAMPERING \<Rightarrow> ''AEAD tag failure '' @ em_dash @ '' seq='' @ seq @ '' ciphertext modified''
      | SIGNATURE_FAILURE \<Rightarrow> ''Ed25519 invalid '' @ em_dash @ '' seq='' @ seq @ '' team='' @ team @ '' packet may be forged''
      | ZKP_MISMATCH \<Rightarrow> ''ZKP commitment mismatch '' @ em_dash @ '' seq='' @ seq @ '' payload modified after commitment''
      | ANOMALY_REJECT \<Rightarrow> ''Physical bounds violation '' @ em_dash @ '' seq='' @ seq @ '' impossible sensor value''
      | IAM_VIOLATION \<Rightarrow> ''IAM access denied '' @ em_dash @ '' seq='' @ seq @ '' team='' @ team
      | ANOMALY_FLAG \<Rightarrow> ''Statistical threshold '' @ em_dash @ '' seq='' @ seq @ '' channels: '' @ flagged_channels r)"

definition threat_event_of :: "string \<Rightarrow> threat_type \<Rightarrow> feed_result \<Rightarrow> threat_event" where
  "threat_event_of stamp t r =
     \<lparr>te_type = t, te_message = threat_message t r, te_severity = severity_of t, te_seq = fr_sequence_no r,
      te_team = fr_team r, te_timestamp = stamp\<rparr>"

section \<open>Ingesting\<close>

definition count_threat :: "threat_type \<Rightarrow> threat_panel \<Rightarrow> threat_panel" where
  "count_threat t p =
     (case t of
        REPLAY_ATTACK \<Rightarrow> p\<lparr>th_replays := th_replays p + 1\<rparr>
      | TAMPERING \<Rightarrow> p\<lparr>th_tampers := th_tampers p + 1\<rparr>
      | SIGNATURE_FAILURE \<Rightarrow> p\<lparr>th_sig := th_sig p + 1, th_tampers := th_tampers p + 1\<rparr>
      | ZKP_MISMATCH \<Rightarrow> p\<lparr>th_zkp := th_zkp p + 1, th_tampers := th_tampers p + 1\<rparr>
      | ANOMALY_REJECT \<Rightarrow> p\<lparr>th_anomalies := th_anomalies p + 1\<rparr>
      | IAM_VIOLATION \<Rightarrow> p\<lparr>th_iam := th_iam p + 1\<rparr>
      | ANOMALY_FLAG \<Rightarrow> p\<lparr>th_anomalies := th_anomalies p + 1\<rparr>)"

definition EVENT_BUFFER :: nat where "EVENT_BUFFER = 200"

definition add_event :: "threat_event \<Rightarrow> threat_panel \<Rightarrow> threat_panel" where
  "add_event e p = p\<lparr>th_events := push_last EVENT_BUFFER e (th_events p)\<rparr>"

definition count_decision :: "feed_result \<Rightarrow> threat_panel \<Rightarrow> threat_panel" where
  "count_decision r p =
     (if fr_decision r = ''ACCEPT'' then p\<lparr>th_accepted := th_accepted p + 1\<rparr> else p\<lparr>th_rejected := th_rejected p + 1\<rparr>)"

definition record_threat :: "string \<Rightarrow> feed_result \<Rightarrow> threat_panel \<Rightarrow> threat_panel" where
  "record_threat stamp r p =
     (case classify (fr_decision r) (fr_reason r) of None \<Rightarrow> p
      | Some t \<Rightarrow> add_event (threat_event_of stamp t r) (count_threat t p))"

text \<open>The comparison at the end raises for a sequence number that is not a number; nothing is undone.\<close>

definition ingest :: "string \<Rightarrow> feed_result option \<Rightarrow> threat_panel \<Rightarrow> unit res \<times> threat_panel" where
  "ingest stamp result p =
     (case result of None \<Rightarrow> (Inr (), p)
      | Some r \<Rightarrow>
          let p' = record_threat stamp r (count_decision r p)
          in case py_gt (fr_sequence_no r) (th_last_seq p') of
               Inl e \<Rightarrow> (Inl e, p')
             | Inr later \<Rightarrow> (Inr (), if later then p'\<lparr>th_last_seq := fr_sequence_no r\<rparr> else p'))"

section \<open>Cards\<close>

definition channel_key :: "threat_event \<Rightarrow> string" where
  "channel_key e = strip (split_last ''channels:'' (te_message e))"

definition same_card :: "threat_event \<Rightarrow> threat_event \<Rightarrow> bool" where
  "same_card e e' = (te_type e' = te_type e \<and> channel_key e' = channel_key e)"

definition merged_card :: "threat_event \<Rightarrow> nat \<Rightarrow> pyval \<Rightarrow> threat_event" where
  "merged_card e n newest =
     e\<lparr>te_message := ''Statistical threshold '' @ em_dash @ '' channels: '' @ channel_key e @ '' '' @ times_sign @
         int_str (int n) @ '' (seq '' @ py_str (te_seq e) @ en_dash @ py_str newest @ '')''\<rparr>"

text \<open>The outer loop takes an event, the inner one counts those that follow and belong to its card.\<close>

function threat_cards :: "threat_event list \<Rightarrow> threat_event list" where
  "threat_cards [] = []"
| "threat_cards (e # es) =
     (let same = takeWhile (same_card e) es
      in (if same = [] then e else merged_card e (1 + length same) (te_seq (last same))) #
         threat_cards (drop (length same) es))"
  by pat_completeness auto
termination by (relation "measure length") auto

definition get_recent :: "int \<Rightarrow> threat_panel \<Rightarrow> threat_event list" where
  "get_recent limit p = slice_from_neg limit (threat_cards (th_events p))"

section \<open>Getters\<close>

record threat_stats =
  hs_replays :: int
  hs_tampers :: int
  hs_anomalies :: int
  hs_iam_blocks :: int
  hs_sig_failures :: int
  hs_zkp_failures :: int
  hs_total_threats :: nat
  hs_accepted :: int
  hs_rejected :: int

definition panel_stats :: "threat_panel \<Rightarrow> threat_stats" where
  "panel_stats p =
     \<lparr>hs_replays = th_replays p, hs_tampers = th_tampers p, hs_anomalies = th_anomalies p, hs_iam_blocks = th_iam p,
      hs_sig_failures = th_sig p, hs_zkp_failures = th_zkp p, hs_total_threats = length (th_events p),
      hs_accepted = th_accepted p, hs_rejected = th_rejected p\<rparr>"

definition critical_events :: "threat_panel \<Rightarrow> threat_event list" where
  "critical_events p = filter (\<lambda>e. te_severity e = CRITICAL) (th_events p)"

definition has_active_threats :: "threat_panel \<Rightarrow> bool" where
  "has_active_threats p = (\<exists>e\<in>set (slice_from_neg 10 (th_events p)). te_severity e = CRITICAL)"

section \<open>Counters and buffer\<close>

text \<open>Results as they arrive, with the time stamp an event made of one gets, and the threats they are.\<close>

type_synonym arrival = "string \<times> feed_result option"

definition threat_of :: "arrival \<Rightarrow> threat_event option" where
  "threat_of x =
     (case snd x of None \<Rightarrow> None
      | Some r \<Rightarrow> map_option (\<lambda>t. threat_event_of (fst x) t r) (classify (fr_decision r) (fr_reason r)))"

definition threats :: "arrival list \<Rightarrow> threat_event list" where
  "threats xs = List.map_filter threat_of xs"

definition of_type :: "threat_type \<Rightarrow> threat_event list \<Rightarrow> int" where
  "of_type t es = int (length (filter (\<lambda>e. te_type e = t) es))"

definition results :: "arrival list \<Rightarrow> feed_result list" where
  "results xs = List.map_filter snd xs"

definition ingest_all :: "arrival list \<Rightarrow> threat_panel \<Rightarrow> threat_panel" where
  "ingest_all xs p = fold (\<lambda>x p. snd (ingest (fst x) (snd x) p)) xs p"

lemma of_type_simps [simp]: "of_type t [] = 0"
  "of_type t (es @ [e]) = of_type t es + (if te_type e = t then 1 else 0)"
  by (simp_all add: of_type_def)

lemma threats_snoc: "threats (xs @ [x]) = threats xs @ (case threat_of x of None \<Rightarrow> [] | Some e \<Rightarrow> [e])"
  by (simp add: threats_def List.map_filter_def split: option.split)

lemma results_snoc: "results (xs @ [x]) = results xs @ (case snd x of None \<Rightarrow> [] | Some r \<Rightarrow> [r])"
  by (simp add: results_def List.map_filter_def split: option.split)

text \<open>What one result does to buffer and counters, whether or not the last comparison raises.\<close>

definition counters :: "threat_panel \<Rightarrow> int \<times> int \<times> int \<times> int \<times> int \<times> int" where
  "counters p = (th_replays p, th_tampers p, th_anomalies p, th_iam p, th_sig p, th_zkp p)"

definition threat_counts :: "threat_event list \<Rightarrow> int \<times> int \<times> int \<times> int \<times> int \<times> int" where
  "threat_counts es =
     (of_type REPLAY_ATTACK es, of_type TAMPERING es + of_type SIGNATURE_FAILURE es + of_type ZKP_MISMATCH es,
      of_type ANOMALY_REJECT es + of_type ANOMALY_FLAG es, of_type IAM_VIOLATION es, of_type SIGNATURE_FAILURE es,
      of_type ZKP_MISMATCH es)"

lemma ingest_keeps:
  "snd (ingest s r p) = (case r of None \<Rightarrow> p | Some x \<Rightarrow>
     let p' = record_threat s x (count_decision x p)
     in p'\<lparr>th_last_seq := (if py_gt (fr_sequence_no x) (th_last_seq p') = Inr True then fr_sequence_no x else th_last_seq p')\<rparr>)"
  by (simp add: ingest_def Let_def split: option.split sum.split)

lemma count_threat_simps [simp]:
  "th_events (count_threat t p) = th_events p" "th_accepted (count_threat t p) = th_accepted p"
  "th_rejected (count_threat t p) = th_rejected p"
  by (cases t; simp add: count_threat_def)+

lemma count_decision_simps [simp]:
  "th_events (count_decision r p) = th_events p" "counters (count_decision r p) = counters p"
  "th_accepted (count_decision r p) = th_accepted p + (if fr_decision r = ''ACCEPT'' then 1 else 0)"
  "th_rejected (count_decision r p) = th_rejected p + (if fr_decision r = ''ACCEPT'' then 0 else 1)"
  by (simp_all add: count_decision_def counters_def)

lemma add_event_simps [simp]:
  "th_events (add_event e p) = push_last 200 e (th_events p)" "counters (add_event e p) = counters p"
  "th_accepted (add_event e p) = th_accepted p" "th_rejected (add_event e p) = th_rejected p"
  by (simp_all add: add_event_def counters_def EVENT_BUFFER_def)

lemma count_threat_counters:
  "counters p = threat_counts es \<Longrightarrow> te_type e = t \<Longrightarrow> counters (count_threat t p) = threat_counts (es @ [e])"
  by (cases t; simp add: count_threat_def counters_def threat_counts_def)

lemma te_type_of [simp]: "te_type (threat_event_of s t r) = t"
  by (simp add: threat_event_of_def)

lemma ingest_effect:
  "th_events (snd (ingest s r p)) =
     (case threat_of (s, r) of None \<Rightarrow> th_events p | Some e \<Rightarrow> push_last 200 e (th_events p))"
  "th_accepted (snd (ingest s r p)) =
     th_accepted p + (case r of Some x \<Rightarrow> if fr_decision x = ''ACCEPT'' then 1 else 0 | None \<Rightarrow> 0)"
  "th_rejected (snd (ingest s r p)) =
     th_rejected p + (case r of Some x \<Rightarrow> if fr_decision x = ''ACCEPT'' then 0 else 1 | None \<Rightarrow> 0)"
  by (simp_all add: ingest_keeps threat_of_def record_threat_def Let_def split: option.split)

lemma ingest_counters:
  assumes "counters p = threat_counts es"
  shows "counters (snd (ingest s r p)) = threat_counts (es @ (case threat_of (s, r) of None \<Rightarrow> [] | Some e \<Rightarrow> [e]))"
proof (cases r)
  case (Some x)
  let ?p = "count_decision x p"
  have p: "counters ?p = threat_counts es" using assms by simp
  have "counters (record_threat s x ?p) = threat_counts (es @ (case threat_of (s, r) of None \<Rightarrow> [] | Some e \<Rightarrow> [e]))"
    using p count_threat_counters [OF p, of "threat_event_of s t x" t for t]
    by (cases "classify (fr_decision x) (fr_reason x)") (simp_all add: record_threat_def threat_of_def Some)
  moreover have "counters (q\<lparr>th_last_seq := n\<rparr>) = counters q" for q n by (simp add: counters_def)
  ultimately show ?thesis by (simp add: ingest_keeps Some Let_def)
qed (use assms in \<open>simp add: ingest_keeps threat_of_def\<close>)

lemma ingest_all_snoc: "ingest_all (xs @ [x]) p = snd (ingest (fst x) (snd x) (ingest_all xs p))"
  by (simp add: ingest_all_def)

lemma ingest_all_events: "th_events (ingest_all xs panel_reset) = drop (length (threats xs) - 200) (threats xs)"
proof (induction xs rule: rev_induct)
  case Nil
  then show ?case by (simp add: ingest_all_def panel_reset_def threats_def List.map_filter_def)
next
  case (snoc x xs)
  then show ?case
    by (cases "threat_of x") (simp_all add: ingest_all_snoc ingest_effect threats_snoc push_last_suffix del: length_append)
qed

lemma ingest_all_counters: "counters (ingest_all xs panel_reset) = threat_counts (threats xs)"
proof (induction xs rule: rev_induct)
  case Nil
  then show ?case
    by (simp add: ingest_all_def panel_reset_def threats_def List.map_filter_def counters_def threat_counts_def)
next
  case (snoc x xs)
  then show ?case using ingest_counters [OF snoc.IH, of "fst x" "snd x"] by (simp add: ingest_all_snoc threats_snoc)
qed

lemma ingest_all_decisions:
  "th_accepted (ingest_all xs panel_reset) = int (length (filter (\<lambda>r. fr_decision r = ''ACCEPT'') (results xs))) \<and>
   th_accepted (ingest_all xs panel_reset) + th_rejected (ingest_all xs panel_reset) = int (length (results xs))"
proof (induction xs rule: rev_induct)
  case Nil
  then show ?case by (simp add: ingest_all_def panel_reset_def results_def List.map_filter_def)
next
  case (snoc x xs)
  then show ?case by (auto simp: ingest_all_snoc ingest_effect results_snoc split: option.split)
qed

lemma last_ten: "slice_from_neg 10 (drop (length es - 200) es) = slice_from_neg 10 es"
proof -
  have "length es - (length es - 200 + 10) + (length es - 200) = length es - 10" by arith
  then show ?thesis by (simp add: slice_from_neg_def)
qed

text \<open>C27. The panel is a function of all results it was given: its buffer is the last 200 threats among them,
  its counters count the threats of their types (a forged signature and a wrong commitment also as
  tampering), acceptances and rejections add up to the number of results, and threats are active
  exactly when one of the last ten was critical.\<close>

theorem panel_accounts:
  "let p = ingest_all xs panel_reset; es = threats xs
   in th_events p = drop (length es - 200) es \<and> length (th_events p) \<le> 200 \<and>
      th_replays p = of_type REPLAY_ATTACK es \<and>
      th_tampers p = of_type TAMPERING es + of_type SIGNATURE_FAILURE es + of_type ZKP_MISMATCH es \<and>
      th_anomalies p = of_type ANOMALY_REJECT es + of_type ANOMALY_FLAG es \<and>
      th_iam p = of_type IAM_VIOLATION es \<and> th_sig p = of_type SIGNATURE_FAILURE es \<and> th_zkp p = of_type ZKP_MISMATCH es \<and>
      th_accepted p = int (length (filter (\<lambda>r. fr_decision r = ''ACCEPT'') (results xs))) \<and>
      th_accepted p + th_rejected p = int (length (results xs)) \<and>
      (has_active_threats p = (\<exists>e\<in>set (slice_from_neg 10 es). te_severity e = CRITICAL))"
  using ingest_all_events [of xs] ingest_all_counters [of xs] ingest_all_decisions [of xs]
  by (simp add: Let_def counters_def threat_counts_def has_active_threats_def last_ten)

text \<open>
  The reason \<open>integrity_failed\<close>, which the feed gives when the relay's checker refuses a replayed packet,
  is none that the panel knows: the rejection is counted, but no threat is recorded.
\<close>

lemma integrity_failed_unknown: "classify ''REJECT'' ''integrity_failed'' = None"
  by (simp add: classify_def)

section \<open>Cards as groups\<close>

definition card_of :: "threat_event list \<Rightarrow> threat_event" where
  "card_of g = (if length g = 1 then hd g else merged_card (hd g) (length g) (te_seq (last g)))"

definition one_card :: "threat_event list \<Rightarrow> bool" where
  "one_card g = (g \<noteq> [] \<and> (\<forall>e\<in>set g. same_card (hd g) e))"

lemma same_card_refl [simp]: "same_card e e"
  by (simp add: same_card_def)

lemma card_of_run:
  assumes "g = e # takeWhile (same_card e) es"
  shows "card_of g = (if takeWhile (same_card e) es = [] then e
    else merged_card e (1 + length (takeWhile (same_card e) es)) (te_seq (last (takeWhile (same_card e) es))))"
  using assms by (simp add: card_of_def)

lemma one_card_run: "one_card (e # takeWhile (same_card e) es)"
  by (auto simp: one_card_def dest: set_takeWhileD)

text \<open>
  C305. The cards lose nothing and mix nothing up: they are one card per group of a division of the buffer
  into consecutive, non-empty groups, each of one type and one channel text, no two neighbours of the
  same; a group of one event is shown as it is, a larger one with its size and its first and last number.
\<close>

theorem cards_group_events:
  "\<exists>gs. concat gs = es \<and> threat_cards es = map card_of gs \<and> (\<forall>g\<in>set gs. one_card g) \<and>
     (\<forall>i. Suc i < length gs \<longrightarrow> \<not> same_card (hd (gs ! i)) (hd (gs ! Suc i)))"
proof (induction es rule: threat_cards.induct)
  case (2 e es)
  let ?same = "takeWhile (same_card e) es" and ?rest = "drop (length (takeWhile (same_card e) es)) es"
  obtain gs where gs: "concat gs = ?rest" "threat_cards ?rest = map card_of gs" "\<forall>g\<in>set gs. one_card g"
    "\<forall>i. Suc i < length gs \<longrightarrow> \<not> same_card (hd (gs ! i)) (hd (gs ! Suc i))"
    using "2.IH" [OF refl] by blast
  have "\<not> same_card e (hd (hd gs))" if "gs \<noteq> []"
  proof -
    obtain g0 gs' where g0: "gs = g0 # gs'" using \<open>gs \<noteq> []\<close> by (cases gs) simp_all
    then have "g0 \<noteq> []" using gs(3) by (simp add: one_card_def)
    then obtain a g where "g0 = a # g" by (cases g0) simp_all
    with g0 have "dropWhile (same_card e) es = a # g @ concat gs'" "hd (hd gs) = a" using gs(1) by (simp_all add: dropWhile_eq_drop)
    then show ?thesis using hd_dropWhile [of "same_card e" es] by simp
  qed
  note neighbour = this
  have "\<not> same_card (hd (((e # ?same) # gs) ! i)) (hd (((e # ?same) # gs) ! Suc i))" if "Suc i < length ((e # ?same) # gs)" for i
  proof (cases i)
    case 0
    then have "gs \<noteq> []" using that by auto
    then have "\<not> same_card e (hd (gs ! 0))" using neighbour by (simp add: hd_conv_nth)
    then show ?thesis by (simp add: 0)
  next
    case (Suc j)
    then show ?thesis using gs(4) that by simp
  qed
  moreover have "concat ((e # ?same) # gs) = e # es" using gs(1) by (simp add: dropWhile_eq_drop [symmetric])
  moreover have "threat_cards (e # es) = map card_of ((e # ?same) # gs)"
    using gs(2) card_of_run [OF refl, of e es] by (simp add: Let_def)
  ultimately show ?case using gs(3) one_card_run by (intro exI [of _ "(e # ?same) # gs"]) auto
qed simp

text \<open>
  A card of several events says that they exceeded a statistical threshold, whatever their type: two
  rejections of the same forged packet are shown as one.
\<close>

lemma merged_card_text:
  "2 \<le> length g \<Longrightarrow> take 21 (te_message (card_of g)) = ''Statistical threshold''"
  by (simp add: card_of_def merged_card_def)

end
