(* ===== verification/TelemetryFeed.thy ===== *)
theory TelemetryFeed
  imports TamperScenarios ThreatPanel
begin

text \<open>
  \<open>dashboard/components/telemetry_feed.py\<close>: the feed that runs the complete pipeline for the dashboard,
  packet by packet or with an injected attack, and keeps the figures the dashboard shows. One
  definition per stage of \<open>process_one_packet\<close> and \<open>inject_attack\<close>, the last stage first. The sensor's
  frames, keys, nonces, clock readings and time stamps are arguments. The theorems say what the feed
  answers while the pipeline is intact, what becomes of an injected replay, and how its figures add up.
\<close>

section \<open>State\<close>

text \<open>The components of the pipeline; no event of the feed's audit logger has details.\<close>

record feed_parts =
  fp_core :: attack_pipeline
  fp_anomaly :: anomaly_filter
  fp_audit :: "unit audit"

record feed_audit_event =
  fa_timestamp :: string
  fa_decision :: string
  fa_sequence_no :: pyval
  fa_reason :: string

record chart_history =
  ch_seq :: "pyval list"
  ch_speed :: "pyval list"
  ch_rpm :: "pyval list"
  ch_throttle :: "pyval list"

record feed_log =
  fd_session_start :: clock
  fd_packet_count :: int
  fd_recent :: "feed_result list"
  fd_audit_events :: "feed_audit_event list"
  fd_last_encrypted :: "pydict option"
  fd_frames :: "pydict list"
  fd_chart :: chart_history
  fd_total :: int
  fd_accepted :: int
  fd_rejected :: int
  fd_flagged :: int
  fd_key_rotations :: int
  fd_start_time :: "clock option"
  fd_an_checked :: int
  fd_an_flagged :: int
  fd_an_rejected :: int
  fd_car_key :: string
  fd_val_key :: string
  fd_encrypted :: int
  fd_reencrypted :: int
  fd_signatures :: int
  fd_zkp_verified :: int
  fd_key_age :: pyval
  fd_data_rows :: int

text \<open>The components exist exactly while the feed is initialised.\<close>

record feed =
  fe_parts :: "feed_parts option"
  fe_log :: feed_log

definition empty_chart :: chart_history where
  "empty_chart = \<lparr>ch_seq = [], ch_speed = [], ch_rpm = [], ch_throttle = []\<rparr>"

definition reset_log :: "clock \<Rightarrow> feed_log" where
  "reset_log now =
     \<lparr>fd_session_start = now, fd_packet_count = 0, fd_recent = [], fd_audit_events = [], fd_last_encrypted = None,
      fd_frames = [], fd_chart = empty_chart, fd_total = 0, fd_accepted = 0, fd_rejected = 0, fd_flagged = 0,
      fd_key_rotations = 0, fd_start_time = None, fd_an_checked = 0, fd_an_flagged = 0, fd_an_rejected = 0,
      fd_car_key = replicate 32 (CHR ''0''), fd_val_key = replicate 32 (CHR ''0''), fd_encrypted = 0, fd_reencrypted = 0,
      fd_signatures = 0, fd_zkp_verified = 0, fd_key_age = PInt 0, fd_data_rows = 0\<rparr>"

definition feed_reset :: "clock \<Rightarrow> feed" where
  "feed_reset now = \<lparr>fe_parts = None, fe_log = reset_log now\<rparr>"

section \<open>Initialisation\<close>

text \<open>
  What an initialisation takes from outside: the number of rows of the sensor, or the exception its
  construction raises; the random keys; the thresholds file; the clock.
\<close>

record feed_start =
  fs_rows :: "int res"
  fs_keys :: sim_keys
  fs_thresholds :: "bytes option"
  fs_reset_now :: clock
  fs_session_now :: clock
  fs_start_now :: clock

definition feed_pipeline :: "pyca \<Rightarrow> sim_keys \<Rightarrow> bytes option \<Rightarrow> string \<Rightarrow> string \<Rightarrow> (sim_pipeline \<times> anomaly_filter) res" where
  "feed_pipeline C k thresholds team sess =
     rbind (builder_init team sess None) (\<lambda>bld.
     let node = team @ ''_car''; sgn = signer_init node (sk_signer k) (sk_now k) in
     rbind (cross_handshake C (sk_now k) node (sk_car k) ''relay_01'' (sk_relay k)) (\<lambda>(car, rel).
     rbind (cross_handshake C (sk_now k) ''relay_val'' (sk_relay_val k) ''fia_validator'' (sk_validator k)) (\<lambda>(rv, val).
     rbind (keep (register_session node rel (decryptor_init ''relay_01''))) (\<lambda>(_, dec).
     rbind (keep (register_validator_session rv (reencryptor_init ''relay_01''))) (\<lambda>(_, ren).
     rbind (anomaly_init ''relay_01'' thresholds) (\<lambda>f.
     rbind (keep (sv_register_node node (signer_public C sgn) (sig_verifier_init ''fia_validator''))) (\<lambda>(_, sv).
       Inr (\<lparr>sp_builder = bld, sp_signer = sgn, sp_car_engine = car, sp_encryptor = encryptor_init node,
             sp_decryptor = dec, sp_reencryptor = ren, sp_val_engine = val, sp_sig = sv,
             sp_zkp = zkp_init ''fia_validator''\<rparr>, f))))))))"

definition feed_parts_init :: "pyca \<Rightarrow> feed_start \<Rightarrow> string \<Rightarrow> string \<Rightarrow> feed_parts res" where
  "feed_parts_init C s team sess =
     rbind (feed_pipeline C (fs_keys s) (fs_thresholds s) team sess) (\<lambda>(p, f).
       Inr \<lparr>fp_core = \<lparr>at_pipe = p,
              at_relay = integrity_init ''relay_01'' MAX_TIMESTAMP_AGE_MS MAX_SEQUENCE_GAP False True,
              at_seq = seqcheck_init ''fia_validator'' SC_MAX_TIMESTAMP_AGE_MS SC_MAX_SEQUENCE_GAP False True\<rparr>,
            fp_anomaly = f, fp_audit = audit_init ''fia_validator'' False\<rparr>)"

text \<open>The key as text; there is none without a completed handshake.\<close>

definition key_hex :: "engine \<Rightarrow> string res" where
  "key_hex e = (case engine_key e of None \<Rightarrow> Inl AttributeErr | Some k \<Rightarrow> Inr (to_hex k))"

definition initialise :: "pyca \<Rightarrow> feed_start \<Rightarrow> string \<Rightarrow> string \<Rightarrow> unit res \<times> feed" where
  "initialise C s team sess =
     (let l0 = reset_log (fs_reset_now s)
      in case fs_rows s of Inl e \<Rightarrow> (Inl e, \<lparr>fe_parts = None, fe_log = l0\<rparr>)
       | Inr rows \<Rightarrow>
           let l1 = l0\<lparr>fd_data_rows := rows\<rparr>
           in case rbind (feed_parts_init C s team sess) (\<lambda>p.
                     rbind (key_hex (sp_car_engine (at_pipe (fp_core p)))) (\<lambda>ck.
                     rbind (key_hex (sp_val_engine (at_pipe (fp_core p)))) (\<lambda>vk. Inr (p, ck, vk)))) of
                Inl e \<Rightarrow> (Inl e, \<lparr>fe_parts = None, fe_log = l1\<rparr>)
              | Inr (p, ck, vk) \<Rightarrow>
                  (Inr (), \<lparr>fe_parts = Some p,
                     fe_log = l1\<lparr>fd_car_key := ck, fd_val_key := vk, fd_session_start := fs_session_now s,
                       fd_start_time := Some (fs_start_now s)\<rparr>\<rparr>))"

section \<open>Results and records\<close>

definition make_result :: "string \<Rightarrow> pydict \<Rightarrow> string \<Rightarrow> string \<Rightarrow> feed_result" where
  "make_result stamp pkt decision reason =
     \<lparr>fr_sequence_no = dict_get_or pkt ''sequence_no'' (PInt 0), fr_team = dict_get_or pkt ''team'' (PStr []),
      fr_session = dict_get_or pkt ''session'' (PStr []), fr_driver = dict_get_or pkt ''driver'' (PStr ''UNK''),
      fr_node_id = dict_get_or pkt ''node_id'' (dict_get_or pkt ''original_node'' (PStr [])),
      fr_decision = decision, fr_reason = reason, fr_timestamp = stamp,
      fr_payload_json = dict_get_or pkt ''payload_json'' (PDict []), fr_anomaly_result = None,
      fr_anomaly_flagged = None, fr_attack_injected = None\<rparr>"

definition feed_event :: "string \<Rightarrow> string \<Rightarrow> pydict \<Rightarrow> string \<Rightarrow> feed_audit_event" where
  "feed_event stamp decision pkt reason =
     \<lparr>fa_timestamp = stamp, fa_decision = decision, fa_sequence_no = dict_get_or pkt ''sequence_no'' (PInt 0), fa_reason = reason\<rparr>"

definition record_reject :: "string \<Rightarrow> pydict \<Rightarrow> string \<Rightarrow> feed_log \<Rightarrow> feed_log" where
  "record_reject stamp pkt reason l =
     l\<lparr>fd_rejected := fd_rejected l + 1,
       fd_audit_events := fd_audit_events l @ [feed_event stamp ''REJECT'' pkt reason]\<rparr>"

section \<open>One packet\<close>

text \<open>What one call takes from outside; \<open>fi_forged\<close> is the signature that a forging attack draws.\<close>

record feed_inputs =
  fi_packet :: packet_inputs
  fi_relay_now :: clock
  fi_delivery :: delivery
  fi_event_stamp :: string
  fi_result_stamp :: string
  fi_audit_stamp :: string
  fi_key_clock :: clock
  fi_forged :: bytes

type_synonym feed_outcome = "feed_result option \<times> feed_parts \<times> feed_log"

text \<open>The frame, the packet the car sent, and its commitment.\<close>

record feed_packet =
  fk_frame :: pydict
  fk_encrypted :: pydict
  fk_commitment :: "string \<times> string"

definition on_pipe :: "(sim_pipeline \<Rightarrow> sim_pipeline) \<Rightarrow> feed_parts \<Rightarrow> feed_parts" where
  "on_pipe f p = p\<lparr>fp_core := (fp_core p)\<lparr>at_pipe := f (at_pipe (fp_core p))\<rparr>\<rparr>"

definition pipe :: "feed_parts \<Rightarrow> sim_pipeline" where "pipe p = at_pipe (fp_core p)"

text \<open>The handler around the whole: any exception counts as a rejection, and nothing is returned.\<close>

definition feed_failed :: "feed_parts \<Rightarrow> feed_log \<Rightarrow> feed_outcome" where
  "feed_failed p l = (None, p, l\<lparr>fd_rejected := fd_rejected l + 1, fd_total := fd_total l + 1\<rparr>)"

definition feed_reject :: "feed_inputs \<Rightarrow> pydict \<Rightarrow> string \<Rightarrow> feed_parts \<Rightarrow> feed_log \<Rightarrow> feed_outcome" where
  "feed_reject i pkt reason p l =
     (Some (make_result (fi_result_stamp i) pkt ''REJECT'' reason), p, record_reject (fi_event_stamp i) pkt reason l)"

definition add_point :: "pyval \<Rightarrow> pydict \<Rightarrow> chart_history \<Rightarrow> chart_history" where
  "add_point seq frame c =
     (let c1 = \<lparr>ch_seq = ch_seq c @ [seq], ch_speed = ch_speed c @ [dict_get_or frame ''Speed'' (PInt 0)],
               ch_rpm = ch_rpm c @ [dict_get_or frame ''RPM'' (PInt 0)],
               ch_throttle = ch_throttle c @ [dict_get_or frame ''Throttle'' (PInt 0)]\<rparr>
      in if 1000 < length (ch_seq c1)
         then \<lparr>ch_seq = tl (ch_seq c1), ch_speed = tl (ch_speed c1), ch_rpm = tl (ch_rpm c1), ch_throttle = tl (ch_throttle c1)\<rparr>
         else c1)"

text \<open>Accepted, or accepted with a flag: the audit logger, the counters, and the four buffers.\<close>

definition accepted_result :: "feed_inputs \<Rightarrow> feed_packet \<Rightarrow> anomaly_result \<Rightarrow> pydict \<Rightarrow> feed_result" where
  "accepted_result i k a pkt =
     (make_result (fi_result_stamp i) pkt (if is_flagged a then ''FLAG'' else ''ACCEPT'') ''all_checks_passed'')
       \<lparr>fr_payload_json := PDict (fk_frame k), fr_anomaly_flagged := Some (is_flagged a), fr_anomaly_result := Some a\<rparr>"

definition accept_log :: "feed_inputs \<Rightarrow> feed_packet \<Rightarrow> anomaly_result \<Rightarrow> pydict \<Rightarrow> feed_log \<Rightarrow> feed_log" where
  "accept_log i k a pkt l =
     l\<lparr>fd_flagged := fd_flagged l + (if is_flagged a then 1 else 0),
       fd_accepted := fd_accepted l + (if is_flagged a then 0 else 1),
       fd_total := fd_total l + 1, fd_packet_count := fd_packet_count l + 1,
       fd_key_age := PFloat (elapsed (fi_key_clock i) (fd_session_start l)),
       fd_recent := push_last 500 (accepted_result i k a pkt) (fd_recent l),
       fd_last_encrypted := Some (fk_encrypted k),
       fd_chart := add_point (dict_get_or pkt ''sequence_no'' (PInt 0)) (fk_frame k) (fd_chart l),
       fd_audit_events := push_last 50
         (feed_event (fi_event_stamp i) (if is_flagged a then ''FLAG'' else ''ACCEPT'') pkt ''all_checks_passed'') (fd_audit_events l)\<rparr>"

definition feed_accept :: "feed_inputs \<Rightarrow> feed_packet \<Rightarrow> anomaly_result \<Rightarrow> pydict \<Rightarrow> feed_parts \<Rightarrow> feed_log \<Rightarrow> feed_outcome" where
  "feed_accept i k a pkt p l =
     (let log = (if is_flagged a then log_flag True (fi_audit_stamp i) pkt ''anomaly_flagged'' None
                 else log_accept True (fi_audit_stamp i) pkt ''all_checks_passed'' None)
      in (Some (accepted_result i k a pkt), p\<lparr>fp_audit := log (fp_audit p)\<rparr>, accept_log i k a pkt l))"

text \<open>The stages at the validator: commitment, sequence, signature, and the packet it is given.\<close>

definition feed_zkp :: "feed_inputs \<Rightarrow> feed_packet \<Rightarrow> anomaly_result \<Rightarrow> pydict \<Rightarrow> feed_parts \<Rightarrow> feed_log \<Rightarrow> feed_outcome" where
  "feed_zkp i k a pkt p l =
     (case zkp_verify_packet (dl_zkp_stamp (fi_delivery i)) pkt (sp_zkp (pipe p)) of
        (Inl e, z) \<Rightarrow> feed_failed (on_pipe (\<lambda>q. q\<lparr>sp_zkp := z\<rparr>) p) l
      | (Inr r, z) \<Rightarrow>
          let p1 = on_pipe (\<lambda>q. q\<lparr>sp_zkp := z\<rparr>) p
          in if cm_verified r then feed_accept i k a pkt p1 (l\<lparr>fd_zkp_verified := fd_zkp_verified l + 1\<rparr>)
             else feed_reject i pkt ''zkp_failed'' p1 l)"

definition feed_sequence :: "feed_inputs \<Rightarrow> feed_packet \<Rightarrow> anomaly_result \<Rightarrow> pydict \<Rightarrow> feed_parts \<Rightarrow> feed_log \<Rightarrow> feed_outcome" where
  "feed_sequence i k a pkt p l =
     (case sequence_check (at_seq (fp_core p)) (dl_now (fi_delivery i)) pkt of
        (Inl e, s) \<Rightarrow> feed_failed (p\<lparr>fp_core := (fp_core p)\<lparr>at_seq := s\<rparr>\<rparr>) l
      | (Inr r, s) \<Rightarrow>
          let p1 = p\<lparr>fp_core := (fp_core p)\<lparr>at_seq := s\<rparr>\<rparr>
          in if cr_passed r then feed_zkp i k a pkt p1 l else feed_reject i pkt ''sequence_failed'' p1 l)"

text \<open>The two classes of exceptions that mean a bad signature.\<close>

definition is_sig_error :: "exn \<Rightarrow> bool" where
  "is_sig_error e = (case e of InvalidSignature \<Rightarrow> True | SignatureVerificationError _ \<Rightarrow> True | _ \<Rightarrow> False)"

definition feed_signature :: "pyca \<Rightarrow> feed_inputs \<Rightarrow> feed_packet \<Rightarrow> anomaly_result \<Rightarrow> pydict \<Rightarrow> feed_parts \<Rightarrow> feed_log \<Rightarrow> feed_outcome" where
  "feed_signature C i k a pkt p l =
     (case sv_verify C (dl_sig_stamp (fi_delivery i)) pkt (sp_sig (pipe p)) of
        (Inl e, s) \<Rightarrow>
          (if is_sig_error e then feed_reject i pkt ''sig_failed'' (on_pipe (\<lambda>q. q\<lparr>sp_sig := s\<rparr>) p) l
           else feed_failed (on_pipe (\<lambda>q. q\<lparr>sp_sig := s\<rparr>) p) l)
      | (Inr _, s) \<Rightarrow>
          feed_sequence i k a pkt (on_pipe (\<lambda>q. q\<lparr>sp_sig := s\<rparr>) p) (l\<lparr>fd_signatures := fd_signatures l + 1\<rparr>))"

definition attributed_packet :: "pydict \<Rightarrow> bytes \<Rightarrow> pydict \<Rightarrow> pydict" where
  "attributed_packet ren plaintext enc =
     dict_set ''original_node'' (dict_get_or enc ''node_id'' (PStr ''unknown''))
       (dict_set ''payload_bytes'' (PBytes plaintext) ren)"

definition committed_packet :: "string \<times> string \<Rightarrow> pydict \<Rightarrow> pydict" where
  "committed_packet cm pkt =
     dict_set ''zkp_nonce'' (PStr (snd cm)) (dict_set ''zkp_commitment'' (PStr (fst cm)) pkt)"

definition feed_validator :: "pyca \<Rightarrow> feed_inputs \<Rightarrow> feed_packet \<Rightarrow> anomaly_result \<Rightarrow> pydict \<Rightarrow> feed_parts \<Rightarrow> feed_log \<Rightarrow> feed_outcome" where
  "feed_validator C i k a ren p l =
     (case open_reencrypted C ren (sp_val_engine (pipe p)) of
        (Inl e, v) \<Rightarrow> feed_failed (on_pipe (\<lambda>q. q\<lparr>sp_val_engine := v\<rparr>) p) l
      | (Inr plaintext, v) \<Rightarrow>
          feed_signature C i k a (committed_packet (fk_commitment k) (attributed_packet ren plaintext (fk_encrypted k)))
            (on_pipe (\<lambda>q. q\<lparr>sp_val_engine := v\<rparr>) p) l)"

text \<open>The stages at the relay: sealing for the validator, anomalies, integrity, opening.\<close>

definition feed_reencrypt :: "pyca \<Rightarrow> feed_inputs \<Rightarrow> feed_packet \<Rightarrow> anomaly_result \<Rightarrow> pydict \<Rightarrow> feed_parts \<Rightarrow> feed_log \<Rightarrow> feed_outcome" where
  "feed_reencrypt C i k a annotated p l =
     (case reencrypt C (pi_renonce (fi_packet i)) annotated (sp_reencryptor (pipe p)) of
        (Inl e, r) \<Rightarrow> feed_failed (on_pipe (\<lambda>q. q\<lparr>sp_reencryptor := r\<rparr>) p) l
      | (Inr ren, r) \<Rightarrow>
          feed_validator C i k a ren (on_pipe (\<lambda>q. q\<lparr>sp_reencryptor := r\<rparr>) p) (l\<lparr>fd_reencrypted := fd_reencrypted l + 1\<rparr>))"

definition feed_anomaly :: "pyca \<Rightarrow> feed_inputs \<Rightarrow> feed_packet \<Rightarrow> pydict \<Rightarrow> feed_parts \<Rightarrow> feed_log \<Rightarrow> feed_outcome" where
  "feed_anomaly C i k dec p l =
     (case anomaly_annotate dec (fp_anomaly p) of
        (Inl e, f) \<Rightarrow> feed_failed (p\<lparr>fp_anomaly := f\<rparr>) l
      | (Inr (annotated, a), f) \<Rightarrow>
          let p1 = p\<lparr>fp_anomaly := f\<rparr>; l1 = l\<lparr>fd_an_checked := fd_an_checked l + 1\<rparr>
          in if is_rejected a
             then feed_reject i dec ''anomaly_rejected'' p1 (l1\<lparr>fd_an_rejected := fd_an_rejected l1 + 1\<rparr>)
             else feed_reencrypt C i k a annotated p1 (if is_flagged a then l1\<lparr>fd_an_flagged := fd_an_flagged l1 + 1\<rparr> else l1))"

definition feed_integrity :: "pyca \<Rightarrow> feed_inputs \<Rightarrow> feed_packet \<Rightarrow> pydict \<Rightarrow> feed_parts \<Rightarrow> feed_log \<Rightarrow> feed_outcome" where
  "feed_integrity C i k dec p l =
     (case integrity_check (at_relay (fp_core p)) (fi_relay_now i) dec of
        (Inl e, s) \<Rightarrow> feed_failed (p\<lparr>fp_core := (fp_core p)\<lparr>at_relay := s\<rparr>\<rparr>) l
      | (Inr r, s) \<Rightarrow>
          let p1 = p\<lparr>fp_core := (fp_core p)\<lparr>at_relay := s\<rparr>\<rparr>
          in if cr_passed r then feed_anomaly C i k dec p1 l else feed_reject i dec ''integrity_failed'' p1 l)"

definition feed_relay :: "pyca \<Rightarrow> feed_inputs \<Rightarrow> feed_packet \<Rightarrow> feed_parts \<Rightarrow> feed_log \<Rightarrow> feed_outcome" where
  "feed_relay C i k p l =
     (case decrypt_relay C (fk_encrypted k) (sp_decryptor (pipe p)) of
        (Inl e, d) \<Rightarrow>
          let p1 = on_pipe (\<lambda>q. q\<lparr>sp_decryptor := d\<rparr>) p
          in if e = InvalidTag then feed_reject i (fk_encrypted k) ''aead_failed'' p1 l else feed_failed p1 l
      | (Inr dec, d) \<Rightarrow> feed_integrity C i k dec (on_pipe (\<lambda>q. q\<lparr>sp_decryptor := d\<rparr>) p) l)"

text \<open>The car's part; the packet is built, signed, committed to and sealed.\<close>

definition feed_car :: "pyca \<Rightarrow> packet_inputs \<Rightarrow> pydict \<Rightarrow> sim_pipeline \<Rightarrow> feed_packet res \<times> sim_pipeline" where
  "feed_car C i frame q =
     (case build (sp_builder q) (pi_now i) frame of
        (Inl e, b) \<Rightarrow> (Inl e, q\<lparr>sp_builder := b\<rparr>)
      | (Inr pkt, b) \<Rightarrow>
          let q1 = q\<lparr>sp_builder := b\<rparr>
          in case sign_packet C (pi_signed_at i) pkt (sp_signer q1) of
               (Inl e, s) \<Rightarrow> (Inl e, q1\<lparr>sp_signer := s\<rparr>)
             | (Inr sgnd, s) \<Rightarrow>
                 let q2 = q1\<lparr>sp_signer := s\<rparr>
                 in case rbind (dict_item sgnd ''payload'') as_bytes of
                      Inl e \<Rightarrow> (Inl e, q2)
                    | Inr payload \<Rightarrow>
                        (case encrypt_packet C (pi_nonce i) (pi_encrypted_at i) sgnd (sp_car_engine q2) (sp_encryptor q2) of
                           (Inl e, car, x) \<Rightarrow> (Inl e, q2\<lparr>sp_car_engine := car, sp_encryptor := x\<rparr>)
                         | (Inr enc, car, x) \<Rightarrow>
                             (Inr \<lparr>fk_frame = frame, fk_encrypted = enc,
                                fk_commitment = generate_commitment (pi_random i) payload None\<rparr>,
                              q2\<lparr>sp_car_engine := car, sp_encryptor := x\<rparr>)))"

text \<open>Without a frame, \<open>dict(None)\<close> raises; otherwise the frame is kept before anything else happens.\<close>

definition take_frame :: "pyca \<Rightarrow> packet_inputs \<Rightarrow> feed_parts \<Rightarrow> feed_log \<Rightarrow> feed_packet res \<times> feed_parts \<times> feed_log" where
  "take_frame C i p l =
     (case pi_frame i of None \<Rightarrow> (Inl TypeErr, p, l)
      | Some frame \<Rightarrow>
          let (k, q) = feed_car C i frame (pipe p)
          in (k, on_pipe (\<lambda>_. q) p, l\<lparr>fd_frames := fd_frames l @ [frame]\<rparr>))"

definition feed_packet_step :: "pyca \<Rightarrow> feed_inputs \<Rightarrow> feed_parts \<Rightarrow> feed_log \<Rightarrow> feed_outcome" where
  "feed_packet_step C i p l =
     (case take_frame C (fi_packet i) p l of
        (Inl e, p1, l1) \<Rightarrow> feed_failed p1 l1
      | (Inr k, p1, l1) \<Rightarrow> feed_relay C i k p1 (l1\<lparr>fd_encrypted := fd_encrypted l1 + 1\<rparr>))"

definition process_one_packet :: "pyca \<Rightarrow> feed_inputs \<Rightarrow> feed \<Rightarrow> feed_result option \<times> feed" where
  "process_one_packet C i s =
     (case fe_parts s of None \<Rightarrow> (None, s)
      | Some p \<Rightarrow> let (r, p', l) = feed_packet_step C i p (fe_log s) in (r, \<lparr>fe_parts = Some p', fe_log = l\<rparr>))"

section \<open>Injected attacks\<close>

text \<open>
  Here an exception that no handler names leaves the method; what was done before it stays. A result
  is appended to the recent packets without a bound.
\<close>

type_synonym attack_outcome = "feed_result option res \<times> feed_parts \<times> feed_log"

definition attack_result :: "feed_inputs \<Rightarrow> string \<Rightarrow> pydict \<Rightarrow> string \<Rightarrow> string \<Rightarrow> feed_result" where
  "attack_result i attack pkt decision reason =
     (make_result (fi_result_stamp i) pkt decision reason)\<lparr>fr_attack_injected := Some attack\<rparr>"

definition attack_ends :: "feed_result \<Rightarrow> feed_parts \<Rightarrow> feed_log \<Rightarrow> attack_outcome" where
  "attack_ends r p l = (Inr (Some r), p, l\<lparr>fd_recent := fd_recent l @ [r]\<rparr>)"

definition attack_rejected :: "feed_inputs \<Rightarrow> string \<Rightarrow> pydict \<Rightarrow> string \<Rightarrow> feed_parts \<Rightarrow> feed_log \<Rightarrow> attack_outcome" where
  "attack_rejected i attack pkt reason p l =
     attack_ends (attack_result i attack pkt ''REJECT'' reason) p (record_reject (fi_event_stamp i) pkt reason l)"

definition attack_signature :: "pyca \<Rightarrow> feed_inputs \<Rightarrow> string \<Rightarrow> pydict \<Rightarrow> feed_parts \<Rightarrow> feed_log \<Rightarrow> attack_outcome" where
  "attack_signature C i attack pkt p l =
     (case sv_verify C (dl_sig_stamp (fi_delivery i)) pkt (sp_sig (pipe p)) of
        (Inl e, s) \<Rightarrow>
          let p1 = on_pipe (\<lambda>q. q\<lparr>sp_sig := s\<rparr>) p
          in if is_sig_error e then attack_rejected i attack pkt ''sig_failed'' p1 l else (Inl e, p1, l)
      | (Inr _, s) \<Rightarrow>
          (case attack_ends (attack_result i attack pkt ''ACCEPT'' ''all_checks_passed'') (on_pipe (\<lambda>q. q\<lparr>sp_sig := s\<rparr>) p) l of
             (r, p1, l1) \<Rightarrow> (r, p1, l1\<lparr>fd_accepted := fd_accepted l1 + 1\<rparr>)))"

definition attack_sequence :: "pyca \<Rightarrow> feed_inputs \<Rightarrow> string \<Rightarrow> pydict \<Rightarrow> feed_parts \<Rightarrow> feed_log \<Rightarrow> attack_outcome" where
  "attack_sequence C i attack pkt p l =
     (case sequence_check (at_seq (fp_core p)) (dl_now (fi_delivery i)) pkt of
        (Inl e, s) \<Rightarrow> (Inl e, p\<lparr>fp_core := (fp_core p)\<lparr>at_seq := s\<rparr>\<rparr>, l)
      | (Inr r, s) \<Rightarrow>
          let p1 = p\<lparr>fp_core := (fp_core p)\<lparr>at_seq := s\<rparr>\<rparr>
          in if cr_passed r then attack_signature C i attack pkt p1 l else attack_rejected i attack pkt ''sequence_failed'' p1 l)"

definition attack_validator :: "pyca \<Rightarrow> feed_inputs \<Rightarrow> string \<Rightarrow> pydict \<Rightarrow> pydict \<Rightarrow> feed_parts \<Rightarrow> feed_log \<Rightarrow> attack_outcome" where
  "attack_validator C i attack enc ren p l =
     (case open_reencrypted C ren (sp_val_engine (pipe p)) of
        (Inl e, v) \<Rightarrow>
          let p1 = on_pipe (\<lambda>q. q\<lparr>sp_val_engine := v\<rparr>) p
          in if e = InvalidTag then attack_rejected i attack ren ''aead_failed'' p1 l else (Inl e, p1, l)
      | (Inr plaintext, v) \<Rightarrow>
          attack_sequence C i attack (attributed_packet ren plaintext enc) (on_pipe (\<lambda>q. q\<lparr>sp_val_engine := v\<rparr>) p) l)"

text \<open>A failing re-encryption is returned as a rejection, but neither counted nor recorded.\<close>

definition attack_reencrypt :: "pyca \<Rightarrow> feed_inputs \<Rightarrow> string \<Rightarrow> pydict \<Rightarrow> pydict \<Rightarrow> feed_parts \<Rightarrow> feed_log \<Rightarrow> attack_outcome" where
  "attack_reencrypt C i attack enc dec p l =
     (case reencrypt C (pi_renonce (fi_packet i)) dec (sp_reencryptor (pipe p)) of
        (Inl e, r) \<Rightarrow> attack_ends (attack_result i attack dec ''REJECT'' ''reencrypt_failed'') (on_pipe (\<lambda>q. q\<lparr>sp_reencryptor := r\<rparr>) p) l
      | (Inr ren, r) \<Rightarrow> attack_validator C i attack enc ren (on_pipe (\<lambda>q. q\<lparr>sp_reencryptor := r\<rparr>) p) l)"

definition forge_signature :: "bytes \<Rightarrow> pydict \<Rightarrow> pydict" where
  "forge_signature sig pkt = dict_set ''signature'' (PStr (to_hex sig)) (dict_set ''signature_bytes'' (PBytes sig) pkt)"

definition attack_integrity :: "pyca \<Rightarrow> feed_inputs \<Rightarrow> string \<Rightarrow> pydict \<Rightarrow> pydict \<Rightarrow> feed_parts \<Rightarrow> feed_log \<Rightarrow> attack_outcome" where
  "attack_integrity C i attack enc dec p l =
     (case integrity_check (at_relay (fp_core p)) (fi_relay_now i) dec of
        (Inl e, s) \<Rightarrow> (Inl e, p\<lparr>fp_core := (fp_core p)\<lparr>at_relay := s\<rparr>\<rparr>, l)
      | (Inr r, s) \<Rightarrow>
          let p1 = p\<lparr>fp_core := (fp_core p)\<lparr>at_relay := s\<rparr>\<rparr>
          in if cr_passed r
             then attack_reencrypt C i attack enc (if attack = ''forge'' then forge_signature (fi_forged i) dec else dec) p1 l
             else attack_rejected i attack dec ''integrity_failed'' p1 l)"

definition attack_relay :: "pyca \<Rightarrow> feed_inputs \<Rightarrow> string \<Rightarrow> pydict \<Rightarrow> feed_parts \<Rightarrow> feed_log \<Rightarrow> attack_outcome" where
  "attack_relay C i attack enc p l =
     (case decrypt_relay C enc (sp_decryptor (pipe p)) of
        (Inl e, d) \<Rightarrow>
          let p1 = on_pipe (\<lambda>q. q\<lparr>sp_decryptor := d\<rparr>) p
          in if e = InvalidTag then attack_rejected i attack enc ''aead_failed'' p1 l else (Inl e, p1, l)
      | (Inr dec, d) \<Rightarrow> attack_integrity C i attack enc dec (on_pipe (\<lambda>q. q\<lparr>sp_decryptor := d\<rparr>) p) l)"

text \<open>The packet that is injected: the last accepted one again, or a new one, perhaps tampered with.\<close>

definition tampered :: "pydict \<Rightarrow> pydict res" where
  "tampered enc =
     rbind (rbind (dict_item enc ''ciphertext_bytes'') as_bytes) (\<lambda>ct.
     rbind (flip_byte 5 0xFF ct) (\<lambda>ct'. Inr (with_ciphertext ct' enc)))"

definition attack_step :: "pyca \<Rightarrow> string \<Rightarrow> feed_inputs \<Rightarrow> feed_parts \<Rightarrow> feed_log \<Rightarrow> attack_outcome" where
  "attack_step C attack i p l =
     (let go = (\<lambda>enc p1 l1. attack_relay C i attack enc p1 (l1\<lparr>fd_total := fd_total l1 + 1\<rparr>))
      in if attack = ''replay'' then (case fd_last_encrypted l of None \<Rightarrow> (Inr None, p, l) | Some enc \<Rightarrow> go enc p l)
         else (case take_frame C (fi_packet i) p l of
             (Inl e, p1, l1) \<Rightarrow> (Inl e, p1, l1)
           | (Inr k, p1, l1) \<Rightarrow>
               (case if attack = ''tamper'' then tampered (fk_encrypted k) else Inr (fk_encrypted k) of
                  Inl e \<Rightarrow> (Inl e, p1, l1)
                | Inr enc \<Rightarrow> go enc p1 l1)))"

definition inject_attack :: "pyca \<Rightarrow> string \<Rightarrow> feed_inputs \<Rightarrow> feed \<Rightarrow> feed_result option res \<times> feed" where
  "inject_attack C attack i s =
     (case fe_parts s of None \<Rightarrow> (Inr None, s)
      | Some p \<Rightarrow> let (r, p', l) = attack_step C attack i p (fe_log s) in (r, \<lparr>fe_parts = Some p', fe_log = l\<rparr>))"

section \<open>Getters\<close>

definition feed_recent_packets :: "int \<Rightarrow> feed \<Rightarrow> feed_result list" where
  "feed_recent_packets limit s = slice_from_neg limit (fd_recent (fe_log s))"

record feed_stats =
  ft_total :: int
  ft_accepted :: int
  ft_rejected :: int
  ft_flagged :: int
  ft_key_rotations :: int
  ft_start_time :: "clock option"
  ft_accept_rate :: pyval

definition feed_stats_of :: "feed \<Rightarrow> feed_stats" where
  "feed_stats_of s =
     (let l = fe_log s
      in \<lparr>ft_total = fd_total l, ft_accepted = fd_accepted l, ft_rejected = fd_rejected l, ft_flagged = fd_flagged l,
          ft_key_rotations = fd_key_rotations l, ft_start_time = fd_start_time l,
          ft_accept_rate = (if 0 < fd_total l then PFloat (fl (of_int (fd_accepted l) / of_int (fd_total l))) else PInt 0)\<rparr>)"

text \<open>\<open>get_crypto_stats\<close> stores the age it computes; the other getters only read.\<close>

definition feed_crypto_stats :: "clock \<Rightarrow> feed \<Rightarrow> (string \<times> string \<times> int \<times> int \<times> int \<times> int \<times> pyval) \<times> feed" where
  "feed_crypto_stats now s =
     (let l = (fe_log s)\<lparr>fd_key_age := PFloat (elapsed now (fd_session_start (fe_log s)))\<rparr>
      in ((fd_car_key l, fd_val_key l, fd_encrypted l, fd_reencrypted l, fd_signatures l, fd_zkp_verified l, fd_key_age l),
          s\<lparr>fe_log := l\<rparr>))"

definition feed_anomaly_stats :: "feed \<Rightarrow> int \<times> int \<times> int" where
  "feed_anomaly_stats s = (fd_an_checked (fe_log s), fd_an_flagged (fe_log s), fd_an_rejected (fe_log s))"

definition feed_audit_events :: "int \<Rightarrow> feed \<Rightarrow> feed_audit_event list" where
  "feed_audit_events limit s = slice_from_neg limit (fd_audit_events (fe_log s))"

definition pipeline_status :: "feed \<Rightarrow> string" where
  "pipeline_status s = (if fe_parts s = None then ''IDLE'' else ''ACTIVE'')"

definition feed_data_rows :: "feed \<Rightarrow> int" where "feed_data_rows s = fd_data_rows (fe_log s)"
definition feed_chart :: "feed \<Rightarrow> chart_history" where "feed_chart s = fd_chart (fe_log s)"
definition performance_frames :: "feed \<Rightarrow> pydict list" where "performance_frames s = fd_frames (fe_log s)"

section \<open>The pipeline of the feed\<close>

text \<open>The evaluation pipeline's \<open>stages\<close>, which stop at the first exception, taken apart into the feed's.\<close>

lemma keep_InrE: "keep m = Inr x \<Longrightarrow> m = (Inr (fst x), snd x)"
  by (cases m) (auto simp: keep_def split: sum.splits)

lemma stages_split:
  assumes "stages C i (Some f) q = Inr (s, q')"
  obtains k q1 pl where "feed_car C i f q = (Inr k, q1)" and "fk_frame k = f" and "fk_encrypted k = ps_encrypted s"
    and "fk_commitment k = ps_commitment s" and "decrypt_relay C (ps_encrypted s) (sp_decryptor q) = (Inr (ps_decrypted s), sp_decryptor q')"
    and "reencrypt C (pi_renonce i) (ps_decrypted s) (sp_reencryptor q) = (Inr (ps_reencrypted s), sp_reencryptor q')"
    and "open_reencrypted C (ps_reencrypted s) (sp_val_engine q) = (Inr pl, sp_val_engine q')"
    and "ps_validator s = validator_packet (ps_reencrypted s) pl (ps_commitment s)"
    and "q1 = q'\<lparr>sp_decryptor := sp_decryptor q, sp_reencryptor := sp_reencryptor q, sp_val_engine := sp_val_engine q\<rparr>"
    and "sp_sig q' = sp_sig q" and "sp_zkp q' = sp_zkp q"
proof -
  obtain pkt b sgnd sgn payload enc car x dec d ren r pl v
    where steps: "build (sp_builder q) (pi_now i) f = (Inr pkt, b)" "sign_packet C (pi_signed_at i) pkt (sp_signer q) = (Inr sgnd, sgn)"
      "rbind (dict_item sgnd ''payload'') as_bytes = Inr payload"
      "encrypt_packet C (pi_nonce i) (pi_encrypted_at i) sgnd (sp_car_engine q) (sp_encryptor q) = (Inr enc, car, x)"
      "decrypt_relay C enc (sp_decryptor q) = (Inr dec, d)" "reencrypt C (pi_renonce i) dec (sp_reencryptor q) = (Inr ren, r)"
      "open_reencrypted C ren (sp_val_engine q) = (Inr pl, v)"
    and s: "s = \<lparr>ps_signed = sgnd, ps_encrypted = enc, ps_decrypted = dec, ps_reencrypted = ren,
        ps_validator = validator_packet ren pl (generate_commitment (pi_random i) payload None),
        ps_commitment = generate_commitment (pi_random i) payload None\<rparr>"
    and q': "q' = q\<lparr>sp_builder := b, sp_signer := sgn, sp_car_engine := car, sp_encryptor := x, sp_decryptor := d,
        sp_reencryptor := r, sp_val_engine := v\<rparr>"
    using assms by (auto simp: stages_def given_frame_def Let_def elim!: rbind_InrE dest!: keep_InrE split: prod.splits)
  let ?k = "\<lparr>fk_frame = f, fk_encrypted = enc, fk_commitment = generate_commitment (pi_random i) payload None\<rparr>"
  have "feed_car C i f q = (Inr ?k, q\<lparr>sp_builder := b, sp_signer := sgn, sp_car_engine := car, sp_encryptor := x\<rparr>)"
    using steps by (simp add: feed_car_def Let_def)
  then show thesis using steps s q' by (intro that [of ?k _ pl]) simp_all
qed

text \<open>What the filter adds to a packet is nothing that the re-encryption reads.\<close>

lemma reencrypt_annotated:
  assumes "anomaly_annotate dec f = (Inr (a, r), f')"
  shows "reencrypt C n a x = reencrypt C n dec x"
proof -
  have a: "a = dict_set ''anomaly_rejected'' (PBool (is_rejected r)) (dict_set ''anomaly_flagged'' (PBool (is_flagged r))
      (dict_set ''anomaly_clean'' (PBool (is_clean r)) dec))" using assms by (rule anomaly_annotate_InrD)
  have g: "dict_get a ''payload_bytes'' = dict_get dec ''payload_bytes''" "dict_get a ''header'' = dict_get dec ''header''"
    by (simp_all add: a)
  have h: "carried_signature a = carried_signature dec" "reencrypted_fields y a = reencrypted_fields y dec" for y
    by (simp_all add: a carried_signature_def reencrypted_fields_def fun_eq_iff)
  show ?thesis unfolding reencrypt_def g h by (rule refl)
qed

text \<open>
  A packet that the car of a pipeline built with the keys \<open>k\<close> sent as number \<open>n\<close>: its payload is sealed under
  the key the relay has for the car, and it carries its number and a signature.
\<close>

definition sent :: "pyca \<Rightarrow> sim_keys \<Rightarrow> int \<Rightarrow> pydict \<Rightarrow> bool" where
  "sent C k n enc =
     (0 < n \<and> map_of enc ''node_id'' = Some (PStr CAR_NODE) \<and> map_of enc ''sequence_no'' = Some (PInt n) \<and> ic_has_sig enc \<and>
      (\<exists>nonce ct h pl js. map_of enc ''nonce_bytes'' = Some (PBytes nonce) \<and> map_of enc ''ciphertext_bytes'' = Some (PBytes ct) \<and>
         map_of enc ''header'' = Some (PBytes h) \<and> json_loads pl = Inr js \<and>
         aead_encrypt C (shared_key C (sk_car k) (sk_relay k)) nonce pl (Some h) = Inr ct))"

lemma sent_opens:
  assumes "aead_law C" and "sent C k n enc" and "dec_key d CAR_NODE = Some (shared_key C (sk_car k) (sk_relay k))"
  obtains dec d' where "decrypt_relay C enc d = (Inr dec, d')" and "pkt_node dec = PStr CAR_NODE" and "pkt_seq dec = PInt n"
    and "ic_has_sig dec" and "dec_key d' CAR_NODE = Some (shared_key C (sk_car k) (sk_relay k))"
proof -
  obtain nonce ct h pl js where e: "map_of enc ''node_id'' = Some (PStr CAR_NODE)" "map_of enc ''sequence_no'' = Some (PInt n)" "ic_has_sig enc"
      "map_of enc ''nonce_bytes'' = Some (PBytes nonce)" "map_of enc ''ciphertext_bytes'' = Some (PBytes ct)"
      "map_of enc ''header'' = Some (PBytes h)" "json_loads pl = Inr js"
    and ct: "aead_encrypt C (shared_key C (sk_car k) (sk_relay k)) nonce pl (Some h) = Inr ct"
    using assms(2) by (auto simp: sent_def)
  have "CAR_NODE \<noteq> []" by (simp add: CAR_NODE_def)
  then obtain d' where d: "decrypt_relay C enc d = (Inr (opened_fields d enc pl js), d')"
    using decrypt_relay_sealed [OF assms(1) ct _ _ assms(3), of enc js] e by (auto simp: dict_get_def)
  show thesis
    by (rule that [OF d])
      (use e decrypt_relay_keys [OF d] assms(3) in \<open>simp_all add: opened_fields_def pkt_node_def pkt_seq_def ic_has_sig_def dict_get_or_def dict_get_def\<close>)
qed

text \<open>What the filter is shown of a packet: the payload read back, the team and the car.\<close>

definition frame_view :: "packet_inputs \<Rightarrow> pydict" where
  "frame_view i = filter_view (case json_loads (payload_of i) of Inr js \<Rightarrow> js | Inl _ \<Rightarrow> PNone) ''mercedes'' CAR_NODE"

lemma opened_fields_inj:
  assumes "opened_fields d e p js = opened_fields d e p' js'"
  shows "p = p' \<and> js = js'"
  using arg_cong [OF assms, of "\<lambda>x. dict_get x ''payload_bytes''"] arg_cong [OF assms, of "\<lambda>x. dict_get x ''payload_json''"]
  by (simp add: opened_fields_def)

text \<open>Everything up to the checks succeeds, and wherever a packet stops, the parties still share their keys.\<close>

lemma sim_ready_partial:
  assumes "sim_ready C q" and "sim_ready C q'"
  shows "sim_ready C (q'\<lparr>sp_reencryptor := sp_reencryptor q, sp_val_engine := sp_val_engine q\<rparr>)"
  using assms by (simp add: sim_ready_def)

lemma feed_makes:
  assumes laws: "sim_laws C" and st: "attack_state C k q l m a" and good: "good_inputs i (pi_frame i)" and q: "q + 1 < 2 ^ 64"
  obtains f kp q1 dec d ren r pl v h where "pi_frame i = Some f" and "feed_car C i f (at_pipe a) = (Inr kp, q1)"
    and "fk_frame kp = f" and "sent C k (q + 1) (fk_encrypted kp)" and "sp_sig q1 = sp_sig (at_pipe a)" and "sp_zkp q1 = sp_zkp (at_pipe a)"
    and "decrypt_relay C (fk_encrypted kp) (sp_decryptor q1) = (Inr dec, d)"
    and "anomaly_check dec = anomaly_check (frame_view i)"
    and "pkt_node dec = PStr CAR_NODE" and "pkt_seq dec = PInt (q + 1)" and "ic_has_sig dec"
    and "reencrypt C (pi_renonce i) dec (sp_reencryptor q1) = (Inr ren, r)"
    and "open_reencrypted C ren (sp_val_engine q1) = (Inr pl, v)"
    and "honest_packet C (sp_signer (at_pipe a)) (q + 1)
      (committed_packet (fk_commitment kp) (attributed_packet ren pl (fk_encrypted kp))) h (payload_of i)"
    and "sgn_private (sp_signer q1) = sgn_private (sp_signer (at_pipe a))"
    and "attack_state C k (q + 1) l m (a\<lparr>at_pipe := q1\<lparr>sp_decryptor := d\<rparr>\<rparr>)"
    and "attack_state C k (q + 1) l m (a\<lparr>at_pipe := q1\<lparr>sp_decryptor := d, sp_reencryptor := r, sp_val_engine := v\<rparr>\<rparr>)"
proof -
  let ?p = "at_pipe a" and ?q = "q + 1"
  have pre: "sim_ready C ?p" "sgn_private (sp_signer ?p) = sk_signer k" "sim_seq ?p = q" "0 \<le> q"
    "dec_key (sp_decryptor ?p) CAR_NODE = Some (shared_key C (sk_car k) (sk_relay k))" using st by (simp_all add: attack_state_def)
  have ls: "aead_law C" "aead_total C" "sig_law C" using laws by (simp_all add: sim_laws_def)
  have q': "0 \<le> sim_seq ?p" "sim_seq ?p + 1 < 2 ^ 64" using pre q by simp_all
  obtain f where f: "pi_frame i = Some f" using good by (auto simp: good_inputs_def split: option.splits)
  obtain s p' h pl ct key js where run: "stages C i (pi_frame i) ?p = Inr (s, p')" and p': "sim_ready C p'"
      "sim_seq p' = sim_seq ?p + 1" "sgn_private (sp_signer p') = sgn_private (sp_signer ?p)"
    and hon: "honest_packet C (sp_signer ?p) (sim_seq ?p + 1) (ps_validator s) h pl"
    and key: "engine_key (sp_car_engine ?p) = Some key" and ct: "aead_encrypt C key (pi_nonce i) pl (Some h) = Inr ct"
    and enc: "ps_encrypted s = encrypted_fields (sp_encryptor ?p) (pi_encrypted_at i) (ps_signed s) (pi_nonce i) ct h pl"
    and dec: "ps_decrypted s = opened_fields (sp_decryptor ?p) (ps_encrypted s) pl js"
    and sg: "ps_signed s = signed_fields (sp_signer ?p) (pi_signed_at i) (ed_sign C (sgn_private (sp_signer ?p)) (h @ pl))
      (built_packet (sp_builder ?p) (sim_seq ?p + 1) (clock_ms (pi_now i)) pl h)"
    and key': "dec_key (sp_decryptor p') CAR_NODE = Some key" and pl: "pl = payload_of i"
    using ls pre(1) good q' by (rule stages_made)
  obtain kp q1 pt where car: "feed_car C i f ?p = (Inr kp, q1)" "fk_frame kp = f" "fk_encrypted kp = ps_encrypted s"
      "fk_commitment kp = ps_commitment s"
    and open1: "decrypt_relay C (ps_encrypted s) (sp_decryptor ?p) = (Inr (ps_decrypted s), sp_decryptor p')"
    and ren: "reencrypt C (pi_renonce i) (ps_decrypted s) (sp_reencryptor ?p) = (Inr (ps_reencrypted s), sp_reencryptor p')"
      "open_reencrypted C (ps_reencrypted s) (sp_val_engine ?p) = (Inr pt, sp_val_engine p')"
    and val: "ps_validator s = validator_packet (ps_reencrypted s) pt (ps_commitment s)"
    and q1: "q1 = p'\<lparr>sp_decryptor := sp_decryptor ?p, sp_reencryptor := sp_reencryptor ?p, sp_val_engine := sp_val_engine ?p\<rparr>"
    and same: "sp_sig p' = sp_sig ?p" "sp_zkp p' = sp_zkp ?p"
    using run unfolding f by (rule stages_split)
  have k: "key = shared_key C (sk_car k) (sk_relay k)" using pre key by (auto simp: sim_ready_def)
  have node: "sgn_node_id (sp_signer ?p) = CAR_NODE" and team: "bld_team (sp_builder ?p) = ''mercedes''"
    using pre(1) by (simp_all add: sim_ready_def)
  have js: "json_loads pl = Inr js"
  proof -
    obtain p0 js0 where "json_loads p0 = Inr js0" "ps_decrypted s = opened_fields (sp_decryptor ?p) (ps_encrypted s) p0 js0"
      using open1 by (rule decrypt_relay_InrD)
    with dec have "opened_fields (sp_decryptor ?p) (ps_encrypted s) p0 js0 = opened_fields (sp_decryptor ?p) (ps_encrypted s) pl js"
      by simp
    then show ?thesis using opened_fields_inj \<open>json_loads p0 = Inr js0\<close> by blast
  qed
  let ?sig = "ed_sign C (sgn_private (sp_signer ?p)) (h @ pl)"
  have "length ?sig = 64" using ls(3) by (simp add: sig_law_def)
  then have "to_hex ?sig \<noteq> []" by (auto simp: to_hex_eq_Nil)
  note fields = enc sg encrypted_fields_def signed_fields_def built_packet_def dict_get_or_def dict_get_def py_or_def
  have sent: "sent C k ?q (ps_encrypted s)"
    using ct js \<open>to_hex ?sig \<noteq> []\<close> pre(3,4) unfolding k by (auto simp: sent_def fields node ic_has_sig_def)
  have view: "an_payload (ps_decrypted s) = js" "dict_get_or (ps_decrypted s) ''team'' (PStr ''combined'') = PStr ''mercedes''"
    "an_node (ps_decrypted s) = PStr CAR_NODE" "pkt_node (ps_decrypted s) = PStr CAR_NODE" "pkt_seq (ps_decrypted s) = PInt ?q"
    "ic_has_sig (ps_decrypted s)"
    using \<open>to_hex ?sig \<noteq> []\<close> by (simp_all add: dec fields opened_fields_def an_payload_def an_node_def pkt_node_def pkt_seq_def
        ic_has_sig_def node team pre(3))
  have "frame_view i = filter_view js ''mercedes'' CAR_NODE" using js by (simp add: frame_view_def pl)
  then have filt: "anomaly_check (ps_decrypted s) = anomaly_check (frame_view i)"
    using anomaly_check_view [OF view(1-3)] by (simp add: fun_eq_iff)
  have named: "dict_get_or (ps_encrypted s) ''node_id'' (PStr ''unknown'') = PStr CAR_NODE" by (simp add: fields node)
  then have pkt: "committed_packet (ps_commitment s) (attributed_packet (ps_reencrypted s) pt (ps_encrypted s)) = ps_validator s"
    by (simp add: val validator_packet_def committed_packet_def attributed_packet_def)
  have q2: "q1\<lparr>sp_decryptor := sp_decryptor p', sp_reencryptor := sp_reencryptor p', sp_val_engine := sp_val_engine p'\<rparr> = p'"
    "q1\<lparr>sp_decryptor := sp_decryptor p'\<rparr> = p'\<lparr>sp_reencryptor := sp_reencryptor ?p, sp_val_engine := sp_val_engine ?p\<rparr>"
    by (simp_all add: q1)
  have st': "attack_state C k ?q l m (a\<lparr>at_pipe := p'\<rparr>)"
    using st p' pre key' k by (simp add: attack_state_def)
  have st'': "attack_state C k ?q l m (a\<lparr>at_pipe := p'\<lparr>sp_reencryptor := sp_reencryptor ?p, sp_val_engine := sp_val_engine ?p\<rparr>\<rparr>)"
    using st' sim_ready_partial [OF pre(1) p'(1)] by (simp add: attack_state_def)
  show thesis
    by (rule that [OF f car(1) car(2), where dec = "ps_decrypted s" and d = "sp_decryptor p'" and ren = "ps_reencrypted s"
          and r = "sp_reencryptor p'" and pl = pt and v = "sp_val_engine p'" and h = h])
      (use sent same open1 filt view ren hon pl p'(3) st' st'' in \<open>simp_all add: car pkt q2 pre(3)\<close>, simp_all add: q1 same)
qed

section \<open>While the pipeline is intact\<close>

text \<open>What the feed answers is then decided by the anomaly filter alone.\<close>

definition filter_passes :: "anomaly_result res \<Rightarrow> bool" where
  "filter_passes v = (case v of Inl _ \<Rightarrow> False | Inr a \<Rightarrow> \<not> is_rejected a)"

definition filter_answer :: "anomaly_result res \<Rightarrow> (string \<times> string) option" where
  "filter_answer v =
     (case v of Inl _ \<Rightarrow> None
      | Inr a \<Rightarrow> if is_rejected a then Some (''REJECT'', ''anomaly_rejected'')
                 else Some (if is_flagged a then ''FLAG'' else ''ACCEPT'', ''all_checks_passed''))"

definition answer_of :: "feed_result \<Rightarrow> pyval \<times> string \<times> string" where
  "answer_of r = (fr_sequence_no r, fr_decision r, fr_reason r)"

lemma answer_of_make_result: "answer_of (make_result t pkt d r) = (dict_get_or pkt ''sequence_no'' (PInt 0), d, r)"
  by (simp add: answer_of_def make_result_def)

lemma answer_of_accepted: "answer_of (accepted_result i k a pkt) =
    (dict_get_or pkt ''sequence_no'' (PInt 0), if is_flagged a then ''FLAG'' else ''ACCEPT'', ''all_checks_passed'')"
  by (simp add: answer_of_def accepted_result_def make_result_def)

text \<open>A packet that reaches the re-encryption and passes the validator's checks is accepted.\<close>

lemma feed_reencrypt_accepts:
  assumes "reencrypt C (pi_renonce (fi_packet i)) ann (sp_reencryptor (pipe p)) = (Inr ren, rn)"
    and "open_reencrypted C ren (sp_val_engine (pipe p)) = (Inr pl, ve)"
    and "pkt = committed_packet (fk_commitment kp) (attributed_packet ren pl (fk_encrypted kp))"
    and "sv_verify C (dl_sig_stamp (fi_delivery i)) pkt (sp_sig (pipe p)) = (Inr w, sv)"
    and "sequence_check (at_seq (fp_core p)) (dl_now (fi_delivery i)) pkt = (Inr sres, chk)" and "cr_passed sres"
    and "zkp_verify_packet (dl_zkp_stamp (fi_delivery i)) pkt (sp_zkp (pipe p)) = (Inr z, zk)" and "cm_verified z"
  shows "\<exists>l'. feed_reencrypt C i kp a ann p l = feed_accept i kp a pkt
    (p\<lparr>fp_core := (fp_core p)\<lparr>at_seq := chk, at_pipe := (pipe p)\<lparr>sp_reencryptor := rn, sp_val_engine := ve, sp_sig := sv, sp_zkp := zk\<rparr>\<rparr>\<rparr>) l'"
  using assms
  by (simp add: feed_reencrypt_def feed_validator_def feed_signature_def feed_sequence_def feed_zkp_def pipe_def on_pipe_def Let_def)
    (rule exI, rule refl)

lemma feed_step_intact:
  assumes laws: "sim_laws C" and st: "attack_state C k q l m (fp_core p)" and new: "l \<le> q" "m \<le> q"
    and good: "good_inputs (fi_packet i) (pi_frame (fi_packet i))" and q: "q + 1 < 2 ^ 64"
    and v: "anomaly_check (frame_view (fi_packet i)) (fp_anomaly p) = (v, f)"
  obtains r p' lg' enc where "feed_packet_step C i p lg = (r, p', lg')"
    and "map_option answer_of r = map_option (Pair (PInt (q + 1))) (filter_answer v)"
    and "attack_state C k (q + 1) (if filter_passes v then q + 1 else l) (q + 1) (fp_core p')" and "fp_anomaly p' = f"
    and "fd_last_encrypted lg' = (if filter_passes v then Some enc else fd_last_encrypted lg)" and "sent C k (q + 1) enc"
proof -
  let ?a = "fp_core p" and ?i = "fi_packet i" and ?q = "q + 1"
  obtain fr kp q1 dec d ren rn pl ve h where made: "pi_frame ?i = Some fr" "feed_car C ?i fr (at_pipe ?a) = (Inr kp, q1)"
      "fk_frame kp = fr" "sent C k ?q (fk_encrypted kp)" "sp_sig q1 = sp_sig (at_pipe ?a)" "sp_zkp q1 = sp_zkp (at_pipe ?a)"
      "decrypt_relay C (fk_encrypted kp) (sp_decryptor q1) = (Inr dec, d)"
    and filt: "anomaly_check dec = anomaly_check (frame_view ?i)"
    and dec: "pkt_node dec = PStr CAR_NODE" "pkt_seq dec = PInt ?q" "ic_has_sig dec"
    and ren: "reencrypt C (pi_renonce ?i) dec (sp_reencryptor q1) = (Inr ren, rn)"
      "open_reencrypted C ren (sp_val_engine q1) = (Inr pl, ve)"
    and hon: "honest_packet C (sp_signer (at_pipe ?a)) ?q
      (committed_packet (fk_commitment kp) (attributed_packet ren pl (fk_encrypted kp))) h (payload_of ?i)"
    and sgn: "sgn_private (sp_signer q1) = sgn_private (sp_signer (at_pipe ?a))"
    and st1: "attack_state C k ?q l m (?a\<lparr>at_pipe := q1\<lparr>sp_decryptor := d\<rparr>\<rparr>)"
    and st2: "attack_state C k ?q l m (?a\<lparr>at_pipe := q1\<lparr>sp_decryptor := d, sp_reencryptor := rn, sp_val_engine := ve\<rparr>\<rparr>)"
    using laws st good q by (rule feed_makes)
  let ?pkt = "committed_packet (fk_commitment kp) (attributed_packet ren pl (fk_encrypted kp))"
  have seq: "0 < ?q" using st by (simp add: attack_state_def)
  have chk: "relay_checker (at_relay ?a)" "relay_last (at_relay ?a) = m" "car_checker (at_seq ?a)" "car_last (at_seq ?a) = l"
    using st by (simp_all add: attack_state_def)
  obtain res rel where rel: "integrity_check (at_relay ?a) (fi_relay_now i) dec = (Inr res, rel)" "cr_passed res"
      "relay_checker rel" "relay_last rel = ?q"
    using relay_step [OF chk(1) dec seq, of "fi_relay_now i"] chk(2) new(2) by (metis less_add_one max_absorb2 order_less_imp_le order_le_less_trans)
  let ?q2 = "q1\<lparr>sp_decryptor := d, sp_reencryptor := rn, sp_val_engine := ve\<rparr>"
  have pre: "sig_law C" "sim_ready C ?q2" using st2 laws by (simp_all add: attack_state_def sim_laws_def)
  have key: "sgn_private (sp_signer (at_pipe ?a)) = sgn_private (sp_signer ?q2)" using sgn by simp
  obtain sres chk' z zk where sv: "sv_verify C (dl_sig_stamp (fi_delivery i)) ?pkt (sp_sig ?q2) =
        (Inr (verify_result (PStr CAR_NODE) (dl_sig_stamp (fi_delivery i))), (sp_sig ?q2)\<lparr>sv_verified := sv_verified (sp_sig ?q2) + 1\<rparr>)"
    and sq: "sequence_check (at_seq ?a) (dl_now (fi_delivery i)) ?pkt = (Inr sres, chk')" "cr_passed sres \<longleftrightarrow> car_last (at_seq ?a) < ?q"
      "checker_moved (at_seq ?a) ?q chk'"
    and zk: "zkp_verify_packet (dl_zkp_stamp (fi_delivery i)) ?pkt (sp_zkp ?q2) = (Inr z, zk)" "cm_verified z"
    using pre hon key chk(3) seq
    by (rule honest_checks [where stamp = "dl_sig_stamp (fi_delivery i)" and now = "dl_now (fi_delivery i)"
        and stamp' = "dl_zkp_stamp (fi_delivery i)"])
  have seqno: "dict_get_or dec ''sequence_no'' (PInt 0) = PInt ?q" "dict_get_or ?pkt ''sequence_no'' (PInt 0) = PInt ?q"
    using dec(2) hon by (simp_all add: pkt_seq_def honest_packet_def dict_get_or_def)
  have stA: "attack_state C k ?q l ?q (?a\<lparr>at_pipe := q1\<lparr>sp_decryptor := d\<rparr>, at_relay := rel\<rparr>)"
    using st1 rel by (simp add: attack_state_def)
  let ?q3 = "?q2\<lparr>sp_sig := (sp_sig ?q2)\<lparr>sv_verified := sv_verified (sp_sig ?q2) + 1\<rparr>, sp_zkp := zk\<rparr>"
  have stB: "attack_state C k ?q ?q ?q (?a\<lparr>at_relay := rel, at_seq := chk', at_pipe := ?q3\<rparr>)"
  proof -
    have "sim_ready C ?q3" using pre(2) by (simp add: sim_ready_def)
    then show ?thesis using st2 rel sq(3) chk(4) new by (simp add: attack_state_def checker_moved_def max_def)
  qed
  let ?p1 = "p\<lparr>fp_core := ?a\<lparr>at_pipe := q1\<lparr>sp_decryptor := d\<rparr>, at_relay := rel\<rparr>\<rparr>"
    and ?l1 = "lg\<lparr>fd_frames := fd_frames lg @ [fr], fd_encrypted := fd_encrypted lg + 1\<rparr>"
  have run: "feed_packet_step C i p lg = feed_anomaly C i kp dec ?p1 ?l1"
    using made rel by (simp add: feed_packet_step_def take_frame_def feed_relay_def feed_integrity_def pipe_def on_pipe_def Let_def)
  show thesis
  proof (cases v)
    case (Inl e)
    then have "anomaly_annotate dec (fp_anomaly p) = (Inl e, f)" using v filt by (simp add: anomaly_annotate_def)
    then have out: "feed_packet_step C i p lg = (None, ?p1\<lparr>fp_anomaly := f\<rparr>,
        ?l1\<lparr>fd_rejected := fd_rejected ?l1 + 1, fd_total := fd_total ?l1 + 1\<rparr>)" using run by (simp add: feed_anomaly_def feed_failed_def)
    show thesis by (rule that [OF out _ _ _ _ made(4)]) (use stA Inl in \<open>simp_all add: filter_answer_def filter_passes_def\<close>)
  next
    case (Inr a)
    obtain ann where ann: "anomaly_annotate dec (fp_anomaly p) = (Inr (ann, a), f)" using v filt Inr by (simp add: anomaly_annotate_def)
    show thesis
    proof (cases "is_rejected a")
      case True
      then have out: "feed_packet_step C i p lg = (Some (make_result (fi_result_stamp i) dec ''REJECT'' ''anomaly_rejected''),
          ?p1\<lparr>fp_anomaly := f\<rparr>, record_reject (fi_event_stamp i) dec ''anomaly_rejected''
            (?l1\<lparr>fd_an_checked := fd_an_checked ?l1 + 1, fd_an_rejected := fd_an_rejected ?l1 + 1\<rparr>))"
        using run ann by (simp add: feed_anomaly_def feed_reject_def Let_def)
      show thesis by (rule that [OF out _ _ _ _ made(4)])
          (use stA True Inr seqno(1) in \<open>simp_all add: filter_answer_def filter_passes_def answer_of_make_result record_reject_def\<close>)
    next
      case False
      have "reencrypt C (pi_renonce ?i) ann (sp_reencryptor q1) = (Inr ren, rn)"
        using reencrypt_annotated [OF ann] ren(1) by simp
      moreover have "car_last (at_seq ?a) < ?q" using chk(4) new by simp
      ultimately have acc: "\<exists>l3. feed_reencrypt C i kp a ann (?p1\<lparr>fp_anomaly := f\<rparr>) l2 = feed_accept i kp a ?pkt
          (?p1\<lparr>fp_anomaly := f, fp_core := ?a\<lparr>at_relay := rel, at_seq := chk', at_pipe := ?q3\<rparr>\<rparr>) l3" for l2
        using ren(2) sv sq zk feed_reencrypt_accepts [of C i ann "?p1\<lparr>fp_anomaly := f\<rparr>" ren rn pl ve ?pkt kp _ _ sres chk' z zk a l2]
        by (simp add: pipe_def)
      obtain l2 where "feed_packet_step C i p lg = feed_reencrypt C i kp a ann (?p1\<lparr>fp_anomaly := f\<rparr>) l2"
        using run ann False by (simp add: feed_anomaly_def Let_def)
      with acc [of l2] obtain l3 where "feed_packet_step C i p lg = feed_accept i kp a ?pkt
          (?p1\<lparr>fp_anomaly := f, fp_core := ?a\<lparr>at_relay := rel, at_seq := chk', at_pipe := ?q3\<rparr>\<rparr>) l3" by metis
      then obtain g l3 where out: "feed_packet_step C i p lg = (Some (accepted_result i kp a ?pkt),
          ?p1\<lparr>fp_anomaly := f, fp_core := ?a\<lparr>at_relay := rel, at_seq := chk', at_pipe := ?q3\<rparr>, fp_audit := g\<rparr>, l3)"
        and l3: "fd_last_encrypted l3 = Some (fk_encrypted kp)"
        by (simp add: feed_accept_def accept_log_def Let_def)
      show thesis by (rule that [OF out _ _ _ _ made(4)])
          (use stB False Inr seqno(2) l3 in \<open>simp_all add: filter_answer_def filter_passes_def answer_of_accepted\<close>)
    qed
  qed
qed

section \<open>Runs\<close>

text \<open>The construction succeeds for the demonstration's car, as that of the simulations does.\<close>

lemma feed_starts:
  assumes world: "sim_world C (fs_keys s)" and rows: "fs_rows s = Inr rows" and f: "anomaly_init ''relay_01'' (fs_thresholds s) = Inr f"
  obtains p lg where "initialise C s ''mercedes'' ''R'' = (Inr (), \<lparr>fe_parts = Some p, fe_log = lg\<rparr>)"
    and "attack_state C (fs_keys s) 0 0 0 (fp_core p)" and "fp_anomaly p = f"
    and "fd_last_encrypted lg = None"
proof -
  let ?k = "fs_keys s"
  have laws: "dh_law C" "sig_law C" "exchanges C (sk_car ?k) (sk_relay ?k)" "exchanges C (sk_relay_val ?k) (sk_validator ?k)"
    using world by (simp_all add: sim_world_def sim_laws_def)
  obtain car rel k1 where h1: "cross_handshake C (sk_now ?k) CAR_NODE (sk_car ?k) ''relay_01'' (sk_relay ?k) = Inr (car, rel)"
    "engine_key car = Some k1" "engine_key rel = Some k1" "length k1 = 32" "k1 = shared_key C (sk_car ?k) (sk_relay ?k)"
    using laws(1,3) by (rule cross_handshake_keys)
  obtain rv val k2 where h2: "cross_handshake C (sk_now ?k) ''relay_val'' (sk_relay_val ?k) ''fia_validator'' (sk_validator ?k) = Inr (rv, val)"
    "engine_key rv = Some k2" "engine_key val = Some k2" "length k2 = 32" "k2 = shared_key C (sk_relay_val ?k) (sk_validator ?k)"
    using laws(1,4) by (rule cross_handshake_keys)
  have node: "''mercedes_car'' = CAR_NODE" by (simp add: CAR_NODE_def)
  have bld: "\<exists>n. builder_init ''mercedes'' ''R'' None = Inr \<lparr>bld_team = ''mercedes'', bld_session = ''R'', bld_node_id = n,
      bld_sequence = 0, bld_packets_built = 0\<rparr>"
    by (simp add: builder_init_def lower_char_def upper_char_def TEAM_IDS_def SESSION_IDS_def dict_has_def Let_def)
  have pk: "length (signer_public C x) = 32" for x using laws(2) by (simp add: signer_public_def sig_law_def)
  obtain p where p: "feed_pipeline C ?k (fs_thresholds s) ''mercedes'' ''R'' = Inr (p, f)" "sim_ready C p" "sim_seq p = 0"
    "sgn_private (sp_signer p) = sk_signer ?k" "dec_key (sp_decryptor p) CAR_NODE = Some (shared_key C (sk_car ?k) (sk_relay ?k))"
    "engine_key (sp_car_engine p) = Some k1" "engine_key (sp_val_engine p) = Some k2"
    using bld h1 h2 pk node f by (elim exE, intro that)
      (auto simp: feed_pipeline_def register_session_def register_validator_session_def sv_register_node_def
        session_established_key PUBLIC_KEY_SIZE_def Let_def sim_ready_def dec_key_def ren_key_def signer_init_def
        decryptor_init_def reencryptor_init_def sig_verifier_init_def)
  let ?a = "\<lparr>at_pipe = p, at_relay = integrity_init ''relay_01'' MAX_TIMESTAMP_AGE_MS MAX_SEQUENCE_GAP False True,
      at_seq = new_sequence_checker SC_MAX_SEQUENCE_GAP\<rparr>"
  let ?p = "\<lparr>fp_core = ?a, fp_anomaly = f, fp_audit = audit_init ''fia_validator'' False\<rparr>"
  have init: "feed_parts_init C s ''mercedes'' ''R'' = Inr ?p"
    using p(1) by (simp add: feed_parts_init_def new_sequence_checker_def)
  have run: "initialise C s ''mercedes'' ''R'' = (Inr (), \<lparr>fe_parts = Some ?p, fe_log = (reset_log (fs_reset_now s))
      \<lparr>fd_data_rows := rows, fd_car_key := to_hex k1, fd_val_key := to_hex k2, fd_session_start := fs_session_now s,
        fd_start_time := Some (fs_start_now s)\<rparr>\<rparr>)"
    using rows init p(6,7) by (simp add: initialise_def key_hex_def Let_def)
  show thesis by (rule that [OF run]) (use p in \<open>simp_all add: attack_state_def reset_log_def\<close>)
qed

fun feed_all :: "pyca \<Rightarrow> feed_inputs list \<Rightarrow> feed \<Rightarrow> feed_result option list \<times> feed" where
  "feed_all C [] s = ([], s)"
| "feed_all C (i # is) s =
     (let (r, s1) = process_one_packet C i s; (rs, s2) = feed_all C is s1 in (r # rs, s2))"

text \<open>The answers of the filter to the frames alone, numbered from \<open>q\<close> on.\<close>

fun filter_run :: "int \<Rightarrow> packet_inputs list \<Rightarrow> anomaly_filter \<Rightarrow> (pyval \<times> string \<times> string) option list" where
  "filter_run q [] f = []"
| "filter_run q (i # is) f =
     (let (v, f') = anomaly_check (frame_view i) f
      in map_option (Pair (PInt (q + 1))) (filter_answer v) # filter_run (q + 1) is f')"

definition passed_on :: "feed_result option \<Rightarrow> bool" where
  "passed_on r = (case r of None \<Rightarrow> False | Some x \<Rightarrow> fr_decision x \<noteq> ''REJECT'')"

text \<open>A feed that has sent \<open>q\<close> packets: what it kept for a replay is one of them that the relay has accepted.\<close>

definition feed_intact :: "pyca \<Rightarrow> sim_keys \<Rightarrow> int \<Rightarrow> anomaly_filter \<Rightarrow> feed \<Rightarrow> bool" where
  "feed_intact C k q f s =
     (\<exists>p l m. fe_parts s = Some p \<and> attack_state C k q l m (fp_core p) \<and> l \<le> q \<and> m \<le> q \<and> fp_anomaly p = f \<and>
        (\<forall>enc. fd_last_encrypted (fe_log s) = Some enc \<longrightarrow> (\<exists>n\<le>m. sent C k n enc)))"

lemma passed_on_answer:
  "map_option answer_of r = map_option (Pair x) (filter_answer v) \<Longrightarrow> passed_on r = filter_passes v"
  by (cases r) (auto simp: passed_on_def filter_passes_def filter_answer_def answer_of_def split: sum.splits if_splits)

lemma process_one_intact:
  assumes laws: "sim_laws C" and st: "feed_intact C k q f s" and good: "good_inputs (fi_packet i) (pi_frame (fi_packet i))"
    and q: "q + 1 < 2 ^ 64" and v: "anomaly_check (frame_view (fi_packet i)) f = (v, f')"
  obtains r s' where "process_one_packet C i s = (r, s')" and "map_option answer_of r = map_option (Pair (PInt (q + 1))) (filter_answer v)"
    and "feed_intact C k (q + 1) f' s'"
    and "fd_last_encrypted (fe_log s') = None \<longleftrightarrow> fd_last_encrypted (fe_log s) = None \<and> \<not> passed_on r"
proof -
  obtain p l m where p: "fe_parts s = Some p" "attack_state C k q l m (fp_core p)" "l \<le> q" "m \<le> q" "fp_anomaly p = f"
    and kept: "\<forall>enc. fd_last_encrypted (fe_log s) = Some enc \<longrightarrow> (\<exists>n\<le>m. sent C k n enc)"
    using st by (auto simp: feed_intact_def)
  obtain r p' lg' enc where step: "feed_packet_step C i p (fe_log s) = (r, p', lg')"
      "map_option answer_of r = map_option (Pair (PInt (q + 1))) (filter_answer v)"
      "attack_state C k (q + 1) (if filter_passes v then q + 1 else l) (q + 1) (fp_core p')" "fp_anomaly p' = f'"
      "fd_last_encrypted lg' = (if filter_passes v then Some enc else fd_last_encrypted (fe_log s))" "sent C k (q + 1) enc"
    using laws p(2-4) good q v [folded p(5)] by (rule feed_step_intact)
  let ?s = "\<lparr>fe_parts = Some p', fe_log = lg'\<rparr>"
  have run: "process_one_packet C i s = (r, ?s)" using p(1) step(1) by (simp add: process_one_packet_def)
  have "\<exists>n\<le>q + 1. sent C k n e" if e: "fd_last_encrypted lg' = Some e" for e
  proof (cases "filter_passes v")
    case True
    then show ?thesis using e step(5,6) by auto
  next
    case False
    then obtain n where "n \<le> m" "sent C k n e" using e step(5) kept by auto
    then show ?thesis using p(4) by (intro exI [of _ n]) simp
  qed
  then have "feed_intact C k (q + 1) f' ?s"
    unfolding feed_intact_def using step(3,4) p(3)
    by (intro exI [of _ p'] exI [of _ "if filter_passes v then q + 1 else l"] exI [of _ "q + 1"]) simp
  moreover have "passed_on r = filter_passes v" using step(2) by (rule passed_on_answer)
  ultimately show thesis using step(2,5) by (intro that [OF run]) auto
qed

lemma feed_all_intact:
  assumes "sim_laws C" and "feed_intact C k q f s" and "\<forall>i\<in>set is. good_inputs (fi_packet i) (pi_frame (fi_packet i))"
    and "q + int (length is) < 2 ^ 64"
  obtains rs s' f' where "feed_all C is s = (rs, s')" and "map (map_option answer_of) rs = filter_run q (map fi_packet is) f"
    and "feed_intact C k (q + int (length is)) f' s'"
    and "fd_last_encrypted (fe_log s') = None \<longleftrightarrow> fd_last_encrypted (fe_log s) = None \<and> (\<forall>r\<in>set rs. \<not> passed_on r)"
  using assms(2-)
proof (induction "is" arbitrary: q f s thesis)
  case Nil
  then show ?case by simp
next
  case (Cons i "is")
  obtain v f1 where v: "anomaly_check (frame_view (fi_packet i)) f = (v, f1)" by fastforce
  obtain r s1 where one: "process_one_packet C i s = (r, s1)" "map_option answer_of r = map_option (Pair (PInt (q + 1))) (filter_answer v)"
      "feed_intact C k (q + 1) f1 s1"
      "fd_last_encrypted (fe_log s1) = None \<longleftrightarrow> fd_last_encrypted (fe_log s) = None \<and> \<not> passed_on r"
    using assms(1) Cons.prems(2) _ _ v by (rule process_one_intact) (use Cons.prems in auto)
  obtain rs s2 f2 where rest: "feed_all C is s1 = (rs, s2)" "map (map_option answer_of) rs = filter_run (q + 1) (map fi_packet is) f1"
      "feed_intact C k (q + 1 + int (length is)) f2 s2"
      "fd_last_encrypted (fe_log s2) = None \<longleftrightarrow> fd_last_encrypted (fe_log s1) = None \<and> (\<forall>r\<in>set rs. \<not> passed_on r)"
    by (rule Cons.IH [OF _ one(3)]) (use Cons.prems in auto)
  have "q + int (length (i # is)) = q + 1 + int (length is)" by simp
  then have st: "feed_intact C k (q + int (length (i # is))) f2 s2" using rest(3) by (simp only:)
  show ?case by (rule Cons.prems(1) [OF _ _ st, of "r # rs"]) (use one rest v in simp_all)
qed

text \<open>From the start: initialisation, then packets.\<close>

lemma feed_runs:
  assumes "sim_world C (fs_keys s)" and "fs_rows s = Inr rows" and "anomaly_init ''relay_01'' (fs_thresholds s) = Inr f"
    and "\<forall>i\<in>set is. good_inputs (fi_packet i) (pi_frame (fi_packet i))" and "length is < 2 ^ 64"
  obtains s0 rs s' f' where "initialise C s ''mercedes'' ''R'' = (Inr (), s0)" and "feed_all C is s0 = (rs, s')"
    and "map (map_option answer_of) rs = filter_run 0 (map fi_packet is) f"
    and "feed_intact C (fs_keys s) (int (length is)) f' s'"
    and "fd_last_encrypted (fe_log s') = None \<longleftrightarrow> (\<forall>r\<in>set rs. \<not> passed_on r)"
proof -
  obtain p lg where init: "initialise C s ''mercedes'' ''R'' = (Inr (), \<lparr>fe_parts = Some p, fe_log = lg\<rparr>)"
      "attack_state C (fs_keys s) 0 0 0 (fp_core p)" "fp_anomaly p = f" "fd_last_encrypted lg = None"
    using assms(1-3) by (rule feed_starts)
  let ?s0 = "\<lparr>fe_parts = Some p, fe_log = lg\<rparr>"
  have "feed_intact C (fs_keys s) 0 f ?s0" using init by (auto simp: feed_intact_def)
  moreover have "sim_laws C" using assms(1) by (simp add: sim_world_def)
  moreover have "0 + int (length is) < 2 ^ 64" using assms(5) by simp
  ultimately obtain rs s' f' where "feed_all C is ?s0 = (rs, s')" "map (map_option answer_of) rs = filter_run 0 (map fi_packet is) f"
      "feed_intact C (fs_keys s) (0 + int (length is)) f' s'"
      "fd_last_encrypted (fe_log s') = None \<longleftrightarrow> fd_last_encrypted (fe_log ?s0) = None \<and> (\<forall>r\<in>set rs. \<not> passed_on r)"
    using assms(4) by (elim feed_all_intact)
  with init show thesis by (intro that [of ?s0 rs s' f']) simp_all
qed

text \<open>C9. Behind the handshakes and on good frames, the whole pipeline of the feed (building, signing, sealing, both
  checkers, re-encryption, signature and commitment) decides nothing that the anomaly filter does not
  decide: packet by packet, the feed answers with the number, the decision and the reason that a filter
  alone gives for the frame read back from its JSON text, and with nothing where the filter raises.\<close>

theorem feed_refines_filter:
  assumes "sim_world C (fs_keys s)" and "fs_rows s = Inr rows" and "anomaly_init ''relay_01'' (fs_thresholds s) = Inr f"
    and "\<forall>i\<in>set is. good_inputs (fi_packet i) (pi_frame (fi_packet i))" and "length is < 2 ^ 64"
  shows "\<exists>s0 rs s'. initialise C s ''mercedes'' ''R'' = (Inr (), s0) \<and> feed_all C is s0 = (rs, s') \<and>
    map (map_option answer_of) rs = filter_run 0 (map fi_packet is) f \<and> pipeline_status s' = ''ACTIVE''"
proof -
  obtain s0 rs s' f' where "initialise C s ''mercedes'' ''R'' = (Inr (), s0)" "feed_all C is s0 = (rs, s')"
      "map (map_option answer_of) rs = filter_run 0 (map fi_packet is) f" "feed_intact C (fs_keys s) (int (length is)) f' s'"
    using assms by (rule feed_runs)
  then show ?thesis by (auto simp: feed_intact_def pipeline_status_def)
qed

section \<open>Replays\<close>

text \<open>The stages of an injected attack up to the integrity check, for a packet that the relay has accepted before.\<close>

lemma feed_replay_refused:
  assumes laws: "sim_laws C" and st: "feed_intact C k q f s"
  shows "case fd_last_encrypted (fe_log s) of
      None \<Rightarrow> inject_attack C ''replay'' i s = (Inr None, s)
    | Some enc \<Rightarrow> \<exists>r s'. inject_attack C ''replay'' i s = (Inr (Some r), s') \<and> fr_decision r = ''REJECT'' \<and>
        fr_reason r = ''integrity_failed'' \<and> fr_attack_injected r = Some ''replay'' \<and> (\<exists>n. fr_sequence_no r = PInt n)"
proof -
  obtain p l m where p: "fe_parts s = Some p" "attack_state C k q l m (fp_core p)"
    and kept: "\<forall>enc. fd_last_encrypted (fe_log s) = Some enc \<longrightarrow> (\<exists>n\<le>m. sent C k n enc)"
    using st by (auto simp: feed_intact_def)
  show ?thesis
  proof (cases "fd_last_encrypted (fe_log s)")
    case None
    then show ?thesis using p(1) by (simp add: inject_attack_def attack_step_def Let_def)
  next
    case (Some enc)
    then obtain n where n: "n \<le> m" "sent C k n enc" using kept by auto
    have core: "relay_checker (at_relay (fp_core p))" "relay_last (at_relay (fp_core p)) = m"
      "dec_key (sp_decryptor (at_pipe (fp_core p))) CAR_NODE = Some (shared_key C (sk_car k) (sk_relay k))"
      using p(2) by (simp_all add: attack_state_def)
    have "aead_law C" using laws by (simp add: sim_laws_def)
    then obtain dec d where dec: "decrypt_relay C enc (sp_decryptor (at_pipe (fp_core p))) = (Inr dec, d)"
        "pkt_node dec = PStr CAR_NODE" "pkt_seq dec = PInt n" "ic_has_sig dec"
      using n(2) core(3) by (rule sent_opens)
    have "0 < n" using n(2) by (simp add: sent_def)
    then obtain r rel where rel: "integrity_check (at_relay (fp_core p)) (fi_relay_now i) dec = (Inr r, rel)" "\<not> cr_passed r"
      using relay_step [OF core(1) dec(2-4), of "fi_relay_now i"] core(2) n(1) by (metis linorder_not_less)
    have "dict_get_or dec ''sequence_no'' (PInt 0) = PInt n" using dec(3) by (simp add: pkt_seq_def)
    then show ?thesis using Some p(1) dec(1) rel
      by (simp add: inject_attack_def attack_step_def attack_relay_def attack_integrity_def attack_rejected_def attack_ends_def
          attack_result_def make_result_def pipe_def on_pipe_def Let_def)
  qed
qed

text \<open>What the threat panel makes of such a result: a rejection, but no threat.\<close>

lemma panel_misses_replay:
  assumes "fr_decision r = ''REJECT''" and "fr_reason r = ''integrity_failed''"
  shows "th_events (snd (ingest t (Some r) p)) = th_events p \<and> counters (snd (ingest t (Some r) p)) = counters p \<and>
    th_rejected (snd (ingest t (Some r) p)) = th_rejected p + 1"
proof -
  have "record_threat t r (count_decision r p) = count_decision r p"
    using assms by (simp add: record_threat_def integrity_failed_unknown)
  moreover have "counters (q\<lparr>th_last_seq := x\<rparr>) = counters q" for q x by (simp add: counters_def)
  ultimately show ?thesis using assms by (simp add: ingest_keeps Let_def)
qed

text \<open>C16. A replay injected after any run of good packets is refused by the relay's checker if any packet was
  accepted before, and does nothing otherwise; but the threat panel, given the result of the refused
  replay, records no threat: its events and its threat counters stay, only the rejections count.\<close>

theorem injected_replay_unseen:
  assumes "sim_world C (fs_keys s)" and "fs_rows s = Inr rows" and "anomaly_init ''relay_01'' (fs_thresholds s) = Inr f"
    and "\<forall>i\<in>set is. good_inputs (fi_packet i) (pi_frame (fi_packet i))" and "length is < 2 ^ 64"
  shows "case initialise C s ''mercedes'' ''R'' of (started, s0) \<Rightarrow> case feed_all C is s0 of (rs, s1) \<Rightarrow>
    case inject_attack C ''replay'' i s1 of (answer, s2) \<Rightarrow>
      started = Inr () \<and>
      (if \<forall>r\<in>set rs. \<not> passed_on r then answer = Inr None \<and> s2 = s1
       else \<exists>r. answer = Inr (Some r) \<and> fr_decision r = ''REJECT'' \<and> fr_reason r = ''integrity_failed'' \<and>
         (\<forall>t p. th_events (snd (ingest t (Some r) p)) = th_events p \<and> counters (snd (ingest t (Some r) p)) = counters p \<and>
            th_rejected (snd (ingest t (Some r) p)) = th_rejected p + 1))"
proof -
  obtain s0 rs s1 f1 where run: "initialise C s ''mercedes'' ''R'' = (Inr (), s0)" "feed_all C is s0 = (rs, s1)"
      "map (map_option answer_of) rs = filter_run 0 (map fi_packet is) f" "feed_intact C (fs_keys s) (int (length is)) f1 s1"
      "fd_last_encrypted (fe_log s1) = None \<longleftrightarrow> (\<forall>r\<in>set rs. \<not> passed_on r)"
    using assms by (rule feed_runs)
  have "sim_laws C" using assms(1) by (simp add: sim_world_def)
  note refused = feed_replay_refused [OF this run(4), of i]
  show ?thesis
  proof (cases "\<forall>r\<in>set rs. \<not> passed_on r")
    case True
    then have "fd_last_encrypted (fe_log s1) = None" using run(5) by simp
    then show ?thesis using True refused run(1,2) by simp
  next
    case False
    then obtain enc where "fd_last_encrypted (fe_log s1) = Some enc" using run(5) by auto
    then obtain r s2 where r: "inject_attack C ''replay'' i s1 = (Inr (Some r), s2)" "fr_decision r = ''REJECT''"
        "fr_reason r = ''integrity_failed''" using refused by auto
    then show ?thesis using False run(1,2) panel_misses_replay [OF r(2,3)] by simp
  qed
qed

section \<open>The figures\<close>

text \<open>The counters and the packet buffer, and how one answer moves them, whatever the inputs.\<close>

definition figures :: "feed_log \<Rightarrow> int \<times> int \<times> int \<times> int \<times> int \<times> feed_result list" where
  "figures l = (fd_total l, fd_accepted l, fd_flagged l, fd_rejected l, fd_packet_count l, fd_recent l)"

definition answered :: "string \<Rightarrow> feed_result option \<Rightarrow> bool" where
  "answered d r = (case r of None \<Rightarrow> False | Some x \<Rightarrow> fr_decision x = d)"

definition how_many :: "(feed_result option \<Rightarrow> bool) \<Rightarrow> feed_result option list \<Rightarrow> int" where
  "how_many P rs = int (length (filter P rs))"

definition buffered :: "feed_result option list \<Rightarrow> feed_result list \<Rightarrow> feed_result list" where
  "buffered rs xs = fold (push_last 500) (map the (filter passed_on rs)) xs"

definition moved :: "feed_result option list \<Rightarrow> feed_log \<Rightarrow> feed_log \<Rightarrow> bool" where
  "moved rs l l' =
     (figures l' = (fd_total l + how_many (\<lambda>r. \<not> answered ''REJECT'' r) rs, fd_accepted l + how_many (answered ''ACCEPT'') rs,
        fd_flagged l + how_many (answered ''FLAG'') rs, fd_rejected l + how_many (\<lambda>r. \<not> passed_on r) rs,
        fd_packet_count l + how_many passed_on rs, buffered rs (fd_recent l)))"

abbreviation moves :: "feed_outcome \<Rightarrow> feed_log \<Rightarrow> bool" where
  "moves x l \<equiv> moved [fst x] l (snd (snd x))"

lemma how_many_simps [simp]: "how_many P [] = 0" "how_many P (r # rs) = (if P r then 1 else 0) + how_many P rs"
  by (simp_all add: how_many_def)

lemma buffered_simps [simp]: "buffered [] xs = xs"
  "buffered (r # rs) xs = (if passed_on r then buffered rs (push_last 500 (the r) xs) else buffered rs xs)"
  by (simp_all add: buffered_def)

lemma moved_trans: "moved [r] l l1 \<Longrightarrow> moved rs l1 l2 \<Longrightarrow> moved (r # rs) l l2"
  by (auto simp: moved_def figures_def)

lemma moves_end:
  assumes "figures l' = figures l"
  shows "moves (feed_failed p l') l" and "moves (feed_reject i pkt reason p l') l" and "moves (feed_accept i k a pkt p l') l"
  using assms by (simp_all add: moved_def figures_def feed_failed_def feed_reject_def record_reject_def feed_accept_def accept_log_def
      answered_def passed_on_def make_result_def accepted_result_def Let_def)

lemma moves_validator:
  assumes "figures l' = figures l"
  shows "moves (feed_zkp i k a pkt p l') l" and "moves (feed_sequence i k a pkt p l') l"
    and "moves (feed_signature C i k a pkt p l') l" and "moves (feed_validator C i k a pkt p l') l"
proof -
  have keeps: "figures (x\<lparr>fd_zkp_verified := n\<rparr>) = figures x" "figures (x\<lparr>fd_signatures := n\<rparr>) = figures x" for x n
    by (simp_all add: figures_def)
  have zkp: "moves (feed_zkp i k a pkt p x) l" if "figures x = figures l" for pkt p x
    using that moves_end [of _ l] keeps by (simp add: feed_zkp_def Let_def split: prod.split sum.split)
  have seq: "moves (feed_sequence i k a pkt p x) l" if "figures x = figures l" for pkt p x
    using that moves_end [of _ l] zkp by (simp add: feed_sequence_def Let_def split: prod.split sum.split)
  have sig: "moves (feed_signature C i k a pkt p x) l" if "figures x = figures l" for pkt p x
    using that moves_end [of _ l] seq keeps by (simp add: feed_signature_def Let_def split: prod.split sum.split)
  have val: "moves (feed_validator C i k a pkt p x) l" if "figures x = figures l" for pkt p x
    using that moves_end [of _ l] sig by (simp add: feed_validator_def Let_def split: prod.split sum.split)
  show "moves (feed_zkp i k a pkt p l') l" "moves (feed_sequence i k a pkt p l') l"
    "moves (feed_signature C i k a pkt p l') l" "moves (feed_validator C i k a pkt p l') l"
    using assms zkp seq sig val by simp_all
qed

lemma moves_relay:
  assumes "figures l' = figures l"
  shows "moves (feed_relay C i k p l') l"
proof -
  have keeps: "figures (x\<lparr>fd_reencrypted := n\<rparr>) = figures x" "figures (x\<lparr>fd_an_checked := n\<rparr>) = figures x"
    "figures (x\<lparr>fd_an_flagged := n\<rparr>) = figures x" "figures (x\<lparr>fd_an_rejected := n\<rparr>) = figures x" for x n
    by (simp_all add: figures_def)
  have ren: "moves (feed_reencrypt C i k a ann p x) l" if "figures x = figures l" for a ann p x
    using that moves_end [of _ l] moves_validator [of _ l] keeps by (simp add: feed_reencrypt_def Let_def split: prod.split sum.split)
  have ano: "moves (feed_anomaly C i k dec p x) l" if "figures x = figures l" for dec p x
    using that moves_end [of _ l] ren keeps by (simp add: feed_anomaly_def Let_def split: prod.split sum.split)
  have int: "moves (feed_integrity C i k dec p x) l" if "figures x = figures l" for dec p x
    using that moves_end [of _ l] ano by (simp add: feed_integrity_def Let_def split: prod.split sum.split)
  show ?thesis using assms moves_end [of _ l] int by (simp add: feed_relay_def Let_def split: prod.split sum.split)
qed

lemma moves_step: "moves (feed_packet_step C i p l) l"
proof -
  obtain k p1 l1 where t: "take_frame C (fi_packet i) p l = (k, p1, l1)" by (cases "take_frame C (fi_packet i) p l")
  then have "figures l1 = figures l" by (auto simp: take_frame_def figures_def Let_def split: option.splits prod.splits)
  moreover have "figures (l1\<lparr>fd_encrypted := n\<rparr>) = figures l1" for n by (simp add: figures_def)
  ultimately show ?thesis using moves_end [of l1 l] moves_relay [of _ l]
    by (simp add: feed_packet_step_def t split: sum.split)
qed

lemma fold_push_last_suffix:
  "fold (push_last m) ys (drop (length xs - m) xs) = drop (length (xs @ ys) - m) (xs @ ys)"
proof (induction ys arbitrary: xs)
  case (Cons y ys)
  have "fold (push_last m) (y # ys) (drop (length xs - m) xs) = fold (push_last m) ys (drop (length (xs @ [y]) - m) (xs @ [y]))"
    using push_last_suffix [of m y xs] by simp
  also have "\<dots> = drop (length ((xs @ [y]) @ ys) - m) ((xs @ [y]) @ ys)" by (rule Cons.IH)
  finally show ?case by simp
qed simp

lemma buffered_last:
  "length xs \<le> 500 \<Longrightarrow> buffered rs xs = drop (length xs + length (filter passed_on rs) - 500) (xs @ map the (filter passed_on rs))"
  using fold_push_last_suffix [of 500 "map the (filter passed_on rs)" xs] by (simp add: buffered_def)

lemma feed_moves:
  "case feed_all C is s of (rs, s') \<Rightarrow>
     length rs = length is \<and>
     (if fe_parts s = None then s' = s \<and> set rs \<subseteq> {None} else fe_parts s' \<noteq> None \<and> moved rs (fe_log s) (fe_log s'))"
proof -
  have none: "feed_all C is s = (map (\<lambda>_. None) is, s)" if "fe_parts s = None" for s
    using that by (induction "is") (simp_all add: process_one_packet_def)
  have run: "case feed_all C is s of (rs, s') \<Rightarrow> length rs = length is \<and> fe_parts s' \<noteq> None \<and> moved rs (fe_log s) (fe_log s')"
    if "fe_parts s \<noteq> None" for s
    using that
  proof (induction "is" arbitrary: s)
    case Nil
    then show ?case by (simp add: moved_def figures_def)
  next
    case (Cons i "is")
    obtain p where p: "fe_parts s = Some p" using Cons.prems by blast
    obtain r p' l' where step: "feed_packet_step C i p (fe_log s) = (r, p', l')" by (cases "feed_packet_step C i p (fe_log s)")
    then have "moved [r] (fe_log s) l'" using moves_step [of C i p "fe_log s"] by simp
    then show ?case using Cons.IH [of "\<lparr>fe_parts = Some p', fe_log = l'\<rparr>"] p step
      by (auto simp: process_one_packet_def intro: moved_trans split: prod.splits)
  qed
  show ?thesis using none [of s] run [of s] by (cases "fe_parts s = None") (auto split: prod.splits)
qed

text \<open>C26. The feed's figures are those of its answers, whatever the packets, keys and clocks were: acceptances,
  flags and rejections are counted each once, a call that returned nothing counts as rejected, and the
  recent packets, at most 500 at the start, are the last 500 of those and the answers that were no rejection. But the total counts only the calls that did
  not answer with a rejection, so the acceptance rate divides by a number without the packets the checks refused.\<close>

theorem feed_accounts:
  fixes rs
  defines "accepted \<equiv> int (length (filter (answered ''ACCEPT'') rs))"
    and "counted \<equiv> int (length (filter (\<lambda>r. \<not> answered ''REJECT'' r) rs))"
    and "kept \<equiv> map the (filter (\<lambda>r. r \<noteq> None \<and> \<not> answered ''REJECT'' r) rs)"
  assumes "feed_all C is s = (rs, s')" and "fe_parts s \<noteq> None" and "length (fd_recent (fe_log s)) \<le> 500"
  shows "length rs = length is \<and> fe_parts s' \<noteq> None \<and>
    fd_accepted (fe_log s') = fd_accepted (fe_log s) + accepted \<and>
    fd_flagged (fe_log s') = fd_flagged (fe_log s) + int (length (filter (answered ''FLAG'') rs)) \<and>
    fd_rejected (fe_log s') = fd_rejected (fe_log s) + int (length (filter (\<lambda>r. r = None \<or> answered ''REJECT'' r) rs)) \<and>
    fd_total (fe_log s') = fd_total (fe_log s) + counted \<and>
    fd_packet_count (fe_log s') = fd_packet_count (fe_log s) + int (length kept) \<and>
    fd_recent (fe_log s') = drop (length (fd_recent (fe_log s) @ kept) - 500) (fd_recent (fe_log s) @ kept) \<and>
    ft_accept_rate (feed_stats_of s') =
      (if 0 < fd_total (fe_log s) + counted
       then PFloat (fl (of_int (fd_accepted (fe_log s) + accepted) / of_int (fd_total (fe_log s) + counted))) else PInt 0)"
proof -
  have m: "length rs = length is" "fe_parts s' \<noteq> None" "moved rs (fe_log s) (fe_log s')"
    using feed_moves [of "is" s C] assms(4,5) by simp_all
  have "(\<lambda>r. \<not> passed_on r) = (\<lambda>r. r = None \<or> answered ''REJECT'' r)" "passed_on = (\<lambda>r. r \<noteq> None \<and> \<not> answered ''REJECT'' r)"
    by (auto simp: passed_on_def answered_def fun_eq_iff split: option.splits)
  with m buffered_last [OF assms(6), of rs] show ?thesis
    by (simp add: moved_def figures_def how_many_def feed_stats_of_def Let_def accepted_def counted_def kept_def)
qed

section \<open>Witnesses\<close>

definition sample_start :: feed_start where
  "sample_start = \<lparr>fs_rows = Inr 100, fs_keys = sample_keys, fs_thresholds = None, fs_reset_now = 1000, fs_session_now = 1001,
     fs_start_now = 1001\<rparr>"

definition sample_feed_inputs :: feed_inputs where
  "sample_feed_inputs = \<lparr>fi_packet = sample_packet_inputs, fi_relay_now = 1000, fi_delivery = sample_delivery, fi_event_stamp = [],
     fi_result_stamp = [], fi_audit_stamp = [], fi_key_clock = 1002, fi_forged = replicate 64 0\<rparr>"

definition sample_feed_filter :: anomaly_filter where
  "sample_feed_filter = \<lparr>af_node_id = ''relay_01'', af_thresholds = PDict [], af_last_values = Map.empty, af_checked = 0,
     af_flagged = 0, af_rejected = 0\<rparr>"

lemma sample_feed_filter: "anomaly_init ''relay_01'' None = Inr sample_feed_filter"
  by (simp add: anomaly_init_def load_thresholds_def sample_feed_filter_def Let_def)

lemma sample_feed_good: "\<forall>i\<in>set [sample_feed_inputs]. good_inputs (fi_packet i) (pi_frame (fi_packet i))"
  using sample_good by (simp add: sample_feed_inputs_def sample_packet_inputs_def)

lemma sample_filter_run:
  "filter_run 0 (map fi_packet [sample_feed_inputs]) sample_feed_filter = [Some (PInt 1, ''ACCEPT'', ''all_checks_passed'')]"
proof -
  obtain p where p: "build_payload sample_telemetry = Inr p" "json_loads p = Inr (PDict sample_json)" by (rule sample_json_text)
  then have view: "frame_view sample_packet_inputs = filter_view (PDict sample_json) ''mercedes'' CAR_NODE"
    by (simp add: frame_view_def frame_payload_def sample_packet_inputs_def)
  have "fst (anomaly_check (filter_view (PDict sample_json) ''mercedes'' CAR_NODE) sample_feed_filter) = Inr new_anomaly"
    by (simp add: anomaly_check_def filter_view_def an_payload_def an_node_def get_thresholds_def get_key_def
        sample_feed_filter_def dict_get_or_def dict_get_def CHANNELS_def check_channel_def sample_json_def
        physical_check_def PHYSICAL_LIMITS_def out_of_bounds_def py_or_def last_values_def dict_has_def dict_item_def
        py_lt_def py_gt_def py_cmp_def threshold_check_def roc_check_def report_def)
  then obtain f where "anomaly_check (frame_view sample_packet_inputs) sample_feed_filter = (Inr new_anomaly, f)"
    unfolding view by (metis prod.collapse)
  then show ?thesis
    by (simp add: sample_feed_inputs_def filter_answer_def new_anomaly_def is_rejected_def is_flagged_def)
qed

lemma sample_feed_world:
  "sim_world demo_pyca (fs_keys sample_start)" "fs_rows sample_start = Inr 100"
  "anomaly_init ''relay_01'' (fs_thresholds sample_start) = Inr sample_feed_filter" "length [sample_feed_inputs] < 2 ^ 64"
  using sample_world sample_feed_filter by (simp_all add: sample_start_def)

theorem feed_refines_filter_witness:
  "\<exists>s0 rs s'. initialise demo_pyca sample_start ''mercedes'' ''R'' = (Inr (), s0) \<and>
     feed_all demo_pyca [sample_feed_inputs] s0 = (rs, s') \<and>
     map (map_option answer_of) rs = [Some (PInt 1, ''ACCEPT'', ''all_checks_passed'')] \<and> pipeline_status s' = ''ACTIVE''"
  using feed_refines_filter [OF sample_feed_world(1-3) sample_feed_good sample_feed_world(4)]
  unfolding sample_filter_run .

theorem feed_accounts_witness:
  "\<exists>s0 rs s'. initialise demo_pyca sample_start ''mercedes'' ''R'' = (Inr (), s0) \<and>
     feed_all demo_pyca [sample_feed_inputs] s0 = (rs, s') \<and> length rs = 1 \<and>
     ft_accept_rate (feed_stats_of s') = PFloat (FFin 1)"
proof -
  note world = sample_feed_world(1-3) sample_feed_good sample_feed_world(4)
  obtain s0 rs s' f1 where run: "initialise demo_pyca sample_start ''mercedes'' ''R'' = (Inr (), s0)"
      "feed_all demo_pyca [sample_feed_inputs] s0 = (rs, s')"
      "map (map_option answer_of) rs = filter_run 0 (map fi_packet [sample_feed_inputs]) sample_feed_filter"
    using world by (rule feed_runs)
  from run(3) have "map (map_option answer_of) rs = [Some (PInt 1, ''ACCEPT'', ''all_checks_passed'')]"
    unfolding sample_filter_run .
  then obtain x where x: "rs = [Some x]" "fr_decision x = ''ACCEPT''" by (auto simp: answer_of_def map_eq_Cons_conv)
  have s0: "fe_parts s0 \<noteq> None" "fd_recent (fe_log s0) = []" "fd_total (fe_log s0) = 0" "fd_accepted (fe_log s0) = 0"
    using run(1) by (auto simp: initialise_def reset_log_def Let_def split: sum.splits)
  from feed_accounts [OF run(2) s0(1)] s0 x run(1,2) show ?thesis
    using fl_of_int [of 1] by (auto simp: answered_def)
qed

theorem injected_replay_unseen_witness:
  "\<exists>s0 rs s1 r s2. initialise demo_pyca sample_start ''mercedes'' ''R'' = (Inr (), s0) \<and>
     feed_all demo_pyca [sample_feed_inputs] s0 = (rs, s1) \<and>
     inject_attack demo_pyca ''replay'' sample_feed_inputs s1 = (Inr (Some r), s2) \<and> fr_reason r = ''integrity_failed'' \<and>
     th_events (snd (ingest [] (Some r) panel_reset)) = []"
proof -
  note world = sample_feed_world(1-3) sample_feed_good sample_feed_world(4)
  obtain s0 rs s1 f1 where run: "initialise demo_pyca sample_start ''mercedes'' ''R'' = (Inr (), s0)"
      "feed_all demo_pyca [sample_feed_inputs] s0 = (rs, s1)"
      "map (map_option answer_of) rs = filter_run 0 (map fi_packet [sample_feed_inputs]) sample_feed_filter"
    using world by (rule feed_runs)
  from run(3) have "map (map_option answer_of) rs = [Some (PInt 1, ''ACCEPT'', ''all_checks_passed'')]"
    unfolding sample_filter_run .
  then obtain x where "rs = [Some x]" "fr_decision x = ''ACCEPT''" by (auto simp: answer_of_def map_eq_Cons_conv)
  then have "\<not> (\<forall>r\<in>set rs. \<not> passed_on r)" by (simp add: passed_on_def)
  with injected_replay_unseen [OF world, of sample_feed_inputs] run(1,2)
  obtain r s2 where "inject_attack demo_pyca ''replay'' sample_feed_inputs s1 = (Inr (Some r), s2)" "fr_reason r = ''integrity_failed''"
      "th_events (snd (ingest [] (Some r) panel_reset)) = th_events panel_reset"
    by (auto split: prod.splits)
  then show ?thesis using run(1,2) by (auto simp: panel_reset_def)
qed

end
