(* ===== verification/AuditView.thy ===== *)
theory AuditView
  imports PyText
begin

text \<open>
  \<open>dashboard/components/audit_log_view.py\<close>: the dashboard's log of audit events, with its counters,
  filters, alert and CSV export. The lemmas give the state as a function of all events ingested; the
  counters count all of them, the buffer holds the last ones only.
\<close>

section \<open>State\<close>

record audit_view =
  av_max_events :: int
  av_events :: "pydict list"
  av_accept :: int
  av_reject :: int
  av_flag :: int
  av_reasons :: "(pyval \<times> int) list"

definition view_init :: "int \<Rightarrow> audit_view" where
  "view_init max_events = \<lparr>av_max_events = max_events, av_events = [], av_accept = 0, av_reject = 0, av_flag = 0, av_reasons = []\<rparr>"

definition view_reset :: "audit_view \<Rightarrow> audit_view" where
  "view_reset v = v\<lparr>av_events := [], av_accept := 0, av_reject := 0, av_flag := 0, av_reasons := []\<rparr>"

text \<open>The decision as an event is counted, and as the filters compare it.\<close>

definition event_decision :: "pydict \<Rightarrow> pyval" where
  "event_decision e = dict_get_or e ''decision'' (PStr ''ACCEPT'')"

definition reject_reason :: "pydict \<Rightarrow> pyval" where
  "reject_reason e = dict_get_or e ''reason'' (PStr ''unknown'')"

definition count_reason :: "pyval \<Rightarrow> (pyval \<times> int) list \<Rightarrow> (pyval \<times> int) list" where
  "count_reason r m = AList.update (norm_key r) ((case map_of m (norm_key r) of Some n \<Rightarrow> n | None \<Rightarrow> 0) + 1) m"

text \<open>A rejection whose reason cannot be a key raises after it was stored and counted.\<close>

definition ingest_event :: "pydict \<Rightarrow> audit_view \<Rightarrow> unit res \<times> audit_view" where
  "ingest_event e v =
     (let v1 = v\<lparr>av_events := push_last (nat (av_max_events v)) e (av_events v)\<rparr>
      in if event_decision e = PStr ''ACCEPT'' then (Inr (), v1\<lparr>av_accept := av_accept v1 + 1\<rparr>)
         else if event_decision e = PStr ''REJECT'' then
           let v2 = v1\<lparr>av_reject := av_reject v1 + 1\<rparr>
           in if hashable (reject_reason e) then (Inr (), v2\<lparr>av_reasons := count_reason (reject_reason e) (av_reasons v2)\<rparr>)
              else (Inl TypeErr, v2)
         else if event_decision e = PStr ''FLAG'' then (Inr (), v1\<lparr>av_flag := av_flag v1 + 1\<rparr>)
         else (Inr (), v1))"

fun view_batch :: "pydict list \<Rightarrow> audit_view \<Rightarrow> unit res \<times> audit_view" where
  "view_batch [] v = (Inr (), v)"
| "view_batch (e # es) v =
     (case ingest_event e v of (Inl x, v') \<Rightarrow> (Inl x, v') | (Inr _, v') \<Rightarrow> view_batch es v')"

section \<open>Queries\<close>

text \<open>A filter that is \<open>None\<close> or the empty string selects everything.\<close>

definition select_by :: "string \<Rightarrow> string option \<Rightarrow> pydict list \<Rightarrow> pydict list" where
  "select_by key want es =
     (case want of None \<Rightarrow> es | Some w \<Rightarrow> if w = [] then es else filter (\<lambda>e. dict_get e key = PStr w) es)"

definition view_events :: "string option \<Rightarrow> string option \<Rightarrow> int \<Rightarrow> bool \<Rightarrow> audit_view \<Rightarrow> pydict list" where
  "view_events decision team limit ascending v =
     (let es = select_by ''team'' team (select_by ''decision'' decision (av_events v))
      in slice_to limit (if ascending then es else rev es))"

definition recent_rejects :: "int \<Rightarrow> audit_view \<Rightarrow> pydict list" where
  "recent_rejects limit v = view_events (Some ''REJECT'') None limit False v"

record view_stats =
  vs_total :: nat
  vs_accepted :: int
  vs_rejected :: int
  vs_flagged :: int
  vs_accept_rate :: pyval
  vs_reject_rate :: pyval
  vs_reasons :: "(pyval \<times> int) list"

definition view_rate :: "int \<Rightarrow> nat \<Rightarrow> pyval" where
  "view_rate n len = (if 0 < len then PFloat (py_round 4 (fl (of_int n / of_nat len))) else PInt 0)"

definition view_stats_of :: "audit_view \<Rightarrow> view_stats" where
  "view_stats_of v =
     (let len = length (av_events v)
      in \<lparr>vs_total = len, vs_accepted = av_accept v, vs_rejected = av_reject v, vs_flagged = av_flag v,
          vs_accept_rate = view_rate (av_accept v) len, vs_reject_rate = view_rate (av_reject v) len,
          vs_reasons = av_reasons v\<rparr>)"

definition is_reject :: "pydict \<Rightarrow> bool" where
  "is_reject e = (dict_get e ''decision'' = PStr ''REJECT'')"

definition suspicious_pattern :: "audit_view \<Rightarrow> bool" where
  "suspicious_pattern v =
     (let recent = slice_from_neg 10 (av_events v)
      in if length recent < 3 then False else 3 \<le> length (takeWhile is_reject (rev recent)))"

definition csv_line :: "pydict \<Rightarrow> string" where
  "csv_line e = join '','' (map (\<lambda>k. py_str (dict_get_or e k (PStr [])))
     [''timestamp'', ''decision'', ''sequence_no'', ''node_id'', ''team'', ''session'', ''reason''])"

definition export_csv :: "audit_view \<Rightarrow> string" where
  "export_csv v = join [CHR 0x0A] (''timestamp,decision,sequence_no,node_id,team,session,reason'' # map csv_line (av_events v))"

section \<open>The state as a function of the events\<close>

definition ingest_events :: "pydict list \<Rightarrow> audit_view \<Rightarrow> audit_view" where
  "ingest_events es v = fold (\<lambda>e v. snd (ingest_event e v)) es v"

definition decided :: "string \<Rightarrow> pydict list \<Rightarrow> int" where
  "decided d es = int (length (filter (\<lambda>e. event_decision e = PStr d) es))"

definition rejected_for :: "pyval \<Rightarrow> pydict list \<Rightarrow> int" where
  "rejected_for k es = int (length (filter (\<lambda>e. event_decision e = PStr ''REJECT'' \<and> hashable (reject_reason e) \<and>
     norm_key (reject_reason e) = k) es))"

definition reason_count :: "audit_view \<Rightarrow> pyval \<Rightarrow> int" where
  "reason_count v k = (case map_of (av_reasons v) k of Some n \<Rightarrow> n | None \<Rightarrow> 0)"

lemma ingest_events_snoc: "ingest_events (es @ [e]) v = snd (ingest_event e (ingest_events es v))"
  by (simp add: ingest_events_def)

lemma ingest_event_effect:
  "av_max_events (snd (ingest_event e v)) = av_max_events v"
  "av_events (snd (ingest_event e v)) = push_last (nat (av_max_events v)) e (av_events v)"
  "av_accept (snd (ingest_event e v)) = av_accept v + (if event_decision e = PStr ''ACCEPT'' then 1 else 0)"
  "av_reject (snd (ingest_event e v)) = av_reject v + (if event_decision e = PStr ''REJECT'' then 1 else 0)"
  "av_flag (snd (ingest_event e v)) = av_flag v + (if event_decision e = PStr ''FLAG'' then 1 else 0)"
  "reason_count (snd (ingest_event e v)) k = reason_count v k +
     (if event_decision e = PStr ''REJECT'' \<and> hashable (reject_reason e) \<and> norm_key (reject_reason e) = k then 1 else 0)"
  by (simp_all add: ingest_event_def Let_def reason_count_def count_reason_def update_conv')

lemma decided_snoc: "decided d (es @ [e]) = decided d es + (if event_decision e = PStr d then 1 else 0)"
  by (simp add: decided_def)

lemma rejected_for_snoc: "rejected_for k (es @ [e]) = rejected_for k es +
     (if event_decision e = PStr ''REJECT'' \<and> hashable (reject_reason e) \<and> norm_key (reject_reason e) = k then 1 else 0)"
  by (simp add: rejected_for_def)

lemma ingest_events_state:
  "av_max_events (ingest_events es (view_init m)) = m \<and>
   av_events (ingest_events es (view_init m)) = drop (length es - nat m) es \<and>
   av_accept (ingest_events es (view_init m)) = decided ''ACCEPT'' es \<and>
   av_reject (ingest_events es (view_init m)) = decided ''REJECT'' es \<and>
   av_flag (ingest_events es (view_init m)) = decided ''FLAG'' es \<and>
   reason_count (ingest_events es (view_init m)) k = rejected_for k es"
proof (induction es rule: rev_induct)
  case Nil
  then show ?case by (simp add: ingest_events_def view_init_def decided_def rejected_for_def reason_count_def)
next
  case (snoc e es)
  then show ?case
    by (simp add: ingest_events_snoc ingest_event_effect decided_snoc rejected_for_snoc push_last_suffix del: length_append)
qed

lemma three_at_end: "3 \<le> length (takeWhile P (rev xs)) \<longleftrightarrow> 3 \<le> length xs \<and> (\<forall>x\<in>set (drop (length xs - 3) xs). P x)"
proof -
  have *: "n \<le> length (takeWhile P ys) \<longleftrightarrow> n \<le> length ys \<and> (\<forall>y\<in>set (take n ys). P y)" for n and ys
  proof (induction ys arbitrary: n)
    case (Cons y ys)
    then show ?case by (cases n) auto
  qed simp
  have "set (take 3 (rev xs)) = set (drop (length xs - 3) xs)" by (simp add: take_rev)
  then show ?thesis using * [of 3 "rev xs"] by simp
qed

lemma last_three_of_ten:
  assumes "3 \<le> m"
  shows "drop (length (slice_from_neg 10 (drop (length es - m) es)) - 3) (slice_from_neg 10 (drop (length es - m) es)) =
      drop (length es - 3) es"
    and "length (slice_from_neg 10 (drop (length es - m) es)) < 3 \<longleftrightarrow> length es < 3"
  using assms by (simp_all add: slice_from_neg_def) (arith | (rule arg_cong [of _ _ "\<lambda>n. drop n es"], arith))+

text \<open>The view accounts for every event it was given: the buffer is the last \<open>max_events\<close> of them, while
  the counters of acceptances, rejections, flags and of every rejection reason count all of them; the
  alert is on exactly when the last three events of all were rejections; a filtered listing returns at
  most \<open>limit\<close> events, all of the buffer and all with the decision and team asked for.\<close>

theorem audit_view_accounts:
  fixes es :: "pydict list"
  assumes "3 \<le> m" and "0 \<le> limit"
  defines "v \<equiv> ingest_events es (view_init m)"
  shows "av_events v = drop (length es - nat m) es \<and>
    av_accept v = decided ''ACCEPT'' es \<and> av_reject v = decided ''REJECT'' es \<and> av_flag v = decided ''FLAG'' es \<and>
    reason_count v k = rejected_for k es \<and>
    (suspicious_pattern v \<longleftrightarrow> 3 \<le> length es \<and> (\<forall>e\<in>set (drop (length es - 3) es). is_reject e)) \<and>
    int (length (view_events decision team limit asc v)) \<le> limit \<and>
      (\<forall>e\<in>set (view_events decision team limit asc v). e \<in> set (av_events v) \<and>
         (\<forall>d. decision = Some d \<and> d \<noteq> [] \<longrightarrow> dict_get e ''decision'' = PStr d) \<and>
         (\<forall>t. team = Some t \<and> t \<noteq> [] \<longrightarrow> dict_get e ''team'' = PStr t))"
proof -
  note st = ingest_events_state [of es m k, folded v_def]
  have "3 \<le> nat m" using assms(1) by simp
  from last_three_of_ten [OF this, of es]
  have sus: "suspicious_pattern v \<longleftrightarrow> 3 \<le> length es \<and> (\<forall>e\<in>set (drop (length es - 3) es). is_reject e)"
    by (auto simp add: suspicious_pattern_def st Let_def three_at_end not_less)
  let ?s = "view_events decision team limit asc v"
  have sub: "set ?s \<subseteq> set (select_by ''team'' team (select_by ''decision'' decision (av_events v)))"
    by (auto simp: view_events_def Let_def dest!: subsetD [OF set_slice_to])
  have "int (length ?s) \<le> limit" using assms(2) by (simp add: view_events_def Let_def length_slice_to)
  moreover have mem: "e \<in> set (av_events v) \<and> (\<forall>d. decision = Some d \<and> d \<noteq> [] \<longrightarrow> dict_get e ''decision'' = PStr d) \<and>
      (\<forall>t. team = Some t \<and> t \<noteq> [] \<longrightarrow> dict_get e ''team'' = PStr t)" if "e \<in> set ?s" for e
    using subsetD [OF sub that] by (auto simp: select_by_def split: option.splits if_splits)
  ultimately show ?thesis using st sus by blast
qed

definition sample_reject :: pydict where
  "sample_reject = [(''decision'', PStr ''REJECT''), (''reason'', PStr ''sig_failed''), (''team'', PStr ''mercedes'')]"

theorem audit_view_accounts_witness:
  "av_reject (ingest_events (replicate 4 sample_reject) (view_init 3)) = 4 \<and>
   suspicious_pattern (ingest_events (replicate 4 sample_reject) (view_init 3))"
  using audit_view_accounts [of 3 1 "replicate 4 sample_reject" PNone None None False]
  by (simp add: decided_def event_decision_def is_reject_def sample_reject_def dict_get_def dict_get_or_def numeral_eq_Suc)

text \<open>
  The rates divide the counters of all events by the length of the buffer, so that they leave the
  interval from 0 to 1 once events were dropped: after twice as many acceptances as the buffer holds,
  the acceptance rate is 2.
\<close>

lemma accept_rate_exceeds_one:
  assumes "0 < m"
  shows "vs_accept_rate (view_stats_of (ingest_events (replicate (2 * m) []) (view_init (int m)))) = PFloat (FFin 2)"
proof -
  have "decided ''ACCEPT'' (replicate (2 * m) []) = int (2 * m)" by (simp add: decided_def event_decision_def dict_get_or_def)
  moreover have "(of_int (int (2 * m)) :: rat) / of_nat m = 2" using assms by simp
  moreover have "fl 2 = FFin 2" using fl_of_int [of 2] by simp
  moreover have "round_half_even 20000 = 20000" using round_half_even_int [of 20000] by simp
  ultimately show ?thesis using assms ingest_events_state [of "replicate (2 * m) []" "int m" PNone]
    by (simp add: view_stats_of_def view_rate_def Let_def)
qed

end
