(* ===== verification/KeyRotationView.thy ===== *)
theory KeyRotationView
  imports PyText FloatOrder
begin

text \<open>
  \<open>dashboard/components/key_rotation_view.py\<close>: the dashboard's tracker of the session keys of the two
  legs, their age and packets, and the rotations it simulates. The clock, the new keys and the time
  stamps of a rotation are arguments. The lemmas bound age and packets after every update and account
  for the rotations.
\<close>

section \<open>State\<close>

definition arrow :: string where "arrow = [CHR 0xE2, CHR 0x86, CHR 0x92]"
definition CAR_LEG :: string where "CAR_LEG = ''car'' @ arrow @ ''relay''"
definition VAL_LEG :: string where "VAL_LEG = ''relay'' @ arrow @ ''validator''"

definition MAX_AGE_S :: pyfloat where "MAX_AGE_S = FFin 300"
definition MAX_PACKETS :: int where "MAX_PACKETS = 10000"

datatype rotation_cause = REASON_AGE | REASON_COUNT | REASON_FORCE

record view_rotation =
  vn_leg :: string
  vn_reason :: rotation_cause
  vn_old_age :: pyfloat
  vn_old_count :: int
  vn_new_key_hint :: string
  vn_timestamp :: string

record leg =
  lg_key_hint :: string
  lg_age :: pyfloat
  lg_packets :: int
  lg_rotations :: int
  lg_start :: clock
  lg_last :: "string option"

record rotation_view =
  rv_events :: "view_rotation list"
  rv_car :: leg
  rv_val :: leg
  rv_total :: int

text \<open>The dash that stands for no key.\<close>

definition new_leg :: "clock \<Rightarrow> leg" where
  "new_leg now = \<lparr>lg_key_hint = [CHR 0xE2, CHR 0x80, CHR 0x94], lg_age = FFin 0, lg_packets = 0, lg_rotations = 0,
     lg_start = now, lg_last = None\<rparr>"

text \<open>The clock is read once per leg.\<close>

definition rotation_view_reset :: "clock \<Rightarrow> clock \<Rightarrow> rotation_view" where
  "rotation_view_reset t t' = \<lparr>rv_events = [], rv_car = new_leg t, rv_val = new_leg t', rv_total = 0\<rparr>"

definition register_keys :: "string \<Rightarrow> string \<Rightarrow> clock \<Rightarrow> clock \<Rightarrow> rotation_view \<Rightarrow> rotation_view" where
  "register_keys car_hex val_hex t t' v =
     v\<lparr>rv_car := (rv_car v)\<lparr>lg_key_hint := take 16 car_hex, lg_start := t\<rparr>,
       rv_val := (rv_val v)\<lparr>lg_key_hint := take 16 val_hex, lg_start := t'\<rparr>\<rparr>"

section \<open>Rotation\<close>

text \<open>What a rotation takes: the new key, the clock, and the stamps of the event and of the leg.\<close>

record rotation_inputs =
  ri_key :: bytes
  ri_now :: clock
  ri_stamp :: string
  ri_leg_stamp :: string

definition rotated_leg :: "rotation_inputs \<Rightarrow> leg \<Rightarrow> leg" where
  "rotated_leg i g =
     g\<lparr>lg_key_hint := take 16 (to_hex (ri_key i)), lg_age := FFin 0, lg_packets := 0, lg_rotations := lg_rotations g + 1,
       lg_start := ri_now i, lg_last := Some (ri_leg_stamp i)\<rparr>"

definition rotation_event_of :: "string \<Rightarrow> rotation_cause \<Rightarrow> rotation_inputs \<Rightarrow> leg \<Rightarrow> view_rotation" where
  "rotation_event_of name reason i g =
     \<lparr>vn_leg = name, vn_reason = reason, vn_old_age = lg_age g, vn_old_count = lg_packets g,
      vn_new_key_hint = take 16 (to_hex (ri_key i)), vn_timestamp = ri_stamp i\<rparr>"

text \<open>A leg is given with how it is read from the view and put back.\<close>

datatype which_leg = CarLeg | ValLeg

fun leg_of :: "which_leg \<Rightarrow> rotation_view \<Rightarrow> leg" where
  "leg_of CarLeg v = rv_car v"
| "leg_of ValLeg v = rv_val v"

fun put_leg :: "which_leg \<Rightarrow> leg \<Rightarrow> rotation_view \<Rightarrow> rotation_view" where
  "put_leg CarLeg g v = v\<lparr>rv_car := g\<rparr>"
| "put_leg ValLeg g v = v\<lparr>rv_val := g\<rparr>"

fun leg_name :: "which_leg \<Rightarrow> string" where
  "leg_name CarLeg = CAR_LEG"
| "leg_name ValLeg = VAL_LEG"

definition rotate :: "which_leg \<Rightarrow> rotation_cause \<Rightarrow> rotation_inputs \<Rightarrow> rotation_view \<Rightarrow> rotation_view" where
  "rotate l reason i v =
     (put_leg l (rotated_leg i (leg_of l v)) v)
       \<lparr>rv_events := push_last 100 (rotation_event_of (leg_name l) reason i (leg_of l v)) (rv_events v),
        rv_total := rv_total v + 1\<rparr>"

definition rotation_due :: "leg \<Rightarrow> rotation_cause option" where
  "rotation_due g =
     (if fle MAX_AGE_S (lg_age g) then Some REASON_AGE else if MAX_PACKETS \<le> lg_packets g then Some REASON_COUNT else None)"

definition check_rotation :: "which_leg \<Rightarrow> rotation_inputs \<Rightarrow> rotation_view \<Rightarrow> rotation_view" where
  "check_rotation l i v = (case rotation_due (leg_of l v) of None \<Rightarrow> v | Some reason \<Rightarrow> rotate l reason i v)"

definition update_leg :: "clock \<Rightarrow> int \<Rightarrow> leg \<Rightarrow> leg" where
  "update_leg now packets g = g\<lparr>lg_packets := packets, lg_age := elapsed now (lg_start g)\<rparr>"

definition tick :: "clock \<Rightarrow> int \<Rightarrow> int \<Rightarrow> rotation_inputs \<Rightarrow> rotation_inputs \<Rightarrow> rotation_view \<Rightarrow> rotation_view" where
  "tick now car_packets val_packets i i' v =
     (let v1 = put_leg CarLeg (update_leg now car_packets (leg_of CarLeg v)) v;
          v2 = put_leg ValLeg (update_leg now val_packets (leg_of ValLeg v1)) v1
      in check_rotation ValLeg i' (check_rotation CarLeg i v2))"

definition force_rotation :: "string \<Rightarrow> rotation_inputs \<Rightarrow> rotation_inputs \<Rightarrow> rotation_view \<Rightarrow> rotation_view" where
  "force_rotation l i i' v =
     (let v1 = (if l = CAR_LEG \<or> l = ''both'' then rotate CarLeg REASON_FORCE i v else v)
      in if l = VAL_LEG \<or> l = ''both'' then rotate ValLeg REASON_FORCE i' v1 else v1)"

section \<open>Getters\<close>

definition age_progress :: "leg \<Rightarrow> pyfloat" where
  "age_progress g =
     fmax (fmin (fdiv_pos (lg_age g) 300) (FFin 1)) (fmin (fl (of_int (lg_packets g) / of_int MAX_PACKETS)) (FFin 1))"

definition car_age_progress :: "rotation_view \<Rightarrow> pyfloat" where "car_age_progress v = age_progress (rv_car v)"
definition val_age_progress :: "rotation_view \<Rightarrow> pyfloat" where "val_age_progress v = age_progress (rv_val v)"

definition time_to_next_rotation :: "string \<Rightarrow> rotation_view \<Rightarrow> pyval" where
  "time_to_next_rotation l v =
     (let left = fsub MAX_AGE_S (lg_age (if l = ''car'' then rv_car v else rv_val v))
      in if fless (FFin 0) left then PFloat left else PInt 0)"

text \<open>\<open>to_dict\<close> rounds the age.\<close>

definition view_rotations :: "int \<Rightarrow> rotation_view \<Rightarrow> view_rotation list" where
  "view_rotations limit v = map (\<lambda>e. e\<lparr>vn_old_age := py_round 1 (vn_old_age e)\<rparr>) (slice_from_neg limit (rv_events v))"

record rotation_summary =
  rvs_total_rotations :: int
  rvs_car_rotations :: int
  rvs_val_rotations :: int
  rvs_car_age :: pyfloat
  rvs_val_age :: pyfloat
  rvs_car_packets :: int
  rvs_val_packets :: int
  rvs_car_hint :: string
  rvs_val_hint :: string
  rvs_forward_secrecy :: bool

definition rotation_summary_of :: "rotation_view \<Rightarrow> rotation_summary" where
  "rotation_summary_of v =
     \<lparr>rvs_total_rotations = rv_total v, rvs_car_rotations = lg_rotations (rv_car v), rvs_val_rotations = lg_rotations (rv_val v),
      rvs_car_age = py_round 1 (lg_age (rv_car v)), rvs_val_age = py_round 1 (lg_age (rv_val v)),
      rvs_car_packets = lg_packets (rv_car v), rvs_val_packets = lg_packets (rv_val v),
      rvs_car_hint = lg_key_hint (rv_car v), rvs_val_hint = lg_key_hint (rv_val v), rvs_forward_secrecy = True\<rparr>"

section \<open>Invariant\<close>

text \<open>The operations a dashboard may call, as steps.\<close>

inductive rotation_view_step :: "rotation_view \<Rightarrow> rotation_view \<Rightarrow> bool" where
  Registered: "rotation_view_step v (register_keys a b t t' v)"
| Ticked: "rotation_view_step v (tick now m n i i' v)"
| Forced: "rotation_view_step v (force_rotation l i i' v)"
| Reset: "rotation_view_step v (rotation_view_reset t t')"

inductive rotation_view_reachable :: "rotation_view \<Rightarrow> bool" where
  Start: "rotation_view_reachable (rotation_view_reset t t')"
| Step: "rotation_view_reachable v \<Longrightarrow> rotation_view_step v v' \<Longrightarrow> rotation_view_reachable v'"

definition rotations_of :: "rotation_view \<Rightarrow> int" where
  "rotations_of v = lg_rotations (rv_car v) + lg_rotations (rv_val v)"

definition rotation_view_inv :: "rotation_view \<Rightarrow> bool" where
  "rotation_view_inv v = (rv_total v = rotations_of v \<and> 0 \<le> rv_total v \<and> int (length (rv_events v)) = min 100 (rv_total v))"

lemma inv_rotate: "rotation_view_inv v \<Longrightarrow> rotation_view_inv (rotate l reason i v)"
  by (cases l) (auto simp: rotation_view_inv_def rotations_of_def rotate_def rotated_leg_def push_last_def Let_def)

lemma inv_check: "rotation_view_inv v \<Longrightarrow> rotation_view_inv (check_rotation l i v)"
  by (simp add: check_rotation_def inv_rotate split: option.split)

lemma inv_update: "rotation_view_inv v \<Longrightarrow> rotation_view_inv (put_leg l (update_leg now n (leg_of l v)) v)"
  by (cases l) (simp_all add: rotation_view_inv_def rotations_of_def update_leg_def)

lemma inv_step: "rotation_view_step v v' \<Longrightarrow> rotation_view_inv v \<Longrightarrow> rotation_view_inv v'"
proof (induction rule: rotation_view_step.induct)
  case (Registered v a b t t')
  then show ?case by (simp add: rotation_view_inv_def rotations_of_def register_keys_def)
next
  case (Ticked v now m n i i')
  then show ?case by (simp only: tick_def Let_def inv_check inv_update)
next
  case (Forced v l i i')
  then show ?case by (simp add: force_rotation_def Let_def inv_rotate)
next
  case (Reset v t t')
  then show ?case by (simp add: rotation_view_inv_def rotations_of_def rotation_view_reset_def new_leg_def)
qed

lemma reachable_inv: "rotation_view_reachable v \<Longrightarrow> rotation_view_inv v"
proof (induction rule: rotation_view_reachable.induct)
  case (Start t t')
  then show ?case by (simp add: rotation_view_inv_def rotations_of_def rotation_view_reset_def new_leg_def)
next
  case (Step v v')
  then show ?case using inv_step by blast
qed

text \<open>No leg leaves a check at or above a limit.\<close>

definition within_limits :: "leg \<Rightarrow> bool" where
  "within_limits g = (\<not> fle MAX_AGE_S (lg_age g) \<and> lg_packets g < MAX_PACKETS)"

lemma check_within: "within_limits (leg_of l (check_rotation l i v))"
  by (cases l) (auto simp: check_rotation_def rotation_due_def rotate_def rotated_leg_def within_limits_def
      MAX_AGE_S_def MAX_PACKETS_def fle_def split: option.split)

lemma check_other: "l \<noteq> l' \<Longrightarrow> leg_of l (check_rotation l' i v) = leg_of l v"
  by (cases l; cases l') (simp_all add: check_rotation_def rotate_def split: option.split)

lemma tick_legs:
  "leg_of CarLeg (tick now m n i i' v) =
     (let g = update_leg now m (rv_car v) in case rotation_due g of None \<Rightarrow> g | Some _ \<Rightarrow> rotated_leg i g)"
  "leg_of ValLeg (tick now m n i i' v) =
     (let g = update_leg now n (rv_val v) in case rotation_due g of None \<Rightarrow> g | Some _ \<Rightarrow> rotated_leg i' g)"
  by (simp_all add: tick_def Let_def check_other check_rotation_def rotate_def split: option.split)

lemma fmin_one: "fle (fmin x (FFin 1)) (FFin 1) \<or> x = FNan"
  by (cases x) (auto simp: fmin_def fle_def)

text \<open>The tracker accounts for its rotations, in every state its operations reach: the total is the sum
  over the legs, and the history holds the last hundred; after an update both legs are below the age
  limit and the packet limit, and a leg was rotated, with age and packets back at zero, exactly when
  it had reached one of them.\<close>

theorem rotation_view_accounts:
  assumes "rotation_view_reachable v"
  shows "rv_total v = lg_rotations (rv_car v) + lg_rotations (rv_val v) \<and> int (length (rv_events v)) = min 100 (rv_total v) \<and>
    (let v' = tick now m n i i' v
     in within_limits (rv_car v') \<and> within_limits (rv_val v') \<and>
        lg_rotations (rv_car v') = lg_rotations (rv_car v) +
          (if fle MAX_AGE_S (elapsed now (lg_start (rv_car v))) \<or> MAX_PACKETS \<le> m then 1 else 0) \<and>
        lg_rotations (rv_val v') = lg_rotations (rv_val v) +
          (if fle MAX_AGE_S (elapsed now (lg_start (rv_val v))) \<or> MAX_PACKETS \<le> n then 1 else 0))"
proof -
  let ?v = "tick now m n i i' v"
  have "within_limits (leg_of CarLeg ?v)" "within_limits (leg_of ValLeg ?v)"
    by (simp_all only: tick_def Let_def check_within check_other which_leg.distinct simp_thms)
  moreover note tick_legs [of now m n i i' v]
  ultimately show ?thesis using reachable_inv [OF assms]
    by (simp add: rotation_view_inv_def rotations_of_def Let_def rotation_due_def update_leg_def rotated_leg_def split: if_splits)
qed

definition sample_rotation :: rotation_inputs where
  "sample_rotation = \<lparr>ri_key = replicate 32 7, ri_now = 400, ri_stamp = [], ri_leg_stamp = []\<rparr>"

theorem rotation_view_accounts_witness:
  "rotation_view_reachable (rotation_view_reset 0 0) \<and>
   lg_rotations (rv_val (tick 400 3 10000 sample_rotation sample_rotation (rotation_view_reset 0 0))) = 1"
proof -
  have r: "rotation_view_reachable (rotation_view_reset 0 0)" by (rule rotation_view_reachable.Start)
  have "lg_rotations (rv_val (rotation_view_reset 0 0)) = 0" by (simp add: rotation_view_reset_def new_leg_def)
  then show ?thesis using r rotation_view_accounts [OF r, of 400 3 10000 sample_rotation sample_rotation]
    by (auto simp: Let_def MAX_PACKETS_def)
qed

end
