(* ===== verification/PolicyLoader.thy ===== *)
theory PolicyLoader
  imports PyVal "HOL-Library.List_Lexorder" "HOL-Library.Char_ord"
begin

text \<open>
  \<open>iam-module/src/policy_loader.py\<close>: policies read from YAML and their evaluation: deny rules first,
  then allow rules, then deny. What \<open>yaml.safe_load\<close> returns for a file is an input; its dicts have
  string keys. Policies are kept as read, so a malformed one raises when it is evaluated. The
  lemmas give the decision of a well-formed policy.
\<close>

section \<open>Policy\<close>

record policy =
  pol_name :: pyval
  pol_allow :: pyval
  pol_deny :: pyval
  pol_constraints :: pyval
  pol_roles :: pyval

text \<open>\<open>v.get(k, default)\<close> on a value that must be a dict, and iteration over a value.\<close>

definition val_get :: "pyval \<Rightarrow> string \<Rightarrow> pyval \<Rightarrow> pyval res" where
  "val_get v k dflt = (case v of PDict d \<Rightarrow> Inr (dict_get_or d k dflt) | _ \<Rightarrow> Inl AttributeErr)"

definition val_iter :: "pyval \<Rightarrow> pyval list res" where
  "val_iter v = (case v of PList xs \<Rightarrow> Inr xs | PDict d \<Rightarrow> Inr (map (PStr \<circ> fst) d)
     | PStr s \<Rightarrow> Inr (map (\<lambda>c. PStr [c]) s) | PBytes b \<Rightarrow> Inr (map (\<lambda>x. PInt (uint x)) b)
     | _ \<Rightarrow> Inl TypeErr)"

definition policy_init :: "pyval \<Rightarrow> pyval \<Rightarrow> policy res" where
  "policy_init name data =
     rbind (rbind (val_get data ''permissions'' (PDict [])) (\<lambda>p. val_get p ''allow'' (PList []))) (\<lambda>al.
     rbind (rbind (val_get data ''permissions'' (PDict [])) (\<lambda>p. val_get p ''deny'' (PList []))) (\<lambda>dn.
     rbind (val_get data ''constraints'' (PDict [])) (\<lambda>cs.
     rbind (val_get data ''roles'' (PList [])) (\<lambda>rs. Inr
       \<lparr>pol_name = name, pol_allow = al, pol_deny = dn, pol_constraints = cs, pol_roles = rs\<rparr>))))"

definition in_strings :: "pyval \<Rightarrow> string list \<Rightarrow> bool" where
  "in_strings v ss = (\<exists>s\<in>set ss. v = PStr s)"

definition rule_matches :: "pyval \<Rightarrow> string \<Rightarrow> string \<Rightarrow> bool res" where
  "rule_matches rule action resource =
     rbind (val_get rule ''action'' (PStr [])) (\<lambda>ra. rbind (val_get rule ''resource'' (PStr [])) (\<lambda>rr.
       Inr (in_strings ra [action, ''*'', ''any''] \<and> in_strings rr [resource, ''*'', ''any''])))"

text \<open>The loop \<open>for rule in rules: if matches: return True\<close>, and the value after it.\<close>

fun any_match :: "pyval list \<Rightarrow> string \<Rightarrow> string \<Rightarrow> bool res" where
  "any_match [] action resource = Inr False"
| "any_match (r # rs) action resource =
     rbind (rule_matches r action resource) (\<lambda>m. if m then Inr True else any_match rs action resource)"

definition is_allowed :: "policy \<Rightarrow> string \<Rightarrow> string \<Rightarrow> bool res" where
  "is_allowed p action resource =
     rbind (rbind (val_iter (pol_deny p)) (\<lambda>rs. any_match rs action resource)) (\<lambda>denied.
       if denied then Inr False
       else rbind (val_iter (pol_allow p)) (\<lambda>rs. any_match rs action resource))"

definition get_constraint :: "policy \<Rightarrow> string \<Rightarrow> pyval \<Rightarrow> pyval res" where
  "get_constraint p k dflt = val_get (pol_constraints p) k dflt"

fun rule_actions :: "pyval list \<Rightarrow> pyval list res" where
  "rule_actions [] = Inr []"
| "rule_actions (r # rs) =
     rbind (val_get r ''action'' (PStr [])) (\<lambda>a. rbind (rule_actions rs) (\<lambda>as. Inr (a # as)))"

definition allowed_actions :: "policy \<Rightarrow> pyval list res" where
  "allowed_actions p = rbind (val_iter (pol_allow p)) rule_actions"

definition denied_actions :: "policy \<Rightarrow> pyval list res" where
  "denied_actions p = rbind (val_iter (pol_deny p)) rule_actions"

section \<open>PolicyLoader\<close>

record policy_loader =
  pl_policies :: "(pyval \<times> policy) list"

definition loader_get :: "policy_loader \<Rightarrow> pyval \<Rightarrow> policy option res" where
  "loader_get l name = (if \<not> hashable name then Inl TypeErr else Inr (map_of (pl_policies l) (norm_key name)))"

text \<open>\<open>s.replace(pat, '')\<close> for a non-empty pattern.\<close>

function remove_all :: "string \<Rightarrow> string \<Rightarrow> string" where
  "remove_all pat s =
     (if s = [] then []
      else if pat \<noteq> [] \<and> take (length pat) s = pat then remove_all pat (drop (length pat) s)
      else hd s # remove_all pat (tl s))"
  by pat_completeness auto
termination
  by (relation "measure (length \<circ> snd)") simp_all

declare remove_all.simps [simp del]

text \<open>
  \<open>_load_file\<close>: the policy is stored before the log message counts its rules, so a policy whose
  rules cannot be counted raises and stays.
\<close>

definition load_file :: "string \<Rightarrow> pyval \<Rightarrow> policy_loader \<Rightarrow> policy res \<times> policy_loader" where
  "load_file filename data l =
     (if \<not> truthy data then (Inl PolicyLoadError, l)
      else case rbind (val_get data ''policy'' (PDict [])) (\<lambda>meta.
                rbind (val_get meta ''name'' (PStr (remove_all ''.yaml'' filename))) (\<lambda>name.
                rbind (policy_init name data) (\<lambda>p. if \<not> hashable name then Inl TypeErr else Inr (name, p)))) of
        Inl e \<Rightarrow> (Inl e, l)
      | Inr (name, p) \<Rightarrow>
          let l1 = l\<lparr>pl_policies := AList.update (norm_key name) p (pl_policies l)\<rparr>
          in (rbind (allowed_actions p) (\<lambda>_. rbind (denied_actions p) (\<lambda>_. Inr p)), l1))"

definition ends_with :: "string \<Rightarrow> string \<Rightarrow> bool" where
  "ends_with suffix s = (length suffix \<le> length s \<and> drop (length s - length suffix) s = suffix)"

text \<open>One file: what opening and parsing it gave, and whatever goes wrong is logged and skipped.\<close>

definition load_one :: "string \<times> pyval res \<Rightarrow> policy_loader \<Rightarrow> policy_loader" where
  "load_one x l =
     (if \<not> ends_with ''.yaml'' (fst x) then l
      else case snd x of Inl _ \<Rightarrow> l | Inr data \<Rightarrow> snd (load_file (fst x) data l))"

text \<open>The files of the directory, sorted by name; \<open>None\<close> when there is no directory.\<close>

definition load_all :: "(string \<times> pyval res) list option \<Rightarrow> policy_loader" where
  "load_all dir =
     (case dir of None \<Rightarrow> \<lparr>pl_policies = []\<rparr>
      | Some files \<Rightarrow> fold load_one (sort_key fst files) \<lparr>pl_policies = []\<rparr>)"

definition role_map :: "string dict" where
  "role_map = [(''car_producer'', ''car_node_policy''), (''relay'', ''relay_node_policy''),
     (''fia_validator'', ''validator_node_policy'')]"

definition get_for_role :: "policy_loader \<Rightarrow> string \<Rightarrow> policy option" where
  "get_for_role l role =
     (case map_of role_map role of None \<Rightarrow> None | Some name \<Rightarrow> map_of (pl_policies l) (PStr name))"

definition is_action_allowed :: "policy_loader \<Rightarrow> pyval \<Rightarrow> string \<Rightarrow> string \<Rightarrow> bool res" where
  "is_action_allowed l name action resource =
     rbind (loader_get l name) (\<lambda>p. case p of None \<Rightarrow> Inr False | Some pol \<Rightarrow> is_allowed pol action resource)"

definition loaded_policies :: "policy_loader \<Rightarrow> pyval list" where
  "loaded_policies l = map fst (pl_policies l)"

section \<open>Properties\<close>

text \<open>A policy as the schema intends it: two lists of rules that are dicts.\<close>

definition wf_policy :: "policy \<Rightarrow> pydict list \<Rightarrow> pydict list \<Rightarrow> bool" where
  "wf_policy p allow deny = (pol_allow p = PList (map PDict allow) \<and> pol_deny p = PList (map PDict deny))"

definition covers :: "pydict \<Rightarrow> string \<Rightarrow> string \<Rightarrow> bool" where
  "covers rule action resource =
     (in_strings (dict_get_or rule ''action'' (PStr [])) [action, ''*'', ''any''] \<and>
      in_strings (dict_get_or rule ''resource'' (PStr [])) [resource, ''*'', ''any''])"

lemma any_match_rules:
  "any_match (map PDict rules) action resource = Inr (\<exists>r\<in>set rules. covers r action resource)"
  by (induction rules) (auto simp: rule_matches_def val_get_def covers_def)

text \<open>Deny wins, and what no rule allows is denied.\<close>

lemma is_allowed_wf:
  assumes "wf_policy p allow deny"
  shows "is_allowed p action resource =
    Inr ((\<exists>r\<in>set allow. covers r action resource) \<and> \<not> (\<exists>r\<in>set deny. covers r action resource))"
  using assms by (auto simp: is_allowed_def wf_policy_def val_iter_def any_match_rules)

text \<open>No evaluation allows what a deny rule covers, even when the allow rules are malformed.\<close>

lemma any_match_True:
  "any_match rs action resource = Inr True \<Longrightarrow> \<exists>d. PDict d \<in> set rs \<and> covers d action resource"
proof (induction rs)
  case (Cons r rs)
  then obtain m where m: "rule_matches r action resource = Inr m" by (auto elim: rbind_InrE)
  show ?case
  proof (cases m)
    case True
    with m obtain d where "r = PDict d" "covers d action resource"
      by (cases r) (auto simp: rule_matches_def val_get_def covers_def)
    then show ?thesis by auto
  next
    case False
    with Cons m obtain d where "PDict d \<in> set rs \<and> covers d action resource" by auto
    then show ?thesis by auto
  qed
qed simp

lemma is_allowed_True:
  assumes "is_allowed p action resource = Inr True"
  obtains rs d where "val_iter (pol_allow p) = Inr rs" and "PDict d \<in> set rs" and "covers d action resource"
    and "\<exists>ds. val_iter (pol_deny p) = Inr ds \<and> any_match ds action resource = Inr False"
  using assms
  by (auto simp: is_allowed_def elim!: rbind_InrE split: if_splits dest!: any_match_True)

section \<open>The promise of a policy\<close>

text \<open>Deny wins and silence denies: a policy whose rules are dicts allows an action on a resource
  exactly when an allow rule covers it and no deny rule does; and no policy at all, however malformed,
  allows anything without an allow rule that covers it, or against a deny rule it could read.\<close>

theorem policy_decides:
  "(wf_policy p allow deny \<longrightarrow> is_allowed p action resource =
     Inr ((\<exists>r\<in>set allow. covers r action resource) \<and> \<not> (\<exists>r\<in>set deny. covers r action resource))) \<and>
   (is_allowed p action resource = Inr True \<longrightarrow>
     (\<exists>rs d. val_iter (pol_allow p) = Inr rs \<and> PDict d \<in> set rs \<and> covers d action resource) \<and>
     (\<exists>ds. val_iter (pol_deny p) = Inr ds \<and> any_match ds action resource = Inr False))"
  using is_allowed_wf [of p allow deny action resource] by (blast elim: is_allowed_True)

definition sample_policy :: policy where
  "sample_policy = \<lparr>pol_name = PStr ''car_node_policy'',
     pol_allow = PList [PDict [(''action'', PStr ''publish''), (''resource'', PStr ''telemetry'')]],
     pol_deny = PList [PDict [(''action'', PStr ''*''), (''resource'', PStr ''audit_log'')]],
     pol_constraints = PDict [], pol_roles = PList []\<rparr>"

theorem policy_decides_witness:
  "is_allowed sample_policy ''publish'' ''telemetry'' = Inr True \<and> is_allowed sample_policy ''publish'' ''audit_log'' = Inr False"
proof -
  have "wf_policy sample_policy [[(''action'', PStr ''publish''), (''resource'', PStr ''telemetry'')]]
     [[(''action'', PStr ''*''), (''resource'', PStr ''audit_log'')]]" by (simp add: wf_policy_def sample_policy_def)
  then show ?thesis
    using policy_decides [of sample_policy "[[(''action'', PStr ''publish''), (''resource'', PStr ''telemetry'')]]"
       "[[(''action'', PStr ''*''), (''resource'', PStr ''audit_log'')]]"]
    by (simp add: covers_def in_strings_def dict_get_or_def)
qed

end
