(* ===== verification/IdentityStore.thy ===== *)
theory IdentityStore
  imports PolicyLoader
begin

text \<open>
  \<open>iam-module/src/identity_store.py\<close>: the registry of node identities. A node is known after it was
  registered or configured, and active until it is deregistered; deregistering keeps the entry. The
  content of \<open>iam.yaml\<close>, as the YAML reader returned it, is an input.
\<close>

record identity =
  id_node_id :: string
  id_role :: pyval
  id_team :: pyval
  id_policy :: pyval
  id_public_key :: "bytes option"
  id_registered_at :: string
  id_active :: bool

definition identity_init :: "string \<Rightarrow> pyval \<Rightarrow> pyval \<Rightarrow> pyval \<Rightarrow> bytes option \<Rightarrow> string \<Rightarrow> identity" where
  "identity_init node role team policy key stamp =
     \<lparr>id_node_id = node, id_role = role, id_team = team, id_policy = policy, id_public_key = key,
      id_registered_at = stamp, id_active = True\<rparr>"

record identity_store =
  st_nodes :: "identity dict"

section \<open>Loading\<close>

text \<open>\<open>cfg.get('iam', {}).get('nodes', {}) or cfg.get('nodes', {})\<close>\<close>

definition config_nodes :: "pyval \<Rightarrow> pyval res" where
  "config_nodes cfg =
     rbind (val_get cfg ''iam'' (PDict [])) (\<lambda>i. rbind (val_get i ''nodes'' (PDict [])) (\<lambda>n.
       if truthy n then Inr n else val_get cfg ''nodes'' (PDict [])))"

fun load_nodes :: "string \<Rightarrow> (string \<times> pyval) list \<Rightarrow> identity_store \<Rightarrow> unit res \<times> identity_store" where
  "load_nodes stamp [] s = (Inr (), s)"
| "load_nodes stamp ((node, c) # rest) s =
     (case rbind (val_get c ''role'' (PStr ''unknown'')) (\<lambda>role. rbind (val_get c ''team'' PNone) (\<lambda>team.
             rbind (val_get c ''policy'' PNone) (\<lambda>pol. Inr (identity_init node role team pol None stamp)))) of
        Inl e \<Rightarrow> (Inl e, s)
      | Inr i \<Rightarrow> load_nodes stamp rest (s\<lparr>st_nodes := dict_set node i (st_nodes s)\<rparr>))"

definition load_from_config :: "string \<Rightarrow> pyval \<Rightarrow> identity_store \<Rightarrow> unit res \<times> identity_store" where
  "load_from_config stamp cfg s =
     (case config_nodes cfg of
        Inl e \<Rightarrow> (Inl e, s)
      | Inr (PDict nodes) \<Rightarrow> load_nodes stamp nodes s
      | Inr _ \<Rightarrow> (Inl AttributeErr, s))"

text \<open>The constructor: \<open>None\<close> when there is no configuration file.\<close>

definition store_init :: "string \<Rightarrow> pyval option \<Rightarrow> identity_store res" where
  "store_init stamp cfg =
     (case cfg of None \<Rightarrow> Inr \<lparr>st_nodes = []\<rparr>
      | Some c \<Rightarrow> (case load_from_config stamp c \<lparr>st_nodes = []\<rparr> of (r, s) \<Rightarrow> rbind r (\<lambda>_. Inr s)))"

section \<open>Registration\<close>

definition store_register ::
  "string \<Rightarrow> string \<Rightarrow> pyval \<Rightarrow> pyval \<Rightarrow> pyval \<Rightarrow> bytes option \<Rightarrow> identity_store \<Rightarrow> identity \<times> identity_store" where
  "store_register stamp node role team policy key s =
     (let i = identity_init node role team policy key stamp
      in (i, s\<lparr>st_nodes := dict_set node i (st_nodes s)\<rparr>))"

definition store_register_key :: "string \<Rightarrow> bytes \<Rightarrow> identity_store \<Rightarrow> unit res \<times> identity_store" where
  "store_register_key node key s =
     (case map_of (st_nodes s) node of
        None \<Rightarrow> (Inl KeyErr, s)
      | Some i \<Rightarrow> (Inr (), s\<lparr>st_nodes := dict_set node (i\<lparr>id_public_key := Some key\<rparr>) (st_nodes s)\<rparr>))"

definition store_deregister :: "string \<Rightarrow> identity_store \<Rightarrow> identity_store" where
  "store_deregister node s =
     (case map_of (st_nodes s) node of
        None \<Rightarrow> s
      | Some i \<Rightarrow> s\<lparr>st_nodes := dict_set node (i\<lparr>id_active := False\<rparr>) (st_nodes s)\<rparr>)"

section \<open>Lookup\<close>

definition store_get :: "identity_store \<Rightarrow> string \<Rightarrow> identity option" where
  "store_get s node = map_of (st_nodes s) node"

definition get_role :: "identity_store \<Rightarrow> string \<Rightarrow> pyval" where
  "get_role s node = (case store_get s node of Some i \<Rightarrow> id_role i | None \<Rightarrow> PNone)"

definition get_policy :: "identity_store \<Rightarrow> string \<Rightarrow> pyval" where
  "get_policy s node = (case store_get s node of Some i \<Rightarrow> id_policy i | None \<Rightarrow> PNone)"

definition store_is_registered :: "identity_store \<Rightarrow> string \<Rightarrow> bool" where
  "store_is_registered s node = (case store_get s node of Some i \<Rightarrow> id_active i | None \<Rightarrow> False)"

definition get_nodes_by_role :: "identity_store \<Rightarrow> string \<Rightarrow> identity list" where
  "get_nodes_by_role s role =
     filter (\<lambda>i. py_eq (id_role i) (PStr role) \<and> id_active i) (map snd (st_nodes s))"

definition get_car_nodes :: "identity_store \<Rightarrow> identity list" where
  "get_car_nodes s = get_nodes_by_role s ''car_producer''"

definition get_relay_nodes :: "identity_store \<Rightarrow> identity list" where
  "get_relay_nodes s = get_nodes_by_role s ''relay''"

definition get_validator_nodes :: "identity_store \<Rightarrow> identity list" where
  "get_validator_nodes s = get_nodes_by_role s ''fia_validator''"

definition active_nodes :: "identity_store \<Rightarrow> identity list" where
  "active_nodes s = filter id_active (map snd (st_nodes s))"

section \<open>Properties\<close>

lemma register_registered [simp]:
  "store_is_registered (snd (store_register stamp node role team pol key s)) n = (n = node \<or> store_is_registered s n)"
  by (simp add: store_register_def store_is_registered_def store_get_def identity_init_def Let_def)

lemma deregister_registered [simp]:
  "store_is_registered (store_deregister node s) n = (n \<noteq> node \<and> store_is_registered s n)"
  by (auto simp: store_deregister_def store_is_registered_def store_get_def split: option.splits)

lemma register_key_registered [simp]:
  "store_is_registered (snd (store_register_key node key s)) n = store_is_registered s n"
  by (auto simp: store_register_key_def store_is_registered_def store_get_def split: option.splits)

text \<open>A key update changes the key only.\<close>

lemma register_key_get:
  "store_register_key node key s = (Inr (), s') \<Longrightarrow>
   store_get s' n = (if n = node then map_option (\<lambda>i. i\<lparr>id_public_key := Some key\<rparr>) (store_get s n) else store_get s n)"
  by (auto simp: store_register_key_def store_get_def split: option.splits)

section \<open>The promise of the store\<close>

text \<open>The registry behaves as a map with an active flag: registering makes exactly that node known and
  active with the given role, policy and key and touches no other; deregistering makes exactly that
  node inactive but keeps its entry; a key update changes only the key of a known node and raises for
  an unknown one.\<close>

theorem identity_store_laws:
  "store_get (snd (store_register stamp node role team pol key s)) n =
     (if n = node then Some (identity_init node role team pol key stamp) else store_get s n) \<and>
   store_is_registered (snd (store_register stamp node role team pol key s)) node \<and>
   store_get (store_deregister node s) n =
     (if n = node then map_option (\<lambda>i. i\<lparr>id_active := False\<rparr>) (store_get s n) else store_get s n) \<and>
   \<not> store_is_registered (store_deregister node s) node \<and>
   store_get (snd (store_register_key node k s)) n =
     (if n = node then map_option (\<lambda>i. i\<lparr>id_public_key := Some k\<rparr>) (store_get s n) else store_get s n) \<and>
   (fst (store_register_key node k s) = Inl KeyErr \<longleftrightarrow> store_get s node = None)"
  by (auto simp: store_register_def store_get_def store_is_registered_def store_deregister_def
      store_register_key_def identity_init_def Let_def split: option.splits)

end
