(* ===== verification/RbacEngine.thy ===== *)
theory RbacEngine
  imports IdentityStore AuditLog
begin

text \<open>
  \<open>iam-module/src/rbac_engine.py\<close> and \<open>access_auditor.py\<close>: the access decision of a node, an action
  and a resource, its enforcement, and the auditor that records decisions and counts consecutive
  denials. The identity store and the policy loader are objects others may change, so they are
  arguments of a check. Both the engine's list of decisions and the auditor's trail are instances
  of \<open>decision_log\<close>.
\<close>

section \<open>Decisions\<close>

datatype access_reason = NodeNotRegistered | PolicyNotFound | PolicyAllow | PolicyDeny

record decision =
  ad_allowed :: bool
  ad_node_id :: string
  ad_action :: string
  ad_resource :: string
  ad_reason :: access_reason
  ad_policy :: pyval
  ad_role :: pyval
  ad_decided_at :: string

record rbac =
  rb_enforcement :: string
  rb_allow :: int
  rb_deny :: int
  rb_decisions :: "decision list"

definition rbac_init :: "string \<Rightarrow> rbac" where
  "rbac_init enforcement = \<lparr>rb_enforcement = enforcement, rb_allow = 0, rb_deny = 0, rb_decisions = []\<rparr>"

definition rbac_record :: "decision \<Rightarrow> rbac \<Rightarrow> rbac" where
  "rbac_record d r =
     (let r1 = r\<lparr>rb_decisions := rb_decisions r @ [d]\<rparr>
      in if ad_allowed d then r1\<lparr>rb_allow := rb_allow r1 + 1\<rparr> else r1\<lparr>rb_deny := rb_deny r1 + 1\<rparr>)"

definition default_policy :: "pyval \<Rightarrow> pyval res" where
  "default_policy role =
     (if \<not> hashable role then Inl TypeErr
      else Inr (PStr (case role of
          PStr s \<Rightarrow> (case map_of role_map s of Some p \<Rightarrow> p | None \<Rightarrow> ''unknown_policy'')
        | _ \<Rightarrow> ''unknown_policy'')))"

definition policy_name_of :: "identity \<Rightarrow> pyval res" where
  "policy_name_of i = (if truthy (id_policy i) then Inr (id_policy i) else default_policy (id_role i))"

text \<open>The decision before it is recorded.\<close>

definition decide ::
  "identity_store \<Rightarrow> policy_loader \<Rightarrow> string \<Rightarrow> string \<Rightarrow> string \<Rightarrow> string \<Rightarrow> decision res" where
  "decide s l stamp node action resource =
     (case (if store_is_registered s node then store_get s node else None) of
        None \<Rightarrow> Inr \<lparr>ad_allowed = False, ad_node_id = node, ad_action = action, ad_resource = resource,
                  ad_reason = NodeNotRegistered, ad_policy = PNone, ad_role = PNone, ad_decided_at = stamp\<rparr>
      | Some i \<Rightarrow>
          rbind (policy_name_of i) (\<lambda>name. rbind (loader_get l name) (\<lambda>p. case p of
            None \<Rightarrow> Inr \<lparr>ad_allowed = False, ad_node_id = node, ad_action = action, ad_resource = resource,
                      ad_reason = PolicyNotFound, ad_policy = name, ad_role = id_role i, ad_decided_at = stamp\<rparr>
          | Some pol \<Rightarrow> rbind (is_allowed pol action resource) (\<lambda>ok. Inr
              \<lparr>ad_allowed = ok, ad_node_id = node, ad_action = action, ad_resource = resource,
               ad_reason = (if ok then PolicyAllow else PolicyDeny), ad_policy = name,
               ad_role = id_role i, ad_decided_at = stamp\<rparr>))))"

definition rbac_check ::
  "identity_store \<Rightarrow> policy_loader \<Rightarrow> string \<Rightarrow> string \<Rightarrow> string \<Rightarrow> string \<Rightarrow> rbac \<Rightarrow> decision res \<times> rbac" where
  "rbac_check s l stamp node action resource r =
     (case decide s l stamp node action resource of
        Inl e \<Rightarrow> (Inl e, r)
      | Inr d \<Rightarrow> (Inr d, rbac_record d r))"

definition rbac_enforce ::
  "identity_store \<Rightarrow> policy_loader \<Rightarrow> string \<Rightarrow> string \<Rightarrow> string \<Rightarrow> string \<Rightarrow> rbac \<Rightarrow> bool res \<times> rbac" where
  "rbac_enforce s l stamp node action resource r =
     (case rbac_check s l stamp node action resource r of
        (Inl e, r') \<Rightarrow> (Inl e, r')
      | (Inr d, r') \<Rightarrow> (if ad_allowed d then (Inr True, r') else (Inl PermissionErr, r')))"

definition get_decisions :: "string option \<Rightarrow> bool option \<Rightarrow> rbac \<Rightarrow> decision list" where
  "get_decisions node allowed r =
     (let ds = (case node of None \<Rightarrow> rb_decisions r | Some n \<Rightarrow> filter (\<lambda>d. ad_node_id d = n) (rb_decisions r))
      in case allowed of None \<Rightarrow> ds | Some a \<Rightarrow> filter (\<lambda>d. ad_allowed d = a) ds)"

fun rb_count :: "rbac \<Rightarrow> bool \<Rightarrow> int" where
  "rb_count r True = rb_allow r"
| "rb_count r False = rb_deny r"

interpretation rbac: decision_log rbac_record rb_decisions ad_allowed rb_count
proof
  fix e s k
  show "rb_decisions (rbac_record e s) = rb_decisions s @ [e]"
    by (simp add: rbac_record_def Let_def)
  show "rb_count (rbac_record e s) k = rb_count s k + (if ad_allowed e = k then 1 else 0)"
    by (cases k) (simp_all add: rbac_record_def Let_def)
qed

section \<open>Properties of the decision\<close>

lemma decide_unregistered:
  "\<not> store_is_registered s node \<Longrightarrow>
   decide s l stamp node action resource = Inr \<lparr>ad_allowed = False, ad_node_id = node, ad_action = action,
     ad_resource = resource, ad_reason = NodeNotRegistered, ad_policy = PNone, ad_role = PNone, ad_decided_at = stamp\<rparr>"
  by (simp add: decide_def)

lemma decide_allowedE:
  assumes "decide s l stamp node action resource = Inr d" and "ad_allowed d"
  obtains i name pol where "store_get s node = Some i" and "id_active i" and "policy_name_of i = Inr name"
    and "map_of (pl_policies l) (norm_key name) = Some pol" and "is_allowed pol action resource = Inr True"
  using assms
  by (auto simp: decide_def store_is_registered_def loader_get_def elim!: rbind_InrE
      split: if_splits option.splits)

section \<open>The access auditor\<close>

definition ALERT_THRESHOLD :: int where "ALERT_THRESHOLD = 3"

record access_event =
  ev_node_id :: string
  ev_action :: string
  ev_resource :: string
  ev_allowed :: bool
  ev_reason :: access_reason
  ev_role :: pyval
  ev_policy :: pyval
  ev_timestamp :: string

record auditor =
  aa_to_file :: bool
  aa_events :: "access_event list"
  aa_lines :: "access_event list"
  aa_consecutive :: "string \<rightharpoonup> int"
  aa_allow :: int
  aa_deny :: int
  aa_alerts :: int

definition auditor_init :: "bool \<Rightarrow> auditor" where
  "auditor_init to_file = \<lparr>aa_to_file = to_file, aa_events = [], aa_lines = [], aa_consecutive = Map.empty,
     aa_allow = 0, aa_deny = 0, aa_alerts = 0\<rparr>"

definition consecutive :: "auditor \<Rightarrow> string \<Rightarrow> int" where
  "consecutive a node = (case aa_consecutive a node of Some n \<Rightarrow> n | None \<Rightarrow> 0)"

text \<open>The locked region of \<open>record\<close>.\<close>

definition record_event :: "access_event \<Rightarrow> auditor \<Rightarrow> auditor" where
  "record_event e a =
     (let a1 = a\<lparr>aa_events := aa_events a @ [e]\<rparr>
      in if ev_allowed e
         then a1\<lparr>aa_allow := aa_allow a1 + 1, aa_consecutive := (aa_consecutive a1)(ev_node_id e \<mapsto> 0)\<rparr>
         else a1\<lparr>aa_deny := aa_deny a1 + 1,
                 aa_consecutive := (aa_consecutive a1)(ev_node_id e \<mapsto> consecutive a1 (ev_node_id e) + 1)\<rparr>)"

definition check_alert :: "access_event \<Rightarrow> auditor \<Rightarrow> auditor" where
  "check_alert e a =
     (if ALERT_THRESHOLD \<le> consecutive a (ev_node_id e) then a\<lparr>aa_alerts := aa_alerts a + 1\<rparr> else a)"

definition auditor_write :: "bool \<Rightarrow> access_event \<Rightarrow> auditor \<Rightarrow> auditor" where
  "auditor_write file_ok e a = (if aa_to_file a \<and> file_ok then a\<lparr>aa_lines := aa_lines a @ [e]\<rparr> else a)"

definition auditor_record :: "bool \<Rightarrow> access_event \<Rightarrow> auditor \<Rightarrow> auditor" where
  "auditor_record file_ok e a = auditor_write file_ok e (check_alert e (record_event e a))"

definition event_of_decision :: "string \<Rightarrow> decision \<Rightarrow> access_event" where
  "event_of_decision stamp d =
     \<lparr>ev_node_id = ad_node_id d, ev_action = ad_action d, ev_resource = ad_resource d,
      ev_allowed = ad_allowed d, ev_reason = ad_reason d, ev_role = ad_role d, ev_policy = ad_policy d,
      ev_timestamp = stamp\<rparr>"

definition record_from_decision :: "bool \<Rightarrow> string \<Rightarrow> decision \<Rightarrow> auditor \<Rightarrow> auditor" where
  "record_from_decision file_ok stamp d a = auditor_record file_ok (event_of_decision stamp d) a"

definition access_events :: "string option \<Rightarrow> bool option \<Rightarrow> int option \<Rightarrow> auditor \<Rightarrow> access_event list" where
  "access_events node allowed limit a =
     (let es1 = (case node of None \<Rightarrow> aa_events a | Some n \<Rightarrow> filter (\<lambda>e. ev_node_id e = n) (aa_events a));
          es2 = (case allowed of None \<Rightarrow> es1 | Some b \<Rightarrow> filter (\<lambda>e. ev_allowed e = b) es1)
      in case limit of None \<Rightarrow> es2 | Some n \<Rightarrow> slice_from_neg n es2)"

definition get_denials :: "string option \<Rightarrow> auditor \<Rightarrow> access_event list" where
  "get_denials node a = access_events node (Some False) None a"

record access_summary =
  su_total :: nat
  su_allowed :: int
  su_denied :: int
  su_alerts :: int

definition access_summary_of :: "auditor \<Rightarrow> access_summary" where
  "access_summary_of a = \<lparr>su_total = length (aa_events a), su_allowed = aa_allow a, su_denied = aa_deny a,
     su_alerts = aa_alerts a\<rparr>"

fun aa_count :: "auditor \<Rightarrow> bool \<Rightarrow> int" where
  "aa_count a True = aa_allow a"
| "aa_count a False = aa_deny a"

lemma auditor_record_simps [simp]:
  "aa_events (auditor_record ok e a) = aa_events a @ [e]"
  "aa_allow (auditor_record ok e a) = aa_allow a + (if ev_allowed e then 1 else 0)"
  "aa_deny (auditor_record ok e a) = aa_deny a + (if ev_allowed e then 0 else 1)"
  "consecutive (auditor_record ok e a) n =
     (if n = ev_node_id e then (if ev_allowed e then 0 else consecutive a n + 1) else consecutive a n)"
  "aa_alerts (auditor_record ok e a) = aa_alerts a +
     (if \<not> ev_allowed e \<and> ALERT_THRESHOLD \<le> consecutive a (ev_node_id e) + 1 then 1 else 0)"
  by (simp_all add: auditor_record_def auditor_write_def check_alert_def record_event_def consecutive_def
      ALERT_THRESHOLD_def Let_def)

interpretation access: decision_log "auditor_record ok" aa_events ev_allowed aa_count for ok
proof
  fix e a k
  show "aa_events (auditor_record ok e a) = aa_events a @ [e]" by simp
  show "aa_count (auditor_record ok e a) k = aa_count a k + (if ev_allowed e = k then 1 else 0)"
    by (cases k) simp_all
qed

text \<open>The denials of a node since its last allowed access.\<close>

definition denial_streak :: "access_event list \<Rightarrow> string \<Rightarrow> nat" where
  "denial_streak es n = length (takeWhile (\<lambda>e. \<not> ev_allowed e) (filter (\<lambda>e. ev_node_id e = n) (rev es)))"

lemma denial_streak_snoc:
  "denial_streak (es @ [e]) n =
     (if ev_node_id e = n then (if ev_allowed e then 0 else Suc (denial_streak es n)) else denial_streak es n)"
  by (simp add: denial_streak_def)

text \<open>The streaks the alerts count: one per denial that makes a streak of three or more.\<close>

fun alerts_of :: "access_event list \<Rightarrow> access_event list \<Rightarrow> nat" where
  "alerts_of seen [] = 0"
| "alerts_of seen (e # es) =
     (if \<not> ev_allowed e \<and> 3 \<le> denial_streak (seen @ [e]) (ev_node_id e) then 1 else 0) + alerts_of (seen @ [e]) es"

lemma auditor_run:
  assumes "\<forall>n. consecutive a n = int (denial_streak (aa_events a) n)"
  shows "consecutive (fold (auditor_record ok) es a) n = int (denial_streak (aa_events a @ es) n)"
    and "aa_alerts (fold (auditor_record ok) es a) = aa_alerts a + int (alerts_of (aa_events a) es)"
proof -
  have "(\<forall>n. consecutive (fold (auditor_record ok) es a) n = int (denial_streak (aa_events a @ es) n)) \<and>
    aa_alerts (fold (auditor_record ok) es a) = aa_alerts a + int (alerts_of (aa_events a) es)"
    using assms
  proof (induction es arbitrary: a)
    case (Cons e es)
    have "\<forall>n. consecutive (auditor_record ok e a) n = int (denial_streak (aa_events (auditor_record ok e a)) n)"
      using Cons.prems by (simp add: denial_streak_snoc)
    from Cons.IH [OF this] Cons.prems show ?case
      by (simp add: denial_streak_snoc ALERT_THRESHOLD_def)
  qed simp
  then show "consecutive (fold (auditor_record ok) es a) n = int (denial_streak (aa_events a @ es) n)"
    and "aa_alerts (fold (auditor_record ok) es a) = aa_alerts a + int (alerts_of (aa_events a) es)"
    by auto
qed

section \<open>The promises of access control\<close>

text \<open>Access is denied by default: whenever a decision allows an action, the node is registered and
  active, the policy its identity names is loaded, and that policy allows the action; a node that was
  never registered, or was deregistered, is denied whatever the policies say.\<close>

theorem access_denied_by_default:
  "(decide s l stamp node action resource = Inr d \<and> ad_allowed d \<longrightarrow>
     (\<exists>i name pol. store_get s node = Some i \<and> id_active i \<and> policy_name_of i = Inr name \<and>
        map_of (pl_policies l) (norm_key name) = Some pol \<and> is_allowed pol action resource = Inr True)) \<and>
   (\<exists>d'. decide (store_deregister node s) l stamp node action resource = Inr d' \<and>
      \<not> ad_allowed d' \<and> ad_reason d' = NodeNotRegistered) \<and>
   (store_get s node = None \<longrightarrow>
      (\<exists>d'. decide s l stamp node action resource = Inr d' \<and> \<not> ad_allowed d'))"
proof -
  have "\<exists>d'. decide (store_deregister node s) l stamp node action resource = Inr d' \<and>
      \<not> ad_allowed d' \<and> ad_reason d' = NodeNotRegistered"
    by (simp add: decide_unregistered)
  moreover have "store_get s node = None \<Longrightarrow> \<exists>d'. decide s l stamp node action resource = Inr d' \<and> \<not> ad_allowed d'"
    using decide_unregistered [of s node l stamp action resource] by (simp add: store_is_registered_def)
  ultimately show ?thesis by (blast elim: decide_allowedE)
qed

definition sample_store :: identity_store where
  "sample_store = \<lparr>st_nodes = [(''car_44'', identity_init ''car_44'' (PStr ''car_producer'') PNone PNone None [])]\<rparr>"

definition sample_loader :: policy_loader where
  "sample_loader = \<lparr>pl_policies = [(PStr ''car_node_policy'', sample_policy)]\<rparr>"

lemma sample_decision:
  "\<exists>d. decide sample_store sample_loader [] ''car_44'' ''publish'' ''telemetry'' = Inr d \<and> ad_allowed d"
  by (simp add: decide_def sample_store_def sample_loader_def store_is_registered_def store_get_def identity_init_def
      policy_name_of_def default_policy_def role_map_def loader_get_def sample_policy_def is_allowed_def val_iter_def
      rule_matches_def val_get_def dict_get_or_def in_strings_def)

theorem access_denied_by_default_witness:
  "(\<exists>pol. map_of (pl_policies sample_loader) (PStr ''car_node_policy'') = Some pol \<and>
      is_allowed pol ''publish'' ''telemetry'' = Inr True) \<and>
   (\<exists>d'. decide (store_deregister ''car_44'' sample_store) sample_loader [] ''car_44'' ''publish'' ''telemetry'' = Inr d' \<and> \<not> ad_allowed d')"
proof -
  obtain d where d: "decide sample_store sample_loader [] ''car_44'' ''publish'' ''telemetry'' = Inr d" "ad_allowed d"
    using sample_decision by blast
  from access_denied_by_default [of sample_store sample_loader "[]" "''car_44''" "''publish''" "''telemetry''" d] d
  obtain i name pol where i: "store_get sample_store ''car_44'' = Some i" "policy_name_of i = Inr name"
    "map_of (pl_policies sample_loader) (norm_key name) = Some pol" "is_allowed pol ''publish'' ''telemetry'' = Inr True"
    and de: "\<exists>d'. decide (store_deregister ''car_44'' sample_store) sample_loader [] ''car_44'' ''publish'' ''telemetry'' = Inr d' \<and> \<not> ad_allowed d'"
    by blast
  have "name = PStr ''car_node_policy''"
    using i(1,2) by (auto simp: store_get_def sample_store_def identity_init_def policy_name_of_def default_policy_def role_map_def)
  with i de show ?thesis by auto
qed

text \<open>Enforcement is the check: \<open>enforce\<close> returns true exactly when \<open>check\<close> allows, raises a permission
  error exactly when it denies, never returns false, records the same one decision either way, and
  does so in the same way for every value of the engine's enforcement setting.\<close>

theorem enforce_is_check:
  "(fst (rbac_enforce s l stamp node action resource r) = Inr b \<longleftrightarrow>
      b \<and> (\<exists>d. decide s l stamp node action resource = Inr d \<and> ad_allowed d)) \<and>
   (fst (rbac_enforce s l stamp node action resource r) = Inl PermissionErr \<longleftrightarrow>
      (\<exists>d. decide s l stamp node action resource = Inr d \<and> \<not> ad_allowed d) \<or>
      decide s l stamp node action resource = Inl PermissionErr) \<and>
   snd (rbac_enforce s l stamp node action resource r) = snd (rbac_check s l stamp node action resource r) \<and>
   rb_decisions (snd (rbac_enforce s l stamp node action resource r)) =
     rb_decisions r @ (case decide s l stamp node action resource of Inr d \<Rightarrow> [d] | Inl _ \<Rightarrow> []) \<and>
   fst (rbac_enforce s l stamp node action resource (r\<lparr>rb_enforcement := mode\<rparr>)) =
     fst (rbac_enforce s l stamp node action resource r)"
  by (auto simp: rbac_enforce_def rbac_check_def rbac.events_add split: sum.split)

text \<open>The auditor's alarms: over any sequence of access events, the events are kept in order, the
  counters are the numbers of allowed and denied ones, and alerts are raised exactly at the denials
  that continue a run of at least three denials of the same node without an allowed access between.\<close>

theorem auditor_alerts:
  "aa_events (fold (auditor_record ok) es (auditor_init to_file)) = es \<and>
   aa_allow (fold (auditor_record ok) es (auditor_init to_file)) = int (length (filter ev_allowed es)) \<and>
   aa_deny (fold (auditor_record ok) es (auditor_init to_file)) = int (length (filter (\<lambda>e. \<not> ev_allowed e) es)) \<and>
   consecutive (fold (auditor_record ok) es (auditor_init to_file)) n = int (denial_streak es n) \<and>
   aa_alerts (fold (auditor_record ok) es (auditor_init to_file)) = int (alerts_of [] es)"
proof -
  let ?a = "auditor_init to_file"
  have i: "\<forall>n. consecutive ?a n = int (denial_streak (aa_events ?a) n)"
    by (simp add: auditor_init_def consecutive_def denial_streak_def)
  have z: "aa_events ?a = []" "aa_alerts ?a = 0" "aa_allow ?a = 0" "aa_deny ?a = 0" by (simp_all add: auditor_init_def)
  have "aa_allow (fold (auditor_record ok) es ?a) = int (length (filter ev_allowed es))"
    using access.count_fold [of ok es ?a True] z by simp
  moreover have "aa_deny (fold (auditor_record ok) es ?a) = int (length (filter (\<lambda>e. \<not> ev_allowed e) es))"
    using access.count_fold [of ok es ?a False] z by simp
  ultimately show ?thesis
    using auditor_run [OF i, of ok es] access.events_fold [of ok es ?a] z by simp
qed

end
