(* ===== verification/IamBreach.thy ===== *)
theory IamBreach
  imports RbacEngine
begin

text \<open>
  \<open>simulations/iam_breach_sim.py\<close>: seven attempts to get more access than the policies grant, run on the
  configuration that the repository ships, \<open>iam-module/config/iam.yaml\<close> and the three files of
  \<open>iam-module/policies\<close>. The YAML files are given as the values \<open>yaml.safe_load\<close> makes of them, without the
  descriptions, which no code reads. Time stamps are arguments.
\<close>

section \<open>The shipped configuration\<close>

definition node_config :: "string \<Rightarrow> string option \<Rightarrow> string \<Rightarrow> pyval" where
  "node_config role team pol =
     PDict ([(''role'', PStr role)] @ (case team of None \<Rightarrow> [] | Some t \<Rightarrow> [(''team'', PStr t)]) @ [(''policy'', PStr pol)])"

definition iam_config :: pyval where
  "iam_config = PDict
     [(''iam'', PDict
        [(''version'', PStr ''1.0''), (''enforcement_mode'', PStr ''strict''), (''log_all_decisions'', PBool True),
         (''alert_on_violation'', PBool True),
         (''nodes'', PDict
            [(''mercedes_car'', node_config ''car_producer'' (Some ''mercedes'') ''car_node_policy''),
             (''redbull_car'', node_config ''car_producer'' (Some ''redbull'') ''car_node_policy''),
             (''relay_01'', node_config ''relay'' None ''relay_node_policy''),
             (''relay_02'', node_config ''relay'' None ''relay_node_policy''),
             (''fia_validator'', node_config ''fia_validator'' None ''validator_node_policy'')])]),
      (''policies'', PDict
         [(''car_node'', PStr ''iam-module/policies/car_node_policy.yaml''),
          (''relay_node'', PStr ''iam-module/policies/relay_node_policy.yaml''),
          (''validator'', PStr ''iam-module/policies/validator_node_policy.yaml'')]),
      (''logging'', PDict [(''level'', PStr ''INFO''), (''log_file'', PStr ''logs/iam_audit.log'')])]"

definition rule_of :: "string \<times> string \<Rightarrow> pydict" where
  "rule_of ar = [(''action'', PStr (fst ar)), (''resource'', PStr (snd ar))]"

definition policy_file :: "string \<Rightarrow> pydict list \<Rightarrow> (string \<times> string) list \<Rightarrow> (string \<times> string) list \<Rightarrow> pydict \<Rightarrow> pyval" where
  "policy_file name roles allow deny constraints = PDict
     [(''policy'', PDict [(''name'', PStr name), (''version'', PStr ''1.0'')]),
      (''roles'', PList (map PDict roles)),
      (''permissions'', PDict [(''allow'', PList (map (PDict \<circ> rule_of) allow)), (''deny'', PList (map (PDict \<circ> rule_of) deny))]),
      (''constraints'', PDict constraints)]"

definition car_allow :: "(string \<times> string) list" where
  "car_allow =
     [(''telemetry.produce'', ''own_telemetry''), (''telemetry.sign'', ''own_packets''), (''telemetry.encrypt'', ''own_packets''),
      (''key.exchange'', ''relay_node''), (''key.rotate'', ''own_session''), (''network.transmit'', ''relay_node'')]"

definition car_deny :: "(string \<times> string) list" where
  "car_deny =
     [(''telemetry.read'', ''other_team_telemetry''), (''network.transmit'', ''validator_node''),
      (''relay.configure'', ''relay_node''), (''audit.read'', ''audit_log''), (''key.read'', ''other_node_keys'')]"

definition car_node_policy :: pyval where
  "car_node_policy = policy_file ''car_node_policy''
     [[(''name'', PStr ''car_producer''), (''nodes'', PList [PStr ''mercedes_car'', PStr ''redbull_car''])]]
     car_allow car_deny
     [(''max_packet_rate_hz'', PInt 150), (''allowed_sessions'', PList [PStr ''R'', PStr ''Q'', PStr ''S'']),
      (''allowed_teams'', PList [PStr ''mercedes'', PStr ''redbull'']), (''require_signature'', PBool True),
      (''require_encryption'', PBool True)]"

definition relay_allow :: "(string \<times> string) list" where
  "relay_allow =
     [(''telemetry.receive'', ''car_nodes''), (''telemetry.decrypt'', ''car_packets''),
      (''telemetry.reencrypt'', ''validator_packets''), (''telemetry.forward'', ''validator_node''),
      (''anomaly.filter'', ''telemetry_values''), (''integrity.check'', ''packet_sequence''),
      (''key.exchange'', ''car_nodes''), (''key.exchange'', ''validator_node''), (''key.rotate'', ''own_sessions'')]"

definition relay_deny :: "(string \<times> string) list" where
  "relay_deny =
     [(''telemetry.store'', ''plaintext_data''), (''telemetry.sign'', ''any_packets''), (''audit.read'', ''audit_log''),
      (''key.read'', ''validator_keys''), (''telemetry.modify'', ''packet_payload'')]"

definition relay_node_policy :: pyval where
  "relay_node_policy = policy_file ''relay_node_policy''
     [[(''name'', PStr ''relay''), (''nodes'', PList [PStr ''relay_01'', PStr ''relay_02''])]]
     relay_allow relay_deny
     [(''max_connections_per_car'', PInt 1), (''require_valid_session'', PBool True), (''forward_flagged_packets'', PBool True),
      (''drop_rejected_packets'', PBool True), (''ephemeral_plaintext'', PBool True)]"

definition validator_allow :: "(string \<times> string) list" where
  "validator_allow =
     [(''telemetry.receive'', ''relay_node''), (''telemetry.decrypt'', ''relay_packets''), (''signature.verify'', ''all_packets''),
      (''sequence.verify'', ''all_packets''), (''zkp.verify'', ''all_packets''), (''packet.accept'', ''verified_packets''),
      (''packet.reject'', ''invalid_packets''), (''audit.write'', ''audit_log''), (''audit.read'', ''audit_log''),
      (''audit.export'', ''audit_log''), (''key.exchange'', ''relay_node''), (''node.register'', ''car_nodes'')]"

definition validator_deny :: "(string \<times> string) list" where
  "validator_deny =
     [(''telemetry.produce'', ''any''), (''telemetry.modify'', ''any_packets''), (''network.transmit'', ''car_nodes'')]"

definition validator_node_policy :: pyval where
  "validator_node_policy = policy_file ''validator_node_policy''
     [[(''name'', PStr ''fia_validator''), (''nodes'', PList [PStr ''fia_validator'', PStr ''validator_01''])]]
     validator_allow validator_deny
     [(''require_all_checks_pass'', PBool True), (''immutable_audit_log'', PBool True), (''alert_on_reject'', PBool True),
      (''max_accepted_per_second'', PInt 200)]"

definition policy_files :: "(string \<times> pyval res) list" where
  "policy_files =
     [(''car_node_policy.yaml'', Inr car_node_policy), (''relay_node_policy.yaml'', Inr relay_node_policy),
      (''validator_node_policy.yaml'', Inr validator_node_policy)]"

section \<open>The simulation\<close>

record iam =
  im_store :: identity_store
  im_loader :: policy_loader
  im_engine :: rbac
  im_auditor :: auditor

definition build_iam :: "string \<Rightarrow> iam res" where
  "build_iam stamp =
     rbind (store_init stamp (Some iam_config)) (\<lambda>s.
       Inr \<lparr>im_store = s, im_loader = load_all (Some policy_files), im_engine = rbac_init ''strict'', im_auditor = auditor_init False\<rparr>)"

record attempt =
  at_node :: string
  at_action :: string
  at_resource :: string
  at_allowed :: bool
  at_reason :: access_reason

text \<open>One attempt: the check, with its time stamp, and its record in the auditor, with another.\<close>

definition make_attempt :: "string \<times> string \<Rightarrow> string \<times> string \<times> string \<Rightarrow> iam \<Rightarrow> (attempt \<times> iam) res" where
  "make_attempt st nar m =
     (case nar of (node, action, resource) \<Rightarrow>
        (case rbac_check (im_store m) (im_loader m) (fst st) node action resource (im_engine m) of
           (Inl e, _) \<Rightarrow> Inl e
         | (Inr d, eng) \<Rightarrow>
             Inr (\<lparr>at_node = node, at_action = action, at_resource = resource, at_allowed = ad_allowed d, at_reason = ad_reason d\<rparr>,
                  m\<lparr>im_engine := eng, im_auditor := record_from_decision True (snd st) d (im_auditor m)\<rparr>)))"

text \<open>The attempts of an attack in order; \<open>st j\<close> are the stamps of the \<open>j\<close>-th.\<close>

fun make_attempts :: "(nat \<Rightarrow> string \<times> string) \<Rightarrow> (string \<times> string \<times> string) list \<Rightarrow> iam \<Rightarrow> (attempt list \<times> iam) res" where
  "make_attempts st [] m = Inr ([], m)"
| "make_attempts st (x # xs) m =
     rbind (make_attempt (st 0) x m) (\<lambda>(r, m1).
     rbind (make_attempts (\<lambda>j. st (Suc j)) xs m1) (\<lambda>(rs, m2). Inr (r # rs, m2)))"

datatype breach_report =
    Blocked (attack: string) (attempts: int) (blocked: int) (all_blocked: bool) (details: "attempt list")
  | Storm (probes: int) (all_denied: bool) (alert_fired: bool) (alert_count: int) (storm_details: "attempt list")

definition attempts_report :: "string \<Rightarrow> (string \<times> string \<times> string) list \<Rightarrow> (nat \<Rightarrow> string \<times> string) \<Rightarrow> iam \<Rightarrow> (breach_report \<times> iam) res" where
  "attempts_report name tries st m =
     rbind (make_attempts st tries m) (\<lambda>(rs, m').
       Inr (Blocked name (int (length tries)) (int (length (filter (\<lambda>r. \<not> at_allowed r) rs))) (\<forall>r\<in>set rs. \<not> at_allowed r) rs, m'))"

definition unknown_nodes :: "(string \<times> string \<times> string) list" where
  "unknown_nodes =
     [(''unknown_attacker'', ''telemetry.read'', ''all_telemetry''), (''rouge_car_99'', ''network.transmit'', ''validator_node''),
      (''mystery_node'', ''audit.read'', ''audit_log''), (''fake_relay'', ''telemetry.decrypt'', ''car_packets'')]"

definition cross_team :: "(string \<times> string \<times> string) list" where
  "cross_team =
     [(''mercedes_car'', ''telemetry.read'', ''other_team_telemetry''), (''redbull_car'', ''telemetry.read'', ''other_team_telemetry''),
      (''mercedes_car'', ''key.read'', ''other_node_keys''), (''redbull_car'', ''key.read'', ''other_node_keys'')]"

definition validator_bypass :: "(string \<times> string \<times> string) list" where
  "validator_bypass =
     [(''mercedes_car'', ''network.transmit'', ''validator_node''), (''redbull_car'', ''network.transmit'', ''validator_node''),
      (''mercedes_car'', ''signature.verify'', ''all_packets''), (''mercedes_car'', ''audit.write'', ''audit_log'')]"

definition impersonation :: "(string \<times> string \<times> string) list" where
  "impersonation =
     [(''mercedes_car'', ''telemetry.reencrypt'', ''validator_packets''), (''mercedes_car'', ''telemetry.forward'', ''validator_node''),
      (''mercedes_car'', ''anomaly.filter'', ''telemetry_values''), (''mercedes_car'', ''integrity.check'', ''packet_sequence'')]"

definition escalation :: "(string \<times> string \<times> string) list" where
  "escalation =
     [(''mercedes_car'', ''signature.verify'', ''all_packets''), (''mercedes_car'', ''zkp.verify'', ''all_packets''),
      (''mercedes_car'', ''packet.accept'', ''verified_packets''), (''mercedes_car'', ''packet.reject'', ''invalid_packets''),
      (''relay_01'', ''signature.verify'', ''all_packets''), (''relay_01'', ''zkp.verify'', ''all_packets''),
      (''relay_01'', ''audit.write'', ''audit_log''), (''relay_01'', ''node.register'', ''car_nodes'')]"

definition log_tampering :: "(string \<times> string \<times> string) list" where
  "log_tampering =
     [(''relay_01'', ''audit.read'', ''audit_log''), (''relay_01'', ''audit.write'', ''audit_log''),
      (''relay_01'', ''audit.export'', ''audit_log''), (''mercedes_car'', ''audit.read'', ''audit_log''),
      (''mercedes_car'', ''audit.write'', ''audit_log''), (''redbull_car'', ''audit.read'', ''audit_log'')]"

definition probe_actions :: "string list" where
  "probe_actions = [''telemetry.read'', ''telemetry.write'', ''audit.read'', ''key.read'', ''network.transmit'',
     ''signature.forge'', ''packet.inject'', ''session.hijack'']"

definition sim_1_unknown_node :: "(nat \<Rightarrow> string \<times> string) \<Rightarrow> iam \<Rightarrow> (breach_report \<times> iam) res" where
  "sim_1_unknown_node = attempts_report ''unknown_node_access'' unknown_nodes"

definition sim_2_cross_team_access :: "(nat \<Rightarrow> string \<times> string) \<Rightarrow> iam \<Rightarrow> (breach_report \<times> iam) res" where
  "sim_2_cross_team_access = attempts_report ''cross_team_access'' cross_team"

definition sim_3_car_validator_bypass :: "(nat \<Rightarrow> string \<times> string) \<Rightarrow> iam \<Rightarrow> (breach_report \<times> iam) res" where
  "sim_3_car_validator_bypass = attempts_report ''car_validator_bypass'' validator_bypass"

definition sim_4_relay_impersonation :: "(nat \<Rightarrow> string \<times> string) \<Rightarrow> iam \<Rightarrow> (breach_report \<times> iam) res" where
  "sim_4_relay_impersonation = attempts_report ''relay_impersonation'' impersonation"

definition sim_5_privilege_escalation :: "(nat \<Rightarrow> string \<times> string) \<Rightarrow> iam \<Rightarrow> (breach_report \<times> iam) res" where
  "sim_5_privilege_escalation = attempts_report ''privilege_escalation'' escalation"

definition sim_6_audit_log_tampering :: "(nat \<Rightarrow> string \<times> string) \<Rightarrow> iam \<Rightarrow> (breach_report \<times> iam) res" where
  "sim_6_audit_log_tampering = attempts_report ''audit_log_tampering'' log_tampering"

definition sim_7_denial_storm :: "(nat \<Rightarrow> string \<times> string) \<Rightarrow> iam \<Rightarrow> (breach_report \<times> iam) res" where
  "sim_7_denial_storm st m =
     rbind (make_attempts st (map (\<lambda>a. (''probing_attacker'', a, ''any'')) probe_actions) m) (\<lambda>(rs, m').
       Inr (Storm (int (length probe_actions)) (\<forall>r\<in>set rs. \<not> at_allowed r) (0 < aa_alerts (im_auditor m')) (aa_alerts (im_auditor m')) rs, m'))"

definition report_defended :: "breach_report \<Rightarrow> bool" where
  "report_defended r = (case r of Blocked _ _ _ b _ \<Rightarrow> b | Storm _ _ f _ _ \<Rightarrow> f)"

record breach_summary =
  bs_total :: int
  bs_defended :: int
  bs_audit :: access_summary
  bs_results :: "breach_report list"

definition breach_main :: "string \<Rightarrow> (nat \<Rightarrow> string \<times> string) \<Rightarrow> breach_summary res" where
  "breach_main stamp st =
     rbind (build_iam stamp) (\<lambda>m0.
     rbind (sim_1_unknown_node st m0) (\<lambda>(r1, m1).
     rbind (sim_2_cross_team_access (\<lambda>j. st (4 + j)) m1) (\<lambda>(r2, m2).
     rbind (sim_3_car_validator_bypass (\<lambda>j. st (8 + j)) m2) (\<lambda>(r3, m3).
     rbind (sim_4_relay_impersonation (\<lambda>j. st (12 + j)) m3) (\<lambda>(r4, m4).
     rbind (sim_5_privilege_escalation (\<lambda>j. st (16 + j)) m4) (\<lambda>(r5, m5).
     rbind (sim_6_audit_log_tampering (\<lambda>j. st (24 + j)) m5) (\<lambda>(r6, m6).
     rbind (sim_7_denial_storm (\<lambda>j. st (30 + j)) m6) (\<lambda>(r7, m7).
       let rs = [r1, r2, r3, r4, r5, r6, r7]
       in Inr \<lparr>bs_total = int (length rs), bs_defended = int (length (filter report_defended rs)),
               bs_audit = access_summary_of (im_auditor m7), bs_results = rs\<rparr>))))))))"

section \<open>The configuration as loaded\<close>

definition shipped_policy :: "string \<Rightarrow> pydict list \<Rightarrow> (string \<times> string) list \<Rightarrow> (string \<times> string) list \<Rightarrow> pydict \<Rightarrow> policy" where
  "shipped_policy name roles allow deny constraints =
     \<lparr>pol_name = PStr name, pol_allow = PList (map (PDict \<circ> rule_of) allow), pol_deny = PList (map (PDict \<circ> rule_of) deny),
      pol_constraints = PDict constraints, pol_roles = PList (map PDict roles)\<rparr>"

lemma load_policy_file:
  "pl_policies (snd (load_file fn (policy_file name roles allow deny cs) l)) =
     AList.update (PStr name) (shipped_policy name roles allow deny cs) (pl_policies l)"
  by (simp add: load_file_def policy_file_def val_get_def dict_get_or_def policy_init_def shipped_policy_def Let_def)

lemma policy_files_sorted: "sort_key fst policy_files = policy_files"
  by (simp add: policy_files_def less_eq_list_code less_list_code)

definition shipped_nodes :: "(string \<times> string \<times> string option \<times> string) list" where
  "shipped_nodes =
     [(''mercedes_car'', ''car_producer'', Some ''mercedes'', ''car_node_policy''),
      (''redbull_car'', ''car_producer'', Some ''redbull'', ''car_node_policy''),
      (''relay_01'', ''relay'', None, ''relay_node_policy''), (''relay_02'', ''relay'', None, ''relay_node_policy''),
      (''fia_validator'', ''fia_validator'', None, ''validator_node_policy'')]"

definition grants :: "(string \<times> string) list \<Rightarrow> string \<Rightarrow> string \<Rightarrow> bool" where
  "grants rules action resource =
     list_ex (\<lambda>(a, r). (a = action \<or> a = ''*'' \<or> a = ''any'') \<and> (r = resource \<or> r = ''*'' \<or> r = ''any'')) rules"

lemma covers_rule_of:
  "covers (rule_of (a, r)) action resource \<longleftrightarrow>
     (a = action \<or> a = ''*'' \<or> a = ''any'') \<and> (r = resource \<or> r = ''*'' \<or> r = ''any'')"
  by (simp add: covers_def rule_of_def in_strings_def dict_get_or_def)

lemma is_allowed_rules:
  assumes "pol_allow p = PList (map (PDict \<circ> rule_of) allow)" and "pol_deny p = PList (map (PDict \<circ> rule_of) deny)"
  shows "is_allowed p action resource = Inr (grants allow action resource \<and> \<not> grants deny action resource)"
proof -
  have wf: "wf_policy p (map rule_of allow) (map rule_of deny)" using assms by (simp add: wf_policy_def)
  have "(\<exists>r\<in>set (map rule_of rs). covers r action resource) = grants rs action resource" for rs
    by (simp add: grants_def list_ex_iff covers_rule_of case_prod_unfold Bex_def)
  then show ?thesis unfolding is_allowed_wf [OF wf] by simp
qed

lemma store_loaded:
  "store_init stamp (Some iam_config) = Inr \<lparr>st_nodes = map (\<lambda>(n, role, team, pol).
     (n, identity_init n (PStr role) (case team of None \<Rightarrow> PNone | Some t \<Rightarrow> PStr t) (PStr pol) None stamp)) shipped_nodes\<rparr>"
  by (simp add: store_init_def load_from_config_def config_nodes_def iam_config_def node_config_def val_get_def dict_get_or_def
      shipped_nodes_def)

lemma load_one_file:
  assumes "ends_with ''.yaml'' fn"
  shows "pl_policies (load_one (fn, Inr (policy_file name roles allow deny cs)) l) =
    AList.update (PStr name) (shipped_policy name roles allow deny cs) (pl_policies l)"
  using assms by (simp add: load_one_def load_policy_file)

lemma loader_loaded:
  "map (\<lambda>p. map_option (\<lambda>x. (pol_allow x, pol_deny x)) (map_of (pl_policies (load_all (Some policy_files))) (PStr p)))
     [''car_node_policy'', ''relay_node_policy'', ''validator_node_policy''] =
   map (\<lambda>(a, d). Some (PList (map (PDict \<circ> rule_of) a), PList (map (PDict \<circ> rule_of) d)))
     [(car_allow, car_deny), (relay_allow, relay_deny), (validator_allow, validator_deny)]"
proof -
  have "ends_with ''.yaml'' ''car_node_policy.yaml''" "ends_with ''.yaml'' ''relay_node_policy.yaml''"
    "ends_with ''.yaml'' ''validator_node_policy.yaml''" by (simp_all add: ends_with_def)
  note load = this [THEN load_one_file]
  show ?thesis
    by (simp add: load_all_def policy_files_sorted)
      (simp add: policy_files_def car_node_policy_def relay_node_policy_def validator_node_policy_def load shipped_policy_def
        update_conv')
qed

text \<open>The rules of a policy, and what an attempt of a node may do by them.\<close>

definition shipped_rules :: "((string \<times> string) list \<times> (string \<times> string) list) dict" where
  "shipped_rules =
     [(''car_node_policy'', (car_allow, car_deny)), (''relay_node_policy'', (relay_allow, relay_deny)),
      (''validator_node_policy'', (validator_allow, validator_deny))]"

definition permitted :: "string \<times> string \<times> string \<Rightarrow> bool" where
  "permitted x =
     (case x of (node, action, resource) \<Rightarrow>
        (case map_of shipped_nodes node of None \<Rightarrow> False
         | Some (_, _, p) \<Rightarrow> (case map_of shipped_rules p of None \<Rightarrow> False
             | Some (allow, deny) \<Rightarrow> grants allow action resource \<and> \<not> grants deny action resource)))"

text \<open>The decision on the shipped configuration is the one by its rules.\<close>

definition shipped :: "iam \<Rightarrow> bool" where
  "shipped m =
     ((\<exists>stamp. store_init stamp (Some iam_config) = Inr (im_store m)) \<and> im_loader m = load_all (Some policy_files))"

lemma store_get_shipped:
  assumes "store_init stamp (Some iam_config) = Inr s"
  shows "store_get s node = (case map_of shipped_nodes node of None \<Rightarrow> None
    | Some (role, team, p) \<Rightarrow> Some (identity_init node (PStr role) (case team of None \<Rightarrow> PNone | Some t \<Rightarrow> PStr t) (PStr p) None stamp))"
proof -
  have *: "map_of (map (\<lambda>(n, role, team, pol). (n, F n role team pol)) xs) node =
      (case map_of xs node of None \<Rightarrow> None | Some (role, team, p) \<Rightarrow> Some (F node role team p))" for F xs
    by (induction xs) auto
  show ?thesis using assms by (auto simp: store_loaded store_get_def * split: option.split)
qed

lemma loader_get_shipped:
  assumes "map_of shipped_rules p = Some (allow, deny)"
  obtains pol where "map_of (pl_policies (load_all (Some policy_files))) (PStr p) = Some pol"
    and "is_allowed pol action resource = Inr (grants allow action resource \<and> \<not> grants deny action resource)"
  using assms loader_loaded by (auto simp: shipped_rules_def is_allowed_rules split: if_splits)

lemma shipped_policies: "(node, role, team, p) \<in> set shipped_nodes \<Longrightarrow> p \<noteq> [] \<and> map_of shipped_rules p \<noteq> None"
  by (auto simp: shipped_nodes_def shipped_rules_def)

lemma decide_shipped:
  assumes "shipped m"
  obtains d where "decide (im_store m) (im_loader m) st node action resource = Inr d" and "ad_node_id d = node"
    and "ad_allowed d = permitted (node, action, resource)"
proof -
  obtain stamp where s: "store_init stamp (Some iam_config) = Inr (im_store m)" and l: "im_loader m = load_all (Some policy_files)"
    using assms by (auto simp: shipped_def)
  note get = store_get_shipped [OF s, of node]
  show thesis
  proof (cases "map_of shipped_nodes node")
    case None
    then have "\<not> store_is_registered (im_store m) node" by (simp add: store_is_registered_def get)
    show thesis by (rule that [OF decide_unregistered [OF \<open>\<not> store_is_registered (im_store m) node\<close>]]) (simp_all add: permitted_def None)
  next
    case (Some x)
    obtain role team p where x: "x = (role, team, p)" by (cases x)
    then have "p \<noteq> []" "map_of shipped_rules p \<noteq> None"
      using shipped_policies [of node role team p] map_of_SomeD [OF Some] by auto
    then obtain allow deny where r: "p \<noteq> []" "map_of shipped_rules p = Some (allow, deny)" by auto
    obtain pol where pol: "map_of (pl_policies (load_all (Some policy_files))) (PStr p) = Some pol"
      "is_allowed pol action resource = Inr (grants allow action resource \<and> \<not> grants deny action resource)"
      using r(2) by (rule loader_get_shipped)
    have "\<exists>d. decide (im_store m) (im_loader m) st node action resource = Inr d \<and> ad_node_id d = node \<and>
        ad_allowed d = (grants allow action resource \<and> \<not> grants deny action resource)"
      using pol r(1) Some x
      by (simp add: decide_def store_is_registered_def get identity_init_def policy_name_of_def loader_get_def l)
    then show thesis using r(2) Some x by (auto simp: permitted_def intro: that)
  qed
qed

section \<open>The attempts and the alerts\<close>

text \<open>The alerts of denials that no allowed access interrupts: every denial of a node after its second.\<close>

fun denial_alerts :: "string list \<Rightarrow> string list \<Rightarrow> nat" where
  "denial_alerts seen [] = 0"
| "denial_alerts seen (n # ns) = (if 2 \<le> count_list seen n then 1 else 0) + denial_alerts (n # seen) ns"

lemma streak_denied: "\<forall>e\<in>set es. \<not> ev_allowed e \<Longrightarrow> denial_streak es n = count_list (map ev_node_id es) n"
proof (induction es rule: rev_induct)
  case Nil
  then show ?case by (simp add: denial_streak_def)
next
  case (snoc e es)
  then show ?case by (simp add: denial_streak_snoc)
qed

lemma alerts_denied:
  assumes "\<forall>e\<in>set (seen @ es). \<not> ev_allowed e"
  shows "alerts_of seen es = denial_alerts (rev (map ev_node_id seen)) (map ev_node_id es)"
  using assms
proof (induction es arbitrary: seen)
  case (Cons e es)
  have "denial_streak (seen @ [e]) (ev_node_id e) = Suc (count_list (map ev_node_id seen) (ev_node_id e))"
    using streak_denied [of "seen @ [e]" "ev_node_id e"] Cons.prems by simp
  then show ?case using Cons.IH [of "seen @ [e]"] Cons.prems by simp
qed simp

text \<open>A state after denials of the nodes \<open>ns\<close> only.\<close>

definition audited :: "string list \<Rightarrow> iam \<Rightarrow> bool" where
  "audited ns m =
     (shipped m \<and> (\<exists>es. im_auditor m = fold (auditor_record True) es (auditor_init False) \<and> map ev_node_id es = ns \<and>
        (\<forall>e\<in>set es. \<not> ev_allowed e)))"

lemma audited_summary:
  assumes "audited ns m"
  shows "access_summary_of (im_auditor m) =
    \<lparr>su_total = length ns, su_allowed = 0, su_denied = int (length ns), su_alerts = int (denial_alerts [] ns)\<rparr>"
proof -
  obtain es where es: "im_auditor m = fold (auditor_record True) es (auditor_init False)" "map ev_node_id es = ns"
    "\<forall>e\<in>set es. \<not> ev_allowed e" using assms by (auto simp: audited_def)
  have len: "length es = length ns" using es(2) by auto
  have init: "\<forall>n. consecutive (auditor_init False) n = int (denial_streak (aa_events (auditor_init False)) n)"
    by (simp add: auditor_init_def consecutive_def denial_streak_def)
  have "aa_events (im_auditor m) = es" using access.events_fold [of True es "auditor_init False"] es(1)
    by (simp add: auditor_init_def)
  moreover have "filter (\<lambda>e. ev_allowed e = True) es = []" "filter (\<lambda>e. ev_allowed e = False) es = es"
    using es(3) by (simp_all add: filter_empty_conv)
  then have "aa_allow (im_auditor m) = 0" "aa_deny (im_auditor m) = int (length ns)"
    using access.count_fold [of True es "auditor_init False" True] access.count_fold [of True es "auditor_init False" False] es(1) len
    by (simp_all add: auditor_init_def)
  moreover have "aa_alerts (im_auditor m) = int (denial_alerts [] ns)"
    using auditor_run(2) [OF init, of True es] alerts_denied [of "[]" es] es by (simp add: auditor_init_def)
  ultimately show ?thesis using len by (simp add: access_summary_of_def)
qed

lemma attempt_denied:
  assumes "audited ns m" and "\<not> permitted x"
  obtains r m' where "make_attempt st x m = Inr (r, m')" and "\<not> at_allowed r" and "audited (ns @ [fst x]) m'"
proof -
  obtain node action resource where x: "x = (node, action, resource)" by (cases x)
  have m: "shipped m" using assms(1) by (simp add: audited_def)
  obtain d where d: "decide (im_store m) (im_loader m) (fst st) node action resource = Inr d" "ad_node_id d = node" "\<not> ad_allowed d"
    using decide_shipped [OF m, of "fst st" node action resource] assms(2) x by metis
  let ?e = "event_of_decision (snd st) d"
  let ?m = "m\<lparr>im_engine := rbac_record d (im_engine m), im_auditor := auditor_record True ?e (im_auditor m)\<rparr>"
  obtain es where es: "im_auditor m = fold (auditor_record True) es (auditor_init False)" "map ev_node_id es = ns"
    "\<forall>e\<in>set es. \<not> ev_allowed e" using assms(1) by (auto simp: audited_def)
  have "shipped ?m" using m by (simp add: shipped_def)
  moreover have "im_auditor ?m = fold (auditor_record True) (es @ [?e]) (auditor_init False)"
    by (simp add: es(1))
  moreover have "map ev_node_id (es @ [?e]) = ns @ [node]" "\<forall>e\<in>set (es @ [?e]). \<not> ev_allowed e"
    using es d by (auto simp: event_of_decision_def)
  ultimately have "audited (ns @ [node]) ?m" unfolding audited_def by blast
  then show thesis using d x by (intro that) (auto simp: make_attempt_def rbac_check_def record_from_decision_def)
qed

lemma attempts_denied:
  assumes "audited ns m" and "\<forall>x\<in>set xs. \<not> permitted x"
  shows "\<exists>rs m'. make_attempts st xs m = Inr (rs, m') \<and> length rs = length xs \<and> (\<forall>r\<in>set rs. \<not> at_allowed r) \<and>
    audited (ns @ map fst xs) m'"
  using assms
proof (induction xs arbitrary: ns m st)
  case Nil
  then show ?case by simp
next
  case (Cons x xs)
  have x: "\<not> permitted x" using Cons.prems by simp
  obtain r m1 where r: "make_attempt (st 0) x m = Inr (r, m1)" "\<not> at_allowed r" "audited (ns @ [fst x]) m1"
    using Cons.prems(1) x by (rule attempt_denied)
  then show ?case using Cons.IH [OF r(3), of "\<lambda>j. st (Suc j)"] Cons.prems(2) by auto
qed

lemma report_blocked:
  assumes "audited ns m" and "list_all (\<lambda>x. \<not> permitted x) xs" and "n = int (length xs)" and "ns' = ns @ map fst xs"
  obtains rs m' where "attempts_report name xs st m = Inr (Blocked name n n True rs, m')" and "audited ns' m'"
proof -
  obtain rs m' where r: "make_attempts st xs m = Inr (rs, m')" "length rs = length xs" "\<forall>r\<in>set rs. \<not> at_allowed r"
    "audited (ns @ map fst xs) m'" using attempts_denied [OF assms(1), of xs st] assms(2) by (auto simp: list_all_iff)
  then have "filter (\<lambda>r. \<not> at_allowed r) rs = rs" by simp
  then show thesis using r assms(3,4) by (intro that [of rs m']) (simp_all add: attempts_report_def)
qed

text \<open>
  The storm's report asks whether the auditor has ever raised an alert, so that it is positive whatever the
  storm does once an earlier attack has raised one.
\<close>

lemma make_attempts_alerts: "make_attempts st xs m = Inr (rs, m') \<Longrightarrow> aa_alerts (im_auditor m) \<le> aa_alerts (im_auditor m')"
proof (induction xs arbitrary: st m rs)
  case (Cons x xs)
  then obtain r m1 rs' where "make_attempt (st 0) x m = Inr (r, m1)" "make_attempts (\<lambda>j. st (Suc j)) xs m1 = Inr (rs', m')"
    by (auto elim!: rbind_InrE)
  moreover from this(1) have "aa_alerts (im_auditor m) \<le> aa_alerts (im_auditor m1)"
    by (auto simp: make_attempt_def record_from_decision_def split: prod.splits sum.splits)
  ultimately show ?case using Cons.IH by fastforce
qed simp

lemma storm_alert_vacuous:
  "0 < aa_alerts (im_auditor m) \<Longrightarrow> sim_7_denial_storm st m = Inr (r, m') \<Longrightarrow> report_defended r"
  by (auto simp: sim_7_denial_storm_def report_defended_def elim!: rbind_InrE dest!: make_attempts_alerts)

section \<open>The whole simulation\<close>

lemma attacks_not_permitted:
  "list_all (\<lambda>x. \<not> permitted x) unknown_nodes" "list_all (\<lambda>x. \<not> permitted x) cross_team"
  "list_all (\<lambda>x. \<not> permitted x) validator_bypass" "list_all (\<lambda>x. \<not> permitted x) impersonation"
  "list_all (\<lambda>x. \<not> permitted x) escalation" "list_all (\<lambda>x. \<not> permitted x) log_tampering"
  by (simp_all add: unknown_nodes_def cross_team_def validator_bypass_def impersonation_def escalation_def log_tampering_def
      permitted_def shipped_nodes_def shipped_rules_def grants_def car_allow_def car_deny_def relay_allow_def relay_deny_def)

lemma storm_not_permitted: "\<forall>x\<in>set (map (\<lambda>a. (''probing_attacker'', a, ''any'')) probe_actions). \<not> permitted x"
  by (auto simp: permitted_def shipped_nodes_def)

text \<open>The nodes of all attempts, in their order.\<close>

definition attack_nodes :: "string list" where
  "attack_nodes = map fst (unknown_nodes @ cross_team @ validator_bypass @ impersonation @ escalation @ log_tampering) @
     map (\<lambda>_. ''probing_attacker'') probe_actions"

lemma attack_nodes_alerts: "length attack_nodes = 38" "denial_alerts [] attack_nodes = 26"
  by (simp_all add: attack_nodes_def unknown_nodes_def cross_team_def validator_bypass_def impersonation_def escalation_def
      log_tampering_def probe_actions_def)

text \<open>C21. On the configuration the repository ships, no attempt of the simulation gets through: each of the
  thirty attempts of the six attacks is denied, and so are the eight probes of the storm; all seven
  attacks count as defended, and the auditor's summary shows 38 decisions, none allowed, and 26 alerts.\<close>

theorem breach_defended:
  "\<exists>d1 d2 d3 d4 d5 d6 d7. breach_main stamp st = Inr
     \<lparr>bs_total = 7, bs_defended = 7, bs_audit = \<lparr>su_total = 38, su_allowed = 0, su_denied = 38, su_alerts = 26\<rparr>,
      bs_results = [Blocked ''unknown_node_access'' 4 4 True d1, Blocked ''cross_team_access'' 4 4 True d2,
        Blocked ''car_validator_bypass'' 4 4 True d3, Blocked ''relay_impersonation'' 4 4 True d4,
        Blocked ''privilege_escalation'' 8 8 True d5, Blocked ''audit_log_tampering'' 6 6 True d6, Storm 8 True True 26 d7]\<rparr>"
proof -
  obtain s where s: "store_init stamp (Some iam_config) = Inr s" using store_loaded by blast
  then obtain m0 where m0: "build_iam stamp = Inr m0" "audited [] m0"
    by (auto simp: build_iam_def audited_def shipped_def)
  note ok = attacks_not_permitted
  obtain d1 m1 where r1: "sim_1_unknown_node st m0 = Inr (Blocked ''unknown_node_access'' 4 4 True d1, m1)"
    and s1: "audited (map fst unknown_nodes) m1"
    unfolding sim_1_unknown_node_def by (rule report_blocked [OF m0(2) ok(1) _ refl]) (auto simp: unknown_nodes_def)
  obtain d2 m2 where r2: "sim_2_cross_team_access (\<lambda>j. st (4 + j)) m1 = Inr (Blocked ''cross_team_access'' 4 4 True d2, m2)"
    and s2: "audited (map fst (unknown_nodes @ cross_team)) m2"
    unfolding sim_2_cross_team_access_def by (rule report_blocked [OF s1 ok(2) _ refl]) (auto simp: cross_team_def)
  obtain d3 m3 where r3: "sim_3_car_validator_bypass (\<lambda>j. st (8 + j)) m2 = Inr (Blocked ''car_validator_bypass'' 4 4 True d3, m3)"
    and s3: "audited (map fst (unknown_nodes @ cross_team @ validator_bypass)) m3"
    unfolding sim_3_car_validator_bypass_def by (rule report_blocked [OF s2 ok(3) _ refl]) (auto simp: validator_bypass_def)
  obtain d4 m4 where r4: "sim_4_relay_impersonation (\<lambda>j. st (12 + j)) m3 = Inr (Blocked ''relay_impersonation'' 4 4 True d4, m4)"
    and s4: "audited (map fst (unknown_nodes @ cross_team @ validator_bypass @ impersonation)) m4"
    unfolding sim_4_relay_impersonation_def by (rule report_blocked [OF s3 ok(4) _ refl]) (auto simp: impersonation_def)
  obtain d5 m5 where r5: "sim_5_privilege_escalation (\<lambda>j. st (16 + j)) m4 = Inr (Blocked ''privilege_escalation'' 8 8 True d5, m5)"
    and s5: "audited (map fst (unknown_nodes @ cross_team @ validator_bypass @ impersonation @ escalation)) m5"
    unfolding sim_5_privilege_escalation_def by (rule report_blocked [OF s4 ok(5) _ refl]) (auto simp: escalation_def)
  obtain d6 m6 where r6: "sim_6_audit_log_tampering (\<lambda>j. st (24 + j)) m5 = Inr (Blocked ''audit_log_tampering'' 6 6 True d6, m6)"
    and s6: "audited (map fst (unknown_nodes @ cross_team @ validator_bypass @ impersonation @ escalation @ log_tampering)) m6"
    unfolding sim_6_audit_log_tampering_def by (rule report_blocked [OF s5 ok(6) _ refl]) (auto simp: log_tampering_def)
  obtain d7 m7 where r7: "make_attempts (\<lambda>j. st (30 + j)) (map (\<lambda>a. (''probing_attacker'', a, ''any'')) probe_actions) m6 = Inr (d7, m7)"
    "\<forall>r\<in>set d7. \<not> at_allowed r" and s7: "audited attack_nodes m7"
    using attempts_denied [OF s6 storm_not_permitted, of "\<lambda>j. st (30 + j)"] by (auto simp: attack_nodes_def comp_def)
  note sum = audited_summary [OF s7, unfolded attack_nodes_alerts]
  then have "aa_alerts (im_auditor m7) = 26" by (simp add: access_summary_of_def)
  then have "sim_7_denial_storm (\<lambda>j. st (30 + j)) m6 = Inr (Storm 8 True True 26 d7, m7)"
    using r7 by (simp add: sim_7_denial_storm_def probe_actions_def)
  then show ?thesis using m0(1) r1 r2 r3 r4 r5 r6 sum by (simp add: breach_main_def report_defended_def Let_def)
qed

end
