(* ===== verification/RotationScenarios.thy ===== *)
theory RotationScenarios
  imports KeyScheduler FloatOrder
begin

text \<open>
  \<open>simulations/key_rotation_sim.py\<close>: the scheduler forced to rotate once, and the scheduler's thread
  rotating after ten packets. Private keys, clock readings and time stamps are arguments, and so is the
  schedule of the thread: the passes it makes before the first packet, between packets, and after the
  last one until it is stopped. A pass that finds no rotation due changes nothing, and after the last
  packet only the thread acts, so that whole passes cover the interleavings. Elapsed times are not modelled.
\<close>

section \<open>Callback records\<close>

record rotation_record =
  rr_event :: rotation_event
  rr_key_bytes :: nat
  rr_key_prefix :: string

text \<open>The scheduler's events have \<open>to_dict\<close>, so that the other branch is never taken.\<close>

definition rotation_event_to_dict :: "rotation_event \<Rightarrow> bytes \<Rightarrow> rotation_record" where
  "rotation_event_to_dict ev pub =
     \<lparr>rr_event = event_entry ev, rr_key_bytes = length pub, rr_key_prefix = take 16 (to_hex pub)\<rparr>"

definition collect_event :: "rotation_record list callback" where
  "collect_event ev pub records = (Inr (), records @ [rotation_event_to_dict ev pub])"

section \<open>Manual rotation\<close>

record manual_inputs =
  mi_private :: bytes
  mi_created :: clock
  mi_started :: clock
  mi_before :: clock
  mi_rotation :: rotation_inputs
  mi_after :: clock

record manual_result =
  mr_key_bytes :: nat
  mr_key_prefix :: string
  mr_before :: sched_status
  mr_after :: sched_status
  mr_callbacks :: nat
  mr_events :: "rotation_record list"
  mr_triggered :: bool
  mr_counter_reset :: bool
  mr_log_entries :: nat

definition scenario_manual_rotation :: "pyca \<Rightarrow> manual_inputs \<Rightarrow> manual_result" where
  "scenario_manual_rotation C i =
     (let (pub, e) = new_session C (mi_private i) (mi_created i) (engine_init ''mercedes_car_rotation_test'');
          s0 = on_rotation collect_event (scheduler_init 9999 99999 ''mercedes_car_rotation_test'' (mi_started i));
          s1 = (record_packet ^^ 20) s0;
          (s2, _, records) = force_rotation C (mi_rotation i) s1 e []
      in \<lparr>mr_key_bytes = length pub, mr_key_prefix = take 16 (to_hex pub),
          mr_before = sched_status_of s1 (mi_before i), mr_after = sched_status_of s2 (mi_after i),
          mr_callbacks = length records, mr_events = records, mr_triggered = (sch_rotation_count s2 = 1),
          mr_counter_reset = (sch_packet_count s2 = 0), mr_log_entries = length (sch_log s2)\<rparr>)"

section \<open>Rotation by packet count\<close>

type_synonym passes = "(clock \<times> rotation_inputs) list"

text \<open>Packets recorded one by one, each followed by the passes the thread makes before the next.\<close>

fun recorded_run :: "pyca \<Rightarrow> passes list \<Rightarrow> 'c scheduler \<times> engine \<times> 'c \<Rightarrow> 'c scheduler \<times> engine \<times> 'c" where
  "recorded_run C [] st = st"
| "recorded_run C (ps # pss) (s, e, c) = recorded_run C pss (run_thread C ps (record_packet s, e, c))"

record count_inputs =
  ci_private :: bytes
  ci_created :: clock
  ci_started :: clock
  ci_first :: passes
  ci_between :: "nat \<Rightarrow> passes"
  ci_last :: passes

record count_result =
  cr_max_packets :: int
  cr_recorded :: int
  cr_rotations :: int
  cr_callbacks :: nat
  cr_events :: "rotation_record list"
  cr_triggered :: bool
  cr_packets_after :: int
  cr_counter_reset :: bool

definition scenario_packet_count_rotation :: "pyca \<Rightarrow> count_inputs \<Rightarrow> count_result" where
  "scenario_packet_count_rotation C i =
     (let (_, e) = new_session C (ci_private i) (ci_created i) (engine_init ''mercedes_car_count_rotation'');
          s0 = sched_start (on_rotation collect_event (scheduler_init 9999 10 ''mercedes_car_count_rotation'' (ci_started i)));
          st = recorded_run C (map (ci_between i) [0..<9] @ [ci_last i]) (run_thread C (ci_first i) (s0, e, []));
          (s, _, records) = st;
          s' = sched_stop s
      in \<lparr>cr_max_packets = 10, cr_recorded = 10, cr_rotations = sch_rotation_count s', cr_callbacks = length records,
          cr_events = records, cr_triggered = (1 \<le> sch_rotation_count s'), cr_packets_after = sch_packet_count s',
          cr_counter_reset = (sch_packet_count s' = 0)\<rparr>)"

definition rotation_main :: "pyca \<Rightarrow> manual_inputs \<Rightarrow> count_inputs \<Rightarrow> manual_result \<times> count_result" where
  "rotation_main C m i = (scenario_manual_rotation C m, scenario_packet_count_rotation C i)"

section \<open>What the scenarios show\<close>

lemma record_packets:
  "(record_packet ^^ n) s = s\<lparr>sch_packet_count := sch_packet_count s + int n\<rparr>"
  by (induction n) (simp_all add: record_packet_def)

text \<open>The clock stays within 9998 seconds of \<open>T\<close>, so that no session reaches its maximal age.\<close>

definition soon :: "clock \<Rightarrow> clock \<Rightarrow> bool" where
  "soon T t = (T \<le> t \<and> t \<le> T + 9998)"

definition soon_pass :: "clock \<Rightarrow> clock \<times> rotation_inputs \<Rightarrow> bool" where
  "soon_pass T x = (soon T (fst x) \<and> soon T (ri_reset (snd x)))"

lemma young:
  assumes "soon T t" and "soon T s"
  shows "\<not> fle (FFin 9999) (elapsed t s)"
proof -
  have "fle (fl (t - s)) (fl (of_int 9998))" using assms by (intro fl_mono) (simp add: soon_def)
  moreover have "fl (of_int 9998) = FFin (of_int 9998)" by (rule fl_of_int) simp_all
  ultimately have "fle (fl (t - s)) (FFin 9998)" by simp
  then show ?thesis by (cases "fl (t - s)") (auto simp: elapsed_def fle_def)
qed

text \<open>Below its packet limit, a young session is left alone by every pass.\<close>

definition counting :: "clock \<Rightarrow> 'c scheduler \<Rightarrow> bool" where
  "counting T s = (sch_running s \<and> sch_max_age s = 9999 \<and> sch_max_packets s = 10 \<and> soon T (sch_session_start s))"

lemma quiet_pass:
  assumes "counting T s" and "sch_packet_count s < 10" and "soon_pass T x"
  shows "run_pass C x (s, e, c) = (s, e, c)"
  using assms young [of T "fst x" "sch_session_start s"]
  by (simp add: run_pass_def should_rotate_def counting_def soon_pass_def sch_age_def float_int_def Let_def)

lemma quiet_passes:
  "counting T s \<Longrightarrow> sch_packet_count s < 10 \<Longrightarrow> \<forall>x\<in>set xs. soon_pass T x \<Longrightarrow> run_thread C xs (s, e, c) = (s, e, c)"
  by (induction xs) (simp_all add: quiet_pass)

lemma quiet_run:
  assumes "counting T s" and "sch_packet_count s + int (length pss) < 10" and "\<forall>ps\<in>set pss. \<forall>x\<in>set ps. soon_pass T x"
  shows "recorded_run C (pss @ rest) (s, e, c) = recorded_run C rest (s\<lparr>sch_packet_count := sch_packet_count s + int (length pss)\<rparr>, e, c)"
  using assms
proof (induction pss arbitrary: s)
  case (Cons ps pss)
  let ?s = "record_packet s"
  have s: "counting T ?s" "sch_packet_count ?s + int (length pss) < 10" "sch_packet_count ?s < 10"
    using Cons.prems by (simp_all add: counting_def record_packet_def)
  have "run_thread C ps (?s, e, c) = (?s, e, c)" using s Cons.prems(3) by (intro quiet_passes) auto
  then show ?case using Cons.IH [OF s(1,2)] Cons.prems(3) by (simp add: record_packet_def add.assoc)
qed simp

text \<open>The first pass after the tenth packet rotates, the others do not.\<close>

lemma tenth_packet:
  assumes "counting T s" and "sch_packet_count s = 10" and "\<forall>x\<in>set (x # xs). soon_pass T x" and "sch_callbacks s = [collect_event]"
  defines "ev \<equiv> rotation_event_of (snd x) (CountExceeded 10 10) s"
  obtains s' e' where "run_thread C (x # xs) (s, e, c) =
      (s', e', c @ [rotation_event_to_dict ev (x25519_public C (ri_private (snd x)))])"
    and "sch_rotation_count s' = sch_rotation_count s + 1" and "sch_packet_count s' = 0"
proof -
  let ?s = "s\<lparr>sch_rotation_count := sch_rotation_count s + 1, sch_packet_count := 0, sch_session_start := ri_reset (snd x),
      sch_log := sch_log s @ [event_entry ev]\<rparr>"
  let ?e = "snd (rotate_session C (ri_private (snd x)) (ri_created (snd x)) e)"
    and ?c = "c @ [rotation_event_to_dict ev (x25519_public C (ri_private (snd x)))]"
  have due: "should_rotate s (fst x) = Some (CountExceeded 10 10)"
    using assms(1-3) young [of T "fst x" "sch_session_start s"]
    by (simp add: should_rotate_def counting_def soon_pass_def sch_age_def float_int_def Let_def)
  have pass: "run_pass C x (s, e, c) = (?s, ?e, ?c)"
    using assms(4) by (simp add: run_pass_def due do_rotation_eq notify_def collect_event_def ev_def)
  have "counting T ?s" using assms(1,3) by (simp add: counting_def soon_pass_def)
  then have "run_thread C xs (?s, ?e, ?c) = (?s, ?e, ?c)" using assms(3) by (intro quiet_passes) auto
  moreover have "sch_running s" using assms(1) by (simp add: counting_def)
  ultimately show thesis using pass by (intro that [of ?s ?e]) simp_all
qed

lemma manual_rotation_result:
  obtains m ev where "scenario_manual_rotation C mi = m" and "mr_triggered m" and "mr_counter_reset m" and "mr_callbacks m = 1"
    and "mr_log_entries m = 1" and "ss_packet_count (mr_before m) = 20" and "ss_packet_count (mr_after m) = 0"
    and "ss_rotation_count (mr_after m) = 1"
    and "mr_events m = [rotation_event_to_dict ev (x25519_public C (ri_private (mi_rotation mi)))]"
    and "re_reason ev = ManualForce" and "re_rotation_num ev = 1" and "re_old_count ev = 20"
proof -
  let ?s = "(record_packet ^^ 20) (on_rotation collect_event (scheduler_init 9999 99999 ''mercedes_car_rotation_test'' (mi_started mi)))"
  show thesis
    by (rule that [of "scenario_manual_rotation C mi" "rotation_event_of (mi_rotation mi) ManualForce ?s"])
      (simp_all add: scenario_manual_rotation_def record_packets force_rotation_def do_rotation_eq notify_def collect_event_def
        on_rotation_def scheduler_init_def sched_status_of_def rotation_event_of_def Let_def split: prod.split)
qed

definition good_schedule :: "clock \<Rightarrow> count_inputs \<Rightarrow> bool" where
  "good_schedule T i =
     (soon T (ci_started i) \<and> (\<forall>x\<in>set (ci_first i). soon_pass T x) \<and> (\<forall>x\<in>set (ci_last i). soon_pass T x) \<and>
      (\<forall>k<9. \<forall>x\<in>set (ci_between i k). soon_pass T x) \<and> ci_last i \<noteq> [])"

lemma count_rotation_result:
  assumes "good_schedule T i"
  obtains r ev where "scenario_packet_count_rotation C i = r" and "cr_triggered r" and "cr_counter_reset r"
    and "cr_rotations r = 1" and "cr_callbacks r = 1" and "cr_packets_after r = 0"
    and "cr_events r = [rotation_event_to_dict ev (x25519_public C (ri_private (snd (hd (ci_last i)))))]"
    and "re_reason ev = CountExceeded 10 10" and "re_rotation_num ev = 1" and "re_old_count ev = 10"
proof -
  note good = assms [unfolded good_schedule_def]
  obtain pub e where e: "new_session C (ci_private i) (ci_created i) (engine_init ''mercedes_car_count_rotation'') = (pub, e)"
    by (cases "new_session C (ci_private i) (ci_created i) (engine_init ''mercedes_car_count_rotation'')")
  let ?s0 = "sched_start (on_rotation collect_event (scheduler_init 9999 10 ''mercedes_car_count_rotation'' (ci_started i)))"
  have s0: "counting T ?s0" "sch_packet_count ?s0 = 0" "sch_callbacks ?s0 = [collect_event]" "sch_rotation_count ?s0 = 0"
    using good by (simp_all add: counting_def sched_start_def on_rotation_def scheduler_init_def)
  let ?s10 = "?s0\<lparr>sch_packet_count := 10\<rparr>" and ?b = "map (ci_between i) [0..<9]"
  have first: "run_thread C (ci_first i) (?s0, e, []) = (?s0, e, [])"
    using s0(1,2) good by (intro quiet_passes [of T]) auto
  have mid: "\<forall>ps\<in>set ?b. \<forall>x\<in>set ps. soon_pass T x" using good by auto
  have run: "recorded_run C (?b @ [ci_last i]) (?s0, e, []) = run_thread C (ci_last i) (?s10, e, [])"
    using quiet_run [OF s0(1) _ mid, of C "[ci_last i]" e "[]"] s0(2) by (simp add: record_packet_def)
  obtain x xs where x: "ci_last i = x # xs" using good by (cases "ci_last i") auto
  have s10: "counting T ?s10" "sch_packet_count ?s10 = 10" "sch_callbacks ?s10 = [collect_event]" "sch_rotation_count ?s10 = 0"
    using s0 by (simp_all add: counting_def)
  let ?ev = "rotation_event_of (snd x) (CountExceeded 10 10) ?s10"
  have "\<forall>y\<in>set (x # xs). soon_pass T y" using good x by simp
  then obtain s' e' where last: "run_thread C (x # xs) (?s10, e, []) =
      (s', e', [] @ [rotation_event_to_dict ?ev (x25519_public C (ri_private (snd x)))])"
    "sch_rotation_count s' = sch_rotation_count ?s10 + 1" "sch_packet_count s' = 0"
    using tenth_packet [OF s10(1,2) _ s10(3)] by metis
  then have sim: "scenario_packet_count_rotation C i =
      \<lparr>cr_max_packets = 10, cr_recorded = 10, cr_rotations = 1, cr_callbacks = 1,
       cr_events = [rotation_event_to_dict ?ev (x25519_public C (ri_private (snd x)))], cr_triggered = True,
       cr_packets_after = 0, cr_counter_reset = True\<rparr>"
    using run first e s0(4) by (simp add: scenario_packet_count_rotation_def x sched_stop_def)
  show thesis by (rule that [OF sim, of ?ev]) (simp_all add: x rotation_event_of_def s0(4))
qed

text \<open>C22. The rotation triggers work as the evaluation reports them. A forced rotation after 20 packets is
  one rotation with one callback, log entry and reset of the counter, whose event is number 1 with the
  20 packets of the old key. And whenever the thread makes a pass after the tenth packet, and the whole
  takes less than 9998 seconds, then, however its passes interleave with the packets, it rotates exactly
  once, because of the ten packets, and the counter ends at zero.\<close>

theorem rotation_scenarios:
  assumes "good_schedule T i"
  shows "\<exists>m r ev ev'. rotation_main C mi i = (m, r) \<and>
    mr_triggered m \<and> mr_counter_reset m \<and> mr_callbacks m = 1 \<and> mr_log_entries m = 1 \<and>
    ss_packet_count (mr_before m) = 20 \<and> ss_packet_count (mr_after m) = 0 \<and> ss_rotation_count (mr_after m) = 1 \<and>
    mr_events m = [rotation_event_to_dict ev (x25519_public C (ri_private (mi_rotation mi)))] \<and>
    re_reason ev = ManualForce \<and> re_rotation_num ev = 1 \<and> re_old_count ev = 20 \<and>
    cr_triggered r \<and> cr_counter_reset r \<and> cr_rotations r = 1 \<and> cr_callbacks r = 1 \<and> cr_packets_after r = 0 \<and>
    cr_events r = [rotation_event_to_dict ev' (x25519_public C (ri_private (snd (hd (ci_last i)))))] \<and>
    re_reason ev' = CountExceeded 10 10 \<and> re_rotation_num ev' = 1 \<and> re_old_count ev' = 10"
  unfolding rotation_main_def
  by (rule manual_rotation_result [of C mi], rule count_rotation_result [OF assms, of C]) blast

definition sample_pass :: "clock \<Rightarrow> clock \<times> rotation_inputs" where
  "sample_pass t = (t, \<lparr>ri_now = t, ri_created = t, ri_reset = t, ri_private = [7], ri_stamp = []\<rparr>)"

definition sample_schedule :: count_inputs where
  "sample_schedule = \<lparr>ci_private = [1], ci_created = 0, ci_started = 0, ci_first = [sample_pass 1],
     ci_between = (\<lambda>k. if k = 4 then [sample_pass 2] else []), ci_last = [sample_pass 3, sample_pass 4]\<rparr>"

theorem rotation_scenarios_witness:
  "cr_rotations (snd (rotation_main demo_pyca \<lparr>mi_private = [1], mi_created = 0, mi_started = 0, mi_before = 1,
     mi_rotation = snd (sample_pass 2), mi_after = 3\<rparr> sample_schedule)) = 1"
proof -
  have "good_schedule 0 sample_schedule"
    by (simp add: good_schedule_def sample_schedule_def soon_pass_def soon_def sample_pass_def)
  from rotation_scenarios [OF this, of demo_pyca "\<lparr>mi_private = [1], mi_created = 0, mi_started = 0, mi_before = 1,
     mi_rotation = snd (sample_pass 2), mi_after = 3\<rparr>"] show ?thesis by auto
qed

end
