(* ===== verification/CornerAnalysis.thy ===== *)
theory CornerAnalysis
  imports FloatOrder "HOL-Library.Multiset"
begin

text \<open>
  \<open>performance/corner_analysis.py\<close>: the corners of a lap from its profile of speed over distance. Frames
  are records of the fields read, as the sensor makes them; the list of rows is modelled, not the data
  frame made of it, and not the debug output. Loops over indices are recursions over naturals. The
  theorems say what the reported corners promise: windows in order that do not overlap, apexes
  apart from each other, and no candidate dropped without a stronger one nearby.
\<close>

section \<open>Frames and laps\<close>

record raw_frame =
  rf_driver :: string
  rf_lap :: int
  rf_distance :: pyfloat
  rf_speed :: pyfloat
  rf_brake :: pyval
  rf_gear :: pyval

type_synonym lap_key = "string \<times> int"

text \<open>The groups in the order of their first frames, each with its frames in order.\<close>

fun add_to_group :: "'a raw_frame_scheme \<Rightarrow> (lap_key \<times> 'a raw_frame_scheme list) list \<Rightarrow> (lap_key \<times> 'a raw_frame_scheme list) list" where
  "add_to_group f [] = [((rf_driver f, rf_lap f), [f])]"
| "add_to_group f ((k, fs) # gs) =
     (if k = (rf_driver f, rf_lap f) then (k, fs @ [f]) # gs else (k, fs) # add_to_group f gs)"

definition group_by_lap :: "'a raw_frame_scheme list \<Rightarrow> (lap_key \<times> 'a raw_frame_scheme list) list" where
  "group_by_lap frames = fold add_to_group frames []"

text \<open>
  \<open>sorted\<close> is stable and compares with \<open><\<close> only. With a NaN among the keys its result depends on the
  algorithm; the theorems about the order of distances exclude that.
\<close>

fun insort_by :: "('a \<Rightarrow> 'a \<Rightarrow> bool) \<Rightarrow> 'a \<Rightarrow> 'a list \<Rightarrow> 'a list" where
  "insort_by lt x [] = [x]"
| "insort_by lt x (y # ys) = (if lt y x then y # insort_by lt x ys else x # y # ys)"

definition sort_by :: "('a \<Rightarrow> 'a \<Rightarrow> bool) \<Rightarrow> 'a list \<Rightarrow> 'a list" where
  "sort_by lt xs = foldr (insort_by lt) xs []"

definition sorted_by_distance :: "'a raw_frame_scheme list \<Rightarrow> 'a raw_frame_scheme list" where
  "sorted_by_distance = sort_by (\<lambda>f g. fless (rf_distance f) (rf_distance g))"

section \<open>Smoothing\<close>

definition median :: "pyfloat list \<Rightarrow> pyfloat" where
  "median values =
     (let ordered = sort_by fless values; n = length ordered
      in if n mod 2 = 1 then ordered ! (n div 2) else fdiv_pos (fadd (ordered ! (n div 2 - 1)) (ordered ! (n div 2))) 2)"

definition odd_window :: "int \<Rightarrow> int" where
  "odd_window w = (if w mod 2 = 0 then w + 1 else w)"

definition smooth_speeds :: "pyfloat list \<Rightarrow> int \<Rightarrow> pyfloat list" where
  "smooth_speeds speeds window =
     (if window \<le> 1 \<or> length speeds \<le> 2 then speeds
      else let radius = nat (odd_window window div 2)
           in map (\<lambda>i. median (drop (i - radius) (take (i + radius + 1) speeds))) [0..<length speeds])"

section \<open>Valleys\<close>

text \<open>The inner loop: how far a valley that starts at \<open>i\<close> reaches.\<close>

definition flat :: "pyfloat list \<Rightarrow> pyfloat \<Rightarrow> nat \<Rightarrow> bool" where
  "flat s tol i = fle (fabs (fsub (s ! (i + 1)) (s ! i))) tol"

function valley_end :: "pyfloat list \<Rightarrow> pyfloat \<Rightarrow> nat \<Rightarrow> nat" where
  "valley_end s tol i = (if i + 1 < length s \<and> flat s tol i then valley_end s tol (i + 1) else i)"
  by pat_completeness auto
termination by (relation "measure (\<lambda>(s, tol, i). length s - i)") auto

declare valley_end.simps [simp del]

text \<open>\<open>min\<close> of a list keeps the first of equal minima.\<close>

definition list_min :: "pyfloat list \<Rightarrow> pyfloat" where
  "list_min xs = fold (\<lambda>x m. fmin m x) (tl xs) (hd xs)"

definition lower_than_sides :: "pyfloat list \<Rightarrow> pyfloat \<Rightarrow> nat \<Rightarrow> nat \<Rightarrow> bool" where
  "lower_than_sides s tol i j =
     (let valley = list_min (drop i (take (j + 1) s))
      in fless valley (fsub (s ! (i - 1)) tol) \<and> fless valley (fsub (s ! min (j + 1) (length s - 1)) tol))"

definition may_start :: "pyfloat list \<Rightarrow> pyfloat \<Rightarrow> nat \<Rightarrow> bool" where
  "may_start s tol i = (fle (s ! i) (fadd (s ! (i - 1)) tol) \<and> fle (s ! i) (fadd (s ! (i + 1)) tol))"

lemma valley_end_ge: "i \<le> valley_end s tol i"
  by (induction s tol i rule: valley_end.induct) (subst valley_end.simps, auto dest: Suc_leD)

function valleys_from :: "pyfloat list \<Rightarrow> pyfloat \<Rightarrow> nat \<Rightarrow> (nat \<times> nat) list" where
  "valleys_from s tol i =
     (if i + 1 < length s
      then if may_start s tol i
           then let j = valley_end s tol i
                in (if lower_than_sides s tol i j then [(i, j)] else []) @ valleys_from s tol (j + 1)
           else valleys_from s tol (i + 1)
      else [])"
  by pat_completeness auto
termination
  by (relation "measure (\<lambda>(s, tol, i). length s - i)") (use valley_end_ge in \<open>auto intro: diff_less_mono2 simp: le_imp_less_Suc\<close>)

declare valleys_from.simps [simp del]

definition find_local_minima_ranges :: "pyfloat list \<Rightarrow> pyfloat \<Rightarrow> (nat \<times> nat) list" where
  "find_local_minima_ranges s tol = (if length s < 3 then [] else valleys_from s tol 1)"

section \<open>Candidates\<close>

text \<open>The first position of the minimum.\<close>

fun argmin_from :: "nat \<Rightarrow> nat \<Rightarrow> pyfloat \<Rightarrow> pyfloat list \<Rightarrow> nat" where
  "argmin_from k best m [] = best"
| "argmin_from k best m (x # xs) = (if fless x m then argmin_from (k + 1) k x xs else argmin_from (k + 1) best m xs)"

definition argmin :: "pyfloat list \<Rightarrow> nat" where
  "argmin xs = argmin_from 1 0 (hd xs) (tl xs)"

text \<open>The searches to both sides: the highest speed up to where it starts to fall again.\<close>

fun left_peak :: "pyfloat list \<Rightarrow> nat \<Rightarrow> pyfloat \<Rightarrow> pyfloat" where
  "left_peak s 0 peak = peak"
| "left_peak s (Suc i) peak =
     (let p = fmax peak (s ! i) in if 0 < i \<and> fless (s ! (i - 1)) (s ! i) then p else left_peak s i p)"

function right_peak :: "pyfloat list \<Rightarrow> nat \<Rightarrow> pyfloat \<Rightarrow> pyfloat" where
  "right_peak s i peak =
     (if i < length s
      then let p = fmax peak (s ! i) in if i + 1 < length s \<and> fless (s ! (i + 1)) (s ! i) then p else right_peak s (i + 1) p
      else peak)"
  by pat_completeness auto
termination by (relation "measure (\<lambda>(s, i, peak). length s - i)") auto

declare right_peak.simps [simp del]

definition prominence :: "pyfloat list \<Rightarrow> nat \<Rightarrow> pyfloat" where
  "prominence s i = fsub (fmin (left_peak s i (s ! i)) (right_peak s (i + 1) (s ! i))) (s ! i)"

record candidate =
  cd_apex :: nat
  cd_prominence :: pyfloat

definition valley_candidate :: "pyfloat list \<Rightarrow> pyfloat list \<Rightarrow> nat \<times> nat \<Rightarrow> candidate" where
  "valley_candidate speeds smoothed r =
     (let apex = fst r + argmin (drop (fst r) (take (snd r + 1) speeds))
      in \<lparr>cd_apex = apex, cd_prominence = prominence smoothed apex\<rparr>)"

definition candidate_corners :: "pyfloat list \<Rightarrow> pyfloat \<Rightarrow> int \<Rightarrow> pyfloat \<Rightarrow> candidate list" where
  "candidate_corners speeds min_prominence window tol =
     (let smoothed = smooth_speeds speeds window
      in filter (\<lambda>c. fle min_prominence (cd_prominence c))
           (map (valley_candidate speeds smoothed) (find_local_minima_ranges smoothed tol)))"

text \<open>The strongest first (\<open>reverse=True\<close> is stable); each is kept unless it is too close to one kept before.\<close>

definition too_close :: "pyfloat list \<Rightarrow> pyfloat \<Rightarrow> candidate \<Rightarrow> candidate \<Rightarrow> bool" where
  "too_close distances min_separation c d = fless (fabs (fsub (distances ! cd_apex c) (distances ! cd_apex d))) min_separation"

definition ranked :: "candidate list \<Rightarrow> candidate list" where
  "ranked = sort_by (\<lambda>c d. fless (cd_prominence d) (cd_prominence c))"

definition keep_apart :: "pyfloat list \<Rightarrow> pyfloat \<Rightarrow> candidate \<Rightarrow> candidate list \<Rightarrow> candidate list" where
  "keep_apart distances min_separation c selected =
     (if \<exists>d\<in>set selected. too_close distances min_separation c d then selected else selected @ [c])"

definition greedy :: "pyfloat list \<Rightarrow> pyfloat \<Rightarrow> candidate list \<Rightarrow> candidate list" where
  "greedy distances min_separation cs = fold (keep_apart distances min_separation) cs []"

definition select_non_overlapping :: "candidate list \<Rightarrow> pyfloat list \<Rightarrow> pyfloat \<Rightarrow> candidate list" where
  "select_non_overlapping cs distances min_separation =
     sort_key cd_apex (greedy distances min_separation (ranked cs))"

section \<open>Corners\<close>

text \<open>The walks from the apex to entry and exit.\<close>

fun find_entry :: "pyfloat list \<Rightarrow> pyfloat \<Rightarrow> nat \<Rightarrow> nat" where
  "find_entry s tol 0 = 0"
| "find_entry s tol (Suc i) = (if fle (fsub (s ! Suc i) tol) (s ! i) then find_entry s tol i else Suc i)"

function find_exit :: "pyfloat list \<Rightarrow> pyfloat \<Rightarrow> nat \<Rightarrow> nat" where
  "find_exit s tol i =
     (if i + 1 < length s \<and> fle (fsub (s ! i) tol) (s ! (i + 1)) then find_exit s tol (i + 1) else i)"
  by pat_completeness auto
termination by (relation "measure (\<lambda>(s, tol, i). length s - i)") auto

declare find_exit.simps [simp del]

record window =
  wn_entry :: nat
  wn_apex :: nat
  wn_exit :: nat

text \<open>Both ends are clipped at the middle to the neighbouring apex.\<close>

definition corner_window :: "pyfloat list \<Rightarrow> pyfloat \<Rightarrow> candidate list \<Rightarrow> nat \<Rightarrow> window" where
  "corner_window speeds tol cs i =
     (let apex = cd_apex (cs ! i); entry = find_entry speeds tol apex; exit = find_exit speeds tol apex
      in \<lparr>wn_entry = (if 0 < i then max entry ((cd_apex (cs ! (i - 1)) + apex) div 2) else entry), wn_apex = apex,
          wn_exit = (if i + 1 < length cs then min exit ((apex + cd_apex (cs ! (i + 1))) div 2) else exit)\<rparr>)"

record corner =
  co_driver :: string
  co_lap :: int
  co_number :: nat
  co_entry_distance :: pyfloat
  co_apex_distance :: pyfloat
  co_exit_distance :: pyfloat
  co_entry_speed :: pyfloat
  co_apex_speed :: pyfloat
  co_exit_speed :: pyfloat
  co_prominence :: pyfloat
  co_braked :: bool
  co_gear :: pyval

definition valid_window :: "raw_frame list \<Rightarrow> window \<Rightarrow> bool" where
  "valid_window fs w =
     (wn_entry w < wn_apex w \<and> wn_apex w < wn_exit w \<and>
      fless (rf_distance (fs ! wn_entry w)) (rf_distance (fs ! wn_apex w)) \<and>
      fless (rf_distance (fs ! wn_apex w)) (rf_distance (fs ! wn_exit w)))"

definition corner_of :: "lap_key \<Rightarrow> raw_frame list \<Rightarrow> nat \<Rightarrow> window \<Rightarrow> pyfloat \<Rightarrow> corner" where
  "corner_of key fs number w prom =
     (let entry = fs ! wn_entry w; apex = fs ! wn_apex w; exit = fs ! wn_exit w
      in \<lparr>co_driver = fst key, co_lap = snd key, co_number = number,
          co_entry_distance = rf_distance entry, co_apex_distance = rf_distance apex, co_exit_distance = rf_distance exit,
          co_entry_speed = rf_speed entry, co_apex_speed = rf_speed apex, co_exit_speed = rf_speed exit,
          co_prominence = prom, co_braked = (\<exists>f\<in>set (drop (wn_entry w) (take (wn_apex w + 1) fs)). truthy (rf_brake f)),
          co_gear = rf_gear apex\<rparr>)"

record corner_params =
  cp_prominence :: pyfloat
  cp_window :: int
  cp_separation :: pyfloat
  cp_tolerance :: pyfloat

definition default_params :: corner_params where
  "default_params = \<lparr>cp_prominence = FFin 15, cp_window = 5, cp_separation = FFin 40, cp_tolerance = FFin 5\<rparr>"

definition add_corner :: "corner_params \<Rightarrow> lap_key \<Rightarrow> raw_frame list \<Rightarrow> candidate list \<Rightarrow> nat \<Rightarrow> corner list \<Rightarrow> corner list" where
  "add_corner p key fs cs i corners =
     (let w = corner_window (map rf_speed fs) (cp_tolerance p) cs i
      in if valid_window fs w then corners @ [corner_of key fs (length corners + 1) w (cd_prominence (cs ! i))] else corners)"

definition selected_candidates :: "corner_params \<Rightarrow> raw_frame list \<Rightarrow> candidate list" where
  "selected_candidates p fs =
     select_non_overlapping (candidate_corners (map rf_speed fs) (cp_prominence p) (cp_window p) (cp_tolerance p))
       (map rf_distance fs) (cp_separation p)"

definition detect_corners_for_lap :: "corner_params \<Rightarrow> lap_key \<Rightarrow> raw_frame list \<Rightarrow> corner list" where
  "detect_corners_for_lap p key frames =
     (let fs = sorted_by_distance frames; cs = selected_candidates p fs
      in if length fs < 3 then [] else fold (add_corner p key fs cs) [0..<length cs] [])"

definition analyzer_init :: "corner_params \<Rightarrow> corner_params res" where
  "analyzer_init p =
     (if fless (cp_prominence p) (FFin 0) then Inl ValueErr
      else if cp_window p < 1 then Inl ValueErr
      else if fless (cp_separation p) (FFin 0) then Inl ValueErr
      else if fless (cp_tolerance p) (FFin 0) then Inl ValueErr
      else Inr p)"

definition corner_rows :: "corner_params \<Rightarrow> raw_frame list \<Rightarrow> corner list" where
  "corner_rows p frames = concat (map (\<lambda>(key, fs). detect_corners_for_lap p key fs) (group_by_lap frames))"

section \<open>Sorting\<close>

lemma mset_sort_by: "mset (sort_by lt xs) = mset xs"
proof -
  have ins: "mset (insort_by lt x ys) = add_mset x (mset ys)" for x ys by (induction ys) simp_all
  show ?thesis by (induction xs) (simp_all add: sort_by_def ins)
qed

lemma set_sort_by [simp]: "set (sort_by lt xs) = set xs"
  using arg_cong [OF mset_sort_by [of lt xs], of set_mset] by simp

lemma length_sort_by [simp]: "length (sort_by lt xs) = length xs"
  using arg_cong [OF mset_sort_by [of lt xs], of size] by simp

text \<open>With a comparison that is a strict weak order on the elements, none comes before a smaller one.\<close>

definition weak_order_on :: "'a set \<Rightarrow> ('a \<Rightarrow> 'a \<Rightarrow> bool) \<Rightarrow> bool" where
  "weak_order_on A lt =
     (\<forall>x\<in>A. \<forall>y\<in>A. (lt x y \<longrightarrow> \<not> lt y x) \<and> (\<forall>z\<in>A. \<not> lt y x \<longrightarrow> \<not> lt z y \<longrightarrow> \<not> lt z x))"

lemma weak_order_subset: "weak_order_on A lt \<Longrightarrow> B \<subseteq> A \<Longrightarrow> weak_order_on B lt"
  unfolding weak_order_on_def by blast

lemma weak_order_asym: "weak_order_on A lt \<Longrightarrow> x \<in> A \<Longrightarrow> y \<in> A \<Longrightarrow> lt x y \<Longrightarrow> \<not> lt y x"
  unfolding weak_order_on_def by blast

lemma weak_order_trans: "weak_order_on A lt \<Longrightarrow> x \<in> A \<Longrightarrow> y \<in> A \<Longrightarrow> z \<in> A \<Longrightarrow> \<not> lt y x \<Longrightarrow> \<not> lt z y \<Longrightarrow> \<not> lt z x"
  unfolding weak_order_on_def by blast

lemma set_insort_by: "set (insort_by lt x ys) = insert x (set ys)"
  by (induction ys) auto

lemma sorted_insort_by:
  assumes "weak_order_on (insert x (set ys)) lt" and "sorted_wrt (\<lambda>a b. \<not> lt b a) ys"
  shows "sorted_wrt (\<lambda>a b. \<not> lt b a) (insort_by lt x ys)"
  using assms
proof (induction ys)
  case (Cons y ys)
  have w: "weak_order_on (insert x (set ys)) lt" by (rule weak_order_subset [OF Cons.prems(1)]) auto
  show ?case
  proof (cases "lt y x")
    case True
    then have "\<not> lt x y" using weak_order_asym [OF Cons.prems(1), of y x] by simp
    moreover have "sorted_wrt (\<lambda>a b. \<not> lt b a) (insort_by lt x ys)" using Cons.IH [OF w] Cons.prems(2) by simp
    ultimately show ?thesis using True Cons.prems(2) by (simp add: set_insort_by)
  next
    case False
    have "\<not> lt z x" if "z \<in> set ys" for z
      using weak_order_trans [OF Cons.prems(1), of x y z] that False Cons.prems(2) by simp
    then show ?thesis using False Cons.prems(2) by simp
  qed
qed simp

lemma sorted_sort_by: "weak_order_on (set xs) lt \<Longrightarrow> sorted_wrt (\<lambda>a b. \<not> lt b a) (sort_by lt xs)"
proof (induction xs)
  case (Cons x xs)
  have w: "weak_order_on (set xs) lt" by (rule weak_order_subset [OF Cons.prems]) auto
  have step: "sort_by lt (x # xs) = insort_by lt x (sort_by lt xs)" by (simp add: sort_by_def)
  have "weak_order_on (insert x (set (sort_by lt xs))) lt" using Cons.prems by simp
  then show ?case unfolding step using Cons.IH [OF w] by (rule sorted_insort_by)
qed (simp add: sort_by_def)

lemma fless_weak_order:
  assumes "\<forall>x\<in>A. f x \<noteq> FNan"
  shows "weak_order_on A (\<lambda>x y. fless (f x) (f y))" and "weak_order_on A (\<lambda>x y. fless (f y) (f x))"
  using assms fless_asym fless_neg_trans unfolding weak_order_on_def by metis+

lemma distances_ordered:
  assumes "\<forall>f\<in>set frames. rf_distance f \<noteq> FNan" and "i \<le> j" and "j < length frames"
  shows "fle (rf_distance (sorted_by_distance frames ! i)) (rf_distance (sorted_by_distance frames ! j))"
proof -
  let ?fs = "sorted_by_distance frames"
  have "sorted_wrt (\<lambda>f g. \<not> fless (rf_distance g) (rf_distance f)) ?fs"
    unfolding sorted_by_distance_def using fless_weak_order(1) [OF assms(1)] by (rule sorted_sort_by)
  then have s: "\<not> fless (rf_distance (?fs ! j)) (rf_distance (?fs ! i))" if "i < j"
    using that assms(3) by (simp add: sorted_wrt_iff_nth_less sorted_by_distance_def)
  have nan: "rf_distance (?fs ! k) \<noteq> FNan" if "k < length frames" for k
    using assms(1) that nth_mem [of k ?fs] by (simp add: sorted_by_distance_def)
  show ?thesis
  proof (cases "i = j")
    case True
    then show ?thesis using nan [of j] assms(3) by (cases "rf_distance (?fs ! j)") (simp_all add: fle_def)
  next
    case False
    then show ?thesis using s nan assms by (intro not_fless_fle) simp_all
  qed
qed

section \<open>Candidates in order\<close>

lemma valley_end_less: "i < length s \<Longrightarrow> valley_end s tol i < length s"
  by (induction s tol i rule: valley_end.induct) (subst valley_end.simps, auto)

lemma valleys_from_order:
  "sorted_wrt (\<lambda>r r'. snd r < fst r') (valleys_from s tol i) \<and>
   (\<forall>r\<in>set (valleys_from s tol i). i \<le> fst r \<and> fst r \<le> snd r \<and> snd r < length s)"
proof (induction s tol i rule: valleys_from.induct)
  case (1 s tol i)
  let ?j = "valley_end s tol i"
  show ?case
  proof (cases "i + 1 < length s")
    case True
    note j = valley_end_ge [of i s tol] valley_end_less [of i s tol]
    show ?thesis
    proof (cases "may_start s tol i")
      case start: True
      have "\<forall>r\<in>set (valleys_from s tol (?j + 1)). ?j < fst r" using "1.IH"(1) [OF True start refl] by auto
      then show ?thesis using "1.IH"(1) [OF True start refl] True start j
        by (subst (1 2) valleys_from.simps) (auto simp: Let_def)
    next
      case False
      then show ?thesis using "1.IH"(2) [OF True False] True by (subst (1 2) valleys_from.simps) auto
    qed
  next
    case False
    then show ?thesis by (simp add: valleys_from.simps)
  qed
qed

lemma argmin_less: "xs \<noteq> [] \<Longrightarrow> argmin xs < length xs"
proof -
  have "argmin_from k b m ys < k + length ys" if "b < k" for k b m ys
    using that by (induction k b m ys rule: argmin_from.induct) auto
  from this [of 0 1] show "xs \<noteq> [] \<Longrightarrow> argmin xs < length xs" by (cases xs) (auto simp: argmin_def)
qed

lemma length_smooth [simp]: "length (smooth_speeds s w) = length s"
  by (simp add: smooth_speeds_def Let_def)

lemma valley_candidate_apex:
  assumes "fst r \<le> snd r" and "snd r < length speeds"
  shows "fst r \<le> cd_apex (valley_candidate speeds sm r) \<and> cd_apex (valley_candidate speeds sm r) \<le> snd r"
proof -
  let ?w = "drop (fst r) (take (snd r + 1) speeds)"
  have "length ?w = snd r + 1 - fst r" using assms by simp
  moreover from this have "?w \<noteq> []" using assms by fastforce
  ultimately have "argmin ?w < snd r + 1 - fst r" using argmin_less [of ?w] by simp
  then show ?thesis by (simp add: valley_candidate_def Let_def)
qed

lemma candidates_ordered:
  "sorted_wrt (\<lambda>c d. cd_apex c < cd_apex d) (candidate_corners speeds mp w tol) \<and>
   (\<forall>c\<in>set (candidate_corners speeds mp w tol). cd_apex c < length speeds \<and> fle mp (cd_prominence c))"
proof -
  let ?sm = "smooth_speeds speeds w" and ?f = "valley_candidate speeds (smooth_speeds speeds w)"
  define rs where "rs = find_local_minima_ranges ?sm tol"
  have rs: "sorted_wrt (\<lambda>r r'. snd r < fst r') rs" "\<forall>r\<in>set rs. fst r \<le> snd r \<and> snd r < length speeds"
    using valleys_from_order [of ?sm tol 1] by (auto simp: rs_def find_local_minima_ranges_def)
  have "sorted_wrt (\<lambda>r r'. cd_apex (?f r) < cd_apex (?f r')) rs"
  proof (rule sorted_wrt_mono_rel [OF _ rs(1)])
    fix r r' assume "r \<in> set rs" "r' \<in> set rs" "snd r < fst r'"
    then show "cd_apex (?f r) < cd_apex (?f r')"
      using valley_candidate_apex [of r speeds ?sm] valley_candidate_apex [of r' speeds ?sm] rs(2) by fastforce
  qed
  moreover have "cd_apex (?f r) < length speeds" if "r \<in> set rs" for r
    using valley_candidate_apex [of r speeds ?sm] rs(2) that by fastforce
  ultimately show ?thesis
    by (auto simp: candidate_corners_def Let_def rs_def [symmetric] sorted_wrt_map intro!: sorted_wrt_filter)
qed

section \<open>The selection\<close>

lemma too_close_sym: "too_close ds m c d = too_close ds m d c"
proof -
  have "fabs (fsub a b) = fabs (fsub b a)" for a b
  proof (cases "(a, b)" rule: fsub.cases)
    case (1 x y)
    have "fneg (fneg z) = z" for z by (cases z) simp_all
    then have "fneg (fl q) = fl (- q)" for q by (cases "q = 0"; cases "0 < q") (simp_all add: fl_def)
    then have "fl (y - x) = fneg (fl (x - y))" by (metis minus_diff_eq)
    moreover have "fabs (fneg z) = fabs z" for z by (cases z) simp_all
    ultimately show ?thesis using 1 by simp
  qed auto
  then show ?thesis by (simp add: too_close_def)
qed

text \<open>What the greedy choice keeps is apart, and what it drops is close to something at least as prominent.\<close>

lemma greedy_simps: "greedy ds m [] = []" "greedy ds m (cs @ [c]) = keep_apart ds m c (greedy ds m cs)"
  by (simp_all add: greedy_def)

lemma greedy_subset: "set (greedy ds m cs) \<subseteq> set cs"
  by (induction cs rule: rev_induct) (auto simp: greedy_simps keep_apart_def)

lemma distinct_greedy: "distinct cs \<Longrightarrow> distinct (greedy ds m cs)"
proof (induction cs rule: rev_induct)
  case (snoc c cs)
  then show ?case using greedy_subset [of ds m cs] by (auto simp: greedy_simps keep_apart_def)
qed (simp add: greedy_simps)

lemma greedy_apart: "pairwise (\<lambda>c d. \<not> too_close ds m c d) (set (greedy ds m cs))"
  by (induction cs rule: rev_induct) (auto simp: greedy_simps keep_apart_def pairwise_insert too_close_sym)

lemma greedy_covers:
  "sorted_wrt (\<lambda>a b. \<not> lt b a) cs \<Longrightarrow> c \<in> set cs \<Longrightarrow>
   c \<in> set (greedy ds m cs) \<or> (\<exists>d\<in>set (greedy ds m cs). too_close ds m c d \<and> \<not> lt c d)"
proof (induction cs rule: rev_induct)
  case (snoc x cs)
  have keeps: "set (greedy ds m cs) \<subseteq> set (greedy ds m (cs @ [x]))" by (auto simp: greedy_simps keep_apart_def)
  show ?case
  proof (cases "c \<in> set cs")
    case True
    then show ?thesis using snoc keeps by (auto simp: sorted_wrt_append)
  next
    case False
    then have "c = x" using snoc.prems by simp
    then show ?thesis using snoc.prems(1) greedy_subset [of ds m cs]
      by (auto simp: greedy_simps keep_apart_def sorted_wrt_append)
  qed
qed simp

lemma set_selected: "set (select_non_overlapping cs ds m) = set (greedy ds m (ranked cs))"
  by (simp add: select_non_overlapping_def)

lemma selected_order:
  assumes "sorted_wrt (\<lambda>c d. cd_apex c < cd_apex d) cs"
  shows "sorted_wrt (\<lambda>c d. cd_apex c < cd_apex d) (select_non_overlapping cs ds m)"
proof -
  let ?S = "greedy ds m (ranked cs)"
  have "distinct cs" and inj: "inj_on cd_apex (set cs)"
    using assms by (auto simp: sorted_wrt_iff_nth_less distinct_conv_nth inj_on_def in_set_conv_nth) (metis nat_neq_iff)+
  have "mset (ranked cs) = mset cs" by (simp add: ranked_def mset_sort_by)
  then have "distinct (ranked cs)" using \<open>distinct cs\<close> mset_eq_imp_distinct_iff by blast
  then have d: "distinct (sort_key cd_apex ?S)" by (simp add: distinct_greedy)
  have "set ?S \<subseteq> set cs" using greedy_subset [of ds m "ranked cs"] by (simp add: ranked_def)
  then have "inj_on cd_apex (set (sort_key cd_apex ?S))" using inj by (auto intro: inj_on_subset)
  with d have "distinct (map cd_apex (sort_key cd_apex ?S))" by (simp add: distinct_map)
  moreover have "sorted (map cd_apex (sort_key cd_apex ?S))" by simp
  ultimately have "sorted_wrt (<) (map cd_apex (sort_key cd_apex ?S))" by (simp only: strict_sorted_iff)
  then show "sorted_wrt (\<lambda>c d. cd_apex c < cd_apex d) (select_non_overlapping cs ds m)"
    by (simp add: select_non_overlapping_def sorted_wrt_map)
qed

section \<open>Windows\<close>

lemma find_entry_le: "find_entry s tol i \<le> i"
  by (induction s tol i rule: find_entry.induct) auto

lemma find_exit_less: "i < length s \<Longrightarrow> find_exit s tol i < length s"
  by (induction s tol i rule: find_exit.induct) (subst find_exit.simps, auto)

lemma window_in_lap:
  assumes "i < length cs" and "\<forall>c\<in>set cs. cd_apex c < length speeds"
  shows "wn_apex (corner_window speeds tol cs i) < length speeds" and "wn_exit (corner_window speeds tol cs i) < length speeds"
proof -
  have a: "cd_apex (cs ! i) < length speeds" using assms by simp
  then show "wn_apex (corner_window speeds tol cs i) < length speeds" by (simp add: corner_window_def Let_def)
  show "wn_exit (corner_window speeds tol cs i) < length speeds"
    using find_exit_less [OF a, of tol] by (simp add: corner_window_def Let_def min_less_iff_disj)
qed

text \<open>Clipped at the middle between neighbouring apexes, windows of an ordered list cannot overlap.\<close>

lemma windows_apart:
  assumes "sorted_wrt (\<lambda>c d. cd_apex c < cd_apex d) cs" and "i < j" and "j < length cs"
  shows "wn_exit (corner_window speeds tol cs i) \<le> wn_entry (corner_window speeds tol cs j)"
proof -
  let ?a = "\<lambda>k. cd_apex (cs ! k)"
  have mono: "?a k \<le> ?a l" if "k \<le> l" "l < length cs" for k l
    using assms(1) that by (cases "k = l") (auto simp: sorted_wrt_iff_nth_less less_imp_le)
  have "wn_exit (corner_window speeds tol cs i) \<le> (?a i + ?a (i + 1)) div 2"
    using assms(2,3) by (simp add: corner_window_def Let_def)
  also have "\<dots> \<le> (?a (j - 1) + ?a j) div 2"
    using mono [of i "j - 1"] mono [of "i + 1" j] assms(2,3) by (intro div_le_mono add_mono) simp_all
  also have "\<dots> \<le> wn_entry (corner_window speeds tol cs j)" using assms(2) by (simp add: corner_window_def Let_def)
  finally show ?thesis .
qed

text \<open>The corners of a lap are those of the valid windows, numbered in order.\<close>

lemma fold_add_corner:
  "fold (add_corner p key fs cs) is [] =
     (let vs = filter (\<lambda>i. valid_window fs (corner_window (map rf_speed fs) (cp_tolerance p) cs i)) is
      in map (\<lambda>n. corner_of key fs (n + 1) (corner_window (map rf_speed fs) (cp_tolerance p) cs (vs ! n)) (cd_prominence (cs ! (vs ! n))))
           [0..<length vs])"
  by (induction "is" rule: rev_induct) (auto simp: add_corner_def Let_def nth_append)

lemma corner_of_simps [simp]:
  "co_number (corner_of key fs n w q) = n" "co_prominence (corner_of key fs n w q) = q"
  "co_entry_distance (corner_of key fs n w q) = rf_distance (fs ! wn_entry w)"
  "co_apex_distance (corner_of key fs n w q) = rf_distance (fs ! wn_apex w)"
  "co_exit_distance (corner_of key fs n w q) = rf_distance (fs ! wn_exit w)"
  by (simp_all add: corner_of_def Let_def)

text \<open>What the rows of a lap are made of: an increasing choice of the selected candidates.\<close>

lemma detected_rows:
  obtains vs where "sorted_wrt (<) vs" and "\<forall>v\<in>set vs. v < length (selected_candidates p (sorted_by_distance frames))"
    and "\<forall>v\<in>set vs. valid_window (sorted_by_distance frames)
      (corner_window (map rf_speed (sorted_by_distance frames)) (cp_tolerance p) (selected_candidates p (sorted_by_distance frames)) v)"
    and "detect_corners_for_lap p key frames =
      map (\<lambda>n. corner_of key (sorted_by_distance frames) (n + 1)
             (corner_window (map rf_speed (sorted_by_distance frames)) (cp_tolerance p) (selected_candidates p (sorted_by_distance frames)) (vs ! n))
             (cd_prominence (selected_candidates p (sorted_by_distance frames) ! (vs ! n)))) [0..<length vs]"
proof -
  let ?fs = "sorted_by_distance frames" and ?cs = "selected_candidates p (sorted_by_distance frames)"
  let ?P = "\<lambda>i. valid_window ?fs (corner_window (map rf_speed ?fs) (cp_tolerance p) ?cs i)"
  define vs where "vs = (if length ?fs < 3 then [] else filter ?P [0..<length ?cs])"
  have "sorted_wrt (<) vs" by (simp add: vs_def sorted_wrt_filter)
  moreover have "\<forall>v\<in>set vs. v < length ?cs" "\<forall>v\<in>set vs. ?P v" by (simp_all add: vs_def)
  moreover have "detect_corners_for_lap p key frames =
      map (\<lambda>n. corner_of key ?fs (n + 1) (corner_window (map rf_speed ?fs) (cp_tolerance p) ?cs (vs ! n)) (cd_prominence (?cs ! (vs ! n)))) [0..<length vs]"
    by (simp add: detect_corners_for_lap_def fold_add_corner Let_def vs_def)
  ultimately show thesis by (rule that)
qed

lemma selected_candidates_order:
  defines "cs \<equiv> \<lambda>p fs. selected_candidates p fs"
  shows "sorted_wrt (\<lambda>c d. cd_apex c < cd_apex d) (cs p fs)"
    and "\<forall>c\<in>set (cs p fs). cd_apex c < length fs \<and> fle (cp_prominence p) (cd_prominence c)"
proof -
  let ?cc = "candidate_corners (map rf_speed fs) (cp_prominence p) (cp_window p) (cp_tolerance p)"
  note o = candidates_ordered [of "map rf_speed fs" "cp_prominence p" "cp_window p" "cp_tolerance p"]
  show "sorted_wrt (\<lambda>c d. cd_apex c < cd_apex d) (cs p fs)"
    using o selected_order by (simp add: cs_def selected_candidates_def)
  have "set (cs p fs) \<subseteq> set ?cc"
    using o set_selected [of ?cc] greedy_subset [of _ _ "ranked ?cc"] by (simp add: cs_def selected_candidates_def ranked_def)
  then show "\<forall>c\<in>set (cs p fs). cd_apex c < length fs \<and> fle (cp_prominence p) (cd_prominence c)" using o by auto
qed

text \<open>C23. The corners reported for a lap are numbered from one in the order of the lap; each has its entry before
  its apex and its apex before its exit, and at least the prominence asked for; no corner reaches into
  the next one; and any two apexes are at least the configured separation apart. This needs nothing of
  the speeds, and of the distances only that none is NaN, so that they can be sorted.\<close>

theorem corners_in_order:
  assumes "\<forall>f\<in>set frames. rf_distance f \<noteq> FNan"
  shows "let cs = detect_corners_for_lap p key frames
    in (\<forall>n<length cs. co_number (cs ! n) = n + 1 \<and> fless (co_entry_distance (cs ! n)) (co_apex_distance (cs ! n)) \<and>
          fless (co_apex_distance (cs ! n)) (co_exit_distance (cs ! n)) \<and> fle (cp_prominence p) (co_prominence (cs ! n))) \<and>
       (\<forall>n<length cs. \<forall>m<n. fle (co_exit_distance (cs ! m)) (co_entry_distance (cs ! n)) \<and>
          \<not> fless (fabs (fsub (co_apex_distance (cs ! m)) (co_apex_distance (cs ! n)))) (cp_separation p))"
proof -
  let ?fs = "sorted_by_distance frames" and ?cs = "selected_candidates p (sorted_by_distance frames)"
  let ?w = "corner_window (map rf_speed ?fs) (cp_tolerance p) ?cs"
  obtain vs where vs: "sorted_wrt (<) vs" "\<forall>v\<in>set vs. v < length ?cs" "\<forall>v\<in>set vs. valid_window ?fs (?w v)"
    and rows: "detect_corners_for_lap p key frames =
      map (\<lambda>n. corner_of key ?fs (n + 1) (?w (vs ! n)) (cd_prominence (?cs ! (vs ! n)))) [0..<length vs]"
    by (rule detected_rows)
  note order = selected_candidates_order [of p ?fs]
  have len: "length ?fs = length frames" by (simp add: sorted_by_distance_def)
  have one: "fle (cp_prominence p) (cd_prominence (?cs ! (vs ! n))) \<and> valid_window ?fs (?w (vs ! n)) \<and> vs ! n < length ?cs" if "n < length vs" for n
    using that vs order(2) by simp
  have pair: "fle (rf_distance (?fs ! wn_exit (?w (vs ! m)))) (rf_distance (?fs ! wn_entry (?w (vs ! n)))) \<and>
      \<not> fless (fabs (fsub (rf_distance (?fs ! wn_apex (?w (vs ! m)))) (rf_distance (?fs ! wn_apex (?w (vs ! n)))))) (cp_separation p)"
    if "m < n" "n < length vs" for m n
  proof
    have mn: "vs ! m < vs ! n" "vs ! n < length ?cs" using that vs by (simp_all add: sorted_wrt_iff_nth_less)
    have "wn_entry (?w (vs ! n)) < wn_apex (?w (vs ! n))" using one [OF that(2)] by (simp add: valid_window_def)
    also have "\<dots> < length frames" using window_in_lap(1) [of "vs ! n" ?cs "map rf_speed ?fs"] mn(2) order(2) len by simp
    finally show "fle (rf_distance (?fs ! wn_exit (?w (vs ! m)))) (rf_distance (?fs ! wn_entry (?w (vs ! n))))"
      using windows_apart [OF order(1) mn] by (intro distances_ordered [OF assms])
    let ?c = "?cs ! (vs ! m)" and ?d = "?cs ! (vs ! n)"
    have apex: "wn_apex (?w i) = cd_apex (?cs ! i)" for i by (simp add: corner_window_def Let_def)
    have "?c \<noteq> ?d" using order(1) mn by (auto simp: sorted_wrt_iff_nth_less dest!: spec)
    moreover have "?c \<in> set ?cs" "?d \<in> set ?cs" using mn by simp_all
    ultimately have "\<not> too_close (map rf_distance ?fs) (cp_separation p) ?c ?d"
      using greedy_apart set_selected unfolding selected_candidates_def pairwise_def by metis
    moreover have "cd_apex ?c < length ?fs" "cd_apex ?d < length ?fs" using order(2) mn by simp_all
    ultimately show "\<not> fless (fabs (fsub (rf_distance (?fs ! wn_apex (?w (vs ! m)))) (rf_distance (?fs ! wn_apex (?w (vs ! n)))))) (cp_separation p)"
      by (simp add: too_close_def apex)
  qed
  show ?thesis using one pair by (auto simp: rows Let_def valid_window_def)
qed

text \<open>The selection is a maximal one by prominence: it takes candidates only, keeps them apart, and a candidate
  it leaves out is too close to one it keeps that is at least as prominent.\<close>

theorem selection_covers:
  "let cs = candidate_corners speeds mp w tol; S = set (select_non_overlapping cs ds m)
   in S \<subseteq> set cs \<and> pairwise (\<lambda>c d. \<not> too_close ds m c d) S \<and>
      set cs - S \<subseteq> {c. \<exists>d\<in>S. too_close ds m c d \<and> fle (cd_prominence c) (cd_prominence d)}"
proof -
  let ?cs = "candidate_corners speeds mp w tol" and ?R = "ranked (candidate_corners speeds mp w tol)"
  have nan: "\<forall>c\<in>set ?cs. cd_prominence c \<noteq> FNan" using candidates_ordered fle_not_nan by blast
  then have "sorted_wrt (\<lambda>a b. \<not> fless (cd_prominence a) (cd_prominence b)) ?R"
    unfolding ranked_def by (intro sorted_sort_by fless_weak_order(2))
  then have cov: "c \<in> set (greedy ds m ?R) \<or> (\<exists>d\<in>set (greedy ds m ?R). too_close ds m c d \<and> \<not> fless (cd_prominence d) (cd_prominence c))"
    if "c \<in> set ?cs" for c
    using greedy_covers [of "\<lambda>a b. fless (cd_prominence b) (cd_prominence a)" ?R c ds m] that by (simp add: ranked_def)
  have sub: "set (greedy ds m ?R) \<subseteq> set ?cs" using greedy_subset [of ds m ?R] by (simp add: ranked_def)
  have S: "set (select_non_overlapping ?cs ds m) = set (greedy ds m ?R)" by (rule set_selected)
  have "\<exists>d\<in>set (greedy ds m ?R). too_close ds m c d \<and> fle (cd_prominence c) (cd_prominence d)"
    if c: "c \<in> set ?cs - set (greedy ds m ?R)" for c
  proof -
    obtain d where d: "d \<in> set (greedy ds m ?R)" "too_close ds m c d" "\<not> fless (cd_prominence d) (cd_prominence c)"
      using cov c by blast
    then have "cd_prominence c \<noteq> FNan" "cd_prominence d \<noteq> FNan" using nan c sub by auto
    with d have "fle (cd_prominence c) (cd_prominence d)" by (intro not_fless_fle)
    with d show ?thesis by blast
  qed
  then show ?thesis using sub greedy_apart [of ds m ?R] by (simp add: Let_def S subset_iff)
qed

text \<open>A lap with two corners.\<close>

definition sample_frame :: "int \<Rightarrow> int \<Rightarrow> raw_frame" where
  "sample_frame d s = \<lparr>rf_driver = ''VER'', rf_lap = 1, rf_distance = FFin (of_int d), rf_speed = FFin (of_int s),
     rf_brake = PBool (s < 100), rf_gear = PInt 3\<rparr>"

definition sample_lap :: "raw_frame list" where
  "sample_lap = [sample_frame 200 200, sample_frame 0 200, sample_frame 50 60, sample_frame 100 200, sample_frame 150 60]"

definition sample_params :: corner_params where
  "sample_params = default_params\<lparr>cp_window := 1\<rparr>"

lemma sample_sorted: "sorted_by_distance sample_lap =
   [sample_frame 0 200, sample_frame 50 60, sample_frame 100 200, sample_frame 150 60, sample_frame 200 200]"
  by (simp add: sorted_by_distance_def sort_by_def sample_lap_def sample_frame_def)

definition two_valleys :: "pyfloat list" where "two_valleys = [FFin 200, FFin 60, FFin 200, FFin 60, FFin 200]"

lemma two_valleys_nth: "two_valleys ! 0 = FFin 200" "two_valleys ! Suc 0 = FFin 60" "two_valleys ! 2 = FFin 200" "two_valleys ! Suc (Suc 0) = FFin 200" "two_valleys ! 3 = FFin 60" "two_valleys ! 4 = FFin 200" "length two_valleys = 5"
  by (simp_all add: two_valleys_def)

lemma two_valleys_flat: "\<not> flat two_valleys (FFin 5) (Suc 0)" "\<not> flat two_valleys (FFin 5) 3"
  by (simp_all add: flat_def two_valleys_nth fl_numeral)

lemma two_valleys_end: "valley_end two_valleys (FFin 5) (Suc 0) = Suc 0" "valley_end two_valleys (FFin 5) 3 = 3"
  by (simp_all add: valley_end.simps [of _ _ "Suc 0"] valley_end.simps [of _ _ 3] two_valleys_flat)

lemma two_valleys_start: "may_start two_valleys (FFin 5) (Suc 0)" "\<not> may_start two_valleys (FFin 5) (Suc (Suc 0))" "may_start two_valleys (FFin 5) 3"
  by (simp_all add: may_start_def two_valleys_nth fl_numeral fadd_def)

lemma two_valleys_lower: "lower_than_sides two_valleys (FFin 5) (Suc 0) (Suc 0)" "lower_than_sides two_valleys (FFin 5) 3 3"
  by (simp_all add: lower_than_sides_def two_valleys_nth fl_numeral Let_def list_min_def) (simp_all add: two_valleys_def fl_numeral)

lemma two_valleys_valleys: "find_local_minima_ranges two_valleys (FFin 5) = [(1, 1), (3, 3)]"
proof -
  have "valleys_from two_valleys (FFin 5) (Suc 0) = (1, 1) # valleys_from two_valleys (FFin 5) (Suc (Suc 0))"
    by (subst valleys_from.simps) (simp add: two_valleys_nth two_valleys_start two_valleys_lower two_valleys_end Let_def)
  moreover have "valleys_from two_valleys (FFin 5) (Suc (Suc 0)) = valleys_from two_valleys (FFin 5) 3"
    by (subst valleys_from.simps) (simp add: two_valleys_nth two_valleys_start eval_nat_numeral)
  moreover have "valleys_from two_valleys (FFin 5) 3 = (3, 3) # valleys_from two_valleys (FFin 5) 4"
    by (subst valleys_from.simps) (simp add: two_valleys_nth two_valleys_start two_valleys_lower two_valleys_end Let_def)
  moreover have "valleys_from two_valleys (FFin 5) 4 = []" by (subst valleys_from.simps) (simp add: two_valleys_nth)
  ultimately show ?thesis by (simp add: find_local_minima_ranges_def two_valleys_nth)
qed

lemma sample_speeds: "map rf_speed (sorted_by_distance sample_lap) = two_valleys"
  by (simp add: sample_sorted two_valleys_def sample_frame_def)

lemma two_valleys_prom: "prominence two_valleys 1 = FFin 140" "prominence two_valleys 3 = FFin 140"
  by (simp_all add: prominence_def eval_nat_numeral right_peak.simps fmax_def fmin_def two_valleys_def fl_numeral Let_def)

lemma sample_selected: "selected_candidates sample_params (sorted_by_distance sample_lap) =
   [\<lparr>cd_apex = 1, cd_prominence = FFin 140\<rparr>, \<lparr>cd_apex = 3, cd_prominence = FFin 140\<rparr>]"
proof -
  have d: "map rf_distance (sorted_by_distance sample_lap) = [FFin 0, FFin 50, FFin 100, FFin 150, FFin 200]"
    by (simp add: sample_sorted sample_frame_def)
  have v: "valley_candidate two_valleys two_valleys (1, 1) = \<lparr>cd_apex = 1, cd_prominence = FFin 140\<rparr>"
    "valley_candidate two_valleys two_valleys (3, 3) = \<lparr>cd_apex = 3, cd_prominence = FFin 140\<rparr>"
    using two_valleys_prom by (simp_all add: valley_candidate_def argmin_def two_valleys_def)
  show ?thesis
    by (simp add: selected_candidates_def sample_speeds d candidate_corners_def smooth_speeds_def sample_params_def default_params_def
        two_valleys_valleys v [simplified] select_non_overlapping_def ranked_def sort_by_def greedy_def keep_apart_def too_close_def fl_numeral)
qed

lemma sample_corners:
  "map (\<lambda>c. (co_entry_distance c, co_apex_distance c, co_exit_distance c))
     (detect_corners_for_lap sample_params (''VER'', 1) sample_lap) =
   [(FFin 0, FFin 50, FFin 100), (FFin 100, FFin 150, FFin 200)]"
proof -
  have e: "find_entry two_valleys (FFin 5) 1 = 0" "find_entry two_valleys (FFin 5) 3 = 2"
    by (simp_all add: eval_nat_numeral two_valleys_def fl_numeral)
  have x: "find_exit two_valleys (FFin 5) 1 = 2" "find_exit two_valleys (FFin 5) 3 = 4"
    by (simp_all add: eval_nat_numeral find_exit.simps two_valleys_def fl_numeral)
  let ?cs = "[\<lparr>cd_apex = 1, cd_prominence = FFin 140\<rparr>, \<lparr>cd_apex = 3, cd_prominence = FFin 140\<rparr>]"
  have w: "corner_window two_valleys (FFin 5) ?cs 0 = \<lparr>wn_entry = 0, wn_apex = 1, wn_exit = 2\<rparr>"
    "corner_window two_valleys (FFin 5) ?cs 1 = \<lparr>wn_entry = 2, wn_apex = 3, wn_exit = 4\<rparr>"
    by (simp_all add: corner_window_def Let_def e [simplified] x [simplified])
  have "detect_corners_for_lap sample_params (''VER'', 1) sample_lap =
      fold (add_corner sample_params (''VER'', 1) (sorted_by_distance sample_lap) ?cs) [0, 1] []"
  proof -
    have "length (sorted_by_distance sample_lap) = 5" by (simp add: sample_sorted)
    then show ?thesis unfolding detect_corners_for_lap_def Let_def sample_selected by (simp add: upt_rec)
  qed
  moreover have "cp_tolerance sample_params = FFin 5" by (simp add: sample_params_def default_params_def)
  ultimately show ?thesis
    by (simp add: add_corner_def sample_speeds w [simplified] Let_def)
       (simp add: valid_window_def sample_sorted sample_frame_def corner_of_def)
qed

lemma corners_in_order_witness:
  "length (detect_corners_for_lap sample_params (''VER'', 1) sample_lap) = 2 \<and>
   (let cs = detect_corners_for_lap sample_params (''VER'', 1) sample_lap
   in (\<forall>n<length cs. co_number (cs ! n) = n + 1 \<and> fless (co_entry_distance (cs ! n)) (co_apex_distance (cs ! n)) \<and>
         fless (co_apex_distance (cs ! n)) (co_exit_distance (cs ! n)) \<and> fle (cp_prominence sample_params) (co_prominence (cs ! n))) \<and>
      (\<forall>n<length cs. \<forall>m<n. fle (co_exit_distance (cs ! m)) (co_entry_distance (cs ! n)) \<and>
         \<not> fless (fabs (fsub (co_apex_distance (cs ! m)) (co_apex_distance (cs ! n)))) (cp_separation sample_params)))"
proof
  show "length (detect_corners_for_lap sample_params (''VER'', 1) sample_lap) = 2"
    using arg_cong [OF sample_corners, of length] by simp
qed (rule corners_in_order, simp add: sample_lap_def sample_frame_def)

section \<open>Grouping\<close>

text \<open>Every frame is in the group of its driver and lap, groups have different keys, and none is empty.\<close>

definition lap_group :: "lap_key \<times> 'a raw_frame_scheme list \<Rightarrow> bool" where
  "lap_group g = (snd g \<noteq> [] \<and> (\<forall>f\<in>set (snd g). (rf_driver f, rf_lap f) = fst g))"

lemma add_to_group_keys: "fst ` set (add_to_group f gs) = insert (rf_driver f, rf_lap f) (fst ` set gs)"
  by (induction f gs rule: add_to_group.induct) auto

lemma add_to_group_distinct: "distinct (map fst gs) \<Longrightarrow> distinct (map fst (add_to_group f gs))"
proof (induction f gs rule: add_to_group.induct)
  case (2 f k fs gs)
  then have "k \<noteq> (rf_driver f, rf_lap f) \<Longrightarrow> k \<notin> fst ` set (add_to_group f gs)" by (auto simp: add_to_group_keys image_iff)
  with 2 show ?case by (auto simp: image_iff)
qed simp

lemma add_to_group_frames: "mset (concat (map snd (add_to_group f gs))) = add_mset f (mset (concat (map snd gs)))"
  by (induction f gs rule: add_to_group.induct) simp_all

lemma lap_group_snoc: "lap_group (k, fs) \<Longrightarrow> k = (rf_driver f, rf_lap f) \<Longrightarrow> lap_group (k, fs @ [f])"
  unfolding lap_group_def by auto

lemma add_to_group_ok: "\<forall>g\<in>set gs. lap_group g \<Longrightarrow> \<forall>g\<in>set (add_to_group f gs). lap_group g"
proof (induction f gs rule: add_to_group.induct)
  case (1 f)
  show ?case by (simp add: lap_group_def)
next
  case (2 f k fs gs)
  then show ?case using lap_group_snoc [of k fs f] by (cases "k = (rf_driver f, rf_lap f)") simp_all
qed

lemma group_by_lap_groups:
  "distinct (map fst (group_by_lap frames)) \<and> (\<forall>g\<in>set (group_by_lap frames). lap_group g) \<and>
   mset (concat (map snd (group_by_lap frames))) = mset frames"
proof (induction frames rule: rev_induct)
  case (snoc f frames)
  let ?gs = "group_by_lap frames"
  have step: "group_by_lap (frames @ [f]) = add_to_group f ?gs" by (simp add: group_by_lap_def)
  from snoc have "distinct (map fst ?gs)" "\<forall>g\<in>set ?gs. lap_group g" by simp_all
  then show ?case using snoc by (simp only: step add_to_group_frames) (auto intro: add_to_group_distinct add_to_group_ok [rule_format])
qed (simp add: group_by_lap_def)

end
