(* ===== verification/SectorAnalysis.thy ===== *)
theory SectorAnalysis
  imports CornerAnalysis
begin

text \<open>
  \<open>performance/sector_analysis.py\<close>: a lap cut into sectors of equal distance, and what each sector's frames
  measure. Time stamps are microseconds, as of the \<open>datetime\<close> objects the analyzer accepts; the parsing of
  ISO text is not modelled, nor the data frame made of the rows. The number of sectors is one that a float
  represents exactly. The theorems say how the sectors divide the frames of a lap, and where rounding makes
  them lose one.
\<close>

section \<open>Numbers\<close>

definition list_max :: "pyfloat list \<Rightarrow> pyfloat" where
  "list_max xs = fold (\<lambda>x m. fmax m x) (tl xs) (hd xs)"

fun fmul_nat :: "pyfloat \<Rightarrow> nat \<Rightarrow> pyfloat" where
  "fmul_nat (FFin q) k = fl (q * of_nat k)"
| "fmul_nat x k = (if k = 0 then FNan else x)"

text \<open>\<open>math.fsum\<close> rounds the exact sum once; it refuses infinities of both signs, and an infinite sum of finite values.\<close>

fun fin_part :: "pyfloat \<Rightarrow> rat" where
  "fin_part (FFin q) = q"
| "fin_part x = 0"

definition fsum :: "pyfloat list \<Rightarrow> pyfloat res" where
  "fsum xs =
     (if FPInf \<in> set xs \<and> FNInf \<in> set xs then Inl ValueErr
      else if FNan \<in> set xs then Inr FNan
      else if FPInf \<in> set xs then Inr FPInf
      else if FNInf \<in> set xs then Inr FNInf
      else case fl (sum_list (map fin_part xs)) of FFin q \<Rightarrow> Inr (FFin q) | _ \<Rightarrow> Inl OverflowErr)"

definition fmean :: "pyfloat list \<Rightarrow> pyfloat res" where
  "fmean xs = rbind (fsum xs) (\<lambda>s. Inr (fdiv_pos s (of_nat (length xs))))"

section \<open>Sectors\<close>

record sector_frame = raw_frame +
  sf_time :: int
  sf_throttle :: pyfloat

definition sorted_by_time :: "sector_frame list \<Rightarrow> sector_frame list" where
  "sorted_by_time = sort_by (\<lambda>f g. sf_time f < sf_time g)"

text \<open>The boundary \<open>k\<close> of \<open>n\<close> sectors: where sector \<open>k\<close> begins and the one before it ends.\<close>

definition sector_bound :: "pyfloat \<Rightarrow> pyfloat \<Rightarrow> nat \<Rightarrow> nat \<Rightarrow> pyfloat" where
  "sector_bound dist_min width n k = fadd dist_min (fdiv_pos (fmul_nat width k) (of_nat n))"

definition lap_bound :: "nat \<Rightarrow> 'a raw_frame_scheme list \<Rightarrow> nat \<Rightarrow> pyfloat" where
  "lap_bound n ordered k =
     (let distances = map rf_distance ordered; dist_min = list_min distances
      in sector_bound dist_min (fsub (list_max distances) dist_min) n k)"

definition sector_frames :: "nat \<Rightarrow> 'a raw_frame_scheme list \<Rightarrow> nat \<Rightarrow> 'a raw_frame_scheme list" where
  "sector_frames n ordered k =
     (let lo = lap_bound n ordered k; hi = lap_bound n ordered (k + 1)
      in if k = n - 1 then filter (\<lambda>f. fle lo (rf_distance f) \<and> fle (rf_distance f) hi) ordered
         else filter (\<lambda>f. fle lo (rf_distance f) \<and> fless (rf_distance f) hi) ordered)"

record sector_row =
  sr_driver :: string
  sr_lap :: int
  sr_sector :: nat
  sr_frames :: nat
  sr_start :: pyfloat
  sr_end :: pyfloat
  sr_span :: pyfloat
  sr_top_speed :: pyfloat
  sr_avg_speed :: pyfloat
  sr_avg_throttle :: pyfloat
  sr_braking :: pyfloat

definition observed_span :: "sector_frame list \<Rightarrow> pyfloat" where
  "observed_span fs = (let ts = map sf_time (sorted_by_time fs) in fl (of_int (last ts - hd ts) / 10 ^ 6))"

definition braking_pct :: "'a raw_frame_scheme list \<Rightarrow> pyfloat" where
  "braking_pct fs = fdiv_pos (fl (100 * of_nat (length (filter (\<lambda>f. truthy (rf_brake f)) fs)))) (of_nat (length fs))"

definition sector_metrics :: "lap_key \<Rightarrow> nat \<Rightarrow> sector_frame list \<Rightarrow> pyfloat \<Rightarrow> pyfloat \<Rightarrow> sector_row res" where
  "sector_metrics key number fs lo hi =
     rbind (fmean (map rf_speed fs)) (\<lambda>avg_speed. rbind (fmean (map sf_throttle fs)) (\<lambda>avg_throttle.
       Inr \<lparr>sr_driver = fst key, sr_lap = snd key, sr_sector = number, sr_frames = length fs, sr_start = lo, sr_end = hi,
         sr_span = observed_span fs, sr_top_speed = list_max (map rf_speed fs), sr_avg_speed = avg_speed,
         sr_avg_throttle = avg_throttle, sr_braking = braking_pct fs\<rparr>))"

text \<open>A loop that appends what its body gives, and ends with the first exception.\<close>

fun each :: "('a \<Rightarrow> exn + 'b) \<Rightarrow> 'a list \<Rightarrow> exn + 'b list" where
  "each f [] = Inr []"
| "each f (x # xs) = rbind (f x) (\<lambda>y. rbind (each f xs) (\<lambda>ys. Inr (y # ys)))"

definition lap_sectors :: "nat \<Rightarrow> lap_key \<Rightarrow> sector_frame list \<Rightarrow> sector_row list res" where
  "lap_sectors n key frames =
     (let ordered = sorted_by_distance frames
      in each (\<lambda>k. sector_metrics key (k + 1) (sector_frames n ordered k) (lap_bound n ordered k) (lap_bound n ordered (k + 1)))
           (filter (\<lambda>k. sector_frames n ordered k \<noteq> []) [0..<n]))"

definition sector_init :: "int \<Rightarrow> int res" where
  "sector_init n = (if n < 1 then Inl ValueErr else Inr n)"

definition sector_rows :: "nat \<Rightarrow> sector_frame list \<Rightarrow> sector_row list res" where
  "sector_rows n frames = rbind (each (\<lambda>(key, fs). lap_sectors n key fs) (group_by_lap frames)) (\<lambda>rss. Inr (concat rss))"

section \<open>Boundaries\<close>

text \<open>A distance as telemetry has it: a double that is not negative.\<close>

definition distance_ok :: "'a raw_frame_scheme \<Rightarrow> bool" where
  "distance_ok f = (case rf_distance f of FFin q \<Rightarrow> 0 \<le> q \<and> fl q = FFin q | _ \<Rightarrow> False)"

lemma fold_fmin: "m \<noteq> FNan \<Longrightarrow> FNan \<notin> set xs \<Longrightarrow>
  fold (\<lambda>x m. fmin m x) xs m \<in> insert m (set xs) \<and> (\<forall>x\<in>insert m (set xs). fle (fold (\<lambda>x m. fmin m x) xs m) x)"
proof (induction xs arbitrary: m)
  case Nil
  then show ?case by (cases m) (simp_all add: fle_def)
next
  case (Cons x xs)
  let ?m = "fmin m x"
  have m: "?m \<noteq> FNan" "fle ?m m" "fle ?m x" "?m = m \<or> ?m = x"
    using Cons.prems by (cases m; cases x; auto simp: fmin_def fle_def)+
  let ?r = "fold (\<lambda>x m. fmin m x) xs ?m"
  have r: "?r \<in> insert ?m (set xs)" "fle ?r ?m" "\<forall>x\<in>set xs. fle ?r x" using Cons.IH [OF m(1)] Cons.prems(2) by simp_all
  then have "fle ?r m" "fle ?r x" using m(2,3) fle_trans by blast+
  then show ?case using r m(4) by auto
qed

lemma fold_fmax: "m \<noteq> FNan \<Longrightarrow> FNan \<notin> set xs \<Longrightarrow>
  fold (\<lambda>x m. fmax m x) xs m \<in> insert m (set xs) \<and> (\<forall>x\<in>insert m (set xs). fle x (fold (\<lambda>x m. fmax m x) xs m))"
proof (induction xs arbitrary: m)
  case Nil
  then show ?case by (cases m) (simp_all add: fle_def)
next
  case (Cons x xs)
  let ?m = "fmax m x"
  have m: "?m \<noteq> FNan" "fle m ?m" "fle x ?m" "?m = m \<or> ?m = x"
    using Cons.prems by (cases m; cases x; auto simp: fmax_def fle_def)+
  let ?r = "fold (\<lambda>x m. fmax m x) xs ?m"
  have r: "?r \<in> insert ?m (set xs)" "fle ?m ?r" "\<forall>x\<in>set xs. fle x ?r" using Cons.IH [OF m(1)] Cons.prems(2) by simp_all
  then have "fle m ?r" "fle x ?r" using m(2,3) fle_trans by blast+
  then show ?case using r m(4) by auto
qed

lemma list_min_max:
  assumes "xs \<noteq> []" and "FNan \<notin> set xs"
  shows "list_min xs \<in> set xs" and "x \<in> set xs \<Longrightarrow> fle (list_min xs) x"
    and "list_max xs \<in> set xs" and "x \<in> set xs \<Longrightarrow> fle x (list_max xs)"
  using assms fold_fmin [of "hd xs" "tl xs"] fold_fmax [of "hd xs" "tl xs"]
  by (cases xs; auto simp: list_min_def list_max_def)+

section \<open>How the sectors divide a lap\<close>

lemma lap_bounds:
  assumes "fs \<noteq> []" and "\<forall>f\<in>set fs. distance_ok f" and "0 < n"
  shows "lap_bound n fs 0 = list_min (map rf_distance fs)" and "fle (lap_bound n fs k) (lap_bound n fs (Suc k))"
proof -
  let ?ds = "map rf_distance fs"
  have fin: "\<exists>q\<ge>0. d = FFin q \<and> fl q = FFin q" if "d \<in> set ?ds" for d
  proof -
    obtain f where f: "f \<in> set fs" "d = rf_distance f" using \<open>d \<in> set ?ds\<close> by auto
    with assms(2) have "distance_ok f" by blast
    then show ?thesis unfolding f(2) by (cases "rf_distance f") (simp_all add: distance_ok_def)
  qed
  have ds: "?ds \<noteq> []" "FNan \<notin> set ?ds" using assms(1) fin by auto
  obtain l where l: "list_min ?ds = FFin l" "0 \<le> l" "fl l = FFin l" using fin list_min_max(1) [OF ds] by blast
  obtain h where h: "list_max ?ds = FFin h" "fl h = FFin h" using fin list_min_max(3) [OF ds] by blast
  have lh: "l \<le> h" using list_min_max(2) [OF ds list_min_max(3) [OF ds]] l h by simp
  obtain w where w: "fsub (FFin h) (FFin l) = FFin w" "0 \<le> w"
  proof -
    have "fle (fl 0) (fl (h - l))" "fle (fl (h - l)) (fl h)" using lh l(2) by (intro fl_mono; simp)+
    then show thesis using that h(2) by (cases "fl (h - l)") (simp_all add: fl_def fle_ends)
  qed
  have bound: "lap_bound n fs k = fadd (FFin l) (fdiv_pos (fl (w * of_nat k)) (of_nat n))" for k
    using w(1) by (simp add: lap_bound_def sector_bound_def l h Let_def)
  show "lap_bound n fs 0 = list_min ?ds" by (simp add: bound l fadd_def fl_def [of 0])
  have "fle (fl (w * of_nat k)) (fl (w * of_nat (Suc k)))" using w(2) by (intro fl_mono mult_left_mono) simp_all
  then show "fle (lap_bound n fs k) (lap_bound n fs (Suc k))" using assms(3)
    by (simp only: bound) (intro fadd_mono fdiv_pos_mono; simp)
qed

text \<open>In a sorted list, the elements below a bound come before those above it.\<close>

lemma filter_append_sorted:
  assumes "sorted_wrt R xs" and "\<And>x y. P y \<Longrightarrow> Q x \<Longrightarrow> \<not> R x y" and "\<And>x. \<not> (P x \<and> Q x)"
  shows "filter P xs @ filter Q xs = filter (\<lambda>x. P x \<or> Q x) xs"
  using assms(1)
proof (induction xs)
  case (Cons x xs)
  show ?case
  proof (cases "Q x")
    case True
    then have "filter P xs = []" using Cons.prems assms(2) by (auto simp: filter_empty_conv)
    moreover have "\<not> P x" using True assms(3) by blast
    ultimately show ?thesis using True by (auto simp: filter_empty_conv intro!: filter_cong)
  next
    case False
    then show ?thesis using Cons by simp
  qed
qed simp

lemma filter_below_above:
  assumes "sorted_wrt (\<lambda>f g. \<not> fless (rf_distance g) (rf_distance f)) fs" and "\<forall>f\<in>set fs. rf_distance f \<noteq> FNan" and "fle lo hi"
  shows "filter (\<lambda>f. fless (rf_distance f) lo) fs @ filter (\<lambda>f. fle lo (rf_distance f) \<and> fless (rf_distance f) hi) fs =
      filter (\<lambda>f. fless (rf_distance f) hi) fs"
    and "filter (\<lambda>f. fless (rf_distance f) lo) fs @ filter (\<lambda>f. fle lo (rf_distance f) \<and> fle (rf_distance f) hi) fs =
      filter (\<lambda>f. fle (rf_distance f) hi) fs"
proof -
  have step: "fless d lo \<Longrightarrow> fle lo e \<Longrightarrow> fless d e" "fless d lo \<Longrightarrow> \<not> fle lo d" "d \<noteq> FNan \<Longrightarrow> \<not> fless d lo \<Longrightarrow> fle lo d"
    "fless d lo \<Longrightarrow> fless d hi" "fless d lo \<Longrightarrow> fle d hi" for d e
    using assms(3) by (cases d; cases e; cases lo; cases hi; auto simp: fle_def)+
  have cut: "filter (\<lambda>f. fless (rf_distance f) lo) fs @ filter (\<lambda>f. fle lo (rf_distance f) \<and> Q f) fs =
      filter (\<lambda>f. fless (rf_distance f) lo \<or> fle lo (rf_distance f) \<and> Q f) fs" for Q
    using step(1,2) by (intro filter_append_sorted [OF assms(1)]) blast+
  show "filter (\<lambda>f. fless (rf_distance f) lo) fs @ filter (\<lambda>f. fle lo (rf_distance f) \<and> fless (rf_distance f) hi) fs =
      filter (\<lambda>f. fless (rf_distance f) hi) fs"
    unfolding cut using assms(2) step(3,4) by (intro filter_cong) auto
  show "filter (\<lambda>f. fless (rf_distance f) lo) fs @ filter (\<lambda>f. fle lo (rf_distance f) \<and> fle (rf_distance f) hi) fs =
      filter (\<lambda>f. fle (rf_distance f) hi) fs"
    unfolding cut using assms(2) step(3,5) by (intro filter_cong) auto
qed

lemma sectors_cut:
  assumes "\<forall>f\<in>set frames. distance_ok f" and "0 < n"
  shows "concat (map (sector_frames n (sorted_by_distance frames)) [0..<n]) =
    filter (\<lambda>f. fle (rf_distance f) (lap_bound n (sorted_by_distance frames) n)) (sorted_by_distance frames)"
proof (cases "frames = []")
  case True
  then show ?thesis by (auto simp: sorted_by_distance_def sort_by_def sector_frames_def Let_def)
next
  case False
  let ?fs = "sorted_by_distance frames" and ?B = "lap_bound n (sorted_by_distance frames)"
  have ok: "?fs \<noteq> []" "\<forall>f\<in>set ?fs. distance_ok f" using assms(1) False
    by (simp_all add: sorted_by_distance_def flip: length_greater_0_conv)
  have nan: "\<forall>f\<in>set frames. rf_distance f \<noteq> FNan" using assms(1) by (auto simp: distance_ok_def)
  have s: "sorted_wrt (\<lambda>f g. \<not> fless (rf_distance g) (rf_distance f)) ?fs"
    unfolding sorted_by_distance_def using fless_weak_order(1) [OF nan] by (rule sorted_sort_by)
  have nan': "\<forall>f\<in>set ?fs. rf_distance f \<noteq> FNan" using nan by (simp add: sorted_by_distance_def)
  note cut = filter_below_above [OF s nan' lap_bounds(2) [OF ok assms(2)]]
  have "concat (map (sector_frames n ?fs) [0..<k]) = filter (\<lambda>f. fless (rf_distance f) (?B k)) ?fs" if "k < n" for k
    using that
  proof (induction k)
    case 0
    have "\<not> fless (rf_distance f) (?B 0)" if "f \<in> set ?fs" for f
    proof -
      have "FNan \<notin> set (map rf_distance ?fs)" using nan' by auto
      then have "fle (?B 0) (rf_distance f)" using list_min_max(2) ok(1) that lap_bounds(1) [OF ok assms(2)] by auto
      then show ?thesis by (rule fle_not_fless)
    qed
    then show ?case by (simp add: filter_empty_conv)
  next
    case (Suc k)
    then have "sector_frames n ?fs k = filter (\<lambda>f. fle (?B k) (rf_distance f) \<and> fless (rf_distance f) (?B (Suc k))) ?fs"
      by (simp add: sector_frames_def Let_def)
    then show ?case using Suc cut(1) [of k] by simp
  qed
  then have "concat (map (sector_frames n ?fs) [0..<n - 1]) = filter (\<lambda>f. fless (rf_distance f) (?B (n - 1))) ?fs" using assms(2) by simp
  moreover have "[0..<n] = [0..<n - 1] @ [n - 1]" using assms(2) by (metis Suc_pred' upt_Suc_append zero_le)
  moreover have "sector_frames n ?fs (n - 1) = filter (\<lambda>f. fle (?B (n - 1)) (rf_distance f) \<and> fle (rf_distance f) (?B n)) ?fs"
    using assms(2) by (simp add: sector_frames_def Let_def)
  ultimately show ?thesis using cut(2) [of "n - 1"] assms(2) by simp
qed

section \<open>The rows\<close>

lemma each_Inr: "each f xs = Inr ys \<longleftrightarrow> list_all2 (\<lambda>x y. f x = Inr y) xs ys"
  by (induction xs arbitrary: ys) (auto simp: rbind_Inr_iff list_all2_Cons1)

lemma map_list_all2:
  assumes "list_all2 P ks rs" and "\<And>k r. P k r \<Longrightarrow> g r = h k"
  shows "map g rs = map h ks"
  using assms by (induction rule: list_all2_induct) auto

lemma concat_nonempty: "concat (map f (filter (\<lambda>k. f k \<noteq> []) ks)) = concat (map f ks)"
  by (induction ks) simp_all

lemma sector_metrics_row:
  assumes "sector_metrics key number fs lo hi = Inr r"
  shows "sr_sector r = number \<and> sr_frames r = length fs \<and> sr_start r = lo \<and> sr_end r = hi"
  using assms by (auto simp: sector_metrics_def rbind_Inr_iff)

lemma lap_rows:
  fixes ordered :: "sector_frame list"
  assumes "lap_sectors n key frames = Inr rows"
  defines "ordered \<equiv> sorted_by_distance frames"
  shows "map (\<lambda>r. (sr_sector r, sr_frames r, sr_start r, sr_end r)) rows =
    map (\<lambda>k. (k + 1, length (sector_frames n ordered k), lap_bound n ordered k, lap_bound n ordered (k + 1)))
      (filter (\<lambda>k. sector_frames n ordered k \<noteq> []) [0..<n])"
proof -
  let ?ks = "filter (\<lambda>k. sector_frames n ordered k \<noteq> []) [0..<n]"
  have "list_all2 (\<lambda>k r. sector_metrics key (k + 1) (sector_frames n ordered k) (lap_bound n ordered k) (lap_bound n ordered (k + 1)) = Inr r) ?ks rows"
    using assms(1) by (simp add: lap_sectors_def each_Inr Let_def ordered_def)
  then show ?thesis by (rule map_list_all2) (auto dest: sector_metrics_row)
qed

lemma rows_count:
  assumes "lap_sectors n key frames = Inr rows" and "\<forall>f\<in>set frames. distance_ok f" and "0 < n"
  shows "sum_list (map sr_frames rows) = length (filter (\<lambda>f. fle (rf_distance f) (lap_bound n (sorted_by_distance frames) n)) frames)"
proof -
  let ?fs = "sorted_by_distance frames" and ?ks = "filter (\<lambda>k. sector_frames n (sorted_by_distance frames) k \<noteq> []) [0..<n]"
  have "map sr_frames rows = map (\<lambda>k. length (sector_frames n ?fs k)) ?ks"
    using arg_cong [OF lap_rows [OF assms(1)], of "map (\<lambda>(a, b, c, d). b)"] by (simp add: comp_def)
  then have "sum_list (map sr_frames rows) = length (concat (map (sector_frames n ?fs) ?ks))" by (simp add: length_concat comp_def)
  also have "concat (map (sector_frames n ?fs) ?ks) = concat (map (sector_frames n ?fs) [0..<n])" by (rule concat_nonempty)
  also have "length \<dots> = length (filter (\<lambda>f. fle (rf_distance f) (lap_bound n ?fs n)) ?fs)" by (simp only: sectors_cut [OF assms(2,3)])
  also have "\<dots> = length (filter (\<lambda>f. fle (rf_distance f) (lap_bound n ?fs n)) frames)"
    using arg_cong [OF mset_sort_by, of "\<lambda>m. size (filter_mset (\<lambda>f. fle (rf_distance f) (lap_bound n ?fs n)) m)"]
    by (simp add: sorted_by_distance_def flip: mset_filter size_mset)
  finally show ?thesis .
qed

text \<open>C24. The sectors of a lap divide its frames: every frame up to the end of the last sector is counted in exactly
  one row, so that the frame counts of the rows add up; the rows are in the order of the lap, each is one of
  the requested sectors, is not empty, and ends where the next sector begins.\<close>

theorem sector_rows_account:
  assumes "lap_sectors n key frames = Inr rows" and "\<forall>f\<in>set frames. distance_ok f" and "0 < n"
  shows "let B = lap_bound n (sorted_by_distance frames)
    in sum_list (map sr_frames rows) = length (filter (\<lambda>f. fle (rf_distance f) (B n)) frames) \<and>
       sorted_wrt (<) (map sr_sector rows) \<and>
       (\<forall>r\<in>set rows. 1 \<le> sr_sector r \<and> sr_sector r \<le> n \<and> 0 < sr_frames r \<and> sr_start r = B (sr_sector r - 1) \<and> sr_end r = B (sr_sector r))"
proof -
  let ?fs = "sorted_by_distance frames" and ?ks = "filter (\<lambda>k. sector_frames n (sorted_by_distance frames) k \<noteq> []) [0..<n]"
  note rows = lap_rows [OF assms(1)]
  have "map sr_sector rows = map Suc ?ks" using arg_cong [OF rows, of "map (\<lambda>(a, b, c, d). a)"] by (simp add: comp_def)
  moreover have "sorted_wrt (<) ?ks" by (simp add: sorted_wrt_filter)
  ultimately have order: "sorted_wrt (<) (map sr_sector rows)" by (simp add: sorted_wrt_map)
  have "1 \<le> sr_sector r \<and> sr_sector r \<le> n \<and> 0 < sr_frames r \<and> sr_start r = lap_bound n ?fs (sr_sector r - 1) \<and> sr_end r = lap_bound n ?fs (sr_sector r)"
    if "r \<in> set rows" for r
  proof -
    have "(sr_sector r, sr_frames r, sr_start r, sr_end r) \<in> set (map (\<lambda>r. (sr_sector r, sr_frames r, sr_start r, sr_end r)) rows)"
      using that by simp
    then show ?thesis unfolding rows by auto
  qed
  then show ?thesis using rows_count [OF assms] order by (simp add: Let_def)
qed

section \<open>A frame that rounding loses\<close>

text \<open>The double nearest to 0.35, three times of which rounds down, and a third of that again.\<close>

definition far :: rat where
  "far = 6305039478318694 / 2 ^ 54"

definition near :: rat where
  "near = 6305039478318693 / 2 ^ 54"

lemma far_roundings: "fl far = FFin far" "fl (far * 3) = FFin (4728779608739020 / 2 ^ 52)" "fl (4728779608739020 / 2 ^ 52 / 3) = FFin near"
  "fl near = FFin near"
  using fl_value [of far "- 2" 6305039478318694] fl_value [of "far * 3" 0 4728779608739020]
    fl_value [of "4728779608739020 / 2 ^ 52 / 3" "- 2" 6305039478318693] fl_value [of near "- 2" 6305039478318693]
  by (simp_all add: pow2_def far_def near_def)

definition sample_at :: "rat \<Rightarrow> sector_frame" where
  "sample_at d = \<lparr>rf_driver = ''VER'', rf_lap = 1, rf_distance = FFin d, rf_speed = FFin 0, rf_brake = PBool True, rf_gear = PInt 1,
     sf_time = 0, sf_throttle = FFin 0\<rparr>"

lemma lost_bound: "lap_bound 3 [sample_at 0, sample_at far] 3 = FFin near"
proof -
  have "0 < far" by (simp add: far_def)
  then have "lap_bound 3 [sample_at 0, sample_at far] 3 = fadd (FFin 0) (fdiv_pos (fmul_nat (fl far) 3) 3)"
    by (simp add: lap_bound_def sector_bound_def sample_at_def list_min_def list_max_def fmin_def fmax_def Let_def)
  then show ?thesis using far_roundings by (simp add: fadd_def)
qed

text \<open>Frames of a car at rest always give rows.\<close>

definition at_rest :: "sector_frame \<Rightarrow> bool" where
  "at_rest f = (rf_speed f = FFin 0 \<and> sf_throttle f = FFin 0)"

lemma fmean_zero: "\<forall>x\<in>set xs. x = FFin 0 \<Longrightarrow> \<exists>m. fmean xs = Inr m"
proof -
  assume z: "\<forall>x\<in>set xs. x = FFin 0"
  then have "map fin_part xs = map (\<lambda>x. 0) xs" by auto
  then have "sum_list (map fin_part xs) = 0" by (simp only:) simp
  moreover have "FPInf \<notin> set xs" "FNInf \<notin> set xs" "FNan \<notin> set xs" using z by auto
  ultimately show ?thesis by (simp add: fmean_def fsum_def fl_def)
qed

lemma each_total: "\<forall>x\<in>set xs. \<exists>y. f x = Inr y \<Longrightarrow> \<exists>ys. each f xs = Inr ys"
  by (induction xs) auto

lemma lap_sectors_at_rest:
  assumes "\<forall>f\<in>set frames. at_rest f"
  shows "\<exists>rows. lap_sectors n key frames = Inr rows"
proof -
  have "\<exists>r. sector_metrics key number (sector_frames n (sorted_by_distance frames) k) lo hi = Inr r" for number k lo hi
  proof -
    let ?fs = "sector_frames n (sorted_by_distance frames) k"
    have "set ?fs \<subseteq> set frames" by (auto simp: sector_frames_def sorted_by_distance_def Let_def)
    then have "\<forall>x\<in>set (map rf_speed ?fs). x = FFin 0" "\<forall>x\<in>set (map sf_throttle ?fs). x = FFin 0"
      using assms by (auto simp: at_rest_def)
    from this [THEN fmean_zero] show ?thesis by (auto simp: sector_metrics_def)
  qed
  then show ?thesis unfolding lap_sectors_def Let_def by (intro each_total) simp
qed

lemma sample_ok: "\<forall>f\<in>set [sample_at 0, sample_at far]. at_rest f \<and> distance_ok f"
  using far_roundings(1) by (simp add: at_rest_def sample_at_def distance_ok_def far_def fl_def [of 0])

lemma sector_rows_account_witness:
  "\<exists>rows. lap_sectors 3 (''VER'', 1) [sample_at 0, sample_at far] = Inr rows \<and>
    (let B = lap_bound 3 (sorted_by_distance [sample_at 0, sample_at far])
     in sum_list (map sr_frames rows) = length (filter (\<lambda>f. fle (rf_distance f) (B 3)) [sample_at 0, sample_at far]) \<and>
        sorted_wrt (<) (map sr_sector rows) \<and>
        (\<forall>r\<in>set rows. 1 \<le> sr_sector r \<and> sr_sector r \<le> 3 \<and> 0 < sr_frames r \<and> sr_start r = B (sr_sector r - 1) \<and> sr_end r = B (sr_sector r)))"
proof -
  obtain rows where r: "lap_sectors 3 (''VER'', 1) [sample_at 0, sample_at far] = Inr rows"
    using lap_sectors_at_rest sample_ok by blast
  have "\<forall>f\<in>set [sample_at 0, sample_at far]. distance_ok f" using sample_ok by blast
  from r sector_rows_account [OF r this] show ?thesis by (intro exI [of _ rows] conjI) simp_all
qed

text \<open>C25. The last sector ends at the minimum plus the rounded width of the lap, which need not reach the lap's last
  frame: of a lap of two frames, at 0 and at 0.35 metres, the rows of the three default sectors count one.\<close>

theorem sectors_lose_last_frame:
  "\<exists>rows. lap_sectors 3 (''VER'', 1) [sample_at 0, sample_at far] = Inr rows \<and> sum_list (map sr_frames rows) = 1"
proof -
  obtain rows where r: "lap_sectors 3 (''VER'', 1) [sample_at 0, sample_at far] = Inr rows"
    using lap_sectors_at_rest sample_ok by blast
  have "\<forall>f\<in>set [sample_at 0, sample_at far]. distance_ok f" using sample_ok by blast
  from rows_count [OF r this] have "sum_list (map sr_frames rows) =
      length (filter (\<lambda>f. fle (rf_distance f) (lap_bound 3 (sorted_by_distance [sample_at 0, sample_at far]) 3)) [sample_at 0, sample_at far])"
    by simp
  also have "sorted_by_distance [sample_at 0, sample_at far] = [sample_at 0, sample_at far]"
    by (simp add: sorted_by_distance_def sort_by_def sample_at_def far_def)
  also have "length (filter (\<lambda>f. fle (rf_distance f) (lap_bound 3 [sample_at 0, sample_at far] 3)) [sample_at 0, sample_at far]) = 1"
    unfolding lost_bound by (simp add: sample_at_def far_def near_def)
  finally show ?thesis using r by blast
qed

end
