(* ===== verification/TrackAnalysis.thy ===== *)
theory TrackAnalysis
  imports SectorAnalysis
begin

text \<open>
  \<open>performance/track_analysis.py\<close>: the frames of one reference lap, its length, and the samples nearest to
  the boundaries of its sectors. The rows are modelled, not the data frames made of them.
\<close>

section \<open>The reference lap\<close>

record track_frame = raw_frame +
  tf_x :: pyfloat
  tf_y :: pyfloat

definition frames_for :: "track_frame list \<Rightarrow> string option \<Rightarrow> int option \<Rightarrow> track_frame list" where
  "frames_for frames driver lap =
     (let r = (case driver of None \<Rightarrow> frames | Some d \<Rightarrow> filter (\<lambda>f. rf_driver f = d) frames)
      in case lap of None \<Rightarrow> r | Some l \<Rightarrow> filter (\<lambda>f. rf_lap f = l) r)"

definition resolve_reference_lap :: "track_frame list \<Rightarrow> string option \<Rightarrow> int option \<Rightarrow> track_frame list" where
  "resolve_reference_lap frames driver lap =
     (if frames = [] then []
      else case (driver, lap) of
        (None, None) \<Rightarrow> sorted_by_distance (frames_for frames (Some (rf_driver (hd frames))) (Some (rf_lap (hd frames))))
      | (None, Some l) \<Rightarrow>
          (case filter (\<lambda>f. rf_lap f = l) frames of [] \<Rightarrow> []
           | m # _ \<Rightarrow> sorted_by_distance (frames_for frames (Some (rf_driver m)) lap))
      | (Some d, None) \<Rightarrow>
          (case filter (\<lambda>f. rf_driver f = d) frames of [] \<Rightarrow> []
           | m # _ \<Rightarrow> sorted_by_distance (frames_for frames driver (Some (rf_lap m))))
      | (Some d, Some l) \<Rightarrow> sorted_by_distance (frames_for frames driver lap))"

record map_row =
  mr_driver :: string
  mr_lap :: int
  mr_distance :: pyfloat
  mr_x :: pyfloat
  mr_y :: pyfloat

definition map_row_of :: "track_frame \<Rightarrow> map_row" where
  "map_row_of f = \<lparr>mr_driver = rf_driver f, mr_lap = rf_lap f, mr_distance = rf_distance f, mr_x = tf_x f, mr_y = tf_y f\<rparr>"

definition get_track_map :: "track_frame list \<Rightarrow> string option \<Rightarrow> int option \<Rightarrow> map_row list" where
  "get_track_map frames driver lap = map map_row_of (resolve_reference_lap frames driver lap)"

definition track_length_m :: "track_frame list \<Rightarrow> string option \<Rightarrow> int option \<Rightarrow> pyfloat" where
  "track_length_m frames driver lap =
     (let ordered = resolve_reference_lap frames driver lap; distances = map rf_distance ordered
      in if ordered = [] then FFin 0 else fsub (list_max distances) (list_min distances))"

section \<open>Boundary points\<close>

text \<open>\<open>min\<close> with a key keeps the first of the elements whose key no other is below.\<close>

definition min_by :: "('a \<Rightarrow> pyfloat) \<Rightarrow> 'a list \<Rightarrow> 'a" where
  "min_by key xs = fold (\<lambda>x m. if fless (key x) (key m) then x else m) (tl xs) (hd xs)"

record boundary_row =
  br_boundary :: nat
  br_distance :: pyfloat
  br_x :: pyfloat
  br_y :: pyfloat

definition boundary_row_of :: "nat \<Rightarrow> track_frame \<Rightarrow> boundary_row" where
  "boundary_row_of k f = \<lparr>br_boundary = k, br_distance = rf_distance f, br_x = tf_x f, br_y = tf_y f\<rparr>"

definition off_bound :: "nat \<Rightarrow> track_frame list \<Rightarrow> nat \<Rightarrow> track_frame \<Rightarrow> pyfloat" where
  "off_bound n ordered k f = fabs (fsub (rf_distance f) (lap_bound n ordered k))"

definition sector_boundary_points :: "track_frame list \<Rightarrow> int \<Rightarrow> string option \<Rightarrow> int option \<Rightarrow> boundary_row list" where
  "sector_boundary_points frames num_sectors driver lap =
     (let ordered = resolve_reference_lap frames driver lap; n = nat num_sectors
      in if ordered = [] \<or> num_sectors < 1 then []
         else map (\<lambda>k. boundary_row_of k (min_by (off_bound n ordered k) ordered)) [0..<n + 1])"

section \<open>Lemmas\<close>

lemma frames_for_pair: "frames_for frames (Some d) (Some l) = filter (\<lambda>f. rf_driver f = d \<and> rf_lap f = l) frames"
  by (simp add: frames_for_def conj_commute)

lemma reference_lap:
  assumes "resolve_reference_lap frames driver lap \<noteq> []"
  shows "\<exists>d l. resolve_reference_lap frames driver lap = sorted_by_distance (filter (\<lambda>f. rf_driver f = d \<and> rf_lap f = l) frames) \<and>
    (driver = None \<or> driver = Some d) \<and> (lap = None \<or> lap = Some l)"
proof (cases driver)
  case None
  show ?thesis
  proof (cases lap)
    case lap: None
    then show ?thesis using assms unfolding None lap
      by (intro exI [of _ "rf_driver (hd frames)"] exI [of _ "rf_lap (hd frames)"]) (simp add: resolve_reference_lap_def frames_for_pair split: if_splits)
  next
    case (Some l)
    then obtain m ms where "filter (\<lambda>f. rf_lap f = l) frames = m # ms"
      using assms None by (auto simp: resolve_reference_lap_def split: list.splits if_splits)
    then show ?thesis using assms None Some
      by (intro exI [of _ "rf_driver m"] exI [of _ l]) (simp add: resolve_reference_lap_def frames_for_pair split: if_splits)
  qed
next
  case (Some d)
  show ?thesis
  proof (cases lap)
    case None
    then obtain m ms where "filter (\<lambda>f. rf_driver f = d) frames = m # ms"
      using assms Some by (auto simp: resolve_reference_lap_def split: list.splits if_splits)
    then show ?thesis using assms None Some
      by (intro exI [of _ d] exI [of _ "rf_lap m"]) (simp add: resolve_reference_lap_def frames_for_pair split: if_splits)
  next
    case lap: (Some l)
    then show ?thesis using assms Some
      by (intro exI [of _ d] exI [of _ l]) (simp add: resolve_reference_lap_def frames_for_pair split: if_splits)
  qed
qed

lemma fold_min_by:
  "key m \<noteq> FNan \<Longrightarrow> \<forall>x\<in>set xs. key x \<noteq> FNan \<Longrightarrow>
   fold (\<lambda>x m. if fless (key x) (key m) then x else m) xs m \<in> insert m (set xs) \<and>
   (\<forall>x\<in>insert m (set xs). fle (key (fold (\<lambda>x m. if fless (key x) (key m) then x else m) xs m)) (key x))"
proof (induction xs arbitrary: m)
  case Nil
  then show ?case by (cases "key m") (simp_all add: fle_def)
next
  case (Cons x xs)
  let ?m = "if fless (key x) (key m) then x else m"
  have m: "key ?m \<noteq> FNan" "fle (key ?m) (key m)" "fle (key ?m) (key x)" "?m = m \<or> ?m = x"
    using Cons.prems by (cases "key m"; cases "key x"; auto simp: fle_def)+
  let ?r = "fold (\<lambda>x m. if fless (key x) (key m) then x else m) xs ?m"
  have r: "?r \<in> insert ?m (set xs)" "fle (key ?r) (key ?m)" "\<forall>x\<in>set xs. fle (key ?r) (key x)"
    using Cons.IH [OF m(1)] Cons.prems(2) by simp_all
  then have "fle (key ?r) (key m)" "fle (key ?r) (key x)" using m(2,3) fle_trans by blast+
  then show ?case using r m(4) by auto
qed

lemma min_by:
  assumes "xs \<noteq> []" and "\<forall>x\<in>set xs. key x \<noteq> FNan"
  shows "min_by key xs \<in> set xs" and "\<forall>x\<in>set xs. fle (key (min_by key xs)) (key x)"
  using assms fold_min_by [of key "hd xs" "tl xs"] by (cases xs; simp add: min_by_def)+

lemma fabs_nan: "fabs x = FNan \<longleftrightarrow> x = FNan"
  by (cases x) simp_all

lemma off_bound_not_nan:
  assumes "distance_ok f" and "lap_bound n fs k \<noteq> FNan"
  shows "off_bound n fs k f \<noteq> FNan"
  using assms fl_not_nan unfolding off_bound_def distance_ok_def fabs_nan
  by (cases "rf_distance f"; cases "lap_bound n fs k"; auto split: pyfloat.splits)

text \<open>The boundary points of a reference lap are samples of it: one for each boundary, in order, with the
  coordinates of a frame that no other frame of the lap is nearer to the boundary than. They come from
  frames of a single driver and lap.\<close>

theorem boundary_points_nearest:
  assumes "\<forall>f\<in>set frames. distance_ok f" and "1 \<le> num_sectors"
    and "resolve_reference_lap frames driver lap \<noteq> []"
  shows "let rows = sector_boundary_points frames num_sectors driver lap; ordered = resolve_reference_lap frames driver lap
    in length rows = nat num_sectors + 1 \<and> card ((\<lambda>f. (rf_driver f, rf_lap f)) ` set ordered) = 1 \<and>
       (\<forall>k<length rows. \<exists>f\<in>set ordered. rows ! k = boundary_row_of k f \<and>
          (\<forall>g\<in>set ordered. fle (off_bound (nat num_sectors) ordered k f) (off_bound (nat num_sectors) ordered k g)))"
proof -
  let ?fs = "resolve_reference_lap frames driver lap" and ?n = "nat num_sectors"
  obtain d l where fs: "?fs = sorted_by_distance (filter (\<lambda>f. rf_driver f = d \<and> rf_lap f = l) frames)"
    using reference_lap [OF assms(3)] by blast
  have ok: "\<forall>f\<in>set ?fs. distance_ok f" using assms(1) by (auto simp: fs sorted_by_distance_def)
  have all: "\<forall>f\<in>set ?fs. (rf_driver f, rf_lap f) = (d, l)" by (simp add: fs sorted_by_distance_def)
  obtain f0 where "f0 \<in> set ?fs" using last_in_set [OF assms(3)] by blast
  then have "(\<lambda>f. (rf_driver f, rf_lap f)) ` set ?fs = {(d, l)}" using all by force
  then have one: "card ((\<lambda>f. (rf_driver f, rf_lap f)) ` set ?fs) = 1" by simp
  have nan: "\<forall>f\<in>set ?fs. off_bound ?n ?fs k f \<noteq> FNan" for k
    using off_bound_not_nan ok lap_bounds(2) [OF assms(3) ok, of ?n k] assms(2) fle_not_nan by fastforce
  have rows: "sector_boundary_points frames num_sectors driver lap =
      map (\<lambda>k. boundary_row_of k (min_by (off_bound ?n ?fs k) ?fs)) [0..<?n + 1]"
    using assms(2,3) by (simp add: sector_boundary_points_def Let_def)
  have near: "\<exists>f\<in>set ?fs. sector_boundary_points frames num_sectors driver lap ! k = boundary_row_of k f \<and>
      (\<forall>g\<in>set ?fs. fle (off_bound ?n ?fs k f) (off_bound ?n ?fs k g))" if "k < ?n + 1" for k
    using that min_by [OF assms(3) nan, of k] by (auto simp: rows simp del: upt_Suc)
  show ?thesis using one near by (simp add: Let_def rows del: upt_Suc)
qed

definition sample_track :: "track_frame list" where
  "sample_track = map (\<lambda>(d, x). \<lparr>rf_driver = ''VER'', rf_lap = 2, rf_distance = FFin d, rf_speed = FFin 100, rf_brake = PBool False, rf_gear = PInt 5,
     tf_x = FFin x, tf_y = FFin 0\<rparr>) [(0, 10), (50, 20), (100, 30)]"

lemma boundary_points_nearest_witness:
  "let rows = sector_boundary_points sample_track 2 None None; ordered = resolve_reference_lap sample_track None None
   in length rows = nat 2 + 1 \<and> card ((\<lambda>f. (rf_driver f, rf_lap f)) ` set ordered) = 1 \<and>
      (\<forall>k<length rows. \<exists>f\<in>set ordered. rows ! k = boundary_row_of k f \<and>
         (\<forall>g\<in>set ordered. fle (off_bound (nat 2) ordered k f) (off_bound (nat 2) ordered k g)))"
proof (rule boundary_points_nearest)
  show "\<forall>f\<in>set sample_track. distance_ok f" by (simp add: sample_track_def distance_ok_def fl_numeral fl_zero)
  show "resolve_reference_lap sample_track None None \<noteq> []"
    by (simp add: resolve_reference_lap_def sample_track_def frames_for_def flip: length_greater_0_conv) (simp add: sorted_by_distance_def)
qed simp

end
