(* ===== verification/SensorSimulator.thy ===== *)
theory SensorSimulator
  imports PyText AnomalyFilter PacketBuilder FloatOrder "HOL-Library.List_Lexorder" "HOL-Library.Char_ord"
begin

text \<open>
  \<open>car_producer/src/sensor_simulator.py\<close>: the frames of recorded telemetry that drive a car. The table is what
  pandas reads from the files: the columns it has, and rows of typed cells, NaN where a cell is empty.
  The time, the random draws - numpy's normal ones among them - and the label of a position are arguments.
  The theorems say that the stream walks round the table, that the relay rejects what the simulator
  injects, and that it may reject honest frames to which noise was added.
\<close>

section \<open>Constants and validation\<close>

definition SENSOR_CHANNELS :: "string list" where
  "SENSOR_CHANNELS = [''Speed'', ''RPM'', ''Throttle'', ''Brake'', ''nGear'', ''DRS'', ''X'', ''Y'', ''Distance'']"

definition VALID_TEAMS :: "string list" where
  "VALID_TEAMS = [''mercedes'', ''redbull'', ''ferrari'', ''mclaren'', ''williams'']"

definition VALID_SESSIONS :: "string list" where
  "VALID_SESSIONS = [''R'', ''Q'', ''S'']"

definition SAO_PAULO :: string where
  "SAO_PAULO = CHR ''S'' # CHR 0xC3 # CHR 0xA3 # ''o Paulo''"

definition AVAILABLE_RACES :: "string list" where
  "AVAILABLE_RACES = [''Australia'', ''Japan'', ''Bahrain'', ''Saudi Arabia'', ''Monaco'', ''Silverstone'', ''Netherlands'',
     ''Monza'', ''Baku'', ''Singapore'', SAO_PAULO, ''Qatar'', ''Abu Dhabi'']"

definition SPRINT_RACES :: "string list" where
  "SPRINT_RACES = [SAO_PAULO, ''Qatar'']"

definition NOISE_CONFIG :: "(string \<times> rat) list" where
  "NOISE_CONFIG = [(''Speed'', 5 / 100), (''RPM'', 10), (''Throttle'', 1 / 10), (''Brake'', 0), (''nGear'', 0), (''DRS'', 0)]"

definition validate_team :: "string \<Rightarrow> string res" where
  "validate_team team = (let t = map lower_char team in if t \<in> set VALID_TEAMS then Inr t else Inl ValueErr)"

definition validate_session :: "string \<Rightarrow> string res" where
  "validate_session session = (let s = map upper_char session in if s \<in> set VALID_SESSIONS then Inr s else Inl ValueErr)"

text \<open>Without a race, one is drawn at random.\<close>

definition select_race :: "string \<Rightarrow> string option \<Rightarrow> string \<Rightarrow> string res" where
  "select_race session race drawn =
     (case race of None \<Rightarrow> Inr drawn
      | Some r \<Rightarrow> if r \<notin> set AVAILABLE_RACES then Inl ValueErr
          else if session = ''S'' \<and> r \<notin> set SPRINT_RACES then Inl ValueErr
          else Inr r)"

section \<open>Loading\<close>

record data_row =
  dr_race :: string
  dr_session :: string
  dr_driver :: string
  dr_lap :: pyfloat
  dr_value :: "string \<Rightarrow> pyfloat"

record table =
  tb_columns :: "string list"
  tb_rows :: "data_row list"

text \<open>\<open>int(x)\<close> of a float. The cast of a whole column refuses NaN and infinities.\<close>

definition trunc_int :: "pyfloat \<Rightarrow> int res" where
  "trunc_int x = (case x of FFin q \<Rightarrow> Inr (if 0 \<le> q then \<lfloor>q\<rfloor> else \<lceil>q\<rceil>) | FNan \<Rightarrow> Inl ValueErr | _ \<Rightarrow> Inl OverflowErr)"

fun cast_ints :: "pyfloat list \<Rightarrow> int list res" where
  "cast_ints [] = Inr []"
| "cast_ints (x # xs) =
     (case x of FFin q \<Rightarrow> rbind (cast_ints xs) (\<lambda>is. Inr ((if 0 \<le> q then \<lfloor>q\<rfloor> else \<lceil>q\<rceil>) # is)) | _ \<Rightarrow> Inl ValueErr)"

definition clean_row :: "data_row \<Rightarrow> bool" where
  "clean_row r =
     ((\<forall>c\<in>set SENSOR_CHANNELS. dr_value r c \<noteq> FNan) \<and> \<not> feq (dr_value r ''X'') (FFin 0) \<and> \<not> feq (dr_value r ''Y'') (FFin 0))"

definition driver_filter :: "string option \<Rightarrow> string list \<Rightarrow> data_row list \<Rightarrow> data_row list" where
  "driver_filter driver cols rows =
     (case driver of None \<Rightarrow> rows
      | Some d \<Rightarrow> if d \<noteq> [] \<and> ''Driver'' \<in> set cols \<and> d \<in> dr_driver ` set rows then filter (\<lambda>r. dr_driver r = d) rows else rows)"

definition lap_filter :: "int option \<Rightarrow> string list \<Rightarrow> data_row list \<Rightarrow> data_row list res" where
  "lap_filter lap cols rows =
     (case lap of None \<Rightarrow> Inr rows
      | Some l \<Rightarrow> if l = 0 \<or> ''LapNumber'' \<notin> set cols then Inr rows
          else rbind (cast_ints (filter (\<lambda>x. x \<noteq> FNan) (map dr_lap rows))) (\<lambda>available.
            if l \<in> set available
            then rbind (cast_ints (map dr_lap rows)) (\<lambda>laps. Inr (map fst (filter (\<lambda>(r, n). n = l) (zip rows laps))))
            else Inr rows))"

definition load_data :: "table \<Rightarrow> string \<Rightarrow> string \<Rightarrow> string option \<Rightarrow> int option \<Rightarrow> table res" where
  "load_data t race session driver lap =
     (let cols = tb_columns t
      in if \<not> set SENSOR_CHANNELS \<subseteq> set cols then Inl ValueErr
         else let cleaned = filter clean_row (tb_rows t);
                  r1 = (if race \<noteq> [] \<and> ''Race'' \<in> set cols then filter (\<lambda>r. dr_race r = race) cleaned else cleaned);
                  r2 = (if session \<noteq> [] \<and> ''Session'' \<in> set cols then filter (\<lambda>r. dr_session r = session) r1 else r1);
                  r3 = driver_filter driver cols r2
              in rbind (lap_filter lap cols r3) (\<lambda>r4. if cleaned = [] then Inl ValueErr else Inr (t\<lparr>tb_rows := r4\<rparr>)))"

section \<open>State\<close>

record simulator =
  sm_team :: string
  sm_session :: string
  sm_race :: string
  sm_noise :: bool
  sm_inject :: bool
  sm_rate :: pyfloat
  sm_thresholds :: pyval
  sm_data :: table
  sm_idx :: nat

definition sm_total :: "simulator \<Rightarrow> nat" where
  "sm_total s = length (tb_rows (sm_data s))"

definition simulator_init ::
  "string \<Rightarrow> string option \<Rightarrow> string \<Rightarrow> string option \<Rightarrow> int option \<Rightarrow> bool \<Rightarrow> bool \<Rightarrow> pyfloat \<Rightarrow>
   string \<Rightarrow> bytes option \<Rightarrow> table \<Rightarrow> simulator res" where
  "simulator_init team race session driver lap noise anomalies rate drawn thresholds t =
     rbind (validate_team team) (\<lambda>tm. rbind (validate_session session) (\<lambda>se. rbind (select_race se race drawn) (\<lambda>ra.
     rbind (load_data t ra se driver lap) (\<lambda>d.
       Inr \<lparr>sm_team = tm, sm_session = se, sm_race = ra, sm_noise = noise, sm_inject = anomalies, sm_rate = rate,
         sm_thresholds = load_thresholds thresholds, sm_data = d, sm_idx = 0\<rparr>))))"

section \<open>Frames\<close>

record sensor_inputs =
  si_now :: string
  si_label :: "pyfloat \<Rightarrow> pyfloat \<Rightarrow> string"
  si_normal :: "string \<Rightarrow> rat \<Rightarrow> pyfloat"
  si_random :: pyfloat
  si_channel :: string

text \<open>\<open>si_normal ch std\<close> is what \<open>np.random.normal(0, std)\<close> draws for a channel; \<open>random.choice(candidates)\<close> is \<open>si_channel\<close>, one of these.\<close>

definition anomaly_candidates :: "string list" where
  "anomaly_candidates = filter (\<lambda>c. c \<notin> set [''Brake'', ''DRS'', ''nGear'', ''X'', ''Y'', ''Distance'']) SENSOR_CHANNELS"

fun noise_channels :: "(string \<Rightarrow> rat \<Rightarrow> pyfloat) \<Rightarrow> (string \<times> rat) list \<Rightarrow> pydict \<Rightarrow> pydict res" where
  "noise_channels normal [] frame = Inr frame"
| "noise_channels normal ((ch, std) # cs) frame =
     (if 0 < std \<and> dict_has frame ch
      then (case num_of (dict_get frame ch) of None \<Rightarrow> Inl TypeErr
            | Some x \<Rightarrow> noise_channels normal cs (dict_set ch (PFloat (py_round 4 (fadd x (normal ch std)))) frame))
      else noise_channels normal cs frame)"

definition add_noise :: "sensor_inputs \<Rightarrow> pydict \<Rightarrow> pydict res" where
  "add_noise i frame = noise_channels (si_normal i) NOISE_CONFIG frame"

text \<open>\<open>round(upper * 1.5, 4)\<close>\<close>

fun scale_up :: "pyfloat \<Rightarrow> pyfloat" where
  "scale_up (FFin q) = fl (q * 3 / 2)"
| "scale_up x = x"

definition one_and_half :: "pyval \<Rightarrow> pyval res" where
  "one_and_half u =
     (case int_of u of Some n \<Rightarrow> rbind (float_of_int n) (\<lambda>x. Inr (PFloat (py_round 4 (scale_up x))))
      | None \<Rightarrow> (case u of PFloat x \<Rightarrow> Inr (PFloat (py_round 4 (scale_up x))) | _ \<Rightarrow> Inl TypeErr))"

definition team_thresholds :: "pyval \<Rightarrow> string \<Rightarrow> pyval res" where
  "team_thresholds th team =
     (case th of
        PDict d \<Rightarrow> Inr (py_or (dict_get d team) (dict_get_or d ''combined'' (PDict [])))
      | _ \<Rightarrow> Inl AttributeErr)"

definition inject_anomaly :: "sensor_inputs \<Rightarrow> simulator \<Rightarrow> pydict \<Rightarrow> pydict res" where
  "inject_anomaly i s frame =
     (let ch = si_channel i
      in rbind (team_thresholds (sm_thresholds s) (sm_team s)) (\<lambda>th. rbind (py_in ch th) (\<lambda>here.
           if \<not> here then Inr frame
           else rbind (py_item th ch) (\<lambda>c. rbind (py_item c ''upper'') (\<lambda>u. rbind (one_and_half u) (\<lambda>v.
             Inr (dict_set ''_anomaly_channel'' (PStr ch) (dict_set ''_anomaly_injected'' (PBool True) (dict_set ch v frame)))))))))"

definition channel_value :: "string \<Rightarrow> pyfloat \<Rightarrow> pyval res" where
  "channel_value ch x =
     (if ch \<in> set [''Brake'', ''nGear'', ''DRS''] then rbind (trunc_int x) (\<lambda>n. Inr (PInt n))
      else if ch \<in> set [''X'', ''Y'', ''Distance''] then Inr (PFloat (py_round 2 x))
      else Inr (PFloat (py_round 4 x)))"

fun put_channels :: "data_row \<Rightarrow> string list \<Rightarrow> pydict \<Rightarrow> pydict res" where
  "put_channels r [] frame = Inr frame"
| "put_channels r (ch # chs) frame =
     rbind (channel_value ch (dr_value r ch)) (\<lambda>v. put_channels r chs (dict_set ch v frame))"

text \<open>\<open>row.get(column, default)\<close>\<close>

definition cell :: "table \<Rightarrow> string \<Rightarrow> 'a \<Rightarrow> 'a \<Rightarrow> 'a" where
  "cell t c v v0 = (if c \<in> set (tb_columns t) then v else v0)"

definition frame_head :: "sensor_inputs \<Rightarrow> simulator \<Rightarrow> data_row \<Rightarrow> pydict res" where
  "frame_head i s r =
     (let t = sm_data s
      in rbind (trunc_int (cell t ''LapNumber'' (dr_lap r) (FFin 0))) (\<lambda>lap. Inr
           [(''team'', PStr (sm_team s)), (''race'', PStr (cell t ''Race'' (dr_race r) (sm_race s))),
            (''session'', PStr (cell t ''Session'' (dr_session r) (sm_session s))), (''lap'', PInt lap),
            (''driver'', PStr (cell t ''Driver'' (dr_driver r) ''UNK'')), (''timestamp'', PStr (si_now i)),
            (''frame_index'', PInt (int (sm_idx s)))]))"

text \<open>The frame of a row, the index already advanced past it.\<close>

definition clean_frame :: "sensor_inputs \<Rightarrow> simulator \<Rightarrow> data_row \<Rightarrow> pydict res" where
  "clean_frame i s r =
     rbind (frame_head i s r) (\<lambda>head. rbind (put_channels r SENSOR_CHANNELS head) (\<lambda>f.
       Inr (dict_set ''track_position'' (PStr (si_label i (dr_value r ''X'') (dr_value r ''Y''))) f)))"

definition make_frame :: "sensor_inputs \<Rightarrow> simulator \<Rightarrow> data_row \<Rightarrow> pydict res" where
  "make_frame i s r =
     rbind (clean_frame i s r) (\<lambda>f.
     rbind (if sm_noise s then add_noise i f else Inr f) (\<lambda>f1.
       if sm_inject s \<and> fless (si_random i) (sm_rate s) then inject_anomaly i s f1 else Inr f1))"

definition get_next_frame :: "sensor_inputs \<Rightarrow> simulator \<Rightarrow> pydict res \<times> simulator" where
  "get_next_frame i s =
     (if sm_total s = 0 then (Inl RuntimeErr, s)
      else let k = (if sm_total s \<le> sm_idx s then 0 else sm_idx s); s1 = s\<lparr>sm_idx := k + 1\<rparr>
           in (make_frame i s1 (tb_rows (sm_data s) ! k), s1))"

text \<open>
  \<open>stream(n)\<close>: the frames a consumer takes, one for each input it brings, until the count is reached
  (\<open>None\<close> and 0 mean no limit).
\<close>

fun stream_from :: "int option \<Rightarrow> int \<Rightarrow> sensor_inputs list \<Rightarrow> simulator \<Rightarrow> pydict list res \<times> simulator" where
  "stream_from n count [] s = (Inr [], s)"
| "stream_from n count (i # is) s =
     (case get_next_frame i s of
        (Inl e, s1) \<Rightarrow> (Inl e, s1)
      | (Inr f, s1) \<Rightarrow>
          if n \<noteq> None \<and> the n \<noteq> 0 \<and> the n \<le> count + 1 then (Inr [f], s1)
          else (case stream_from n (count + 1) is s1 of
                  (Inl e, s2) \<Rightarrow> (Inl e, s2)
                | (Inr fs, s2) \<Rightarrow> (Inr (f # fs), s2)))"

definition stream :: "int option \<Rightarrow> sensor_inputs list \<Rightarrow> simulator \<Rightarrow> pydict list res \<times> simulator" where
  "stream n is s = stream_from n 0 is s"

definition simulator_reset :: "simulator \<Rightarrow> simulator" where
  "simulator_reset s = s\<lparr>sm_idx := 0\<rparr>"

definition progress :: "simulator \<Rightarrow> pyfloat" where
  "progress s =
     (if sm_total s = 0 then FFin 0
      else case fl (of_nat (sm_idx s) / of_nat (sm_total s)) of FFin q \<Rightarrow> py_round 2 (fl (q * 100)) | x \<Rightarrow> x)"

definition available_drivers :: "simulator \<Rightarrow> string list" where
  "available_drivers s =
     (if ''Driver'' \<in> set (tb_columns (sm_data s)) then sort (remdups (map dr_driver (tb_rows (sm_data s)))) else [])"

definition available_laps :: "simulator \<Rightarrow> int list res" where
  "available_laps s =
     (if ''LapNumber'' \<in> set (tb_columns (sm_data s))
      then rbind (cast_ints (filter (\<lambda>x. x \<noteq> FNan) (map dr_lap (tb_rows (sm_data s))))) (\<lambda>ls. Inr (sort (remdups ls))) else Inr [])"

section \<open>What is loaded\<close>

lemma lap_filter_rows: "lap_filter lap cols rows = Inr rs \<Longrightarrow> set rs \<subseteq> set rows"
  by (auto simp: lap_filter_def elim!: rbind_InrE dest!: set_zip_leftD split: option.splits if_splits)

lemma driver_filter_rows: "set (driver_filter driver cols rows) \<subseteq> set rows"
  by (auto simp: driver_filter_def split: option.splits if_splits)

text \<open>Only clean rows are streamed, of the race and session asked for where the table has these columns.\<close>

lemma load_data_rows:
  assumes "load_data t race session driver lap = Inr t'" and "r \<in> set (tb_rows t')"
  shows "r \<in> set (tb_rows t) \<and> clean_row r \<and> (race \<noteq> [] \<and> ''Race'' \<in> set (tb_columns t) \<longrightarrow> dr_race r = race) \<and>
    (session \<noteq> [] \<and> ''Session'' \<in> set (tb_columns t) \<longrightarrow> dr_session r = session)"
  using assms driver_filter_rows lap_filter_rows
  by (auto simp: load_data_def Let_def elim!: rbind_InrE split: if_splits; fastforce)

section \<open>What a frame holds\<close>

text \<open>A row whose lap and whose brake, gear and DRS cells are numbers that \<open>int\<close> accepts.\<close>

definition row_ok :: "table \<Rightarrow> data_row \<Rightarrow> bool" where
  "row_ok t r =
     (\<not> is_err (trunc_int (cell t ''LapNumber'' (dr_lap r) (FFin 0))) \<and> (\<forall>ch\<in>set [''Brake'', ''nGear'', ''DRS'']. \<not> is_err (trunc_int (dr_value r ch))))"

lemma not_errE: "\<not> is_err x \<Longrightarrow> (\<And>y. x = Inr y \<Longrightarrow> P) \<Longrightarrow> P"
  by (cases x) simp_all

lemma put_channels_frame: "put_channels r chs f = Inr g \<Longrightarrow> k \<notin> set chs \<Longrightarrow> dict_get g k = dict_get f k"
  by (induction chs arbitrary: f) (auto elim!: rbind_InrE)

lemma put_channels_value:
  "put_channels r chs f = Inr g \<Longrightarrow> distinct chs \<Longrightarrow> ch \<in> set chs \<Longrightarrow> channel_value ch (dr_value r ch) = Inr (dict_get g ch)"
  by (induction chs arbitrary: f) (auto elim!: rbind_InrE simp: put_channels_frame)

lemma put_channels_total: "\<forall>ch\<in>set chs. \<not> is_err (channel_value ch (dr_value r ch)) \<Longrightarrow> \<exists>g. put_channels r chs f = Inr g"
  by (induction chs arbitrary: f) (auto elim!: not_errE)

lemma channels_ok: "row_ok t r \<Longrightarrow> \<not> is_err (channel_value ch (dr_value r ch))"
proof (cases "ch \<in> set [''Brake'', ''nGear'', ''DRS'']")
  case True
  moreover assume "row_ok t r"
  ultimately have "\<not> is_err (trunc_int (dr_value r ch))" unfolding row_ok_def by blast
  then obtain n where "trunc_int (dr_value r ch) = Inr n" by (rule not_errE)
  then show ?thesis by (simp only: channel_value_def True if_True rbind_simps is_err_simps not_False_eq_True)
qed (simp add: channel_value_def)

lemma distinct_channels: "distinct SENSOR_CHANNELS"
  by (simp add: SENSOR_CHANNELS_def)

lemma clean_frame_fields:
  assumes "clean_frame i s r = Inr f"
  shows "ch \<in> set SENSOR_CHANNELS \<Longrightarrow> channel_value ch (dr_value r ch) = Inr (dict_get f ch)"
    and "dict_get f ''frame_index'' = PInt (int (sm_idx s))" and "dict_get f ''team'' = PStr (sm_team s)"
    and "dict_get f ''driver'' = PStr (cell (sm_data s) ''Driver'' (dr_driver r) ''UNK'')"
proof -
  obtain head g where h: "frame_head i s r = Inr head" "put_channels r SENSOR_CHANNELS head = Inr g"
    and f: "f = dict_set ''track_position'' (PStr (si_label i (dr_value r ''X'') (dr_value r ''Y''))) g"
    using assms by (auto simp: clean_frame_def elim!: rbind_InrE)
  have other: "dict_get f k = dict_get head k" if "k \<notin> set SENSOR_CHANNELS" "k \<noteq> ''track_position''" for k
    using put_channels_frame [OF h(2)] that by (simp add: f)
  show "ch \<in> set SENSOR_CHANNELS \<Longrightarrow> channel_value ch (dr_value r ch) = Inr (dict_get f ch)"
    using put_channels_value [OF h(2) distinct_channels, of ch] by (auto simp: f SENSOR_CHANNELS_def)
  have head: "dict_get head ''frame_index'' = PInt (int (sm_idx s))" "dict_get head ''team'' = PStr (sm_team s)"
    "dict_get head ''driver'' = PStr (cell (sm_data s) ''Driver'' (dr_driver r) ''UNK'')"
    using h(1) by (auto simp: frame_head_def dict_get_def Let_def elim!: rbind_InrE)
  show "dict_get f ''frame_index'' = PInt (int (sm_idx s))" "dict_get f ''team'' = PStr (sm_team s)"
    "dict_get f ''driver'' = PStr (cell (sm_data s) ''Driver'' (dr_driver r) ''UNK'')"
    by (subst other; simp add: SENSOR_CHANNELS_def head)+
qed

lemma clean_frame_total:
  assumes "row_ok (sm_data s) r"
  shows "\<exists>f. clean_frame i s r = Inr f"
proof -
  obtain head where "frame_head i s r = Inr head"
    using assms by (auto simp: row_ok_def frame_head_def Let_def elim!: not_errE)
  moreover obtain g where "put_channels r SENSOR_CHANNELS head = Inr g"
    using put_channels_total channels_ok [OF assms] by blast
  ultimately show ?thesis by (simp add: clean_frame_def)
qed

lemma noise_channels_frame:
  "noise_channels z cs f = Inr g \<Longrightarrow> \<forall>(c, std)\<in>set cs. 0 < std \<longrightarrow> k \<noteq> c \<Longrightarrow> dict_get g k = dict_get f k"
  by (induction z cs f rule: noise_channels.induct) (auto split: if_splits option.splits)

lemma noise_channels_total:
  "\<forall>(c, std)\<in>set cs. 0 < std \<longrightarrow> (\<exists>x. dict_get f c = PFloat x) \<Longrightarrow> \<exists>g. noise_channels z cs f = Inr g"
  by (induction z cs f rule: noise_channels.induct) fastforce+

lemma add_noise_frame:
  "add_noise i f = Inr g \<Longrightarrow> k \<notin> set [''Speed'', ''RPM'', ''Throttle''] \<Longrightarrow> dict_get g k = dict_get f k"
  unfolding add_noise_def by (erule noise_channels_frame) (auto simp: NOISE_CONFIG_def)

lemma make_frame_ok:
  assumes "row_ok (sm_data s) r" and "\<not> sm_inject s"
  shows "\<exists>f g. clean_frame i s r = Inr f \<and> make_frame i s r = Inr g \<and> (\<not> sm_noise s \<longrightarrow> g = f) \<and>
    (\<forall>k. k \<notin> set [''Speed'', ''RPM'', ''Throttle''] \<longrightarrow> dict_get g k = dict_get f k)"
proof -
  obtain f where f: "clean_frame i s r = Inr f" using clean_frame_total [OF assms(1)] by blast
  have "\<exists>x. dict_get f c = PFloat x" if "c \<in> set [''Speed'', ''RPM'', ''Throttle'']" for c
    using clean_frame_fields(1) [OF f, of c, symmetric] that by (auto simp: SENSOR_CHANNELS_def channel_value_def dest: sym)
  then obtain g where g: "add_noise i f = Inr g"
    unfolding add_noise_def using noise_channels_total [of NOISE_CONFIG f] by (auto simp: NOISE_CONFIG_def)
  show ?thesis using f g add_noise_frame [OF g] assms(2) by (cases "sm_noise s") (auto simp: make_frame_def)
qed

section \<open>The stream\<close>

text \<open>The row the stream is at.\<close>

definition at_row :: "simulator \<Rightarrow> nat \<Rightarrow> nat" where
  "at_row s k = (sm_idx s + k) mod sm_total s"

definition frame_of_row :: "simulator \<Rightarrow> nat \<Rightarrow> pydict \<Rightarrow> bool" where
  "frame_of_row s j f =
     (dict_get f ''frame_index'' = PInt (int (j + 1)) \<and> dict_get f ''team'' = PStr (sm_team s) \<and>
      dict_get f ''driver'' = PStr (cell (sm_data s) ''Driver'' (dr_driver (tb_rows (sm_data s) ! j)) ''UNK'') \<and>
      (\<forall>ch\<in>set SENSOR_CHANNELS. sm_noise s \<and> ch \<in> set [''Speed'', ''RPM'', ''Throttle''] \<or>
         channel_value ch (dr_value (tb_rows (sm_data s) ! j) ch) = Inr (dict_get f ch)))"

definition usable :: "simulator \<Rightarrow> bool" where
  "usable s = (0 < sm_total s \<and> sm_idx s \<le> sm_total s \<and> \<not> sm_inject s \<and> (\<forall>r\<in>set (tb_rows (sm_data s)). row_ok (sm_data s) r))"

lemma next_frame:
  assumes "usable s"
  obtains f where "get_next_frame i s = (Inr f, s\<lparr>sm_idx := at_row s 0 + 1\<rparr>)" and "frame_of_row s (at_row s 0) f"
proof -
  let ?j = "at_row s 0" and ?s = "s\<lparr>sm_idx := at_row s 0 + 1\<rparr>"
  have j: "?j = (if sm_total s \<le> sm_idx s then 0 else sm_idx s)" "?j < sm_total s"
    using assms by (auto simp: usable_def at_row_def)
  let ?r = "tb_rows (sm_data s) ! ?j"
  have "row_ok (sm_data ?s) ?r" "\<not> sm_inject ?s" using assms j(2) by (simp_all add: usable_def sm_total_def)
  from make_frame_ok [OF this, of i] obtain f g where f: "clean_frame i ?s ?r = Inr f" and g: "make_frame i ?s ?r = Inr g"
    and same: "\<not> sm_noise s \<longrightarrow> g = f" "\<forall>k. k \<notin> set [''Speed'', ''RPM'', ''Throttle''] \<longrightarrow> dict_get g k = dict_get f k" by auto
  have "get_next_frame i s = (Inr g, ?s)"
    using assms g by (simp add: get_next_frame_def usable_def Let_def j(1) flip: One_nat_def)
  moreover have "frame_of_row s ?j g"
  proof -
    have "channel_value ch (dr_value ?r ch) = Inr (dict_get g ch)"
      if "ch \<in> set SENSOR_CHANNELS" "\<not> (sm_noise s \<and> ch \<in> set [''Speed'', ''RPM'', ''Throttle''])" for ch
    proof -
      have "dict_get g ch = dict_get f ch" using same that(2) by blast
      then show ?thesis using clean_frame_fields(1) [OF f that(1)] by simp
    qed
    moreover have "dict_get g ''frame_index'' = dict_get f ''frame_index''" "dict_get g ''team'' = dict_get f ''team''"
      "dict_get g ''driver'' = dict_get f ''driver''" by (rule same(2) [rule_format], simp)+
    moreover have "sm_idx ?s = ?j + 1" "sm_team ?s = sm_team s" "sm_data ?s = sm_data s" by simp_all
    ultimately show ?thesis unfolding frame_of_row_def using clean_frame_fields(2-4) [OF f] by (simp only: simp_thms) blast
  qed
  ultimately show thesis by (rule that)
qed

lemma after_row: "usable s \<Longrightarrow> at_row (s\<lparr>sm_idx := at_row s 0 + 1\<rparr>) k = at_row s (k + 1)"
  using mod_add_left_eq [of "sm_idx s" "sm_total s" "Suc k"] by (simp add: at_row_def sm_total_def)

lemma after_usable: "usable s \<Longrightarrow> usable (s\<lparr>sm_idx := at_row s 0 + 1\<rparr>)"
  by (auto simp: usable_def at_row_def sm_total_def Suc_le_eq)

lemma stream_frames:
  assumes "usable s" and "0 \<le> count" and "count < n" and "n - count \<le> int (length is)"
  shows "\<exists>fs s'. stream_from (Some n) count is s = (Inr fs, s') \<and> int (length fs) = n - count \<and>
    (\<forall>k<length fs. frame_of_row s (at_row s k) (fs ! k))"
  using assms
proof (induction "is" arbitrary: s count)
  case (Cons i "is")
  let ?s = "s\<lparr>sm_idx := at_row s 0 + 1\<rparr>"
  obtain f where f: "get_next_frame i s = (Inr f, ?s)" "frame_of_row s (at_row s 0) f" using Cons.prems(1) by (rule next_frame)
  show ?case
  proof (cases "n \<le> count + 1")
    case True
    then have "n = count + 1" "n \<noteq> 0" using Cons.prems(2,3) by simp_all
    then show ?thesis using f True by auto
  next
    case False
    then obtain fs s' where fs: "stream_from (Some n) (count + 1) is ?s = (Inr fs, s')" "int (length fs) = n - (count + 1)"
      "\<forall>k<length fs. frame_of_row ?s (at_row ?s k) (fs ! k)"
      using Cons.IH [OF after_usable [OF Cons.prems(1)], of "count + 1"] Cons.prems by auto
    have "frame_of_row s (at_row s k) ((f # fs) ! k)" if "k < length (f # fs)" for k
      using that f(2) fs(3) after_row [OF Cons.prems(1)] by (cases k) (auto simp: frame_of_row_def)
    then show ?thesis using f(1) fs(1,2) False by simp
  qed
qed simp

text \<open>C19. Asked for a positive number of frames, the stream gives that many: the frame \<open>k\<close> is made of the row \<open>k\<close> places
  after the current one, going round the table when it ends, and carries that row's number, driver and
  channels, rounded; only noise, when it is on, changes speed, engine speed and throttle. This takes rows whose
  numbers \<open>int\<close> accepts, and no injected anomalies.\<close>

theorem stream_cycles:
  assumes "usable s" and "0 < n" and "n \<le> int (length is)"
  shows "\<exists>fs s'. stream (Some n) is s = (Inr fs, s') \<and> int (length fs) = n \<and>
    (\<forall>k<length fs. frame_of_row s ((sm_idx s + k) mod sm_total s) (fs ! k))"
  using stream_frames [OF assms(1), of 0 n "is"] assms(2,3) by (simp add: stream_def at_row_def)

section \<open>Injected anomalies\<close>

text \<open>
  Thresholds of the team such that half as much again as the upper one of a candidate channel lies at least one
  beyond what the channel can physically be.
\<close>

definition strong_thresholds :: "simulator \<Rightarrow> bool" where
  "strong_thresholds s =
     (\<exists>t. team_thresholds (sm_thresholds s) (sm_team s) = Inr (PDict t) \<and>
        (\<forall>ch\<in>set anomaly_candidates. \<exists>c u q lo hi. map_of t ch = Some (PDict c) \<and> map_of c ''upper'' = Some u \<and> num_of u = Some (FFin q) \<and>
           fl q = FFin q \<and> map_of PHYSICAL_LIMITS ch = Some (lo, of_int hi) \<and> 0 \<le> hi \<and> hi + 1 < 2 ^ 53 \<and> of_int hi + 1 \<le> q * 3 / 2))"

lemma scaled_beyond:
  assumes "fl q = FFin q" and "0 \<le> hi" and "hi + 1 < 2 ^ 53" and "of_int hi + 1 \<le> q * 3 / 2"
  shows "fless (FFin (of_int hi)) (py_round 4 (scale_up (FFin q)))"
proof -
  have "fle (fl (of_int (hi + 1))) (fl (q * 3 / 2))" using assms(4) by (intro fl_mono) simp
  then have "fle (FFin (of_int (hi + 1))) (fl (q * 3 / 2))" using fl_of_int [of "hi + 1"] assms(2,3) by simp
  then have "fle (FFin (of_int (hi + 1))) (py_round 4 (fl (q * 3 / 2)))"
    by (rule fle_py_round_any) (use assms(2,3) in simp_all)
  then show ?thesis by (cases "py_round 4 (fl (q * 3 / 2))") (auto simp: fle_def)
qed

lemma injected_value:
  assumes "strong_thresholds s" and "si_channel i \<in> set anomaly_candidates" and "inject_anomaly i s f = Inr g"
  obtains t c u q where "team_thresholds (sm_thresholds s) (sm_team s) = Inr (PDict t)"
    and "map_of t (si_channel i) = Some (PDict c)" and "map_of c ''upper'' = Some u" and "num_of u = Some (FFin q)"
    and "map_of g (si_channel i) = Some (PFloat (py_round 4 (fl (q * 3 / 2))))" and "impossible (PDict g) (si_channel i)"
proof -
  obtain t c u q lo hi where t: "team_thresholds (sm_thresholds s) (sm_team s) = Inr (PDict t)"
    and c: "map_of t (si_channel i) = Some (PDict c)" "map_of c ''upper'' = Some u" "num_of u = Some (FFin q)" "fl q = FFin q"
    and l: "map_of PHYSICAL_LIMITS (si_channel i) = Some (lo, of_int hi)" "0 \<le> hi" "hi + 1 < 2 ^ 53" "of_int hi + 1 \<le> q * 3 / 2"
    using assms(1,2) unfolding strong_thresholds_def by blast
  have "one_and_half u = Inr (PFloat (py_round 4 (scale_up (FFin q))))"
    using c(3,4) by (cases u) (auto simp: one_and_half_def float_of_int_def split: if_splits)
  then have "g = dict_set ''_anomaly_channel'' (PStr (si_channel i)) (dict_set ''_anomaly_injected'' (PBool True)
      (dict_set (si_channel i) (PFloat (py_round 4 (scale_up (FFin q)))) f))"
    using assms(3) c(1,2) by (simp add: inject_anomaly_def t dict_item_def dict_has_def Let_def)
  moreover have "si_channel i \<noteq> ''_anomaly_channel''" "si_channel i \<noteq> ''_anomaly_injected''"
    using assms(2) by (auto simp: anomaly_candidates_def SENSOR_CHANNELS_def)
  ultimately have g: "map_of g (si_channel i) = Some (PFloat (py_round 4 (scale_up (FFin q))))" by simp
  then have "impossible (PDict g) (si_channel i)" using scaled_beyond [OF c(4) l(2-4)] l(1) by (simp add: impossible_def)
  with t c(1-3) g show thesis by (intro that) simp_all
qed

lemma impossible_cong: "map_of d ch = map_of g ch \<Longrightarrow> impossible (PDict d) ch = impossible (PDict g) ch"
  by (simp add: impossible_def)

text \<open>A frame with an impossible channel, sent through the filter.\<close>

lemma impossible_frame_rejected:
  assumes "impossible (PDict f) ch" and "ch \<in> set CHANNELS" and "an_payload pkt = PDict d"
    and "\<forall>ch\<in>set CHANNELS. map_of d ch = map_of f ch" and "anomaly_check pkt flt = (Inr r, flt')"
  shows "is_rejected r \<and> af_rejected flt' = af_rejected flt + 1"
proof -
  have "impossible (an_payload pkt) ch" using assms(1-4) impossible_cong by metis
  with assms(2) have "is_rejected r" using anomaly_verdict [OF assms(5)] by blast
  then show ?thesis using anomaly_verdict [OF assms(5)] by simp
qed

text \<open>C18. An anomaly the simulator injects does not get past the relay: when the drawn number is below the rate, the
  frame carries half as much again as the upper threshold of the drawn channel, rounded to four digits, and the relay's filter, given
  a payload with the channels of that frame, rejects it and counts it. This takes thresholds for which that
  value is physically impossible, as the calibrated ones are, and a check that does not raise.\<close>

theorem injected_anomaly_rejected:
  assumes "get_next_frame i s = (Inr f, s')" and "sm_inject s" and "fless (si_random i) (sm_rate s)"
    and "si_channel i \<in> set anomaly_candidates" and "strong_thresholds s"
    and "an_payload pkt = PDict d" and "\<forall>ch\<in>set CHANNELS. map_of d ch = map_of f ch" and "anomaly_check pkt flt = (Inr r, flt')"
  shows "is_rejected r \<and> af_rejected flt' = af_rejected flt + 1 \<and>
    (\<exists>t c u q. team_thresholds (sm_thresholds s) (sm_team s) = Inr (PDict t) \<and> map_of t (si_channel i) = Some (PDict c) \<and>
       map_of c ''upper'' = Some u \<and> num_of u = Some (FFin q) \<and>
       map_of f (si_channel i) = Some (PFloat (py_round 4 (fl (q * 3 / 2)))))"
proof -
  obtain k f1 where inj: "inject_anomaly i (s\<lparr>sm_idx := k\<rparr>) f1 = Inr f"
    using assms(1-3) by (auto simp: get_next_frame_def make_frame_def Let_def elim!: rbind_InrE split: if_splits)
  have "strong_thresholds (s\<lparr>sm_idx := k\<rparr>)" using assms(5) by (simp add: strong_thresholds_def)
  then obtain t c u q where v: "team_thresholds (sm_thresholds s) (sm_team s) = Inr (PDict t)" "map_of t (si_channel i) = Some (PDict c)"
    "map_of c ''upper'' = Some u" "num_of u = Some (FFin q)" "map_of f (si_channel i) = Some (PFloat (py_round 4 (fl (q * 3 / 2))))"
    and bad: "impossible (PDict f) (si_channel i)"
    using assms(4) inj by (rule injected_value) simp
  have "si_channel i \<in> set CHANNELS" using assms(4) by (auto simp: anomaly_candidates_def SENSOR_CHANNELS_def CHANNELS_def)
  from impossible_frame_rejected [OF bad this assms(6-8)] v show ?thesis by blast
qed

section \<open>Noise\<close>

lemma noise_channels_value:
  "noise_channels z cs f = Inr g \<Longrightarrow> distinct (map fst cs) \<Longrightarrow> (c, std) \<in> set cs \<Longrightarrow> 0 < std \<Longrightarrow>
   map_of f c = Some v \<Longrightarrow> num_of v = Some x \<Longrightarrow> map_of g c = Some (PFloat (py_round 4 (fadd x (z c std))))"
proof (induction z cs f rule: noise_channels.induct)
  case (2 z ch sd cs f)
  show ?case
  proof (cases "ch = c")
    case True
    then have "std = sd" "c \<notin> fst ` set cs" using 2(4,5) by (auto simp: rev_image_eqI)
    moreover obtain h where h: "noise_channels z cs (dict_set c (PFloat (py_round 4 (fadd x (z c sd)))) f) = Inr g"
      using 2(3,6-8) True \<open>std = sd\<close> by (simp add: dict_has_def dict_get_def)
    moreover have "noise_channels z cs f' = Inr g' \<Longrightarrow> c \<notin> fst ` set cs \<Longrightarrow> map_of g' c = map_of f' c" for f' g'
      by (induction z cs f' rule: noise_channels.induct) (auto split: if_splits option.splits)
    ultimately show ?thesis by simp
  next
    case False
    then show ?thesis using 2 by (auto split: if_splits option.splits)
  qed
qed simp

lemma noise_channels_numeric:
  "noise_channels z cs f = Inr g \<Longrightarrow> \<exists>v x. map_of f ch = Some v \<and> num_of v = Some x \<Longrightarrow> \<exists>v x. map_of g ch = Some v \<and> num_of v = Some x"
  by (induction z cs f rule: noise_channels.induct) (auto split: if_splits option.splits)

lemma dict_get_has: "dict_get f k = v \<Longrightarrow> v \<noteq> PNone \<Longrightarrow> map_of f k = Some v \<and> dict_has f k"
  by (auto simp: dict_get_def dict_has_def split: option.splits)

lemma channel_value_number:
  assumes "channel_value ch x = Inr v"
  shows "(\<exists>n. v = PInt n) \<or> (\<exists>y. v = PFloat y)"
proof (cases "ch \<in> set [''Brake'', ''nGear'', ''DRS'']")
  case True
  then have "rbind (trunc_int x) (\<lambda>n. Inr (PInt n)) = Inr v" using assms by (simp only: channel_value_def if_True)
  then show ?thesis by (rule rbind_InrE) auto
next
  case False
  then have "(if ch \<in> set [''X'', ''Y'', ''Distance''] then Inr (PFloat (py_round 2 x)) else Inr (PFloat (py_round 4 x))) = (Inr v :: pyval res)"
    using assms by (simp only: channel_value_def if_False)
  then show ?thesis by (metis sum.inject(2))
qed

lemma clean_frame_numeric:
  assumes "clean_frame i s r = Inr f" and "ch \<in> set SENSOR_CHANNELS"
  shows "\<exists>v x. map_of f ch = Some v \<and> num_of v = Some x"
proof -
  have "(\<exists>n. dict_get f ch = PInt n) \<or> (\<exists>y. dict_get f ch = PFloat y)"
    using clean_frame_fields(1) [OF assms] by (rule channel_value_number)
  then show ?thesis using dict_get_has [of f ch, OF refl] by auto
qed

lemma relay_channels: "set CHANNELS \<subseteq> set SENSOR_CHANNELS"
  by (simp add: CHANNELS_def SENSOR_CHANNELS_def)

lemma next_frame_made:
  assumes "get_next_frame i s = (Inr f, s')" and "\<not> sm_inject s"
  obtains g where "clean_frame i s' (tb_rows (sm_data s) ! (if sm_total s \<le> sm_idx s then 0 else sm_idx s)) = Inr g"
    and "if sm_noise s then add_noise i g = Inr f else g = f"
    and "s' = s\<lparr>sm_idx := (if sm_total s \<le> sm_idx s then 0 else sm_idx s) + 1\<rparr>"
proof -
  let ?k = "if sm_total s \<le> sm_idx s then 0 else sm_idx s"
  have t: "sm_total s \<noteq> 0" using assms(1) by (cases "sm_total s = 0") (simp_all add: get_next_frame_def)
  then have s': "s' = s\<lparr>sm_idx := ?k + 1\<rparr>" and m: "make_frame i s' (tb_rows (sm_data s) ! ?k) = Inr f"
    using assms(1) unfolding get_next_frame_def Let_def by (simp_all only: if_False prod.inject) blast
  have "\<not> sm_inject s'" "sm_noise s' = sm_noise s" using assms(2) s' by simp_all
  with m obtain g where "clean_frame i s' (tb_rows (sm_data s) ! ?k) = Inr g" "(if sm_noise s then add_noise i g else Inr g) = Inr f"
    by (auto simp only: make_frame_def simp_thms if_False elim!: rbind_InrE)
  with s' show thesis by (intro that [of g]) (simp_all split: if_splits)
qed

lemma next_frame_numeric:
  assumes "get_next_frame i s = (Inr f, s')" and "\<not> sm_inject s" and "ch \<in> set CHANNELS"
  shows "\<exists>v x. map_of f ch = Some v \<and> num_of v = Some x"
proof -
  obtain g r where g: "clean_frame i s' r = Inr g" and f: "if sm_noise s then add_noise i g = Inr f else g = f"
    using assms(1,2) by (rule next_frame_made)
  have "ch \<in> set SENSOR_CHANNELS" using assms(3) relay_channels by blast
  note n = clean_frame_numeric [OF g this]
  show ?thesis using f n noise_channels_numeric [of "si_normal i" NOISE_CONFIG g f ch] by (auto simp: add_noise_def split: if_splits)
qed

text \<open>At full throttle, a deviation of a thousandth is enough to end above 100 after rounding.\<close>

lemma py_round_mono: "fle x y \<Longrightarrow> fle (py_round n x) (py_round n y)"
  by (cases x; cases y) (simp_all add: fle_ends fl_not_nan fl_mono divide_right_mono round_half_even_mono)

lemma above_full:
  assumes "1 / 1000 \<le> e"
  shows "fless (FFin 100) (py_round 4 (fadd (FFin 100) (FFin e)))"
proof -
  have p: "pow2 6 = 64" "pow2 7 = 128" "pow2 (- 46) = 1 / 2 ^ 46" by (simp_all add: pow2_def)
  have f1: "fl (102401 / 1024) = FFin (102401 / 1024)"
    using fl_value [of "102401 / 1024" 6 "102401 * 2 ^ 36"] by (simp add: p)
  have f2: "fl (204801 / 2048) = FFin (204801 / 2048)"
    using fl_value [of "204801 / 2048" 6 "204801 * 2 ^ 35"] by (simp add: p)
  have "fle (fl (102401 / 1024)) (fl (100 + e))" using assms by (intro fl_mono) simp
  then have b: "fle (py_round 4 (FFin (102401 / 1024))) (py_round 4 (fl (100 + e)))" unfolding f1 by (rule py_round_mono)
  have "round_half_even (102401 / 1024 * 10 ^ 4 :: rat) = 1000010" by (rule round_half_even_near) simp
  then have r: "py_round 4 (FFin (102401 / 1024)) = fl (100001 / 1000)" by simp
  have "fle (fl (204801 / 2048)) (fl (100001 / 1000))" by (rule fl_mono) simp
  then have a: "fle (FFin (204801 / 2048)) (fl (100001 / 1000))" unfolding f2 .
  have "fle (FFin (204801 / 2048)) (py_round 4 (fl (100 + e)))" by (rule fle_trans [OF a b [unfolded r]])
  then show ?thesis by (cases "py_round 4 (fl (100 + e))") (auto simp: fadd_def fle_def)
qed

text \<open>A car at full throttle; the parameters are whether the simulator adds noise and whether it injects anomalies.\<close>

definition full_values :: "string \<Rightarrow> int" where
  "full_values ch = (case map_of [(''Speed'', 300), (''RPM'', 11000), (''Throttle'', 100), (''Brake'', 0), (''nGear'', 7), (''DRS'', 12),
     (''X'', 100), (''Y'', 200), (''Distance'', 1500)] ch of Some n \<Rightarrow> n | None \<Rightarrow> 0)"

definition full_row :: data_row where
  "full_row = \<lparr>dr_race = ''Monza'', dr_session = ''R'', dr_driver = ''HAM'', dr_lap = FFin 3, dr_value = (\<lambda>ch. FFin (of_int (full_values ch)))\<rparr>"

definition full_throttle :: "bool \<Rightarrow> bool \<Rightarrow> simulator" where
  "full_throttle noise anomalies =
     \<lparr>sm_team = ''mercedes'', sm_session = ''R'', sm_race = ''Monza'', sm_noise = noise, sm_inject = anomalies, sm_rate = FFin 1,
      sm_thresholds = PDict [(''mercedes'', PDict (map (\<lambda>(c, u). (c, PDict [(''upper'', PInt u)])) [(''Speed'', 380), (''RPM'', 15368), (''Throttle'', 100)]))],
      sm_data = \<lparr>tb_columns = SENSOR_CHANNELS @ [''Race'', ''Session'', ''Driver'', ''LapNumber''], tb_rows = [full_row]\<rparr>, sm_idx = 0\<rparr>"

definition full_inputs :: sensor_inputs where
  "full_inputs = \<lparr>si_now = ''2024-09-01T13:00:00+00:00'', si_label = (\<lambda>x y. ''T1''),
     si_normal = (\<lambda>ch std. if ch = ''Throttle'' then FFin (1 / 16) else FFin 0), si_random = FFin (1 / 2), si_channel = ''Speed''\<rparr>"

lemma full_usable: "usable (full_throttle noise False)"
  by (simp add: usable_def full_throttle_def sm_total_def row_ok_def cell_def full_row_def trunc_int_def)

text \<open>A filter without thresholds and history checks every payload of numbers.\<close>

lemma fresh_check:
  assumes "\<forall>ch\<in>set CHANNELS. \<exists>v x. map_of d ch = Some v \<and> num_of v = Some x"
  shows "\<exists>r f'. anomaly_check [(''payload_json'', PDict d)] sample_filter = (Inr r, f')"
proof -
  have one: "\<exists>r'. check_channel sample_filter (PDict d) (PStr ''unknown'') (PDict []) ch r = Inr r'" if "ch \<in> set CHANNELS" for ch r
  proof -
    from assms that have "\<exists>v x. map_of d ch = Some v \<and> num_of v = Some x" by blast
    then obtain v x where v: "map_of d ch = Some v" "num_of v = Some x" by blast
    then show ?thesis
      by (simp add: check_channel_def dict_has_def dict_item_def physical_check_def out_of_bounds_num threshold_check_def
          last_values_def sample_filter_def roc_check_def split: option.split)
  qed
  have chs: "\<exists>r'. check_channels sample_filter (PDict d) (PStr ''unknown'') (PDict []) chs r = Inr r'" if "set chs \<subseteq> set CHANNELS" for chs r
    using that
  proof (induction chs arbitrary: r)
    case (Cons ch chs)
    then show ?case using one [of ch r] by auto
  qed simp
  have rem: "\<exists>e'. remember_channels (PDict d) chs e = Inr e'" if "set chs \<subseteq> set CHANNELS" for chs e
    using that assms by (induction chs arbitrary: e) (auto simp: dict_has_def dict_item_def)
  obtain r where r: "check_channels sample_filter (PDict d) (PStr ''unknown'') (PDict []) CHANNELS new_anomaly = Inr r" using chs by blast
  obtain e where e: "remember_channels (PDict d) CHANNELS [] = Inr e" using rem by blast
  have "get_thresholds sample_filter (PStr ''combined'') = Inr (PDict [])"
    by (simp add: get_thresholds_def get_key_def sample_filter_def dict_get_def py_or_def)
  moreover have "last_values sample_filter (PStr ''unknown'') = Inr []" by (simp add: last_values_def sample_filter_def)
  ultimately show ?thesis using r e by (simp add: anomaly_check_def an_payload_def an_node_def dict_get_or_def)
qed

text \<open>C20. The noise the simulator adds by default makes the relay reject honest frames: at full throttle, where the
  row says 100, any draw of at least a thousandth for the throttle - a hundredth of the standard deviation of 0.1 it
  is drawn with - gives a frame whose throttle, the rounded sum that nothing clamps, exceeds 100, and the relay's filter, given a
  payload with the channels of that frame, rejects and counts it, because it bounds the throttle at 100. Without
  noise the same row yields exactly 100, which the filter's physical bound allows.\<close>

theorem noise_rejects_full_throttle:
  assumes "get_next_frame i s = (Inr f, s')" and "sm_noise s" and "\<not> sm_inject s"
    and "dr_value (tb_rows (sm_data s) ! (if sm_total s \<le> sm_idx s then 0 else sm_idx s)) ''Throttle'' = FFin 100"
    and "si_normal i ''Throttle'' (1 / 10) = FFin e" and "1 / 1000 \<le> e"
    and "an_payload pkt = PDict d" and "\<forall>ch\<in>set CHANNELS. map_of d ch = map_of f ch" and "anomaly_check pkt flt = (Inr r, flt')"
  shows "map_of f ''Throttle'' = Some (PFloat (py_round 4 (fadd (FFin 100) (FFin e)))) \<and>
    fless (FFin 100) (py_round 4 (fadd (FFin 100) (FFin e))) \<and>
    is_rejected r \<and> af_rejected flt' = af_rejected flt + 1 \<and>
    (\<exists>g s0. get_next_frame i (s\<lparr>sm_noise := False\<rparr>) = (Inr g, s0) \<and> map_of g ''Throttle'' = Some (PFloat (FFin 100)) \<and>
       \<not> impossible (PDict g) ''Throttle'')"
proof -
  let ?k = "if sm_total s \<le> sm_idx s then 0 else sm_idx s"
  obtain g where g: "clean_frame i s' (tb_rows (sm_data s) ! ?k) = Inr g" and f: "add_noise i g = Inr f"
    and s': "s' = s\<lparr>sm_idx := ?k + 1\<rparr>"
    using assms(1,3) by (rule next_frame_made) (use assms(2) in auto)
  have "channel_value ''Throttle'' (FFin 100) = Inr (dict_get g ''Throttle'')"
    using clean_frame_fields(1) [OF g, of "''Throttle''"] assms(4) by (simp add: SENSOR_CHANNELS_def)
  then have "dict_get g ''Throttle'' = PFloat (FFin 100)"
    using py_round_int [of 100 4] by (simp add: channel_value_def del: py_round.simps)
  then have t: "map_of g ''Throttle'' = Some (PFloat (FFin 100))" using dict_get_has by fastforce
  have ft: "map_of f ''Throttle'' = Some (PFloat (py_round 4 (fadd (FFin 100) (FFin e))))"
    using noise_channels_value [OF f [unfolded add_noise_def], of "''Throttle''" "1 / 10"] t assms(5)
    by (simp add: NOISE_CONFIG_def del: py_round.simps)
  note above = above_full [OF assms(6)]
  have "impossible (PDict f) ''Throttle''" using ft above by (simp add: impossible_def PHYSICAL_LIMITS_def del: py_round.simps)
  from impossible_frame_rejected [OF this _ assms(7-9)] have rej: "is_rejected r \<and> af_rejected flt' = af_rejected flt + 1"
    by (simp add: CHANNELS_def)
  have "sm_total s \<noteq> 0" using assms(1) by (cases "sm_total s = 0") (simp_all add: get_next_frame_def)
  moreover have "clean_frame i (s\<lparr>sm_noise := False, sm_idx := ?k + 1\<rparr>) (tb_rows (sm_data s) ! ?k) = Inr g"
    using g by (simp add: s' clean_frame_def frame_head_def)
  then have "make_frame i (s\<lparr>sm_noise := False, sm_idx := ?k + 1\<rparr>) (tb_rows (sm_data s) ! ?k) = Inr g"
    using assms(3) by (simp only: make_frame_def rbind_simps) simp
  ultimately have "get_next_frame i (s\<lparr>sm_noise := False\<rparr>) = (Inr g, s\<lparr>sm_noise := False, sm_idx := ?k + 1\<rparr>)"
    by (cases "length (tb_rows (sm_data s)) \<le> sm_idx s") (simp_all add: get_next_frame_def Let_def sm_total_def)
  moreover have "\<not> impossible (PDict g) ''Throttle''" using t by (simp add: impossible_def PHYSICAL_LIMITS_def)
  ultimately show ?thesis using t ft above rej by blast
qed

theorem noise_rejects_full_throttle_witness:
  "\<exists>f s r flt. get_next_frame full_inputs (full_throttle True False) = (Inr f, s) \<and>
     anomaly_check [(''payload_json'', PDict f)] sample_filter = (Inr r, flt) \<and> is_rejected r"
proof -
  obtain f s where f: "get_next_frame full_inputs (full_throttle True False) = (Inr f, s)"
    using next_frame [OF full_usable] by metis
  have ni: "sm_noise (full_throttle True False)" "\<not> sm_inject (full_throttle True False)" by (simp_all add: full_throttle_def)
  obtain r flt where r: "anomaly_check [(''payload_json'', PDict f)] sample_filter = (Inr r, flt)"
    using fresh_check next_frame_numeric [OF f ni(2)] by blast
  have "is_rejected r"
    using noise_rejects_full_throttle [OF f ni _ _ _ _ _ r, of "1 / 16" f]
    by (simp add: full_throttle_def full_row_def full_values_def full_inputs_def sm_total_def an_payload_def dict_get_or_def)
  with f r show ?thesis by blast
qed

section \<open>Runs\<close>

lemma stream_cycles_witness:
  "\<exists>fs s'. stream (Some 3) (replicate 5 full_inputs) (full_throttle True False) = (Inr fs, s') \<and> int (length fs) = 3 \<and>
    (\<forall>k<length fs. frame_of_row (full_throttle True False)
       ((sm_idx (full_throttle True False) + k) mod sm_total (full_throttle True False)) (fs ! k))"
  by (rule stream_cycles [OF full_usable]) simp_all

lemma full_strong: "strong_thresholds (full_throttle noise True)"
proof -
  have "\<exists>c u q lo hi. map_of (map (\<lambda>(c, u). (c, PDict [(''upper'', PInt u)])) [(''Speed'', 380), (''RPM'', 15368), (''Throttle'', 100)]) ch = Some (PDict c) \<and>
      map_of c ''upper'' = Some u \<and> num_of u = Some (FFin q) \<and> fl q = FFin q \<and>
      map_of PHYSICAL_LIMITS ch = Some (lo, of_int hi) \<and> 0 \<le> hi \<and> hi + 1 < 2 ^ 53 \<and> of_int hi + 1 \<le> q * 3 / 2"
    if "ch \<in> set anomaly_candidates" for ch
  proof -
    have limit: "map_of PHYSICAL_LIMITS ''Speed'' = Some (- 5, of_int 400)" "map_of PHYSICAL_LIMITS ''RPM'' = Some (0, of_int 16000)"
      "map_of PHYSICAL_LIMITS ''Throttle'' = Some (0, of_int 100)" by (simp_all add: PHYSICAL_LIMITS_def)
    have fl: "fl 380 = FFin 380" "fl 15368 = FFin 15368" "fl 100 = FFin 100"
      using fl_of_int [of 380] fl_of_int [of 15368] fl_of_int [of 100] by simp_all
    from that consider "ch = ''Speed''" | "ch = ''RPM''" | "ch = ''Throttle''" by (auto simp: anomaly_candidates_def SENSOR_CHANNELS_def)
    then show ?thesis
    proof cases
      case 1
      show ?thesis unfolding 1 limit
        by (rule exI [of _ "[(''upper'', PInt 380)]"], rule exI [of _ "PInt 380"], rule exI [of _ 380], rule exI [of _ "- 5"], rule exI [of _ 400])
          (simp add: fl)
    next
      case 2
      show ?thesis unfolding 2 limit
        by (rule exI [of _ "[(''upper'', PInt 15368)]"], rule exI [of _ "PInt 15368"], rule exI [of _ 15368], rule exI [of _ 0], rule exI [of _ 16000])
          (simp add: fl)
    next
      case 3
      show ?thesis unfolding 3 limit
        by (rule exI [of _ "[(''upper'', PInt 100)]"], rule exI [of _ "PInt 100"], rule exI [of _ 100], rule exI [of _ 0], rule exI [of _ 100])
          (simp add: fl)
    qed
  qed
  then show ?thesis unfolding strong_thresholds_def
    by (intro exI [of _ "map (\<lambda>(c, u). (c, PDict [(''upper'', PInt u)])) [(''Speed'', 380), (''RPM'', 15368), (''Throttle'', 100)]"])
      (simp add: full_throttle_def team_thresholds_def dict_get_def py_or_def)
qed

lemma injected_anomaly_rejected_witness:
  "\<exists>f s r flt. get_next_frame full_inputs (full_throttle False True) = (Inr f, s) \<and>
     anomaly_check [(''payload_json'', PDict f)] sample_filter = (Inr r, flt) \<and> is_rejected r \<and> af_rejected flt = 1"
proof -
  let ?s = "full_throttle False True"
  obtain f0 where f0: "clean_frame full_inputs (?s\<lparr>sm_idx := 1\<rparr>) full_row = Inr f0"
    using clean_frame_total [of "?s\<lparr>sm_idx := 1\<rparr>" full_row full_inputs] full_usable by (auto simp: usable_def full_throttle_def)
  let ?f = "dict_set ''_anomaly_channel'' (PStr ''Speed'') (dict_set ''_anomaly_injected'' (PBool True) (dict_set ''Speed'' (PFloat (FFin 570)) f0))"
  have "one_and_half (PInt 380) = Inr (PFloat (FFin 570))"
    using fl_of_int [of 380] fl_of_int [of 570] py_round_int [of 570 4] by (simp add: one_and_half_def float_of_int_def del: py_round.simps)
  then have "inject_anomaly full_inputs (?s\<lparr>sm_idx := 1\<rparr>) f0 = Inr ?f"
    by (simp add: inject_anomaly_def full_inputs_def full_throttle_def team_thresholds_def dict_get_def py_or_def dict_has_def dict_item_def Let_def)
  moreover have "sm_total ?s = 1" "sm_idx ?s = 0" "\<not> sm_noise ?s" "sm_inject ?s" "tb_rows (sm_data ?s) = [full_row]"
    "fless (si_random full_inputs) (sm_rate ?s)" by (simp_all add: full_throttle_def sm_total_def full_inputs_def)
  ultimately have f: "get_next_frame full_inputs ?s = (Inr ?f, ?s\<lparr>sm_idx := 1\<rparr>)"
    using f0 by (simp add: get_next_frame_def make_frame_def Let_def)
  have "\<exists>v x. map_of ?f ch = Some v \<and> num_of v = Some x" if ch: "ch \<in> set CHANNELS" for ch
  proof -
    have "ch \<in> set SENSOR_CHANNELS" using ch relay_channels by blast
    from clean_frame_numeric [OF f0 this] show ?thesis using ch by (auto simp: CHANNELS_def)
  qed
  then obtain r flt where r: "anomaly_check [(''payload_json'', PDict ?f)] sample_filter = (Inr r, flt)" using fresh_check by blast
  have "is_rejected r \<and> af_rejected flt = af_rejected sample_filter + 1"
    using injected_anomaly_rejected [OF f _ _ _ full_strong _ _ r, of ?f]
    by (simp add: full_throttle_def full_inputs_def anomaly_candidates_def SENSOR_CHANNELS_def an_payload_def dict_get_or_def)
  then show ?thesis using f r by (simp add: sample_filter_def)
qed

end
