(* ===== verification/ValidatorRun.thy ===== *)
theory ValidatorRun
  imports SimPipeline SensorSimulator
begin

text \<open>
  \<open>run_simulation\<close> of \<open>validator-node/src/main.py\<close>: a car and a relay made of their components, driven by the
  sensor simulator, hand packets with commitments to the validator's own pipeline. An exception of any
  step ends the run. The theorem says that the validator accepts every packet of such a run.
\<close>

section \<open>The run\<close>

record run_parts =
  rn_builder :: builder
  rn_signer :: signer
  rn_car_engine :: engine
  rn_encryptor :: encryptor
  rn_decryptor :: decryptor
  rn_reencryptor :: reencryptor

definition run_setup :: "pyca \<Rightarrow> sim_keys \<Rightarrow> validator \<Rightarrow> (run_parts \<times> validator) res" where
  "run_setup C k v =
     rbind (builder_init ''mercedes'' ''R'' None) (\<lambda>bld.
     let sgn = signer_init CAR_NODE (sk_signer k) (sk_now k) in
     rbind (cross_handshake C (sk_now k) CAR_NODE (sk_car k) RELAY_NODE (sk_relay k)) (\<lambda>(car, rel).
     rbind (cross_handshake C (sk_now k) ''relay_val'' (sk_relay_val k) (vn_node_id v) (sk_validator k)) (\<lambda>(rv, val).
     rbind (keep (sv_register_node CAR_NODE (signer_public C sgn) (vn_sig v))) (\<lambda>(_, sv).
     rbind (keep (register_session CAR_NODE rel (decryptor_init RELAY_NODE))) (\<lambda>(_, dec).
     rbind (keep (register_validator_session rv (reencryptor_init RELAY_NODE))) (\<lambda>(_, ren).
       Inr (\<lparr>rn_builder = bld, rn_signer = sgn, rn_car_engine = car, rn_encryptor = encryptor_init CAR_NODE,
              rn_decryptor = dec, rn_reencryptor = ren\<rparr>,
            v\<lparr>vn_engine := Some val, vn_sig := sv\<rparr>)))))))"

text \<open>The packet from a frame to the relay's result, with the commitment added.\<close>

definition run_packet :: "pyca \<Rightarrow> packet_inputs \<Rightarrow> pydict \<Rightarrow> run_parts \<Rightarrow> (pydict \<times> run_parts) res" where
  "run_packet C i f p =
     rbind (keep (build (rn_builder p) (pi_now i) f)) (\<lambda>(pkt, bld).
     rbind (keep (sign_packet C (pi_signed_at i) pkt (rn_signer p))) (\<lambda>(sgnd, sgn).
     rbind (rbind (dict_item sgnd ''payload'') as_bytes) (\<lambda>payload.
     let cm = generate_commitment (pi_random i) payload None in
     rbind (keep (encrypt_packet C (pi_nonce i) (pi_encrypted_at i) sgnd (rn_car_engine p) (rn_encryptor p)))
       (\<lambda>(enc, car, x).
     rbind (keep (decrypt_relay C enc (rn_decryptor p))) (\<lambda>(dec, d).
     rbind (keep (reencrypt C (pi_renonce i) dec (rn_reencryptor p))) (\<lambda>(ren, r).
       Inr (dict_set ''zkp_nonce'' (PStr (snd cm)) (dict_set ''zkp_commitment'' (PStr (fst cm)) ren),
            p\<lparr>rn_builder := bld, rn_signer := sgn, rn_car_engine := car, rn_encryptor := x,
              rn_decryptor := d, rn_reencryptor := r\<rparr>)))))))"

type_synonym run_inputs = "sensor_inputs \<times> packet_inputs \<times> validator_inputs"
type_synonym run_state = "simulator \<times> run_parts \<times> validator"

definition run_step :: "pyca \<Rightarrow> run_inputs \<Rightarrow> run_state \<Rightarrow> (accepted option \<times> run_state) res" where
  "run_step C i st =
     (case (i, st) of ((si, pin, vi), (s, p, v)) \<Rightarrow>
        rbind (keep (get_next_frame si s)) (\<lambda>(f, s').
        rbind (run_packet C pin f p) (\<lambda>(pkt, p').
        rbind (keep (validate_packet C vi pkt v)) (\<lambda>(r, v'). Inr (r, s', p', v')))))"

fun run_loop :: "pyca \<Rightarrow> run_inputs list \<Rightarrow> run_state \<Rightarrow> (accepted option list \<times> run_state) res" where
  "run_loop C [] st = Inr ([], st)"
| "run_loop C (i # is) st =
     rbind (run_step C i st) (\<lambda>(r, st'). rbind (run_loop C is st') (\<lambda>(rs, st''). Inr (r # rs, st'')))"

text \<open>The simulator, of one race, is made first. The statistics returned are those of the validator at the end.\<close>

definition run_simulator :: "bytes option \<Rightarrow> table \<Rightarrow> simulator res" where
  "run_simulator th t = simulator_init ''mercedes'' (Some ''Bahrain'') ''R'' None None False False (FFin (1 / 1000)) [] th t"

definition run_simulation ::
  "pyca \<Rightarrow> sim_keys \<Rightarrow> run_inputs list \<Rightarrow> bytes option \<Rightarrow> table \<Rightarrow> validator \<Rightarrow> (validator_stats \<times> accepted option list \<times> validator) res" where
  "run_simulation C k is th t v =
     rbind (run_simulator th t) (\<lambda>s. rbind (run_setup C k v) (\<lambda>(p, v1).
     rbind (run_loop C is (s, p, v1)) (\<lambda>(rs, s', p', v'). Inr (vn_stats v', rs, v'))))"

section \<open>A run in order\<close>

text \<open>The parts as a pipeline of the simulations, which the packets' lemmas speak of.\<close>

definition joined :: "run_parts \<Rightarrow> engine \<Rightarrow> validator \<Rightarrow> sim_pipeline" where
  "joined p e v =
     \<lparr>sp_builder = rn_builder p, sp_signer = rn_signer p, sp_car_engine = rn_car_engine p, sp_encryptor = rn_encryptor p,
      sp_decryptor = rn_decryptor p, sp_reencryptor = rn_reencryptor p, sp_val_engine = e, sp_sig = vn_sig v, sp_zkp = vn_zkp v\<rparr>"

definition parts_of :: "sim_pipeline \<Rightarrow> run_parts" where
  "parts_of p =
     \<lparr>rn_builder = sp_builder p, rn_signer = sp_signer p, rn_car_engine = sp_car_engine p, rn_encryptor = sp_encryptor p,
      rn_decryptor = sp_decryptor p, rn_reencryptor = sp_reencryptor p\<rparr>"

lemma parts_joined [simp]: "parts_of (joined p e v) = p"
  by (simp add: parts_of_def joined_def)

text \<open>The stages of the simulations begin with what a run does.\<close>

lemma stages_packet:
  assumes "stages C i (Some f) q = Inr (s, q')"
  shows "run_packet C i f (parts_of q) = Inr (dict_set ''zkp_nonce'' (PStr (snd (ps_commitment s)))
      (dict_set ''zkp_commitment'' (PStr (fst (ps_commitment s))) (ps_reencrypted s)), parts_of q')"
    and "\<exists>plaintext. open_reencrypted C (ps_reencrypted s) (sp_val_engine q) = (Inr plaintext, sp_val_engine q') \<and>
      ps_validator s = validator_packet (ps_reencrypted s) plaintext (ps_commitment s)"
    and "\<exists>x'. reencrypt C (pi_renonce i) (ps_decrypted s) (sp_reencryptor q) = (Inr (ps_reencrypted s), x')"
  using assms
  by (auto simp: stages_def run_packet_def given_frame_def parts_of_def keep_def Let_def
      elim!: rbind_InrE split: prod.splits sum.splits)

text \<open>The validator can open and verify what the parts make, and has seen no later number of the car.\<close>

definition run_ready :: "pyca \<Rightarrow> run_parts \<Rightarrow> validator \<Rightarrow> bool" where
  "run_ready C p v =
     (car_checker (vn_seq v) \<and> 0 \<le> bld_sequence (rn_builder p) \<and> car_last (vn_seq v) \<le> bld_sequence (rn_builder p) \<and>
      (case vn_engine v of Some e \<Rightarrow> sim_ready C (joined p e v) | None \<Rightarrow> False))"

definition one_more :: "validator_stats \<Rightarrow> validator_stats \<Rightarrow> bool" where
  "one_more s s' =
     (vs_received s' = vs_received s + 1 \<and> vs_rejected s' = vs_rejected s \<and>
      vs_accepted s' + vs_flagged s' = vs_accepted s + vs_flagged s + 1)"

lemma opened_decrypted:
  assumes "open_reencrypted C ren e = (Inr p, e')" and "\<forall>k\<in>set [''nonce_bytes'', ''ciphertext_bytes'', ''header'']. map_of pkt k = map_of ren k"
  shows "validator_decrypt C pkt e = (Inr p, e')"
  using assms by (auto simp: open_reencrypted_def validator_decrypt_def dict_item_def dict_get_def rbind_def
      split: option.splits sum.splits prod.splits)

lemma accept_effect:
  "\<exists>v'. accept_packet i pkt r z w = (Inr (Some (pkt, r, z)), v') \<and> vn_seq v' = vn_seq w \<and> vn_engine v' = vn_engine w \<and> vn_sig v' = vn_sig w \<and>
    vs_received (vn_stats v') = vs_received (vn_stats w) \<and> vs_rejected (vn_stats v') = vs_rejected (vn_stats w) \<and>
    vs_accepted (vn_stats v') + vs_flagged (vn_stats v') = vs_accepted (vn_stats w) + vs_flagged (vn_stats w) + 1"
  by (cases "cr_warnings r = []") (simp_all add: accept_packet_def vupd_def Let_def)

lemma packet_accepted:
  assumes laws: "sim_laws C" and ready: "run_ready C p v" and good: "good_inputs i (Some f)" and q: "bld_sequence (rn_builder p) + 1 < 2 ^ 64"
  obtains pkt p' acc v' where "run_packet C i f p = Inr (pkt, p')" and "validate_packet C vi pkt v = (Inr (Some acc), v')"
    and "run_ready C p' v'" and "bld_sequence (rn_builder p') = bld_sequence (rn_builder p) + 1" and "one_more (vn_stats v) (vn_stats v')"
proof -
  let ?q = "bld_sequence (rn_builder p) + 1"
  obtain e where e: "vn_engine v = Some e" "sim_ready C (joined p e v)" and chk: "car_checker (vn_seq v)" "0 \<le> ?q - 1" "car_last (vn_seq v) < ?q"
    using ready by (auto simp: run_ready_def split: option.splits)
  have L: "aead_law C" "aead_total C" "sig_law C" using laws by (simp_all add: sim_laws_def)
  obtain s p1 h pl ct k js where st: "stages C i (Some f) (joined p e v) = Inr (s, p1)" and p1: "sim_ready C p1"
      "bld_sequence (sp_builder p1) = ?q" "sp_sig p1 = vn_sig v"
    and hon: "honest_packet C (rn_signer p) ?q (ps_validator s) h pl" and h: "struct_pack (car_header (rn_builder p) (pi_now i) pl) = Inr h"
    and enc: "ps_encrypted s = encrypted_fields (rn_encryptor p) (pi_encrypted_at i) (ps_signed s) (pi_nonce i) ct h pl"
    and dec: "ps_decrypted s = opened_fields (rn_decryptor p) (ps_encrypted s) pl js"
    and sgnd: "ps_signed s = signed_fields (rn_signer p) (pi_signed_at i) (ed_sign C (sgn_private (rn_signer p)) (h @ pl))
      (built_packet (rn_builder p) ?q (clock_ms (pi_now i)) pl h)"
    and cm: "map_of (ps_validator s) ''zkp_commitment'' = Some (PStr (zkp_digest pl (pi_random i)))"
      "map_of (ps_validator s) ''zkp_nonce'' = Some (PStr (to_hex (pi_random i)))"
    by (rule stages_made [OF L e(2) good]) (use q chk in \<open>simp_all add: joined_def\<close>)
  note run = stages_packet [OF st]
  let ?pkt = "dict_set ''zkp_nonce'' (PStr (snd (ps_commitment s))) (dict_set ''zkp_commitment'' (PStr (fst (ps_commitment s))) (ps_reencrypted s))"
  obtain plaintext where op: "open_reencrypted C (ps_reencrypted s) e = (Inr plaintext, sp_val_engine p1)"
    and vp: "ps_validator s = validator_packet (ps_reencrypted s) plaintext (ps_commitment s)" using run(2) by (auto simp: joined_def)
  have pl: "plaintext = pl" using hon by (simp add: vp honest_packet_def validator_packet_def)
  let ?sig = "ed_sign C (sgn_private (rn_signer p)) (h @ pl)"
  have m: "map_of ?pkt ''header'' = Some (PBytes h)" "map_of ?pkt ''signature_bytes'' = Some (PBytes ?sig)"
    "map_of ?pkt ''sequence_no'' = Some (PInt ?q)" and ne: "h \<noteq> []" "pl \<noteq> []"
    using hon by (auto simp: vp honest_packet_def validator_packet_def)
  have z: "map_of ?pkt ''zkp_commitment'' = Some (PStr (zkp_digest pl (pi_random i)))" "map_of ?pkt ''zkp_nonce'' = Some (PStr (to_hex (pi_random i)))"
    using cm by (simp_all add: vp validator_packet_def)
  have node: "sgn_node_id (rn_signer p) = CAR_NODE" "CAR_NODE \<noteq> []" using e(2) by (simp_all add: sim_ready_def joined_def CAR_NODE_def)
  have org: "map_of ?pkt ''original_node'' = Some (PStr CAR_NODE)"
  proof -
    obtain x' where "reencrypt C (pi_renonce i) (ps_decrypted s) (rn_reencryptor p) = (Inr (ps_reencrypted s), x')" using run(3) by (auto simp: joined_def)
    then obtain c b sb sh where "ps_reencrypted s = reencrypted_fields (rn_reencryptor p) (ps_decrypted s) (pi_renonce i) c b sb sh"
      by (rule reencrypt_InrD) blast
    then show ?thesis
      by (simp add: reencrypted_fields_def dec enc sgnd opened_fields_def encrypted_fields_def signed_fields_def built_packet_def
          dict_get_or_def dict_get_def node)
  qed
  have dv: "validator_decrypt C ?pkt e = (Inr pl, sp_val_engine p1)" by (rule opened_decrypted [OF op [unfolded pl]]) simp
  have reg: "map_of (sv_registry (vn_sig v)) CAR_NODE = Some (signer_public C (rn_signer p))"
    using e(2) by (simp add: sim_ready_def joined_def)
  have sig: "ed_verify C (signer_public C (rn_signer p)) ?sig (h @ pl)" "length ?sig = 64"
    using L(3) by (simp_all add: sig_law_def signer_public_def)
  have hd: "h_magic (car_header (rn_builder p) (pi_now i) pl) = MAGIC" "length (h_checksum (car_header (rn_builder p) (pi_now i) pl)) = 32"
    "h_sequence_no (car_header (rn_builder p) (pi_now i) pl) = ?q" by (simp_all add: car_header_def)
  let ?vp = "verified_packet ?pkt pl (verify_result (PStr CAR_NODE) (vi_sig_stamp vi))"
  have "sc_node ?vp = PStr CAR_NODE" "sc_seq ?vp = PInt ?q"
    unfolding verified_packet_fields using org m node by (simp_all add: sc_node_def sc_seq_def dict_get_def dict_get_or_def py_or_def)
  then obtain cr sq where sq: "sequence_check (vn_seq v) (vi_now vi) ?vp = (Inr cr, sq)" "cr_passed cr" "checker_moved (vn_seq v) ?q sq"
    using car_checker_step [OF chk(1), of ?vp ?q] chk(2,3) by auto
  have "pi_random i \<noteq> []" using good by (simp add: good_inputs_def)
  then obtain zr zk where zk: "zkp_verify_packet (vi_zkp_stamp vi) ?vp (vn_zkp v) = (Inr zr, zk)" "cm_verified zr"
  proof -
    have "map_of ?vp ''zkp_commitment'' = map_of ?pkt ''zkp_commitment''" "map_of ?vp ''zkp_nonce'' = map_of ?pkt ''zkp_nonce''"
      by (simp_all add: verified_packet_get)
    then have vz: "dict_get ?vp ''zkp_commitment'' = PStr (zkp_digest pl (pi_random i))" "dict_get ?vp ''zkp_nonce'' = PStr (to_hex (pi_random i))"
      unfolding dict_get_def z by simp_all
    show thesis using that \<open>pi_random i \<noteq> []\<close>
      unfolding zkp_verify_packet_def Let_def vz verified_packet_fields by (simp add: verify_commitment_def digest_truthy to_hex_eq_Nil Let_def)
  qed
  let ?w = "(vupd (\<lambda>s. s\<lparr>vs_received := vs_received s + 1\<rparr>) v)\<lparr>vn_engine := Some (sp_val_engine p1),
      vn_sig := (vn_sig v)\<lparr>sv_verified := sv_verified (vn_sig v) + 1\<rparr>, vn_seq := sq, vn_zkp := zk\<rparr>"
  have val: "validate_packet C vi ?pkt v = accept_packet vi ?vp cr zr ?w"
    by (rule validator_accepts [OF e(1) dv reg sig node(2) ne(2) h hd m(1,2,3) org sq(1,2) zk])
  obtain v' where v': "accept_packet vi ?vp cr zr ?w = (Inr (Some (?vp, cr, zr)), v')" and w: "vn_seq v' = sq"
    "vn_engine v' = Some (sp_val_engine p1)" "sv_registry (vn_sig v') = sv_registry (vn_sig v)" "one_more (vn_stats v) (vn_stats v')"
    using accept_effect [of vi ?vp cr zr ?w] by (auto simp: one_more_def vupd_def)
  have "sim_ready C (joined (parts_of p1) (sp_val_engine p1) v')" using p1 w(3) by (simp add: sim_ready_def joined_def parts_of_def)
  then have "run_ready C (parts_of p1) v'" using sq(3) w(1,2) p1(2) chk by (simp add: run_ready_def parts_of_def checker_moved_def)
  moreover have "run_packet C i f p = Inr (?pkt, parts_of p1)" using run(1) by (simp only: parts_joined)
  moreover have "bld_sequence (rn_builder (parts_of p1)) = ?q" using p1(2) by (simp add: parts_of_def)
  ultimately show thesis using that [of ?pkt "parts_of p1" "(?vp, cr, zr)" v'] val v' w(4) by simp
qed

lemma run_setup_ready:
  assumes "sim_world C k" and "car_checker (vn_seq v)" and "car_last (vn_seq v) \<le> 0"
  obtains p v1 where "run_setup C k v = Inr (p, v1)" and "run_ready C p v1" and "bld_sequence (rn_builder p) = 0" and "vn_stats v1 = vn_stats v"
proof -
  have L: "dh_law C" "sig_law C" "exchanges C (sk_car k) (sk_relay k)" "exchanges C (sk_relay_val k) (sk_validator k)"
    using assms(1) by (simp_all add: sim_world_def sim_laws_def)
  obtain car rel k1 where h1: "cross_handshake C (sk_now k) CAR_NODE (sk_car k) RELAY_NODE (sk_relay k) = Inr (car, rel)"
    "engine_key car = Some k1" "engine_key rel = Some k1" "length k1 = 32" using L(1,3) by (rule cross_handshake_keys)
  obtain rv val k2 where h2: "cross_handshake C (sk_now k) ''relay_val'' (sk_relay_val k) (vn_node_id v) (sk_validator k) = Inr (rv, val)"
    "engine_key rv = Some k2" "engine_key val = Some k2" "length k2 = 32" using L(1,4) by (rule cross_handshake_keys)
  have bld: "\<exists>n. builder_init ''mercedes'' ''R'' None = Inr \<lparr>bld_team = ''mercedes'', bld_session = ''R'', bld_node_id = n,
      bld_sequence = 0, bld_packets_built = 0\<rparr>"
    by (simp add: builder_init_def lower_char_def upper_char_def TEAM_IDS_def SESSION_IDS_def dict_has_def Let_def)
  have pk: "length (signer_public C s) = 32" for s using L(2) by (simp add: signer_public_def sig_law_def)
  have "\<exists>p v1. run_setup C k v = Inr (p, v1) \<and> run_ready C p v1 \<and> bld_sequence (rn_builder p) = 0 \<and> vn_stats v1 = vn_stats v"
    using bld h1 h2 pk assms(2,3)
    by (auto simp: run_setup_def keep_def register_session_def register_validator_session_def sv_register_node_def
        session_established_key PUBLIC_KEY_SIZE_def Let_def run_ready_def joined_def sim_ready_def dec_key_def ren_key_def
        signer_init_def decryptor_init_def reencryptor_init_def)
  then show thesis using that by blast
qed

text \<open>The simulator has a frame for every packet that can be sent, and the other inputs are in order.\<close>

fun good_run :: "run_inputs list \<Rightarrow> simulator \<Rightarrow> bool" where
  "good_run [] s = True"
| "good_run ((si, pin, vi) # is) s =
     (case get_next_frame si s of (Inr f, s') \<Rightarrow> good_inputs pin (Some f) \<and> good_run is s' | (Inl e, s') \<Rightarrow> False)"

lemma loop_accepts:
  assumes "sim_laws C" and "run_ready C p v" and "good_run is s" and "bld_sequence (rn_builder p) + int (length is) < 2 ^ 64"
  shows "\<exists>rs s' p' v'. run_loop C is (s, p, v) = Inr (rs, s', p', v') \<and> length rs = length is \<and> None \<notin> set rs \<and>
    vs_received (vn_stats v') = vs_received (vn_stats v) + int (length is) \<and> vs_rejected (vn_stats v') = vs_rejected (vn_stats v) \<and>
    vs_accepted (vn_stats v') + vs_flagged (vn_stats v') = vs_accepted (vn_stats v) + vs_flagged (vn_stats v) + int (length is)"
  using assms(2-)
proof (induction "is" arbitrary: s p v)
  case (Cons i "is")
  obtain si pin vi where i: "i = (si, pin, vi)" by (cases i)
  obtain f s1 where f: "get_next_frame si s = (Inr f, s1)" "good_inputs pin (Some f)" "good_run is s1"
    using Cons.prems(2) by (auto simp: i split: prod.splits sum.splits)
  have q: "bld_sequence (rn_builder p) + 1 < 2 ^ 64" using Cons.prems(3) by simp
  obtain pkt p1 acc v1 where st: "run_packet C pin f p = Inr (pkt, p1)" "validate_packet C vi pkt v = (Inr (Some acc), v1)"
    and r: "run_ready C p1 v1" "bld_sequence (rn_builder p1) = bld_sequence (rn_builder p) + 1" "one_more (vn_stats v) (vn_stats v1)"
    by (rule packet_accepted [OF assms(1) Cons.prems(1) f(2) q])
  have "run_step C i (s, p, v) = Inr (Some acc, s1, p1, v1)" using f(1) st by (simp add: run_step_def i keep_def)
  with Cons.IH [OF r(1) f(3)] r(2,3) Cons.prems(3) show ?case by (auto simp: one_more_def)
qed simp

text \<open>C2. The validator's simulation mode runs to its end and accepts every packet: when the table has a
  frame for each of them that the codec can carry, and the validator has accepted nothing from the car
  before and does not check timestamps - the default and the shipped configuration -, none is rejected,
  and the counters grow by the number of packets.\<close>

theorem validator_run_accepts:
  assumes "sim_world C k" and "car_checker (vn_seq v)" and "car_last (vn_seq v) \<le> 0"
    and "run_simulator th t = Inr s" and "good_run is s" and "int (length is) < 2 ^ 64"
  shows "\<exists>st rs v'. run_simulation C k is th t v = Inr (st, rs, v') \<and> st = vn_stats v' \<and> length rs = length is \<and> None \<notin> set rs \<and>
    vs_received st = vs_received (vn_stats v) + int (length is) \<and> vs_rejected st = vs_rejected (vn_stats v) \<and>
    vs_accepted st + vs_flagged st = vs_accepted (vn_stats v) + vs_flagged (vn_stats v) + int (length is)"
proof -
  obtain p v1 where ready: "run_setup C k v = Inr (p, v1)" "run_ready C p v1" "bld_sequence (rn_builder p) = 0" "vn_stats v1 = vn_stats v"
    using assms(1-3) by (rule run_setup_ready)
  moreover have "sim_laws C" using assms(1) by (simp add: sim_world_def)
  ultimately show ?thesis using loop_accepts [of C p v1 "is" s] assms(4-6) by (fastforce simp: run_simulation_def)
qed

section \<open>A concrete run\<close>

text \<open>One row of a parked car, sent three times.\<close>

definition parked_row :: data_row where
  "parked_row = \<lparr>dr_race = ''Bahrain'', dr_session = ''R'', dr_driver = ''HAM'', dr_lap = FFin 1,
     dr_value = (\<lambda>c. if c = ''X'' \<or> c = ''Y'' then FFin 1 else FFin 0)\<rparr>"

definition parked_table :: table where
  "parked_table = \<lparr>tb_columns = [''Race'', ''Session'', ''Driver'', ''LapNumber''] @ SENSOR_CHANNELS, tb_rows = [parked_row]\<rparr>"

definition parked_inputs :: sensor_inputs where
  "parked_inputs = \<lparr>si_now = [], si_label = (\<lambda>x y. []), si_normal = (\<lambda>c std. FFin 0), si_random = FFin 1, si_channel = []\<rparr>"

definition parked_payload :: pydict where
  "parked_payload = [(''driver'', PStr ''HAM''), (''lap'', PInt 1), (''race'', PStr ''Bahrain''), (''frame_index'', PInt 1),
     (''Speed'', PFloat (FFin 0)), (''RPM'', PFloat (FFin 0)), (''Throttle'', PFloat (FFin 0)), (''Brake'', PInt 0),
     (''nGear'', PInt 0), (''DRS'', PInt 0)]"

lemma float_rt_zero: "float_rt (FFin 0)"
  by (auto simp: float_rt_def lit_start_def json_start_def is_ws_def jliteral_def jnumber_def is_digit_def frac_part_def
      exp_part_def number_end_def digits_value_def fl_zero split: list.splits)

lemma parked_text:
  "\<exists>p. json_dumps_compact (PDict parked_payload) = Inr p \<and> length p < 400 \<and> json_loads p = Inr (PDict parked_payload)"
proof -
  have "nat_str (Suc 0) = ''1''" by (simp add: nat_str.simps char_of_eq_iff)
  then have "\<exists>p. json_dumps_compact (PDict parked_payload) = Inr p \<and> length p < 400"
    by (simp add: json_dumps_compact_def parked_payload_def quote_def esc_ascii_def py_encode_def int_str_def nat_str.simps [of 0])
  moreover have "plain (PDict parked_payload)" by (simp add: parked_payload_def ascii_def float_rt_zero)
  ultimately show ?thesis using json_dumps_compact_loads by blast
qed

definition parked :: "bool \<Rightarrow> nat \<Rightarrow> simulator" where
  "parked noise k = \<lparr>sm_team = ''mercedes'', sm_session = ''R'', sm_race = ''Bahrain'', sm_noise = noise, sm_inject = False,
     sm_rate = FFin (1 / 1000), sm_thresholds = load_thresholds None, sm_data = parked_table, sm_idx = k\<rparr>"

lemma parked_loads: "run_simulator None parked_table = Inr (parked False 0)"
  by (simp add: run_simulator_def simulator_init_def validate_team_def validate_session_def select_race_def load_data_def
      driver_filter_def lap_filter_def parked_table_def parked_row_def clean_row_def SENSOR_CHANNELS_def VALID_TEAMS_def
      VALID_SESSIONS_def AVAILABLE_RACES_def lower_char_def upper_char_def parked_def Let_def)

lemma parked_frame:
  assumes "k \<le> 1"
  obtains f where "get_next_frame parked_inputs (parked noise k) = (Inr f, parked noise 1)" and "build_payload f = json_dumps_compact (PDict parked_payload)"
proof -
  have r: "py_round 4 (FFin 0) = FFin 0" by (simp add: fl_zero round_half_even_def)
  let ?f = "[(''team'', PStr ''mercedes''), (''race'', PStr ''Bahrain''), (''session'', PStr ''R''), (''lap'', PInt 1),
      (''driver'', PStr ''HAM''), (''timestamp'', PStr []), (''frame_index'', PInt 1),
      (''Speed'', PFloat (FFin 0)), (''RPM'', PFloat (FFin 0)), (''Throttle'', PFloat (FFin 0)), (''Brake'', PInt 0),
      (''nGear'', PInt 0), (''DRS'', PInt 0), (''X'', PFloat (py_round 2 (FFin 1))), (''Y'', PFloat (py_round 2 (FFin 1))),
      (''Distance'', PFloat (py_round 2 (FFin 0))), (''track_position'', PStr [])]"
  have "clean_frame parked_inputs ((parked noise k)\<lparr>sm_idx := 1\<rparr>) parked_row = Inr ?f"
    using r by (simp add: clean_frame_def frame_head_def cell_def trunc_int_def channel_value_def SENSOR_CHANNELS_def parked_def
        parked_table_def parked_row_def parked_inputs_def Let_def del: py_round.simps)
  moreover have "add_noise parked_inputs ?f = Inr ?f"
    using py_round_int [of 0 4] by (simp add: add_noise_def NOISE_CONFIG_def parked_inputs_def fadd_def fl_zero dict_has_def dict_get_def del: py_round.simps)
  ultimately have "get_next_frame parked_inputs (parked noise k) = (Inr ?f, parked noise 1)"
    using assms by (cases k) (simp_all add: get_next_frame_def sm_total_def make_frame_def parked_def parked_table_def Let_def
        del: py_round.simps)
  moreover have "build_payload ?f = json_dumps_compact (PDict parked_payload)"
    by (simp add: build_payload_def parked_payload_def dict_get_or_def del: py_round.simps)
  ultimately show thesis by (rule that)
qed

definition parked_run :: "run_inputs list" where
  "parked_run = replicate 3 (parked_inputs, sample_packet_inputs, sample_vin)"

lemma parked_good: "k \<le> 1 \<Longrightarrow> good_run (replicate n (parked_inputs, sample_packet_inputs, i)) (parked noise k)"
proof (induction n arbitrary: k)
  case (Suc n)
  obtain f where f: "get_next_frame parked_inputs (parked noise k) = (Inr f, parked noise 1)" "build_payload f = json_dumps_compact (PDict parked_payload)"
    using Suc.prems by (rule parked_frame)
  have "clock_ms 1000 = 1000000" by (rule clock_ms_int) simp_all
  then have "good_inputs sample_packet_inputs (Some f)" using parked_text f(2) by (auto simp: good_inputs_def sample_packet_inputs_def)
  with f(1) Suc.IH [of 1] show ?case by simp
qed simp

theorem validator_run_accepts_witness:
  "\<exists>st rs v'. run_simulation demo_pyca sample_keys parked_run None parked_table (validator_init default_validator_config) = Inr (st, rs, v') \<and>
    length rs = 3 \<and> None \<notin> set rs \<and> vs_received st = 3 \<and> vs_rejected st = 0 \<and> vs_accepted st + vs_flagged st = 3"
proof -
  let ?v = "validator_init default_validator_config"
  have v: "vn_seq ?v = seqcheck_init ''fia_validator'' 60000 1000 False True" by (simp add: validator_init_def default_validator_config_def)
  have "car_checker (vn_seq ?v)" unfolding car_checker_def v using sc_int_inv_init by (simp add: seqcheck_init_def)
  moreover have "car_last (vn_seq ?v) \<le> 0" unfolding v by (simp add: seqcheck_init_def sc_last_int_def sc_last_def)
  ultimately have chk: "car_checker (vn_seq ?v)" "car_last (vn_seq ?v) \<le> 0" .
  have "good_run parked_run (parked False 0)" unfolding parked_run_def by (rule parked_good) simp
  from validator_run_accepts [OF sample_world chk parked_loads this] show ?thesis
    by (simp add: parked_run_def validator_init_def validator_stats_init_def) metis
qed

end
