(* ===== verification/RelayRun.thy ===== *)
theory RelayRun
  imports ValidatorRun
begin

text \<open>
  \<open>run_simulation\<close> of \<open>relay-node/src/main.py\<close>: a car, driven by the sensor simulator with noise, hands the
  text of its packets to the relay's own pipeline, under sessions the relay makes for itself. The theorem
  says that the relay decrypts every packet of such a run and drops none but those its filter rejects.
\<close>

section \<open>The filter returns\<close>

text \<open>Numbers that subtraction accepts beside a float, and thresholds whose bounds are numbers.\<close>

definition floatable :: "pyval \<Rightarrow> bool" where
  "floatable v = (case int_of v of Some n \<Rightarrow> \<not> is_err (float_of_int n) | None \<Rightarrow> (case v of PFloat x \<Rightarrow> True | _ \<Rightarrow> False))"

definition floatable_channels :: "pydict \<Rightarrow> bool" where
  "floatable_channels d = (\<forall>ch\<in>set CHANNELS. dict_has d ch \<longrightarrow> floatable (dict_get d ch))"

definition bound_ok :: "pyval \<Rightarrow> bool" where
  "bound_ok v = (v = PNone \<or> num_of v \<noteq> None)"

definition limits_ok :: "pyval \<Rightarrow> bool" where
  "limits_ok t =
     (case t of PDict d \<Rightarrow> (\<forall>ch\<in>set CHANNELS. dict_has d ch \<longrightarrow>
          (case dict_get d ch of PDict c \<Rightarrow> bound_ok (dict_get c ''lower'') \<and> bound_ok (dict_get c ''upper'') | _ \<Rightarrow> False))
      | _ \<Rightarrow> False)"

definition filter_ok :: "string \<Rightarrow> anomaly_filter \<Rightarrow> bool" where
  "filter_ok team f =
     ((case get_thresholds f (PStr team) of Inr t \<Rightarrow> limits_ok t | Inl e \<Rightarrow> False) \<and>
      (\<forall>n d. af_last_values f n = Some d \<longrightarrow> floatable_channels d))"

lemma floatable_num: "floatable v \<Longrightarrow> \<exists>x. num_of v = Some x"
  by (cases v) (auto simp: floatable_def split: if_splits)

lemma cmp_returns: "num_of a \<noteq> None \<Longrightarrow> num_of b \<noteq> None \<Longrightarrow> \<exists>r. py_lt a b = Inr r" "num_of a \<noteq> None \<Longrightarrow> num_of b \<noteq> None \<Longrightarrow> \<exists>r. py_gt a b = Inr r"
  by (auto simp: py_lt_def py_gt_def py_cmp_def)

lemma sub_returns:
  assumes "floatable a" and "floatable b"
  obtains d r where "py_sub a b = Inr d" and "py_abs d = Inr r" and "num_of r \<noteq> None"
proof -
  have "\<exists>d. py_sub a b = Inr d \<and> (int_of d \<noteq> None \<or> (\<exists>x. d = PFloat x))"
    using assms by (auto simp: floatable_def py_sub_def is_err_def split: option.splits pyval.splits sum.splits)
  then obtain d where d: "py_sub a b = Inr d" "int_of d \<noteq> None \<or> (\<exists>x. d = PFloat x)" by blast
  then show thesis using that by (auto simp: py_abs_def)
qed

lemma channel_returns:
  assumes "floatable_channels d" and "ch \<in> set CHANNELS" and "limits_ok t" and "hashable node"
    and "\<forall>n d. af_last_values f n = Some d \<longrightarrow> floatable_channels d"
  shows "\<exists>r'. check_channel f (PDict d) node t ch r = Inr r'"
proof (cases "dict_has d ch")
  case True
  let ?v = "dict_get d ch"
  have v: "floatable ?v" using assms(1,2) True by (simp add: floatable_channels_def)
  obtain x where x: "num_of ?v = Some x" using floatable_num [OF v] by blast
  have p: "\<exists>pv. physical_check ch ?v = Inr pv"
    by (simp add: physical_check_def out_of_bounds_def py_lt_def py_gt_def py_cmp_def x split: option.split)
  obtain td where td: "t = PDict td" using assms(3) by (auto simp: limits_ok_def split: pyval.splits)
  have th: "\<exists>tv. threshold_check t ch ?v = Inr tv"
  proof (cases "dict_has td ch")
    case True
    then have "case dict_get td ch of PDict c \<Rightarrow> bound_ok (dict_get c ''lower'') \<and> bound_ok (dict_get c ''upper'') | _ \<Rightarrow> False"
      using assms(2,3) by (simp add: limits_ok_def td)
    then obtain c where c: "dict_get td ch = PDict c" "bound_ok (dict_get c ''lower'')" "bound_ok (dict_get c ''upper'')"
      by (cases "dict_get td ch") auto
    have "\<exists>b. below ?v (dict_get c ''lower'') = Inr b" "\<exists>b. above ?v (dict_get c ''upper'') = Inr b"
      using c(2,3) x cmp_returns [of ?v] by (auto simp: below_def above_def bound_ok_def)
    then show ?thesis using c(1) True by (auto simp: threshold_check_def td get_key_def dict_item_get)
  qed (simp add: threshold_check_def td)
  obtain prev where prev: "last_values f node = Inr prev" "floatable_channels prev"
    using assms(4,5) by (auto simp: last_values_def floatable_channels_def dict_has_def split: option.splits)
  have "\<exists>rv. roc_check prev ch ?v = Inr rv"
  proof (cases "dict_has prev ch")
    case True
    then have pv: "floatable (dict_get prev ch)" using prev(2) assms(2) by (simp add: floatable_channels_def)
    obtain s a where "py_sub ?v (dict_get prev ch) = Inr s" "py_abs s = Inr a" "num_of a \<noteq> None" by (rule sub_returns [OF v pv])
    then show ?thesis using True cmp_returns(2) [of a "PFloat (roc_limit ch)"] by (auto simp: roc_check_def)
  qed (simp add: roc_check_def)
  with p th prev(1) True show ?thesis by (auto simp: check_channel_def dict_item_get)
qed (simp add: check_channel_def)

lemma channels_return:
  assumes "floatable_channels d" and "set chs \<subseteq> set CHANNELS" and "limits_ok t" and "hashable node"
    and "\<forall>n d. af_last_values f n = Some d \<longrightarrow> floatable_channels d"
  shows "\<exists>r'. check_channels f (PDict d) node t chs r = Inr r'"
  using assms(2)
proof (induction chs arbitrary: r)
  case (Cons ch chs)
  obtain r1 where "check_channel f (PDict d) node t ch r = Inr r1"
    using channel_returns [OF assms(1) _ assms(3-5), of ch r] Cons.prems by auto
  with Cons show ?case by simp
qed simp

lemma remember_floatable:
  assumes "floatable_channels d" and "set chs \<subseteq> set CHANNELS" and "floatable_channels l"
  shows "\<exists>l'. remember_channels (PDict d) chs l = Inr l' \<and> floatable_channels l'"
  using assms(2,3)
proof (induction chs arbitrary: l)
  case (Cons ch chs)
  show ?case
  proof (cases "dict_has d ch")
    case True
    then have "floatable_channels (dict_set ch (dict_get d ch) l)"
      using Cons.prems assms(1) by (auto simp: floatable_channels_def dict_has_def dict_get_def)
    then show ?thesis using Cons.IH Cons.prems True by (simp add: dict_item_get)
  qed (use Cons in simp)
qed simp

lemma filter_returns:
  assumes "filter_ok team f" and "floatable_channels d"
  obtains r f' where "anomaly_check (filter_view (PDict d) team node) f = (Inr r, f')" and "filter_ok team f'"
proof -
  let ?pkt = "filter_view (PDict d) team node"
  have v: "an_payload ?pkt = PDict d" "an_node ?pkt = PStr node" "dict_get_or ?pkt ''team'' (PStr ''combined'') = PStr team"
    by (simp_all add: filter_view_def an_payload_def an_node_def dict_get_or_def)
  obtain t where t: "get_thresholds f (PStr team) = Inr t" "limits_ok t" and l: "\<forall>n d. af_last_values f n = Some d \<longrightarrow> floatable_channels d"
    using assms(1) by (auto simp: filter_ok_def split: sum.splits)
  obtain r where r: "check_channels f (PDict d) (PStr node) t CHANNELS new_anomaly = Inr r"
    using channels_return [OF assms(2) order_refl t(2) _ l, of "PStr node"] by auto
  obtain prev where prev: "last_values f (PStr node) = Inr prev" "floatable_channels prev"
    using l by (auto simp: last_values_def floatable_channels_def dict_has_def split: option.splits)
  obtain d' where d': "remember_channels (PDict d) CHANNELS prev = Inr d'" "floatable_channels d'"
    using remember_floatable [OF assms(2) order_refl prev(2)] by blast
  let ?f = "af_count r (f\<lparr>af_last_values := (af_last_values f)(norm_key (PStr node) \<mapsto> d')\<rparr>)"
  have "anomaly_check ?pkt f = (Inr r, ?f)" by (simp add: anomaly_check_def v t(1) r prev(1) d'(1))
  moreover have "af_thresholds ?f = af_thresholds f" by (simp add: af_count_def)
  then have "get_thresholds ?f (PStr team) = get_thresholds f (PStr team)" by (simp only: get_thresholds_def)
  then have "filter_ok team ?f" using t l d'(2) by (auto simp: filter_ok_def af_count_def)
  ultimately show thesis by (rule that)
qed

section \<open>An honest message at the relay\<close>

text \<open>The message is decrypted and passes the checks, and is forwarded unless the filter rejects it.\<close>

definition relay_took :: "bool \<Rightarrow> relay_stats \<Rightarrow> relay_stats \<Rightarrow> bool" where
  "relay_took rejected s s' =
     (rs_received s' = rs_received s + 1 \<and> rs_decrypted s' = rs_decrypted s + 1 \<and> rs_integrity_failed s' = rs_integrity_failed s \<and>
      rs_anomaly_rejected s' = rs_anomaly_rejected s + (if rejected then 1 else 0) \<and>
      rs_dropped s' = rs_dropped s + (if rejected then 1 else 0) \<and>
      rs_forwarded s' = rs_forwarded s + (if rejected then 0 else 1))"

lemma relay_takes_honest:
  assumes laws: "aead_law C" and inv: "ic_inv (rl_integrity r)"
    and raw: "read_json_packet raw = Inr (received_message n ct h sig q t team ses node)"
    and team: "team \<in> {''mercedes'', ''redbull''}" and ses: "ses \<in> {''R'', ''Q'', ''S''}" and node: "node \<noteq> []"
    and n: "length n = 12" and q: "0 < q" "last_int (rl_integrity r) (PStr node) < q"
    and fresh: "\<not> ts_too_old (rl_integrity r) now t" and sig: "sig \<noteq> []"
    and k: "dec_key (rl_decryptor r) node = Some k" "aead_encrypt C k n p (Some h) = Inr ct"
    and js: "json_loads p = Inr (PDict js)" and an: "filter_ok team (rl_anomaly r)" "floatable_channels js"
    and kv: "ren_key (rl_reencryptor r) = Some kv" "aead_encrypt C kv nonce p (Some h) = Inr cv"
  obtains out r' where "process_packet C now nonce raw r = (Inr out, r')"
    and "relay_took (out = None) (rl_stats r) (rl_stats r')"
    and "ic_inv (rl_integrity r')" "ic_config (rl_integrity r') = ic_config (rl_integrity r)" "last_int (rl_integrity r') (PStr node) = q"
    and "filter_ok team (rl_anomaly r')" and "dec_key (rl_decryptor r') node = Some k" "ren_key (rl_reencryptor r') = Some kv"
proof -
  let ?m = "received_message n ct h sig q t team ses node"
  obtain d i where run: "process_packet C now nonce raw r = anomaly_stage C nonce (opened_fields (rl_decryptor r) ?m p (PDict js))
        (upd integrity_ok ((upd decrypted_ok ((upd parsed_ok ((upd received r)
           \<lparr>rl_parser := snd (parse_json_packet (rl_parser r) raw)\<rparr>))\<lparr>rl_decryptor := d\<rparr>))\<lparr>rl_integrity := i\<rparr>))"
    and d: "dec_key d node = Some k" and i: "ic_inv i" "ic_config i = ic_config (rl_integrity r)" "last_int i (PStr node) = q"
    by (rule relay_reaches_filter [OF laws inv raw team ses node n q fresh sig k js])
  obtain res f where f: "anomaly_check (filter_view (PDict js) team node) (rl_anomaly r) = (Inr res, f)" "filter_ok team f"
    by (rule filter_returns [OF an])
  obtain a y where a: "anomaly_annotate (opened_fields (rl_decryptor r) ?m p (PDict js)) (rl_anomaly r) = (Inr (a, res), f)"
      "reencrypt C nonce a (rl_reencryptor r) = (Inr (reencrypted_fields (rl_reencryptor r) a nonce cv p (PBytes sig) (PStr (to_hex sig))), y)"
    by (rule annotated_reencrypts [OF f(1) kv])
  note eqs = run anomaly_stage_def a reencrypt_stage_def upd_def Let_def relay_stat_defs drop_packet_def relay_took_def
  show thesis
  proof (cases "is_rejected res")
    case True
    then have "\<exists>r'. process_packet C now nonce raw r = (Inr None, r') \<and> relay_took True (rl_stats r) (rl_stats r') \<and> rl_integrity r' = i \<and>
        rl_anomaly r' = f \<and> rl_decryptor r' = d \<and> rl_reencryptor r' = rl_reencryptor r"
      by (simp add: eqs)
    then show thesis using that [of None] i f(2) d kv(1) by auto
  next
    case False
    then have "\<exists>o' r'. process_packet C now nonce raw r = (Inr (Some o'), r') \<and> relay_took False (rl_stats r) (rl_stats r') \<and> rl_integrity r' = i \<and>
        rl_anomaly r' = f \<and> rl_decryptor r' = d \<and> rl_reencryptor r' = y"
      by (simp add: eqs)
    then show thesis using that i f(2) d kv(1) reencrypt_keys [OF a(2)] by fastforce
  qed
qed

section \<open>The run\<close>

definition CAR_SIM :: string where "CAR_SIM = ''mercedes_car_sim''"

text \<open>\<open>_simulate_sessions\<close>: the engines kept for the car and for the validator, and the relay with the two others registered.\<close>

definition relay_simulate_sessions :: "pyca \<Rightarrow> sim_keys \<Rightarrow> relay \<Rightarrow> (engine \<times> engine \<times> relay) res" where
  "relay_simulate_sessions C k r =
     rbind (cross_handshake C (sk_now k) CAR_SIM (sk_car k) (rl_node_id r @ ''_car'') (sk_relay k)) (\<lambda>(car, rel).
     rbind (keep (register_session CAR_SIM rel (rl_decryptor r))) (\<lambda>(_, dec).
     rbind (cross_handshake C (sk_now k) ''validator_sim'' (sk_validator k) (rl_node_id r @ ''_val'') (sk_relay_val k)) (\<lambda>(val, rv).
     rbind (keep (register_validator_session rv (rl_reencryptor r))) (\<lambda>(_, ren).
       Inr (car, val, r\<lparr>rl_decryptor := dec, rl_reencryptor := ren\<rparr>)))))"

record relay_parts =
  rr_builder :: builder
  rr_signer :: signer
  rr_engine :: engine
  rr_encryptor :: encryptor

definition relay_simulator :: "bytes option \<Rightarrow> table \<Rightarrow> simulator res" where
  "relay_simulator th t = simulator_init ''mercedes'' (Some ''Bahrain'') ''R'' None None True False (FFin (1 / 1000)) [] th t"

definition relay_run_setup :: "pyca \<Rightarrow> sim_keys \<Rightarrow> bytes option \<Rightarrow> table \<Rightarrow> relay \<Rightarrow> (simulator \<times> relay_parts \<times> relay) res" where
  "relay_run_setup C k th t r =
     rbind (relay_simulate_sessions C k r) (\<lambda>(car, val, r1).
     rbind (relay_simulator th t) (\<lambda>s.
     rbind (builder_init ''mercedes'' ''R'' None) (\<lambda>bld.
       Inr (s, \<lparr>rr_builder = bld, rr_signer = signer_init CAR_SIM (sk_signer k) (sk_now k), rr_engine = car,
                rr_encryptor = encryptor_init CAR_SIM\<rparr>, r1))))"

definition RELAY_FIELDS :: "string list" where
  "RELAY_FIELDS = [''nonce'', ''ciphertext'', ''header_hex'', ''signature'', ''sequence_no'', ''timestamp'', ''team'', ''session'', ''node_id'']"

text \<open>From a frame to the text that the network would carry.\<close>

definition relay_run_packet :: "pyca \<Rightarrow> packet_inputs \<Rightarrow> pydict \<Rightarrow> relay_parts \<Rightarrow> (bytes \<times> relay_parts) res" where
  "relay_run_packet C i f p =
     rbind (keep (build (rr_builder p) (pi_now i) f)) (\<lambda>(pkt, bld).
     rbind (keep (sign_packet C (pi_signed_at i) pkt (rr_signer p))) (\<lambda>(sgnd, sgn).
     rbind (keep (encrypt_packet C (pi_nonce i) (pi_encrypted_at i) sgnd (rr_engine p) (rr_encryptor p))) (\<lambda>(enc, car, x).
     rbind (take_fields RELAY_FIELDS enc) (\<lambda>d. rbind (json_dumps (PDict d)) (\<lambda>raw.
       Inr (raw, \<lparr>rr_builder = bld, rr_signer = sgn, rr_engine = car, rr_encryptor = x\<rparr>))))))"

type_synonym relay_inputs = "sensor_inputs \<times> packet_inputs \<times> clock"
type_synonym relay_state = "simulator \<times> relay_parts \<times> relay"

definition relay_run_step :: "pyca \<Rightarrow> relay_inputs \<Rightarrow> relay_state \<Rightarrow> (pydict option \<times> relay_state) res" where
  "relay_run_step C i st =
     (case (i, st) of ((si, pin, now), (s, p, r)) \<Rightarrow>
        rbind (keep (get_next_frame si s)) (\<lambda>(f, s').
        rbind (relay_run_packet C pin f p) (\<lambda>(raw, p').
        rbind (keep (process_packet C now (pi_renonce pin) raw r)) (\<lambda>(out, r'). Inr (out, s', p', r')))))"

fun relay_run_loop :: "pyca \<Rightarrow> relay_inputs list \<Rightarrow> relay_state \<Rightarrow> (pydict option list \<times> relay_state) res" where
  "relay_run_loop C [] st = Inr ([], st)"
| "relay_run_loop C (i # is) st =
     rbind (relay_run_step C i st) (\<lambda>(o1, st'). rbind (relay_run_loop C is st') (\<lambda>(os, st''). Inr (o1 # os, st'')))"

text \<open>The statistics of the relay, with what each packet became and the relay itself.\<close>

definition relay_run_simulation ::
  "pyca \<Rightarrow> sim_keys \<Rightarrow> relay_inputs list \<Rightarrow> bytes option \<Rightarrow> table \<Rightarrow> relay \<Rightarrow> (relay_stats \<times> pydict option list \<times> relay) res" where
  "relay_run_simulation C k is th t r =
     rbind (relay_run_setup C k th t r) (\<lambda>st. rbind (relay_run_loop C is st) (\<lambda>(os, s', p', r'). Inr (rl_stats r', os, r')))"

section \<open>A run in order\<close>

definition relay_run_ready :: "pyca \<Rightarrow> int \<times> bool \<times> bool \<Rightarrow> int \<Rightarrow> relay_parts \<Rightarrow> relay \<Rightarrow> bool" where
  "relay_run_ready C cfg q p r =
     (bld_team (rr_builder p) = ''mercedes'' \<and> bld_session (rr_builder p) = ''R'' \<and> bld_sequence (rr_builder p) = q \<and> 0 \<le> q \<and>
      sgn_node_id (rr_signer p) = CAR_SIM \<and>
      (\<exists>k. engine_key (rr_engine p) = Some k \<and> length k = 32 \<and> dec_key (rl_decryptor r) CAR_SIM = Some k) \<and>
      (\<exists>k. ren_key (rl_reencryptor r) = Some k \<and> length k = 32) \<and>
      ic_inv (rl_integrity r) \<and> ic_config (rl_integrity r) = cfg \<and> last_int (rl_integrity r) (PStr CAR_SIM) \<le> q \<and>
      filter_ok ''mercedes'' (rl_anomaly r))"

text \<open>A packet's time is not too old for the relay's options when it arrives.\<close>

definition arrives_fresh :: "int \<times> bool \<times> bool \<Rightarrow> clock \<Rightarrow> clock \<Rightarrow> bool" where
  "arrives_fresh cfg made now = (case cfg of (age, check_ts, sigs) \<Rightarrow> \<not> (check_ts \<and> 0 < clock_ms made \<and> age < clock_ms now - clock_ms made))"

definition frame_floatable :: "pydict \<Rightarrow> bool" where
  "frame_floatable f =
     (case build_payload f of Inr p \<Rightarrow> (case json_loads p of Inr (PDict d) \<Rightarrow> floatable_channels d | _ \<Rightarrow> False) | Inl e \<Rightarrow> False)"

lemma sent_message_dumps:
  assumes "0 \<le> q" "q < 2 ^ 64" "0 \<le> t" "t < 2 ^ 64" and "ascii team" "ascii ses" "ascii node"
  obtains raw where "json_dumps (PDict (sent_message n c h s q t team ses node)) = Inr raw"
    and "read_json_packet raw = Inr (received_message n c h s q t team ses node)"
proof -
  have "\<exists>raw. json_dumps (PDict (sent_message n c h s q t team ses node)) = Inr raw"
    using word64_prints [OF assms(1,2)] word64_prints [OF assms(3,4)]
    by (simp add: json_dumps_def sent_message_def)
  then obtain raw where raw: "json_dumps (PDict (sent_message n c h s q t team ses node)) = Inr raw" by blast
  moreover have "read_json_packet raw = Inr (received_message n c h s q t team ses node)"
    by (rule read_sent_message) (rule json_dumps_loads [OF raw sent_message_plain [OF assms(5-7)]])
  ultimately show thesis by (rule that)
qed

lemma relay_packet_taken:
  assumes laws: "sim_laws C" and ready: "relay_run_ready C cfg q p r" and good: "good_inputs i (Some f)" "frame_floatable f"
    and fresh: "arrives_fresh cfg (pi_now i) now" and q: "q + 1 < 2 ^ 64"
  obtains raw p' out r' where "relay_run_packet C i f p = Inr (raw, p')"
    and "process_packet C now (pi_renonce i) raw r = (Inr out, r')"
    and "relay_took (out = None) (rl_stats r) (rl_stats r')" and "relay_run_ready C cfg (q + 1) p' r'"
proof -
  have L: "aead_law C" "aead_total C" "sig_law C" using laws by (simp_all add: sim_laws_def)
  obtain pl js where pl: "build_payload f = Inr pl" "length pl < 2 ^ 31" "json_loads pl = Inr (PDict js)" "floatable_channels js"
    using good by (auto simp: good_inputs_def frame_floatable_def is_err_def split: sum.splits pyval.splits)
  have b: "bld_team (rr_builder p) = ''mercedes''" "bld_session (rr_builder p) = ''R''" "bld_sequence (rr_builder p) = q" "0 \<le> q"
    "sgn_node_id (rr_signer p) = CAR_SIM" using ready by (simp_all add: relay_run_ready_def)
  have t: "0 \<le> clock_ms (pi_now i)" "clock_ms (pi_now i) < 2 ^ 64" using good(1) by (simp_all add: good_inputs_def)
  obtain h bld where h: "struct_pack (car_header (rr_builder p) (pi_now i) pl) = Inr h"
    and bld: "build (rr_builder p) (pi_now i) f = (Inr (built_packet (rr_builder p) (q + 1) (clock_ms (pi_now i)) pl h), bld)"
    and bld': "bld_team bld = ''mercedes''" "bld_session bld = ''R''" "bld_sequence bld = q + 1"
    using build_succeeds [OF b(1,2) _ _ t pl(1,2)] b(3,4) q by auto
  let ?pkt = "built_packet (rr_builder p) (q + 1) (clock_ms (pi_now i)) pl h" and ?sig = "ed_sign C (sgn_private (rr_signer p)) (h @ pl)"
  let ?sg = "signed_fields (rr_signer p) (pi_signed_at i) ?sig ?pkt"
  have sg: "sign_packet C (pi_signed_at i) ?pkt (rr_signer p) = (Inr ?sg, (rr_signer p)\<lparr>sgn_count := sgn_count (rr_signer p) + 1\<rparr>)"
    by (simp add: sign_packet_def signed_data_def built_packet_def dict_has_def dict_get_def)
  have sgm: "map_of ?sg ''header'' = Some (PBytes h)" "map_of ?sg ''payload'' = Some (PBytes pl)"
    by (simp_all add: signed_fields_def built_packet_def)
  obtain k kv where k: "engine_key (rr_engine p) = Some k" "length k = 32" "dec_key (rl_decryptor r) CAR_SIM = Some k"
    and kv: "ren_key (rl_reencryptor r) = Some kv" "length kv = 32" using ready by (auto simp: relay_run_ready_def)
  obtain ct cv where ct: "aead_encrypt C k (pi_nonce i) pl (Some h) = Inr ct" and cv: "aead_encrypt C kv (pi_renonce i) pl (Some h) = Inr cv"
    using L(2) k(2) kv(2) good(1) pl(2) unfolding aead_total_def good_inputs_def by blast
  let ?m = "sent_message (pi_nonce i) ct h ?sig (q + 1) (clock_ms (pi_now i)) ''mercedes'' ''R'' CAR_SIM"
  have node: "ascii CAR_SIM" "CAR_SIM \<noteq> []" by (simp_all add: CAR_SIM_def ascii_def)
  obtain raw where raw: "json_dumps (PDict ?m) = Inr raw"
    "read_json_packet raw = Inr (received_message (pi_nonce i) ct h ?sig (q + 1) (clock_ms (pi_now i)) ''mercedes'' ''R'' CAR_SIM)"
    by (rule sent_message_dumps [of "q + 1" "clock_ms (pi_now i)" "''mercedes''" "''R''" CAR_SIM])
      (use b(4) q t node in \<open>simp_all add: ascii_def\<close>)
  let ?x = "(rr_encryptor p)\<lparr>enc_encrypted := enc_encrypted (rr_encryptor p) + 1\<rparr>"
    and ?e = "(rr_engine p)\<lparr>eng_encrypted := eng_encrypted (rr_engine p) + 1\<rparr>"
  let ?p = "\<lparr>rr_builder = bld, rr_signer = (rr_signer p)\<lparr>sgn_count := sgn_count (rr_signer p) + 1\<rparr>, rr_engine = ?e, rr_encryptor = ?x\<rparr>"
  have "take_fields RELAY_FIELDS (encrypted_fields (rr_encryptor p) (pi_encrypted_at i) ?sg (pi_nonce i) ct h pl) = Inr ?m"
    by (simp add: RELAY_FIELDS_def encrypted_fields_def sent_message_def dict_item_def dict_get_or_def signed_fields_def built_packet_def b)
  then have pk: "relay_run_packet C i f p = Inr (raw, ?p)"
    by (simp add: relay_run_packet_def keep_def bld sg encrypt_packet_ok [OF k(1) ct sgm] raw(1))
  have "length ?sig = 64" using L(3) by (simp add: sig_law_def)
  then have sig: "?sig \<noteq> []" by auto
  have old: "\<not> ts_too_old (rl_integrity r) now (clock_ms (pi_now i))" and inv: "ic_inv (rl_integrity r)"
    and last: "last_int (rl_integrity r) (PStr CAR_SIM) < q + 1" and an: "filter_ok ''mercedes'' (rl_anomaly r)"
    using ready fresh by (auto simp: relay_run_ready_def arrives_fresh_def ts_too_old_def ic_config_def split: prod.splits)
  have n: "length (pi_nonce i) = 12" using good(1) by (simp add: good_inputs_def)
  obtain out r' where r: "process_packet C now (pi_renonce i) raw r = (Inr out, r')"
    "relay_took (out = None) (rl_stats r) (rl_stats r')"
    "ic_inv (rl_integrity r')" "ic_config (rl_integrity r') = ic_config (rl_integrity r)" "last_int (rl_integrity r') (PStr CAR_SIM) = q + 1"
    "filter_ok ''mercedes'' (rl_anomaly r')" "dec_key (rl_decryptor r') CAR_SIM = Some k" "ren_key (rl_reencryptor r') = Some kv"
    by (rule relay_takes_honest [OF L(1) inv raw(2) _ _ node(2) n _ last old sig k(3) ct pl(3) an pl(4) kv(1) cv])
      (use b(4) in simp_all)
  have "engine_key ?e = Some k" using k(1) by (simp add: engine_key_def)
  then have "relay_run_ready C cfg (q + 1) ?p r'"
    using ready b bld' k(2) kv(2) r(3-8) by (simp add: relay_run_ready_def)
  with pk r(1,2) show thesis by (rule that)
qed

lemma relay_setup_ready:
  assumes "sim_world C k" and "ic_inv (rl_integrity r)" and "last_int (rl_integrity r) (PStr CAR_SIM) \<le> 0"
    and "filter_ok ''mercedes'' (rl_anomaly r)" and "relay_simulator th t = Inr s"
  obtains p r1 where "relay_run_setup C k th t r = Inr (s, p, r1)" and "relay_run_ready C (ic_config (rl_integrity r)) 0 p r1"
    and "rl_stats r1 = rl_stats r"
proof -
  have L: "dh_law C" "exchanges C (sk_car k) (sk_relay k)" "exchanges C (sk_relay_val k) (sk_validator k)"
    using assms(1) by (simp_all add: sim_world_def)
  obtain car rel k1 where h1: "cross_handshake C (sk_now k) CAR_SIM (sk_car k) (rl_node_id r @ ''_car'') (sk_relay k) = Inr (car, rel)"
    "engine_key car = Some k1" "engine_key rel = Some k1" "length k1 = 32" using L(1,2) by (rule cross_handshake_keys)
  have ex: "exchanges C (sk_validator k) (sk_relay_val k)" using L(1,3) by (auto simp: exchanges_def dh_law_def)
  obtain val rv k2 where h2: "cross_handshake C (sk_now k) ''validator_sim'' (sk_validator k) (rl_node_id r @ ''_val'') (sk_relay_val k) = Inr (val, rv)"
    "engine_key val = Some k2" "engine_key rv = Some k2" "length k2 = 32" using L(1) ex by (rule cross_handshake_keys)
  have bld: "\<exists>n. builder_init ''mercedes'' ''R'' None = Inr \<lparr>bld_team = ''mercedes'', bld_session = ''R'', bld_node_id = n,
      bld_sequence = 0, bld_packets_built = 0\<rparr>"
    by (simp add: builder_init_def lower_char_def upper_char_def TEAM_IDS_def SESSION_IDS_def dict_has_def Let_def)
  have "\<exists>p r1. relay_run_setup C k th t r = Inr (s, p, r1) \<and> relay_run_ready C (ic_config (rl_integrity r)) 0 p r1 \<and> rl_stats r1 = rl_stats r"
    using bld h1 h2 assms(2-5)
    by (auto simp: relay_run_setup_def relay_simulate_sessions_def keep_def register_session_def register_validator_session_def
        session_established_key relay_run_ready_def dec_key_def ren_key_def signer_init_def)
  then show thesis using that by blast
qed

text \<open>The simulator has a frame for every packet, with channels that are numbers, and the packet arrives in time.\<close>

fun good_relay_run :: "int \<times> bool \<times> bool \<Rightarrow> relay_inputs list \<Rightarrow> simulator \<Rightarrow> bool" where
  "good_relay_run cfg [] s = True"
| "good_relay_run cfg ((si, pin, now) # is) s =
     (case get_next_frame si s of
        (Inr f, s') \<Rightarrow> good_inputs pin (Some f) \<and> frame_floatable f \<and> arrives_fresh cfg (pi_now pin) now \<and> good_relay_run cfg is s'
      | (Inl e, s') \<Rightarrow> False)"

definition run_accounted :: "pydict option list \<Rightarrow> relay_stats \<Rightarrow> relay_stats \<Rightarrow> bool" where
  "run_accounted os s s' =
     (let n = int (length os); lost = int (count_list os None)
      in rs_received s' = rs_received s + n \<and> rs_decrypted s' = rs_decrypted s + n \<and> rs_integrity_failed s' = rs_integrity_failed s \<and>
         rs_anomaly_rejected s' = rs_anomaly_rejected s + lost \<and> rs_dropped s' = rs_dropped s + lost \<and>
         rs_forwarded s' = rs_forwarded s + (n - lost))"

lemma relay_loop_accounts:
  assumes "sim_laws C" and "relay_run_ready C cfg q p r" and "good_relay_run cfg is s" and "q + int (length is) < 2 ^ 64"
  shows "\<exists>os s' p' r'. relay_run_loop C is (s, p, r) = Inr (os, s', p', r') \<and> length os = length is \<and> run_accounted os (rl_stats r) (rl_stats r')"
  using assms(2-)
proof (induction "is" arbitrary: s p r q)
  case (Cons i "is")
  obtain si pin now where i: "i = (si, pin, now)" by (cases i)
  obtain f s1 where f: "get_next_frame si s = (Inr f, s1)" "good_inputs pin (Some f)" "frame_floatable f"
    "arrives_fresh cfg (pi_now pin) now" "good_relay_run cfg is s1"
    using Cons.prems(2) by (auto simp: i split: prod.splits sum.splits)
  have q: "q + 1 < 2 ^ 64" using Cons.prems(3) by simp
  obtain raw p1 out r1 where st: "relay_run_packet C pin f p = Inr (raw, p1)" "process_packet C now (pi_renonce pin) raw r = (Inr out, r1)"
    "relay_took (out = None) (rl_stats r) (rl_stats r1)" "relay_run_ready C cfg (q + 1) p1 r1"
    by (rule relay_packet_taken [OF assms(1) Cons.prems(1) f(2-4) q])
  have step: "relay_run_step C i (s, p, r) = Inr (out, s1, p1, r1)" using f(1) st(1,2) by (simp add: relay_run_step_def i keep_def)
  have "q + 1 + int (length is) < 2 ^ 64" using Cons.prems(3) by simp
  then obtain os s' p' r' where rest: "relay_run_loop C is (s1, p1, r1) = Inr (os, s', p', r')" "length os = length is"
      "run_accounted os (rl_stats r1) (rl_stats r')"
    using Cons.IH [OF st(4) f(5)] by blast
  have "run_accounted (out # os) (rl_stats r) (rl_stats r')"
    using rest(3) st(3) by (auto simp: run_accounted_def relay_took_def Let_def)
  with step rest show ?case by simp
qed (simp add: run_accounted_def)

text \<open>C3. The relay's simulation mode runs to its end when it is run once: it receives and decrypts all packets, none
  fails the integrity check, and each is either forwarded or dropped because the anomaly filter rejects it.
  This takes a relay that has accepted no packet of the simulated car before - a run numbers its packets from
  one, so a second run on the same relay would be refused as replay -, a filter whose thresholds for the team
  are numbers or absent and whose remembered values are numbers, a table with a frame for each packet that the
  codec can carry and that has numbers in its channels, packets that are not late, fewer of them than the
  64-bit sequence numbers, and key exchanges that succeed.\<close>

theorem relay_run_accounts:
  assumes "sim_world C k" and "ic_inv (rl_integrity r)" and "last_int (rl_integrity r) (PStr CAR_SIM) \<le> 0"
    and "filter_ok ''mercedes'' (rl_anomaly r)" and "relay_simulator th t = Inr s"
    and "good_relay_run (ic_config (rl_integrity r)) is s" and "int (length is) < 2 ^ 64"
  shows "\<exists>st os r'. relay_run_simulation C k is th t r = Inr (st, os, r') \<and> length os = length is \<and>
    rs_received st = rs_received (rl_stats r) + int (length is) \<and> rs_decrypted st = rs_decrypted (rl_stats r) + int (length is) \<and>
    rs_integrity_failed st = rs_integrity_failed (rl_stats r) \<and>
    rs_dropped st - rs_dropped (rl_stats r) = int (count_list os None) \<and>
    rs_anomaly_rejected st - rs_anomaly_rejected (rl_stats r) = int (count_list os None) \<and>
    rs_forwarded st + rs_dropped st = rs_forwarded (rl_stats r) + rs_dropped (rl_stats r) + int (length is)"
proof -
  obtain p r1 where p: "relay_run_setup C k th t r = Inr (s, p, r1)" "relay_run_ready C (ic_config (rl_integrity r)) 0 p r1" "rl_stats r1 = rl_stats r"
    using assms(1-5) by (rule relay_setup_ready)
  have "sim_laws C" using assms(1) by (simp add: sim_world_def)
  then obtain os s' p' r' where run: "relay_run_loop C is (s, p, r1) = Inr (os, s', p', r')" "length os = length is"
      "run_accounted os (rl_stats r1) (rl_stats r')"
    using relay_loop_accounts [OF _ p(2) assms(6)] assms(7) by auto
  then show ?thesis using p by (simp add: relay_run_simulation_def run_accounted_def Let_def)
qed

section \<open>A concrete run\<close>

definition parked_relay_run :: "relay_inputs list" where
  "parked_relay_run = replicate 3 (parked_inputs, sample_packet_inputs, 1000)"

definition relay_start :: relay where
  "relay_start = (case relay_init default_relay_config None of Inr r \<Rightarrow> r)"

lemma relay_start_ready:
  "ic_inv (rl_integrity relay_start)" "last_int (rl_integrity relay_start) (PStr CAR_SIM) \<le> 0"
  "filter_ok ''mercedes'' (rl_anomaly relay_start)" "ic_config (rl_integrity relay_start) = (30000, True, True)"
  "rl_stats relay_start = relay_stats_init"
proof -
  have i: "rl_integrity relay_start = integrity_init ''relay_01'' 30000 100 True True"
    by (simp add: relay_start_def relay_init_def anomaly_init_def load_thresholds_def default_relay_config_def)
  show "ic_inv (rl_integrity relay_start)" unfolding i by (rule ic_inv_init)
  show "last_int (rl_integrity relay_start) (PStr CAR_SIM) \<le> 0" "ic_config (rl_integrity relay_start) = (30000, True, True)"
    unfolding i by (simp_all add: integrity_init_def last_int_def ic_last_def ic_config_def)
  show "filter_ok ''mercedes'' (rl_anomaly relay_start)" "rl_stats relay_start = relay_stats_init"
    by (simp_all add: relay_start_def relay_init_def anomaly_init_def load_thresholds_def default_relay_config_def filter_ok_def
        get_thresholds_def get_key_def dict_get_def py_or_def limits_ok_def dict_has_def)
qed

lemma parked_relay_good: "k \<le> 1 \<Longrightarrow> good_relay_run (30000, True, True) (replicate n (parked_inputs, sample_packet_inputs, 1000)) (parked True k)"
proof (induction n arbitrary: k)
  case (Suc n)
  obtain f where f: "get_next_frame parked_inputs (parked True k) = (Inr f, parked True 1)" "build_payload f = json_dumps_compact (PDict parked_payload)"
    using Suc.prems by (rule parked_frame)
  have "clock_ms 1000 = 1000000" by (rule clock_ms_int) simp_all
  then have "good_inputs sample_packet_inputs (Some f)" using parked_text f(2) by (auto simp: good_inputs_def sample_packet_inputs_def)
  moreover have "floatable_channels parked_payload"
    by (simp add: floatable_channels_def parked_payload_def CHANNELS_def floatable_def float_of_int_def fl_zero dict_get_def)
  then have "frame_floatable f" using parked_text f(2) by (auto simp: frame_floatable_def)
  moreover have "arrives_fresh (30000, True, True) (pi_now sample_packet_inputs) 1000"
    by (simp add: arrives_fresh_def sample_packet_inputs_def)
  ultimately show ?case using f(1) Suc.IH [of 1] by simp
qed simp

lemma parked_relay_loads: "relay_simulator None parked_table = Inr (parked True 0)"
  by (simp add: relay_simulator_def simulator_init_def validate_team_def validate_session_def select_race_def load_data_def
      driver_filter_def lap_filter_def parked_table_def parked_row_def clean_row_def SENSOR_CHANNELS_def VALID_TEAMS_def
      VALID_SESSIONS_def AVAILABLE_RACES_def lower_char_def upper_char_def parked_def Let_def)

theorem relay_run_accounts_witness:
  "\<exists>st os r'. relay_run_simulation demo_pyca sample_keys parked_relay_run None parked_table relay_start = Inr (st, os, r') \<and>
    length os = 3 \<and> rs_received st = 3 \<and> rs_decrypted st = 3 \<and> rs_forwarded st + rs_dropped st = 3"
proof -
  have "good_relay_run (ic_config (rl_integrity relay_start)) parked_relay_run (parked True 0)"
    unfolding parked_relay_run_def relay_start_ready(4) by (rule parked_relay_good) simp
  from relay_run_accounts [OF sample_world relay_start_ready(1-3) parked_relay_loads this] show ?thesis
    by (simp add: parked_relay_run_def relay_start_ready(5) relay_stats_init_def) metis
qed

end
