(* ===== verification/Spec2Isabelle.thy ===== *)
theory Spec2Isabelle
  imports LossScenarios JitterScenarios TelemetryFeed AuditView KeyRotationView IamBreach RotationScenarios TrackAnalysis RelayRun
begin

text \<open>
  PitCrypt-F1: the telemetry pipeline from a car over a relay to the validator of the governing body,
  and the access control beside it, as definitions translated from the Python sources and theorems
  about them. The paths below are relative to the repository.

  The program. A car (\<open>car_producer/src\<close>) turns a telemetry frame into a packet of a 64-byte header and
  a JSON payload, signs header and payload with Ed25519, seals the payload with ChaCha20-Poly1305
  under the session key it shares with the relay, the header in clear as associated data, and sends
  it as JSON text behind a length. The relay (\<open>relay-node/src\<close>) parses and validates the text, opens the
  packet, checks sequence number, replay and age, checks the six channels for impossible values,
  and seals the payload again under the key it shares with the validator. The validator
  (\<open>validator-node/src\<close>) opens it, verifies the car's signature, compares the signed header with the
  metadata, checks the sequence again and a hash commitment where there is one, and records its
  decision in an audit trail. The access control (\<open>iam-module/src\<close>) decides by identity, policy and a
  list of allow and deny rules what a node may do. Around the pipeline, a simulator replays recorded
  telemetry as frames, scripts under \<open>simulations\<close> run the nodes under loss, delay and attack, a
  dashboard feeds frames through the pipeline and keeps what it shows, and scripts under \<open>performance\<close>
  measure laps.

  The theories, in the order in which they build on each other:

  \<^item> \<open>Prelude\<close>: dictionaries as association lists, results, generic lemmas, the collections
    \<open>dict_simps\<close> and \<open>op_defs\<close>.
  \<^item> \<open>PyVal\<close>: Python's values, exceptions and operators as far as the sources use them, IEEE doubles
    as rationals with rounding, UTF-8, hexadecimal text. \<open>ByteCodec\<close>: big-endian integers of
    \<open>struct\<close>. \<open>Sha256\<close>: \<open>hashlib.sha256\<close>. \<open>Json\<close>: \<open>json.dumps\<close> and \<open>json.loads\<close>.
  \<^item> \<open>PacketBuilder\<close>: \<open>packet_builder.py\<close>; its counters are the record \<open>builder\<close>, the header the
    record \<open>header\<close>, \<open>build\<close>, \<open>parse_header\<close>, \<open>parse_payload\<close> and \<open>verify_checksum\<close> the methods.
  \<^item> \<open>Crypto\<close>: \<open>crypto_engine.py\<close> (records \<open>session\<close> and \<open>engine\<close>); \<open>Encryptor\<close>: \<open>encryptor.py\<close>;
    \<open>Signer\<close>: \<open>signer.py\<close>; \<open>KeyScheduler\<close>: \<open>key_scheduler.py\<close>; \<open>CarProducer\<close>: \<open>main.py\<close> of the car.
  \<^item> \<open>PacketParser\<close>: \<open>packet_parser.py\<close>; \<open>ReplayGuard\<close>: the result type and the contract that the
    two sequence checkers share; \<open>IntegrityCheck\<close>: \<open>integrity_checker.py\<close>; \<open>Decryptor\<close>: \<open>decryptor.py\<close>;
    \<open>AnomalyFilter\<close>: \<open>anomaly_filters.py\<close>; \<open>Reencryptor\<close>: \<open>reencryptor.py\<close>; \<open>RelayNode\<close>: \<open>main.py\<close>
    of the relay, one definition per stage of \<open>process_packet\<close>.
  \<^item> \<open>SignatureVerify\<close>, \<open>SequenceCheck\<close>, \<open>ZkpVerifier\<close>, \<open>AuditLog\<close>: the files of the validator of the
    same names; \<open>ValidatorNode\<close>: its \<open>main.py\<close>, one definition per stage of \<open>validate_packet\<close>.
  \<^item> \<open>Pipeline\<close>: the three nodes composed.
  \<^item> \<open>PolicyLoader\<close>, \<open>IdentityStore\<close>, \<open>RbacEngine\<close>: the access control, the last one with
    \<open>access_auditor.py\<close>.
  \<^item> \<open>SensorSimulator\<close>: \<open>sensor_simulator.py\<close> of the car: the cleaning of the table, the stream of frames,
    the noise - a drawn deviation added and rounded - and injected anomalies. \<open>ValidatorRun\<close> and \<open>RelayRun\<close>: \<open>run_simulation\<close> of the two nodes'
    \<open>main.py\<close>, in which the simulator drives a car whose packets the node processes.
  \<^item> \<open>SimPipeline\<close>: the evaluation pipeline the simulations share, and what an honest packet does in it;
    \<open>LossScenarios\<close>, \<open>JitterScenarios\<close>, \<open>AttackScenarios\<close>, \<open>TamperScenarios\<close>, \<open>RotationScenarios\<close>, \<open>IamBreach\<close>:
    \<open>packet_loss_sim.py\<close>, \<open>jitter_sim.py\<close>, \<open>replay_attack_sim.py\<close>, \<open>tampering_sim.py\<close>, \<open>key_rotation_sim.py\<close> and
    \<open>iam_breach_sim.py\<close>, one definition per scenario and one for \<open>main\<close>.
  \<^item> \<open>PyText\<close>: \<open>str\<close>, \<open>repr\<close> and the string methods of the dashboard. \<open>ThreatPanel\<close>, \<open>AuditView\<close>,
    \<open>KeyRotationView\<close>, \<open>TelemetryFeed\<close>: the components of \<open>dashboard/components\<close> without their rendering.
  \<^item> \<open>FloatOrder\<close>: order facts of double arithmetic. \<open>CornerAnalysis\<close>, \<open>SectorAnalysis\<close>, \<open>TrackAnalysis\<close>: the
    files of \<open>performance\<close> of the same names.

  How the code is read. An object is a record of its attributes; a method takes the record and
  returns its result with the updated record. A result is \<open>exn + 'a\<close>, \<open>Inl\<close> the exception that leaves
  the method; the state beside it is what the method had assigned by then. Dictionaries of packets
  are association lists of Python values in insertion order. Clock readings, random bytes, keys,
  telemetry frames, random draws, the outcome of a connection attempt, of a write to a socket or of a file operation are arguments. The primitives of the
  \<open>cryptography\<close> package are the parameter \<open>pyca\<close>; the laws used of it (\<open>dh_law\<close>, \<open>aead_law\<close>, \<open>aead_total\<close>,
  \<open>sig_law\<close>) are hypotheses of the theorems that need them, and \<open>demo_pyca\<close> satisfies all of them.
  The threads around the scheduler are the step relation \<open>sched_step\<close>: packets are recorded, the background
  thread finds a rotation due, and any number of rotations are under way at once, each going through
  its locked regions, the engine's rotation between them and its log entry step by step.

  Interfaces. \<open>seq_monitor\<close> (accepted numbers of a node strictly increase), \<open>replay_guard\<close> (a checker
  that accepts only above the last number and remembers it) and \<open>guard_refinement\<close> (such a checker
  decides as an abstract guard with one number per node) are interpreted by the relay's and the
  validator's checker and, for whole nodes, by \<open>relay\<close> and \<open>validator\<close>; \<open>decision_log\<close> (append-only
  records with one counter per kind) by the audit log, the engine and the access auditor.

  What the lemmas show. Codecs and round trips: header, packet encryption, signatures, the JSON text
  on the wire. Validity: the parser accepts exactly the packings of known headers with their
  payload. Replay: neither checker, and neither node, ever accepts a number of a node twice.
  Soundness: what the relay forwards and what the validator accepts satisfies every check, with the
  payload unchanged. Composition: an honest packet arrives at the validator and is accepted.
  Accounting: statistics and audit trail agree with what happened; so does the rotation log up to the packets that
  are recorded inside a rotation or read by two at once, and overlapping rotations do log packets twice. A car whose
  connection was refused counts its packets as failed. Access is denied
  by default, and deny rules win. Simulations: what each evaluation reports, for every choice of keys,
  losses, delays and frames that its hypotheses allow: no honest packet is refused because others
  are lost, duplicates, replays and manipulations are refused, and at which stage. Dashboard: the feed's
  decisions are those of the filter, its counters account for the packets it counts, and an injected
  replay is not seen by the panel. Simulator: the stream goes round the table, the relay rejects
  injected anomalies, and also honest frames that noise pushed out of bounds; the validator accepts every packet of its own
  simulation run, and the relay loses only those its filter rejects. Laps: corners are
  in order, apart and do not overlap; sectors divide a lap up to a last bound that rounding may put
  before the last frame.

  Bounds. The JSON parser runs on fuel \<open>2 * length + 1\<close>; \<open>json_loads_fuel\<close> shows that it never runs
  out. Everything else recurses structurally or on a measure (distances to the end of a list). Integers are unbounded as in Python; fields of the
  header are checked against their widths as \<open>struct\<close> does; SHA-256 works on 32-bit words.

  Not modelled: logging and printing, result files and the command lines, TCP servers and
  connections beyond success or failure, the self tests, the measured latencies of the
  simulations; the reading of CSV files by pandas, the normal draws of numpy and the labels of track positions,
  which are arguments of the simulator; the Streamlit application \<open>dashboard/app.py\<close> and the rendering of
  the components; the data frames that the performance analyzers make of their rows, the lap
  aggregates and driver comparisons on top of pandas and numpy; the benchmarks and the forensic scripts, which
  fetch, plot and time; and the Rust crate in \<open>zkp-module\<close>, which the pipeline does not call. The
  recursion limit of the interpreter and memory exhaustion are not modelled.
\<close>

end
